(* ===== verification/Prelude.thy ===== *)
theory Prelude
  imports Main "HOL-Library.Word" "HOL-Library.Monad_Syntax"
begin

text \<open>
  Shared vocabulary of the development: the machine types of the Rust sources, the
  conventions for panics, and generic lemmas on lists, words and options.

  Conventions used by every theory.
  \<^item> A Rust function that can panic (an \<open>assert!\<close>, an \<open>unwrap\<close> of \<open>None\<close>, a slice
    index out of range, an underflow of an unsigned subtraction) returns an \<open>option\<close>:
    \<^term>\<open>None\<close> is the panic. Sequencing is the bind of the option monad.
  \<^item> A Rust \<open>Result\<close> is a sum: \<^term>\<open>Inl\<close> is \<open>Err\<close>, \<^term>\<open>Inr\<close> is \<open>Ok\<close>.
  \<^item> \<open>usize\<close> is \<^typ>\<open>nat\<close>: it counts elements of slices in memory, so sums of it do not reach
    the top of the machine range; differences do go through a checked subtraction.
  \<^item> Fixed-width integers whose wrap-around matters are words.
\<close>

named_theorems ring_simps \<open>unfolding of the ring buffer accessors\<close>
named_theorems asm_simps \<open>unfolding of the assembler's contig accessors\<close>
named_theorems seq_simps \<open>sequence number comparisons as signed differences\<close>
named_theorems timer_simps \<open>unfolding of the retransmission and ACK timers\<close>
named_theorems sock_simps \<open>unfolding of the small socket predicates\<close>

type_synonym u8 = "8 word"
type_synonym u16 = "16 word"
type_synonym u32 = "32 word"

abbreviation usize_max :: nat where
  "usize_max \<equiv> 2 ^ 64 - 1"

abbreviation u16_max :: nat where
  "u16_max \<equiv> 65535"

section \<open>Panics\<close>

definition panic_unless :: "bool \<Rightarrow> unit option" where
  "panic_unless b = (if b then Some () else None)"

lemma panic_unless_simps [simp]:
  "panic_unless True = Some ()"
  "panic_unless False = None"
  "panic_unless b = Some u \<longleftrightarrow> b"
  "panic_unless b = None \<longleftrightarrow> \<not> b"
  by (auto simp: panic_unless_def)

lemma panic_unless_bind [simp]:
  "b \<Longrightarrow> panic_unless b \<bind> f = f ()"
  by (simp add: panic_unless_def)

text \<open>Unsigned subtraction of \<open>usize\<close>: an underflow is a panic.\<close>

definition usize_sub :: "nat \<Rightarrow> nat \<Rightarrow> nat option" where
  "usize_sub a b = (if b \<le> a then Some (a - b) else None)"

lemma usize_sub_Some [simp]: "b \<le> a \<Longrightarrow> usize_sub a b = Some (a - b)"
  by (simp add: usize_sub_def)

lemma usize_sub_None [simp]: "a < b \<Longrightarrow> usize_sub a b = None"
  by (simp add: usize_sub_def)

lemma usize_sub_eq_Some: "usize_sub a b = Some c \<longleftrightarrow> b \<le> a \<and> c = a - b"
  by (auto simp: usize_sub_def)

section \<open>Slices\<close>

text \<open>\<open>&xs[a..b]\<close>: panics unless \<open>a \<le> b \<le> xs.len()\<close>.\<close>

definition slice :: "'a list \<Rightarrow> nat \<Rightarrow> nat \<Rightarrow> 'a list option" where
  "slice xs a b = (if a \<le> b \<and> b \<le> length xs then Some (take (b - a) (drop a xs)) else None)"

lemma slice_Some [simp]:
  "a \<le> b \<Longrightarrow> b \<le> length xs \<Longrightarrow> slice xs a b = Some (take (b - a) (drop a xs))"
  by (simp add: slice_def)

text \<open>The effect of writing \<open>ys\<close> through a mutable slice that starts at index \<open>a\<close>.\<close>

definition overwrite :: "'a list \<Rightarrow> nat \<Rightarrow> 'a list \<Rightarrow> 'a list" where
  "overwrite xs a ys = take a xs @ ys @ drop (a + length ys) xs"

lemma length_overwrite [simp]:
  "a + length ys \<le> length xs \<Longrightarrow> length (overwrite xs a ys) = length xs"
  by (simp add: overwrite_def)

lemma nth_overwrite:
  assumes "a + length ys \<le> length xs" and "i < length xs"
  shows "overwrite xs a ys ! i = (if a \<le> i \<and> i < a + length ys then ys ! (i - a) else xs ! i)"
proof -
  consider "i < a" | "a \<le> i" "i < a + length ys" | "a + length ys \<le> i" by linarith
  then show ?thesis
  proof cases
    case 3
    then have "overwrite xs a ys ! i = drop (a + length ys) xs ! (i - a - length ys)"
      using assms by (auto simp: overwrite_def nth_append)
    with 3 show ?thesis using assms by simp
  qed (use assms in \<open>auto simp: overwrite_def nth_append\<close>)
qed

lemma overwrite_Nil [simp]: "overwrite xs a [] = xs"
  by (simp add: overwrite_def)

lemma overwrite_singleton: "a < length xs \<Longrightarrow> overwrite xs a [x] = xs[a := x]"
  by (simp add: overwrite_def upd_conv_take_nth_drop)

lemma take_min_cong:
  assumes "min a (length xs) = min b (length xs)"
  shows "take a xs = take b xs"
proof -
  have "take a xs = take (min a (length xs)) xs" by (simp add: min_def)
  also have "\<dots> = take (min b (length xs)) xs" by (simp add: assms)
  also have "\<dots> = take b xs" by (simp add: min_def)
  finally show ?thesis .
qed

section \<open>Integer operations of the Rust standard library\<close>

text \<open>\<open>u32::div_ceil\<close>.\<close>

definition div_ceil :: "'a::len word \<Rightarrow> 'a word \<Rightarrow> 'a word" where
  "div_ceil a b = a div b + (if a mod b = 0 then 0 else 1)"

text \<open>Two's complement reduction to \<open>i64\<close>, for wrapping arithmetic and for the cast \<open>as i64\<close>.\<close>

definition wrap_i64 :: "int \<Rightarrow> int" where
  "wrap_i64 x = (x + 2 ^ 63) mod 2 ^ 64 - 2 ^ 63"

definition i64_range :: "int \<Rightarrow> bool" where
  "i64_range x \<longleftrightarrow> - (2 ^ 63) \<le> x \<and> x < 2 ^ 63"

lemma wrap_i64_id [simp]: "i64_range x \<Longrightarrow> wrap_i64 x = x"
  by (simp add: wrap_i64_def i64_range_def)

lemma wrap_i64_range [simp]: "i64_range (wrap_i64 x)"
proof -
  have "0 \<le> (x + 2 ^ 63) mod 2 ^ 64" "(x + 2 ^ 63) mod 2 ^ 64 < 2 ^ 64" by simp_all
  then show ?thesis unfolding i64_range_def wrap_i64_def by simp
qed

lemma wrap_i64_absorb [simp]:
  "wrap_i64 (x + wrap_i64 y) = wrap_i64 (x + y)"
  "wrap_i64 (x - wrap_i64 y) = wrap_i64 (x - y)"
  "wrap_i64 (wrap_i64 x - y) = wrap_i64 (x - y)"
proof -
  show "wrap_i64 (x + wrap_i64 y) = wrap_i64 (x + y)"
    by (simp add: wrap_i64_def mod_simps add.assoc)
  show "wrap_i64 (x - wrap_i64 y) = wrap_i64 (x - y)"
    using mod_diff_right_eq [of "x + 2 ^ 64" "y + 2 ^ 63" "2 ^ 64"]
    by (simp add: wrap_i64_def algebra_simps)
  show "wrap_i64 (wrap_i64 x - y) = wrap_i64 (x - y)"
    using mod_diff_left_eq [of "x + 2 ^ 63" "2 ^ 64" y]
    by (simp add: wrap_i64_def algebra_simps)
qed

text \<open>\<open>u16::try_from(n).unwrap_or(u16::MAX)\<close>.\<close>

definition u16_saturate :: "nat \<Rightarrow> u16" where
  "u16_saturate n = (if n \<le> u16_max then of_nat n else of_nat u16_max)"

lemma unat_u16_saturate [simp]: "unat (u16_saturate n) = min n u16_max"
  by (simp add: u16_saturate_def unat_of_nat take_bit_eq_mod min_def)

end
