(* ===== verification/Time.thy ===== *)
theory Time
  imports Prelude "HOL-Library.Signed_Division"
begin

text \<open>
  \<open>src/smoltcp/src/time.rs\<close>: absolute time (\<open>Instant\<close>, a signed 64-bit number of
  microseconds) and relative time (\<open>Duration\<close>, an unsigned one). Arithmetic wraps at 64
  bits, as in a build without overflow checks; \<open>Duration\<close> subtraction uses
  \<open>checked_sub\<close> and panics in every build. Division and remainder of \<open>i64\<close> truncate
  towards zero. The conversions from and to \<open>std::time\<close> and the formatting are left out.
\<close>

section \<open>Instants and durations\<close>

datatype instant = Instant (instant_micros: int)

datatype duration = Duration (duration_micros: nat)

text \<open>Both types derive \<open>Ord\<close>, which compares the wrapped number.\<close>

instantiation instant :: linorder
begin

definition less_eq_instant :: "instant \<Rightarrow> instant \<Rightarrow> bool" where
  "a \<le> b \<longleftrightarrow> instant_micros a \<le> instant_micros b"

definition less_instant :: "instant \<Rightarrow> instant \<Rightarrow> bool" where
  "a < b \<longleftrightarrow> instant_micros a < instant_micros b"

instance
  by standard (auto simp: less_eq_instant_def less_instant_def instant.expand)

end

instantiation duration :: linorder
begin

definition less_eq_duration :: "duration \<Rightarrow> duration \<Rightarrow> bool" where
  "a \<le> b \<longleftrightarrow> duration_micros a \<le> duration_micros b"

definition less_duration :: "duration \<Rightarrow> duration \<Rightarrow> bool" where
  "a < b \<longleftrightarrow> duration_micros a < duration_micros b"

instance
  by standard (auto simp: less_eq_duration_def less_duration_def duration.expand)

end

definition wrap_u64 :: "nat \<Rightarrow> nat" where
  "wrap_u64 n = n mod 2 ^ 64"

subsection \<open>Construction\<close>

definition instant_from_micros :: "int \<Rightarrow> instant" where
  "instant_from_micros n = Instant n"

definition instant_zero :: instant where
  "instant_zero = instant_from_micros 0"

definition instant_from_millis :: "int \<Rightarrow> instant" where
  "instant_from_millis n = Instant (wrap_i64 (n * 1000))"

definition instant_from_secs :: "int \<Rightarrow> instant" where
  "instant_from_secs n = Instant (wrap_i64 (n * 1000000))"

definition duration_from_micros :: "nat \<Rightarrow> duration" where
  "duration_from_micros n = Duration n"

definition duration_zero :: duration where
  "duration_zero = duration_from_micros 0"

definition duration_max :: duration where
  "duration_max = duration_from_micros (2 ^ 64 - 1)"

definition duration_from_millis :: "nat \<Rightarrow> duration" where
  "duration_from_millis n = Duration (wrap_u64 (n * 1000))"

definition duration_from_secs :: "nat \<Rightarrow> duration" where
  "duration_from_secs n = Duration (wrap_u64 (n * 1000000))"

subsection \<open>Reading\<close>

definition instant_millis :: "instant \<Rightarrow> int" where
  "instant_millis i = (instant_micros i smod 1000000) sdiv 1000"

definition instant_sub_micros :: "instant \<Rightarrow> int" where
  "instant_sub_micros i = instant_micros i smod 1000000"

definition instant_secs :: "instant \<Rightarrow> int" where
  "instant_secs i = instant_micros i sdiv 1000000"

definition instant_total_millis :: "instant \<Rightarrow> int" where
  "instant_total_millis i = instant_micros i sdiv 1000"

definition instant_total_micros :: "instant \<Rightarrow> int" where
  "instant_total_micros i = instant_micros i"

definition duration_millis :: "duration \<Rightarrow> nat" where
  "duration_millis d = duration_micros d div 1000 mod 1000"

definition duration_sub_micros :: "duration \<Rightarrow> nat" where
  "duration_sub_micros d = duration_micros d mod 1000000"

definition duration_secs :: "duration \<Rightarrow> nat" where
  "duration_secs d = duration_micros d div 1000000"

definition duration_total_millis :: "duration \<Rightarrow> nat" where
  "duration_total_millis d = duration_micros d div 1000"

definition duration_total_micros :: "duration \<Rightarrow> nat" where
  "duration_total_micros d = duration_micros d"

subsection \<open>Arithmetic\<close>

text \<open>\<open>Instant + Duration\<close>: the duration is cast to \<open>i64\<close> first.\<close>

definition instant_add :: "instant \<Rightarrow> duration \<Rightarrow> instant" where
  "instant_add i d = Instant (wrap_i64 (instant_micros i + wrap_i64 (int (duration_micros d))))"

definition instant_sub :: "instant \<Rightarrow> duration \<Rightarrow> instant" where
  "instant_sub i d = Instant (wrap_i64 (instant_micros i - wrap_i64 (int (duration_micros d))))"

text \<open>\<open>Instant - Instant\<close>: the absolute value of the difference.\<close>

definition instant_diff :: "instant \<Rightarrow> instant \<Rightarrow> duration" where
  "instant_diff a b = Duration (nat \<bar>wrap_i64 (instant_micros a - instant_micros b)\<bar>)"

definition duration_add :: "duration \<Rightarrow> duration \<Rightarrow> duration" where
  "duration_add a b = Duration (wrap_u64 (duration_micros a + duration_micros b))"

definition duration_sub :: "duration \<Rightarrow> duration \<Rightarrow> duration option" where
  "duration_sub a b = map_option Duration (usize_sub (duration_micros a) (duration_micros b))"

definition duration_mul :: "duration \<Rightarrow> u32 \<Rightarrow> duration" where
  "duration_mul d n = Duration (wrap_u64 (duration_micros d * unat n))"

text \<open>Division by zero panics.\<close>

definition duration_div :: "duration \<Rightarrow> u32 \<Rightarrow> duration option" where
  "duration_div d n =
     (if n = 0 then None else Some (Duration (duration_micros d div unat n)))"

text \<open>Without overflow checks a shift uses its amount modulo the width.\<close>

definition duration_shl :: "duration \<Rightarrow> u32 \<Rightarrow> duration" where
  "duration_shl d n = Duration (wrap_u64 (duration_micros d * 2 ^ (unat n mod 64)))"

definition duration_shr :: "duration \<Rightarrow> u32 \<Rightarrow> duration" where
  "duration_shr d n = Duration (duration_micros d div 2 ^ (unat n mod 64))"

section \<open>Laws\<close>

definition instant_ok :: "instant \<Rightarrow> bool" where
  "instant_ok i \<longleftrightarrow> i64_range (instant_micros i)"

definition duration_ok :: "duration \<Rightarrow> bool" where
  "duration_ok d \<longleftrightarrow> duration_micros d < 2 ^ 64"

text \<open>The sum of an instant and a duration does not leave \<open>i64\<close>.\<close>

definition add_fits :: "instant \<Rightarrow> duration \<Rightarrow> bool" where
  "add_fits i d \<longleftrightarrow> instant_micros i + int (duration_micros d) < 2 ^ 63"

lemma instant_ok_ops [simp]:
  "instant_ok (instant_add i d)" "instant_ok (instant_sub i d)"
  "instant_ok (instant_from_millis n)" "instant_ok (instant_from_secs n)"
  by (simp_all add: instant_ok_def instant_add_def instant_sub_def instant_from_millis_def
      instant_from_secs_def)

lemma instant_le_add:
  assumes "add_fits i d" and "instant_ok i"
  shows "i \<le> instant_add i d"
proof -
  have "i64_range (instant_micros i + int (duration_micros d))"
    using assms by (simp add: add_fits_def instant_ok_def i64_range_def)
  then show ?thesis by (simp add: less_eq_instant_def instant_add_def)
qed

lemma duration_sub_None_iff: "duration_sub a b = None \<longleftrightarrow> a < b"
  by (auto simp: duration_sub_def less_duration_def usize_sub_def)

text \<open>
  Adding a duration to an instant and subtracting the instant again gives the duration
  back, whenever the duration fits in \<open>i64\<close>, even when the sum wraps around.
\<close>

lemma instant_add_diff:
  assumes "duration_micros d < 2 ^ 63"
  shows "instant_diff (instant_add i d) i = d"
proof -
  have "i64_range (int (duration_micros d))"
    using assms by (simp add: i64_range_def)
  then show ?thesis
    by (simp add: instant_diff_def instant_add_def)
qed

lemma instant_add_diff_witness:
  "instant_diff (instant_add (Instant (2 ^ 63 - 1)) (Duration 7)) (Instant (2 ^ 63 - 1)) = Duration 7"
  by (rule instant_add_diff) simp

text \<open>Whole seconds and the fractional part recompose the instant, also before time zero.\<close>

lemma instant_recompose: "instant_secs i * 1000000 + instant_sub_micros i = instant_micros i"
  by (simp add: instant_secs_def instant_sub_micros_def sdiv_mult_smod_eq)

end
