(* ===== verification/Interfaces.thy ===== *)
theory Interfaces
  imports Prelude
begin

text \<open>
  Contracts between components, as locales: what a client may assume of the operations it
  calls, and what follows for the client. The provider's theory interprets each locale on its own
  definitions. Here: the byte queue that a socket keeps for one direction of a stream.
\<close>

section \<open>Bounded queues\<close>

text \<open>
  \<open>push xs\<close> takes the prefix of \<open>xs\<close> that fits; \<open>pop buf\<close> overwrites the start of the
  destination \<open>buf\<close> with as many elements as there are and as fit. Both return the number
  of elements moved, and \<^term>\<open>None\<close> would be a panic.
\<close>

datatype 'a fifo_op = Push "'a list" | Pop "'a list"

text \<open>A run of operations: all elements accepted, all elements delivered, the final queue.\<close>

fun fifo_run ::
  "('a list \<Rightarrow> 'q \<Rightarrow> (nat \<times> 'q) option) \<Rightarrow> ('a list \<Rightarrow> 'q \<Rightarrow> ((nat \<times> 'a list) \<times> 'q) option) \<Rightarrow>
   'a fifo_op list \<Rightarrow> 'q \<Rightarrow> ('a list \<times> 'a list \<times> 'q) option" where
  "fifo_run push pop [] q = Some ([], [], q)"
| "fifo_run push pop (Push xs # ops) q =
     do { (n, q1) \<leftarrow> push xs q;
          (acc, del, q2) \<leftarrow> fifo_run push pop ops q1;
          Some (take n xs @ acc, del, q2) }"
| "fifo_run push pop (Pop buf # ops) q =
     do { ((n, out), q1) \<leftarrow> pop buf q;
          (acc, del, q2) \<leftarrow> fifo_run push pop ops q1;
          Some (acc, take n out @ del, q2) }"

locale bounded_fifo =
  fixes inv :: "'q \<Rightarrow> bool"
    and contents :: "'q \<Rightarrow> 'a list"
    and capacity :: "'q \<Rightarrow> nat"
    and push :: "'a list \<Rightarrow> 'q \<Rightarrow> (nat \<times> 'q) option"
    and pop :: "'a list \<Rightarrow> 'q \<Rightarrow> ((nat \<times> 'a list) \<times> 'q) option"
  assumes contents_le: "inv q \<Longrightarrow> length (contents q) \<le> capacity q"
    and push_ok: "inv q \<Longrightarrow> n = min (length xs) (capacity q - length (contents q)) \<Longrightarrow>
      \<exists>q'. push xs q = Some (n, q') \<and> inv q' \<and> capacity q' = capacity q \<and>
        contents q' = contents q @ take n xs"
    and pop_ok: "inv q \<Longrightarrow> n = min (length buf) (length (contents q)) \<Longrightarrow>
      \<exists>q'. pop buf q = Some ((n, overwrite buf 0 (take n (contents q))), q') \<and> inv q' \<and>
        capacity q' = capacity q \<and> contents q' = drop n (contents q)"
begin

text \<open>
  No run panics, and no element is lost, duplicated or reordered: what was queued
  before followed by what was accepted is what was delivered followed by what is queued after.
\<close>

lemma fifo_lossless:
  "inv q \<Longrightarrow> \<exists>acc del q'. fifo_run push pop ops q = Some (acc, del, q') \<and> inv q' \<and>
     capacity q' = capacity q \<and> contents q @ acc = del @ contents q'"
proof (induction ops arbitrary: q)
  case Nil
  then show ?case by simp
next
  case (Cons x ops)
  show ?case
  proof (cases x)
    case (Push xs)
    obtain n q1 where q1: "push xs q = Some (n, q1)" "inv q1" "capacity q1 = capacity q"
      "contents q1 = contents q @ take n xs"
      using push_ok [OF Cons.prems refl] by blast
    from Cons.IH [OF q1(2)] obtain acc del q2 where
      "fifo_run push pop ops q1 = Some (acc, del, q2)" "inv q2" "capacity q2 = capacity q1"
      "contents q1 @ acc = del @ contents q2" by blast
    with q1 Push show ?thesis by simp
  next
    case (Pop buf)
    let ?n = "min (length buf) (length (contents q))"
    obtain q1 where q1: "pop buf q = Some ((?n, overwrite buf 0 (take ?n (contents q))), q1)"
      "inv q1" "capacity q1 = capacity q" "contents q1 = drop ?n (contents q)"
      using pop_ok [OF Cons.prems refl] by blast
    from Cons.IH [OF q1(2)] obtain acc del q2 where
      run: "fifo_run push pop ops q1 = Some (acc, del, q2)" "inv q2" "capacity q2 = capacity q1"
      "contents q1 @ acc = del @ contents q2" by blast
    have "take ?n (overwrite buf 0 (take ?n (contents q))) = take ?n (contents q)"
      by (simp add: overwrite_def)
    moreover have "contents q @ acc = take ?n (contents q) @ del @ contents q2"
      using run(4) q1(4) by (metis append.assoc append_take_drop_id)
    ultimately show ?thesis using q1 run Pop by simp
  qed
qed

end

section \<open>Reassembly\<close>

text \<open>
  What the TCP socket relies on of its receive buffer. \<open>content\<close> is the contiguous data; \<open>room\<close> is
  the space behind it; \<open>agrees f b\<close> says that all octets held by \<open>b\<close>, also those behind holes,
  are those of \<open>f\<close>, counted from the start of the content.
\<close>

locale reassembly =
  fixes ok :: "'b \<Rightarrow> bool"
    and room :: "'b \<Rightarrow> nat"
    and content :: "'b \<Rightarrow> 'a list"
    and agrees :: "(nat \<Rightarrow> 'a) \<Rightarrow> 'b \<Rightarrow> bool"
    and store :: "nat \<Rightarrow> 'a list \<Rightarrow> 'b \<Rightarrow> 'b option option"
    and consume :: "nat \<Rightarrow> 'b \<Rightarrow> 'b"
  assumes store_ok: "ok b \<Longrightarrow> offset + length xs \<le> room b \<Longrightarrow> xs \<noteq> [] \<Longrightarrow>
      \<exists>res. store offset xs b = Some res \<and> (\<forall>b'. res = Some b' \<longrightarrow> ok b' \<and>
        (\<exists>ys. content b' = content b @ ys) \<and>
        room b' + length (content b') = room b + length (content b))"
    and store_next: "ok b \<Longrightarrow> length xs \<le> room b \<Longrightarrow> xs \<noteq> [] \<Longrightarrow>
      \<exists>b'. store 0 xs b = Some (Some b') \<and> length (content b) + length xs \<le> length (content b')"
    and store_agrees: "ok b \<Longrightarrow> agrees f b \<Longrightarrow> offset + length xs \<le> room b \<Longrightarrow> xs \<noteq> [] \<Longrightarrow>
      (\<And>i. i < length xs \<Longrightarrow> xs ! i = f (length (content b) + offset + i)) \<Longrightarrow>
      store offset xs b = Some (Some b') \<Longrightarrow> agrees f b'"
    and agrees_content: "ok b \<Longrightarrow> agrees f b \<Longrightarrow> content b = map f [0..<length (content b)]"
    and consume_ok: "ok b \<Longrightarrow> n \<le> length (content b) \<Longrightarrow>
      ok (consume n b) \<and> content (consume n b) = drop n (content b) \<and> room (consume n b) = room b + n"
    and consume_agrees: "ok b \<Longrightarrow> agrees f b \<Longrightarrow> n \<le> length (content b) \<Longrightarrow>
      agrees (\<lambda>i. f (n + i)) (consume n b)"
begin

text \<open>What a read takes out, and that the rest of the stream is still to come.\<close>

lemma consume_stream:
  assumes "ok b" and "agrees (\<lambda>i. stream (base + i)) b" and "n \<le> length (content b)"
  shows "take n (content b) = map stream [base..<base + n]"
    and "agrees (\<lambda>i. stream (base + n + i)) (consume n b)"
proof -
  have "content b ! i = stream (base + i)" if "i < length (content b)" for i
    using that by (subst agrees_content [OF assms(1,2)]) simp
  then show "take n (content b) = map stream [base..<base + n]"
    using assms(3) by (intro nth_equalityI) simp_all
  show "agrees (\<lambda>i. stream (base + n + i)) (consume n b)"
    using consume_agrees [OF assms] by (simp add: add.assoc)
qed

end

end
