(* ===== verification/Ring_Buffer.thy ===== *)
theory Ring_Buffer
  imports Interfaces
begin

text \<open>
  \<open>src/smoltcp/src/storage/ring_buffer.rs\<close>: the ring buffer under every socket. A ring is
  its storage, the index of the first allocated element and the number of allocated
  elements. The three interfaces of the source are modelled in turn: the discrete one
  (single elements), the continuous one (slices) and the random access one.

  A closure that receives a mutable slice returns, beside its own result, the new contents of
  that slice. A method that returns a mutable reference into the storage returns the storage
  index of the element, or the start and length of the slice.

  The invariant is \<open>rb_inv\<close>; the abstraction is the list of allocated elements, \<open>rb_list\<close>,
  and, for the random access interface, the element at a logical index, \<open>rb_at\<close>.
\<close>

section \<open>The ring\<close>

record 'a ring_buffer =
  rb_storage :: "'a list"
  rb_read_at :: nat
  rb_length :: nat

datatype full = Full
datatype empty = Empty

definition rb_new :: "'a list \<Rightarrow> 'a ring_buffer" where
  "rb_new s = \<lparr>rb_storage = s, rb_read_at = 0, rb_length = 0\<rparr>"

definition rb_clear :: "'a ring_buffer \<Rightarrow> 'a ring_buffer" where
  "rb_clear b = b\<lparr>rb_read_at := 0, rb_length := 0\<rparr>"

definition rb_capacity :: "'a ring_buffer \<Rightarrow> nat" where
  "rb_capacity b = length (rb_storage b)"

definition rb_reset :: "('a \<Rightarrow> 'a) \<Rightarrow> 'a ring_buffer \<Rightarrow> 'a ring_buffer" where
  "rb_reset reset b = (rb_clear b)\<lparr>rb_storage := map reset (rb_storage b)\<rparr>"

definition rb_len :: "'a ring_buffer \<Rightarrow> nat" where
  "rb_len b = rb_length b"

text \<open>The subtraction does not underflow under \<open>rb_inv\<close>.\<close>

definition rb_window :: "'a ring_buffer \<Rightarrow> nat" where
  "rb_window b = rb_capacity b - rb_len b"

definition rb_is_empty :: "'a ring_buffer \<Rightarrow> bool" where
  "rb_is_empty b \<longleftrightarrow> rb_len b = 0"

definition rb_is_full :: "'a ring_buffer \<Rightarrow> bool" where
  "rb_is_full b \<longleftrightarrow> rb_window b = 0"

definition get_idx :: "'a ring_buffer \<Rightarrow> nat \<Rightarrow> nat" where
  "get_idx b idx =
     (let len = rb_capacity b in if len > 0 then (rb_read_at b + idx) mod len else 0)"

definition get_idx_unchecked :: "'a ring_buffer \<Rightarrow> nat \<Rightarrow> nat" where
  "get_idx_unchecked b idx = (rb_read_at b + idx) mod rb_capacity b"

definition rb_contiguous_window :: "'a ring_buffer \<Rightarrow> nat" where
  "rb_contiguous_window b = min (rb_window b) (rb_capacity b - get_idx b (rb_length b))"

subsection \<open>The discrete interface\<close>

definition enqueue_one_with ::
  "('a \<Rightarrow> ('e + 'r) \<times> 'a) \<Rightarrow> 'a ring_buffer \<Rightarrow> full + (('e + 'r) \<times> 'a ring_buffer)" where
  "enqueue_one_with f b =
     (if rb_is_full b then Inl Full
      else let index = get_idx_unchecked b (rb_length b);
               (res, x) = f (rb_storage b ! index);
               b1 = b\<lparr>rb_storage := (rb_storage b)[index := x]\<rparr>
           in Inr (res, if isl res then b1 else b1\<lparr>rb_length := rb_length b1 + 1\<rparr>))"

text \<open>The result holds the storage index that the returned reference points to.\<close>

definition enqueue_one :: "'a ring_buffer \<Rightarrow> full + (nat \<times> 'a ring_buffer)" where
  "enqueue_one b =
     (case enqueue_one_with (\<lambda>x. (Inr () :: unit + unit, x)) b of
        Inl e \<Rightarrow> Inl e
      | Inr (_, b') \<Rightarrow> Inr (get_idx_unchecked b (rb_length b), b'))"

definition dequeue_one_with ::
  "('a \<Rightarrow> ('e + 'r) \<times> 'a) \<Rightarrow> 'a ring_buffer \<Rightarrow> empty + (('e + 'r) \<times> 'a ring_buffer)" where
  "dequeue_one_with f b =
     (if rb_is_empty b then Inl Empty
      else let next_at = get_idx_unchecked b 1;
               (res, x) = f (rb_storage b ! rb_read_at b);
               b1 = b\<lparr>rb_storage := (rb_storage b)[rb_read_at b := x]\<rparr>
           in Inr (res, if isl res then b1
                        else b1\<lparr>rb_length := rb_length b1 - 1, rb_read_at := next_at\<rparr>))"

definition dequeue_one :: "'a ring_buffer \<Rightarrow> empty + (nat \<times> 'a ring_buffer)" where
  "dequeue_one b =
     (case dequeue_one_with (\<lambda>x. (Inr () :: unit + unit, x)) b of
        Inl e \<Rightarrow> Inl e
      | Inr (_, b') \<Rightarrow> Inr (rb_read_at b, b'))"

subsection \<open>The continuous interface\<close>

definition enqueue_many_with ::
  "('a list \<Rightarrow> nat \<times> 'r \<times> 'a list) \<Rightarrow> 'a ring_buffer \<Rightarrow> ((nat \<times> 'r) \<times> 'a ring_buffer) option"
where
  "enqueue_many_with f b =
     (let b = (if rb_length b = 0 then b\<lparr>rb_read_at := 0\<rparr> else b);
          write_at = get_idx b (rb_length b);
          max_size = rb_contiguous_window b;
          (size, result, buf) = f (take max_size (drop write_at (rb_storage b)))
      in if size \<le> max_size
         then Some ((size, result),
                b\<lparr>rb_storage := overwrite (rb_storage b) write_at buf,
                  rb_length := rb_length b + size\<rparr>)
         else None)"

text \<open>Start and length of the slice that is enqueued.\<close>

definition enqueue_many :: "nat \<Rightarrow> 'a ring_buffer \<Rightarrow> ((nat \<times> nat) \<times> 'a ring_buffer) option" where
  "enqueue_many sz b =
     do { ((n, _), b') \<leftarrow>
            enqueue_many_with (\<lambda>buf. (min sz (length buf), (), buf)) b;
          Some ((get_idx b' (rb_length b' - n), n), b') }"

text \<open>The closure of \<open>enqueue_slice\<close>: copy what fits, and keep the rest of the data.\<close>

definition copy_in :: "'a list \<Rightarrow> 'a list \<Rightarrow> nat \<times> 'a list \<times> 'a list" where
  "copy_in data buf =
     (let size = min (length buf) (length data)
      in (size, drop size data, overwrite buf 0 (take size data)))"

definition enqueue_slice :: "'a list \<Rightarrow> 'a ring_buffer \<Rightarrow> (nat \<times> 'a ring_buffer) option" where
  "enqueue_slice data b =
     do { ((size_1, data'), b1) \<leftarrow> enqueue_many_with (copy_in data) b;
          ((size_2, _), b2) \<leftarrow> enqueue_many_with (copy_in data') b1;
          Some (size_1 + size_2, b2) }"

definition dequeue_many_with ::
  "('a list \<Rightarrow> nat \<times> 'r \<times> 'a list) \<Rightarrow> 'a ring_buffer \<Rightarrow> ((nat \<times> 'r) \<times> 'a ring_buffer) option"
where
  "dequeue_many_with f b =
     (let capacity = rb_capacity b;
          max_size = min (rb_len b) (capacity - rb_read_at b);
          (size, result, buf) = f (take max_size (drop (rb_read_at b) (rb_storage b)))
      in if size \<le> max_size
         then Some ((size, result),
                b\<lparr>rb_storage := overwrite (rb_storage b) (rb_read_at b) buf,
                  rb_read_at := (if capacity > 0 then (rb_read_at b + size) mod capacity else 0),
                  rb_length := rb_length b - size\<rparr>)
         else None)"

definition dequeue_many :: "nat \<Rightarrow> 'a ring_buffer \<Rightarrow> ('a list \<times> 'a ring_buffer) option" where
  "dequeue_many sz b =
     do { ((_, buf), b') \<leftarrow>
            dequeue_many_with
              (\<lambda>buf. let n = min sz (length buf) in (n, take n buf, buf)) b;
          Some (buf, b') }"

text \<open>
  The closure of \<open>dequeue_slice\<close>, for a destination with room for \<open>room\<close> elements: the elements
  it copies out.
\<close>

definition copy_out :: "nat \<Rightarrow> 'a list \<Rightarrow> nat \<times> 'a list \<times> 'a list" where
  "copy_out room buf = (let size = min (length buf) room in (size, take size buf, buf))"

text \<open>The destination slice \<open>data\<close> is overwritten from its start.\<close>

definition dequeue_slice ::
  "'a list \<Rightarrow> 'a ring_buffer \<Rightarrow> ((nat \<times> 'a list) \<times> 'a ring_buffer) option" where
  "dequeue_slice data b =
     do { ((size_1, out_1), b1) \<leftarrow> dequeue_many_with (copy_out (length data)) b;
          ((size_2, out_2), b2) \<leftarrow> dequeue_many_with (copy_out (length data - size_1)) b1;
          Some ((size_1 + size_2, overwrite data 0 (out_1 @ out_2)), b2) }"

subsection \<open>The random access interface\<close>

text \<open>Start and length of the slice.\<close>

definition get_unallocated :: "nat \<Rightarrow> nat \<Rightarrow> 'a ring_buffer \<Rightarrow> nat \<times> nat" where
  "get_unallocated offset sz b =
     (let start_at = get_idx b (rb_length b + offset)
      in if offset > rb_window b then (0, 0)
         else let clamped_window = rb_window b - offset;
                  size = (if sz > clamped_window then clamped_window else sz);
                  until_end = rb_capacity b - start_at;
                  size = (if size > until_end then until_end else size)
              in (start_at, size))"

definition write_unallocated :: "nat \<Rightarrow> 'a list \<Rightarrow> 'a ring_buffer \<Rightarrow> nat \<times> 'a ring_buffer" where
  "write_unallocated offset data b =
     (let (start_1, size_1) = get_unallocated offset (length data) b;
          b1 = b\<lparr>rb_storage := overwrite (rb_storage b) start_1 (take size_1 data)\<rparr>;
          offset = offset + size_1;
          data = drop size_1 data;
          (start_2, size_2) = get_unallocated offset (length data) b1;
          b2 = b1\<lparr>rb_storage := overwrite (rb_storage b1) start_2 (take size_2 data)\<rparr>
      in (size_1 + size_2, b2))"

definition enqueue_unallocated :: "nat \<Rightarrow> 'a ring_buffer \<Rightarrow> 'a ring_buffer option" where
  "enqueue_unallocated count b =
     do { panic_unless (count \<le> rb_window b);
          Some (b\<lparr>rb_length := rb_length b + count\<rparr>) }"

definition get_allocated :: "nat \<Rightarrow> nat \<Rightarrow> 'a ring_buffer \<Rightarrow> 'a list" where
  "get_allocated offset sz b =
     (let start_at = get_idx b offset
      in if offset > rb_length b then []
         else let clamped_length = rb_length b - offset;
                  size = (if sz > clamped_length then clamped_length else sz);
                  until_end = rb_capacity b - start_at;
                  size = (if size > until_end then until_end else size)
              in take size (drop start_at (rb_storage b)))"

definition read_allocated :: "nat \<Rightarrow> 'a list \<Rightarrow> 'a ring_buffer \<Rightarrow> nat \<times> 'a list" where
  "read_allocated offset data b =
     (let slice_1 = get_allocated offset (length data) b;
          slice_2 = get_allocated (offset + length slice_1) (length data - length slice_1) b
      in (length slice_1 + length slice_2, overwrite data 0 (slice_1 @ slice_2)))"

definition dequeue_allocated :: "nat \<Rightarrow> 'a ring_buffer \<Rightarrow> 'a ring_buffer option" where
  "dequeue_allocated count b =
     do { panic_unless (count \<le> rb_len b);
          let b1 = b\<lparr>rb_length := rb_length b - count\<rparr>;
          Some (b1\<lparr>rb_read_at := get_idx b1 count\<rparr>) }"

section \<open>Invariant and abstraction\<close>

definition rb_inv :: "'a ring_buffer \<Rightarrow> bool" where
  "rb_inv b \<longleftrightarrow> rb_length b \<le> rb_capacity b \<and>
     (if rb_capacity b = 0 then rb_read_at b = 0 else rb_read_at b < rb_capacity b)"

text \<open>The element at a logical index, counted from the first allocated element.\<close>

definition rb_at :: "'a ring_buffer \<Rightarrow> nat \<Rightarrow> 'a" where
  "rb_at b i = rb_storage b ! ((rb_read_at b + i) mod rb_capacity b)"

definition rb_list :: "'a ring_buffer \<Rightarrow> 'a list" where
  "rb_list b = map (rb_at b) [0..<rb_length b]"

lemma length_rb_list [simp]: "length (rb_list b) = rb_length b"
  by (simp add: rb_list_def)

lemma nth_rb_list [simp]: "i < rb_length b \<Longrightarrow> rb_list b ! i = rb_at b i"
  by (simp add: rb_list_def)

lemma rb_list_eqI:
  assumes "length xs = rb_length b" and "\<And>i. i < rb_length b \<Longrightarrow> rb_at b i = xs ! i"
  shows "rb_list b = xs"
  using assms by (auto intro!: nth_equalityI)

lemmas rb_simps = rb_capacity_def rb_len_def rb_window_def rb_is_empty_def rb_is_full_def

text \<open>Ring positions: one wrap at most.\<close>

lemma ring_pos:
  fixes r i c :: nat
  assumes "r < c" and "i \<le> c"
  shows "(r + i) mod c = (if r + i < c then r + i else r + i - c)"
  using assms by (simp add: mod_if)

lemma get_idx_pos:
  assumes "rb_inv b" and "i \<le> rb_capacity b"
  shows "get_idx b i =
    (if rb_read_at b + i < rb_capacity b then rb_read_at b + i else rb_read_at b + i - rb_capacity b)"
  using assms by (auto simp: get_idx_def Let_def rb_inv_def ring_pos split: if_splits)

lemma rb_at_pos:
  assumes "rb_inv b" and "i < rb_capacity b"
  shows "rb_at b i = rb_storage b !
    (if rb_read_at b + i < rb_capacity b then rb_read_at b + i else rb_read_at b + i - rb_capacity b)"
  using assms by (auto simp: rb_at_def rb_inv_def ring_pos split: if_splits)

lemma get_idx_bound: "rb_inv b \<Longrightarrow> get_idx b i \<le> rb_capacity b"
  by (cases "rb_capacity b = 0") (auto simp: get_idx_def Let_def less_imp_le)

lemma rb_inv_new [simp]: "rb_inv (rb_new s)"
  by (simp add: rb_inv_def rb_new_def rb_capacity_def)

lemma rb_list_new [simp]: "rb_list (rb_new s) = []"
  by (simp add: rb_list_def rb_new_def)

lemma rb_clear_props [simp]:
  "rb_inv (rb_clear b)" "rb_list (rb_clear b) = []" "rb_capacity (rb_clear b) = rb_capacity b"
  "rb_length (rb_clear b) = 0" "rb_storage (rb_clear b) = rb_storage b"
  by (simp_all add: rb_inv_def rb_list_def rb_clear_def rb_capacity_def)

section \<open>Writing a contiguous slice\<close>

text \<open>
  All writes of the model go to a contiguous slice of the storage that holds the elements at
  the logical indices \<open>k\<close>, \<open>k + 1\<close>, \<open>\<dots>\<close>. Such a write changes exactly these elements.
\<close>

lemma rb_at_overwrite:
  assumes inv: "rb_inv b" and k: "k + length ys \<le> rb_capacity b" and i: "i < rb_capacity b"
    and fits: "get_idx b k + length ys \<le> rb_capacity b"
  shows "rb_at (b\<lparr>rb_storage := overwrite (rb_storage b) (get_idx b k) ys\<rparr>) i
    = (if k \<le> i \<and> i < k + length ys then ys ! (i - k) else rb_at b i)"
proof -
  let ?c = "rb_capacity b"
  let ?b = "b\<lparr>rb_storage := overwrite (rb_storage b) (get_idx b k) ys\<rparr>"
  have cap: "rb_capacity ?b = ?c" using fits by (simp add: rb_capacity_def)
  have inv': "rb_inv ?b" using inv cap by (simp add: rb_inv_def)
  from inv i have r: "rb_read_at b < ?c" by (simp add: rb_inv_def split: if_splits)
  let ?p = "if rb_read_at b + i < ?c then rb_read_at b + i else rb_read_at b + i - ?c"
  have p: "?p < length (rb_storage b)" using r i by (auto simp: rb_capacity_def)
  have g: "get_idx b k
      = (if rb_read_at b + k < ?c then rb_read_at b + k else rb_read_at b + k - ?c)"
    using inv k by (simp add: get_idx_pos)
  have "rb_at ?b i = overwrite (rb_storage b) (get_idx b k) ys ! ?p"
    using rb_at_pos [OF inv'] i cap by simp
  also have "\<dots> = (if get_idx b k \<le> ?p \<and> ?p < get_idx b k + length ys
      then ys ! (?p - get_idx b k) else rb_storage b ! ?p)"
    using p fits by (simp add: nth_overwrite rb_capacity_def)
  also have "\<dots> = (if k \<le> i \<and> i < k + length ys then ys ! (i - k) else rb_at b i)"
  proof -
    have "get_idx b k \<le> ?p \<and> ?p < get_idx b k + length ys \<longleftrightarrow> k \<le> i \<and> i < k + length ys"
      using r i k fits unfolding g by auto
    moreover have "k \<le> i \<and> i < k + length ys \<Longrightarrow> ?p - get_idx b k = i - k"
      using r i k fits unfolding g by auto
    ultimately show ?thesis using rb_at_pos [OF inv i] by auto
  qed
  finally show ?thesis .
qed

lemma rb_length_update_props [simp]:
  "rb_at (b\<lparr>rb_length := n\<rparr>) i = rb_at b i"
  "rb_capacity (b\<lparr>rb_length := n\<rparr>) = rb_capacity b"
  "rb_capacity (b\<lparr>rb_read_at := r\<rparr>) = rb_capacity b"
  by (simp_all add: rb_at_def rb_capacity_def)

lemma rb_inv_overwrite:
  assumes "rb_inv b" and "p + length ys \<le> rb_capacity b"
  shows "rb_inv (b\<lparr>rb_storage := overwrite (rb_storage b) p ys\<rparr>)"
    and "rb_capacity (b\<lparr>rb_storage := overwrite (rb_storage b) p ys\<rparr>) = rb_capacity b"
  using assms by (auto simp: rb_inv_def rb_capacity_def split: if_splits)

section \<open>The continuous interface implements a bounded queue\<close>

text \<open>A closure on a mutable slice keeps its length and returns at most its length.\<close>

definition slice_fn :: "('a list \<Rightarrow> nat \<times> 'r \<times> 'a list) \<Rightarrow> bool" where
  "slice_fn f \<longleftrightarrow>
     (\<forall>buf. fst (f buf) \<le> length buf \<and> length (snd (snd (f buf))) = length buf)"

lemma slice_fn_copy_in [simp]: "slice_fn (copy_in data)"
  by (auto simp: slice_fn_def copy_in_def Let_def)

lemma slice_fn_copy_out [simp]: "slice_fn (copy_out n)"
  by (auto simp: slice_fn_def copy_out_def Let_def)

text \<open>The ring with its read position moved to the start of the storage when it is empty.\<close>

definition rb_home :: "'a ring_buffer \<Rightarrow> 'a ring_buffer" where
  "rb_home b = (if rb_length b = 0 then b\<lparr>rb_read_at := 0\<rparr> else b)"

lemma rb_home_props [simp]:
  assumes "rb_inv b"
  shows "rb_inv (rb_home b)" "rb_list (rb_home b) = rb_list b"
    "rb_capacity (rb_home b) = rb_capacity b" "rb_length (rb_home b) = rb_length b"
  using assms by (auto simp: rb_home_def rb_inv_def rb_list_def rb_capacity_def split: if_splits)

lemma rb_at_home [simp]: "i < rb_length b \<Longrightarrow> rb_at (rb_home b) i = rb_at b i"
  by (simp add: rb_home_def)

lemma rb_window_home [simp]: "rb_inv b \<Longrightarrow> rb_window (rb_home b) = rb_window b"
  by (simp add: rb_window_def rb_len_def)

definition free_slice :: "'a ring_buffer \<Rightarrow> 'a list" where
  "free_slice b = take (rb_contiguous_window b) (drop (get_idx b (rb_length b)) (rb_storage b))"

lemma length_free_slice:
  assumes "rb_inv b"
  shows "length (free_slice b) = rb_contiguous_window b"
  by (simp add: free_slice_def rb_contiguous_window_def rb_capacity_def)

lemma enqueue_many_with_spec:
  assumes inv: "rb_inv b" and f: "slice_fn f"
    and app: "f (free_slice (rb_home b)) = (n, r, buf)"
  obtains b' where "enqueue_many_with f b = Some ((n, r), b')"
    and "rb_inv b'" and "rb_list b' = rb_list b @ take n buf"
    and "rb_capacity b' = rb_capacity b" and "rb_length b' = rb_length b + n"
    and "rb_read_at b' = rb_read_at (rb_home b)"
    and "n \<le> rb_contiguous_window (rb_home b)"
proof -
  let ?b = "rb_home b" and ?w = "rb_contiguous_window (rb_home b)"
  let ?p = "get_idx ?b (rb_length ?b)"
  let ?b1 = "?b\<lparr>rb_storage := overwrite (rb_storage ?b) ?p buf\<rparr>"
  let ?b' = "?b1\<lparr>rb_length := rb_length b + n\<rparr>"
  from inv have inv': "rb_inv ?b" by simp
  have len: "length buf = ?w" and n: "n \<le> ?w"
    using f app length_free_slice [OF inv'] unfolding slice_fn_def
    by (metis fst_conv snd_conv)+
  have le: "rb_length ?b \<le> rb_capacity ?b" using inv' by (simp add: rb_inv_def)
  have w1: "rb_length ?b + ?w \<le> rb_capacity ?b"
    using le by (simp add: rb_contiguous_window_def rb_window_def rb_len_def)
  have w2: "?p + ?w \<le> rb_capacity ?b"
    using get_idx_bound [OF inv', of "rb_length ?b"] by (auto simp: rb_contiguous_window_def min_def)
  have eq: "enqueue_many_with f b = Some ((n, r), ?b')"
    using app n inv
    by (simp add: enqueue_many_with_def Let_def free_slice_def flip: rb_home_def)
  have at: "rb_at ?b1 i = (if rb_length b \<le> i \<and> i < rb_length b + ?w
      then buf ! (i - rb_length b) else rb_at ?b i)" if "i < rb_capacity b" for i
    using rb_at_overwrite [OF inv', of "rb_length ?b" buf i] that w1 w2 len inv by simp
  have list: "rb_list ?b' = rb_list b @ take n buf"
  proof (rule rb_list_eqI)
    show "length (rb_list b @ take n buf) = rb_length ?b'" using n len by simp
    fix i assume i: "i < rb_length ?b'"
    then have "i < rb_capacity b" using n w1 inv by simp
    with i n len show "rb_at ?b' i = (rb_list b @ take n buf) ! i"
      using at [of i] inv by (auto simp: nth_append)
  qed
  have "rb_inv ?b1" "rb_capacity ?b1 = rb_capacity b"
    using rb_inv_overwrite [OF inv'] w2 len inv by simp_all
  then have "rb_inv ?b'" "rb_capacity ?b' = rb_capacity b"
    using n w1 inv by (auto simp: rb_inv_def)
  with eq list n show thesis using that by simp
qed

text \<open>Once the slice up to the end of the storage is used up, the rest of the window is contiguous.\<close>

lemma contiguous_window_after:
  assumes inv: "rb_inv b" "rb_inv b1" and same: "rb_capacity b1 = rb_capacity b"
    "rb_read_at b1 = rb_read_at b" "rb_length b1 = rb_length b + rb_contiguous_window b"
    and part: "rb_contiguous_window b < rb_window b"
  shows "rb_contiguous_window b1 = rb_window b1" and "0 < rb_contiguous_window b"
proof -
  let ?c = "rb_capacity b" and ?r = "rb_read_at b" and ?l = "rb_length b"
  from part have c: "rb_contiguous_window b = ?c - get_idx b ?l" and pos: "0 < ?c"
    by (auto simp: rb_contiguous_window_def rb_window_def min_def split: if_splits)
  from inv(1) pos have r: "?r < ?c" and l: "?l \<le> ?c"
    by (auto simp: rb_inv_def split: if_splits)
  have g: "get_idx b ?l = (if ?r + ?l < ?c then ?r + ?l else ?r + ?l - ?c)"
    using inv(1) l by (rule get_idx_pos)
  with c r l pos show "0 < rb_contiguous_window b" by (auto split: if_splits)
  have "get_idx b1 (rb_length b1) = (?r + (?l + (?c - get_idx b ?l))) mod ?c"
    using same c pos by (simp add: get_idx_def Let_def)
  also have "\<dots> = 0" using g r l by (auto split: if_splits)
  finally show "rb_contiguous_window b1 = rb_window b1"
    using same by (simp add: rb_contiguous_window_def rb_window_def)
qed

lemma copy_in_eq:
  "copy_in data buf = (min (length buf) (length data), drop (min (length buf) (length data)) data,
     take (min (length buf) (length data)) data @ drop (min (length buf) (length data)) buf)"
  by (auto simp: copy_in_def Let_def overwrite_def min_def)

lemma enqueue_slice_spec:
  assumes inv: "rb_inv b" and n_def: "n = min (length data) (rb_window b)"
  obtains b' where "enqueue_slice data b = Some (n, b')" and "rb_inv b'"
    and "rb_list b' = rb_list b @ take n data" and "rb_capacity b' = rb_capacity b"
proof -
  define w where "w = rb_contiguous_window (rb_home b)"
  define n1 where "n1 = min w (length data)"
  have inv0: "rb_inv (rb_home b)" using inv by simp
  have l1: "length (free_slice (rb_home b)) = w"
    using length_free_slice [OF inv0] by (simp add: w_def)
  have app1: "copy_in data (free_slice (rb_home b))
      = (n1, drop n1 data, take n1 data @ drop n1 (free_slice (rb_home b)))"
    by (simp add: copy_in_eq l1 n1_def)
  have t1: "take n1 (take n1 data @ xs) = take n1 data" for xs
    by (simp add: n1_def)
  obtain b1 where b1: "enqueue_many_with (copy_in data) b = Some ((n1, drop n1 data), b1)"
    "rb_inv b1" "rb_list b1 = rb_list b @ take n1 data" "rb_capacity b1 = rb_capacity b"
    "rb_length b1 = rb_length b + n1" "rb_read_at b1 = rb_read_at (rb_home b)"
    using enqueue_many_with_spec [OF inv slice_fn_copy_in app1] unfolding t1 by metis
  define w' where "w' = rb_contiguous_window (rb_home b1)"
  define n2 where "n2 = min w' (length data - n1)"
  have inv1: "rb_inv (rb_home b1)" using b1 by simp
  have l2: "length (free_slice (rb_home b1)) = w'"
    using length_free_slice [OF inv1] by (simp add: w'_def)
  have app2: "copy_in (drop n1 data) (free_slice (rb_home b1))
      = (n2, drop n2 (drop n1 data), take n2 (drop n1 data) @ drop n2 (free_slice (rb_home b1)))"
    by (simp add: copy_in_eq l2 n2_def)
  have t2: "take n2 (take n2 (drop n1 data) @ xs) = take n2 (drop n1 data)" for xs
    by (simp add: n2_def)
  obtain b2 r where b2: "enqueue_many_with (copy_in (drop n1 data)) b1 = Some ((n2, r), b2)"
    "rb_inv b2" "rb_list b2 = rb_list b1 @ take n2 (drop n1 data)" "rb_capacity b2 = rb_capacity b1"
    using enqueue_many_with_spec [OF b1(2) slice_fn_copy_in app2] unfolding t2 by metis
  have w: "w \<le> rb_window b" "w' \<le> rb_window b1" "rb_window b1 = rb_window b - n1"
    using inv b1 by (simp_all add: w_def w'_def rb_contiguous_window_def rb_window_def rb_len_def)
  have sum: "n1 + n2 = n"
  proof (cases "w < rb_window b \<and> w < length data")
    case False
    with w show ?thesis by (auto simp: n_def n1_def n2_def min_def)
  next
    case True
    then have n1: "n1 = w" by (simp add: n1_def)
    have "rb_contiguous_window b1 = rb_window b1" and "0 < w"
      using contiguous_window_after [OF inv0 b1(2)] b1 inv True n1 by (simp_all add: w_def)
    moreover from this(2) n1 b1(5) have "rb_home b1 = b1" by (simp add: rb_home_def)
    ultimately have "w' = rb_window b - n1" using w by (simp add: w'_def)
    with True n1 show ?thesis by (auto simp: n_def n2_def min_def)
  qed
  have "rb_list b2 = rb_list b @ take n data"
    using b2(3) b1(3) by (simp add: take_add flip: sum)
  with b1 b2 sum show thesis using that by (simp add: enqueue_slice_def)
qed

lemma overwrite_same [simp]: "overwrite xs p (take n (drop p xs)) = xs"
proof -
  have "take n (drop p xs) @ drop (p + length (take n (drop p xs))) xs = drop p xs"
  proof (cases "n \<le> length xs - p")
    case True
    then show ?thesis
      using append_take_drop_id [of n "drop p xs"] by (simp add: add.commute)
  qed simp
  then show ?thesis by (simp add: overwrite_def)
qed

text \<open>The contiguous allocated elements at the front of the ring.\<close>

definition front_slice :: "'a ring_buffer \<Rightarrow> 'a list" where
  "front_slice b = take (min (rb_len b) (rb_capacity b - rb_read_at b))
     (drop (rb_read_at b) (rb_storage b))"

lemma front_slice_eq:
  assumes "rb_inv b"
  shows "front_slice b = take (rb_capacity b - rb_read_at b) (rb_list b)"
proof (rule nth_equalityI)
  show "length (front_slice b) = length (take (rb_capacity b - rb_read_at b) (rb_list b))"
    by (simp add: front_slice_def rb_len_def rb_capacity_def)
  fix i assume "i < length (front_slice b)"
  then have i: "i < rb_length b" "i < rb_capacity b - rb_read_at b"
    by (simp_all add: front_slice_def rb_len_def)
  then show "front_slice b ! i = take (rb_capacity b - rb_read_at b) (rb_list b) ! i"
    using assms rb_at_pos [of b i]
    by (auto simp: front_slice_def rb_capacity_def rb_len_def rb_inv_def split: if_splits)
qed

text \<open>Dropping elements at the front.\<close>

definition rb_drop :: "nat \<Rightarrow> 'a ring_buffer \<Rightarrow> 'a ring_buffer" where
  "rb_drop n b = b\<lparr>rb_read_at := get_idx b n, rb_length := rb_length b - n\<rparr>"

lemma rb_drop_props:
  assumes inv: "rb_inv b" and n: "n \<le> rb_length b"
  shows "rb_inv (rb_drop n b)" "rb_list (rb_drop n b) = drop n (rb_list b)"
    "rb_capacity (rb_drop n b) = rb_capacity b" "rb_length (rb_drop n b) = rb_length b - n"
    "i < rb_capacity b - n \<Longrightarrow> rb_at (rb_drop n b) i = rb_at b (i + n)"
proof -
  show cap: "rb_capacity (rb_drop n b) = rb_capacity b"
    by (simp add: rb_drop_def rb_capacity_def)
  show len: "rb_length (rb_drop n b) = rb_length b - n" by (simp add: rb_drop_def)
  have nc: "n \<le> rb_capacity b" using inv n by (simp add: rb_inv_def)
  show "rb_inv (rb_drop n b)"
    using inv get_idx_pos [OF inv nc] nc cap len
    by (auto simp: rb_inv_def rb_drop_def split: if_splits)
  show at: "rb_at (rb_drop n b) i = rb_at b (i + n)" if "i < rb_capacity b - n" for i
  proof -
    from that have pos: "0 < rb_capacity b" by simp
    have "rb_at (rb_drop n b) i = rb_storage b ! ((get_idx b n + i) mod rb_capacity b)"
      using cap by (simp add: rb_at_def rb_drop_def)
    also have "(get_idx b n + i) mod rb_capacity b = (rb_read_at b + (i + n)) mod rb_capacity b"
      using pos by (simp add: get_idx_def Let_def mod_simps algebra_simps)
    finally show ?thesis by (simp add: rb_at_def)
  qed
  show "rb_list (rb_drop n b) = drop n (rb_list b)"
  proof (rule rb_list_eqI)
    fix i assume "i < rb_length (rb_drop n b)"
    with len inv n have "i < rb_capacity b - n" "n + i < rb_length b"
      by (auto simp: rb_inv_def)
    then show "rb_at (rb_drop n b) i = drop n (rb_list b) ! i"
      using at n by (simp add: add.commute)
  qed (use len in simp)
qed

text \<open>A closure that leaves the contents of the slice as they are.\<close>

definition reads_only :: "('a list \<Rightarrow> nat \<times> 'r \<times> 'a list) \<Rightarrow> bool" where
  "reads_only f \<longleftrightarrow> (\<forall>buf. fst (f buf) \<le> length buf \<and> snd (snd (f buf)) = buf)"

lemma reads_only_copy_out [simp]: "reads_only (copy_out n)"
  by (simp add: reads_only_def copy_out_def Let_def)

lemma dequeue_many_with_spec:
  assumes inv: "rb_inv b" and f: "reads_only f" and app: "f (front_slice b) = (n, r, buf)"
  shows "dequeue_many_with f b = Some ((n, r), rb_drop n b)" and "n \<le> rb_length b"
    and "n \<le> rb_capacity b - rb_read_at b"
proof -
  have n: "n \<le> length (front_slice b)" and buf: "buf = front_slice b"
    using f app by (auto simp: reads_only_def dest: spec [of _ "front_slice b"])
  then show "n \<le> rb_length b" and "n \<le> rb_capacity b - rb_read_at b"
    by (simp_all add: front_slice_def rb_len_def)
  have "get_idx b n = (if 0 < rb_capacity b then (rb_read_at b + n) mod rb_capacity b else 0)"
    by (simp add: get_idx_def Let_def)
  then show "dequeue_many_with f b = Some ((n, r), rb_drop n b)"
    using n app buf
    by (simp add: dequeue_many_with_def Let_def rb_drop_def front_slice_def rb_capacity_def)
qed

lemma dequeue_allocated_spec:
  assumes "rb_inv b" and "n \<le> rb_length b"
  shows "dequeue_allocated n b = Some (rb_drop n b)"
  using assms by (simp add: dequeue_allocated_def rb_drop_def rb_len_def get_idx_def rb_capacity_def)

lemma dequeue_allocated_None: "rb_length b < n \<Longrightarrow> dequeue_allocated n b = None"
  by (simp add: dequeue_allocated_def rb_len_def)

lemma copy_out_eq:
  "copy_out k buf = (min (length buf) k, take (min (length buf) k) buf, buf)"
  by (simp add: copy_out_def Let_def)

text \<open>After the elements up to the end of the storage are gone, the rest is contiguous.\<close>

lemma front_slice_after:
  assumes inv: "rb_inv b" and n: "n = rb_capacity b - rb_read_at b" "n < rb_length b"
  shows "front_slice (rb_drop n b) = drop n (rb_list b)"
proof -
  have le: "rb_length b \<le> rb_capacity b" and r: "rb_read_at b < rb_capacity b"
    using inv n by (auto simp: rb_inv_def split: if_splits)
  then have "rb_read_at (rb_drop n b) = 0"
    using n get_idx_pos [OF inv, of n] by (simp add: rb_drop_def)
  then show ?thesis
    using front_slice_eq [of "rb_drop n b"] rb_drop_props [OF inv, of n] n le by simp
qed

lemma dequeue_slice_spec:
  assumes inv: "rb_inv b" and n: "n = min (length data) (rb_length b)"
  shows "dequeue_slice data b
    = Some ((n, overwrite data 0 (take n (rb_list b))), rb_drop n b)"
proof -
  let ?k = "rb_capacity b - rb_read_at b"
  define n1 where "n1 = min (length (front_slice b)) (length data)"
  have fs: "front_slice b = take ?k (rb_list b)" using inv by (rule front_slice_eq)
  have n1: "n1 = min (min ?k (rb_length b)) (length data)" by (simp add: n1_def fs min.commute)
  have d1: "dequeue_many_with (copy_out (length data)) b
      = Some ((n1, take n1 (rb_list b)), rb_drop n1 b)"
    using dequeue_many_with_spec(1) [OF inv reads_only_copy_out copy_out_eq, of "length data"] n1
    by (simp add: fs n1_def min.commute min.left_commute)
  have n1_le: "n1 \<le> rb_length b" by (simp add: n1)
  let ?b1 = "rb_drop n1 b"
  note b1 = rb_drop_props [OF inv n1_le]
  define n2 where "n2 = min (length (front_slice ?b1)) (length data - n1)"
  have d2: "dequeue_many_with (copy_out (length data - n1)) ?b1
      = Some ((n2, take n2 (front_slice ?b1)), rb_drop n2 ?b1)"
    using dequeue_many_with_spec(1) [OF b1(1) reads_only_copy_out copy_out_eq, of "length data - n1"]
    by (simp add: n2_def)
  have fs1: "front_slice ?b1 = drop n1 (rb_list b)" if "0 < length data - n1" "n1 < rb_length b"
    using front_slice_after [OF inv, of n1] that n1 by (auto simp: min_def split: if_splits)
  have empty: "front_slice ?b1 = []" if "n1 = rb_length b"
    using that b1 by (simp add: front_slice_eq rb_list_def)
  have sum: "n1 + n2 = n" and out: "take n2 (front_slice ?b1) = take n2 (drop n1 (rb_list b))"
  proof -
    consider "n1 = rb_length b" | "n1 < rb_length b" "n1 = length data"
      | "n1 < rb_length b" "n1 < length data" using n1_le n1 by linarith
    then have "n1 + n2 = n \<and> take n2 (front_slice ?b1) = take n2 (drop n1 (rb_list b))"
    proof cases
      case 1
      moreover have "n1 \<le> length data" by (simp add: n1)
      ultimately have "n = n1" by (simp add: n)
      with 1 empty show ?thesis by (simp add: n2_def)
    next
      case 3
      with fs1 show ?thesis by (simp add: n2_def n)
    qed (simp add: n n2_def)
    then show "n1 + n2 = n" and "take n2 (front_slice ?b1) = take n2 (drop n1 (rb_list b))"
      by simp_all
  qed
  have "rb_drop n2 ?b1 = rb_drop n b"
  proof -
    have "get_idx ?b1 n2 = get_idx b n"
      using b1(3) by (auto simp: get_idx_def Let_def rb_drop_def mod_simps add.assoc simp flip: sum)
    then show ?thesis by (simp add: rb_drop_def flip: sum)
  qed
  moreover have "take n1 (rb_list b) @ take n2 (drop n1 (rb_list b)) = take n (rb_list b)"
    by (simp add: take_add flip: sum)
  ultimately show ?thesis using d1 d2 sum out by (simp add: dequeue_slice_def)
qed

section \<open>The random access interface\<close>

lemma get_allocated_eq:
  assumes inv: "rb_inv b"
  shows "get_allocated offset n b
    = take (min n (rb_capacity b - get_idx b offset)) (drop offset (rb_list b))"
proof (cases "offset \<le> rb_length b")
  case True
  let ?p = "get_idx b offset"
  have c: "rb_length b \<le> rb_capacity b" using inv by (simp add: rb_inv_def)
  have p: "?p = (if rb_read_at b + offset < rb_capacity b then rb_read_at b + offset
      else rb_read_at b + offset - rb_capacity b)"
    using get_idx_pos [OF inv] True c by simp
  let ?m = "min (min n (rb_capacity b - ?p)) (rb_length b - offset)"
  have "get_allocated offset n b = take ?m (drop ?p (rb_storage b))"
    using True by (auto simp: get_allocated_def Let_def min_def intro!: arg_cong2 [where f = take])
  also have "\<dots> = take ?m (drop offset (rb_list b))"
  proof (rule nth_equalityI)
    show "length (take ?m (drop ?p (rb_storage b))) = length (take ?m (drop offset (rb_list b)))"
      by (simp add: rb_capacity_def)
    fix i assume "i < length (take ?m (drop ?p (rb_storage b)))"
    then have i: "i < ?m" "i < length (rb_storage b) - ?p" by auto
    with c have "offset + i < rb_capacity b" by auto
    then have "rb_at b (offset + i) = rb_storage b ! (?p + i)"
      using rb_at_pos [OF inv, of "offset + i"] i p inv
      by (auto simp: rb_inv_def rb_capacity_def add.assoc split: if_splits)
    with i True show "take ?m (drop ?p (rb_storage b)) ! i = take ?m (drop offset (rb_list b)) ! i"
      by auto
  qed
  finally show ?thesis by (simp add: min_def)
qed (simp add: get_allocated_def Let_def)

lemma length_get_allocated_le:
  "rb_inv b \<Longrightarrow> length (get_allocated offset n b) \<le> min n (rb_length b - offset)"
  by (simp add: get_allocated_eq)

lemma read_allocated_eq:
  assumes inv: "rb_inv b" and n: "n = min (length data) (rb_length b - offset)"
  shows "read_allocated offset data b = (n, overwrite data 0 (take n (drop offset (rb_list b))))"
proof -
  let ?s1 = "get_allocated offset (length data) b"
  define n1 where "n1 = length ?s1"
  have s1: "?s1 = take n1 (drop offset (rb_list b))"
    and n1: "n1 = min (min (length data) (rb_capacity b - get_idx b offset)) (rb_length b - offset)"
    by (auto simp: n1_def get_allocated_eq [OF inv] min_def)
  let ?s2 = "get_allocated (offset + n1) (length data - n1) b"
  have "n1 = n \<or> (n1 = rb_capacity b - get_idx b offset \<and> n1 < length data \<and> n1 < rb_length b - offset)"
    using n n1 by (auto simp: min_def split: if_splits)
  then have s2: "?s2 = take (n - n1) (drop (offset + n1) (rb_list b))"
  proof
    assume "n1 = n"
    then show ?thesis using n by (auto simp: get_allocated_eq [OF inv] min_def)
  next
    assume *: "n1 = rb_capacity b - get_idx b offset \<and> n1 < length data \<and> n1 < rb_length b - offset"
    then have pos: "0 < rb_capacity b" and o: "offset \<le> rb_capacity b" "offset + n1 \<le> rb_capacity b"
      using inv by (auto simp: rb_inv_def split: if_splits)
    then have "get_idx b (offset + n1) = 0"
      using get_idx_pos [OF inv, of "offset + n1"] get_idx_pos [OF inv, of offset] * inv
      by (auto simp: rb_inv_def split: if_splits)
    moreover have "min (min (length data - n1) (rb_capacity b)) (rb_length b - (offset + n1))
        = min (n - n1) (rb_length b - (offset + n1))"
      using n inv by (simp add: rb_inv_def) linarith
    ultimately show ?thesis
      by (auto simp: get_allocated_eq [OF inv] intro!: take_min_cong)
  qed
  have "?s1 @ ?s2 = take n (drop offset (rb_list b))"
    using n n1 unfolding s1 s2
    by (metis (no_types, lifting) add.commute add_diff_inverse_nat drop_drop min.absorb2 min.bounded_iff
        min.cobounded1 min.cobounded2 not_le order_refl take_add)
  moreover have "length ?s1 + length ?s2 = n"
    using calculation n by (metis length_append length_drop length_rb_list length_take min.absorb2 min.cobounded2)
  ultimately show ?thesis by (simp add: read_allocated_def Let_def n1_def)
qed

text \<open>One contiguous write at a logical offset past the allocated elements.\<close>

lemma get_unallocated_eq:
  assumes "offset \<le> rb_window b"
  shows "get_unallocated offset n b = (get_idx b (rb_length b + offset),
    min (min n (rb_window b - offset)) (rb_capacity b - get_idx b (rb_length b + offset)))"
  using assms by (auto simp: get_unallocated_def Let_def min_def)

lemma write_contiguous:
  assumes inv: "rb_inv b" and off: "offset + m \<le> rb_window b" and m: "m \<le> length data"
    and fits: "get_idx b (rb_length b + offset) + m \<le> rb_capacity b"
    and b': "b' = b\<lparr>rb_storage :=
      overwrite (rb_storage b) (get_idx b (rb_length b + offset)) (take m data)\<rparr>"
  shows "rb_inv b'" "rb_capacity b' = rb_capacity b" "rb_length b' = rb_length b"
    "rb_read_at b' = rb_read_at b"
    "i < rb_capacity b \<Longrightarrow> rb_at b' i
      = (if rb_length b + offset \<le> i \<and> i < rb_length b + offset + m
         then data ! (i - rb_length b - offset) else rb_at b i)"
proof -
  have l: "length (take m data) = m" using m by simp
  show "rb_inv b'" and "rb_capacity b' = rb_capacity b"
    using rb_inv_overwrite [OF inv, of _ "take m data"] fits l unfolding b' by auto
  show "rb_length b' = rb_length b" "rb_read_at b' = rb_read_at b" by (simp_all add: b')
  assume i: "i < rb_capacity b"
  have "rb_length b + offset + length (take m data) \<le> rb_capacity b"
    using inv off l by (auto simp: rb_inv_def rb_window_def rb_len_def)
  from rb_at_overwrite [OF inv this i] fits l
  show "rb_at b' i = (if rb_length b + offset \<le> i \<and> i < rb_length b + offset + m
      then data ! (i - rb_length b - offset) else rb_at b i)"
    unfolding b' by (auto simp: diff_diff_left)
qed

text \<open>
  \<open>write_unallocated\<close> writes as much of the data as fits behind the allocated elements, in at
  most two slices, and changes nothing else.
\<close>

lemma write_unallocated_spec:
  assumes inv: "rb_inv b" and off: "offset \<le> rb_window b"
    and n: "n = min (length data) (rb_window b - offset)"
  obtains b' where "write_unallocated offset data b = (n, b')" "rb_inv b'"
    "rb_capacity b' = rb_capacity b" "rb_length b' = rb_length b" "rb_read_at b' = rb_read_at b"
    "\<And>i. i < rb_capacity b \<Longrightarrow> rb_at b' i
      = (if rb_length b + offset \<le> i \<and> i < rb_length b + offset + n
         then data ! (i - rb_length b - offset) else rb_at b i)"
proof -
  let ?c = "rb_capacity b" and ?l = "rb_length b"
  let ?p = "get_idx b (?l + offset)"
  define n1 where "n1 = min n (?c - ?p)"
  let ?b1 = "b\<lparr>rb_storage := overwrite (rb_storage b) ?p (take n1 data)\<rparr>"
  have le: "?l \<le> ?c" using inv by (simp add: rb_inv_def)
  have w: "rb_window b = ?c - ?l" by (simp add: rb_window_def rb_len_def)
  have pc: "?p \<le> ?c" using inv by (rule get_idx_bound)
  have g1: "get_unallocated offset (length data) b = (?p, n1)"
    using off by (simp add: get_unallocated_eq n1_def n)
  have n1_le: "n1 \<le> n" "n \<le> length data" "offset + n \<le> rb_window b" "?p + n1 \<le> ?c"
    using n off pc by (auto simp: n1_def)
  note b1 = write_contiguous [OF inv, of offset n1 data ?b1]
  have inv1: "rb_inv ?b1" and cap1: "rb_capacity ?b1 = ?c" and len1: "rb_length ?b1 = ?l"
    and read1: "rb_read_at ?b1 = rb_read_at b"
    using b1(1-4) n1_le by simp_all
  have at1: "rb_at ?b1 i = (if ?l + offset \<le> i \<and> i < ?l + offset + n1
      then data ! (i - ?l - offset) else rb_at b i)" if "i < ?c" for i
    using b1(5) that n1_le by simp
  let ?d = "drop n1 data" and ?q = "get_idx ?b1 (?l + (offset + n1))"
  define n2 where "n2 = min (n - n1) (?c - ?q)"
  let ?b2 = "?b1\<lparr>rb_storage := overwrite (rb_storage ?b1) ?q (take n2 ?d)\<rparr>"
  have g2: "get_unallocated (offset + n1) (length ?d) ?b1 = (?q, n2)"
  proof -
    have "offset + n1 \<le> rb_window ?b1"
      using n1_le cap1 by (simp add: rb_window_def rb_len_def)
    moreover have "min (length ?d) (rb_window ?b1 - (offset + n1)) = n - n1"
      using n n1_le cap1 by (simp add: rb_window_def rb_len_def) linarith
    ultimately show ?thesis using cap1 by (simp add: get_unallocated_eq n2_def)
  qed
  have n2_le: "n2 \<le> length ?d" "offset + n1 + n2 \<le> rb_window ?b1" "?q + n2 \<le> ?c"
    using n1_le get_idx_bound [OF inv1, of "?l + (offset + n1)"] cap1
    by (auto simp: n2_def rb_window_def rb_len_def min_def)
  note b2 = write_contiguous [OF inv1, of "offset + n1" n2 ?d ?b2]
  have inv2: "rb_inv ?b2" and cap2: "rb_capacity ?b2 = ?c" and len2: "rb_length ?b2 = ?l"
    and read2: "rb_read_at ?b2 = rb_read_at b"
    using b2(1-4) n2_le cap1 by simp_all
  have at2: "rb_at ?b2 i = (if ?l + (offset + n1) \<le> i \<and> i < ?l + (offset + n1) + n2
      then ?d ! (i - ?l - (offset + n1)) else rb_at ?b1 i)" if "i < ?c" for i
    using b2(5) that n2_le cap1 by simp
  have sum: "n1 + n2 = n"
  proof (cases "n1 = n")
    case False
    then have "n1 = ?c - ?p" "n1 < n" by (auto simp: n1_def min_def split: if_splits)
    moreover from this n1_le w le have "0 < ?c" "?l + offset + n1 \<le> ?c" by auto
    ultimately have "?q = 0"
      using get_idx_pos [OF inv1, of "?l + (offset + n1)"] get_idx_pos [OF inv, of "?l + offset"]
        cap1 inv by (auto simp: rb_inv_def add.assoc split: if_splits)
    with n1_le w show ?thesis by (simp add: n2_def)
  qed (simp add: n2_def)
  have "rb_at ?b2 i = (if ?l + offset \<le> i \<and> i < ?l + offset + n
      then data ! (i - ?l - offset) else rb_at b i)" if "i < ?c" for i
    using at2 [OF that] at1 [OF that] n1_le by (auto simp: diff_diff_left simp flip: sum)
  moreover have "write_unallocated offset data b = (n, ?b2)"
    using g1 g2 by (simp add: write_unallocated_def Let_def flip: sum)
  ultimately show thesis using that inv2 cap2 len2 read2 by blast
qed

lemma enqueue_unallocated_spec:
  assumes inv: "rb_inv b" and n: "n \<le> rb_window b"
  obtains b' where "enqueue_unallocated n b = Some b'" "rb_inv b'"
    "rb_capacity b' = rb_capacity b" "rb_length b' = rb_length b + n"
    "\<And>i. rb_at b' i = rb_at b i" "rb_list b' = rb_list b @ map (rb_at b) [rb_length b..<rb_length b + n]"
proof -
  let ?b = "b\<lparr>rb_length := rb_length b + n\<rparr>"
  have "rb_inv ?b" using inv n by (auto simp: rb_inv_def rb_window_def rb_len_def)
  moreover have "rb_list ?b = rb_list b @ map (rb_at b) [rb_length b..<rb_length b + n]"
  proof -
    have "rb_at ?b = rb_at b" by (rule ext) simp
    then show ?thesis
      by (simp add: rb_list_def upt_add_eq_append [of 0 "rb_length b" n])
  qed
  ultimately show thesis using that n by (simp add: enqueue_unallocated_def)
qed

lemma enqueue_unallocated_None: "rb_window b < n \<Longrightarrow> enqueue_unallocated n b = None"
  by (simp add: enqueue_unallocated_def)

section \<open>The ring as a bounded queue\<close>

interpretation ring_fifo: bounded_fifo rb_inv rb_list rb_capacity enqueue_slice dequeue_slice
proof unfold_locales
  fix q :: "'a ring_buffer" and xs :: "'a list" and n
  assume inv: "rb_inv q"
  then show "length (rb_list q) \<le> rb_capacity q" by (simp add: rb_inv_def)
  show "\<exists>q'. enqueue_slice xs q = Some (n, q') \<and> rb_inv q' \<and> rb_capacity q' = rb_capacity q \<and>
      rb_list q' = rb_list q @ take n xs"
    if "n = min (length xs) (rb_capacity q - length (rb_list q))"
    using enqueue_slice_spec [OF inv, of n xs] that by (auto simp: rb_window_def rb_len_def)
  show "\<exists>q'. dequeue_slice xs q = Some ((n, overwrite xs 0 (take n (rb_list q))), q') \<and> rb_inv q' \<and>
      rb_capacity q' = rb_capacity q \<and> rb_list q' = drop n (rb_list q)"
    if "n = min (length xs) (length (rb_list q))"
    using dequeue_slice_spec [OF inv, of n xs] rb_drop_props [OF inv, of n] that by auto
qed

text \<open>
  C13: The ring buffer never panics on any sequence of \<open>enqueue_slice\<close> and \<open>dequeue_slice\<close> calls
  and is a lossless first-in first-out byte stream: the octets queued before and accepted
  during the run are exactly the octets delivered during the run followed by those still queued.
\<close>

theorem ring_buffer_lossless:
  assumes "rb_inv b"
  shows "\<exists>acc del b'. fifo_run enqueue_slice dequeue_slice ops b = Some (acc, del, b') \<and>
    rb_inv b' \<and> rb_capacity b' = rb_capacity b \<and> rb_list b @ acc = del @ rb_list b'"
  using assms by (rule ring_fifo.fifo_lossless)

theorem ring_buffer_lossless_witness:
  "\<exists>acc del b'. fifo_run enqueue_slice dequeue_slice
      [Push [1, 2, 3], Pop [0, 0], Push [4, 5, 6], Pop [0, 0, 0]] (rb_new [0, 0, 0, 0 :: nat])
      = Some (acc, del, b') \<and>
    rb_inv b' \<and> rb_capacity b' = rb_capacity (rb_new [0, 0, 0, 0 :: nat]) \<and>
    rb_list (rb_new [0, 0, 0, 0 :: nat]) @ acc = del @ rb_list b'"
  by (rule ring_buffer_lossless) simp

text \<open>
  \<open>write_unallocated\<close> at an offset inside the free space stores exactly the prefix of the
  data that fits at the logical positions behind the allocated elements, across the end of the
  storage if need be, keeps every other element and returns the number stored.
\<close>

lemma write_unallocated_correct:
  assumes "rb_inv b" and "offset \<le> rb_window b"
  shows "\<exists>b'. write_unallocated offset data b
      = (min (length data) (rb_window b - offset), b') \<and> rb_inv b' \<and> rb_list b' = rb_list b \<and>
    (\<forall>i < rb_capacity b. rb_at b' i =
      (if rb_length b + offset \<le> i \<and>
          i < rb_length b + offset + min (length data) (rb_window b - offset)
       then data ! (i - rb_length b - offset) else rb_at b i))"
proof -
  obtain b' where b': "write_unallocated offset data b
      = (min (length data) (rb_window b - offset), b')" "rb_inv b'" "rb_length b' = rb_length b"
    "\<And>i. i < rb_capacity b \<Longrightarrow> rb_at b' i =
      (if rb_length b + offset \<le> i \<and>
          i < rb_length b + offset + min (length data) (rb_window b - offset)
       then data ! (i - rb_length b - offset) else rb_at b i)"
    using write_unallocated_spec [OF assms refl] by metis
  moreover have "rb_list b' = rb_list b"
    using b' assms(1) by (intro rb_list_eqI) (auto simp: rb_inv_def)
  ultimately show ?thesis by blast
qed

lemma write_unallocated_correct_witness:
  "\<exists>b'. write_unallocated 1 [7, 8] \<lparr>rb_storage = [0, 1, 2, 3 :: nat], rb_read_at = 2, rb_length = 1\<rparr>
      = (2, b') \<and> rb_list b' = [2]"
  using write_unallocated_correct
    [of "\<lparr>rb_storage = [0, 1, 2, 3 :: nat], rb_read_at = 2, rb_length = 1\<rparr>" 1 "[7, 8]"]
  by (auto simp: rb_inv_def rb_capacity_def rb_window_def rb_len_def rb_list_def rb_at_def)

section \<open>The discrete interface\<close>

lemma enqueue_one_full: "rb_is_full b \<Longrightarrow> enqueue_one b = Inl Full"
  by (simp add: enqueue_one_def enqueue_one_with_def)

text \<open>Enqueueing a value through the reference that \<open>enqueue_one\<close> returns.\<close>

lemma enqueue_one_spec:
  assumes inv: "rb_inv b" and room: "\<not> rb_is_full b"
  obtains idx b' where "enqueue_one b = Inr (idx, b')"
    "rb_inv (b'\<lparr>rb_storage := (rb_storage b')[idx := v]\<rparr>)"
    "rb_list (b'\<lparr>rb_storage := (rb_storage b')[idx := v]\<rparr>) = rb_list b @ [v]"
    "rb_capacity (b'\<lparr>rb_storage := (rb_storage b')[idx := v]\<rparr>) = rb_capacity b"
proof -
  let ?i = "get_idx_unchecked b (rb_length b)"
  let ?b = "b\<lparr>rb_length := rb_length b + 1\<rparr>"
  let ?c = "b\<lparr>rb_storage := (rb_storage b)[?i := v]\<rparr>"
  let ?b' = "?b\<lparr>rb_storage := (rb_storage ?b)[?i := v]\<rparr>"
  have l: "rb_length b < rb_capacity b"
    using inv room by (auto simp: rb_inv_def rb_is_full_def rb_window_def rb_len_def)
  have i: "?i = get_idx b (rb_length b)" using l by (simp add: get_idx_def get_idx_unchecked_def)
  have i_less: "?i < rb_capacity b" using l by (simp add: get_idx_unchecked_def)
  have ow: "(rb_storage b)[?i := v] = overwrite (rb_storage b) (get_idx b (rb_length b)) [v]"
    using i_less by (simp add: overwrite_singleton rb_capacity_def flip: i)
  have fits: "get_idx b (rb_length b) + length [v] \<le> rb_capacity b" using i_less i by simp
  have "rb_inv ?b'" "rb_capacity ?b' = rb_capacity b"
    using inv l by (auto simp: rb_inv_def rb_capacity_def split: if_splits)
  moreover have "rb_list ?b' = rb_list b @ [v]"
  proof (rule rb_list_eqI)
    fix j assume "j < rb_length ?b'"
    then have j: "j < rb_capacity b" "j \<le> rb_length b" using l by simp_all
    have "rb_at ?b' j = rb_at ?c j" by (simp add: rb_at_def rb_capacity_def)
    then show "rb_at ?b' j = (rb_list b @ [v]) ! j"
      using rb_at_overwrite [OF inv _ j(1) fits] j l ow by (auto simp: nth_append)
  qed simp
  moreover have "enqueue_one b = Inr (?i, ?b)"
    using room by (simp add: enqueue_one_def enqueue_one_with_def Let_def)
  ultimately show thesis using that by blast
qed

lemma dequeue_one_empty: "rb_is_empty b \<Longrightarrow> dequeue_one b = Inl Empty"
  by (simp add: dequeue_one_def dequeue_one_with_def)

lemma dequeue_one_spec:
  assumes inv: "rb_inv b" and some: "\<not> rb_is_empty b"
  shows "dequeue_one b = Inr (rb_read_at b, rb_drop 1 b)"
    and "rb_storage b ! rb_read_at b = hd (rb_list b)"
proof -
  have l: "0 < rb_length b" "rb_length b \<le> rb_capacity b"
    using inv some by (auto simp: rb_is_empty_def rb_len_def rb_inv_def)
  then show "dequeue_one b = Inr (rb_read_at b, rb_drop 1 b)"
    using some
    by (simp add: dequeue_one_def dequeue_one_with_def Let_def rb_drop_def get_idx_def
        get_idx_unchecked_def)
  have "hd (rb_list b) = rb_list b ! 0" using l by (intro hd_conv_nth) (auto simp: rb_list_def)
  then show "rb_storage b ! rb_read_at b = hd (rb_list b)"
    using l inv by (auto simp: rb_at_def rb_inv_def split: if_splits)
qed

end
