(* ===== verification/Assembler.thy ===== *)
theory Assembler
  imports Prelude
begin

text \<open>
  \<open>src/smoltcp/src/storage/assembler.rs\<close>: which octets past the contiguous data of a buffer
  have been received. The state is a fixed number of contigs, each a hole followed by data; the
  used ones come first. The number of contigs is the length of the list
  (\<open>ASSEMBLER_MAX_SEGMENT_COUNT\<close> in the source); no operation changes it.

  The abstraction is the set of received offsets (\<open>asm_cover\<close>), the invariant is the one the
  source states in a comment (\<open>asm_inv\<close>). The loops over the array are related to functions on the
  list of used contigs, and the properties are proved of these.
\<close>

section \<open>Contigs\<close>

record contig =
  hole_size :: nat
  data_size :: nat

definition contig_empty :: contig where
  "contig_empty = \<lparr>hole_size = 0, data_size = 0\<rparr>"

definition hole_and_data :: "nat \<Rightarrow> nat \<Rightarrow> contig" where
  "hole_and_data h d = \<lparr>hole_size = h, data_size = d\<rparr>"

definition has_hole :: "contig \<Rightarrow> bool" where
  "has_hole c \<longleftrightarrow> hole_size c \<noteq> 0"

definition has_data :: "contig \<Rightarrow> bool" where
  "has_data c \<longleftrightarrow> data_size c \<noteq> 0"

definition total_size :: "contig \<Rightarrow> nat" where
  "total_size c = hole_size c + data_size c"

definition shrink_hole_by :: "contig \<Rightarrow> nat \<Rightarrow> contig option" where
  "shrink_hole_by c n = do { h \<leftarrow> usize_sub (hole_size c) n; Some (c\<lparr>hole_size := h\<rparr>) }"

definition shrink_hole_to :: "contig \<Rightarrow> nat \<Rightarrow> contig option" where
  "shrink_hole_to c n =
     do { panic_unless (n \<le> hole_size c);
          d \<leftarrow> usize_sub (total_size c) n;
          Some (c\<lparr>hole_size := n, data_size := d\<rparr>) }"

section \<open>The assembler\<close>

type_synonym assembler = "contig list"

datatype too_many_holes = TooManyHoles

definition asm_new :: "nat \<Rightarrow> assembler" where
  "asm_new count = replicate count contig_empty"

definition asm_clear :: "assembler \<Rightarrow> assembler" where
  "asm_clear cs = map (\<lambda>_. contig_empty) cs"

text \<open>An index out of range is a panic.\<close>

definition contig_at :: "assembler \<Rightarrow> nat \<Rightarrow> contig option" where
  "contig_at cs i = (if i < length cs then Some (cs ! i) else None)"

definition asm_front :: "assembler \<Rightarrow> contig" where
  "asm_front cs = cs ! 0"

definition asm_peek_front :: "assembler \<Rightarrow> nat" where
  "asm_peek_front cs = (if has_hole (asm_front cs) then 0 else data_size (asm_front cs))"

definition asm_back :: "assembler \<Rightarrow> contig" where
  "asm_back cs = cs ! (length cs - 1)"

definition asm_is_empty :: "assembler \<Rightarrow> bool" where
  "asm_is_empty cs \<longleftrightarrow> \<not> has_data (asm_front cs)"

text \<open>The loop of \<open>remove_contig_at\<close> from index \<open>i\<close> on, and what follows it.\<close>

function remove_contig_loop :: "assembler \<Rightarrow> nat \<Rightarrow> assembler" where
  "remove_contig_loop cs i =
     (if i < length cs - 1
      then if \<not> has_data (cs ! i) then cs
           else remove_contig_loop (cs[i := cs ! (i + 1)]) (i + 1)
      else cs[length cs - 1 := contig_empty])"
  by pat_completeness auto
termination
  by (relation "measure (\<lambda>(cs, i). length cs - i)") auto

definition remove_contig_at :: "assembler \<Rightarrow> nat \<Rightarrow> assembler option" where
  "remove_contig_at cs at =
     do { c \<leftarrow> contig_at cs at;
          panic_unless (has_data c);
          Some (remove_contig_loop cs at) }"

text \<open>The loop of \<open>add_contig_at\<close>, which runs down from the last index to \<open>at + 1\<close>.\<close>

fun shift_right_loop :: "assembler \<Rightarrow> nat \<Rightarrow> nat \<Rightarrow> assembler" where
  "shift_right_loop cs at i =
     (if at < i then shift_right_loop (cs[i := cs ! (i - 1)]) at (i - 1) else cs)"

definition add_contig_at :: "assembler \<Rightarrow> nat \<Rightarrow> too_many_holes + assembler" where
  "add_contig_at cs at =
     (if has_data (asm_back cs) then Inl TooManyHoles
      else Inr ((shift_right_loop cs at (length cs - 1))[at := contig_empty]))"

text \<open>
  The search loop of \<open>add\<close>: the index of the contig that holds the start of the range, with
  the offset relative to it; or the first unused contig; or neither.
\<close>

datatype find_result = FindFull | FindUnused nat nat | FindAt nat nat

function find_loop :: "assembler \<Rightarrow> nat \<Rightarrow> nat \<Rightarrow> find_result" where
  "find_loop cs offset i =
     (if length cs \<le> i then FindFull
      else if \<not> has_data (cs ! i) then FindUnused i offset
      else if offset \<le> total_size (cs ! i) then FindAt i offset
      else find_loop cs (offset - total_size (cs ! i)) (i + 1))"
  by pat_completeness auto
termination
  by (relation "measure (\<lambda>(cs, offset, i). length cs - i)") auto

text \<open>The loop of \<open>add\<close> that coalesces contigs to the right into contig \<open>i\<close>.\<close>

function coalesce_loop :: "assembler \<Rightarrow> nat \<Rightarrow> nat \<Rightarrow> nat \<Rightarrow> assembler \<times> nat" where
  "coalesce_loop cs i stop j =
     (if j < length cs \<and> has_data (cs ! j) \<and> total_size (cs ! i) + hole_size (cs ! j) \<le> stop
      then coalesce_loop
             (cs[i := (cs ! i)\<lparr>data_size := data_size (cs ! i) + total_size (cs ! j)\<rparr>]) i stop (j + 1)
      else (cs, j))"
  by pat_completeness auto
termination
  by (relation "measure (\<lambda>(cs, i, stop, j). length cs - j)") auto

text \<open>The loop of \<open>add\<close> that moves the contigs behind the coalesced ones down by \<open>shift\<close>.\<close>

function shift_left_loop :: "assembler \<Rightarrow> nat \<Rightarrow> nat \<Rightarrow> assembler" where
  "shift_left_loop cs shift x =
     (if x < length cs \<and> has_data (cs ! x)
      then shift_left_loop
             (cs[x := (if x + shift < length cs then cs ! (x + shift) else contig_empty)]) shift (x + 1)
      else cs)"
  by pat_completeness auto
termination
  by (relation "measure (\<lambda>(cs, shift, x). length cs - x)") auto

declare remove_contig_loop.simps [simp del] shift_right_loop.simps [simp del]
  find_loop.simps [simp del] coalesce_loop.simps [simp del] shift_left_loop.simps [simp del]

text \<open>The part of \<open>add\<close> that follows the case of a range inside a hole.\<close>

definition asm_merge :: "assembler \<Rightarrow> nat \<Rightarrow> nat \<Rightarrow> assembler option" where
  "asm_merge cs i stop =
     (let (cs, j) = coalesce_loop cs i stop (i + 1);
          shift = j - i - 1;
          cs = (if shift \<noteq> 0 then shift_left_loop cs shift (i + 1) else cs)
      in if total_size (cs ! i) < stop
         then let left = stop - total_size (cs ! i);
                  cs = cs[i := (cs ! i)\<lparr>data_size := data_size (cs ! i) + left\<rparr>]
              in if i + 1 < length cs \<and> has_data (cs ! (i + 1))
                 then do { c \<leftarrow> shrink_hole_by (cs ! (i + 1)) left; Some (cs[i + 1 := c]) }
                 else Some cs
         else Some cs)"

definition asm_add :: "assembler \<Rightarrow> nat \<Rightarrow> nat \<Rightarrow> (too_many_holes + assembler) option" where
  "asm_add cs offset n =
     (if n = 0 then Some (Inr cs)
      else case find_loop cs offset 0 of
        FindFull \<Rightarrow> Some (Inl TooManyHoles)
      | FindUnused i offset \<Rightarrow> Some (Inr (cs[i := hole_and_data offset n]))
      | FindAt i offset \<Rightarrow>
          if offset < hole_size (cs ! i)
          then if offset + n < hole_size (cs ! i)
               then (case add_contig_at cs i of
                       Inl e \<Rightarrow> Some (Inl e)
                     | Inr cs \<Rightarrow>
                         do { new \<leftarrow> contig_at cs i;
                              let cs = cs[i := new\<lparr>hole_size := offset, data_size := n\<rparr>];
                              old \<leftarrow> contig_at cs (i + 1);
                              old \<leftarrow> shrink_hole_by old (offset + n);
                              Some (Inr (cs[i + 1 := old])) })
               else do { c \<leftarrow> shrink_hole_to (cs ! i) offset;
                         map_option Inr (asm_merge (cs[i := c]) i (offset + n)) }
          else map_option Inr (asm_merge cs i (offset + n)))"

definition asm_remove_front :: "assembler \<Rightarrow> (nat \<times> assembler) option" where
  "asm_remove_front cs =
     (let front = asm_front cs
      in if has_hole front \<or> \<not> has_data front then Some (0, cs)
         else do { cs \<leftarrow> remove_contig_at cs 0;
                   panic_unless (data_size front > 0);
                   Some (data_size front, cs) })"

definition asm_add_then_remove_front ::
  "assembler \<Rightarrow> nat \<Rightarrow> nat \<Rightarrow> (too_many_holes + (nat \<times> assembler)) option" where
  "asm_add_then_remove_front cs offset n =
     (if offset = 0 \<and> n < hole_size (cs ! 0)
      then Some (Inr (n, cs[0 := (cs ! 0)\<lparr>hole_size := hole_size (cs ! 0) - n\<rparr>]))
      else do { res \<leftarrow> asm_add cs offset n;
                case res of
                  Inl e \<Rightarrow> Some (Inl e)
                | Inr cs \<Rightarrow> do { r \<leftarrow> asm_remove_front cs; Some (Inr r) } })"

text \<open>
  The items of \<open>AssemblerIter\<close>: \<open>next\<close> skips contigs without data, so collecting the
  iterator walks the contigs once with \<open>left\<close> as the running position.
\<close>

fun iter_from :: "contig list \<Rightarrow> nat \<Rightarrow> nat \<Rightarrow> (nat \<times> nat) list" where
  "iter_from [] first_offset left = []"
| "iter_from (c # cs) first_offset left =
     (let left = left + hole_size c; right = left + data_size c
      in if left < right
         then (left + first_offset, right + first_offset) # iter_from cs first_offset right
         else iter_from cs first_offset left)"

definition asm_iter_data :: "assembler \<Rightarrow> nat \<Rightarrow> (nat \<times> nat) list" where
  "asm_iter_data cs first_offset = iter_from cs first_offset 0"

section \<open>Invariant and abstraction\<close>

text \<open>All used contigs have data, and all but the first have a hole.\<close>

definition contigs_wf :: "contig list \<Rightarrow> bool" where
  "contigs_wf ds \<longleftrightarrow> (\<forall>c \<in> set ds. has_data c) \<and> (\<forall>c \<in> set (tl ds). has_hole c)"

definition contigs_tight :: "contig list \<Rightarrow> bool" where
  "contigs_tight ds \<longleftrightarrow> (\<forall>c \<in> set ds. has_data c \<and> has_hole c)"

definition asm_used :: "assembler \<Rightarrow> contig list" where
  "asm_used cs = takeWhile has_data cs"

definition asm_inv :: "assembler \<Rightarrow> bool" where
  "asm_inv cs \<longleftrightarrow> cs \<noteq> [] \<and> contigs_wf (asm_used cs) \<and>
     (\<forall>c \<in> set (dropWhile has_data cs). c = contig_empty)"

text \<open>The offsets that have been received, when the first contig starts at \<open>base\<close>.\<close>

fun asm_cover :: "nat \<Rightarrow> contig list \<Rightarrow> nat set" where
  "asm_cover base [] = {}"
| "asm_cover base (c # cs) =
     {base + hole_size c ..< base + total_size c} \<union> asm_cover (base + total_size c) cs"

definition asm_extent :: "contig list \<Rightarrow> nat" where
  "asm_extent cs = sum_list (map total_size cs)"

lemmas contig_simps = contig_empty_def hole_and_data_def has_hole_def has_data_def total_size_def

lemma contig_empty_sizes [simp]:
  "\<not> has_data contig_empty" "\<not> has_hole contig_empty" "total_size contig_empty = 0"
  "hole_size contig_empty = 0" "data_size contig_empty = 0"
  by (simp_all add: contig_simps)

lemma asm_cover_append:
  "asm_cover b (xs @ ys) = asm_cover b xs \<union> asm_cover (b + asm_extent xs) ys"
  by (induction xs arbitrary: b) (auto simp: asm_extent_def add.assoc)

lemma asm_cover_replicate [simp]: "asm_cover b (replicate k contig_empty) = {}"
  by (induction k arbitrary: b) auto

lemma asm_extent_replicate [simp]: "asm_extent (replicate k contig_empty) = 0"
  by (simp add: asm_extent_def sum_list_replicate)

lemma asm_cover_bounds: "x \<in> asm_cover b cs \<Longrightarrow> b \<le> x \<and> x < b + asm_extent cs"
proof (induction cs arbitrary: b)
  case (Cons c cs)
  from Cons.IH [of "b + total_size c"] Cons.prems show ?case
    by (auto simp: asm_extent_def total_size_def)
qed simp

lemma asm_extent_Cons [simp]: "asm_extent (c # cs) = total_size c + asm_extent cs"
  "asm_extent [] = 0" "asm_extent (xs @ ys) = asm_extent xs + asm_extent ys"
  by (simp_all add: asm_extent_def)

lemma asm_invE:
  assumes "asm_inv cs"
  obtains ds k where "cs = ds @ replicate k contig_empty" and "contigs_wf ds"
    and "ds = asm_used cs" and "length cs = length ds + k" and "0 < length ds + k"
proof -
  let ?ds = "takeWhile has_data cs" and ?es = "dropWhile has_data cs"
  have "?es = replicate (length ?es) contig_empty"
    using assms by (intro replicate_eqI) (auto simp: asm_inv_def)
  then have cs: "cs = ?ds @ replicate (length ?es) contig_empty"
    by (metis takeWhile_dropWhile_id)
  have len: "length cs = length ?ds + length ?es"
    by (metis length_append takeWhile_dropWhile_id)
  show thesis
  proof (rule that [OF cs _ _ len])
    show "contigs_wf ?ds" using assms by (simp add: asm_inv_def asm_used_def)
    show "?ds = asm_used cs" by (simp add: asm_used_def)
    show "0 < length ?ds + length ?es" using assms len by (simp add: asm_inv_def flip: len)
  qed
qed

lemma asm_used_append [simp]:
  "contigs_wf ds \<Longrightarrow> asm_used (ds @ replicate k contig_empty) = ds"
  by (cases k) (auto simp: asm_used_def contigs_wf_def takeWhile_append)

lemma asm_invI:
  assumes "contigs_wf ds" and "0 < length ds + k"
  shows "asm_inv (ds @ replicate k contig_empty)"
proof -
  have "dropWhile has_data (ds @ replicate k contig_empty) = replicate k contig_empty"
    using assms by (cases k) (auto simp: contigs_wf_def dropWhile_append)
  with assms show ?thesis by (auto simp: asm_inv_def)
qed

section \<open>Insertion on the list of used contigs\<close>

text \<open>How many contigs behind \<open>c\<close> a range that ends at \<open>stop\<close> swallows, and what \<open>c\<close> becomes.\<close>

fun coal :: "nat \<Rightarrow> contig \<Rightarrow> contig list \<Rightarrow> contig \<times> nat" where
  "coal stop c [] = (c, 0)"
| "coal stop c (d # ds) =
     (if total_size c + hole_size d \<le> stop
      then let (c', n) = coal stop (c\<lparr>data_size := data_size c + total_size d\<rparr>) ds in (c', Suc n)
      else (c, 0))"

definition extend :: "nat \<Rightarrow> contig \<Rightarrow> contig list \<Rightarrow> contig list" where
  "extend stop c ds =
     (if total_size c < stop
      then let left = stop - total_size c
           in c\<lparr>data_size := data_size c + left\<rparr> #
              (case ds of [] \<Rightarrow> [] | d # ds \<Rightarrow> d\<lparr>hole_size := hole_size d - left\<rparr> # ds)
      else c # ds)"

definition absorb :: "nat \<Rightarrow> contig \<Rightarrow> contig list \<Rightarrow> contig list" where
  "absorb stop c ds = (let (c', n) = coal stop c ds in extend stop c' (drop n ds))"

fun insert_range :: "contig list \<Rightarrow> nat \<Rightarrow> nat \<Rightarrow> contig list" where
  "insert_range [] offset n = [hole_and_data offset n]"
| "insert_range (c # ds) offset n =
     (if offset \<le> total_size c
      then if offset < hole_size c
           then if offset + n < hole_size c
                then hole_and_data offset n # c\<lparr>hole_size := hole_size c - (offset + n)\<rparr> # ds
                else absorb (offset + n) (hole_and_data offset (total_size c - offset)) ds
           else absorb (offset + n) c ds
      else c # insert_range ds (offset - total_size c) n)"

lemma absorb_Nil:
  "absorb stop c [] = [if total_size c < stop then c\<lparr>data_size := data_size c + (stop - total_size c)\<rparr> else c]"
  by (simp add: absorb_def extend_def Let_def)

lemma absorb_Cons:
  "absorb stop c (d # ds) =
     (if total_size c + hole_size d \<le> stop
      then absorb stop (c\<lparr>data_size := data_size c + total_size d\<rparr>) ds
      else if total_size c < stop
      then c\<lparr>data_size := data_size c + (stop - total_size c)\<rparr> #
           d\<lparr>hole_size := hole_size d - (stop - total_size c)\<rparr> # ds
      else c # d # ds)"
  by (simp add: absorb_def extend_def Let_def split_def)

lemma absorb_cover:
  assumes "hole_size c \<le> stop" and "contigs_tight ds"
  shows "asm_cover b (absorb stop c ds) = asm_cover b (c # ds) \<union> {b + hole_size c ..< b + stop}"
  using assms
proof (induction ds arbitrary: c)
  case Nil
  then show ?case by (auto simp: absorb_Nil total_size_def)
next
  case (Cons d ds)
  show ?case
  proof (cases "total_size c + hole_size d \<le> stop")
    case True
    let ?c = "c\<lparr>data_size := data_size c + total_size d\<rparr>"
    have "asm_cover b (absorb stop ?c ds) = asm_cover b (?c # ds) \<union> {b + hole_size c ..< b + stop}"
      using Cons.IH [of ?c] Cons.prems by (simp add: contigs_tight_def)
    moreover have "{b + hole_size c ..< b + (total_size c + total_size d)} \<union> {b + hole_size c ..< b + stop}
        = {b + hole_size c ..< b + total_size c} \<union>
          {b + total_size c + hole_size d ..< b + (total_size c + total_size d)} \<union>
          {b + hole_size c ..< b + stop}"
      using True by (auto simp: total_size_def)
    ultimately show ?thesis
      using True by (auto simp: absorb_Cons total_size_def add.assoc)
  next
    case False
    then show ?thesis by (auto simp: absorb_Cons total_size_def ac_simps)
  qed
qed

lemma absorb_wf:
  assumes "has_data c" and "contigs_tight ds"
  shows "\<exists>c' ds'. absorb stop c ds = c' # ds' \<and> has_data c' \<and> hole_size c' = hole_size c \<and>
    contigs_tight ds' \<and> length ds' \<le> length ds"
  using assms
proof (induction ds arbitrary: c)
  case Nil
  then show ?case by (simp add: absorb_Nil contigs_tight_def has_data_def)
next
  case (Cons d ds)
  show ?case
  proof (cases "total_size c + hole_size d \<le> stop")
    case True
    have "has_data (c\<lparr>data_size := data_size c + total_size d\<rparr>)"
      using Cons.prems by (simp add: has_data_def)
    from Cons.IH [OF this] Cons.prems True show ?thesis
      by (auto simp: absorb_Cons contigs_tight_def)
  next
    case False
    with Cons.prems show ?thesis
      by (auto simp: absorb_Cons contigs_tight_def has_data_def has_hole_def)
  qed
qed

lemma absorb_extent:
  assumes "contigs_tight ds"
  shows "asm_extent (absorb stop c ds) = max stop (total_size c + asm_extent ds)"
  using assms
proof (induction ds arbitrary: c)
  case Nil
  then show ?case by (auto simp: absorb_Nil total_size_def)
next
  case (Cons d ds)
  then have "asm_extent (absorb stop (c\<lparr>data_size := data_size c + total_size d\<rparr>) ds)
      = max stop (total_size c + (total_size d + asm_extent ds))"
    by (subst Cons.IH) (auto simp: contigs_tight_def total_size_def)
  with Cons.prems show ?case
    by (auto simp: absorb_Cons total_size_def contigs_tight_def)
qed

lemma contigs_wf_Cons [simp]: "contigs_wf (c # ds) \<longleftrightarrow> has_data c \<and> contigs_tight ds"
  by (auto simp: contigs_wf_def contigs_tight_def)

lemma contigs_wf_Nil [simp]: "contigs_wf []"
  by (simp add: contigs_wf_def)

lemma contigs_tight_Cons [simp]:
  "contigs_tight (c # ds) \<longleftrightarrow> has_data c \<and> has_hole c \<and> contigs_tight ds"
  "contigs_tight []"
  by (auto simp: contigs_tight_def)

lemma contigs_tight_wf: "contigs_tight ds \<Longrightarrow> contigs_wf ds"
  by (cases ds) auto

lemma insert_range_cover:
  assumes "contigs_wf ds"
  shows "asm_cover b (insert_range ds offset n) = asm_cover b ds \<union> {b + offset ..< b + offset + n}"
  using assms
proof (induction ds arbitrary: b offset)
  case Nil
  then show ?case by (auto simp: contig_simps)
next
  case (Cons c ds)
  then have tight: "contigs_tight ds" by simp
  consider "total_size c < offset" | "offset \<le> total_size c" "offset + n < hole_size c"
    | "offset \<le> total_size c" "offset < hole_size c" "hole_size c \<le> offset + n"
    | "offset \<le> total_size c" "hole_size c \<le> offset" by linarith
  then show ?case
  proof cases
    case 1
    then show ?thesis
      using Cons.IH [of "b + total_size c" "offset - total_size c"] contigs_tight_wf [OF tight]
      by (auto simp: add.assoc)
  next
    case 2
    let ?d = "c\<lparr>hole_size := hole_size c - (offset + n)\<rparr>"
    have t: "b + (offset + n) + total_size ?d = b + total_size c"
      "b + (offset + n) + hole_size ?d = b + hole_size c"
      using 2 by (simp_all add: total_size_def)
    have "asm_cover b (insert_range (c # ds) offset n)
        = {b + offset ..< b + (offset + n)} \<union>
          ({b + (offset + n) + hole_size ?d ..< b + (offset + n) + total_size ?d} \<union>
           asm_cover (b + (offset + n) + total_size ?d) ds)"
      using 2 by (simp add: hole_and_data_def total_size_def)
    then show ?thesis unfolding t by (auto simp: add.assoc)
  next
    case 3
    let ?d = "hole_and_data offset (total_size c - offset)"
    have t: "total_size ?d = total_size c" "hole_size ?d = offset"
      using 3 by (simp_all add: contig_simps)
    have "asm_cover b (insert_range (c # ds) offset n)
        = ({b + offset ..< b + total_size c} \<union> asm_cover (b + total_size c) ds)
          \<union> {b + offset ..< b + (offset + n)}"
      using 3 absorb_cover [of ?d "offset + n" ds b] tight by (simp add: t)
    moreover have "{b + offset ..< b + total_size c} \<union> {b + offset ..< b + (offset + n)}
        = {b + hole_size c ..< b + total_size c} \<union> {b + offset ..< b + (offset + n)}"
      using 3 by auto
    ultimately show ?thesis by (simp add: add.assoc) blast
  next
    case 4
    have "asm_cover b (insert_range (c # ds) offset n)
        = ({b + hole_size c ..< b + total_size c} \<union> asm_cover (b + total_size c) ds)
          \<union> {b + hole_size c ..< b + (offset + n)}"
      using 4 absorb_cover [of c "offset + n" ds b] tight by simp
    moreover have "{b + hole_size c ..< b + total_size c} \<union> {b + hole_size c ..< b + (offset + n)}
        = {b + hole_size c ..< b + total_size c} \<union> {b + offset ..< b + (offset + n)}"
      using 4 by auto
    ultimately show ?thesis by (simp add: add.assoc) blast
  qed
qed

lemma insert_range_tight:
  assumes "contigs_tight ds" and "0 < n" and "0 < offset"
  shows "contigs_tight (insert_range ds offset n)"
  using assms
proof (induction ds arbitrary: offset)
  case Nil
  then show ?case by (simp add: contig_simps)
next
  case (Cons c ds)
  have "has_data (hole_and_data offset (total_size c - offset))" if "offset < hole_size c"
    using that Cons.prems by (simp add: contig_simps)
  with absorb_wf [of "hole_and_data offset (total_size c - offset)" ds "offset + n"]
    absorb_wf [of c ds "offset + n"] Cons show ?case
    by (auto simp: contig_simps)
qed

lemma insert_range_wf:
  assumes "contigs_wf ds" and "0 < n"
  shows "contigs_wf (insert_range ds offset n)"
proof (cases ds)
  case Nil
  with assms show ?thesis by (simp add: contig_simps)
next
  case (Cons c ds')
  have "has_data (hole_and_data offset (total_size c - offset))" if "offset < hole_size c"
    using that assms Cons by (simp add: contig_simps)
  with absorb_wf [of "hole_and_data offset (total_size c - offset)" ds' "offset + n"]
    absorb_wf [of c ds' "offset + n"] insert_range_tight [of ds' n "offset - total_size c"]
    assms Cons show ?thesis
    by (auto simp: contig_simps)
qed

lemma insert_range_extent:
  assumes "contigs_wf ds"
  shows "asm_extent (insert_range ds offset n) = max (asm_extent ds) (offset + n)"
  using assms
proof (induction ds arbitrary: offset)
  case Nil
  then show ?case by (simp add: contig_simps)
next
  case (Cons c ds)
  then show ?case
    using Cons.IH [of "offset - total_size c"] contigs_tight_wf [of ds]
    by (auto simp: absorb_extent) (auto simp: contig_simps)
qed

section \<open>The array loops compute the list functions\<close>

fun find_list :: "contig list \<Rightarrow> nat \<Rightarrow> (nat \<times> nat) option" where
  "find_list [] offset = None"
| "find_list (c # ds) offset =
     (if offset \<le> total_size c then Some (0, offset)
      else map_option (\<lambda>(i, o'). (Suc i, o')) (find_list ds (offset - total_size c)))"

lemma find_loop_list:
  assumes "\<forall>c \<in> set ds. has_data c"
  shows "find_loop (pre @ ds @ replicate k contig_empty) offset (length pre) =
    (case find_list ds offset of
       None \<Rightarrow> if k = 0 then FindFull
               else FindUnused (length pre + length ds) (offset - asm_extent ds)
     | Some (i, o') \<Rightarrow> FindAt (length pre + i) o')"
  using assms
proof (induction ds arbitrary: pre offset)
  case Nil
  then show ?case by (subst find_loop.simps) (auto simp: nth_append)
next
  case (Cons c ds)
  let ?cs = "pre @ (c # ds) @ replicate k contig_empty"
  have nth: "?cs ! length pre = c" by (simp add: nth_append)
  show ?case
  proof (cases "offset \<le> total_size c")
    case True
    with Cons.prems nth show ?thesis by (subst find_loop.simps) simp
  next
    case False
    have "find_loop ?cs offset (length pre)
        = find_loop ((pre @ [c]) @ ds @ replicate k contig_empty) (offset - total_size c) (length (pre @ [c]))"
      using False Cons.prems nth by (subst find_loop.simps) simp
    with Cons.IH [of "pre @ [c]" "offset - total_size c"] Cons.prems False show ?thesis
      by (auto split: option.splits)
  qed
qed

lemma find_list_None:
  "find_list ds offset = None \<Longrightarrow>
   insert_range ds offset n = ds @ [hole_and_data (offset - asm_extent ds) n]"
  by (induction ds arbitrary: offset) (auto split: if_splits)

lemma find_list_Some:
  "find_list ds offset = Some (i, o') \<Longrightarrow>
   \<exists>pre c post. ds = pre @ c # post \<and> length pre = i \<and> o' \<le> total_size c \<and>
     insert_range ds offset n = pre @ insert_range (c # post) o' n"
proof (induction ds arbitrary: offset i)
  case (Cons c ds)
  show ?case
  proof (cases "offset \<le> total_size c")
    case True
    with Cons.prems show ?thesis by (intro exI [of _ "[]"]) auto
  next
    case False
    with Cons.prems obtain i' where i: "i = Suc i'"
      and f: "find_list ds (offset - total_size c) = Some (i', o')"
      by auto
    from Cons.IH [OF f] obtain pre d post where
      "ds = pre @ d # post \<and> length pre = i' \<and> o' \<le> total_size d \<and>
       insert_range ds (offset - total_size c) n = pre @ insert_range (d # post) o' n" by blast
    with False i show ?thesis by (intro exI [of _ "c # pre"] exI [of _ d] exI [of _ post]) auto
  qed
qed simp

lemma coalesce_loop_list:
  assumes "\<forall>c \<in> set post. has_data c"
  shows "coalesce_loop (pre @ c # mid @ post @ replicate k contig_empty) (length pre) stop
      (length pre + 1 + length mid) =
    (pre @ fst (coal stop c post) # mid @ post @ replicate k contig_empty,
     length pre + 1 + length mid + snd (coal stop c post))"
  using assms
proof (induction post arbitrary: c mid)
  case Nil
  show ?case by (subst coalesce_loop.simps) (auto simp: nth_append nth_Cons')
next
  case (Cons d post)
  let ?rest = "post @ replicate k contig_empty"
  let ?cs = "pre @ c # mid @ (d # ?rest)"
  have nth: "?cs ! length pre = c" "?cs ! (length pre + 1 + length mid) = d"
    by (simp_all add: nth_append)
  show ?case
  proof (cases "total_size c + hole_size d \<le> stop")
    case True
    let ?c = "c\<lparr>data_size := data_size c + total_size d\<rparr>"
    have "coalesce_loop ?cs (length pre) stop (length pre + 1 + length mid)
        = coalesce_loop (pre @ ?c # (mid @ [d]) @ ?rest) (length pre) stop
            (length pre + 1 + length (mid @ [d]))"
      using True Cons.prems nth
      by (subst coalesce_loop.simps) (simp add: list_update_append)
    with Cons.IH [of ?c "mid @ [d]"] Cons.prems True show ?thesis
      by (simp add: split_def Let_def)
  next
    case False
    with nth show ?thesis by (subst coalesce_loop.simps) simp
  qed
qed

lemma coal_le: "snd (coal stop c ds) \<le> length ds"
  by (induction ds arbitrary: c) (auto simp: split_def Let_def)

text \<open>Each of the used contigs \<open>xs\<close> is replaced by the one \<open>shift\<close> places further on.\<close>

lemma shift_left_loop_list:
  assumes "\<forall>c \<in> set xs. has_data c" and "0 < shift"
  shows "shift_left_loop (pre @ xs @ replicate k contig_empty) shift (length pre)
    = pre @ take (length xs) (drop shift (xs @ replicate shift contig_empty)) @ replicate k contig_empty"
  using assms
proof (induction xs arbitrary: pre)
  case Nil
  show ?case by (subst shift_left_loop.simps) (auto simp: nth_append)
next
  case (Cons x xs)
  let ?cs = "pre @ (x # xs) @ replicate k contig_empty"
  let ?y = "(if length pre + shift < length ?cs then ?cs ! (length pre + shift) else contig_empty)"
  obtain s where s: "shift = Suc s" using Cons.prems by (cases shift) auto
  have y: "?y = (xs @ replicate shift contig_empty) ! s"
    by (auto simp: s nth_append simp del: replicate_Suc)
  have "shift_left_loop ?cs shift (length pre)
      = shift_left_loop ((pre @ [?y]) @ xs @ replicate k contig_empty) shift (length (pre @ [?y]))"
    using Cons.prems by (subst shift_left_loop.simps) (simp add: nth_append list_update_append)
  also have "\<dots> = (pre @ [?y]) @ take (length xs) (drop shift (xs @ replicate shift contig_empty))
      @ replicate k contig_empty"
    using Cons.prems by (intro Cons.IH) auto
  also have "\<dots> = pre @ take (length (x # xs)) (drop shift ((x # xs) @ replicate shift contig_empty))
      @ replicate k contig_empty"
  proof -
    let ?zs = "xs @ replicate shift contig_empty"
    have "s < length ?zs" by (simp add: s del: replicate_Suc)
    then have "drop s ?zs = ?zs ! s # drop (Suc s) ?zs" by (rule Cons_nth_drop_Suc [symmetric])
    then have "take (length (x # xs)) (drop s ?zs) = ?zs ! s # take (length xs) (drop shift ?zs)"
      by (simp only: take_Suc_Cons length_Cons s)
    then have "take (length (x # xs)) (drop s ?zs) = ?y # take (length xs) (drop shift ?zs)"
      unfolding y .
    moreover have "drop shift ((x # xs) @ replicate shift contig_empty) = drop s ?zs"
      unfolding s by (simp only: append_Cons drop_Suc_Cons)
    ultimately show ?thesis by (simp only: append_assoc append_Cons append_Nil)
  qed
  finally show ?case .
qed

lemma coal_stop:
  "drop (snd (coal stop c ds)) ds = d # rest \<Longrightarrow>
   stop < total_size (fst (coal stop c ds)) + hole_size d"
  by (induction ds arbitrary: c) (auto simp: split_def Let_def split: if_splits)

lemma asm_merge_list:
  assumes "contigs_tight post"
  shows "\<exists>k'. asm_merge (pre @ c # post @ replicate k contig_empty) (length pre) stop
      = Some (pre @ absorb stop c post @ replicate k' contig_empty) \<and>
    length (absorb stop c post) + k' = Suc (length post) + k"
proof -
  define c' n where "c' = fst (coal stop c post)" and "n = snd (coal stop c post)"
  let ?i = "length pre" and ?E = "\<lambda>k. replicate k contig_empty"
  have data: "\<forall>c \<in> set post. has_data c" using assms by (simp add: contigs_tight_def)
  have n: "n \<le> length post" by (simp add: n_def coal_le)
  have coal: "coalesce_loop (pre @ c # post @ ?E k) ?i stop (?i + 1) = (pre @ c' # post @ ?E k, ?i + 1 + n)"
    using coalesce_loop_list [OF data, of pre c "[]" k stop] by (simp add: c'_def n_def)
  define rest where "rest = drop n post"
  have shift: "(if n \<noteq> 0 then shift_left_loop (pre @ c' # post @ ?E k) n (?i + 1) else pre @ c' # post @ ?E k)
      = pre @ c' # rest @ ?E (n + k)"
    using shift_left_loop_list [OF data, of n "pre @ [c']" k] n
    by (auto simp: rest_def replicate_add)
  have absorb: "absorb stop c post = extend stop c' rest"
    by (simp add: absorb_def c'_def n_def rest_def split_def Let_def)
  have n': "?i + 1 + n - ?i - 1 = n" by simp
  have merge: "asm_merge (pre @ c # post @ ?E k) ?i stop = Some (pre @ extend stop c' rest @ ?E (n + k))"
  proof (cases rest)
    case Nil
    then show ?thesis
      unfolding asm_merge_def coal Let_def prod.case n' shift
      by (auto simp: nth_append list_update_append extend_def)
  next
    case (Cons d ds)
    then have "has_data d" "stop < total_size c' + hole_size d"
      using data coal_stop [of stop c post d ds] in_set_dropD [of d n post]
      by (auto simp: rest_def n_def c'_def)
    with Cons show ?thesis
      unfolding asm_merge_def coal Let_def prod.case n' shift
      by (auto simp: nth_append list_update_append extend_def shrink_hole_by_def usize_sub_def)
  qed
  have "length (extend stop c' rest) = Suc (length rest)"
    by (simp add: extend_def Let_def split: list.splits)
  then have "length (extend stop c' rest) + (n + k) = Suc (length post) + k"
    using n by (simp add: rest_def)
  with merge absorb show ?thesis by auto
qed

lemma shift_right_loop_list:
  assumes "zs \<noteq> []"
  shows "shift_right_loop (pre @ zs @ post) (length pre) (length pre + length zs - 1)
    = pre @ hd zs # butlast zs @ post"
  using assms
proof (induction zs arbitrary: post rule: rev_induct)
  case (snoc z ys)
  show ?case
  proof (cases "ys = []")
    case True
    then show ?thesis by (subst shift_right_loop.simps) simp
  next
    case False
    then have i: "length pre < length pre + length ys" "length pre + length (ys @ [z]) - 1 = length pre + length ys"
      by auto
    have "(pre @ ys @ z # post) ! (length pre + length ys - 1) = last ys"
      using False by (cases ys rule: rev_cases) (simp_all add: nth_append)
    then have "shift_right_loop (pre @ (ys @ [z]) @ post) (length pre) (length pre + length (ys @ [z]) - 1)
        = shift_right_loop (pre @ ys @ last ys # post) (length pre) (length pre + length ys - 1)"
      unfolding i(2) using False by (subst shift_right_loop.simps) (simp add: list_update_append)
    also have "\<dots> = pre @ hd ys # butlast ys @ last ys # post" by (rule snoc.IH [OF False])
    finally show ?thesis using False by simp
  qed
qed simp

lemma add_contig_at_list:
  assumes "\<forall>c \<in> set (pre @ ds). has_data c" and "ds \<noteq> []"
  shows "add_contig_at (pre @ ds @ replicate k contig_empty) (length pre) =
    (case k of 0 \<Rightarrow> Inl TooManyHoles
     | Suc k \<Rightarrow> Inr (pre @ contig_empty # ds @ replicate k contig_empty))"
proof (cases k)
  case 0
  then show ?thesis
    using assms by (auto simp: add_contig_at_def asm_back_def nth_append)
next
  case (Suc k')
  let ?zs = "ds @ replicate k contig_empty"
  have "butlast ?zs = ds @ replicate k' contig_empty"
    using Suc by (simp add: butlast_append butlast_conv_take take_replicate del: replicate_Suc)
  moreover have "\<not> has_data (asm_back (pre @ ?zs))"
    using Suc by (simp add: asm_back_def nth_append del: replicate_Suc)
  ultimately show ?thesis
    using shift_right_loop_list [of ?zs pre "[]"] Suc assms
    by (simp add: add_contig_at_def list_update_append)
qed

lemma contigs_wf_append:
  "contigs_wf (xs @ c # ys) \<Longrightarrow> contigs_tight ys \<and> has_data c \<and> (\<forall>c \<in> set xs. has_data c)"
  by (cases xs) (auto simp: contigs_tight_def)

lemma asm_add_list:
  assumes wf: "contigs_wf ds" and n: "0 < n"
  shows "asm_add (ds @ replicate k contig_empty) offset n = Some (
    if length (insert_range ds offset n) \<le> length ds + k
    then Inr (insert_range ds offset n
           @ replicate (length ds + k - length (insert_range ds offset n)) contig_empty)
    else Inl TooManyHoles)"
proof -
  let ?E = "\<lambda>k. replicate k contig_empty"
  have data: "\<forall>c \<in> set ds. has_data c" using wf by (simp add: contigs_wf_def)
  note find = find_loop_list [OF data, of "[]" k offset, simplified]
  show ?thesis
  proof (cases "find_list ds offset")
    case None
    with n find find_list_None [OF None, of n] show ?thesis
      by (cases k) (auto simp: asm_add_def list_update_append)
  next
    case (Some p)
    then obtain i o' where fl: "find_list ds offset = Some (i, o')" by (cases p) auto
    from find_list_Some [OF fl, of n] obtain pre c post where
      ds: "ds = pre @ c # post" and i: "length pre = i" and
      ins: "insert_range ds offset n = pre @ insert_range (c # post) o' n" and
      le: "o' \<le> total_size c" by blast
    from wf ds have wf': "contigs_tight post" "has_data c" "\<forall>c \<in> set pre. has_data c"
      using contigs_wf_append by blast+
    have at: "find_loop (ds @ ?E k) offset 0 = FindAt i o'" "(ds @ ?E k) ! i = c"
      using find fl i ds by (simp_all add: nth_append)
    consider "o' + n < hole_size c" | "o' < hole_size c" "hole_size c \<le> o' + n" | "hole_size c \<le> o'"
      by linarith
    then show ?thesis
    proof cases
      case 1
      have add: "add_contig_at (ds @ ?E k) i = (case k of 0 \<Rightarrow> Inl TooManyHoles
          | Suc k \<Rightarrow> Inr (pre @ contig_empty # c # post @ ?E k))"
        using add_contig_at_list [of pre "c # post" k] wf' ds i by (simp add: contigs_tight_def ball_Un split: nat.split)
      show ?thesis
        using n at 1 le i add ds ins
        by (cases k) (auto simp: asm_add_def contig_at_def nth_append list_update_append
            shrink_hole_by_def usize_sub_def hole_and_data_def contig_empty_def panic_unless_def)
    next
      case 2
      let ?c = "hole_and_data o' (total_size c - o')"
      have shr: "shrink_hole_to c o' = Some ?c"
        using 2 le by (simp add: shrink_hole_to_def usize_sub_def hole_and_data_def panic_unless_def)
      obtain k' where "asm_merge (pre @ ?c # post @ ?E k) i (o' + n)
          = Some (pre @ absorb (o' + n) ?c post @ ?E k')"
        and "length (absorb (o' + n) ?c post) + k' = Suc (length post) + k"
        using asm_merge_list [OF wf'(1), of pre ?c k "o' + n"] i by blast
      moreover have "insert_range (c # post) o' n = absorb (o' + n) ?c post" using 2 le by simp
      moreover have "(ds @ ?E k)[i := ?c] = pre @ ?c # post @ ?E k"
        using ds i by (simp add: list_update_append)
      ultimately show ?thesis
        using n at 2 shr ins ds by (simp add: asm_add_def)
    next
      case 3
      obtain k' where "asm_merge (pre @ c # post @ ?E k) i (o' + n)
          = Some (pre @ absorb (o' + n) c post @ ?E k')"
        and "length (absorb (o' + n) c post) + k' = Suc (length post) + k"
        using asm_merge_list [OF wf'(1), of pre c k "o' + n"] i by blast
      moreover have "insert_range (c # post) o' n = absorb (o' + n) c post" using 3 le by simp
      ultimately show ?thesis
        using n at 3 ins ds by (simp add: asm_add_def)
    qed
  qed
qed

text \<open>What \<open>add\<close> does, over the received offsets.\<close>

lemma asm_add_ok:
  assumes inv: "asm_inv cs" and add: "asm_add cs offset n = Some (Inr cs')"
  shows "asm_inv cs'" and "length cs' = length cs"
    and "asm_cover 0 cs' = asm_cover 0 cs \<union> {offset ..< offset + n}"
    and "asm_extent cs' = (if n = 0 then asm_extent cs else max (asm_extent cs) (offset + n))"
proof -
  obtain ds k where ds: "cs = ds @ replicate k contig_empty" "contigs_wf ds" "0 < length ds + k"
    using asm_invE [OF inv] by metis
  have "asm_inv cs' \<and> length cs' = length cs \<and>
    asm_cover 0 cs' = asm_cover 0 cs \<union> {offset ..< offset + n} \<and>
    asm_extent cs' = (if n = 0 then asm_extent cs else max (asm_extent cs) (offset + n))"
  proof (cases "n = 0")
    case True
    with add inv show ?thesis by (simp add: asm_add_def)
  next
    case False
    with add ds have le: "length (insert_range ds offset n) \<le> length ds + k"
      and cs': "cs' = insert_range ds offset n
        @ replicate (length ds + k - length (insert_range ds offset n)) contig_empty"
      by (simp_all add: asm_add_list split: if_splits)
    with False ds show ?thesis
      using insert_range_wf [of ds n offset] insert_range_cover [of ds 0 offset n]
        insert_range_extent [of ds offset n]
      by (simp add: asm_invI asm_cover_append)
  qed
  then show "asm_inv cs'" "length cs' = length cs"
    "asm_cover 0 cs' = asm_cover 0 cs \<union> {offset ..< offset + n}"
    "asm_extent cs' = (if n = 0 then asm_extent cs else max (asm_extent cs) (offset + n))"
    by blast+
qed

lemma asm_add_no_panic: "asm_inv cs \<Longrightarrow> asm_add cs offset n \<noteq> None"
  by (cases "n = 0") (simp add: asm_add_def, auto elim!: asm_invE simp: asm_add_list)

section \<open>Removing the front\<close>

lemma remove_contig_loop_list:
  assumes "\<forall>c \<in> set ds. has_data c" and "ds \<noteq> []"
  shows "remove_contig_loop (pre @ ds @ replicate k contig_empty) (length pre)
    = pre @ tl ds @ replicate (Suc k) contig_empty"
  using assms
proof (induction ds arbitrary: pre)
  case (Cons d ds)
  show ?case
  proof (cases ds)
    case Nil
    then show ?thesis
    proof (cases k)
      case (Suc k')
      have "remove_contig_loop (pre @ contig_empty # replicate k contig_empty) (Suc (length pre))
          = pre @ contig_empty # replicate k contig_empty"
        using Suc by (subst remove_contig_loop.simps)
          (cases k', auto simp: nth_append list_update_append)
      with Nil Suc Cons.prems show ?thesis
        by (subst remove_contig_loop.simps) (simp add: nth_append list_update_append)
    qed (use Nil in \<open>subst remove_contig_loop.simps, simp add: list_update_append\<close>)
  next
    case (Cons e es)
    have "remove_contig_loop (pre @ (d # ds) @ replicate k contig_empty) (length pre)
        = remove_contig_loop ((pre @ [e]) @ ds @ replicate k contig_empty) (length (pre @ [e]))"
      using Cons Cons.prems by (subst remove_contig_loop.simps) (simp add: nth_append list_update_append)
    also have "\<dots> = (pre @ [e]) @ tl ds @ replicate (Suc k) contig_empty"
      using Cons Cons.prems by (intro Cons.IH) auto
    finally show ?thesis using Cons by simp
  qed
qed simp

lemma asm_remove_front_list:
  assumes "contigs_wf ds" and "0 < length ds + k"
  shows "asm_remove_front (ds @ replicate k contig_empty) = Some (
    case ds of [] \<Rightarrow> (0, replicate k contig_empty)
    | d # ds' \<Rightarrow> if has_hole d then (0, ds @ replicate k contig_empty)
                else (data_size d, ds' @ replicate (Suc k) contig_empty))"
proof (cases ds)
  case Nil
  with assms show ?thesis by (cases k) (simp_all add: asm_remove_front_def asm_front_def)
next
  case (Cons d ds')
  with assms show ?thesis
    using remove_contig_loop_list [of ds "[]" k]
    by (auto simp: asm_remove_front_def asm_front_def remove_contig_at_def contig_at_def
        panic_unless_def contigs_tight_def has_data_def)
qed

lemma asm_cover_shift: "asm_cover (a + b) cs = (+) a ` asm_cover b cs"
  by (induction cs arbitrary: b) (auto simp: image_Un add.assoc image_add_atLeastLessThan)

lemma asm_cover_base: "x \<in> asm_cover b cs \<longleftrightarrow> b \<le> x \<and> x - b \<in> asm_cover 0 cs"
  using asm_cover_shift [of b 0 cs] by (auto simp: image_iff le_iff_add)

lemma tight_cover_gt: "contigs_tight ds \<Longrightarrow> x \<in> asm_cover b ds \<Longrightarrow> b < x"
  by (cases ds) (auto simp: has_hole_def total_size_def dest: asm_cover_bounds)

text \<open>The received prefix and what stays behind it.\<close>

definition front_split :: "nat set \<Rightarrow> nat \<Rightarrow> nat set \<Rightarrow> bool" where
  "front_split S m S' \<longleftrightarrow> {0..<m} \<subseteq> S \<and> m \<notin> S \<and> S' = {x. m + x \<in> S}"

lemma asm_remove_front_ok:
  assumes inv: "asm_inv cs"
  obtains m cs' where "asm_remove_front cs = Some (m, cs')" and "asm_inv cs'"
    and "length cs' = length cs" and "front_split (asm_cover 0 cs) m (asm_cover 0 cs')"
    and "m + asm_extent cs' = asm_extent cs"
proof -
  obtain ds k where ds: "cs = ds @ replicate k contig_empty" "contigs_wf ds" "0 < length ds + k"
    using asm_invE [OF inv] by metis
  consider (nil) "ds = []" | (hole) d es where "ds = d # es" "has_hole d"
    | (data) d es where "ds = d # es" "\<not> has_hole d" by (cases ds) auto
  then show thesis
  proof cases
    case nil
    then show thesis
      using ds inv asm_remove_front_list [of ds k] by (intro that [of 0 cs]) (auto simp: front_split_def)
  next
    case hole
    then have "contigs_tight ds" using ds by simp
    then have "0 \<notin> asm_cover 0 cs"
      using tight_cover_gt [of ds 0 0] ds by (auto simp: asm_cover_append)
    with hole show thesis
      using ds inv asm_remove_front_list [of ds k]
      by (intro that [of 0 cs]) (auto simp: front_split_def)
  next
    case data
    let ?m = "data_size d" and ?cs' = "es @ replicate (Suc k) contig_empty"
    have tight: "contigs_tight es" using ds data by simp
    have "asm_cover 0 cs = {0..<?m} \<union> asm_cover (?m + 0) es"
      using ds data by (simp add: asm_cover_append has_hole_def total_size_def)
    moreover have "0 \<notin> asm_cover 0 es" using tight_cover_gt [OF tight] by auto
    ultimately have "front_split (asm_cover 0 cs) ?m (asm_cover 0 ?cs')"
      unfolding asm_cover_append asm_cover_replicate asm_cover_shift
      by (auto simp: front_split_def dest: asm_cover_bounds)
    moreover have "asm_inv ?cs'"
      using asm_invI [of es "Suc k"] contigs_tight_wf [OF tight] by simp
    ultimately show thesis
      using data ds asm_remove_front_list [of ds k]
      by (intro that [of ?m ?cs']) (auto simp: has_hole_def total_size_def simp del: replicate_Suc)
  qed
qed

lemma asm_fast_path:
  assumes inv: "asm_inv cs" and n: "n < hole_size (cs ! 0)"
  defines "cs' \<equiv> cs[0 := (cs ! 0)\<lparr>hole_size := hole_size (cs ! 0) - n\<rparr>]"
  shows "asm_inv cs'" and "length cs' = length cs"
    and "front_split (asm_cover 0 cs \<union> {0..<n}) n (asm_cover 0 cs')"
    and "n + asm_extent cs' = asm_extent cs"
proof -
  obtain ds k where ds: "cs = ds @ replicate k contig_empty" "contigs_wf ds" "0 < length ds + k"
    using asm_invE [OF inv] by metis
  with n obtain d es where d: "ds = d # es" by (cases ds) (cases k; auto)+
  let ?d = "d\<lparr>hole_size := hole_size d - n\<rparr>"
  have cs': "cs' = (?d # es) @ replicate k contig_empty" using d ds by (simp add: cs'_def)
  have hole: "n < hole_size d" using n d ds by simp
  show "asm_inv cs'"
    unfolding cs' using d ds by (intro asm_invI) (auto simp: has_data_def)
  show "length cs' = length cs" by (simp add: cs'_def)
  show "n + asm_extent cs' = asm_extent cs"
    using cs' d ds hole by (simp add: total_size_def)
  have t: "total_size d = n + total_size ?d" using hole by (simp add: total_size_def)
  have "asm_cover 0 cs = asm_cover (n + 0) (?d # es)"
    using d ds hole t by (simp add: asm_cover_append add.commute)
  moreover have "asm_cover 0 cs' = asm_cover 0 (?d # es)"
    unfolding cs' by (simp add: asm_cover_append del: append_Cons asm_cover.simps)
  moreover have "0 \<notin> asm_cover 0 (?d # es)"
    using hole asm_cover_bounds [of 0 "total_size ?d" es] by (auto simp: total_size_def)
  ultimately show "front_split (asm_cover 0 cs \<union> {0..<n}) n (asm_cover 0 cs')"
    unfolding asm_cover_shift by (auto simp: front_split_def)
qed

lemma asm_add_front_fits:
  assumes inv: "asm_inv cs" and n: "hole_size (cs ! 0) \<le> n"
  shows "asm_add cs 0 n \<noteq> Some (Inl e)"
proof -
  obtain ds k where ds: "cs = ds @ replicate k contig_empty" "contigs_wf ds" "0 < length ds + k"
    using asm_invE [OF inv] by metis
  show ?thesis
  proof (cases ds)
    case Nil
    with ds show ?thesis
      using asm_add_list [of ds n k 0] by (cases "n = 0") (auto simp: asm_add_def)
  next
    case (Cons d es)
    with ds have d: "has_data d" "contigs_tight es" "hole_size d \<le> n" using n by auto
    then have d': "has_data (hole_and_data 0 (total_size d))" by (auto simp: contig_simps)
    have "length (insert_range ds 0 n) \<le> length ds"
      using Cons d absorb_wf [OF d(1,2), of n] absorb_wf [OF d' d(2), of n] by auto
    with ds show ?thesis
      using asm_add_list [of ds n k 0] by (cases "n = 0") (auto simp: asm_add_def)
  qed
qed

lemma asm_atrf_ok:
  assumes inv: "asm_inv cs"
  obtains (full) "asm_add_then_remove_front cs offset n = Some (Inl TooManyHoles)" "offset \<noteq> 0"
      "asm_add cs offset n = Some (Inl TooManyHoles)"
  | (ok) m cs' where "asm_add_then_remove_front cs offset n = Some (Inr (m, cs'))"
      and "asm_inv cs'" and "length cs' = length cs"
      and "front_split (asm_cover 0 cs \<union> {offset ..< offset + n}) m (asm_cover 0 cs')"
      and "m + asm_extent cs' = (if n = 0 then asm_extent cs else max (asm_extent cs) (offset + n))"
proof (cases "offset = 0 \<and> n < hole_size (cs ! 0)")
  case True
  have "hole_size (cs ! 0) \<le> asm_extent cs"
    using inv by (cases cs) (auto simp: asm_inv_def total_size_def)
  with True asm_fast_path [OF inv, of n] show thesis
    by (intro ok) (auto simp: asm_add_then_remove_front_def)
next
  case False
  obtain r where r: "asm_add cs offset n = Some r" using asm_add_no_panic [OF inv] by blast
  show thesis
  proof (cases r)
    case (Inl e)
    then have "offset \<noteq> 0" using False r asm_add_front_fits [OF inv, of n e] by (cases "offset = 0") auto
    moreover have "e = TooManyHoles" by (cases e)
    ultimately show thesis using r Inl by (intro full) (auto simp: asm_add_then_remove_front_def)
  next
    case (Inr cs1)
    note add = asm_add_ok [OF inv r [unfolded Inr]]
    obtain m cs' where "asm_remove_front cs1 = Some (m, cs')" "asm_inv cs'"
      "length cs' = length cs1" "front_split (asm_cover 0 cs1) m (asm_cover 0 cs')"
      "m + asm_extent cs' = asm_extent cs1"
      using asm_remove_front_ok [OF add(1)] .
    with add r Inr False show thesis
      by (intro ok [of m cs']) (auto simp: asm_add_then_remove_front_def)
  qed
qed

section \<open>Properties\<close>

text \<open>The first offsets of the maximal runs of a set of offsets.\<close>

definition run_starts :: "nat set \<Rightarrow> nat set" where
  "run_starts S = {x \<in> S. x = 0 \<or> x - 1 \<notin> S}"

lemma finite_asm_cover [simp]: "finite (asm_cover b cs)"
  by (rule finite_subset [of _ "{..< b + asm_extent cs}"]) (auto dest: asm_cover_bounds)

lemma run_starts_Cons:
  assumes "has_data c" and "contigs_tight ds" and "has_hole c \<or> b = 0"
  shows "run_starts (asm_cover b (c # ds))
    = insert (b + hole_size c) (run_starts (asm_cover (b + total_size c) ds))"
proof -
  let ?T = "asm_cover (b + total_size c) ds"
  have T: "b + total_size c < x" if "x \<in> ?T" for x using tight_cover_gt [OF assms(2) that] .
  have h: "hole_size c < total_size c" "b + hole_size c < b + total_size c"
    using assms(1) by (simp_all add: contig_simps)
  have "x \<in> run_starts ({b + hole_size c ..< b + total_size c} \<union> ?T)
      \<longleftrightarrow> x = b + hole_size c \<or> x \<in> run_starts ?T" for x
    using h T [of x] T [of "x - 1"] assms(3) by (auto simp: run_starts_def has_hole_def)
  then show ?thesis by auto
qed

lemma card_run_starts_tight:
  "contigs_tight ds \<Longrightarrow> card (run_starts (asm_cover b ds)) = length ds"
proof (induction ds arbitrary: b)
  case (Cons c ds)
  have "b + hole_size c \<notin> run_starts (asm_cover (b + total_size c) ds)"
    using Cons.prems by (auto simp: run_starts_def total_size_def has_data_def dest: asm_cover_bounds)
  moreover have "finite (run_starts (asm_cover (b + total_size c) ds))"
    by (simp add: run_starts_def)
  ultimately show ?case
    using Cons run_starts_Cons [of c ds b] by (simp del: asm_cover.simps)
qed (simp add: run_starts_def)

lemma card_run_starts: "contigs_wf ds \<Longrightarrow> card (run_starts (asm_cover 0 ds)) = length ds"
proof (cases ds)
  case (Cons c es)
  assume "contigs_wf ds"
  then have c: "has_data c" "contigs_tight es" using Cons by auto
  have "hole_size c \<notin> run_starts (asm_cover (total_size c) es)"
    using c by (auto simp: run_starts_def total_size_def has_data_def dest: asm_cover_bounds)
  moreover have "finite (run_starts (asm_cover (total_size c) es))" by (simp add: run_starts_def)
  ultimately show ?thesis
    using Cons run_starts_Cons [OF c, of 0] card_run_starts_tight [OF c(2), of "total_size c"]
    by (simp del: asm_cover.simps)
qed (simp add: run_starts_def)

lemma asm_add_spec:
  assumes "asm_inv cs"
  shows "case asm_add cs offset n of
      None \<Rightarrow> False
    | Some (Inl _) \<Rightarrow> length cs < card (run_starts (asm_cover 0 cs \<union> {offset ..< offset + n}))
    | Some (Inr cs') \<Rightarrow>
        card (run_starts (asm_cover 0 cs \<union> {offset ..< offset + n})) \<le> length cs \<and>
        asm_inv cs' \<and> length cs' = length cs \<and>
        asm_cover 0 cs' = asm_cover 0 cs \<union> {offset ..< offset + n}"
proof (cases "asm_add cs offset n")
  case None
  with asm_add_no_panic [OF assms] show ?thesis by blast
next
  case (Some r)
  obtain ds k where ds: "cs = ds @ replicate k contig_empty" "contigs_wf ds"
    using asm_invE [OF assms] by metis
  then have cover: "asm_cover 0 cs = asm_cover 0 ds" by (simp add: asm_cover_append)
  show ?thesis
  proof (cases r)
    case (Inl e)
    then have n: "0 < n" using Some by (cases "n = 0") (simp_all add: asm_add_def)
    then have "length ds + k < length (insert_range ds offset n)"
      using Some Inl ds asm_add_list [of ds n k offset] by (auto split: if_splits)
    also have "\<dots> = card (run_starts (asm_cover 0 cs \<union> {offset ..< offset + n}))"
      using card_run_starts [OF insert_range_wf [OF ds(2) n, of offset]]
        insert_range_cover [OF ds(2), of 0 offset n] cover by simp
    finally show ?thesis using Some Inl ds by simp
  next
    case (Inr cs')
    note ok = asm_add_ok [OF assms Some [unfolded Inr]]
    obtain es j where es: "cs' = es @ replicate j contig_empty" "contigs_wf es"
      using asm_invE [OF ok(1)] by metis
    have "card (run_starts (asm_cover 0 cs')) \<le> length cs'"
      using es card_run_starts [OF es(2)] by (simp add: asm_cover_append)
    with ok Some Inr show ?thesis by simp
  qed
qed

text \<open>
  C12: \<open>add\<close> never panics and keeps the invariant. It succeeds exactly when the maximal runs of
  the received offsets with the new range fit into the contigs, and then the received offsets are
  the old ones and the range.
\<close>

theorem asm_add_correct:
  assumes "asm_inv cs"
  shows "case asm_add cs offset n of
      None \<Rightarrow> False
    | Some (Inl _) \<Rightarrow> length cs < card (run_starts (asm_cover 0 cs \<union> {offset ..< offset + n}))
    | Some (Inr cs') \<Rightarrow>
        card (run_starts (asm_cover 0 cs \<union> {offset ..< offset + n})) \<le> length cs \<and>
        asm_inv cs' \<and> length cs' = length cs \<and>
        asm_cover 0 cs' = asm_cover 0 cs \<union> {offset ..< offset + n}"
  using asm_add_spec [OF assms] .

theorem asm_add_correct_witness:
  "asm_inv [hole_and_data 3 2, contig_empty] \<and>
   asm_add [hole_and_data 3 2, contig_empty] 0 1
     = Some (Inr [hole_and_data 0 1, hole_and_data 2 2]) \<and>
   asm_cover 0 [hole_and_data 0 1, hole_and_data 2 2] = {0, 3, 4}"
proof -
  have inv: "asm_inv [hole_and_data 3 2, contig_empty]"
    by (simp add: asm_inv_def asm_used_def contig_simps)
  have add: "asm_add [hole_and_data 3 2, contig_empty] 0 1
     = Some (Inr [hole_and_data 0 1, hole_and_data 2 2])"
    by code_simp
  have "asm_cover 0 [hole_and_data 3 2, contig_empty] \<union> {0 ..< 0 + 1} = {0, 3, 4}"
    by (auto simp: contig_simps)
  with asm_add_correct [OF inv, of 0 1] show ?thesis
    unfolding add by (simp add: inv del: asm_cover.simps)
qed

text \<open>
  \<open>add_then_remove_front\<close> never panics, and never fails for the next expected octet
  (\<open>offset = 0\<close>). When it succeeds it returns the length of the longest received prefix with the
  new range, and the assembler is left with the offsets behind it, relative to its end.
\<close>

lemma asm_add_then_remove_front_correct:
  assumes "asm_inv cs"
  shows "case asm_add_then_remove_front cs offset n of
      None \<Rightarrow> False
    | Some (Inl _) \<Rightarrow> offset \<noteq> 0 \<and> asm_add cs offset n = Some (Inl TooManyHoles)
    | Some (Inr (m, cs')) \<Rightarrow>
        asm_inv cs' \<and> length cs' = length cs \<and>
        {0..<m} \<subseteq> asm_cover 0 cs \<union> {offset ..< offset + n} \<and>
        m \<notin> asm_cover 0 cs \<union> {offset ..< offset + n} \<and>
        asm_cover 0 cs' = {x. m + x \<in> asm_cover 0 cs \<union> {offset ..< offset + n}}"
  using asm_atrf_ok [OF assms, of offset n]
  by (cases rule: asm_atrf_ok [OF assms, of offset n]) (auto simp: front_split_def)

lemma asm_add_then_remove_front_correct_witness:
  "asm_inv [hole_and_data 3 2, hole_and_data 1 4] \<and>
   asm_add_then_remove_front [hole_and_data 3 2, hole_and_data 1 4] 0 4
     = Some (Inr (5, [hole_and_data 1 4, contig_empty])) \<and>
   5 \<notin> asm_cover 0 [hole_and_data 3 2, hole_and_data 1 4]"
proof -
  have inv: "asm_inv [hole_and_data 3 2, hole_and_data 1 4]"
    by (simp add: asm_inv_def asm_used_def contig_simps contigs_wf_def)
  have run: "asm_add_then_remove_front [hole_and_data 3 2, hole_and_data 1 4] 0 4
     = Some (Inr (5, [hole_and_data 1 4, contig_empty]))"
    by code_simp
  from asm_add_then_remove_front_correct [OF inv, of 0 4] inv show ?thesis
    unfolding run by (simp del: asm_cover.simps)
qed

lemma iter_from_cover:
  "(\<Union>(l, r) \<in> set (iter_from cs f b). {l..<r}) = (+) f ` asm_cover b cs"
proof (induction cs arbitrary: b)
  case (Cons c cs)
  let ?L = "b + hole_size c" and ?R = "b + total_size c"
  have "(+) f ` {?L ..< ?R} = {?L + f ..< ?R + f}"
    by (simp add: image_add_atLeastLessThan add.commute)
  moreover have "iter_from (c # cs) f b
      = (if ?L < ?R then (?L + f, ?R + f) # iter_from cs f ?R else iter_from cs f ?R)"
    by (auto simp: Let_def total_size_def add.assoc)
  ultimately show ?case using Cons [of ?R] by (simp add: image_Un del: iter_from.simps)
qed simp

lemma iter_from_sorted:
  "contigs_tight cs \<Longrightarrow> sorted_wrt (\<lambda>p q. snd p < fst q) (iter_from (cs @ replicate k contig_empty) f b)
    \<and> (\<forall>p \<in> set (iter_from (cs @ replicate k contig_empty) f b). f + b < fst p \<and> fst p < snd p)"
proof (induction cs arbitrary: b)
  case Nil
  have "iter_from (replicate k contig_empty) f b = []" by (induction k) (auto simp: Let_def)
  then show ?case by simp
next
  case (Cons c cs)
  let ?b = "b + hole_size c + data_size c"
  from Cons have *: "sorted_wrt (\<lambda>p q. snd p < fst q) (iter_from (cs @ replicate k contig_empty) f ?b)
    \<and> (\<forall>p \<in> set (iter_from (cs @ replicate k contig_empty) f ?b). f + ?b < fst p \<and> fst p < snd p)"
    by simp
  with Cons.prems show ?case by (fastforce simp: Let_def has_data_def has_hole_def)
qed

text \<open>
  \<open>iter_data\<close> yields the received runs: the ranges cover exactly the received offsets,
  none is empty, and they come in order with a gap between any two.
\<close>

lemma asm_iter_data_correct:
  assumes "asm_inv cs"
  shows "(\<Union>(l, r) \<in> set (asm_iter_data cs first_offset). {l..<r}) = (+) first_offset ` asm_cover 0 cs
    \<and> sorted_wrt (\<lambda>p q. snd p < fst q) (asm_iter_data cs first_offset)
    \<and> (\<forall>p \<in> set (asm_iter_data cs first_offset). first_offset \<le> fst p \<and> fst p < snd p)"
proof -
  obtain ds k where ds: "cs = ds @ replicate k contig_empty" "contigs_wf ds"
    using asm_invE [OF assms] by metis
  have "sorted_wrt (\<lambda>p q. snd p < fst q) (asm_iter_data cs first_offset)
    \<and> (\<forall>p \<in> set (asm_iter_data cs first_offset). first_offset \<le> fst p \<and> fst p < snd p)"
  proof (cases ds)
    case Nil
    with ds show ?thesis
      using iter_from_sorted [of "[]" k first_offset 0] by (auto simp: asm_iter_data_def)
  next
    case (Cons c es)
    with ds show ?thesis
      using iter_from_sorted [of es k first_offset "hole_size c + data_size c"]
      by (fastforce simp: asm_iter_data_def Let_def has_data_def)
  qed
  with iter_from_cover [of cs first_offset 0] show ?thesis by (simp add: asm_iter_data_def)
qed

lemma asm_iter_data_correct_witness:
  "asm_inv [hole_and_data 3 2, hole_and_data 1 4] \<and>
   asm_iter_data [hole_and_data 3 2, hole_and_data 1 4] 100 = [(103, 105), (106, 110)] \<and>
   (\<Union>(l, r) \<in> set (asm_iter_data [hole_and_data 3 2, hole_and_data 1 4] 100). {l..<r})
     = (+) 100 ` asm_cover 0 [hole_and_data 3 2, hole_and_data 1 4]"
proof -
  have inv: "asm_inv [hole_and_data 3 2, hole_and_data 1 4]"
    by (simp add: asm_inv_def asm_used_def contig_simps contigs_wf_def)
  from asm_iter_data_correct [OF inv, of 100] inv show ?thesis
    by (simp add: asm_iter_data_def Let_def hole_and_data_def del: asm_cover.simps)
qed

end
