(* ===== verification/Bytes.thy ===== *)
theory Bytes
  imports Prelude
begin

text \<open>
  Octets in network order. The sources read and write the fields of a packet through
  \<open>NetworkEndian\<close> on a sub-slice of the buffer (\<open>&data[field::SRC_PORT]\<close>); a buffer that is too
  short for the field is a panic. The buffer is the list of its octets.
\<close>

unbundle bit_operations_syntax

definition be_bytes :: "nat \<Rightarrow> 'a::len word \<Rightarrow> u8 list" where
  "be_bytes n w = map (\<lambda>i. ucast (drop_bit (8 * (n - 1 - i)) w)) [0..<n]"

definition of_be :: "u8 list \<Rightarrow> 'a::len word" where
  "of_be bs = foldl (\<lambda>acc b. push_bit 8 acc OR ucast b) 0 bs"

definition get_u8 :: "u8 list \<Rightarrow> nat \<Rightarrow> u8 option" where
  "get_u8 data a = (if a < length data then Some (data ! a) else None)"

definition get_u16 :: "u8 list \<Rightarrow> nat \<Rightarrow> u16 option" where
  "get_u16 data a = map_option of_be (slice data a (a + 2))"

definition get_u32 :: "u8 list \<Rightarrow> nat \<Rightarrow> u32 option" where
  "get_u32 data a = map_option of_be (slice data a (a + 4))"

definition put_bytes :: "u8 list \<Rightarrow> nat \<Rightarrow> u8 list \<Rightarrow> u8 list option" where
  "put_bytes data a bs = (if a + length bs \<le> length data then Some (overwrite data a bs) else None)"

definition put_u8 :: "u8 list \<Rightarrow> nat \<Rightarrow> u8 \<Rightarrow> u8 list option" where
  "put_u8 data a v = put_bytes data a [v]"

definition put_u16 :: "u8 list \<Rightarrow> nat \<Rightarrow> u16 \<Rightarrow> u8 list option" where
  "put_u16 data a v = put_bytes data a (be_bytes 2 v)"

definition put_u32 :: "u8 list \<Rightarrow> nat \<Rightarrow> u32 \<Rightarrow> u8 list option" where
  "put_u32 data a v = put_bytes data a (be_bytes 4 v)"

lemma length_be_bytes [simp]: "length (be_bytes n w) = n"
  by (simp add: be_bytes_def)

lemma be_bytes_2: "be_bytes 2 w = [ucast (drop_bit 8 w), ucast w]"
  by (simp add: be_bytes_def numeral_2_eq_2)

lemma be_bytes_4:
  "be_bytes 4 w = [ucast (drop_bit 24 w), ucast (drop_bit 16 w), ucast (drop_bit 8 w), ucast w]"
  by (simp add: be_bytes_def upt_rec eval_nat_numeral)

lemma of_be_2: "of_be [a, b] = (push_bit 8 (ucast a) OR ucast b :: u16)"
  by (simp add: of_be_def)

lemma of_be_4:
  "of_be [a, b, c, d] =
     (push_bit 24 (ucast a) OR push_bit 16 (ucast b) OR push_bit 8 (ucast c) OR ucast d :: u32)"
  by (simp add: of_be_def push_bit_or or.assoc)

lemma be_round_trip_16 [simp]: "of_be (be_bytes 2 w) = (w :: u16)"
  unfolding be_bytes_2 of_be_2
  by (rule bit_word_eqI) (auto simp: bit_simps)

lemma be_round_trip_32 [simp]: "of_be (be_bytes 4 w) = (w :: u32)"
proof (rule bit_word_eqI)
  fix n
  assume "n < LENGTH(32)"
  then show "bit (of_be (be_bytes 4 w) :: u32) n \<longleftrightarrow> bit w n"
    unfolding be_bytes_4 of_be_4
    by (cases "n < 8"; cases "n < 16"; cases "n < 24") (auto simp: bit_simps)
qed

lemma unat_byte: "unat (a :: u8) < 256"
  using unsigned_less [where ?'a = nat, of a] by simp

lemma unat_of_be_2: "unat (of_be [a, b] :: u16) = 256 * unat a + unat b"
proof -
  have "push_bit 8 (ucast a :: u16) AND ucast b = 0"
    by (rule bit_word_eqI) (auto simp: bit_simps dest: bit_imp_le_length)
  then have "(of_be [a, b] :: u16) = push_bit 8 (ucast a) + ucast b"
    by (simp add: of_be_2 disjunctive_add_eq_or)
  moreover have "unat (ucast a :: u16) = unat a" "unat (ucast b :: u16) = unat b"
    using unat_byte [of a] unat_byte [of b]
    by (simp_all add: unsigned_ucast_eq take_bit_nat_eq_self)
  moreover have "unat (push_bit 8 (ucast a :: u16)) = 256 * unat a"
    using unat_byte [of a]
    by (simp add: unsigned_push_bit_eq unsigned_ucast_eq take_bit_nat_eq_self push_bit_nat_def)
  ultimately show ?thesis
    using unat_byte [of a] unat_byte [of b] by (simp add: unat_word_ariths)
qed

lemma put_bytes_Some [simp]:
  "a + length bs \<le> length data \<Longrightarrow> put_bytes data a bs = Some (overwrite data a bs)"
  by (simp add: put_bytes_def)

lemma drop_overwrite_before:
  "a + length ys \<le> b \<Longrightarrow> a + length ys \<le> length xs \<Longrightarrow> drop b (overwrite xs a ys) = drop b xs"
  by (simp add: overwrite_def drop_append add.commute)

lemma take_drop_overwrite_self:
  "a + length ys \<le> length xs \<Longrightarrow> take (length ys) (drop a (overwrite xs a ys)) = ys"
  by (simp add: overwrite_def)

lemma take_overwrite_after:
  "b \<le> a \<Longrightarrow> a \<le> length xs \<Longrightarrow> take b (overwrite xs a ys) = take b xs"
  by (simp add: overwrite_def min_def)

lemma get_put_u16 [simp]:
  "put_u16 data a v = Some data' \<Longrightarrow> get_u16 data' a = Some v"
  using take_drop_overwrite_self [of a "be_bytes 2 v" data]
  by (auto simp: put_u16_def put_bytes_def get_u16_def split: if_splits)

end
