(* ===== verification/Ip.thy ===== *)
theory Ip
  imports Bytes
begin

text \<open>
  \<open>src/smoltcp/src/wire/ip.rs\<close>: versions, protocols, addresses, CIDR blocks, endpoints, the
  version-independent IP representation and the Internet checksum. An IPv4 address is its
  32 bits, an IPv6 address its 128 bits; the octets are those of the network order. The CIDR
  blocks of the two versions are those of \<open>wire/ipv4.rs\<close> and \<open>wire/ipv6.rs\<close>.
\<close>

section \<open>Versions, protocols and addresses\<close>

datatype ip_version = VIpv4 | VIpv6

datatype wire_error = WireError

definition of_packet :: "u8 list \<Rightarrow> (wire_error + ip_version) option" where
  "of_packet data = do {
     b \<leftarrow> get_u8 data 0;
     Some (if drop_bit 4 b = 4 then Inr VIpv4
           else if drop_bit 4 b = 6 then Inr VIpv6
           else Inl WireError) }"

datatype ip_protocol =
    HopByHop | ProtoIcmp | ProtoIgmp | ProtoTcp | ProtoUdp | Ipv6Route | Ipv6Frag
  | IpSecEsp | IpSecAh | ProtoIcmpv6 | Ipv6NoNxt | Ipv6Opts | UnknownProto u8

fun protocol_to_u8 :: "ip_protocol \<Rightarrow> u8" where
  "protocol_to_u8 HopByHop = 0x00"
| "protocol_to_u8 ProtoIcmp = 0x01"
| "protocol_to_u8 ProtoIgmp = 0x02"
| "protocol_to_u8 ProtoTcp = 0x06"
| "protocol_to_u8 ProtoUdp = 0x11"
| "protocol_to_u8 Ipv6Route = 0x2b"
| "protocol_to_u8 Ipv6Frag = 0x2c"
| "protocol_to_u8 IpSecEsp = 0x32"
| "protocol_to_u8 IpSecAh = 0x33"
| "protocol_to_u8 ProtoIcmpv6 = 0x3a"
| "protocol_to_u8 Ipv6NoNxt = 0x3b"
| "protocol_to_u8 Ipv6Opts = 0x3c"
| "protocol_to_u8 (UnknownProto other) = other"

definition protocol_from_u8 :: "u8 \<Rightarrow> ip_protocol" where
  "protocol_from_u8 v =
     (if v = 0x00 then HopByHop else if v = 0x01 then ProtoIcmp else if v = 0x02 then ProtoIgmp
      else if v = 0x06 then ProtoTcp else if v = 0x11 then ProtoUdp else if v = 0x2b then Ipv6Route
      else if v = 0x2c then Ipv6Frag else if v = 0x32 then IpSecEsp else if v = 0x33 then IpSecAh
      else if v = 0x3a then ProtoIcmpv6 else if v = 0x3b then Ipv6NoNxt
      else if v = 0x3c then Ipv6Opts else UnknownProto v)"

type_synonym ipv4_address = "32 word"
type_synonym ipv6_address = "128 word"

datatype ip_address = Ipv4 ipv4_address | Ipv6 ipv6_address

fun addr_version :: "ip_address \<Rightarrow> ip_version" where
  "addr_version (Ipv4 _) = VIpv4"
| "addr_version (Ipv6 _) = VIpv6"

text \<open>Classification of addresses (\<open>core::net\<close> and the extension traits of the two versions).\<close>

fun addr_is_unspecified :: "ip_address \<Rightarrow> bool" where
  "addr_is_unspecified (Ipv4 a) \<longleftrightarrow> a = 0"
| "addr_is_unspecified (Ipv6 a) \<longleftrightarrow> a = 0"

fun addr_is_broadcast :: "ip_address \<Rightarrow> bool" where
  "addr_is_broadcast (Ipv4 a) \<longleftrightarrow> a = 0xffffffff"
| "addr_is_broadcast (Ipv6 a) \<longleftrightarrow> False"

fun addr_is_multicast :: "ip_address \<Rightarrow> bool" where
  "addr_is_multicast (Ipv4 a) \<longleftrightarrow> drop_bit 28 a = 0xe"
| "addr_is_multicast (Ipv6 a) \<longleftrightarrow> drop_bit 120 a = 0xff"

fun addr_is_unicast :: "ip_address \<Rightarrow> bool" where
  "addr_is_unicast (Ipv4 a) \<longleftrightarrow>
     \<not> (addr_is_broadcast (Ipv4 a) \<or> addr_is_multicast (Ipv4 a) \<or> addr_is_unspecified (Ipv4 a))"
| "addr_is_unicast (Ipv6 a) \<longleftrightarrow> \<not> (addr_is_multicast (Ipv6 a) \<or> addr_is_unspecified (Ipv6 a))"

section \<open>CIDR blocks\<close>

record ipv4_cidr =
  v4_address :: ipv4_address
  v4_prefix_len :: nat

record ipv6_cidr =
  v6_address :: ipv6_address
  v6_prefix_len :: nat

datatype ip_cidr = Cidr4 ipv4_cidr | Cidr6 ipv6_cidr

definition netmask4 :: "ipv4_cidr \<Rightarrow> ipv4_address" where
  "netmask4 c = (if v4_prefix_len c = 0 then 0 else push_bit (32 - v4_prefix_len c) 0xffffffff)"

definition network4 :: "ipv4_cidr \<Rightarrow> ipv4_cidr" where
  "network4 c = \<lparr>v4_address = v4_address c AND netmask4 c, v4_prefix_len = v4_prefix_len c\<rparr>"

definition broadcast4 :: "ipv4_cidr \<Rightarrow> ipv4_address option" where
  "broadcast4 c =
     (let network = network4 c
      in if v4_prefix_len network = 31 \<or> v4_prefix_len network = 32 then None
         else Some (v4_address network OR drop_bit (v4_prefix_len network) 0xffffffff))"

definition contains_addr4 :: "ipv4_cidr \<Rightarrow> ipv4_address \<Rightarrow> bool" where
  "contains_addr4 c a \<longleftrightarrow> v4_address c AND netmask4 c = a AND netmask4 c"

definition contains_subnet4 :: "ipv4_cidr \<Rightarrow> ipv4_cidr \<Rightarrow> bool" where
  "contains_subnet4 c subnet \<longleftrightarrow>
     v4_prefix_len c \<le> v4_prefix_len subnet \<and> contains_addr4 c (v4_address subnet)"

text \<open>The octets of the address, all but the first \<open>n\<close> bits cleared; panics for \<open>n > 128\<close>.\<close>

definition mask6 :: "ipv6_address \<Rightarrow> nat \<Rightarrow> u8 list option" where
  "mask6 a n = do {
     panic_unless (n \<le> 128);
     let idx = n div 8;
     let modulus = n mod 8;
     let octets = be_bytes 16 a;
     let bytes = take idx octets @ replicate (16 - idx) 0;
     Some (if idx < 16
           then bytes[idx := (octets ! idx) AND NOT (drop_bit modulus 0xff)]
           else bytes) }"

definition contains_addr6 :: "ipv6_cidr \<Rightarrow> ipv6_address \<Rightarrow> bool option" where
  "contains_addr6 c a =
     (if v6_prefix_len c = 0 then Some True
      else do { x \<leftarrow> mask6 (v6_address c) (v6_prefix_len c);
                y \<leftarrow> mask6 a (v6_prefix_len c);
                Some (x = y) })"

definition cidr_new :: "ip_address \<Rightarrow> nat \<Rightarrow> ip_cidr option" where
  "cidr_new addr n = (case addr of
       Ipv4 a \<Rightarrow> do { panic_unless (n \<le> 32); Some (Cidr4 \<lparr>v4_address = a, v4_prefix_len = n\<rparr>) }
     | Ipv6 a \<Rightarrow> do { panic_unless (n \<le> 128); Some (Cidr6 \<lparr>v6_address = a, v6_prefix_len = n\<rparr>) })"

fun cidr_address :: "ip_cidr \<Rightarrow> ip_address" where
  "cidr_address (Cidr4 c) = Ipv4 (v4_address c)"
| "cidr_address (Cidr6 c) = Ipv6 (v6_address c)"

fun cidr_prefix_len :: "ip_cidr \<Rightarrow> nat" where
  "cidr_prefix_len (Cidr4 c) = v4_prefix_len c"
| "cidr_prefix_len (Cidr6 c) = v6_prefix_len c"

fun contains_addr :: "ip_cidr \<Rightarrow> ip_address \<Rightarrow> bool option" where
  "contains_addr (Cidr4 c) (Ipv4 a) = Some (contains_addr4 c a)"
| "contains_addr (Cidr6 c) (Ipv6 a) = contains_addr6 c a"
| "contains_addr _ _ = Some False"

section \<open>Endpoints\<close>

record ip_endpoint =
  ep_addr :: ip_address
  ep_port :: u16

record ip_listen_endpoint =
  le_addr :: "ip_address option"
  le_port :: u16

definition listen_endpoint_default :: ip_listen_endpoint where
  "listen_endpoint_default = \<lparr>le_addr = None, le_port = 0\<rparr>"

definition le_is_specified :: "ip_listen_endpoint \<Rightarrow> bool" where
  "le_is_specified e \<longleftrightarrow> le_addr e \<noteq> None \<and> le_port e \<noteq> 0"

section \<open>The IP representation\<close>

record 'a ip_header =
  ih_src_addr :: 'a
  ih_dst_addr :: 'a
  ih_next_header :: ip_protocol
  ih_payload_len :: nat
  ih_hop_limit :: u8

datatype ip_repr = Ipv4Repr "ipv4_address ip_header" | Ipv6Repr "ipv6_address ip_header"

definition IPV4_HEADER_LEN :: nat where "IPV4_HEADER_LEN = 20"
definition IPV6_HEADER_LEN :: nat where "IPV6_HEADER_LEN = 40"

text \<open>\<open>Repr::new\<close> panics when the versions of the addresses differ.\<close>

fun ip_repr_new :: "ip_address \<Rightarrow> ip_address \<Rightarrow> ip_protocol \<Rightarrow> nat \<Rightarrow> u8 \<Rightarrow> ip_repr option" where
  "ip_repr_new (Ipv4 src) (Ipv4 dst) next_header payload_len hop_limit =
     Some (Ipv4Repr \<lparr>ih_src_addr = src, ih_dst_addr = dst, ih_next_header = next_header,
                     ih_payload_len = payload_len, ih_hop_limit = hop_limit\<rparr>)"
| "ip_repr_new (Ipv6 src) (Ipv6 dst) next_header payload_len hop_limit =
     Some (Ipv6Repr \<lparr>ih_src_addr = src, ih_dst_addr = dst, ih_next_header = next_header,
                     ih_payload_len = payload_len, ih_hop_limit = hop_limit\<rparr>)"
| "ip_repr_new _ _ _ _ _ = None"

fun ip_version_of :: "ip_repr \<Rightarrow> ip_version" where
  "ip_version_of (Ipv4Repr _) = VIpv4"
| "ip_version_of (Ipv6Repr _) = VIpv6"

fun ip_src_addr :: "ip_repr \<Rightarrow> ip_address" where
  "ip_src_addr (Ipv4Repr h) = Ipv4 (ih_src_addr h)"
| "ip_src_addr (Ipv6Repr h) = Ipv6 (ih_src_addr h)"

fun ip_dst_addr :: "ip_repr \<Rightarrow> ip_address" where
  "ip_dst_addr (Ipv4Repr h) = Ipv4 (ih_dst_addr h)"
| "ip_dst_addr (Ipv6Repr h) = Ipv6 (ih_dst_addr h)"

fun ip_next_header :: "ip_repr \<Rightarrow> ip_protocol" where
  "ip_next_header (Ipv4Repr h) = ih_next_header h"
| "ip_next_header (Ipv6Repr h) = ih_next_header h"

fun ip_payload_len :: "ip_repr \<Rightarrow> nat" where
  "ip_payload_len (Ipv4Repr h) = ih_payload_len h"
| "ip_payload_len (Ipv6Repr h) = ih_payload_len h"

fun ip_set_payload_len :: "ip_repr \<Rightarrow> nat \<Rightarrow> ip_repr" where
  "ip_set_payload_len (Ipv4Repr h) n = Ipv4Repr (h\<lparr>ih_payload_len := n\<rparr>)"
| "ip_set_payload_len (Ipv6Repr h) n = Ipv6Repr (h\<lparr>ih_payload_len := n\<rparr>)"

fun ip_hop_limit :: "ip_repr \<Rightarrow> u8" where
  "ip_hop_limit (Ipv4Repr h) = ih_hop_limit h"
| "ip_hop_limit (Ipv6Repr h) = ih_hop_limit h"

fun ip_header_len :: "ip_repr \<Rightarrow> nat" where
  "ip_header_len (Ipv4Repr _) = IPV4_HEADER_LEN"
| "ip_header_len (Ipv6Repr _) = IPV6_HEADER_LEN"

definition ip_buffer_len :: "ip_repr \<Rightarrow> nat" where
  "ip_buffer_len r = ip_header_len r + ip_payload_len r"

lemma ip_repr_new_Some:
  "addr_version src = addr_version dst \<Longrightarrow> \<exists>r. ip_repr_new src dst p n h = Some r"
  by (cases src; cases dst) simp_all

lemma ip_addrs_version [simp]: "addr_version (ip_src_addr r) = addr_version (ip_dst_addr r)"
  by (cases r) simp_all

lemma ip_repr_newD:
  "ip_repr_new src dst p n h = Some r \<Longrightarrow>
   ip_src_addr r = src \<and> ip_dst_addr r = dst \<and> ip_next_header r = p \<and> ip_payload_len r = n \<and>
   ip_hop_limit r = h"
  by (cases src; cases dst) auto

lemma ip_set_payload_len_simps [simp]:
  "ip_src_addr (ip_set_payload_len r n) = ip_src_addr r"
  "ip_dst_addr (ip_set_payload_len r n) = ip_dst_addr r"
  "ip_next_header (ip_set_payload_len r n) = ip_next_header r"
  "ip_payload_len (ip_set_payload_len r n) = n"
  "ip_header_len (ip_set_payload_len r n) = ip_header_len r"
  by (cases r; simp)+

end
