(* ===== verification/Tcp_Repr.thy ===== *)
theory Tcp_Repr
  imports Bytes
begin

text \<open>
  \<open>src/smoltcp/src/wire/tcp.rs\<close>: sequence numbers, control flags and the high-level
  representation of a segment. A sequence number (an \<open>i32\<close> in the source) is a 32-bit word;
  the comparisons read the sign of the wrapped difference.
\<close>

section \<open>Sequence numbers\<close>

type_synonym seq = "32 word"

definition seq_lt :: "seq \<Rightarrow> seq \<Rightarrow> bool" where
  "seq_lt a b \<longleftrightarrow> sint (a - b) < 0"

definition seq_le :: "seq \<Rightarrow> seq \<Rightarrow> bool" where
  "seq_le a b \<longleftrightarrow> sint (a - b) \<le> 0"

definition seq_ge :: "seq \<Rightarrow> seq \<Rightarrow> bool" where
  "seq_ge a b \<longleftrightarrow> sint (a - b) \<ge> 0"

definition seq_gt :: "seq \<Rightarrow> seq \<Rightarrow> bool" where
  "seq_gt a b \<longleftrightarrow> sint (a - b) > 0"

definition seq_max :: "seq \<Rightarrow> seq \<Rightarrow> seq" where
  "seq_max a b = (if seq_gt a b then a else b)"

definition seq_min :: "seq \<Rightarrow> seq \<Rightarrow> seq" where
  "seq_min a b = (if seq_lt a b then a else b)"

text \<open>Adding and subtracting a \<open>usize\<close> panics above \<open>i32::MAX\<close>.\<close>

definition seq_add :: "seq \<Rightarrow> nat \<Rightarrow> seq option" where
  "seq_add a n = (if n > 2 ^ 31 - 1 then None else Some (a + of_nat n))"

definition seq_sub :: "seq \<Rightarrow> nat \<Rightarrow> seq option" where
  "seq_sub a n = (if n > 2 ^ 31 - 1 then None else Some (a - of_nat n))"

text \<open>The difference of two sequence numbers panics when it is negative.\<close>

definition seq_diff :: "seq \<Rightarrow> seq \<Rightarrow> nat option" where
  "seq_diff a b = (let result = sint (a - b) in if result < 0 then None else Some (nat result))"

text \<open>
  The comparisons use the signed distance from one number to the other. The lemmas below move
  all numbers of a computation to distances from one of them.
\<close>

lemma sint_seq_bounds: "- (2 ^ 31) \<le> sint (a :: seq)" "sint (a :: seq) < 2 ^ 31"
  using sint_greater_eq [of a] sint_less [of a] by simp_all

lemma sint_of_int_small: "- (2 ^ 31) \<le> k \<Longrightarrow> k < 2 ^ 31 \<Longrightarrow> sint (of_int k :: seq) = k"
  by (simp add: signed_of_int signed_take_bit_int_eq_self)

lemma seq_dist_unique: "- (2 ^ 31) \<le> k \<Longrightarrow> k < 2 ^ 31 \<Longrightarrow> a - b = of_int k \<Longrightarrow> sint (a - b :: seq) = k"
  by (simp add: sint_of_int_small)

lemma of_nat_dist: "of_nat n = (of_int (int n) :: seq)"
  by simp

lemma sint_of_nat_small [simp]: "n < 2 ^ 31 \<Longrightarrow> sint (of_nat n :: seq) = int n"
  using sint_of_int_small [of "int n"] by simp

lemma seq_dist_exists: "\<exists>k. a = b + of_int k \<and> - (2 ^ 31) \<le> k \<and> k < 2 ^ 31" for a b :: seq
  using sint_seq_bounds [of "a - b"] by (intro exI [of _ "sint (a - b)"]) simp

lemma seq_lt_dist:
  "- (2 ^ 31) \<le> j - k \<Longrightarrow> j - k < 2 ^ 31 \<Longrightarrow> seq_lt (b + of_int j) (b + of_int k) \<longleftrightarrow> j < k"
  using sint_of_int_small [of "j - k"] by (simp add: seq_lt_def)

lemma seq_le_dist:
  "- (2 ^ 31) \<le> j - k \<Longrightarrow> j - k < 2 ^ 31 \<Longrightarrow> seq_le (b + of_int j) (b + of_int k) \<longleftrightarrow> j \<le> k"
  using sint_of_int_small [of "j - k"] by (simp add: seq_le_def)

lemma seq_ge_dist:
  "- (2 ^ 31) \<le> j - k \<Longrightarrow> j - k < 2 ^ 31 \<Longrightarrow> seq_ge (b + of_int j) (b + of_int k) \<longleftrightarrow> j \<ge> k"
  using sint_of_int_small [of "j - k"] by (simp add: seq_ge_def)

lemma seq_gt_dist:
  "- (2 ^ 31) \<le> j - k \<Longrightarrow> j - k < 2 ^ 31 \<Longrightarrow> seq_gt (b + of_int j) (b + of_int k) \<longleftrightarrow> j > k"
  using sint_of_int_small [of "j - k"] by (simp add: seq_gt_def)

lemma seq_diff_dist:
  "- (2 ^ 31) \<le> j - k \<Longrightarrow> j - k < 2 ^ 31 \<Longrightarrow>
   seq_diff (b + of_int j) (b + of_int k) = (if j < k then None else Some (nat (j - k)))"
  using sint_of_int_small [of "j - k"] by (simp add: seq_diff_def)

lemma seq_max_dist:
  "- (2 ^ 31) \<le> j - k \<Longrightarrow> j - k < 2 ^ 31 \<Longrightarrow> seq_max (b + of_int j) (b + of_int k) = b + of_int (max j k)"
  by (simp add: seq_max_def seq_gt_dist max_def)

lemma seq_min_dist:
  "- (2 ^ 31) \<le> j - k \<Longrightarrow> j - k < 2 ^ 31 \<Longrightarrow> seq_min (b + of_int j) (b + of_int k) = b + of_int (min j k)"
  by (simp add: seq_min_def seq_lt_dist min_def)

lemma seq_add_Some [simp]: "n < 2 ^ 31 \<Longrightarrow> seq_add a n = Some (a + of_nat n)"
  by (simp add: seq_add_def)

lemma seq_add_eq_Some: "seq_add a n = Some b \<longleftrightarrow> n < 2 ^ 31 \<and> b = a + of_nat n"
  by (auto simp: seq_add_def)

lemma seq_sub_Some [simp]: "n < 2 ^ 31 \<Longrightarrow> seq_sub a n = Some (a - of_nat n)"
  by (simp add: seq_sub_def)

lemma seq_diff_eq_Some: "seq_diff a b = Some n \<longleftrightarrow> 0 \<le> sint (a - b) \<and> n = nat (sint (a - b))"
  by (auto simp: seq_diff_def Let_def)

lemma seq_le_refl [simp]: "seq_le a a" and seq_lt_irrefl [simp]: "\<not> seq_lt a a"
  by (simp_all add: seq_le_def seq_lt_def)

section \<open>Control flags and segments\<close>

datatype tcp_control = CtlNone | CtlPsh | CtlSyn | CtlFin | CtlRst

fun control_len :: "tcp_control \<Rightarrow> nat" where
  "control_len CtlSyn = 1"
| "control_len CtlFin = 1"
| "control_len _ = 0"

fun quash_psh :: "tcp_control \<Rightarrow> tcp_control" where
  "quash_psh CtlPsh = CtlNone"
| "quash_psh c = c"

record tcp_timestamp_repr =
  tsval :: u32
  tsecr :: u32

text \<open>
  A timestamp generator is a function without arguments supplied by the user. The two functions
  below take the value it returns at this call, or \<open>None\<close> when there is no generator.
\<close>

definition generate_reply_with_tsval ::
  "u32 option \<Rightarrow> u32 \<Rightarrow> tcp_timestamp_repr option" where
  "generate_reply_with_tsval generator ts =
     map_option (\<lambda>now. \<lparr>tsval = now, tsecr = ts\<rparr>) generator"

definition generate_reply ::
  "tcp_timestamp_repr \<Rightarrow> u32 option \<Rightarrow> tcp_timestamp_repr option" where
  "generate_reply t generator = generate_reply_with_tsval generator (tsval t)"

type_synonym sack_range = "(u32 \<times> u32) option"

text \<open>The array of three SACK ranges is a list, of length 3 wherever the program builds one.\<close>

record tcp_repr =
  src_port :: u16
  dst_port :: u16
  control :: tcp_control
  seq_number :: seq
  ack_number :: "seq option"
  window_len :: u16
  window_scale :: "u8 option"
  max_seg_size :: "u16 option"
  sack_permitted :: bool
  sack_ranges :: "sack_range list"
  timestamp :: "tcp_timestamp_repr option"
  payload :: "u8 list"

definition TCP_HEADER_LEN :: nat where "TCP_HEADER_LEN = 20"

definition sack_range_len :: "tcp_repr \<Rightarrow> nat" where
  "sack_range_len r = sum_list (map (\<lambda>s. if s = None then 0 else 8) (sack_ranges r))"

definition tcp_header_len :: "tcp_repr \<Rightarrow> nat" where
  "tcp_header_len r =
     (let length = TCP_HEADER_LEN;
          length = (if max_seg_size r \<noteq> None then length + 4 else length);
          length = (if window_scale r \<noteq> None then length + 3 else length);
          length = (if sack_permitted r then length + 2 else length);
          length = (if timestamp r \<noteq> None then length + 10 else length);
          length = (if sack_range_len r > 0 then length + (sack_range_len r + 2) else length)
      in if length mod 4 \<noteq> 0 then length + (4 - length mod 4) else length)"

definition tcp_buffer_len :: "tcp_repr \<Rightarrow> nat" where
  "tcp_buffer_len r = tcp_header_len r + length (payload r)"

definition segment_len :: "tcp_repr \<Rightarrow> nat" where
  "segment_len r = length (payload r) + control_len (control r)"

definition repr_is_empty :: "tcp_repr \<Rightarrow> bool" where
  "repr_is_empty r \<longleftrightarrow> payload r = [] \<and> control r \<in> {CtlNone, CtlPsh}"

lemma quash_psh_simps [simp]:
  "quash_psh c = CtlFin \<longleftrightarrow> c = CtlFin"
  "quash_psh c = CtlSyn \<longleftrightarrow> c = CtlSyn"
  "quash_psh c = CtlRst \<longleftrightarrow> c = CtlRst"
  "quash_psh c \<noteq> CtlPsh"
  by (cases c; simp)+

lemma control_len_le [simp]: "control_len c \<le> 1"
  by (cases c) simp_all

end
