(* ===== verification/Tcp_Timer.thy ===== *)
theory Tcp_Timer
  imports Time Tcp_Repr
begin

text \<open>
  \<open>src/smoltcp/src/socket/tcp.rs\<close>, \<open>RttEstimator\<close>, \<open>Timer\<close> and \<open>AckDelayTimer\<close>, and \<open>PollAt\<close> of
  \<open>socket/mod.rs\<close>. The estimator computes on \<open>u32\<close> and wraps like the source; the reference
  it is compared with (\<open>rfc_sample\<close>) computes the formulas of RFC 6298 on natural numbers.
\<close>

section \<open>Round-trip time estimator\<close>

definition RTTE_INITIAL_RTO :: u32 where "RTTE_INITIAL_RTO = 1000"
definition RTTE_MIN_MARGIN :: u32 where "RTTE_MIN_MARGIN = 5"
definition RTTE_K :: u32 where "RTTE_K = 4"
definition RTTE_MIN_RTO :: u32 where "RTTE_MIN_RTO = 1000"
definition RTTE_MAX_RTO :: u32 where "RTTE_MAX_RTO = 60000"

lemmas rtte_consts [timer_simps] =
  RTTE_INITIAL_RTO_def RTTE_MIN_MARGIN_def RTTE_K_def RTTE_MIN_RTO_def RTTE_MAX_RTO_def

record rtt_estimator =
  have_measurement :: bool
  srtt :: u32
  rttvar :: u32
  rto :: u32
  rtt_timestamp :: "(instant \<times> seq) option"
  max_seq_sent :: "seq option"
  rto_count :: u8

definition rtt_default :: rtt_estimator where
  "rtt_default = \<lparr>have_measurement = False, srtt = 0, rttvar = 0, rto = RTTE_INITIAL_RTO,
     rtt_timestamp = None, max_seq_sent = None, rto_count = 0\<rparr>"

definition retransmission_timeout :: "rtt_estimator \<Rightarrow> duration" where
  "retransmission_timeout r = duration_from_millis (unat (rto r))"

text \<open>\<open>i32::unsigned_abs\<close>.\<close>

definition unsigned_abs :: "u32 \<Rightarrow> u32" where
  "unsigned_abs w = (if sint w < 0 then - w else w)"

definition clamp :: "u32 \<Rightarrow> u32 \<Rightarrow> u32 \<Rightarrow> u32" where
  "clamp x lo hi = (if x < lo then lo else if hi < x then hi else x)"

definition rtt_sample :: "rtt_estimator \<Rightarrow> u32 \<Rightarrow> rtt_estimator" where
  "rtt_sample r new_rtt =
     (let r = (if have_measurement r
               then let diff = unsigned_abs (srtt r - new_rtt)
                    in r\<lparr>rttvar := div_ceil (rttvar r * 3 + diff) 4,
                         srtt := div_ceil (srtt r * 7 + new_rtt) 8\<rparr>
               else r\<lparr>have_measurement := True, srtt := new_rtt, rttvar := new_rtt div 2\<rparr>);
          margin = max RTTE_MIN_MARGIN (rttvar r * RTTE_K)
      in r\<lparr>rto := clamp (srtt r + margin) RTTE_MIN_RTO RTTE_MAX_RTO, rto_count := 0\<rparr>)"

definition rtt_on_send :: "rtt_estimator \<Rightarrow> instant \<Rightarrow> seq \<Rightarrow> rtt_estimator" where
  "rtt_on_send r now s =
     (if (case max_seq_sent r of Some m \<Rightarrow> seq_gt s m | None \<Rightarrow> True)
      then let r = r\<lparr>max_seq_sent := Some s\<rparr>
           in if rtt_timestamp r = None then r\<lparr>rtt_timestamp := Some (now, s)\<rparr> else r
      else r)"

definition rtt_on_ack :: "rtt_estimator \<Rightarrow> instant \<Rightarrow> seq \<Rightarrow> rtt_estimator" where
  "rtt_on_ack r now s =
     (case rtt_timestamp r of
        Some (sent_timestamp, sent_seq) \<Rightarrow>
          if seq_ge s sent_seq
          then (rtt_sample r (of_nat (duration_total_millis (instant_diff now sent_timestamp))))
                 \<lparr>rtt_timestamp := None\<rparr>
          else r
      | None \<Rightarrow> r)"

definition rtt_on_retransmit :: "rtt_estimator \<Rightarrow> rtt_estimator" where
  "rtt_on_retransmit r =
     (let r = r\<lparr>rtt_timestamp := None\<rparr>;
          r = r\<lparr>rto := min (rto r * 2) RTTE_MAX_RTO\<rparr>;
          r = r\<lparr>rto_count := rto_count r + 1\<rparr>
      in if rto_count r \<ge> 3 then r\<lparr>rto_count := 0, have_measurement := False\<rparr> else r)"

section \<open>The timer\<close>

text \<open>\<open>socket::PollAt\<close>, with its derived order.\<close>

datatype poll_at = PollNow | PollTime instant | PollIngress

instantiation poll_at :: linorder
begin

fun less_eq_poll_at :: "poll_at \<Rightarrow> poll_at \<Rightarrow> bool" where
  "PollNow \<le> (q :: poll_at) \<longleftrightarrow> True"
| "PollTime s \<le> PollTime t \<longleftrightarrow> s \<le> t"
| "PollTime s \<le> PollIngress \<longleftrightarrow> True"
| "PollTime s \<le> PollNow \<longleftrightarrow> False"
| "PollIngress \<le> q \<longleftrightarrow> q = PollIngress"

definition less_poll_at :: "poll_at \<Rightarrow> poll_at \<Rightarrow> bool" where
  "(p :: poll_at) < q \<longleftrightarrow> p \<le> q \<and> \<not> q \<le> p"

instance
proof
  fix p q r :: poll_at
  show "(p < q) = (p \<le> q \<and> \<not> q \<le> p)" by (rule less_poll_at_def)
  show "p \<le> p" by (cases p) auto
  show "p \<le> q \<Longrightarrow> q \<le> r \<Longrightarrow> p \<le> r" by (cases p; cases q; cases r) auto
  show "p \<le> q \<Longrightarrow> q \<le> p \<Longrightarrow> p = q" by (cases p; cases q) auto
  show "p \<le> q \<or> q \<le> p" by (cases p; cases q) auto
qed

end

datatype timer =
    TimerIdle (keep_alive_at: "instant option")
  | TimerRetransmit instant
  | TimerFastRetransmit
  | TimerZeroWindowProbe instant duration
  | TimerClose instant

datatype ack_delay_timer = AckIdle | AckWaiting instant | AckImmediate

definition ACK_DELAY_DEFAULT :: duration where
  "ACK_DELAY_DEFAULT = duration_from_millis 10"

definition CLOSE_DELAY :: duration where
  "CLOSE_DELAY = duration_from_millis 10000"

definition timer_new :: timer where
  "timer_new = TimerIdle None"

fun should_keep_alive :: "timer \<Rightarrow> instant \<Rightarrow> bool" where
  "should_keep_alive (TimerIdle (Some t)) now \<longleftrightarrow> t \<le> now"
| "should_keep_alive _ now \<longleftrightarrow> False"

fun should_retransmit :: "timer \<Rightarrow> instant \<Rightarrow> bool" where
  "should_retransmit (TimerRetransmit t) now \<longleftrightarrow> t \<le> now"
| "should_retransmit TimerFastRetransmit now \<longleftrightarrow> True"
| "should_retransmit _ now \<longleftrightarrow> False"

fun should_close :: "timer \<Rightarrow> instant \<Rightarrow> bool" where
  "should_close (TimerClose t) now \<longleftrightarrow> t \<le> now"
| "should_close _ now \<longleftrightarrow> False"

fun should_zero_window_probe :: "timer \<Rightarrow> instant \<Rightarrow> bool" where
  "should_zero_window_probe (TimerZeroWindowProbe t _) now \<longleftrightarrow> t \<le> now"
| "should_zero_window_probe _ now \<longleftrightarrow> False"

fun timer_poll_at :: "timer \<Rightarrow> poll_at" where
  "timer_poll_at (TimerIdle (Some t)) = PollTime t"
| "timer_poll_at (TimerIdle None) = PollIngress"
| "timer_poll_at (TimerZeroWindowProbe t _) = PollTime t"
| "timer_poll_at (TimerRetransmit t) = PollTime t"
| "timer_poll_at TimerFastRetransmit = PollNow"
| "timer_poll_at (TimerClose t) = PollTime t"

definition set_for_idle :: "instant \<Rightarrow> duration option \<Rightarrow> timer" where
  "set_for_idle now interval = TimerIdle (map_option (instant_add now) interval)"

fun timer_set_keep_alive :: "timer \<Rightarrow> timer" where
  "timer_set_keep_alive (TimerIdle None) = TimerIdle (Some (instant_from_millis 0))"
| "timer_set_keep_alive t = t"

fun rewind_keep_alive :: "timer \<Rightarrow> instant \<Rightarrow> duration option \<Rightarrow> timer" where
  "rewind_keep_alive (TimerIdle _) now interval = TimerIdle (map_option (instant_add now) interval)"
| "rewind_keep_alive t now interval = t"

fun set_for_retransmit :: "timer \<Rightarrow> instant \<Rightarrow> duration \<Rightarrow> timer" where
  "set_for_retransmit (TimerClose t) now delay = TimerClose t"
| "set_for_retransmit _ now delay = TimerRetransmit (instant_add now delay)"

definition set_for_fast_retransmit :: timer where
  "set_for_fast_retransmit = TimerFastRetransmit"

definition set_for_close :: "instant \<Rightarrow> timer" where
  "set_for_close now = TimerClose (instant_add now CLOSE_DELAY)"

definition set_for_zero_window_probe :: "instant \<Rightarrow> duration \<Rightarrow> timer" where
  "set_for_zero_window_probe now delay = TimerZeroWindowProbe (instant_add now delay) delay"

fun rewind_zero_window_probe :: "timer \<Rightarrow> instant \<Rightarrow> timer" where
  "rewind_zero_window_probe (TimerZeroWindowProbe _ delay) now =
     (let delay = min (duration_mul delay 2) (duration_from_millis (unat RTTE_MAX_RTO))
      in TimerZeroWindowProbe (instant_add now delay) delay)"
| "rewind_zero_window_probe t now = t"

fun timer_is_idle :: "timer \<Rightarrow> bool" where
  "timer_is_idle (TimerIdle _) \<longleftrightarrow> True"
| "timer_is_idle _ \<longleftrightarrow> False"

fun timer_is_zero_window_probe :: "timer \<Rightarrow> bool" where
  "timer_is_zero_window_probe (TimerZeroWindowProbe _ _) \<longleftrightarrow> True"
| "timer_is_zero_window_probe _ \<longleftrightarrow> False"

fun timer_is_retransmit :: "timer \<Rightarrow> bool" where
  "timer_is_retransmit (TimerRetransmit _) \<longleftrightarrow> True"
| "timer_is_retransmit TimerFastRetransmit \<longleftrightarrow> True"
| "timer_is_retransmit _ \<longleftrightarrow> False"

section \<open>Properties of the estimator\<close>

definition rtt_inv :: "rtt_estimator \<Rightarrow> bool" where
  "rtt_inv r \<longleftrightarrow> RTTE_MIN_RTO \<le> rto r \<and> rto r \<le> RTTE_MAX_RTO \<and> rto_count r < 3"

lemma rtt_inv_default [simp]: "rtt_inv rtt_default"
  by (simp add: rtt_inv_def rtt_default_def timer_simps)

lemma rtt_inv_sample [simp]: "rtt_inv (rtt_sample r n)"
  by (simp add: rtt_inv_def rtt_sample_def Let_def clamp_def timer_simps not_less)

lemma rtt_inv_on_send [simp]: "rtt_inv (rtt_on_send r now s) = rtt_inv r"
  by (simp add: rtt_inv_def rtt_on_send_def Let_def split: option.splits)

lemma rtt_inv_on_ack [simp]: "rtt_inv r \<Longrightarrow> rtt_inv (rtt_on_ack r now s)"
  using rtt_inv_sample [of r]
  by (auto simp: rtt_on_ack_def rtt_inv_def split: option.splits)

lemma unat_double_rto:
  "rto r \<le> RTTE_MAX_RTO \<Longrightarrow> unat (rto r * 2) = unat (rto r) * 2"
  by (simp add: timer_simps word_le_nat_alt unat_word_ariths)

lemma rtt_inv_on_retransmit [simp]:
  assumes "rtt_inv r"
  shows "rtt_inv (rtt_on_retransmit r)"
proof -
  have "RTTE_MIN_RTO \<le> rto r * 2"
    using assms unat_double_rto [of r] by (simp add: rtt_inv_def timer_simps word_le_nat_alt)
  moreover have "rto_count r + 1 \<ge> 3 \<or> rto_count r + 1 < 3" by auto
  ultimately show ?thesis
    by (simp add: rtt_inv_def rtt_on_retransmit_def Let_def timer_simps min_def not_le)
qed

text \<open>What the socket does to the estimator, in any order.\<close>

inductive rtt_reachable :: "rtt_estimator \<Rightarrow> bool" where
  init: "rtt_reachable rtt_default"
| send: "rtt_reachable r \<Longrightarrow> rtt_reachable (rtt_on_send r now s)"
| ack: "rtt_reachable r \<Longrightarrow> rtt_reachable (rtt_on_ack r now s)"
| retransmit: "rtt_reachable r \<Longrightarrow> rtt_reachable (rtt_on_retransmit r)"

text \<open>
  C40: whatever segments are sent, acknowledged and retransmitted, and whatever the samples are
  (the arithmetic may even wrap around), the retransmission timeout stays between one second and
  one minute, and the count of backoffs below three.
\<close>

theorem rto_bounded:
  assumes "rtt_reachable r"
  shows "1000 \<le> unat (rto r) \<and> unat (rto r) \<le> 60000 \<and> unat (rto_count r) < 3"
proof -
  have "rtt_inv r" using assms by induction simp_all
  then show ?thesis by (simp add: rtt_inv_def timer_simps word_le_nat_alt word_less_nat_alt)
qed

theorem rto_bounded_witness:
  "rtt_reachable (rtt_on_retransmit rtt_default) \<and> unat (rto (rtt_on_retransmit rtt_default)) \<le> 60000"
  using rto_bounded [OF rtt_reachable.retransmit [OF rtt_reachable.init]]
  by (simp add: rtt_reachable.retransmit rtt_reachable.init)

text \<open>Exponential backoff.\<close>

lemma unat_rto_retransmit:
  "rtt_inv r \<Longrightarrow> unat (rto (rtt_on_retransmit r)) = min (2 * unat (rto r)) 60000"
  using unat_double_rto [of r]
  by (auto simp: rtt_on_retransmit_def Let_def rtt_inv_def timer_simps min_def word_le_nat_alt)

text \<open>
  \<open>n\<close> retransmissions in a row multiply the retransmission timeout by \<open>2 ^ n\<close>, up to the
  maximum of one minute.
\<close>

lemma rto_backoff:
  assumes "rtt_inv r"
  shows "unat (rto ((rtt_on_retransmit ^^ n) r)) = min (2 ^ n * unat (rto r)) 60000"
proof -
  have "rtt_inv ((rtt_on_retransmit ^^ n) r) \<and>
    unat (rto ((rtt_on_retransmit ^^ n) r)) = min (2 ^ n * unat (rto r)) 60000"
  proof (induction n)
    case 0
    then show ?case using assms by (simp add: rtt_inv_def timer_simps word_le_nat_alt)
  next
    case (Suc n)
    have "min (2 * min x 60000) 60000 = min (2 * x) 60000" for x :: nat by (simp add: min_def)
    with Suc show ?case by (simp add: unat_rto_retransmit mult.assoc)
  qed
  then show ?thesis by blast
qed

lemma rto_backoff_witness:
  "rtt_inv rtt_default \<and> unat (rto ((rtt_on_retransmit ^^ 5) rtt_default)) = 32000"
  using rto_backoff [OF rtt_inv_default, of 5] rtt_inv_default
  by (simp add: rtt_default_def timer_simps del: rtt_inv_default)

text \<open>RFC 6298 on natural numbers: (have, srtt, rttvar) before, (srtt, rttvar, rto) after.\<close>

definition rfc_sample :: "bool \<Rightarrow> nat \<Rightarrow> nat \<Rightarrow> nat \<Rightarrow> nat \<times> nat \<times> nat" where
  "rfc_sample have_rtt s v n =
     (let v' = (if have_rtt then (3 * v + nat \<bar>int s - int n\<bar> + 3) div 4 else n div 2);
          s' = (if have_rtt then (7 * s + n + 7) div 8 else n)
      in (s', v', min (max (s' + max 5 (4 * v')) 1000) 60000))"

definition rtt_small :: "rtt_estimator \<Rightarrow> bool" where
  "rtt_small r \<longleftrightarrow> unat (srtt r) \<le> 2 ^ 28 \<and> unat (rttvar r) \<le> 2 ^ 28"

lemma unat_div_ceil:
  assumes "unat (a :: u32) < 2 ^ 32 - 8" and "1 < unat b"
  shows "unat (div_ceil a b) = unat a div unat b + (if unat a mod unat b = 0 then 0 else 1)"
proof -
  have "a mod b = 0 \<longleftrightarrow> unat (a mod b) = 0" by (simp only: unsigned_eq_0_iff)
  then have mod0: "a mod b = 0 \<longleftrightarrow> unat a mod unat b = 0" by (simp only: unat_mod_distrib)
  have "unat a div unat b < 2 ^ 32 - 8"
    using assms(1) div_le_dividend [of "unat a" "unat b"] by linarith
  then show ?thesis
    unfolding div_ceil_def mod0 by (auto simp: unat_word_ariths unat_div_distrib)
qed

lemma div_ceil_nat:
  "x div 4 + (if x mod 4 = 0 then 0 else 1) = (x + 3) div (4 :: nat)"
  "x div 8 + (if x mod 8 = 0 then 0 else 1) = (x + 7) div (8 :: nat)"
  by presburger+

lemma unat_div_ceil_4_8:
  assumes "unat (a :: u32) < 2 ^ 32 - 8"
  shows "unat (div_ceil a 4) = (unat a + 3) div 4" and "unat (div_ceil a 8) = (unat a + 7) div 8"
proof -
  have n: "unat (4 :: u32) = 4" "unat (8 :: u32) = 8" by simp_all
  show "unat (div_ceil a 4) = (unat a + 3) div 4"
    using unat_div_ceil [OF assms, of 4] unfolding n div_ceil_nat by simp
  show "unat (div_ceil a 8) = (unat a + 7) div 8"
    using unat_div_ceil [OF assms, of 8] unfolding n div_ceil_nat by simp
qed

lemma unat_unsigned_abs:
  assumes "unat a \<le> 2 ^ 28" and "unat b \<le> 2 ^ 28"
  shows "unat (unsigned_abs (a - b)) = nat \<bar>int (unat a) - int (unat b)\<bar>"
proof -
  define m n where mn: "m = unat a" "n = unat b"
  have le: "m \<le> 2 ^ 28" "n \<le> 2 ^ 28" using assms by (simp_all add: mn)
  have "a - b = of_int (int m - int n)" by (simp add: mn)
  moreover have "sint (of_int (int m - int n) :: seq) = int m - int n"
    using le by (intro sint_of_int_small) auto
  ultimately have "sint (a - b) = int m - int n" by simp
  moreover have "unat (a - b) = m - n" if "n \<le> m"
    using that by (simp add: unat_sub word_le_nat_alt mn)
  moreover have "unat (- (a - b)) = n - m" if "m \<le> n"
    using that by (simp add: unat_sub word_le_nat_alt mn)
  ultimately show ?thesis by (auto simp: unsigned_abs_def simp flip: mn)
qed

text \<open>
  As long as the round-trip times stay below \<open>2 ^ 28\<close> milliseconds (three days), the
  estimator computes exactly the formulas of RFC 6298 (2.2) to (2.5), rounded up, without any
  overflow, and its estimates stay in that range.
\<close>

lemma rtt_sample_refines_rfc:
  assumes "rtt_small r" and "unat n \<le> 2 ^ 28"
  shows "let r' = rtt_sample r n in rtt_small r' \<and> have_measurement r' \<and>
    (unat (srtt r'), unat (rttvar r'), unat (rto r'))
      = rfc_sample (have_measurement r) (unat (srtt r)) (unat (rttvar r)) (unat n)"
proof -
  define s v where "s = unat (srtt (rtt_sample r n))" and "v = unat (rttvar (rtt_sample r n))"
  have small: "unat (srtt r) \<le> 2 ^ 28" "unat (rttvar r) \<le> 2 ^ 28"
    using assms(1) by (simp_all add: rtt_small_def)
  let ?d = "unat (unsigned_abs (srtt r - n))"
  have d: "?d = nat \<bar>int (unat (srtt r)) - int (unat n)\<bar>"
    by (rule unat_unsigned_abs [OF small(1) assms(2)])
  have d_le: "?d \<le> 2 ^ 28" unfolding d using small assms(2) by linarith
  have v3: "unat (rttvar r * 3 + unsigned_abs (srtt r - n)) = 3 * unat (rttvar r) + ?d"
    using small(2) d_le by (simp add: unat_word_ariths)
  have s7: "unat (srtt r * 7 + n) = 7 * unat (srtt r) + unat n"
    using small(1) assms(2) by (simp add: unat_word_ariths)
  have vs: "v = (if have_measurement r then (3 * unat (rttvar r) + ?d + 3) div 4 else unat n div 2)"
    "s = (if have_measurement r then (7 * unat (srtt r) + unat n + 7) div 8 else unat n)"
    using v3 s7 small assms(2) d_le
      unat_div_ceil_4_8(1) [of "rttvar r * 3 + unsigned_abs (srtt r - n)"] unat_div_ceil_4_8(2) [of "srtt r * 7 + n"]
    by (auto simp: v_def s_def rtt_sample_def Let_def unat_div_distrib)
  have le: "v \<le> 2 ^ 28" "s \<le> 2 ^ 28"
    unfolding vs using small d_le assms(2) by auto
  have "unat (rttvar (rtt_sample r n) * 4) = 4 * v"
    using le by (simp add: unat_word_ariths flip: v_def)
  then have "unat (max 5 (rttvar (rtt_sample r n) * 4)) = max 5 (4 * v)"
    by (simp add: max_def word_le_nat_alt)
  then have sum: "unat (srtt (rtt_sample r n) + max 5 (rttvar (rtt_sample r n) * 4)) = s + max 5 (4 * v)"
    using le by (simp add: unat_word_ariths flip: s_def)
  have rto_eq: "rto (rtt_sample r n)
      = clamp (srtt (rtt_sample r n) + max 5 (rttvar (rtt_sample r n) * 4)) 1000 60000"
    by (simp add: rtt_sample_def Let_def timer_simps)
  have "unat (rto (rtt_sample r n)) = min (max (s + max 5 (4 * v)) 1000) 60000"
    unfolding rto_eq using sum by (auto simp: clamp_def word_less_nat_alt min_def max_def)
  moreover have "have_measurement (rtt_sample r n)" by (simp add: rtt_sample_def Let_def)
  moreover have "rfc_sample (have_measurement r) (unat (srtt r)) (unat (rttvar r)) (unat n)
      = (s, v, min (max (s + max 5 (4 * v)) 1000) 60000)"
    unfolding rfc_sample_def Let_def vs d by simp
  ultimately show ?thesis using le by (simp add: rtt_small_def flip: v_def s_def)
qed

lemma rtt_sample_refines_rfc_witness:
  "let r' = rtt_sample rtt_default 120 in
     (unat (srtt r'), unat (rttvar r'), unat (rto r')) = (120, 60, 1000)"
  using rtt_sample_refines_rfc [of rtt_default 120]
  by (simp add: rtt_small_def rtt_default_def rfc_sample_def Let_def)

text \<open>
  The timer never asks to be polled later than it has something to do: at any instant at or
  after which it wants to retransmit, probe, close or keep alive, its \<open>poll_at\<close> is already due; and
  once a poll time is due one of these is wanted.
\<close>

lemma timer_poll_at_correct:
  "timer_poll_at t \<le> PollTime now \<longleftrightarrow>
     should_keep_alive t now \<or> should_retransmit t now \<or> should_close t now \<or>
     should_zero_window_probe t now"
  by (cases "(t, now)" rule: should_keep_alive.cases) auto

end
