(* ===== verification/Congestion.thy ===== *)
theory Congestion
  imports Tcp_Timer
begin

text \<open>
  \<open>src/smoltcp/src/socket/tcp/congestion.rs\<close>, \<open>congestion/no_control.rs\<close> and
  \<open>congestion/reno.rs\<close>: the controller interface and its implementations for builds without
  the \<open>socket-tcp-cubic\<close> feature (\<open>congestion/cubic.rs\<close> computes with \<open>f64\<close>). The trait
  \<open>Controller\<close> has default methods that do nothing; \<open>NoControl\<close> keeps all of them.
\<close>

section \<open>Reno\<close>

record reno =
  cwnd :: nat
  min_cwnd :: nat
  ssthresh :: nat
  rwnd :: nat

definition reno_new :: reno where
  "reno_new = \<lparr>cwnd = 1024 * 2, min_cwnd = 1024 * 2, ssthresh = usize_max, rwnd = 64 * 1024\<rparr>"

definition reno_on_ack :: "reno \<Rightarrow> nat \<Rightarrow> reno" where
  "reno_on_ack r len =
     (let (len, r) = (if cwnd r < ssthresh r then (len, r)
                      else (min_cwnd r, r\<lparr>ssthresh := cwnd r\<rparr>))
      in r\<lparr>cwnd := max (min (min (cwnd r + len) usize_max) (rwnd r)) (min_cwnd r)\<rparr>)"

definition reno_on_duplicate_ack :: "reno \<Rightarrow> reno" where
  "reno_on_duplicate_ack r = r\<lparr>ssthresh := max (cwnd r div 2) (min_cwnd r)\<rparr>"

definition reno_on_retransmit :: "reno \<Rightarrow> reno" where
  "reno_on_retransmit r = r\<lparr>cwnd := max (cwnd r div 2) (min_cwnd r)\<rparr>"

definition reno_set_mss :: "reno \<Rightarrow> nat \<Rightarrow> reno" where
  "reno_set_mss r mss = r\<lparr>min_cwnd := mss\<rparr>"

definition reno_set_remote_window :: "reno \<Rightarrow> nat \<Rightarrow> reno" where
  "reno_set_remote_window r remote_window =
     (if rwnd r < remote_window then r\<lparr>rwnd := remote_window\<rparr> else r)"

section \<open>Any controller\<close>

datatype any_controller = CcNone | CcReno reno

datatype congestion_control = ControlNone | ControlReno

text \<open>\<open>AnyController::new\<close> selects Reno when the feature is enabled.\<close>

definition cc_new :: "bool \<Rightarrow> any_controller" where
  "cc_new reno_feature = (if reno_feature then CcReno reno_new else CcNone)"

fun cc_window :: "any_controller \<Rightarrow> nat" where
  "cc_window CcNone = usize_max"
| "cc_window (CcReno r) = cwnd r"

fun cc_set_remote_window :: "any_controller \<Rightarrow> nat \<Rightarrow> any_controller" where
  "cc_set_remote_window CcNone w = CcNone"
| "cc_set_remote_window (CcReno r) w = CcReno (reno_set_remote_window r w)"

fun cc_on_ack :: "any_controller \<Rightarrow> instant \<Rightarrow> nat \<Rightarrow> rtt_estimator \<Rightarrow> any_controller" where
  "cc_on_ack CcNone now len rtt = CcNone"
| "cc_on_ack (CcReno r) now len rtt = CcReno (reno_on_ack r len)"

fun cc_on_retransmit :: "any_controller \<Rightarrow> instant \<Rightarrow> any_controller" where
  "cc_on_retransmit CcNone now = CcNone"
| "cc_on_retransmit (CcReno r) now = CcReno (reno_on_retransmit r)"

fun cc_on_duplicate_ack :: "any_controller \<Rightarrow> instant \<Rightarrow> any_controller" where
  "cc_on_duplicate_ack CcNone now = CcNone"
| "cc_on_duplicate_ack (CcReno r) now = CcReno (reno_on_duplicate_ack r)"

fun cc_pre_transmit :: "any_controller \<Rightarrow> instant \<Rightarrow> any_controller" where
  "cc_pre_transmit c now = c"

fun cc_post_transmit :: "any_controller \<Rightarrow> instant \<Rightarrow> nat \<Rightarrow> any_controller" where
  "cc_post_transmit c now len = c"

fun cc_set_mss :: "any_controller \<Rightarrow> nat \<Rightarrow> any_controller" where
  "cc_set_mss CcNone mss = CcNone"
| "cc_set_mss (CcReno r) mss = CcReno (reno_set_mss r mss)"

section \<open>The controller contract\<close>

datatype cc_event =
    EvAck nat | EvRetransmit | EvDuplicateAck | EvPreTransmit | EvPostTransmit nat
  | EvSetMss nat | EvRemoteWindow nat

text \<open>
  What the socket relies on: every event keeps the controller's invariant, provided the segment
  sizes are positive, and the invariant leaves a window of at least one octet.
\<close>

locale congestion_controller =
  fixes window :: "'c \<Rightarrow> nat"
    and event :: "cc_event \<Rightarrow> 'c \<Rightarrow> 'c"
    and inv :: "'c \<Rightarrow> bool"
  assumes event_inv: "inv c \<Longrightarrow> e \<noteq> EvSetMss 0 \<Longrightarrow> inv (event e c)"
    and window_pos: "inv c \<Longrightarrow> 0 < window c"
begin

lemma run_inv: "inv c \<Longrightarrow> EvSetMss 0 \<notin> set es \<Longrightarrow> inv (fold event es c)"
  by (induction es arbitrary: c) (auto simp: event_inv)

lemma never_blocked: "inv c \<Longrightarrow> EvSetMss 0 \<notin> set es \<Longrightarrow> 0 < window (fold event es c)"
  using run_inv window_pos by blast

end

fun reno_event :: "cc_event \<Rightarrow> reno \<Rightarrow> reno" where
  "reno_event (EvAck n) r = reno_on_ack r n"
| "reno_event EvRetransmit r = reno_on_retransmit r"
| "reno_event EvDuplicateAck r = reno_on_duplicate_ack r"
| "reno_event EvPreTransmit r = r"
| "reno_event (EvPostTransmit n) r = r"
| "reno_event (EvSetMss m) r = reno_set_mss r m"
| "reno_event (EvRemoteWindow w) r = reno_set_remote_window r w"

fun cc_step :: "instant \<Rightarrow> rtt_estimator \<Rightarrow> cc_event \<Rightarrow> any_controller \<Rightarrow> any_controller" where
  "cc_step now rtt (EvAck n) c = cc_on_ack c now n rtt"
| "cc_step now rtt EvRetransmit c = cc_on_retransmit c now"
| "cc_step now rtt EvDuplicateAck c = cc_on_duplicate_ack c now"
| "cc_step now rtt EvPreTransmit c = cc_pre_transmit c now"
| "cc_step now rtt (EvPostTransmit n) c = cc_post_transmit c now n"
| "cc_step now rtt (EvSetMss m) c = cc_set_mss c m"
| "cc_step now rtt (EvRemoteWindow w) c = cc_set_remote_window c w"

definition reno_inv :: "reno \<Rightarrow> bool" where
  "reno_inv r \<longleftrightarrow> 0 < cwnd r \<and> 0 < min_cwnd r"

fun cc_inv :: "any_controller \<Rightarrow> bool" where
  "cc_inv CcNone \<longleftrightarrow> True"
| "cc_inv (CcReno r) \<longleftrightarrow> reno_inv r"

lemma reno_event_inv: "reno_inv r \<Longrightarrow> e \<noteq> EvSetMss 0 \<Longrightarrow> reno_inv (reno_event e r)"
  by (cases e) (auto simp: reno_inv_def reno_on_ack_def reno_on_duplicate_ack_def
      reno_on_retransmit_def reno_set_mss_def reno_set_remote_window_def Let_def split: if_splits)

lemma cc_step_reno: "cc_step now rtt e (CcReno r) = CcReno (reno_event e r)"
  by (cases e) auto

lemma cc_step_none: "cc_step now rtt e CcNone = CcNone"
  by (cases e) auto

lemma cc_step_inv: "cc_inv c \<Longrightarrow> e \<noteq> EvSetMss 0 \<Longrightarrow> cc_inv (cc_step now rtt e c)"
  by (cases c) (simp_all add: cc_step_reno cc_step_none reno_event_inv)

lemmas cc_op_inv [simp] =
  cc_step_inv [of _ "EvAck n", simplified] cc_step_inv [of _ EvRetransmit, simplified]
  cc_step_inv [of _ EvDuplicateAck, simplified] cc_step_inv [of _ "EvRemoteWindow w", simplified]
  cc_step_inv [of _ EvPreTransmit, simplified] cc_step_inv [of _ "EvPostTransmit n", simplified] for n w

lemma cc_set_mss_inv [simp]: "cc_inv c \<Longrightarrow> 0 < m \<Longrightarrow> cc_inv (cc_set_mss c m)"
  using cc_step_inv [of c "EvSetMss m"] by simp

lemma cc_new_inv [simp]: "cc_inv (cc_new f)"
  by (simp add: cc_new_def reno_new_def reno_inv_def)

lemma cc_window_pos: "cc_inv c \<Longrightarrow> 0 < cc_window c"
  by (cases c) (auto simp: reno_inv_def)

interpretation any_cc: congestion_controller cc_window "cc_step now rtt" cc_inv
  by unfold_locales (simp_all add: cc_step_inv cc_window_pos)

section \<open>Properties\<close>

text \<open>
  With any controller, after any sequence of acknowledgements, losses, window and segment size
  changes, as long as no maximum segment size of zero is set, the congestion window lets at least
  one octet through.
\<close>

lemma congestion_window_positive:
  assumes "EvSetMss 0 \<notin> set es"
  shows "0 < cc_window (fold (cc_step now rtt) es (cc_new reno_feature))"
  by (rule any_cc.never_blocked [OF cc_new_inv assms])

lemma congestion_window_positive_witness:
  "0 < cc_window (fold (cc_step instant_zero rtt_default) [EvSetMss 1, EvRetransmit, EvAck 5] (cc_new True))"
  by (rule congestion_window_positive) simp

definition reno_bounded :: "nat \<Rightarrow> nat \<Rightarrow> reno \<Rightarrow> bool" where
  "reno_bounded mss w r \<longleftrightarrow> cwnd r \<le> max mss w \<and> min_cwnd r \<le> mss \<and> rwnd r \<le> w"

lemma reno_event_bounded:
  assumes "reno_bounded mss w r" and "\<forall>m. e = EvSetMss m \<longrightarrow> m \<le> mss"
    and "\<forall>v. e = EvRemoteWindow v \<longrightarrow> v \<le> w"
  shows "reno_bounded mss w (reno_event e r)"
  using assms by (cases e) (auto simp: reno_bounded_def reno_on_ack_def reno_on_duplicate_ack_def
      reno_on_retransmit_def reno_set_mss_def reno_set_remote_window_def Let_def split: if_splits)

text \<open>
  Reno's congestion window never exceeds the larger of the largest receive window the remote
  side has announced (at least the initial 64 KiB) and the largest segment size, and a
  retransmission halves it, but not below one segment.
\<close>

lemma reno_window_bounds:
  assumes "\<forall>m. EvSetMss m \<in> set es \<longrightarrow> m \<le> mss" and "2048 \<le> mss"
    and "\<forall>v. EvRemoteWindow v \<in> set es \<longrightarrow> v \<le> w" and "65536 \<le> w"
  shows "let r = fold reno_event es reno_new in
    cwnd r \<le> max mss w \<and> min_cwnd r \<le> cwnd (reno_on_retransmit r) \<and>
    cwnd (reno_on_retransmit r) \<le> max (cwnd r div 2) mss"
proof -
  have "reno_bounded mss w r \<Longrightarrow> reno_bounded mss w (fold reno_event es r)" for r
    using assms(1,3)
  proof (induction es arbitrary: r)
    case (Cons e es)
    then have "reno_bounded mss w (reno_event e r)" by (intro reno_event_bounded) auto
    with Cons show ?case by simp
  qed simp
  then have "reno_bounded mss w (fold reno_event es reno_new)"
    using assms by (simp add: reno_bounded_def reno_new_def)
  then show ?thesis by (auto simp: reno_bounded_def reno_on_retransmit_def Let_def)
qed

lemma reno_window_bounds_witness:
  "cwnd (fold reno_event [EvSetMss 1460, EvAck 100000, EvRetransmit] reno_new) \<le> 65536"
  using reno_window_bounds [of "[EvSetMss 1460, EvAck 100000, EvRetransmit]" 2048 65536]
  by (simp add: Let_def del: fold_simps)

end
