(* ===== verification/Tcp_Socket.thy ===== *)
theory Tcp_Socket
  imports Ring_Buffer Assembler Ip Congestion
begin

text \<open>
  \<open>src/smoltcp/src/socket/tcp.rs\<close>: the state of a TCP socket and the operations of its user
  (everything but \<open>process\<close>, \<open>dispatch\<close> and \<open>poll_at\<close>). The wakers of the \<open>async\<close> feature are left
  out: registering and waking tasks does not change the rest of the state. A timestamp generator
  is user code: the socket records whether it has one, and the context gives the value it
  returns at the current call.
\<close>

section \<open>State\<close>

datatype tcp_state =
    Closed | Listen | SynSent | SynReceived | Established | FinWait1 | FinWait2 | CloseWait
  | Closing | LastAck | TimeWait

datatype listen_error = ListenInvalidState | ListenUnaddressable
datatype connect_error = ConnectInvalidState | ConnectUnaddressable
datatype send_error = SendInvalidState
datatype recv_error = RecvInvalidState | RecvFinished

record tcp_tuple =
  tuple_local :: ip_endpoint
  tuple_remote :: ip_endpoint

text \<open>
  What the operations read of the interface context: the current time, the IP-level MTU, the next
  random number, the choice of a source address, and the value of the timestamp generator.
\<close>

record iface_context =
  cx_now :: instant
  cx_ip_mtu :: nat
  cx_rand_u32 :: u32
  cx_source_address :: "ip_address \<Rightarrow> ip_address option"
  cx_tsval :: u32

record tcp_socket =
  state :: tcp_state
  timer :: timer
  rtte :: rtt_estimator
  assembler :: assembler
  rx_buffer :: "u8 ring_buffer"
  rx_fin_received :: bool
  tx_buffer :: "u8 ring_buffer"
  timeout :: "duration option"
  keep_alive :: "duration option"
  hop_limit :: "u8 option"
  listen_endpoint :: ip_listen_endpoint
  tuple :: "tcp_tuple option"
  local_seq_no :: seq
  remote_seq_no :: seq
  remote_last_seq :: seq
  remote_last_ack :: "seq option"
  remote_last_win :: u16
  remote_win_shift :: nat
  remote_win_len :: nat
  remote_win_scale :: "u8 option"
  remote_has_sack :: bool
  remote_mss :: nat
  remote_last_ts :: "instant option"
  local_rx_last_seq :: "seq option"
  local_rx_last_ack :: "seq option"
  local_rx_dup_acks :: nat
  ack_delay :: "duration option"
  ack_delay_timer :: ack_delay_timer
  challenge_ack_timer :: instant
  nagle :: bool
  congestion_controller :: any_controller
  tsval_generator :: bool
  last_remote_tsval :: u32
  synack_paused :: bool

definition DEFAULT_MSS :: nat where "DEFAULT_MSS = 536"

text \<open>\<open>mem::size_of::<usize>() * 8 - n.leading_zeros()\<close>: the number of bits of \<open>n\<close>.\<close>

fun bit_len :: "nat \<Rightarrow> nat" where
  "bit_len n = (if n = 0 then 0 else Suc (bit_len (n div 2)))"

declare bit_len.simps [simp del]

definition win_shift_for :: "nat \<Rightarrow> nat" where
  "win_shift_for capacity = bit_len capacity - 16"

text \<open>
  \<open>Socket::new\<close>; \<open>contigs\<close> is the build-time \<open>ASSEMBLER_MAX_SEGMENT_COUNT\<close>, \<open>reno_feature\<close> the
  cargo feature that selects the congestion controller.
\<close>

definition socket_new ::
  "nat \<Rightarrow> bool \<Rightarrow> u8 ring_buffer \<Rightarrow> u8 ring_buffer \<Rightarrow> tcp_socket option" where
  "socket_new contigs reno_feature rx tx = do {
     panic_unless (rb_capacity rx \<le> 2 ^ 30);
     Some \<lparr>state = Closed, timer = timer_new, rtte = rtt_default, assembler = asm_new contigs,
       rx_buffer = rx, rx_fin_received = False, tx_buffer = tx, timeout = None, keep_alive = None,
       hop_limit = None, listen_endpoint = listen_endpoint_default, tuple = None,
       local_seq_no = 0, remote_seq_no = 0, remote_last_seq = 0, remote_last_ack = None,
       remote_last_win = 0, remote_win_shift = win_shift_for (rb_capacity rx), remote_win_len = 0,
       remote_win_scale = None, remote_has_sack = False, remote_mss = DEFAULT_MSS,
       remote_last_ts = None, local_rx_last_seq = None, local_rx_last_ack = None,
       local_rx_dup_acks = 0, ack_delay = Some ACK_DELAY_DEFAULT, ack_delay_timer = AckIdle,
       challenge_ack_timer = instant_from_secs 0, nagle = True,
       congestion_controller = cc_new reno_feature, tsval_generator = False,
       last_remote_tsval = 0, synack_paused = False\<rparr> }"

section \<open>Options of the socket\<close>

definition set_tsval_generator :: "bool \<Rightarrow> tcp_socket \<Rightarrow> tcp_socket" where
  "set_tsval_generator g s = s\<lparr>tsval_generator := g\<rparr>"

definition timestamp_enabled :: "tcp_socket \<Rightarrow> bool" where
  "timestamp_enabled s \<longleftrightarrow> tsval_generator s"

definition set_congestion_control :: "congestion_control \<Rightarrow> tcp_socket \<Rightarrow> tcp_socket" where
  "set_congestion_control c s = s\<lparr>congestion_controller :=
     (case c of ControlNone \<Rightarrow> CcNone | ControlReno \<Rightarrow> CcReno reno_new)\<rparr>"

definition congestion_control :: "tcp_socket \<Rightarrow> congestion_control" where
  "congestion_control s = (case congestion_controller s of CcNone \<Rightarrow> ControlNone | CcReno _ \<Rightarrow> ControlReno)"

definition pause_synack :: "bool \<Rightarrow> tcp_socket \<Rightarrow> tcp_socket" where
  "pause_synack pause s = s\<lparr>synack_paused := pause\<rparr>"

definition set_timeout :: "duration option \<Rightarrow> tcp_socket \<Rightarrow> tcp_socket" where
  "set_timeout d s = s\<lparr>timeout := d\<rparr>"

definition set_ack_delay :: "duration option \<Rightarrow> tcp_socket \<Rightarrow> tcp_socket" where
  "set_ack_delay d s = s\<lparr>ack_delay := d\<rparr>"

definition set_nagle_enabled :: "bool \<Rightarrow> tcp_socket \<Rightarrow> tcp_socket" where
  "set_nagle_enabled b s = s\<lparr>nagle := b\<rparr>"

definition set_keep_alive :: "duration option \<Rightarrow> tcp_socket \<Rightarrow> tcp_socket" where
  "set_keep_alive interval s =
     (let s = s\<lparr>keep_alive := interval\<rparr>
      in if keep_alive s \<noteq> None then s\<lparr>timer := timer_set_keep_alive (timer s)\<rparr> else s)"

definition set_hop_limit :: "u8 option \<Rightarrow> tcp_socket \<Rightarrow> tcp_socket option" where
  "set_hop_limit h s = do { panic_unless (h \<noteq> Some 0); Some (s\<lparr>hop_limit := h\<rparr>) }"

definition local_endpoint :: "tcp_socket \<Rightarrow> ip_endpoint option" where
  "local_endpoint s = map_option tuple_local (tuple s)"

definition remote_endpoint :: "tcp_socket \<Rightarrow> ip_endpoint option" where
  "remote_endpoint s = map_option tuple_remote (tuple s)"

section \<open>The receive window\<close>

definition scaled_window :: "tcp_socket \<Rightarrow> u16" where
  "scaled_window s = u16_saturate (rb_window (rx_buffer s) div 2 ^ remote_win_shift s)"

text \<open>The outer option is the panic of the subtraction of sequence numbers.\<close>

definition last_scaled_window :: "tcp_socket \<Rightarrow> u16 option option" where
  "last_scaled_window s =
     (case remote_last_ack s of
        None \<Rightarrow> Some None
      | Some last_ack \<Rightarrow> do {
          next_ack \<leftarrow> seq_add (remote_seq_no s) (rb_len (rx_buffer s));
          let last_win = unat (remote_last_win s) * 2 ^ remote_win_shift s;
          edge \<leftarrow> seq_add last_ack last_win;
          last_win_adjusted \<leftarrow> seq_diff edge next_ack;
          Some (Some (u16_saturate (last_win_adjusted div 2 ^ remote_win_shift s))) })"

section \<open>Opening and closing\<close>

definition set_state :: "tcp_state \<Rightarrow> tcp_socket \<Rightarrow> tcp_socket" where
  "set_state st s = s\<lparr>state := st\<rparr>"

definition socket_reset :: "tcp_socket \<Rightarrow> tcp_socket" where
  "socket_reset s = s\<lparr>state := Closed, timer := timer_new, rtte := rtt_default,
     assembler := asm_new (length (assembler s)), tx_buffer := rb_clear (tx_buffer s),
     rx_buffer := rb_clear (rx_buffer s), rx_fin_received := False,
     listen_endpoint := listen_endpoint_default, tuple := None, local_seq_no := 0,
     remote_seq_no := 0, remote_last_seq := 0, remote_last_ack := None, remote_last_win := 0,
     remote_win_len := 0, remote_win_scale := None,
     remote_win_shift := win_shift_for (rb_capacity (rx_buffer s)),
     remote_mss := DEFAULT_MSS, remote_last_ts := None, ack_delay_timer := AckIdle,
     challenge_ack_timer := instant_from_secs 0\<rparr>"

definition is_listening :: "tcp_socket \<Rightarrow> bool" where
  "is_listening s \<longleftrightarrow> state s = Listen"

definition is_open :: "tcp_socket \<Rightarrow> bool" where
  "is_open s \<longleftrightarrow> state s \<notin> {Closed, TimeWait}"

definition is_active :: "tcp_socket \<Rightarrow> bool" where
  "is_active s \<longleftrightarrow> state s \<notin> {Closed, TimeWait, Listen}"

definition may_send :: "tcp_socket \<Rightarrow> bool" where
  "may_send s \<longleftrightarrow> state s \<in> {Established, CloseWait}"

definition may_recv :: "tcp_socket \<Rightarrow> bool" where
  "may_recv s \<longleftrightarrow> state s \<in> {Established, FinWait1, FinWait2} \<or> \<not> rb_is_empty (rx_buffer s)"

definition can_send :: "tcp_socket \<Rightarrow> bool" where
  "can_send s \<longleftrightarrow> may_send s \<and> \<not> rb_is_full (tx_buffer s)"

definition can_recv :: "tcp_socket \<Rightarrow> bool" where
  "can_recv s \<longleftrightarrow> may_recv s \<and> \<not> rb_is_empty (rx_buffer s)"

definition recv_capacity :: "tcp_socket \<Rightarrow> nat" where
  "recv_capacity s = rb_capacity (rx_buffer s)"

definition send_capacity :: "tcp_socket \<Rightarrow> nat" where
  "send_capacity s = rb_capacity (tx_buffer s)"

definition send_queue :: "tcp_socket \<Rightarrow> nat" where
  "send_queue s = rb_len (tx_buffer s)"

definition recv_queue :: "tcp_socket \<Rightarrow> nat" where
  "recv_queue s = rb_len (rx_buffer s)"

definition tcp_listen :: "ip_listen_endpoint \<Rightarrow> tcp_socket \<Rightarrow> (listen_error + unit) \<times> tcp_socket" where
  "tcp_listen endpoint s =
     (if le_port endpoint = 0 then (Inl ListenUnaddressable, s)
      else if is_open s
      then if state s = Listen \<and> listen_endpoint s = endpoint then (Inr (), s)
           else (Inl ListenInvalidState, s)
      else (Inr (), set_state Listen ((socket_reset s)\<lparr>listen_endpoint := endpoint, tuple := None\<rparr>)))"

definition random_seq_no :: "iface_context \<Rightarrow> seq" where
  "random_seq_no cx = cx_rand_u32 cx"

text \<open>The local address of \<open>connect\<close>, chosen automatically when it is not given.\<close>

definition connect_local_addr ::
  "iface_context \<Rightarrow> ip_endpoint \<Rightarrow> ip_listen_endpoint \<Rightarrow> ip_address option" where
  "connect_local_addr cx remote local =
     (case le_addr local of
        Some addr \<Rightarrow> if addr_is_unspecified addr then None else Some addr
      | None \<Rightarrow> cx_source_address cx (ep_addr remote))"

definition tcp_connect ::
  "iface_context \<Rightarrow> ip_endpoint \<Rightarrow> ip_listen_endpoint \<Rightarrow> tcp_socket \<Rightarrow> (connect_error + unit) \<times> tcp_socket" where
  "tcp_connect cx remote local s =
     (if is_open s then (Inl ConnectInvalidState, s)
      else if ep_port remote = 0 \<or> addr_is_unspecified (ep_addr remote)
      then (Inl ConnectUnaddressable, s)
      else if le_port local = 0 then (Inl ConnectUnaddressable, s)
      else case connect_local_addr cx remote local of
        None \<Rightarrow> (Inl ConnectUnaddressable, s)
      | Some addr \<Rightarrow>
          if addr_version addr \<noteq> addr_version (ep_addr remote) then (Inl ConnectUnaddressable, s)
          else let s = (socket_reset s)\<lparr>tuple := Some \<lparr>
                   tuple_local = \<lparr>ep_addr = addr, ep_port = le_port local\<rparr>, tuple_remote = remote\<rparr>\<rparr>;
                   s = set_state SynSent s;
                   seq = random_seq_no cx
               in (Inr (), s\<lparr>local_seq_no := seq, remote_last_seq := seq\<rparr>))"

definition tcp_close :: "tcp_socket \<Rightarrow> tcp_socket" where
  "tcp_close s = (case state s of
       Listen \<Rightarrow> set_state Closed s
     | SynSent \<Rightarrow> set_state Closed s
     | SynReceived \<Rightarrow> set_state FinWait1 s
     | Established \<Rightarrow> set_state FinWait1 s
     | CloseWait \<Rightarrow> set_state LastAck s
     | _ \<Rightarrow> s)"

definition tcp_abort :: "tcp_socket \<Rightarrow> tcp_socket" where
  "tcp_abort s = set_state Closed s"

section \<open>Sending and receiving\<close>

text \<open>
  What \<open>send_impl\<close> does when octets have been enqueued: restart the timeout of a connection that
  was idle, and start the zero-window probe timer. The current time is not available there.
\<close>

definition note_enqueued :: "nat \<Rightarrow> nat \<Rightarrow> tcp_socket \<Rightarrow> tcp_socket" where
  "note_enqueued old_length n s =
     (if n > 0
      then let s = (if old_length = 0 then s\<lparr>remote_last_ts := None\<rparr> else s)
           in if remote_win_len s = 0 \<and> timer_is_idle (timer s)
              then s\<lparr>timer := set_for_zero_window_probe instant_zero (retransmission_timeout (rtte s))\<rparr>
              else s
      else s)"

definition send_impl ::
  "(u8 ring_buffer \<Rightarrow> ((nat \<times> 'r) \<times> u8 ring_buffer) option) \<Rightarrow> tcp_socket
    \<Rightarrow> ((send_error + 'r) \<times> tcp_socket) option" where
  "send_impl f s =
     (if \<not> may_send s then Some (Inl SendInvalidState, s)
      else do {
        let old_length = rb_len (tx_buffer s);
        ((size, result), tx) \<leftarrow> f (tx_buffer s);
        Some (Inr result, note_enqueued old_length size (s\<lparr>tx_buffer := tx\<rparr>)) })"

definition tcp_send ::
  "(u8 list \<Rightarrow> nat \<times> 'r \<times> u8 list) \<Rightarrow> tcp_socket \<Rightarrow> ((send_error + 'r) \<times> tcp_socket) option" where
  "tcp_send f s = send_impl (enqueue_many_with f) s"

definition send_slice ::
  "u8 list \<Rightarrow> tcp_socket \<Rightarrow> ((send_error + nat) \<times> tcp_socket) option" where
  "send_slice data s =
     send_impl (\<lambda>tx. do { (size, tx) \<leftarrow> enqueue_slice data tx; Some ((size, size), tx) }) s"

definition recv_error_check :: "tcp_socket \<Rightarrow> recv_error + unit" where
  "recv_error_check s =
     (if \<not> may_recv s
      then if rx_fin_received s then Inl RecvFinished else Inl RecvInvalidState
      else Inr ())"

definition recv_impl ::
  "(u8 ring_buffer \<Rightarrow> ((nat \<times> 'r) \<times> u8 ring_buffer) option) \<Rightarrow> tcp_socket
    \<Rightarrow> ((recv_error + 'r) \<times> tcp_socket) option" where
  "recv_impl f s =
     (case recv_error_check s of
        Inl e \<Rightarrow> Some (Inl e, s)
      | Inr _ \<Rightarrow> do {
          ((size, result), rx) \<leftarrow> f (rx_buffer s);
          let s = s\<lparr>rx_buffer := rx\<rparr>;
          seq \<leftarrow> seq_add (remote_seq_no s) size;
          Some (Inr result, s\<lparr>remote_seq_no := seq\<rparr>) })"

definition tcp_recv ::
  "(u8 list \<Rightarrow> nat \<times> 'r \<times> u8 list) \<Rightarrow> tcp_socket \<Rightarrow> ((recv_error + 'r) \<times> tcp_socket) option" where
  "tcp_recv f s = recv_impl (dequeue_many_with f) s"

text \<open>The result is the number of octets and the contents of \<open>data\<close> afterwards.\<close>

definition recv_slice ::
  "u8 list \<Rightarrow> tcp_socket \<Rightarrow> ((recv_error + nat \<times> u8 list) \<times> tcp_socket) option" where
  "recv_slice data s =
     recv_impl (\<lambda>rx. do { ((size, out), rx) \<leftarrow> dequeue_slice data rx; Some ((size, (size, out)), rx) }) s"

definition tcp_peek :: "nat \<Rightarrow> tcp_socket \<Rightarrow> recv_error + u8 list" where
  "tcp_peek sz s =
     (case recv_error_check s of
        Inl e \<Rightarrow> Inl e
      | Inr _ \<Rightarrow> Inr (get_allocated 0 sz (rx_buffer s)))"

definition peek_slice :: "u8 list \<Rightarrow> tcp_socket \<Rightarrow> recv_error + nat \<times> u8 list" where
  "peek_slice data s = Inr (read_allocated 0 data (rx_buffer s))"

end
