(* ===== verification/Tcp_Process.thy ===== *)
theory Tcp_Process
  imports Tcp_Socket
begin

text \<open>
  \<open>src/smoltcp/src/socket/tcp.rs\<close>, \<open>accepts\<close>, \<open>process\<close> and the replies: what the socket does with
  an incoming segment. \<open>process\<close> is one long function in the source; here each of its steps is a
  definition, and \<open>process\<close> runs them in the order of the source. A step that may return from
  \<open>process\<close> gives a sum: \<open>Inl\<close> the reply and the socket that \<open>process\<close> returns with, \<open>Inr\<close> what the
  next step goes on with. A panic is \<open>None\<close> as everywhere; \<open>debug_assert!\<close> and \<open>unreachable!\<close> are
  panics too.
\<close>

section \<open>Replies\<close>

type_synonym packet = "ip_repr \<times> tcp_repr"

definition reply :: "ip_repr \<Rightarrow> tcp_repr \<Rightarrow> packet option" where
  "reply ip r = do {
     let reply_repr = \<lparr>src_port = dst_port r, dst_port = src_port r, control = CtlNone,
       seq_number = 0, ack_number = None, window_len = 0, window_scale = None,
       max_seg_size = None, sack_permitted = False, sack_ranges = [None, None, None],
       timestamp = None, payload = []\<rparr>;
     ip_reply_repr \<leftarrow> ip_repr_new (ip_dst_addr ip) (ip_src_addr ip) ProtoTcp (tcp_buffer_len reply_repr) 64;
     Some (ip_reply_repr, reply_repr) }"

definition rst_reply :: "ip_repr \<Rightarrow> tcp_repr \<Rightarrow> packet option" where
  "rst_reply ip r = do {
     panic_unless (control r \<noteq> CtlRst);
     (ip_reply, rep) \<leftarrow> reply ip r;
     let rep = rep\<lparr>control := CtlRst,
                   seq_number := (case ack_number r of Some a \<Rightarrow> a | None \<Rightarrow> 0)\<rparr>;
     if control r = CtlSyn \<and> ack_number r = None
     then do { a \<leftarrow> seq_add (seq_number r) (segment_len r);
               Some (ip_reply, rep\<lparr>ack_number := Some a\<rparr>) }
     else Some (ip_reply, rep) }"

text \<open>
  The SACK block of an ACK: the run of the assembler that holds the last received segment, or
  the first run. The runs are offset by the acknowledgement number (sign-extended to \<open>usize\<close>) and
  truncated to \<open>u32\<close>.
\<close>

definition sack_runs :: "assembler \<Rightarrow> seq \<Rightarrow> (u32 \<times> u32) list" where
  "sack_runs asm ack =
     map (\<lambda>(left, right). (of_nat left, of_nat right))
       (asm_iter_data asm (nat (sint ack mod 2 ^ 64)))"

definition sack_block :: "assembler \<Rightarrow> seq \<Rightarrow> seq option \<Rightarrow> (u32 \<times> u32) option" where
  "sack_block asm ack last_seq =
     (let block = (case last_seq of
            Some last_seg_seq \<Rightarrow>
              find (\<lambda>(left, right). left \<le> last_seg_seq \<and> last_seg_seq \<le> right) (sack_runs asm ack)
          | None \<Rightarrow> None)
      in case block of
           Some b \<Rightarrow> Some b
         | None \<Rightarrow> (case sack_runs asm ack of [] \<Rightarrow> None | b # _ \<Rightarrow> Some b))"

definition ack_reply ::
  "iface_context \<Rightarrow> ip_repr \<Rightarrow> tcp_repr \<Rightarrow> tcp_socket \<Rightarrow> (packet \<times> tcp_socket) option" where
  "ack_reply cx ip r s = do {
     (ip_reply, rep) \<leftarrow> reply ip r;
     let rep = rep\<lparr>timestamp :=
       (case timestamp r of
          Some ts \<Rightarrow> generate_reply ts (if tsval_generator s then Some (cx_tsval cx) else None)
        | None \<Rightarrow> None)\<rparr>;
     ack \<leftarrow> seq_add (remote_seq_no s) (rb_len (rx_buffer s));
     let rep = rep\<lparr>seq_number := remote_last_seq s, ack_number := Some ack\<rparr>;
     let s = s\<lparr>remote_last_ack := Some ack\<rparr>;
     let rep = rep\<lparr>window_len := scaled_window s\<rparr>;
     let s = s\<lparr>remote_last_win := window_len rep\<rparr>;
     let rep = (if remote_has_sack s
                then rep\<lparr>sack_ranges := (sack_ranges rep)
                           [0 := sack_block (assembler s) ack (local_rx_last_seq s)]\<rparr>
                else rep);
     Some ((ip_set_payload_len ip_reply (tcp_buffer_len rep), rep), s) }"

definition challenge_ack_reply ::
  "iface_context \<Rightarrow> ip_repr \<Rightarrow> tcp_repr \<Rightarrow> tcp_socket \<Rightarrow> (packet option \<times> tcp_socket) option" where
  "challenge_ack_reply cx ip r s =
     (if cx_now cx < challenge_ack_timer s then Some (None, s)
      else do {
        let s = s\<lparr>challenge_ack_timer := instant_add (cx_now cx) (duration_from_secs 1)\<rparr>;
        (rep, s) \<leftarrow> ack_reply cx ip r s;
        Some (Some rep, s) })"

definition accepts :: "tcp_socket \<Rightarrow> ip_repr \<Rightarrow> tcp_repr \<Rightarrow> bool" where
  "accepts s ip r \<longleftrightarrow>
     (if state s = Closed then False
      else if state s = Listen \<and> (ack_number r \<noteq> None \<or> control r = CtlRst) then False
      else case tuple s of
        Some t \<Rightarrow> ip_dst_addr ip = ep_addr (tuple_local t) \<and> dst_port r = ep_port (tuple_local t) \<and>
                  ip_src_addr ip = ep_addr (tuple_remote t) \<and> src_port r = ep_port (tuple_remote t)
      | None \<Rightarrow>
          (case le_addr (listen_endpoint s) of Some addr \<Rightarrow> ip_dst_addr ip = addr | None \<Rightarrow> True) \<and>
          dst_port r \<noteq> 0 \<and> dst_port r = le_port (listen_endpoint s))"

section \<open>The steps of \<open>process\<close>\<close>

type_synonym outcome = "packet option \<times> tcp_socket"

text \<open>How much the sequence number space differs from the transmit buffer space.\<close>

definition sent_syn_fin :: "tcp_state \<Rightarrow> bool \<times> bool" where
  "sent_syn_fin st =
     (if st \<in> {SynSent, SynReceived} then (True, False)
      else if st \<in> {FinWait1, LastAck, Closing} then (False, True)
      else (False, False))"

text \<open>Every acknowledgement must be for transmitted but unacknowledged data.\<close>

definition check_ack_range ::
  "iface_context \<Rightarrow> ip_repr \<Rightarrow> tcp_repr \<Rightarrow> seq \<Rightarrow> tcp_socket \<Rightarrow> (outcome + tcp_socket) option" where
  "check_ack_range cx ip r ack s = do {
     let (sent_syn, sent_fin) = sent_syn_fin (state s);
     let unacknowledged = rb_len (tx_buffer s) + (of_bool sent_syn + of_bool sent_fin);
     ack_max \<leftarrow> seq_add (local_seq_no s) unacknowledged;
     ack_min \<leftarrow> (if sent_syn then seq_add (local_seq_no s) 1 else Some (local_seq_no s));
     if seq_lt ack ack_min then Some (Inl (None, s))
     else if seq_gt ack ack_max then map_option Inl (challenge_ack_reply cx ip r s)
     else Some (Inr s) }"

text \<open>Reject unacceptable acknowledgements.\<close>

definition check_ack ::
  "iface_context \<Rightarrow> ip_repr \<Rightarrow> tcp_repr \<Rightarrow> tcp_socket \<Rightarrow> (outcome + tcp_socket) option" where
  "check_ack cx ip r s =
     (case (state s, control r, ack_number r) of
        (SynSent, CtlRst, None) \<Rightarrow> Some (Inl (None, s))
      | (SynSent, CtlRst, Some ack) \<Rightarrow> do {
          expected \<leftarrow> seq_add (local_seq_no s) 1;
          Some (if ack \<noteq> expected then Inl (None, s) else Inr s) }
      | (_, CtlRst, _) \<Rightarrow> Some (Inr s)
      | (Listen, _, None) \<Rightarrow> Some (Inr s)
      | (Listen, _, Some _) \<Rightarrow> None
      | (SynSent, CtlSyn, Some ack) \<Rightarrow> do {
          expected \<leftarrow> seq_add (local_seq_no s) 1;
          if ack \<noteq> expected
          then do { rep \<leftarrow> rst_reply ip r; Some (Inl (Some rep, s)) }
          else Some (Inr s) }
      | (SynSent, CtlSyn, None) \<Rightarrow> Some (Inr s)
      | (SynSent, CtlNone, Some ack) \<Rightarrow> do {
          expected \<leftarrow> seq_add (local_seq_no s) 1;
          if ack = expected then Some (Inl (None, s))
          else do { rep \<leftarrow> rst_reply ip r; Some (Inl (Some rep, s)) } }
      | (SynSent, _, _) \<Rightarrow> Some (Inl (None, s))
      | (_, _, None) \<Rightarrow> Some (Inl (None, s))
      | (SynReceived, _, Some ack) \<Rightarrow> do {
          expected \<leftarrow> seq_add (local_seq_no s) 1;
          if ack \<noteq> expected
          then do { rep \<leftarrow> rst_reply ip r; Some (Inl (Some rep, s)) }
          else Some (Inr s) }
      | (_, _, Some ack) \<Rightarrow> check_ack_range cx ip r ack s)"

text \<open>The acceptability test of RFC 9293 for the segment and the receive window.\<close>

definition segment_in_window :: "seq \<Rightarrow> seq \<Rightarrow> seq \<Rightarrow> seq \<Rightarrow> bool option" where
  "segment_in_window window_start window_end segment_start segment_end = do {
     before \<leftarrow> seq_sub window_start 1;
     Some (if segment_start = segment_end \<and> segment_end = before then False
           else if segment_start = segment_end
           then if window_start = window_end then window_start = segment_start
                else seq_le window_start segment_start \<and> seq_lt segment_start window_end
           else if window_start = window_end then False
           else seq_le window_start segment_start \<and> seq_lt segment_start window_end \<or>
                seq_lt window_start segment_end \<and> seq_le segment_end window_end) }"

text \<open>The part of the segment that lies in the window, and its offset there.\<close>

definition check_segment ::
  "iface_context \<Rightarrow> ip_repr \<Rightarrow> tcp_repr \<Rightarrow> tcp_socket
    \<Rightarrow> (outcome + u8 list \<times> nat \<times> tcp_socket) option" where
  "check_segment cx ip r s = do {
     window_start \<leftarrow> seq_add (remote_seq_no s) (rb_len (rx_buffer s));
     window_end \<leftarrow> seq_add (remote_seq_no s) (rb_capacity (rx_buffer s));
     let segment_start = seq_number r;
     segment_end \<leftarrow> seq_add (seq_number r) (length (payload r));
     if state s \<in> {Listen, SynSent} then Some (Inr ([], 0, s))
     else do {
       in_window \<leftarrow> segment_in_window window_start window_end segment_start segment_end;
       if in_window
       then do {
         let overlap_start = seq_max window_start segment_start;
         let overlap_end = seq_min window_end segment_end;
         panic_unless (seq_le overlap_start overlap_end);
         let s = s\<lparr>local_rx_last_seq := Some (seq_number r)\<rparr>;
         from_byte \<leftarrow> seq_diff overlap_start segment_start;
         to_byte \<leftarrow> seq_diff overlap_end segment_start;
         part \<leftarrow> slice (payload r) from_byte to_byte;
         offset \<leftarrow> seq_diff overlap_start window_start;
         Some (Inr (part, offset, s)) }
       else do {
         let s = (if state s = TimeWait then s\<lparr>timer := set_for_close (cx_now cx)\<rparr> else s);
         map_option Inl (challenge_ack_reply cx ip r s) } } }"

text \<open>The amount of acknowledged octets, without the SYN and FIN bits of the sequence space.\<close>

definition count_acked ::
  "iface_context \<Rightarrow> tcp_repr \<Rightarrow> tcp_socket \<Rightarrow> (nat \<times> bool \<times> bool \<times> tcp_socket) option" where
  "count_acked cx r s =
     (if control r = CtlRst then Some (0, False, False, s)
      else case ack_number r of
        None \<Rightarrow> Some (0, False, False, s)
      | Some ack \<Rightarrow> do {
          let (sent_syn, sent_fin) = sent_syn_fin (state s);
          tx_buffer_start_seq \<leftarrow> seq_add (local_seq_no s) (of_bool sent_syn);
          (ack_len, ack_of_fin, ack_all) \<leftarrow>
            (if seq_ge ack tx_buffer_start_seq
             then do {
               ack_len \<leftarrow> seq_diff ack tx_buffer_start_seq;
               let ack_of_fin = (sent_fin \<and> rb_len (tx_buffer s) + 1 = ack_len);
               Some (if ack_of_fin then ack_len - 1 else ack_len, ack_of_fin,
                     seq_le (remote_last_seq s) ack) }
             else Some (0, False, False));
          let s = s\<lparr>rtte := rtt_on_ack (rtte s) (cx_now cx) ack\<rparr>;
          let s = s\<lparr>congestion_controller :=
                      cc_on_ack (congestion_controller s) (cx_now cx) ack_len (rtte s)\<rparr>;
          Some (ack_len, ack_of_fin, ack_all, s) })"

text \<open>What the control flag becomes: PSH is ignored, and a FIN behind a hole.\<close>

definition effective_control :: "tcp_repr \<Rightarrow> tcp_socket \<Rightarrow> tcp_control option" where
  "effective_control r s = do {
     window_start \<leftarrow> seq_add (remote_seq_no s) (rb_len (rx_buffer s));
     let ctl = quash_psh (control r);
     Some (if ctl = CtlFin \<and> seq_lt window_start (seq_number r) then CtlNone else ctl) }"

text \<open>The maximum segment size and the options of a SYN, in the LISTEN and SYN-SENT states alike.\<close>

definition adopt_mss :: "tcp_repr \<Rightarrow> tcp_socket \<Rightarrow> tcp_socket" where
  "adopt_mss r s = (case max_seg_size r of
      Some mss \<Rightarrow> s\<lparr>remote_mss := unat mss,
                    congestion_controller := cc_set_mss (congestion_controller s) (unat mss)\<rparr>
    | None \<Rightarrow> s)"

definition adopt_options :: "tcp_repr \<Rightarrow> tcp_socket \<Rightarrow> tcp_socket" where
  "adopt_options r s =
     s\<lparr>remote_has_sack := sack_permitted r, remote_win_scale := window_scale r,
       remote_win_shift := (if window_scale r = None then 0 else remote_win_shift s),
       tsval_generator := (if timestamp r = None then False else tsval_generator s)\<rparr>"

text \<open>A SYN in the LISTEN state.\<close>

definition accept_syn ::
  "iface_context \<Rightarrow> ip_repr \<Rightarrow> tcp_repr \<Rightarrow> tcp_socket \<Rightarrow> (outcome + tcp_socket) option" where
  "accept_syn cx ip r s =
     (if max_seg_size r = Some 0 then Some (Inl (None, s))
      else do {
        let s = adopt_mss r s;
        let s = s\<lparr>tuple := Some \<lparr>
            tuple_local = \<lparr>ep_addr = ip_dst_addr ip, ep_port = dst_port r\<rparr>,
            tuple_remote = \<lparr>ep_addr = ip_src_addr ip, ep_port = src_port r\<rparr>\<rparr>\<rparr>;
        let s = s\<lparr>local_seq_no := random_seq_no cx\<rparr>;
        next_seq \<leftarrow> seq_add (seq_number r) 1;
        let s = s\<lparr>remote_seq_no := next_seq, remote_last_seq := local_seq_no s\<rparr>;
        let s = set_state SynReceived (adopt_options r s);
        Some (Inr (s\<lparr>timer := set_for_idle (cx_now cx) (keep_alive s)\<rparr>)) })"

text \<open>A SYN or SYN|ACK in the SYN-SENT state.\<close>

definition accept_synack ::
  "tcp_repr \<Rightarrow> tcp_socket \<Rightarrow> (outcome + tcp_socket) option" where
  "accept_synack r s =
     (if max_seg_size r = Some 0 then Some (Inl (None, s))
      else do {
        let s = adopt_mss r s;
        next_seq \<leftarrow> seq_add (seq_number r) 1;
        next_local \<leftarrow> seq_add (local_seq_no s) 1;
        let s = s\<lparr>remote_seq_no := next_seq, remote_last_seq := next_local,
                 remote_last_ack := Some (seq_number r)\<rparr>;
        let s = adopt_options r s;
        Some (Inr (if ack_number r \<noteq> None then set_state Established s
                   else set_state SynReceived s)) })"

text \<open>The FIN of the remote side takes one sequence number.\<close>

definition receive_fin :: "tcp_socket \<Rightarrow> tcp_socket option" where
  "receive_fin s = do {
     next_seq \<leftarrow> seq_add (remote_seq_no s) 1;
     Some (s\<lparr>remote_seq_no := next_seq, rx_fin_received := True\<rparr>) }"

definition enter_time_wait :: "iface_context \<Rightarrow> tcp_socket \<Rightarrow> tcp_socket" where
  "enter_time_wait cx s = (set_state TimeWait s)\<lparr>timer := set_for_close (cx_now cx)\<rparr>"

text \<open>Validate and update the state.\<close>

definition update_state ::
  "iface_context \<Rightarrow> ip_repr \<Rightarrow> tcp_repr \<Rightarrow> tcp_control \<Rightarrow> bool \<Rightarrow> tcp_socket
    \<Rightarrow> (outcome + tcp_socket) option" where
  "update_state cx ip r ctl ack_of_fin s =
     (case (state s, ctl) of
        (Listen, CtlRst) \<Rightarrow> Some (Inl (None, s))
      | (_, CtlRst) \<Rightarrow>
          if state s = SynReceived \<and> le_port (listen_endpoint s) \<noteq> 0
          then Some (Inl (None, set_state Listen (s\<lparr>tuple := None\<rparr>)))
          else Some (Inl (None, (set_state Closed s)\<lparr>tuple := None\<rparr>))
      | (Listen, CtlSyn) \<Rightarrow> accept_syn cx ip r s
      | (SynReceived, CtlNone) \<Rightarrow> Some (Inr (set_state Established s))
      | (SynReceived, CtlFin) \<Rightarrow> do { s \<leftarrow> receive_fin s; Some (Inr (set_state CloseWait s)) }
      | (SynSent, CtlSyn) \<Rightarrow> accept_synack r s
      | (Established, CtlNone) \<Rightarrow> Some (Inr s)
      | (Established, CtlFin) \<Rightarrow> do { s \<leftarrow> receive_fin s; Some (Inr (set_state CloseWait s)) }
      | (FinWait1, CtlNone) \<Rightarrow> Some (Inr (if ack_of_fin then set_state FinWait2 s else s))
      | (FinWait1, CtlFin) \<Rightarrow> do {
          s \<leftarrow> receive_fin s;
          Some (Inr (if ack_of_fin then enter_time_wait cx s else set_state Closing s)) }
      | (FinWait2, CtlNone) \<Rightarrow> Some (Inr s)
      | (FinWait2, CtlFin) \<Rightarrow> do { s \<leftarrow> receive_fin s; Some (Inr (enter_time_wait cx s)) }
      | (Closing, CtlNone) \<Rightarrow> Some (Inr (if ack_of_fin then enter_time_wait cx s else s))
      | (CloseWait, CtlNone) \<Rightarrow> Some (Inr s)
      | (LastAck, CtlNone) \<Rightarrow>
          Some (Inr (if ack_of_fin then (set_state Closed s)\<lparr>tuple := None\<rparr> else s))
      | _ \<Rightarrow> Some (Inl (None, s)))"

text \<open>Update the remote window and drop the acknowledged octets; also: is it a window update?\<close>

definition update_remote ::
  "iface_context \<Rightarrow> tcp_repr \<Rightarrow> nat \<Rightarrow> tcp_socket \<Rightarrow> (bool \<times> tcp_socket) option" where
  "update_remote cx r ack_len s = do {
     let s = s\<lparr>remote_last_ts := Some (cx_now cx)\<rparr>;
     let scale = (if control r = CtlSyn then 0
                  else case remote_win_scale s of Some sc \<Rightarrow> unat sc | None \<Rightarrow> 0);
     let new_remote_win_len = unat (window_len r) * 2 ^ scale;
     let is_window_update = (new_remote_win_len \<noteq> remote_win_len s);
     let s = s\<lparr>remote_win_len := new_remote_win_len\<rparr>;
     let s = s\<lparr>congestion_controller :=
                 cc_set_remote_window (congestion_controller s) new_remote_win_len\<rparr>;
     s \<leftarrow> (if ack_len > 0
          then do { panic_unless (ack_len \<le> rb_len (tx_buffer s));
                    tx \<leftarrow> dequeue_allocated ack_len (tx_buffer s);
                    Some (s\<lparr>tx_buffer := tx\<rparr>) }
          else Some s);
     Some (is_window_update, s) }"

text \<open>Duplicate acknowledgements, and the new left edge of the transmit window.\<close>

definition update_ack ::
  "iface_context \<Rightarrow> tcp_repr \<Rightarrow> bool \<Rightarrow> tcp_socket \<Rightarrow> tcp_socket" where
  "update_ack cx r is_window_update s =
     (case ack_number r of
        None \<Rightarrow> s
      | Some ack \<Rightarrow>
          let s = (if local_rx_last_ack s = Some ack \<and> payload r = [] \<and>
                      seq_lt ack (remote_last_seq s) \<and> \<not> is_window_update
                   then let s = s\<lparr>local_rx_dup_acks := min 255 (local_rx_dup_acks s + 1)\<rparr>;
                            s = s\<lparr>congestion_controller :=
                                    cc_on_duplicate_ack (congestion_controller s) (cx_now cx)\<rparr>
                        in if local_rx_dup_acks s = 3
                           then s\<lparr>timer := set_for_fast_retransmit\<rparr> else s
                   else let s = (if local_rx_dup_acks s > 0 then s\<lparr>local_rx_dup_acks := 0\<rparr> else s)
                        in s\<lparr>local_rx_last_ack := Some ack\<rparr>);
              s = s\<lparr>local_seq_no := ack\<rparr>
          in if seq_lt (remote_last_seq s) (local_seq_no s)
             then s\<lparr>remote_last_seq := local_seq_no s\<rparr> else s)"

definition update_timers ::
  "iface_context \<Rightarrow> tcp_repr \<Rightarrow> nat \<Rightarrow> bool \<Rightarrow> tcp_socket \<Rightarrow> tcp_socket" where
  "update_timers cx r ack_len ack_all s =
     (let s = (case timestamp r of Some ts \<Rightarrow> s\<lparr>last_remote_tsval := tsval ts\<rparr> | None \<Rightarrow> s);
          s = (if timer_is_retransmit (timer s)
               then if ack_all then s\<lparr>timer := set_for_idle (cx_now cx) (keep_alive s)\<rparr>
                    else if ack_len > 0
                    then s\<lparr>timer := set_for_retransmit (timer s) (cx_now cx)
                                      (retransmission_timeout (rtte s))\<rparr>
                    else s
               else if timer_is_idle (timer s)
               then s\<lparr>timer := set_for_idle (cx_now cx) (keep_alive s)\<rparr>
               else s);
          s = (if remote_win_len s = 0 \<and> \<not> rb_is_empty (tx_buffer s) \<and>
                  (timer_is_idle (timer s) \<or> ack_len > 0)
               then s\<lparr>timer := set_for_zero_window_probe (cx_now cx) (retransmission_timeout (rtte s))\<rparr>
               else s)
      in if remote_win_len s \<noteq> 0 \<and> timer_is_zero_window_probe (timer s)
         then s\<lparr>timer := set_for_idle (cx_now cx) (keep_alive s)\<rparr>
         else s)"

definition delayed_ack_expired :: "instant \<Rightarrow> tcp_socket \<Rightarrow> bool" where
  "delayed_ack_expired now s =
     (case ack_delay_timer s of AckIdle \<Rightarrow> True | AckWaiting t \<Rightarrow> t \<le> now | AckImmediate \<Rightarrow> True)"

definition ack_to_transmit :: "tcp_socket \<Rightarrow> bool option" where
  "ack_to_transmit s =
     (case remote_last_ack s of
        Some last_ack \<Rightarrow> do {
          next_ack \<leftarrow> seq_add (remote_seq_no s) (rb_len (rx_buffer s));
          Some (seq_lt last_ack next_ack) }
      | None \<Rightarrow> Some False)"

definition immediate_ack_to_transmit :: "tcp_socket \<Rightarrow> bool option" where
  "immediate_ack_to_transmit s =
     (case remote_last_ack s of
        Some last_ack \<Rightarrow> do {
          limit \<leftarrow> seq_add last_ack (remote_mss s);
          next_ack \<leftarrow> seq_add (remote_seq_no s) (rb_len (rx_buffer s));
          Some (seq_lt limit next_ack) }
      | None \<Rightarrow> Some False)"

text \<open>Delayed ACKs.\<close>

definition update_ack_delay :: "iface_context \<Rightarrow> tcp_socket \<Rightarrow> tcp_socket option" where
  "update_ack_delay cx s =
     (case ack_delay s of
        None \<Rightarrow> Some s
      | Some delay \<Rightarrow> do {
          want \<leftarrow> ack_to_transmit s;
          if want
          then (case ack_delay_timer s of
                  AckIdle \<Rightarrow> Some (s\<lparr>ack_delay_timer := AckWaiting (instant_add (cx_now cx) delay)\<rparr>)
                | AckWaiting t \<Rightarrow> do {
                    immediate \<leftarrow> immediate_ack_to_transmit s;
                    Some (if immediate then s\<lparr>ack_delay_timer := AckImmediate\<rparr> else s) }
                | AckImmediate \<Rightarrow> Some s)
          else Some s })"

text \<open>
  Add the octets to the assembler and write them to the receive buffer, then move the contiguous
  ones to the front of it. \<open>None\<close> inside the panic option: the assembler has too many holes.
\<close>

fun store_payload ::
  "nat \<Rightarrow> u8 list \<Rightarrow> u8 ring_buffer \<times> assembler \<Rightarrow> (u8 ring_buffer \<times> assembler) option option" where
  "store_payload offset part (rx, asm) = do {
     res \<leftarrow> asm_add_then_remove_front asm offset (length part);
     case res of
       Inl _ \<Rightarrow> Some None
     | Inr (contig_len, asm) \<Rightarrow> do {
         let (len_written, rx) = write_unallocated offset part rx;
         panic_unless (len_written = length part);
         rx \<leftarrow> (if contig_len \<noteq> 0 then enqueue_unallocated contig_len rx else Some rx);
         Some (Some (rx, asm)) } }"

declare store_payload.simps [simp del]

text \<open>Store the octets, and acknowledge them immediately if required.\<close>

definition receive_payload ::
  "iface_context \<Rightarrow> ip_repr \<Rightarrow> tcp_repr \<Rightarrow> u8 list \<Rightarrow> nat \<Rightarrow> tcp_socket \<Rightarrow> outcome option" where
  "receive_payload cx ip r part offset s =
     (if part = [] then Some (None, s)
      else do {
        let assembler_was_empty = asm_is_empty (assembler s);
        res \<leftarrow> store_payload offset part (rx_buffer s, assembler s);
        case res of
          None \<Rightarrow> Some (None, s)
        | Some (rx, asm) \<Rightarrow> do {
            s \<leftarrow> update_ack_delay cx (s\<lparr>rx_buffer := rx, assembler := asm\<rparr>);
            if \<not> asm_is_empty (assembler s) \<or> \<not> assembler_was_empty
            then do { (rep, s) \<leftarrow> ack_reply cx ip r s; Some (Some rep, s) }
            else Some (None, s) } })"

section \<open>\<open>process\<close>\<close>

text \<open>The steps behind the checks of the acknowledgement and of the receive window.\<close>

definition process_accepted ::
  "iface_context \<Rightarrow> ip_repr \<Rightarrow> tcp_repr \<Rightarrow> u8 list \<Rightarrow> nat \<Rightarrow> tcp_socket \<Rightarrow> outcome option" where
  "process_accepted cx ip r part offset s = do {
     (ack_len, ack_of_fin, ack_all, s) \<leftarrow> count_acked cx r s;
     ctl \<leftarrow> effective_control r s;
     res \<leftarrow> update_state cx ip r ctl ack_of_fin s;
     case res of
       Inl out \<Rightarrow> Some out
     | Inr s \<Rightarrow> do {
         (is_window_update, s) \<leftarrow> update_remote cx r ack_len s;
         let s = update_ack cx r is_window_update s;
         let s = update_timers cx r ack_len ack_all s;
         receive_payload cx ip r part offset s } }"

definition process :: "iface_context \<Rightarrow> ip_repr \<Rightarrow> tcp_repr \<Rightarrow> tcp_socket \<Rightarrow> outcome option" where
  "process cx ip r s = do {
     panic_unless (accepts s ip r);
     res \<leftarrow> check_ack cx ip r s;
     case res of
       Inl out \<Rightarrow> Some out
     | Inr s \<Rightarrow> do {
         res \<leftarrow> check_segment cx ip r s;
         case res of
           Inl out \<Rightarrow> Some out
         | Inr (part, offset, s) \<Rightarrow> process_accepted cx ip r part offset s } }"

end
