(* ===== verification/Tcp_Invariant.thy ===== *)
theory Tcp_Invariant
  imports Tcp_Process
begin

text \<open>
  The invariant of a TCP socket, and what each step of \<open>process\<close> does to it: no step panics, and
  all of them keep it. The invariant has three parts: the receive half (ring buffer and
  assembler), the transmit half (ring buffer and the span of sequence numbers in flight) and the
  parameters learned from the remote side.
\<close>

section \<open>The invariant\<close>

definition rx_ok :: "u8 ring_buffer \<Rightarrow> assembler \<Rightarrow> bool" where
  "rx_ok rx asm \<longleftrightarrow> rb_inv rx \<and> rb_capacity rx \<le> 2 ^ 30 \<and> asm_inv asm \<and>
     asm_extent asm \<le> rb_window rx"

text \<open>The SYN or FIN that may be in flight after the data.\<close>

definition ctl_in_flight :: "tcp_state \<Rightarrow> nat" where
  "ctl_in_flight st = (if st \<in> {Established, CloseWait, FinWait2, TimeWait} then 0 else 1)"

definition tx_ok :: "tcp_state \<Rightarrow> u8 ring_buffer \<Rightarrow> seq \<Rightarrow> seq \<Rightarrow> bool" where
  "tx_ok st tx una nxt \<longleftrightarrow> rb_inv tx \<and> rb_capacity tx \<le> 2 ^ 31 - 2 \<and>
     0 \<le> sint (nxt - una) \<and> sint (nxt - una) \<le> int (rb_len tx + ctl_in_flight st)"

definition peer_ok :: "nat \<Rightarrow> u8 option \<Rightarrow> nat \<Rightarrow> nat \<Rightarrow> any_controller \<Rightarrow> rtt_estimator \<Rightarrow> bool" where
  "peer_ok mss scale win shift cc rtt \<longleftrightarrow> 0 < mss \<and> mss \<le> 65535 \<and>
     (\<forall>sc. scale = Some sc \<longrightarrow> unat sc \<le> 14) \<and> win < 2 ^ 31 \<and> shift \<le> 15 \<and> cc_inv cc \<and> rtt_inv rtt"

definition tuple_ok :: "tcp_tuple option \<Rightarrow> bool" where
  "tuple_ok t \<longleftrightarrow> (\<forall>p. t = Some p \<longrightarrow>
     addr_version (ep_addr (tuple_local p)) = addr_version (ep_addr (tuple_remote p)))"

text \<open>
  Before the connection is synchronized there is no data in either direction; and the FIN of the
  remote side has been received only in the states that follow it.
\<close>

definition unsynced_ok :: "tcp_state \<Rightarrow> u8 ring_buffer \<Rightarrow> u8 ring_buffer \<Rightarrow> assembler \<Rightarrow> bool \<Rightarrow> bool" where
  "unsynced_ok st rx tx asm fin \<longleftrightarrow> (st \<in> {Listen, SynSent, SynReceived} \<longrightarrow>
     rb_len rx = 0 \<and> rb_len tx = 0 \<and> asm_extent asm = 0 \<and> \<not> fin) \<and>
     (fin \<longrightarrow> st \<notin> {Established, FinWait1, FinWait2})"

definition tcp_inv :: "tcp_socket \<Rightarrow> bool" where
  "tcp_inv s \<longleftrightarrow> rx_ok (rx_buffer s) (assembler s) \<and>
     tx_ok (state s) (tx_buffer s) (local_seq_no s) (remote_last_seq s) \<and>
     peer_ok (remote_mss s) (remote_win_scale s) (remote_win_len s) (remote_win_shift s)
       (congestion_controller s) (rtte s) \<and>
     tuple_ok (tuple s) \<and>
     unsynced_ok (state s) (rx_buffer s) (tx_buffer s) (assembler s) (rx_fin_received s)"

text \<open>
  What \<open>Repr::parse\<close> guarantees of a segment: it came in an IP packet, perhaps put together from fragments, the last
  of which may begin at an offset of almost 64 KiB; and a window scale above 14 has been reduced.
\<close>

definition segment_ok :: "tcp_repr \<Rightarrow> bool" where
  "segment_ok r \<longleftrightarrow> length (payload r) \<le> 131072 \<and> (\<forall>sc. window_scale r = Some sc \<longrightarrow> unat sc \<le> 14)"

lemma bit_len_bound: "n < 2 ^ k \<Longrightarrow> bit_len n \<le> k"
proof (induction n arbitrary: k rule: bit_len.induct)
  case (1 n)
  show ?case
  proof (cases k)
    case (Suc j)
    then have "n \<noteq> 0 \<Longrightarrow> bit_len (n div 2) \<le> j" using 1 by simp
    with Suc show ?thesis by (subst bit_len.simps) simp
  qed (use 1 in \<open>subst bit_len.simps, simp\<close>)
qed

lemma bit_len_pow: "n < 2 ^ bit_len n"
proof (induction n rule: bit_len.induct)
  case (1 n)
  then show ?case by (subst bit_len.simps) auto
qed

lemma win_shift_for_le: "n \<le> 2 ^ 30 \<Longrightarrow> win_shift_for n \<le> 15"
  using bit_len_bound [of n 31] by (simp add: win_shift_for_def)

lemma asm_new_props [simp]:
  "0 < n \<Longrightarrow> asm_inv (asm_new n)" "asm_extent (asm_new n) = 0" "asm_cover b (asm_new n) = {}"
  using asm_invI [of "[]" n] by (simp_all add: asm_new_def)

lemma socket_reset_inv:
  assumes "tcp_inv s"
  shows "tcp_inv (socket_reset s)"
proof -
  have "0 < length (assembler s)" using assms by (simp add: tcp_inv_def rx_ok_def asm_inv_def)
  with assms show ?thesis
    by (simp add: tcp_inv_def rx_ok_def tx_ok_def peer_ok_def tuple_ok_def unsynced_ok_def
        socket_reset_def ctl_in_flight_def rb_len_def rb_window_def DEFAULT_MSS_def win_shift_for_le)
qed

section \<open>Operations of the user\<close>

lemma socket_new_inv:
  assumes "socket_new contigs f rx tx = Some s" and "0 < contigs"
    and "rb_inv rx" and "rb_inv tx" and "rb_capacity tx \<le> 2 ^ 31 - 2"
  shows "tcp_inv s"
  using assms
  by (auto simp: socket_new_def panic_unless_def tcp_inv_def rx_ok_def tx_ok_def peer_ok_def
      tuple_ok_def unsynced_ok_def ctl_in_flight_def DEFAULT_MSS_def win_shift_for_le split: if_splits)

lemma tcp_listen_inv:
  assumes "tcp_inv s"
  shows "tcp_inv (snd (tcp_listen e s))"
proof -
  note reset = socket_reset_inv [OF assms]
  have "rb_len (rx_buffer (socket_reset s)) = 0" "rb_len (tx_buffer (socket_reset s)) = 0"
    "asm_extent (assembler (socket_reset s)) = 0" "\<not> rx_fin_received (socket_reset s)"
    "state (socket_reset s) = Closed"
    by (simp_all add: socket_reset_def rb_len_def)
  with reset have "tcp_inv (set_state Listen ((socket_reset s)\<lparr>listen_endpoint := e, tuple := None\<rparr>))"
    by (simp add: tcp_inv_def set_state_def tx_ok_def ctl_in_flight_def unsynced_ok_def tuple_ok_def)
  with assms show ?thesis by (simp add: tcp_listen_def)
qed

lemma tcp_connect_inv:
  assumes "tcp_inv s"
  shows "tcp_inv (snd (tcp_connect cx remote local s))"
proof -
  note reset = socket_reset_inv [OF assms]
  have "rb_len (rx_buffer (socket_reset s)) = 0" "rb_len (tx_buffer (socket_reset s)) = 0"
    "asm_extent (assembler (socket_reset s)) = 0" "\<not> rx_fin_received (socket_reset s)"
    by (simp_all add: socket_reset_def rb_len_def)
  with reset assms show ?thesis
    by (auto simp: tcp_connect_def Let_def tcp_inv_def set_state_def tx_ok_def unsynced_ok_def
        tuple_ok_def split: option.splits)
qed

lemma tcp_close_inv: "tcp_inv s \<Longrightarrow> tcp_inv (tcp_close s)"
  by (cases "state s") (auto simp: tcp_close_def set_state_def tcp_inv_def tx_ok_def
      ctl_in_flight_def unsynced_ok_def)

lemma tcp_abort_inv: "tcp_inv s \<Longrightarrow> tcp_inv (tcp_abort s)"
  by (auto simp: tcp_abort_def set_state_def tcp_inv_def tx_ok_def ctl_in_flight_def
      unsynced_ok_def split: if_splits)

lemma note_enqueued_fields [simp]:
  "state (note_enqueued l n s) = state s" "rx_buffer (note_enqueued l n s) = rx_buffer s"
  "tx_buffer (note_enqueued l n s) = tx_buffer s" "assembler (note_enqueued l n s) = assembler s"
  "local_seq_no (note_enqueued l n s) = local_seq_no s" "remote_seq_no (note_enqueued l n s) = remote_seq_no s"
  "remote_last_seq (note_enqueued l n s) = remote_last_seq s" "remote_mss (note_enqueued l n s) = remote_mss s"
  "remote_win_scale (note_enqueued l n s) = remote_win_scale s"
  "remote_win_len (note_enqueued l n s) = remote_win_len s"
  "remote_win_shift (note_enqueued l n s) = remote_win_shift s"
  "congestion_controller (note_enqueued l n s) = congestion_controller s"
  "rtte (note_enqueued l n s) = rtte s" "tuple (note_enqueued l n s) = tuple s"
  "rx_fin_received (note_enqueued l n s) = rx_fin_received s"
  by (simp_all add: note_enqueued_def Let_def)

lemma send_slice_inv:
  assumes inv: "tcp_inv s"
  obtains res s' where "send_slice data s = Some (res, s')" and "tcp_inv s'"
    and "res = (if may_send s then Inr (min (length data) (rb_window (tx_buffer s)))
                else Inl SendInvalidState)"
    and "rb_list (tx_buffer s') = rb_list (tx_buffer s) @
           (if may_send s then take (rb_window (tx_buffer s)) data else [])"
    and "rx_buffer s' = rx_buffer s" "assembler s' = assembler s" "remote_seq_no s' = remote_seq_no s"
      "rx_fin_received s' = rx_fin_received s" "state s' = state s" "local_seq_no s' = local_seq_no s"
      "remote_last_seq s' = remote_last_seq s"
proof (cases "may_send s")
  case False
  with inv show thesis by (intro that) (auto simp: send_slice_def send_impl_def)
next
  case True
  define n where "n = min (length data) (rb_window (tx_buffer s))"
  have "rb_inv (tx_buffer s)" using inv by (simp add: tcp_inv_def tx_ok_def)
  then obtain tx where tx: "enqueue_slice data (tx_buffer s) = Some (n, tx)" "rb_inv tx"
    "rb_list tx = rb_list (tx_buffer s) @ take n data" "rb_capacity tx = rb_capacity (tx_buffer s)"
    using enqueue_slice_spec n_def by metis
  have len: "rb_len tx = rb_len (tx_buffer s) + n"
    using arg_cong [OF tx(3), of length] by (simp add: rb_len_def n_def)
  have take_n: "take n data = take (rb_window (tx_buffer s)) data"
    by (simp add: n_def min_def)
  let ?s = "note_enqueued (rb_len (tx_buffer s)) n (s\<lparr>tx_buffer := tx\<rparr>)"
  have "send_slice data s = Some (Inr n, ?s)"
    using True tx(1) by (simp add: send_slice_def send_impl_def)
  moreover have "tcp_inv ?s"
    using inv tx len True
    by (auto simp: tcp_inv_def tx_ok_def unsynced_ok_def may_send_def)
  ultimately show thesis
    using True by (intro that [of "Inr n" ?s]) (simp_all add: tx(3) take_n flip: n_def)
qed

lemma rx_ok_drop:
  assumes "rx_ok rx asm" and "n \<le> rb_length rx"
  shows "rx_ok (rb_drop n rx) asm"
  using assms rb_drop_props [of rx n] by (auto simp: rx_ok_def rb_window_def rb_len_def)

lemma recv_slice_inv:
  assumes inv: "tcp_inv s"
  obtains (error) e where "recv_slice data s = Some (Inl e, s)" "\<not> may_recv s"
      "e = (if rx_fin_received s then RecvFinished else RecvInvalidState)"
  | (ok) n s' where "recv_slice data s = Some (Inr (n, overwrite data 0 (take n (rb_list (rx_buffer s)))), s')"
      and "may_recv s" and "n = min (length data) (rb_len (rx_buffer s))" and "tcp_inv s'"
      and "s' = s\<lparr>rx_buffer := rb_drop n (rx_buffer s), remote_seq_no := remote_seq_no s + of_nat n\<rparr>"
proof (cases "may_recv s")
  case False
  then show thesis by (intro error) (auto simp: recv_slice_def recv_impl_def recv_error_check_def)
next
  case True
  define n where "n = min (length data) (rb_len (rx_buffer s))"
  define s' where "s' = s\<lparr>rx_buffer := rb_drop n (rx_buffer s), remote_seq_no := remote_seq_no s + of_nat n\<rparr>"
  have rx: "rx_ok (rx_buffer s) (assembler s)" using inv by (simp add: tcp_inv_def)
  then have rb: "rb_inv (rx_buffer s)" "rb_len (rx_buffer s) \<le> 2 ^ 30"
    by (auto simp: rx_ok_def rb_inv_def rb_len_def)
  have "dequeue_slice data (rx_buffer s)
      = Some ((n, overwrite data 0 (take n (rb_list (rx_buffer s)))), rb_drop n (rx_buffer s))"
    using dequeue_slice_spec [OF rb(1), of n data] by (simp add: n_def rb_len_def)
  moreover have "n < 2 ^ 31" using rb by (simp add: n_def)
  ultimately have "recv_slice data s
      = Some (Inr (n, overwrite data 0 (take n (rb_list (rx_buffer s)))), s')"
    using True by (simp add: recv_slice_def recv_impl_def recv_error_check_def s'_def)
  moreover have "tcp_inv s'"
  proof -
    have "rx_ok (rb_drop n (rx_buffer s)) (assembler s)"
      by (rule rx_ok_drop [OF rx]) (simp add: n_def rb_len_def)
    then show ?thesis
      using inv rb_drop_props(4) [OF rb(1), of n]
      by (auto simp: s'_def tcp_inv_def unsynced_ok_def rb_len_def n_def)
  qed
  ultimately show thesis using True n_def s'_def by (intro ok) auto
qed

section \<open>The steps of \<open>process\<close>\<close>

text \<open>The fields the invariant and the receive path depend on.\<close>

definition core :: "tcp_socket \<Rightarrow> _" where
  "core s = (state s, rx_buffer s, assembler s, tx_buffer s, rx_fin_received s,
     (local_seq_no s, remote_seq_no s, remote_last_seq s),
     (remote_mss s, remote_win_scale s, remote_win_len s, remote_win_shift s),
     congestion_controller s, rtte s, tuple s, listen_endpoint s)"

lemma core_inv: "core s' = core s \<Longrightarrow> tcp_inv s' = tcp_inv s"
  by (simp add: core_def tcp_inv_def)

lemma core_fields:
  assumes "core s' = core s"
  shows "state s' = state s" "rx_buffer s' = rx_buffer s" "assembler s' = assembler s"
    "tx_buffer s' = tx_buffer s" "rx_fin_received s' = rx_fin_received s"
    "local_seq_no s' = local_seq_no s" "remote_seq_no s' = remote_seq_no s"
    "remote_last_seq s' = remote_last_seq s"
  using assms by (simp_all add: core_def)

lemma reply_ok:
  obtains ip' rep where "reply ip r = Some (ip', rep)" and "payload rep = []" and "control rep = CtlNone"
proof -
  have v: "addr_version (ip_dst_addr ip) = addr_version (ip_src_addr ip)" by simp
  show thesis
    using ip_repr_new_Some [OF v] that by (auto simp: reply_def Let_def bind_eq_Some_conv)
qed

lemma rx_len_bound: "rx_ok rx asm \<Longrightarrow> rb_len rx < 2 ^ 31" "rx_ok rx asm \<Longrightarrow> rb_capacity rx < 2 ^ 31"
  by (auto simp: rx_ok_def rb_inv_def rb_len_def)

lemma ack_reply_ok:
  assumes "rx_ok (rx_buffer s) (assembler s)"
  obtains rep s' where "ack_reply cx ip r s = Some (rep, s')" and "core s' = core s"
    and "s' = s\<lparr>remote_last_ack := Some (remote_seq_no s + of_nat (rb_len (rx_buffer s))),
                remote_last_win := scaled_window s\<rparr>"
    and "ack_number (snd rep) = Some (remote_seq_no s + of_nat (rb_len (rx_buffer s)))"
    and "window_len (snd rep) = scaled_window s" and "payload (snd rep) = []"
    and "seq_number (snd rep) = remote_last_seq s" and "control (snd rep) = CtlNone"
proof -
  obtain ip' rep0 where "reply ip r = Some (ip', rep0)" "payload rep0 = []" "control rep0 = CtlNone"
    using reply_ok by blast
  then show thesis
    using rx_len_bound [OF assms]
    by (intro that) (auto simp: ack_reply_def Let_def core_def scaled_window_def)
qed

lemma challenge_ack_reply_ok:
  assumes "rx_ok (rx_buffer s) (assembler s)"
  obtains rep s' where "challenge_ack_reply cx ip r s = Some (rep, s')" and "core s' = core s"
proof (cases "cx_now cx < challenge_ack_timer s")
  case True
  then show thesis by (intro that [of None s]) (simp_all add: challenge_ack_reply_def)
next
  case False
  let ?s = "s\<lparr>challenge_ack_timer := instant_add (cx_now cx) (duration_from_secs 1)\<rparr>"
  have "rx_ok (rx_buffer ?s) (assembler ?s)" using assms by simp
  from ack_reply_ok [OF this] obtain rep s' where
    "ack_reply cx ip r ?s = Some (rep, s')" "core s' = core ?s" by blast
  with False show thesis
    by (intro that [of "Some rep" s']) (simp_all add: challenge_ack_reply_def core_def)
qed

lemma rst_reply_Some:
  assumes "control r \<noteq> CtlRst" and "segment_ok r"
  obtains rep where "rst_reply ip r = Some rep"
proof -
  have "segment_len r < 2 ^ 31"
    using assms control_len_le [of "control r"] by (simp add: segment_len_def segment_ok_def)
  moreover obtain ip' rep where "reply ip r = Some (ip', rep)" using reply_ok by blast
  ultimately show thesis
    using assms that by (cases "control r = CtlSyn \<and> ack_number r = None") (auto simp: rst_reply_def Let_def)
qed

text \<open>What an acknowledgement that passes \<open>check_ack\<close> acknowledges.\<close>

definition ack_ok :: "tcp_socket \<Rightarrow> tcp_repr \<Rightarrow> bool" where
  "ack_ok s r \<longleftrightarrow> (case ack_number r of
      None \<Rightarrow> state s \<in> {Listen, SynSent}
    | Some ack \<Rightarrow> state s \<noteq> Listen \<and>
        (if state s \<in> {SynSent, SynReceived} then ack = local_seq_no s + 1
         else \<exists>k \<le> rb_len (tx_buffer s) + of_bool (snd (sent_syn_fin (state s))).
                ack = local_seq_no s + of_nat k))"

lemma ack_in_range:
  fixes a l :: seq
  assumes "\<not> seq_lt a l" and "\<not> seq_gt a (l + of_nat u)" and "u < 2 ^ 31"
  shows "\<exists>k \<le> u. a = l + of_nat k"
proof -
  obtain j where j: "a = l + of_int j" "- (2 ^ 31) \<le> j" "j < 2 ^ 31" using seq_dist_exists by blast
  have "0 \<le> j" using assms(1) j seq_lt_dist [of j 0 l] by simp
  moreover have "j \<le> int u"
    using assms(2,3) j \<open>0 \<le> j\<close> seq_gt_dist [of j "int u" l] by auto
  ultimately show ?thesis using j(1) by (intro exI [of _ "nat j"]) auto
qed

lemma ack_in_range_conv:
  fixes a l :: seq
  assumes "u < 2 ^ 31"
  shows "(\<exists>k \<le> u. a = l + of_nat k) \<longleftrightarrow> \<not> seq_lt a l \<and> \<not> seq_gt a (l + of_nat u)"
proof
  assume "\<exists>k \<le> u. a = l + of_nat k"
  then obtain k where "k \<le> u" "a = l + of_int (int k)" by auto
  then show "\<not> seq_lt a l \<and> \<not> seq_gt a (l + of_nat u)"
    using assms seq_lt_dist [of "int k" 0 l] seq_gt_dist [of "int k" "int u" l] by simp
qed (use assms ack_in_range in blast)

lemma check_ack_range_ok:
  assumes inv: "tcp_inv s" and st: "state s \<notin> {Listen, SynSent, SynReceived}"
    and ack: "ack_number r = Some ack"
  obtains (early) rep s' where "check_ack_range cx ip r ack s = Some (Inl (rep, s'))" "core s' = core s" "\<not> ack_ok s r"
  | (go) "check_ack_range cx ip r ack s = Some (Inr s)" "ack_ok s r"
proof -
  define u where "u = rb_len (tx_buffer s) + of_bool (snd (sent_syn_fin (state s)))"
  have syn: "fst (sent_syn_fin (state s)) = False" using st by (auto simp: sent_syn_fin_def)
  have "rb_len (tx_buffer s) \<le> 2 ^ 31 - 2"
    using inv by (auto simp: tcp_inv_def tx_ok_def rb_inv_def rb_len_def)
  then have u: "u < 2 ^ 31" by (simp add: u_def)
  obtain rep s' where ch: "challenge_ack_reply cx ip r s = Some (rep, s')" "core s' = core s"
    using challenge_ack_reply_ok inv by (metis tcp_inv_def)
  have eq: "check_ack_range cx ip r ack s =
      (if seq_lt ack (local_seq_no s) then Some (Inl (None, s))
       else if seq_gt ack (local_seq_no s + of_nat u) then Some (Inl (rep, s')) else Some (Inr s))"
    using syn u ch by (simp add: check_ack_range_def split_def Let_def u_def)
  have ok: "ack_ok s r \<longleftrightarrow> \<not> seq_lt ack (local_seq_no s) \<and> \<not> seq_gt ack (local_seq_no s + of_nat u)"
    unfolding ack_in_range_conv [OF u, symmetric] using st ack by (simp add: ack_ok_def u_def)
  consider "seq_lt ack (local_seq_no s)" | "\<not> seq_lt ack (local_seq_no s)" "seq_gt ack (local_seq_no s + of_nat u)"
    | "\<not> seq_lt ack (local_seq_no s)" "\<not> seq_gt ack (local_seq_no s + of_nat u)" by blast
  then show thesis
  proof cases
    case 3
    with ok show thesis using eq by (intro go) auto
  qed (use eq ch ok early in auto)
qed

lemma check_ack_ok:
  assumes inv: "tcp_inv s" and seg: "segment_ok r" and acc: "accepts s ip r"
  obtains (early) rep s' where "check_ack cx ip r s = Some (Inl (rep, s'))" "core s' = core s"
      "state s \<notin> {Listen, SynSent, SynReceived} \<longrightarrow> \<not> ack_ok s r"
  | (go) "check_ack cx ip r s = Some (Inr s)" "control r = CtlRst \<or> ack_ok s r"
      "state s = SynSent \<longrightarrow> control r \<in> {CtlSyn, CtlRst}"
proof -
  have acc': "state s \<noteq> Closed" "state s = Listen \<longrightarrow> ack_number r = None \<and> control r \<noteq> CtlRst"
    using acc by (auto simp: accepts_def split: if_splits)
  consider (rst) "control r = CtlRst" | (none) "control r \<noteq> CtlRst" "ack_number r = None"
    | (ack) a where "control r \<noteq> CtlRst" "ack_number r = Some a" by (cases "ack_number r") auto
  then show thesis
  proof cases
    case rst
    then show thesis
      using early [of None s] go
      by (cases "state s"; cases "ack_number r"; cases "ack_number r = Some (local_seq_no s + 1)")
         (auto simp: check_ack_def)
  next
    case none
    then show thesis
      using early [of None s] go
      by (cases "state s"; cases "control r") (auto simp: check_ack_def ack_ok_def)
  next
    case (ack a)
    obtain rep where rep: "rst_reply ip r = Some rep" using rst_reply_Some [OF ack(1) seg] by blast
    show thesis
    proof (cases "state s \<in> {SynSent, SynReceived}")
      case True
      with ack rep show thesis
        using early [of None s] early [of "Some rep" s] go
        by (cases "control r"; cases "a = local_seq_no s + 1") (auto simp: check_ack_def ack_ok_def)
    next
      case False
      then have st: "state s \<notin> {Listen, SynSent, SynReceived}" using acc' ack by auto
      with ack have eq: "check_ack cx ip r s = check_ack_range cx ip r a s"
        using acc' by (cases "state s"; cases "control r") (auto simp: check_ack_def)
      show thesis
        using check_ack_range_ok [OF inv st ack(2), of cx ip thesis] early go st unfolding eq by auto
    qed
  qed
qed

text \<open>
  The window tests, as tests on distances from the start of the window. Both bounds of an
  interval are needed: a number half the sequence space away compares as below and as above.
\<close>

lemma of_int_wrap32: "(of_int (k + 2 ^ 32) :: seq) = of_int k"
  by (simp only: of_int_add of_int_power of_int_numeral) (simp add: word_eq_iff_unsigned)

lemma window_test:
  fixes b :: seq
  assumes e: "- (2 ^ 31) \<le> e" "e < 2 ^ 31" and w: "0 < w" "w \<le> 2 ^ 30"
  shows "seq_le b (b + of_int e) \<and> seq_lt (b + of_int e) (b + of_nat w) \<longleftrightarrow> 0 \<le> e \<and> e < int w"
    and "seq_lt b (b + of_int e) \<and> seq_le (b + of_int e) (b + of_nat w) \<longleftrightarrow> 0 < e \<and> e \<le> int w"
proof -
  have up: "seq_lt (b + of_int e) (b + of_int (int w)) \<longleftrightarrow> e < int w"
    "seq_le (b + of_int e) (b + of_int (int w)) \<longleftrightarrow> e \<le> int w" if "- (2 ^ 31) + int w \<le> e"
    using that e w seq_lt_dist [of e "int w" b] seq_le_dist [of e "int w" b] by auto
  have far: "\<not> seq_lt (b + of_int e) (b + of_int (int w))" "\<not> seq_le (b + of_int e) (b + of_int (int w))"
    if "e < - (2 ^ 31) + int w"
  proof -
    have "sint (of_int (e - int w + 2 ^ 32) :: seq) = e - int w + 2 ^ 32"
      using that e w by (intro sint_of_int_small) auto
    then have s: "sint (of_int e - of_int (int w) :: seq) = e - int w + 2 ^ 32"
      unfolding of_int_wrap32 by simp
    then show "\<not> seq_lt (b + of_int e) (b + of_int (int w))"
      "\<not> seq_le (b + of_int e) (b + of_int (int w))"
      using e w by (simp_all add: seq_lt_def seq_le_def)
  qed
  have low: "seq_le b (b + of_int e) \<longleftrightarrow> 0 \<le> e" "seq_lt b (b + of_int e) \<longleftrightarrow> 0 < e"
    if "- (2 ^ 31) + int w \<le> e"
    using that e w seq_le_dist [of 0 e b] seq_lt_dist [of 0 e b] by auto
  show "seq_le b (b + of_int e) \<and> seq_lt (b + of_int e) (b + of_nat w) \<longleftrightarrow> 0 \<le> e \<and> e < int w"
    using up far low w by (cases "- (2 ^ 31) + int w \<le> e") auto
  show "seq_lt b (b + of_int e) \<and> seq_le (b + of_int e) (b + of_nat w) \<longleftrightarrow> 0 < e \<and> e \<le> int w"
    using up far low w by (cases "- (2 ^ 31) + int w \<le> e") auto
qed

text \<open>A segment of \<open>n\<close> octets at distance \<open>d\<close> from a window of \<open>w\<close> octets is acceptable.\<close>

definition in_win :: "nat \<Rightarrow> int \<Rightarrow> nat \<Rightarrow> bool" where
  "in_win w d n \<longleftrightarrow>
     (if n = 0 then if w = 0 then d = 0 else 0 \<le> d \<and> d < int w
      else w \<noteq> 0 \<and> (0 \<le> d \<and> d < int w \<or> 0 < d + int n \<and> d + int n \<le> int w))"

lemma of_int_eq_iff_small:
  assumes "- (2 ^ 31) \<le> j" "j < 2 ^ 31" "- (2 ^ 31) \<le> k" "k < 2 ^ 31"
  shows "(of_int j :: seq) = of_int k \<longleftrightarrow> j = k"
  using sint_of_int_small [OF assms(1,2)] sint_of_int_small [OF assms(3,4)] by metis

lemma segment_in_window_eq:
  fixes ws :: seq
  assumes w: "w \<le> 2 ^ 30" and n: "n \<le> 131072" and d: "- (2 ^ 31) \<le> d" "d < 2 ^ 31"
  shows "segment_in_window ws (ws + of_nat w) (ws + of_int d) (ws + of_int d + of_nat n) = Some (in_win w d n)"
proof -
  have same: "(ws + of_int d = ws + of_int d + of_nat n) \<longleftrightarrow> n = 0"
    using n of_int_eq_iff_small [of 0 "int n"] by auto
  have zero: "(ws = ws + of_nat w) \<longleftrightarrow> w = 0"
    using w of_int_eq_iff_small [of 0 "int w"] by auto
  have at0: "(ws = ws + of_int d) \<longleftrightarrow> d = 0"
    using d of_int_eq_iff_small [of 0 d] by auto
  have before: "ws + of_int d = ws - 1 \<longleftrightarrow> d = - 1"
    using d of_int_eq_iff_small [of d "- 1"] by (simp add: diff_conv_add_uminus del: add_uminus_conv_diff)
  show ?thesis
  proof (cases "w = 0 \<or> n = 0")
    case True
    then show ?thesis
      using same zero at0 before window_test(1) [OF d, of w ws] w
      by (auto simp: segment_in_window_def in_win_def Let_def)
  next
    case False
    define e where "e = (if d + int n < 2 ^ 31 then d + int n else d + int n - 2 ^ 32)"
    have e: "- (2 ^ 31) \<le> e" "e < 2 ^ 31" using d n by (auto simp: e_def)
    have "of_int (d + int n) = (of_int e :: seq)"
      using of_int_wrap32 [of "d + int n - 2 ^ 32"] by (simp add: e_def)
    then have end_eq: "ws + of_int d + of_nat n = ws + of_int e" by (simp add: add.assoc)
    have "0 < e \<and> e \<le> int w \<longleftrightarrow> 0 < d + int n \<and> d + int n \<le> int w"
      using d n w by (auto simp: e_def)
    with False show ?thesis
      using same zero window_test(1) [OF d, of w ws] window_test(2) [OF e, of w ws] w
      by (simp add: segment_in_window_def in_win_def Let_def end_eq)
  qed
qed

text \<open>Where the segment starts, relative to the next octet that the socket expects.\<close>

definition segment_pos :: "tcp_socket \<Rightarrow> tcp_repr \<Rightarrow> int" where
  "segment_pos s r = sint (seq_number r - (remote_seq_no s + of_nat (rb_len (rx_buffer s))))"

text \<open>The octets \<open>from ..< from + m\<close> of the payload are those inside the window, from \<open>offset\<close> on.\<close>

definition window_part :: "tcp_socket \<Rightarrow> tcp_repr \<Rightarrow> u8 list \<Rightarrow> nat \<Rightarrow> bool" where
  "window_part s r part offset \<longleftrightarrow> (\<exists>start m. part = take m (drop start (payload r)) \<and>
     start + m \<le> length (payload r) \<and> int offset = segment_pos s r + int start \<and>
     offset + m \<le> rb_window (rx_buffer s) \<and> int offset = max 0 (segment_pos s r) \<and>
     int (offset + m) = min (int (rb_window (rx_buffer s))) (segment_pos s r + int (length (payload r))))"

lemma in_win_bounds:
  assumes "in_win w d n" and "w \<le> 2 ^ 30" and "n \<le> 131072"
  shows "- 131072 \<le> d" and "d + int n \<le> 2 ^ 30 + 131072" and "max 0 d \<le> min (int w) (d + int n)"
    and "d \<le> 2 ^ 30"
  using assms by (auto simp: in_win_def split: if_splits)

text \<open>The overlap of segment and window, computed on sequence numbers.\<close>

lemma window_overlap:
  fixes ws :: seq
  assumes win: "in_win w d n" and w: "w \<le> 2 ^ 30" and n: "n \<le> 131072"
  defines "s1 \<equiv> seq_max ws (ws + of_int d)"
    and "s2 \<equiv> seq_min (ws + of_nat w) (ws + of_int d + of_nat n)"
  obtains start m offset where "seq_le s1 s2" and "seq_diff s1 (ws + of_int d) = Some start"
    and "seq_diff s2 (ws + of_int d) = Some (start + m)" and "seq_diff s1 ws = Some offset"
    and "start + m \<le> n" and "int offset = d + int start" and "offset + m \<le> w"
    and "int offset = max 0 d" and "int (offset + m) = min (int w) (d + int n)"
proof -
  note b = in_win_bounds [OF win w n]
  define o1 o2 where "o1 = max 0 d" and "o2 = min (int w) (d + int n)"
  have "seq_max (ws + of_int 0) (ws + of_int d) = ws + of_int o1"
    using b unfolding o1_def by (intro seq_max_dist) auto
  then have s1: "s1 = ws + of_int o1" by (simp add: s1_def)
  have "seq_min (ws + of_int (int w)) (ws + of_int (d + int n)) = ws + of_int o2"
    using w n b unfolding o2_def by (intro seq_min_dist) auto
  then have s2: "s2 = ws + of_int o2" by (simp add: s2_def add.assoc)
  have range: "0 \<le> o1" "o1 \<le> o2" "d \<le> o1" "o2 \<le> int w" "o2 - d \<le> int n" "o1 - d \<le> 131072"
    using b by (auto simp: o1_def o2_def)
  have "seq_le s1 s2" unfolding s1 s2 using range w by (subst seq_le_dist) auto
  moreover have "seq_diff s1 (ws + of_int d) = Some (nat (o1 - d))"
    unfolding s1 using range by (subst seq_diff_dist) auto
  moreover have "seq_diff s2 (ws + of_int d) = Some (nat (o1 - d) + nat (o2 - o1))"
    unfolding s2 using range n by (subst seq_diff_dist) auto
  moreover have "seq_diff s1 (ws + of_int 0) = Some (nat o1)"
    unfolding s1 using range w by (subst seq_diff_dist) auto
  ultimately show thesis
    using range by (intro that [of "nat (o1 - d)" "nat (o2 - o1)" "nat o1"]) (auto simp: o1_def o2_def)
qed

lemma check_segment_ok:
  assumes rx: "rx_ok (rx_buffer s) (assembler s)" and seg: "segment_ok r"
    and st: "state s \<notin> {Listen, SynSent}"
  obtains (early) rep s' where "check_segment cx ip r s = Some (Inl (rep, s'))" "core s' = core s"
      "\<not> in_win (rb_window (rx_buffer s)) (segment_pos s r) (length (payload r))"
  | (go) part offset where
      "check_segment cx ip r s = Some (Inr (part, offset, s\<lparr>local_rx_last_seq := Some (seq_number r)\<rparr>))"
      "window_part s r part offset"
proof -
  let ?rx = "rx_buffer s"
  define ws w d n where "ws = remote_seq_no s + of_nat (rb_len ?rx)" and "w = rb_window ?rx"
    and "d = segment_pos s r" and "n = length (payload r)"
  have w: "w \<le> 2 ^ 30" and cap: "rb_capacity ?rx = rb_len ?rx + w"
    using rx by (auto simp: rx_ok_def rb_inv_def rb_len_def rb_window_def w_def)
  have n: "n \<le> 131072" using seg by (simp add: segment_ok_def n_def)
  have d: "- (2 ^ 31) \<le> d" "d < 2 ^ 31" using sint_seq_bounds by (simp_all add: d_def segment_pos_def)
  have start: "seq_number r = ws + of_int d" by (simp add: d_def segment_pos_def ws_def)
  have adds: "seq_add (remote_seq_no s) (rb_len ?rx) = Some ws"
    "seq_add (remote_seq_no s) (rb_capacity ?rx) = Some (ws + of_nat w)"
    "seq_add (ws + of_int d) n = Some (ws + of_int d + of_nat n)"
    using rx_len_bound [OF rx] n cap by (simp_all add: ws_def add.assoc)
  note test = segment_in_window_eq [OF w n d, of ws]
  show thesis
  proof (cases "in_win w d n")
    case False
    let ?s = "if state s = TimeWait then s\<lparr>timer := set_for_close (cx_now cx)\<rparr> else s"
    have "rx_ok (rx_buffer ?s) (assembler ?s)" using rx by simp
    from challenge_ack_reply_ok [OF this] obtain rep s' where
      ch: "challenge_ack_reply cx ip r ?s = Some (rep, s')" and "core s' = core ?s" by blast
    then have "core s' = core s" by (simp add: core_def split: if_splits)
    moreover have "check_segment cx ip r s = Some (Inl (rep, s'))"
      using st adds test False ch unfolding check_segment_def start by (simp add: Let_def flip: n_def)
    ultimately show thesis using False early unfolding w_def d_def n_def by blast
  next
    case True
    obtain start m offset where o:
      "seq_le (seq_max ws (ws + of_int d)) (seq_min (ws + of_nat w) (ws + of_int d + of_nat n))"
      "seq_diff (seq_max ws (ws + of_int d)) (ws + of_int d) = Some start"
      "seq_diff (seq_min (ws + of_nat w) (ws + of_int d + of_nat n)) (ws + of_int d) = Some (start + m)"
      "seq_diff (seq_max ws (ws + of_int d)) ws = Some offset"
      and range: "start + m \<le> n" "int offset = d + int start" "offset + m \<le> w"
        "int offset = max 0 d" "int (offset + m) = min (int w) (d + int n)"
      using window_overlap [OF True w n, of ws] by blast
    let ?part = "take m (drop start (payload r))"
    have "check_segment cx ip r s
        = Some (Inr (?part, offset, s\<lparr>local_rx_last_seq := Some (seq_number r)\<rparr>))"
      using st adds test True o range unfolding check_segment_def start
      by (simp add: Let_def flip: n_def)
    moreover have "window_part s r ?part offset"
      using range unfolding window_part_def d_def w_def n_def by blast
    ultimately show thesis by (intro go)
  qed
qed

text \<open>The acknowledgement covers \<open>ack_len\<close> octets of the buffer, and the SYN or FIN in flight.\<close>

definition ack_counts :: "tcp_socket \<Rightarrow> tcp_repr \<Rightarrow> nat \<Rightarrow> bool \<Rightarrow> bool" where
  "ack_counts s r ack_len fin \<longleftrightarrow> (case ack_number r of
      None \<Rightarrow> ack_len = 0 \<and> \<not> fin \<and> state s \<in> {Listen, SynSent}
    | Some ack \<Rightarrow> state s \<noteq> Listen \<and> ack_len \<le> rb_len (tx_buffer s) \<and>
        ack = local_seq_no s + of_nat (of_bool (state s \<in> {SynSent, SynReceived}) + ack_len + of_bool fin) \<and>
        (fin \<longrightarrow> state s \<in> {FinWait1, LastAck, Closing} \<and> ack_len = rb_len (tx_buffer s)))"

lemma tx_len_bound: "tx_ok st tx una nxt \<Longrightarrow> rb_len tx \<le> 2 ^ 31 - 2"
  by (auto simp: tx_ok_def rb_inv_def rb_len_def)

lemma seq_ge_add: "n < 2 ^ 31 \<Longrightarrow> seq_ge (a + of_nat n) a"
  using seq_ge_dist [of "int n" 0 a] by simp

lemma seq_diff_add: "n < 2 ^ 31 \<Longrightarrow> seq_diff (a + of_nat n) a = Some n"
  using seq_diff_dist [of "int n" 0 a] by simp

lemma count_acked_ok:
  assumes inv: "tcp_inv s" and ack: "control r = CtlRst \<or> ack_ok s r"
  obtains ack_len fin all s' where "count_acked cx r s = Some (ack_len, fin, all, s')"
    and "tcp_inv s'" and "\<exists>rt cc. s' = s\<lparr>rtte := rt, congestion_controller := cc\<rparr>"
    and "control r = CtlRst \<or> ack_counts s r ack_len fin"
proof -
  have id: "\<exists>rt cc. s = s\<lparr>rtte := rt, congestion_controller := cc\<rparr>"
    by (intro exI [of _ "rtte s"] exI [of _ "congestion_controller s"]) simp
  consider (rst) "control r = CtlRst" | (none) "control r \<noteq> CtlRst" "ack_number r = None"
    | (some) a where "control r \<noteq> CtlRst" "ack_number r = Some a" by (cases "ack_number r") auto
  then show thesis
  proof cases
    case rst
    with inv show thesis
      by (intro that [of 0 False False s]) (auto simp: count_acked_def id)
  next
    case none
    with inv ack show thesis
      by (intro that [of 0 False False s])
        (auto simp: count_acked_def ack_counts_def ack_ok_def id)
  next
    case (some a)
    define len syn fin where "len = rb_len (tx_buffer s)" and "syn = fst (sent_syn_fin (state s))"
      and "fin = snd (sent_syn_fin (state s))"
    have len: "len \<le> 2 ^ 31 - 2" using inv tx_len_bound by (auto simp: tcp_inv_def len_def)
    have "\<exists>k. a = local_seq_no s + of_nat (of_bool syn) + of_nat k \<and> k \<le> len + of_bool fin"
      using some ack
      by (auto simp: ack_ok_def syn_def fin_def len_def sent_syn_fin_def split: if_splits intro: exI [of _ 0])
    then obtain k where k: "a = local_seq_no s + of_nat (of_bool syn) + of_nat k" "k \<le> len + of_bool fin"
      by blast
    define ack_of_fin where "ack_of_fin \<longleftrightarrow> fin \<and> len + 1 = k"
    define ack_len where "ack_len = (if ack_of_fin then k - 1 else k)"
    define s' where "s' = s\<lparr>rtte := rtt_on_ack (rtte s) (cx_now cx) a, congestion_controller :=
      cc_on_ack (congestion_controller s) (cx_now cx) ack_len (rtt_on_ack (rtte s) (cx_now cx) a)\<rparr>"
    have bnd: "k < 2 ^ 31" "of_bool syn < (2 ^ 31 :: nat)" using k(2) len by (auto simp: of_bool_def split: if_splits)
    have le: "seq_ge a (local_seq_no s + of_nat (of_bool syn))"
      "seq_diff a (local_seq_no s + of_nat (of_bool syn)) = Some k"
      unfolding k(1) using bnd(1) by (simp_all add: seq_ge_add seq_diff_add)
    have "count_acked cx r s = Some (ack_len, ack_of_fin, seq_le (remote_last_seq s) a, s')"
      using some le bnd(2)
      by (simp add: count_acked_def split_def Let_def s'_def ack_len_def ack_of_fin_def flip: syn_def fin_def len_def)
    moreover have "tcp_inv s'" using inv by (simp add: s'_def tcp_inv_def peer_ok_def)
    moreover have "ack_counts s r ack_len ack_of_fin"
      using some ack k len
      by (auto simp: ack_counts_def ack_ok_def ack_len_def ack_of_fin_def syn_def fin_def len_def
          sent_syn_fin_def split: if_splits)
    ultimately show thesis by (intro that) (auto simp: s'_def)
  qed
qed

text \<open>
  The socket between \<open>update_state\<close> and \<open>update_ack\<close>: the invariant holds once the
  acknowledged octets are removed and the left edge has moved to the acknowledgement.
\<close>

definition pending_ack :: "tcp_socket \<Rightarrow> tcp_repr \<Rightarrow> nat \<Rightarrow> bool" where
  "pending_ack s r ack_len \<longleftrightarrow>
     rb_inv (tx_buffer s) \<and> rb_capacity (tx_buffer s) \<le> 2 ^ 31 - 2 \<and> ack_len \<le> rb_len (tx_buffer s) \<and>
     0 \<le> sint (remote_last_seq s - local_seq_no s) \<and>
     sint (remote_last_seq s - local_seq_no s) \<le> int (rb_len (tx_buffer s) + 1) \<and>
     (\<exists>adv < 2 ^ 31. (case ack_number r of None \<Rightarrow> adv = 0 | Some ack \<Rightarrow> ack = local_seq_no s + of_nat adv) \<and>
        sint (remote_last_seq s - local_seq_no s) - int adv
          \<le> int (rb_len (tx_buffer s) - ack_len + ctl_in_flight (state s)))"

lemma pending_ackI:
  assumes tx: "tx_ok (state s0) (tx_buffer s0) (local_seq_no s0) (remote_last_seq s0)"
    and cnt: "ack_counts s0 r ack_len fin" and st: "state s0 \<notin> {Listen, SynSent, SynReceived}"
    and fields: "tx_buffer s = tx_buffer s0" "local_seq_no s = local_seq_no s0"
      "remote_last_seq s = remote_last_seq s0"
    and ctl: "fin \<or> ctl_in_flight (state s) = ctl_in_flight (state s0)"
  shows "pending_ack s r ack_len"
proof -
  obtain ack where ack: "ack_number r = Some ack" using cnt st by (auto simp: ack_counts_def split: option.splits)
  define adv where "adv = ack_len + of_bool fin"
  have len: "rb_len (tx_buffer s) \<le> 2 ^ 31 - 2" using tx_len_bound [OF tx] fields by simp
  have al: "ack_len \<le> rb_len (tx_buffer s)" "fin \<longrightarrow> ack_len = rb_len (tx_buffer s)"
    "ack = local_seq_no s + of_nat adv"
    using cnt ack st fields by (auto simp: ack_counts_def adv_def)
  have "ctl_in_flight st \<le> 1" for st by (simp add: ctl_in_flight_def)
  then have d: "0 \<le> sint (remote_last_seq s - local_seq_no s)"
    "sint (remote_last_seq s - local_seq_no s) \<le> int (rb_len (tx_buffer s) + ctl_in_flight (state s0))"
    "ctl_in_flight (state s0) \<le> 1"
    using tx fields by (auto simp: tx_ok_def)
  have "adv < 2 ^ 31" using al len by (simp add: adv_def)
  moreover have "sint (remote_last_seq s - local_seq_no s) - int adv
      \<le> int (rb_len (tx_buffer s) - ack_len + ctl_in_flight (state s))"
    using d al ctl by (cases fin) (auto simp: adv_def)
  ultimately show ?thesis
    using tx fields al d ack by (auto simp: pending_ack_def tx_ok_def intro!: exI [of _ adv])
qed

lemma seq_dist_one: "sint (a + 1 - a :: seq) = 1"
  using sint_of_int_small [of 1] by simp

lemma unat_mss: "m \<noteq> 0 \<Longrightarrow> 0 < unat (m :: u16) \<and> unat m \<le> 65535"
  using unsigned_less [where ?'a = nat, of m]
  by simp (metis bot_nat_0.not_eq_extremum unsigned_eq_0_iff)

lemma adopt_mss_fields [simp]:
  "state (adopt_mss r s) = state s" "rx_buffer (adopt_mss r s) = rx_buffer s"
  "assembler (adopt_mss r s) = assembler s" "tx_buffer (adopt_mss r s) = tx_buffer s"
  "rx_fin_received (adopt_mss r s) = rx_fin_received s" "local_seq_no (adopt_mss r s) = local_seq_no s"
  "tuple (adopt_mss r s) = tuple s" "remote_win_len (adopt_mss r s) = remote_win_len s"
  "remote_win_shift (adopt_mss r s) = remote_win_shift s" "rtte (adopt_mss r s) = rtte s"
  by (simp_all add: adopt_mss_def split: option.splits)

lemma adopt_mss_ok:
  assumes "max_seg_size r \<noteq> Some 0" "0 < remote_mss s" "remote_mss s \<le> 65535"
    "cc_inv (congestion_controller s)"
  shows "0 < remote_mss (adopt_mss r s)" "remote_mss (adopt_mss r s) \<le> 65535"
    "cc_inv (congestion_controller (adopt_mss r s))"
  using assms unat_mss by (auto simp: adopt_mss_def split: option.splits)

lemma accept_syn_ok:
  assumes inv: "tcp_inv s" and seg: "segment_ok r" and st: "state s = Listen" and ack: "ack_number r = None"
  obtains (ignored) "accept_syn cx ip r s = Some (Inl (None, s))"
  | (go) s' where "accept_syn cx ip r s = Some (Inr s')" "pending_ack s' r 0" "state s' = SynReceived"
      "rx_buffer s' = rx_buffer s" "assembler s' = assembler s" "tx_buffer s' = tx_buffer s"
      "rx_fin_received s' = rx_fin_received s" "remote_seq_no s' = seq_number r + 1"
      "peer_ok (remote_mss s') (remote_win_scale s') (remote_win_len s') (remote_win_shift s')
         (congestion_controller s') (rtte s')" "tuple_ok (tuple s')"
proof (cases "max_seg_size r = Some 0")
  case True
  then show thesis by (intro ignored) (simp add: accept_syn_def)
next
  case False
  define s' where "s' = (set_state SynReceived (adopt_options r ((adopt_mss r s)\<lparr>tuple := Some \<lparr>
      tuple_local = \<lparr>ep_addr = ip_dst_addr ip, ep_port = dst_port r\<rparr>,
      tuple_remote = \<lparr>ep_addr = ip_src_addr ip, ep_port = src_port r\<rparr>\<rparr>, local_seq_no := random_seq_no cx,
      remote_seq_no := seq_number r + 1, remote_last_seq := random_seq_no cx\<rparr>)))
      \<lparr>timer := set_for_idle (cx_now cx) (keep_alive (adopt_mss r s))\<rparr>"
  have s': "accept_syn cx ip r s = Some (Inr s')"
    using False by (simp add: accept_syn_def Let_def s'_def set_state_def adopt_options_def)
  have tx: "tx_ok Listen (tx_buffer s) (local_seq_no s) (remote_last_seq s)"
    using inv st by (auto simp: tcp_inv_def)
  show thesis
  proof (rule go [OF s'])
    show "pending_ack s' r 0"
      using tx ack by (simp add: s'_def set_state_def adopt_options_def pending_ack_def tx_ok_def)
    show "peer_ok (remote_mss s') (remote_win_scale s') (remote_win_len s') (remote_win_shift s')
         (congestion_controller s') (rtte s')"
      using inv seg False adopt_mss_ok [of r s]
      by (simp add: s'_def set_state_def adopt_options_def tcp_inv_def peer_ok_def segment_ok_def)
  qed (simp_all add: s'_def set_state_def adopt_options_def tuple_ok_def)
qed

lemma accept_synack_ok:
  assumes inv: "tcp_inv s" and seg: "segment_ok r" and st: "state s = SynSent"
    and ack: "ack_counts s r ack_len fin"
  obtains (ignored) "accept_synack r s = Some (Inl (None, s))"
  | (go) s' where "accept_synack r s = Some (Inr s')" "pending_ack s' r ack_len"
      "state s' = (if ack_number r = None then SynReceived else Established)"
      "rx_buffer s' = rx_buffer s" "assembler s' = assembler s" "tx_buffer s' = tx_buffer s"
      "rx_fin_received s' = rx_fin_received s" "remote_seq_no s' = seq_number r + 1"
      "peer_ok (remote_mss s') (remote_win_scale s') (remote_win_len s') (remote_win_shift s')
         (congestion_controller s') (rtte s')" "tuple s' = tuple s"
proof (cases "max_seg_size r = Some 0")
  case True
  then show thesis by (intro ignored) (simp add: accept_synack_def)
next
  case False
  define s' where "s' = set_state (if ack_number r = None then SynReceived else Established)
      (adopt_options r ((adopt_mss r s)\<lparr>remote_seq_no := seq_number r + 1,
        remote_last_seq := local_seq_no s + 1, remote_last_ack := Some (seq_number r)\<rparr>))"
  have s': "accept_synack r s = Some (Inr s')"
    using False by (simp add: accept_synack_def Let_def s'_def)
  have tx: "tx_ok SynSent (tx_buffer s) (local_seq_no s) (remote_last_seq s)"
    and empty: "rb_len (tx_buffer s) = 0"
    using inv st by (auto simp: tcp_inv_def unsynced_ok_def)
  have al: "ack_len = 0" "\<forall>a. ack_number r = Some a \<longrightarrow> a = local_seq_no s + 1"
    using ack st empty by (auto simp: ack_counts_def split: option.splits)
  show thesis
  proof (rule go [OF s'])
    show "pending_ack s' r ack_len"
      using tx empty al
      by (cases "ack_number r")
        (auto simp: s'_def set_state_def adopt_options_def pending_ack_def tx_ok_def ctl_in_flight_def
          seq_dist_one intro: exI [of _ 0] exI [of _ 1])
    show "peer_ok (remote_mss s') (remote_win_scale s') (remote_win_len s') (remote_win_shift s')
         (congestion_controller s') (rtte s')"
      using inv seg False adopt_mss_ok [of r s]
      by (simp add: s'_def set_state_def adopt_options_def tcp_inv_def peer_ok_def segment_ok_def)
  qed (simp_all add: s'_def set_state_def adopt_options_def)
qed

text \<open>What \<open>update_state\<close> leaves behind when it does not return from \<open>process\<close>.\<close>

definition state_updated :: "tcp_socket \<Rightarrow> tcp_repr \<Rightarrow> tcp_control \<Rightarrow> nat \<Rightarrow> tcp_socket \<Rightarrow> bool" where
  "state_updated s r ctl ack_len s' \<longleftrightarrow> pending_ack s' r ack_len \<and>
     rx_buffer s' = rx_buffer s \<and> assembler s' = assembler s \<and> tx_buffer s' = tx_buffer s \<and>
     peer_ok (remote_mss s') (remote_win_scale s') (remote_win_len s') (remote_win_shift s')
       (congestion_controller s') (rtte s') \<and> tuple_ok (tuple s') \<and>
     unsynced_ok (state s') (rx_buffer s') (tx_buffer s') (assembler s') (rx_fin_received s') \<and>
     state s' \<notin> {Listen, SynSent} \<and> (state s \<notin> {Listen, SynSent} \<longrightarrow> state s' \<noteq> SynReceived) \<and>
     rx_fin_received s' = (rx_fin_received s \<or> ctl = CtlFin) \<and>
     (ctl = CtlFin \<longrightarrow> \<not> rx_fin_received s) \<and> (state s \<in> {Listen, SynSent} \<longrightarrow> ctl = CtlSyn) \<and>
     remote_seq_no s' = (if state s \<in> {Listen, SynSent} then seq_number r + 1
                         else remote_seq_no s + of_bool (ctl = CtlFin))"

lemma receive_fin_eq [simp]:
  "receive_fin s = Some (s\<lparr>remote_seq_no := remote_seq_no s + 1, rx_fin_received := True\<rparr>)"
  by (simp add: receive_fin_def)

lemma tcp_inv_state_Closed: "tcp_inv s \<Longrightarrow> tcp_inv (s\<lparr>state := Closed, tuple := t\<rparr>) = tuple_ok t"
  by (auto simp: tcp_inv_def tx_ok_def ctl_in_flight_def unsynced_ok_def split: if_splits)

lemma state_updatedI:
  assumes inv: "tcp_inv s" and cnt: "ack_counts s r ack_len fin" and st: "state s \<notin> {Listen, SynSent, SynReceived}"
    and s': "state s' \<notin> {Listen, SynSent, SynReceived}" "fin \<or> ctl_in_flight (state s') = ctl_in_flight (state s)"
    and upd: "\<exists>t st seq b u. s' = s\<lparr>state := st, timer := t, remote_seq_no := seq, rx_fin_received := b, tuple := u\<rparr>
      \<and> tuple_ok u \<and> b = (rx_fin_received s \<or> ctl = CtlFin) \<and> seq = remote_seq_no s + of_bool (ctl = CtlFin)"
    and fin: "if ctl = CtlFin then state s \<in> {Established, FinWait1, FinWait2} \<and> state s' \<notin> {Established, FinWait1, FinWait2}
      else state s \<in> {Established, FinWait1, FinWait2} \<or> state s' \<notin> {Established, FinWait1, FinWait2}"
  shows "state_updated s r ctl ack_len s'"
proof -
  have "pending_ack s' r ack_len"
    using inv upd by (intro pending_ackI [OF _ cnt st _ _ _ s'(2)]) (auto simp: tcp_inv_def)
  with inv st s' upd fin show ?thesis by (auto simp: state_updated_def tcp_inv_def unsynced_ok_def split: if_splits)
qed

lemma synced_ok:
  assumes inv: "tcp_inv s" and cnt: "ack_counts s r ack_len fin" and st: "state s = SynReceived"
    and s': "state s' = (if ctl = CtlFin then CloseWait else Established)"
    and upd: "\<exists>st seq b. s' = s\<lparr>state := st, remote_seq_no := seq, rx_fin_received := b\<rparr>
      \<and> b = (ctl = CtlFin) \<and> seq = remote_seq_no s + of_bool (ctl = CtlFin)"
  shows "state_updated s r ctl ack_len s'"
proof -
  obtain ack where ack: "ack_number r = Some ack" "ack = local_seq_no s + 1" "ack_len = 0"
    using cnt st inv by (auto simp: ack_counts_def tcp_inv_def unsynced_ok_def split: option.splits)
  have "pending_ack s' r ack_len"
    using inv upd st s' ack
    by (auto simp: pending_ack_def tcp_inv_def tx_ok_def ctl_in_flight_def unsynced_ok_def intro!: exI [of _ 1])
  with inv st s' upd show ?thesis by (auto simp: state_updated_def tcp_inv_def unsynced_ok_def)
qed

text \<open>A return from \<open>update_state\<close> leaves the receive half alone.\<close>

definition update_state_post ::
  "tcp_socket \<Rightarrow> tcp_repr \<Rightarrow> tcp_control \<Rightarrow> nat \<Rightarrow> outcome + tcp_socket \<Rightarrow> bool" where
  "update_state_post s r ctl ack_len res \<longleftrightarrow> (case res of
      Inl (rep, s') \<Rightarrow> rep = None \<and> tcp_inv s' \<and> rx_buffer s' = rx_buffer s \<and> assembler s' = assembler s \<and>
        remote_seq_no s' = remote_seq_no s \<and> rx_fin_received s' = rx_fin_received s \<and>
        (state s' \<in> {Listen, SynSent, SynReceived} \<longrightarrow> state s \<in> {Listen, SynSent, SynReceived}) \<and>
        state s' \<in> {state s, Listen, Closed} \<and>
        \<not> (state s \<in> {Established, FinWait1, FinWait2} \<and> ctl \<in> {CtlNone, CtlFin})
    | Inr s' \<Rightarrow> state_updated s r ctl ack_len s')"

lemma update_state_rst:
  assumes inv: "tcp_inv s"
  shows "\<exists>res. update_state cx ip r CtlRst fin s = Some res \<and> update_state_post s r CtlRst ack_len res"
proof -
  have eq: "update_state cx ip r CtlRst fin s = Some (Inl (None,
      if state s = Listen then s
      else if state s = SynReceived \<and> le_port (listen_endpoint s) \<noteq> 0
      then s\<lparr>state := Listen, tuple := None\<rparr> else s\<lparr>state := Closed, tuple := None\<rparr>))"
    by (cases "state s") (simp_all add: update_state_def set_state_def)
  have "tcp_inv (s\<lparr>state := Closed, tuple := None\<rparr>)"
    using inv by (simp add: tcp_inv_state_Closed tuple_ok_def)
  moreover have "tcp_inv (s\<lparr>state := Listen, tuple := None\<rparr>)" if "state s = SynReceived"
    using inv that by (auto simp: tcp_inv_def tx_ok_def ctl_in_flight_def unsynced_ok_def tuple_ok_def)
  ultimately show ?thesis using inv unfolding eq by (simp add: update_state_post_def)
qed

lemma update_state_unsynced:
  assumes inv: "tcp_inv s" and seg: "segment_ok r" and cnt: "ack_counts s r ack_len fin"
    and ctl: "ctl \<noteq> CtlRst" "ctl \<noteq> CtlPsh" and st: "state s \<in> {Listen, SynSent, SynReceived}"
  shows "\<exists>res. update_state cx ip r ctl fin s = Some res \<and> update_state_post s r ctl ack_len res"
proof -
  have un: "unsynced_ok st (rx_buffer s) (tx_buffer s) (assembler s) (rx_fin_received s)" for st
    using inv st by (auto simp: tcp_inv_def unsynced_ok_def)
  have same: "update_state_post s r ctl ack_len (Inl (None, s))"
    using inv st by (auto simp: update_state_post_def)
  consider (listen) "state s = Listen" "ctl = CtlSyn" | (sent) "state s = SynSent" "ctl = CtlSyn"
    | (received) "state s = SynReceived" "ctl \<in> {CtlNone, CtlFin}"
    | (other) "update_state cx ip r ctl fin s = Some (Inl (None, s))"
    using st ctl by (cases ctl) (auto simp: update_state_def)
  then show ?thesis
  proof cases
    case listen
    have ack: "ack_number r = None" "ack_len = 0"
      using cnt listen by (auto simp: ack_counts_def split: option.splits)
    have eq: "update_state cx ip r ctl fin s = accept_syn cx ip r s"
      using listen by (simp add: update_state_def)
    show ?thesis
      by (rule accept_syn_ok [OF inv seg listen(1) ack(1), of cx ip])
        (use same un listen ack eq in \<open>auto simp: update_state_post_def state_updated_def\<close>)
  next
    case sent
    have eq: "update_state cx ip r ctl fin s = accept_synack r s"
      using sent by (simp add: update_state_def)
    have tup: "tuple_ok (tuple s)" using inv by (simp add: tcp_inv_def)
    show ?thesis
      by (rule accept_synack_ok [OF inv seg sent(1) cnt])
        (use same un sent eq tup in \<open>auto simp: update_state_post_def state_updated_def\<close>)
  next
    case received
    define s' where "s' = s\<lparr>state := (if ctl = CtlFin then CloseWait else Established),
      remote_seq_no := remote_seq_no s + of_bool (ctl = CtlFin), rx_fin_received := (ctl = CtlFin)\<rparr>"
    have "\<not> rx_fin_received s" using un [of SynReceived] by (simp add: unsynced_ok_def)
    then have "update_state cx ip r ctl fin s = Some (Inr s')"
      using received by (auto simp: update_state_def set_state_def s'_def)
    moreover have "state_updated s r ctl ack_len s'"
      by (rule synced_ok [OF inv cnt received(1)]) (auto simp: s'_def)
    ultimately show ?thesis by (simp add: update_state_post_def)
  next
    case other
    with same show ?thesis by blast
  qed
qed

end
