(* ===== verification/Tcp_Demo.thy ===== *)
theory Tcp_Demo
  imports Tcp_Invariant
begin

text \<open>
  Concrete sockets and segments, on which the witnesses of the TCP theorems are evaluated: a socket
  with buffers of eight octets, once listening and once with a connection.
\<close>

definition demo_cx :: iface_context where
  "demo_cx = \<lparr>cx_now = instant_from_millis 0, cx_ip_mtu = 1500, cx_rand_u32 = 1000,
     cx_source_address = (\<lambda>_. Some (Ipv4 0x0a000001)), cx_tsval = 7\<rparr>"

definition demo_local :: ip_endpoint where
  "demo_local = \<lparr>ep_addr = Ipv4 0x0a000001, ep_port = 80\<rparr>"

definition demo_remote :: ip_endpoint where
  "demo_remote = \<lparr>ep_addr = Ipv4 0x0a000002, ep_port = 4000\<rparr>"

definition demo_ip :: ip_repr where
  "demo_ip = Ipv4Repr \<lparr>ih_src_addr = 0x0a000002, ih_dst_addr = 0x0a000001, ih_next_header = ProtoTcp,
     ih_payload_len = 20, ih_hop_limit = 64\<rparr>"

definition demo_segment :: "tcp_control \<Rightarrow> seq \<Rightarrow> seq option \<Rightarrow> u8 list \<Rightarrow> tcp_repr" where
  "demo_segment ctl n ack data = \<lparr>src_port = 4000, dst_port = 80, control = ctl, seq_number = n,
     ack_number = ack, window_len = 100, window_scale = None, max_seg_size = None,
     sack_permitted = False, sack_ranges = [None, None, None], timestamp = None, payload = data\<rparr>"

definition demo_closed :: tcp_socket where
  "demo_closed = the (socket_new 4 False (rb_new (replicate 8 0)) (rb_new (replicate 8 0)))"

definition demo_listening :: tcp_socket where
  "demo_listening = snd (tcp_listen \<lparr>le_addr = None, le_port = 80\<rparr> demo_closed)"

text \<open>A connection whose handshake is over: the next octets are 2001 (sent) and 5001 (received).\<close>

definition demo_established :: tcp_socket where
  "demo_established = demo_closed\<lparr>state := Established, listen_endpoint := \<lparr>le_addr = None, le_port = 80\<rparr>,
     tuple := Some \<lparr>tuple_local = demo_local, tuple_remote = demo_remote\<rparr>,
     local_seq_no := 2001, remote_last_seq := 2001, remote_seq_no := 5001, remote_last_ack := Some 5001,
     remote_last_win := 8, remote_win_len := 100, remote_last_ts := Some (instant_from_millis 0)\<rparr>"

lemma rb_new_inv [simp]: "rb_inv (rb_new xs)"
  by (simp add: rb_inv_def rb_new_def rb_capacity_def)

lemma rb_new_simps [simp]: "rb_capacity (rb_new xs) = length xs" "rb_len (rb_new xs) = 0" "rb_length (rb_new xs) = 0"
    "rb_window (rb_new xs) = length xs"
  by (simp_all add: rb_new_def rb_capacity_def rb_len_def rb_window_def)

lemma demo_closed_eq:
  "demo_closed = \<lparr>state = Closed, timer = timer_new, rtte = rtt_default, assembler = asm_new 4,
       rx_buffer = rb_new (replicate 8 0), rx_fin_received = False, tx_buffer = rb_new (replicate 8 0),
       timeout = None, keep_alive = None,
       hop_limit = None, listen_endpoint = listen_endpoint_default, tuple = None,
       local_seq_no = 0, remote_seq_no = 0, remote_last_seq = 0, remote_last_ack = None,
       remote_last_win = 0, remote_win_shift = 0, remote_win_len = 0,
       remote_win_scale = None, remote_has_sack = False, remote_mss = DEFAULT_MSS,
       remote_last_ts = None, local_rx_last_seq = None, local_rx_last_ack = None,
       local_rx_dup_acks = 0, ack_delay = Some ACK_DELAY_DEFAULT, ack_delay_timer = AckIdle,
       challenge_ack_timer = instant_from_secs 0, nagle = True,
       congestion_controller = CcNone, tsval_generator = False,
       last_remote_tsval = 0, synack_paused = False\<rparr>"
proof -
  have "win_shift_for 8 = 0" by (simp add: win_shift_for_def bit_len.simps)
  then show ?thesis by (simp add: demo_closed_def socket_new_def cc_new_def)
qed

lemma demo_closed_inv: "tcp_inv demo_closed"
  unfolding demo_closed_def
  by (rule socket_new_inv [of 4 False "rb_new (replicate 8 0)" "rb_new (replicate 8 0)"])
    (simp_all add: socket_new_def)

lemma demo_listening_inv: "tcp_inv demo_listening"
  unfolding demo_listening_def by (rule tcp_listen_inv [OF demo_closed_inv])

lemma demo_established_inv: "tcp_inv demo_established"
  using demo_closed_inv
  by (simp add: demo_established_def demo_closed_eq tcp_inv_def tx_ok_def unsynced_ok_def tuple_ok_def peer_ok_def
      demo_local_def demo_remote_def)

lemma demo_segment_ok: "length data \<le> 65535 \<Longrightarrow> segment_ok (demo_segment ctl n ack data)"
  by (simp add: segment_ok_def demo_segment_def)

lemma demo_accepts: "accepts demo_established demo_ip (demo_segment ctl n ack data)"
  by (simp add: accepts_def demo_established_def demo_ip_def demo_segment_def demo_local_def demo_remote_def)

lemma demo_accepts_listening:
  "ctl \<noteq> CtlRst \<Longrightarrow> accepts demo_listening demo_ip (demo_segment ctl n None data)"
  by (simp add: accepts_def demo_listening_def demo_closed_eq tcp_listen_def demo_ip_def demo_segment_def
      is_open_def socket_reset_def set_state_def)

end
