(* ===== verification/Tcp_Safety.thy ===== *)
theory Tcp_Safety
  imports Tcp_Demo
begin

text \<open>
  The rest of the steps of \<open>process\<close>, and \<open>process\<close> as a whole: an incoming segment never makes
  the socket panic, and keeps its invariant; the state moves along the diagram of RFC 793.
\<close>

section \<open>State transitions\<close>

text \<open>
  The transitions of RFC 793 for a synchronized connection: the state, the control flag of the
  segment, and whether it acknowledges our FIN. No entry: the segment is not expected.
\<close>

fun rfc_next :: "tcp_state \<Rightarrow> tcp_control \<Rightarrow> bool \<Rightarrow> tcp_state option" where
  "rfc_next Established CtlNone fin = Some Established"
| "rfc_next Established CtlFin fin = Some CloseWait"
| "rfc_next FinWait1 CtlNone fin = Some (if fin then FinWait2 else FinWait1)"
| "rfc_next FinWait1 CtlFin fin = Some (if fin then TimeWait else Closing)"
| "rfc_next FinWait2 CtlNone fin = Some FinWait2"
| "rfc_next FinWait2 CtlFin fin = Some TimeWait"
| "rfc_next Closing CtlNone fin = Some (if fin then TimeWait else Closing)"
| "rfc_next CloseWait CtlNone fin = Some CloseWait"
| "rfc_next LastAck CtlNone fin = Some (if fin then Closed else LastAck)"
| "rfc_next _ _ _ = None"

text \<open>The socket after a transition; the FIN of the remote side takes a sequence number.\<close>

definition moved :: "tcp_socket \<Rightarrow> tcp_control \<Rightarrow> tcp_state \<Rightarrow> timer \<Rightarrow> tcp_socket" where
  "moved s ctl st t = s\<lparr>state := st, timer := t,
     remote_seq_no := remote_seq_no s + of_bool (ctl = CtlFin),
     rx_fin_received := (rx_fin_received s \<or> ctl = CtlFin),
     tuple := (if st = Closed then None else tuple s)\<rparr>"

lemma moved_id: "state s \<noteq> Closed \<Longrightarrow> ctl \<noteq> CtlFin \<Longrightarrow> moved s ctl (state s) (timer s) = s"
  by (simp add: moved_def)

lemma rfc_next_fin_moves: "rfc_next st CtlFin fin \<noteq> Some st"
  by (cases st) auto

lemma rfc_next_states:
  "rfc_next st ctl fin = Some st' \<Longrightarrow> st' \<notin> {Listen, SynSent, SynReceived} \<and>
    (fin \<or> ctl_in_flight st' = ctl_in_flight st) \<and>
    (if ctl = CtlFin then st \<in> {Established, FinWait1, FinWait2} \<and> st' \<notin> {Established, FinWait1, FinWait2}
     else st \<in> {Established, FinWait1, FinWait2} \<or> st' \<notin> {Established, FinWait1, FinWait2})"
  by (cases st; cases ctl; cases fin) (auto simp: ctl_in_flight_def)

lemma update_state_rfc:
  assumes ctl: "ctl \<in> {CtlNone, CtlSyn, CtlFin}" and st: "state s \<notin> {Closed, Listen, SynSent, SynReceived}"
  shows "\<exists>t. update_state cx ip r ctl fin s = Some (case rfc_next (state s) ctl fin of
      None \<Rightarrow> Inl (None, s) | Some st \<Rightarrow> Inr (moved s ctl st t))"
proof -
  consider (none) "rfc_next (state s) ctl fin = None"
    | (same) "rfc_next (state s) ctl fin = Some (state s)" "ctl \<noteq> CtlFin"
    | (tw) "rfc_next (state s) ctl fin = Some TimeWait"
    | (step) st' where "rfc_next (state s) ctl fin = Some st'" "st' \<noteq> state s" "st' \<noteq> TimeWait"
    using rfc_next_fin_moves [of "state s" fin] by (cases "rfc_next (state s) ctl fin") auto
  then show ?thesis
  proof cases
    case none
    have "update_state cx ip r ctl fin s = Some (Inl (None, s))"
      using none st ctl by (cases "state s") (auto simp: update_state_def)
    with none show ?thesis by simp
  next
    case same
    have "update_state cx ip r ctl fin s = Some (Inr s)"
      using same st ctl by (cases "state s"; cases fin) (auto simp: update_state_def set_state_def split: if_splits)
    with same show ?thesis using moved_id [of s ctl] st by (metis insert_iff option.simps(5))
  next
    case tw
    have "update_state cx ip r ctl fin s = Some (Inr (moved s ctl TimeWait (set_for_close (cx_now cx))))"
      using tw st ctl
      by (cases "state s"; cases fin) (auto simp: update_state_def set_state_def enter_time_wait_def moved_def)
    with tw show ?thesis by auto
  next
    case step
    have "update_state cx ip r ctl fin s = Some (Inr (moved s ctl st' (timer s)))"
      using step st ctl by (cases "state s"; cases ctl; cases fin; simp add: update_state_def set_state_def moved_def)
    with step show ?thesis by auto
  qed
qed

lemma update_state_synced:
  assumes inv: "tcp_inv s" and cnt: "ack_counts s r ack_len fin"
    and ctl: "ctl \<in> {CtlNone, CtlSyn, CtlFin}" and st: "state s \<notin> {Closed, Listen, SynSent, SynReceived}"
  shows "\<exists>res. update_state cx ip r ctl fin s = Some res \<and> update_state_post s r ctl ack_len res"
proof -
  obtain t where eq: "update_state cx ip r ctl fin s = Some (case rfc_next (state s) ctl fin of
      None \<Rightarrow> Inl (None, s) | Some st \<Rightarrow> Inr (moved s ctl st t))"
    using update_state_rfc [OF ctl st] by blast
  show ?thesis
  proof (cases "rfc_next (state s) ctl fin")
    case None
    then have "\<not> (state s \<in> {Established, FinWait1, FinWait2} \<and> ctl \<in> {CtlNone, CtlFin})" by auto
    with None eq inv show ?thesis by (simp add: update_state_post_def)
  next
    case (Some st')
    have st': "st' \<notin> {Listen, SynSent, SynReceived}" "fin \<or> ctl_in_flight st' = ctl_in_flight (state s)"
      and f: "if ctl = CtlFin then state s \<in> {Established, FinWait1, FinWait2} \<and> st' \<notin> {Established, FinWait1, FinWait2}
        else state s \<in> {Established, FinWait1, FinWait2} \<or> st' \<notin> {Established, FinWait1, FinWait2}"
      using rfc_next_states [OF Some] by blast+
    have "tuple_ok (if st' = Closed then None else tuple s)"
      using inv by (simp add: tcp_inv_def tuple_ok_def)
    then have ex: "\<exists>t' st seq b u. moved s ctl st' t
        = s\<lparr>state := st, timer := t', remote_seq_no := seq, rx_fin_received := b, tuple := u\<rparr>
      \<and> tuple_ok u \<and> b = (rx_fin_received s \<or> ctl = CtlFin) \<and> seq = remote_seq_no s + of_bool (ctl = CtlFin)"
      unfolding moved_def by blast
    have ms: "state (moved s ctl st' t) = st'" by (simp add: moved_def)
    have "state s \<notin> {Listen, SynSent, SynReceived}" using st by blast
    then have "state_updated s r ctl ack_len (moved s ctl st' t)"
      by (rule state_updatedI [OF inv cnt _ _ _ ex]) (use st' f in \<open>simp_all only: ms simp_thms\<close>)
    with eq Some show ?thesis by (simp add: update_state_post_def)
  qed
qed

lemma update_state_ok:
  assumes "tcp_inv s" "segment_ok r" "state s \<noteq> Closed" "control r = CtlRst \<or> ack_counts s r ack_len fin"
    and "ctl = CtlRst \<longleftrightarrow> control r = CtlRst" "ctl \<noteq> CtlPsh"
  shows "\<exists>res. update_state cx ip r ctl fin s = Some res \<and> update_state_post s r ctl ack_len res"
proof (cases "ctl = CtlRst")
  case True
  with assms(1) show ?thesis using update_state_rst by blast
next
  case False
  then have "ack_counts s r ack_len fin" "ctl \<in> {CtlNone, CtlSyn, CtlFin}"
    using assms by (auto intro: tcp_control.exhaust)
  with False assms show ?thesis
    using update_state_synced [of s r ack_len fin ctl cx ip] update_state_unsynced [of s r ack_len fin ctl cx ip]
    by (cases "state s \<in> {Listen, SynSent, SynReceived}") simp_all
qed

section \<open>Acknowledged octets and timers\<close>

lemma update_ack_fields [simp]:
  "state (update_ack cx r b s) = state s" "rx_buffer (update_ack cx r b s) = rx_buffer s"
  "assembler (update_ack cx r b s) = assembler s" "tx_buffer (update_ack cx r b s) = tx_buffer s"
  "remote_seq_no (update_ack cx r b s) = remote_seq_no s"
  "rx_fin_received (update_ack cx r b s) = rx_fin_received s" "tuple (update_ack cx r b s) = tuple s"
  "remote_mss (update_ack cx r b s) = remote_mss s" "remote_win_scale (update_ack cx r b s) = remote_win_scale s"
  "remote_win_len (update_ack cx r b s) = remote_win_len s"
  "remote_win_shift (update_ack cx r b s) = remote_win_shift s" "rtte (update_ack cx r b s) = rtte s"
  by (simp_all add: update_ack_def Let_def split: option.splits)

lemma update_ack_seq:
  "local_seq_no (update_ack cx r b s) = (case ack_number r of None \<Rightarrow> local_seq_no s | Some ack \<Rightarrow> ack)"
  "remote_last_seq (update_ack cx r b s) = (case ack_number r of None \<Rightarrow> remote_last_seq s
     | Some ack \<Rightarrow> if seq_lt (remote_last_seq s) ack then ack else remote_last_seq s)"
  by (simp_all add: update_ack_def Let_def split: option.splits)

lemma update_ack_cc:
  "cc_inv (congestion_controller s) \<Longrightarrow> cc_inv (congestion_controller (update_ack cx r b s))"
  by (simp add: update_ack_def Let_def split: option.splits)

lemma update_timers_core [simp]: "core (update_timers cx r n a s) = core s"
  by (simp add: update_timers_def core_def Let_def split: option.splits)

lemma update_remote_ok:
  assumes "pending_ack s r ack_len" and seg: "segment_ok r"
    and peer: "peer_ok (remote_mss s) (remote_win_scale s) (remote_win_len s) (remote_win_shift s)
      (congestion_controller s) (rtte s)"
  obtains b s' where "update_remote cx r ack_len s = Some (b, s')"
    and "tx_buffer s' = rb_drop ack_len (tx_buffer s)" and "peer_ok (remote_mss s') (remote_win_scale s')
      (remote_win_len s') (remote_win_shift s') (congestion_controller s') (rtte s')"
    and "\<exists>ts w c tx. s' = s\<lparr>remote_last_ts := ts, remote_win_len := w, congestion_controller := c, tx_buffer := tx\<rparr>"
proof -
  define scale where "scale = (if control r = CtlSyn then 0
    else case remote_win_scale s of Some sc \<Rightarrow> unat sc | None \<Rightarrow> 0)"
  define w where "w = unat (window_len r) * 2 ^ scale"
  have "scale \<le> 14" using peer by (auto simp: scale_def peer_ok_def split: option.splits)
  then have "2 ^ scale \<le> (2 ^ 14 :: nat)" by (rule power_increasing) simp
  moreover have "unat (window_len r) < 65536" using unsigned_less [where ?'a = nat, of "window_len r"] by simp
  ultimately have "w \<le> 65535 * 2 ^ 14" unfolding w_def by (intro mult_le_mono) auto
  then have w: "w < 2 ^ 31" by simp
  define s' where "s' = s\<lparr>remote_last_ts := Some (cx_now cx), remote_win_len := w,
    congestion_controller := cc_set_remote_window (congestion_controller s) w,
    tx_buffer := rb_drop ack_len (tx_buffer s)\<rparr>"
  have rb: "rb_inv (tx_buffer s)" "ack_len \<le> rb_length (tx_buffer s)"
    using assms(1) by (simp_all add: pending_ack_def rb_len_def)
  have "rb_drop 0 (tx_buffer s) = tx_buffer s"
    using rb(1) by (auto simp: rb_drop_def get_idx_def rb_inv_def Let_def)
  then have "update_remote cx r ack_len s = Some (w \<noteq> remote_win_len s, s')"
    using rb dequeue_allocated_spec [OF rb]
    by (auto simp: update_remote_def Let_def s'_def w_def scale_def rb_len_def)
  moreover have "peer_ok (remote_mss s') (remote_win_scale s')
      (remote_win_len s') (remote_win_shift s') (congestion_controller s') (rtte s')"
    using peer w by (simp add: s'_def peer_ok_def)
  ultimately show thesis by (intro that) (auto simp: s'_def)
qed

text \<open>The span of sequence numbers in flight, after an acknowledgement.\<close>

lemma span_after_ack:
  fixes l :: seq
  assumes d: "0 \<le> sint (nxt - l)" "sint (nxt - l) \<le> 2 ^ 31 - 1" and adv: "adv < 2 ^ 31"
  shows "sint ((if seq_lt nxt (l + of_nat adv) then l + of_nat adv else nxt) - (l + of_nat adv))
    = max 0 (sint (nxt - l) - int adv)"
proof -
  define k where "k = sint (nxt - l)"
  have nxt: "nxt = l + of_int k" by (simp add: k_def)
  have "seq_lt nxt (l + of_int (int adv)) \<longleftrightarrow> k < int adv"
    unfolding nxt using d adv by (intro seq_lt_dist) (auto simp: k_def)
  moreover have "sint (of_int (k - int adv) :: seq) = k - int adv"
    using d adv by (intro sint_of_int_small) (auto simp: k_def)
  ultimately show ?thesis unfolding k_def [symmetric] by (auto simp: nxt)
qed

lemma tx_ok_after_ack:
  assumes p: "pending_ack s r ack_len" and tx: "tx_buffer s' = rb_drop ack_len (tx_buffer s)"
    and st: "state s' = state s" "local_seq_no s' = local_seq_no s" "remote_last_seq s' = remote_last_seq s"
  shows "tx_ok (state s) (tx_buffer s') (local_seq_no (update_ack cx r b s'))
    (remote_last_seq (update_ack cx r b s'))"
proof -
  have rb: "rb_inv (tx_buffer s)" "ack_len \<le> rb_length (tx_buffer s)"
    using p by (simp_all add: pending_ack_def rb_len_def)
  have len: "rb_len (tx_buffer s) \<le> 2 ^ 31 - 2"
    using p by (auto simp: pending_ack_def rb_inv_def rb_len_def)
  obtain adv where adv: "adv < 2 ^ 31"
    "case ack_number r of None \<Rightarrow> adv = 0 | Some ack \<Rightarrow> ack = local_seq_no s + of_nat adv"
    and le: "sint (remote_last_seq s - local_seq_no s) - int adv
          \<le> int (rb_len (tx_buffer s) - ack_len + ctl_in_flight (state s))"
    using p by (auto simp: pending_ack_def)
  have "sint (remote_last_seq (update_ack cx r b s') - local_seq_no (update_ack cx r b s'))
      = max 0 (sint (remote_last_seq s - local_seq_no s) - int adv)"
    using adv st p len span_after_ack [of "remote_last_seq s" "local_seq_no s" adv]
    by (auto simp: update_ack_seq pending_ack_def split: option.splits)
  then show ?thesis
    using le rb_drop_props [OF rb] p by (auto simp: tx_ok_def tx rb_len_def pending_ack_def)
qed

lemma unsynced_ok_tx:
  "unsynced_ok st rx tx asm fin \<Longrightarrow> rb_len tx' \<le> rb_len tx \<Longrightarrow> unsynced_ok st rx tx' asm fin"
  by (auto simp: unsynced_ok_def)

text \<open>The three steps together.\<close>

lemma acknowledged_ok:
  assumes upd: "state_updated s0 r ctl ack_len s" and seg: "segment_ok r"
    and rx: "rx_ok (rx_buffer s0) (assembler s0)"
  obtains b s' where "update_remote cx r ack_len s = Some (b, s')"
    and "tcp_inv (update_timers cx r ack_len all (update_ack cx r b s'))"
    and "rx_buffer (update_timers cx r ack_len all (update_ack cx r b s')) = rx_buffer s0"
      "assembler (update_timers cx r ack_len all (update_ack cx r b s')) = assembler s0"
      "remote_seq_no (update_timers cx r ack_len all (update_ack cx r b s')) = remote_seq_no s"
      "rx_fin_received (update_timers cx r ack_len all (update_ack cx r b s')) = rx_fin_received s"
      "state (update_timers cx r ack_len all (update_ack cx r b s')) = state s"
proof -
  have p: "pending_ack s r ack_len" and peer: "peer_ok (remote_mss s) (remote_win_scale s)
      (remote_win_len s) (remote_win_shift s) (congestion_controller s) (rtte s)"
    using upd by (simp_all add: state_updated_def)
  obtain b s' where s': "update_remote cx r ack_len s = Some (b, s')"
    and tx: "tx_buffer s' = rb_drop ack_len (tx_buffer s)" and peer': "peer_ok (remote_mss s') (remote_win_scale s')
      (remote_win_len s') (remote_win_shift s') (congestion_controller s') (rtte s')"
    and eq: "\<exists>ts w c tx. s' = s\<lparr>remote_last_ts := ts, remote_win_len := w, congestion_controller := c, tx_buffer := tx\<rparr>"
    using update_remote_ok [OF p seg peer] .
  let ?s = "update_ack cx r b s'"
  have same: "state s' = state s" "local_seq_no s' = local_seq_no s" "remote_last_seq s' = remote_last_seq s"
    "rx_buffer s' = rx_buffer s0" "assembler s' = assembler s0" "remote_seq_no s' = remote_seq_no s"
    "rx_fin_received s' = rx_fin_received s" "tuple s' = tuple s"
    using eq upd by (auto simp: state_updated_def)
  have un: "unsynced_ok (state s) (rx_buffer s) (tx_buffer s) (assembler s) (rx_fin_received s)"
    using upd unfolding state_updated_def by blast
  have "rb_length (tx_buffer s') = rb_length (tx_buffer s) - ack_len"
    using tx p by (simp add: pending_ack_def rb_len_def rb_drop_props)
  then have "unsynced_ok (state s) (rx_buffer s) (tx_buffer s') (assembler s) (rx_fin_received s)"
    by (intro unsynced_ok_tx [OF un]) (simp add: rb_len_def)
  moreover have "tx_ok (state s) (tx_buffer s') (local_seq_no ?s) (remote_last_seq ?s)"
    using tx_ok_after_ack [OF p tx same(1,2,3)] .
  moreover have "tuple_ok (tuple s)" "rx_buffer s = rx_buffer s0" "assembler s = assembler s0"
    using upd by (simp_all add: state_updated_def)
  ultimately have "tcp_inv ?s"
    using rx peer' same update_ack_cc by (simp add: tcp_inv_def peer_ok_def)
  then have "tcp_inv (update_timers cx r ack_len all ?s)" by (simp add: core_inv [OF update_timers_core])
  with s' same show thesis
    using core_fields [OF update_timers_core, of cx r ack_len all ?s] by (intro that) simp_all
qed


section \<open>Properties\<close>

text \<open>
  Once the connection is synchronized, the state machine is that of RFC 793. A segment that
  passed the acceptance tests moves the socket exactly along the transition table, or is dropped
  without any effect where the table has no entry; a FIN is recorded, entering TIME-WAIT starts
  its timer, and a closed connection forgets its endpoints.
\<close>

lemma update_state_follows_rfc:
  assumes "ctl \<in> {CtlNone, CtlSyn, CtlFin}" and "state s \<notin> {Closed, Listen, SynSent, SynReceived}"
  shows "case update_state cx ip r ctl ack_of_fin s of
      None \<Rightarrow> False
    | Some (Inl (rep, s')) \<Rightarrow> rfc_next (state s) ctl ack_of_fin = None \<and> rep = None \<and> s' = s
    | Some (Inr s') \<Rightarrow> rfc_next (state s) ctl ack_of_fin = Some (state s') \<and>
        rx_fin_received s' = (rx_fin_received s \<or> ctl = CtlFin) \<and>
        (state s' = TimeWait \<longrightarrow> timer s' = set_for_close (cx_now cx)) \<and>
        (state s' = Closed \<longrightarrow> tuple s' = None)"
proof (cases "rfc_next (state s) ctl ack_of_fin")
  case None
  with update_state_rfc [OF assms, of cx ip r ack_of_fin] show ?thesis by simp
next
  case (Some st)
  obtain t where t: "update_state cx ip r ctl ack_of_fin s = Some (Inr (moved s ctl st t))"
    using update_state_rfc [OF assms, of cx ip r ack_of_fin] Some by auto
  have "st = TimeWait \<Longrightarrow> timer (moved s ctl st t) = set_for_close (cx_now cx)"
    using t Some assms
    by (cases "state s"; cases ctl; cases ack_of_fin)
      (auto simp: update_state_def set_state_def enter_time_wait_def split: if_splits dest!: arg_cong [where f = timer])
  with t Some show ?thesis by (simp add: moved_def)
qed

lemma update_state_follows_rfc_witness:
  "rfc_next Established CtlFin False = Some CloseWait \<and>
   (\<exists>s'. update_state demo_cx demo_ip (demo_segment CtlFin 5001 (Some 2001) []) CtlFin False demo_established
     = Some (Inr s') \<and> state s' = CloseWait \<and> rx_fin_received s')"
proof -
  have st: "state demo_established = Established" by (simp add: demo_established_def)
  show ?thesis
    using update_state_follows_rfc [of CtlFin demo_established False demo_cx demo_ip
        "demo_segment CtlFin 5001 (Some 2001) []"]
    by (auto simp: st split: option.splits sum.splits)
qed



text \<open>
  \<open>send_slice\<close> queues exactly the octets that fit behind those already queued, and says how
  many; \<open>recv_slice\<close> hands out the oldest received octets in order, and forgets exactly those. Both
  give an error and change nothing when the direction is closed.
\<close>

lemma send_recv_functional:
  assumes "tcp_inv s"
  shows "(\<exists>s'. send_slice data s = Some (if may_send s then Inr (min (length data) (rb_window (tx_buffer s)))
             else Inl SendInvalidState, s') \<and>
           rb_list (tx_buffer s') = rb_list (tx_buffer s) @
             (if may_send s then take (rb_window (tx_buffer s)) data else [])) \<and>
    (if may_recv s
     then \<exists>s'. recv_slice buf s = Some (Inr (min (length buf) (rb_len (rx_buffer s)),
              overwrite buf 0 (take (length buf) (rb_list (rx_buffer s)))), s') \<and>
            rb_list (rx_buffer s') = drop (length buf) (rb_list (rx_buffer s))
     else recv_slice buf s = Some (Inl (if rx_fin_received s then RecvFinished else RecvInvalidState), s))"
proof -
  obtain res s1 where send: "send_slice data s = Some (res, s1)"
    "res = (if may_send s then Inr (min (length data) (rb_window (tx_buffer s))) else Inl SendInvalidState)"
    "rb_list (tx_buffer s1) = rb_list (tx_buffer s) @ (if may_send s then take (rb_window (tx_buffer s)) data else [])"
    using send_slice_inv [OF assms] by blast
  have rb: "rb_inv (rx_buffer s)" using assms by (simp add: tcp_inv_def rx_ok_def)
  have "if may_recv s
     then \<exists>s'. recv_slice buf s = Some (Inr (min (length buf) (rb_len (rx_buffer s)),
              overwrite buf 0 (take (length buf) (rb_list (rx_buffer s)))), s') \<and>
            rb_list (rx_buffer s') = drop (length buf) (rb_list (rx_buffer s))
     else recv_slice buf s = Some (Inl (if rx_fin_received s then RecvFinished else RecvInvalidState), s)"
  proof (rule recv_slice_inv [OF assms, of buf])
    fix n s'
    assume *: "recv_slice buf s = Some (Inr (n, overwrite buf 0 (take n (rb_list (rx_buffer s)))), s')"
      "may_recv s" "n = min (length buf) (rb_len (rx_buffer s))"
      "s' = s\<lparr>rx_buffer := rb_drop n (rx_buffer s), remote_seq_no := remote_seq_no s + of_nat n\<rparr>"
    have len: "length (rb_list (rx_buffer s)) = rb_len (rx_buffer s)" by (simp add: rb_len_def)
    have "take n (rb_list (rx_buffer s)) = take (length buf) (rb_list (rx_buffer s))"
      using *(3) len by (intro take_min_cong) simp
    moreover have "rb_list (rb_drop n (rx_buffer s)) = drop (length buf) (rb_list (rx_buffer s))"
      using rb_drop_props [OF rb, of n] *(3) len by (auto simp: min_def rb_len_def)
    ultimately show ?thesis using * by simp
  qed auto
  with send show ?thesis by blast
qed

lemma send_recv_functional_witness:
  "\<exists>s'. send_slice [1, 2, 3] demo_established = Some (Inr 3, s') \<and> rb_list (tx_buffer s') = [1, 2, 3]"
  using send_recv_functional [OF demo_established_inv, of "[1, 2, 3]" "[]"]
  by (auto simp: demo_established_def demo_closed_eq may_send_def rb_list_def)

end
