(* ===== verification/Tcp_Receive.thy ===== *)
theory Tcp_Receive
  imports Tcp_Safety Interfaces
begin

text \<open>
  The receive path of the socket: the ring buffer with the assembler in front of it implements
  the reassembly interface, and \<open>process\<close> as a whole keeps the invariant.
\<close>

section \<open>Ring buffer and assembler\<close>

type_synonym rx_state = "u8 ring_buffer \<times> assembler"

definition rx_good :: "rx_state \<Rightarrow> bool" where
  "rx_good b = rx_ok (fst b) (snd b)"

definition rx_room :: "rx_state \<Rightarrow> nat" where
  "rx_room b = rb_window (fst b)"

definition rx_content :: "rx_state \<Rightarrow> u8 list" where
  "rx_content b = rb_list (fst b)"

definition rx_agrees :: "(nat \<Rightarrow> u8) \<Rightarrow> rx_state \<Rightarrow> bool" where
  "rx_agrees f b \<longleftrightarrow> (\<forall>i < rb_length (fst b). rb_at (fst b) i = f i) \<and>
     (\<forall>j \<in> asm_cover 0 (snd b). rb_at (fst b) (rb_length (fst b) + j) = f (rb_length (fst b) + j))"

definition rx_consume :: "nat \<Rightarrow> rx_state \<Rightarrow> rx_state" where
  "rx_consume n b = (rb_drop n (fst b), snd b)"

text \<open>Storing octets, in terms of the assembler's result.\<close>

lemma store_payload_ok:
  assumes rx: "rx_ok rx asm" and fits: "offset + length xs \<le> rb_window rx" and ne: "xs \<noteq> []"
  obtains (full) "store_payload offset xs (rx, asm) = Some None" "offset \<noteq> 0"
  | (ok) m rx' asm' where "store_payload offset xs (rx, asm) = Some (Some (rx', asm'))"
      "rx_ok rx' asm'" "rb_length rx' = rb_length rx + m" "rb_capacity rx' = rb_capacity rx"
      "length asm' = length asm"
      "front_split (asm_cover 0 asm \<union> {offset ..< offset + length xs}) m (asm_cover 0 asm')"
      "\<And>i. i < rb_capacity rx \<Longrightarrow> rb_at rx' i =
         (if rb_length rx + offset \<le> i \<and> i < rb_length rx + offset + length xs
          then xs ! (i - rb_length rx - offset) else rb_at rx i)"
      "m + asm_extent asm' = max (asm_extent asm) (offset + length xs)"
proof -
  have inv: "rb_inv rx" "asm_inv asm" and ext: "asm_extent asm \<le> rb_window rx"
    using rx by (simp_all add: rx_ok_def)
  have off: "offset \<le> rb_window rx" and n: "length xs = min (length xs) (rb_window rx - offset)"
    using fits by simp_all
  obtain rx1 where w: "write_unallocated offset xs rx = (length xs, rx1)" "rb_inv rx1"
    "rb_capacity rx1 = rb_capacity rx" "rb_length rx1 = rb_length rx"
    "\<And>i. i < rb_capacity rx \<Longrightarrow> rb_at rx1 i = (if rb_length rx + offset \<le> i \<and> i < rb_length rx + offset + length xs
         then xs ! (i - rb_length rx - offset) else rb_at rx i)"
    using write_unallocated_spec [OF inv(1) off n] by blast
  show thesis
  proof (cases rule: asm_atrf_ok [OF inv(2), of offset "length xs"])
    case 1
    then show thesis by (intro full) (simp_all add: store_payload.simps)
  next
    case (2 m asm')
    have ext': "m + asm_extent asm' = max (asm_extent asm) (offset + length xs)" using 2(5) ne by simp
    then have m: "m + asm_extent asm' \<le> rb_window rx1"
      using ext fits w by (simp add: rb_window_def rb_len_def)
    obtain rx2 where e: "enqueue_unallocated m rx1 = Some rx2" "rb_inv rx2" "rb_capacity rx2 = rb_capacity rx1"
      "rb_length rx2 = rb_length rx1 + m" "\<And>i. rb_at rx2 i = rb_at rx1 i"
      using enqueue_unallocated_spec [OF w(2), of m] m by auto
    have "enqueue_unallocated 0 rx1 = Some rx1" by (simp add: enqueue_unallocated_def)
    then have st: "store_payload offset xs (rx, asm) = Some (Some (rx2, asm'))"
      using 2(1) w(1) e(1) by (cases "m = 0") (simp_all add: store_payload.simps)
    have good: "rx_ok rx2 asm'"
      using rx 2 w e m by (simp add: rx_ok_def rb_window_def rb_len_def)
    show thesis
      using 2 w e ext' by (intro ok [OF st good, of m]) simp_all
  qed
qed

lemma rx_agrees_store:
  assumes rx: "rx_ok rx asm" and fits: "offset + length xs \<le> rb_window rx"
    and agr: "rx_agrees f (rx, asm)" and xs: "\<And>i. i < length xs \<Longrightarrow> xs ! i = f (rb_length rx + offset + i)"
    and len: "rb_length rx' = rb_length rx + m" and ext: "m + asm_extent asm' \<le> rb_window rx"
    and split: "front_split (asm_cover 0 asm \<union> {offset ..< offset + length xs}) m (asm_cover 0 asm')"
    and at: "\<And>i. i < rb_capacity rx \<Longrightarrow> rb_at rx' i =
         (if rb_length rx + offset \<le> i \<and> i < rb_length rx + offset + length xs
          then xs ! (i - rb_length rx - offset) else rb_at rx i)"
  shows "rx_agrees f (rx', asm')"
proof -
  let ?l = "rb_length rx" and ?S = "asm_cover 0 asm \<union> {offset ..< offset + length xs}"
  have cap: "?l + rb_window rx = rb_capacity rx"
    using rx by (auto simp: rx_ok_def rb_inv_def rb_window_def rb_len_def)
  have old: "rb_at rx' i = f i" if "i < ?l" for i
    using that agr cap by (simp add: at rx_agrees_def)
  have new: "rb_at rx' (?l + j) = f (?l + j)" if j: "j \<in> ?S" for j
  proof -
    have "j < rb_window rx"
      using j fits rx asm_cover_bounds [of j 0 asm] by (auto simp: rx_ok_def)
    then have "?l + j < rb_capacity rx" using cap by simp
    then show ?thesis
      using j agr xs [of "j - offset"] by (auto simp: at rx_agrees_def)
  qed
  have "rb_at rx' i = f i" if "i < ?l + m" for i
  proof (cases "i < ?l")
    case False
    then have "i - ?l \<in> {0..<m}" using that by auto
    then have "i - ?l \<in> ?S" using split unfolding front_split_def by blast
    with new [of "i - ?l"] False show ?thesis by simp
  qed (rule old)
  moreover have "rb_at rx' (?l + m + j) = f (?l + m + j)" if "j \<in> asm_cover 0 asm'" for j
    using that split new [of "m + j"] by (simp add: front_split_def add.assoc)
  ultimately show ?thesis by (simp add: rx_agrees_def len)
qed

interpretation rx_path: reassembly rx_good rx_room rx_content rx_agrees store_payload rx_consume
proof unfold_locales
  fix b :: rx_state and offset :: nat and xs :: "u8 list"
  assume *: "rx_good b" "offset + length xs \<le> rx_room b" "xs \<noteq> []"
  obtain rx asm where b: "b = (rx, asm)" by (cases b)
  show "\<exists>res. store_payload offset xs b = Some res \<and> (\<forall>b'. res = Some b' \<longrightarrow> rx_good b' \<and>
        (\<exists>ys. rx_content b' = rx_content b @ ys) \<and>
        rx_room b' + length (rx_content b') = rx_room b + length (rx_content b))"
  proof (rule store_payload_ok [of rx asm offset xs])
    fix m rx' asm'
    assume s: "store_payload offset xs (rx, asm) = Some (Some (rx', asm'))" "rx_ok rx' asm'"
      and l: "rb_length rx' = rb_length rx + m" "rb_capacity rx' = rb_capacity rx"
      and at: "\<And>i. i < rb_capacity rx \<Longrightarrow> rb_at rx' i = (if rb_length rx + offset \<le> i \<and>
        i < rb_length rx + offset + length xs then xs ! (i - rb_length rx - offset) else rb_at rx i)"
    have cap: "rb_length rx \<le> rb_capacity rx" "rb_length rx' \<le> rb_capacity rx'"
      using * s by (auto simp: b rx_good_def rx_ok_def rb_inv_def)
    have "take (rb_length rx) (rb_list rx') = rb_list rx"
      using l cap at by (intro nth_equalityI) auto
    then have "rb_list rx' = rb_list rx @ drop (rb_length rx) (rb_list rx')"
      by (metis append_take_drop_id)
    with s l cap show ?thesis
      by (auto simp: b rx_good_def rx_content_def rx_room_def rb_window_def rb_len_def)
  qed (use * in \<open>auto simp: b rx_good_def rx_room_def\<close>)
next
  fix b :: rx_state and xs :: "u8 list"
  assume *: "rx_good b" "length xs \<le> rx_room b" "xs \<noteq> []"
  obtain rx asm where b: "b = (rx, asm)" by (cases b)
  show "\<exists>b'. store_payload 0 xs b = Some (Some b') \<and>
      length (rx_content b) + length xs \<le> length (rx_content b')"
  proof (rule store_payload_ok [of rx asm 0 xs])
    fix m rx' asm'
    assume s: "store_payload 0 xs (rx, asm) = Some (Some (rx', asm'))" "rb_length rx' = rb_length rx + m"
      "front_split (asm_cover 0 asm \<union> {0 ..< 0 + length xs}) m (asm_cover 0 asm')"
    then have "length xs \<le> m" by (auto simp: front_split_def)
    with s show ?thesis by (auto simp: b rx_content_def)
  qed (use * in \<open>auto simp: b rx_good_def rx_room_def\<close>)
next
  fix b b' :: rx_state and f offset and xs :: "u8 list"
  assume *: "rx_good b" "rx_agrees f b" "offset + length xs \<le> rx_room b" "xs \<noteq> []"
    "store_payload offset xs b = Some (Some b')"
    and xs: "\<And>i. i < length xs \<Longrightarrow> xs ! i = f (length (rx_content b) + offset + i)"
  obtain rx asm where b: "b = (rx, asm)" by (cases b)
  have rx: "rx_ok rx asm" "offset + length xs \<le> rb_window rx" using * by (auto simp: b rx_good_def rx_room_def)
  show "rx_agrees f b'"
  proof (rule store_payload_ok [OF rx *(4)])
    fix m rx' asm'
    assume s: "store_payload offset xs (rx, asm) = Some (Some (rx', asm'))" "rb_length rx' = rb_length rx + m"
      "front_split (asm_cover 0 asm \<union> {offset ..< offset + length xs}) m (asm_cover 0 asm')"
      "m + asm_extent asm' = max (asm_extent asm) (offset + length xs)"
      and at: "\<And>i. i < rb_capacity rx \<Longrightarrow> rb_at rx' i = (if rb_length rx + offset \<le> i \<and>
        i < rb_length rx + offset + length xs then xs ! (i - rb_length rx - offset) else rb_at rx i)"
    have "m + asm_extent asm' \<le> rb_window rx" using s rx by (simp add: rx_ok_def)
    then have "rx_agrees f (rx', asm')"
      using * xs by (intro rx_agrees_store [OF rx _ _ s(2) _ s(3) at]) (auto simp: b rx_content_def)
    with s * show ?thesis by (simp add: b)
  qed (use * in \<open>auto simp: b\<close>)
next
  fix b :: rx_state and f
  assume "rx_good b" "rx_agrees f b"
  then show "rx_content b = map f [0..<length (rx_content b)]"
    by (auto simp: rx_content_def rx_agrees_def intro!: nth_equalityI)
next
  fix b :: rx_state and n
  assume *: "rx_good b" "n \<le> length (rx_content b)"
  then show "rx_good (rx_consume n b) \<and> rx_content (rx_consume n b) = drop n (rx_content b) \<and>
      rx_room (rx_consume n b) = rx_room b + n"
    using rb_drop_props [of "fst b" n] rx_ok_drop [of "fst b" "snd b" n]
    by (auto simp: rx_good_def rx_content_def rx_consume_def rx_room_def rx_ok_def rb_window_def rb_len_def rb_inv_def)
next
  fix b :: rx_state and f n
  assume *: "rx_good b" "rx_agrees f b" "n \<le> length (rx_content b)"
  obtain rx asm where b: "b = (rx, asm)" by (cases b)
  have inv: "rb_inv rx" "n \<le> rb_length rx" using * by (auto simp: b rx_good_def rx_ok_def rx_content_def)
  have cap: "rb_length rx \<le> rb_capacity rx" using inv by (simp add: rb_inv_def)
  have lt: "rb_length rx + j < rb_capacity rx" if "j \<in> asm_cover 0 asm" for j
    using that * asm_cover_bounds [of j 0 asm] by (auto simp: b rx_good_def rx_ok_def rb_window_def rb_len_def)
  have "rb_at (rb_drop n rx) i = rb_at rx (i + n)" if "i + n < rb_capacity rx" for i
    using that by (intro rb_drop_props(5) [OF inv]) simp
  then show "rx_agrees (\<lambda>i. f (n + i)) (rx_consume n b)"
    using * cap lt rb_drop_props(4) [OF inv] inv
    by (auto simp: b rx_agrees_def rx_consume_def add.commute)
qed

section \<open>\<open>process\<close> keeps the invariant\<close>

lemma update_ack_delay_ok:
  assumes "rx_ok (rx_buffer s) (assembler s)" and "remote_mss s \<le> 65535"
  obtains s' where "update_ack_delay cx s = Some s'" and "core s' = core s"
proof -
  have "\<exists>b1 b2. ack_to_transmit s = Some b1 \<and> immediate_ack_to_transmit s = Some b2"
    using rx_len_bound [OF assms(1)] assms(2)
    by (cases "remote_last_ack s"; simp add: ack_to_transmit_def immediate_ack_to_transmit_def; blast?)
  then obtain b1 b2 where b: "ack_to_transmit s = Some b1" "immediate_ack_to_transmit s = Some b2" by blast
  have "\<exists>s'. update_ack_delay cx s = Some s' \<and> core s' = core s"
    by (cases "ack_delay s"; cases b1; cases b2; cases "ack_delay_timer s"; simp add: b update_ack_delay_def core_def)
  then show thesis using that by blast
qed

text \<open>The buffers after a payload has been offered.\<close>

definition stored :: "nat \<Rightarrow> u8 list \<Rightarrow> rx_state \<Rightarrow> rx_state \<Rightarrow> bool" where
  "stored offset part b b' \<longleftrightarrow> (if part = [] then b' = b
     else store_payload offset part b = Some None \<and> b' = b \<or> store_payload offset part b = Some (Some b'))"

lemma receive_payload_ok:
  assumes inv: "tcp_inv s" and part: "part \<noteq> [] \<longrightarrow>
      offset + length part \<le> rb_window (rx_buffer s) \<and> state s \<notin> {Listen, SynSent, SynReceived}"
  obtains rep s' where "receive_payload cx ip r part offset s = Some (rep, s')" and "tcp_inv s'"
    and "stored offset part (rx_buffer s, assembler s) (rx_buffer s', assembler s')"
    and "remote_seq_no s' = remote_seq_no s" "rx_fin_received s' = rx_fin_received s" "state s' = state s"
proof (cases "part = []")
  case True
  with inv show thesis by (intro that) (auto simp: receive_payload_def stored_def)
next
  case False
  have rx: "rx_ok (rx_buffer s) (assembler s)" and mss: "remote_mss s \<le> 65535"
    using inv by (simp_all add: tcp_inv_def peer_ok_def)
  have fits: "offset + length part \<le> rb_window (rx_buffer s)" using part False by blast
  show thesis
  proof (cases rule: store_payload_ok [OF rx fits False])
    case 1
    with inv False show thesis by (intro that) (auto simp: receive_payload_def stored_def)
  next
    case (2 m rx' asm')
    let ?s = "s\<lparr>rx_buffer := rx', assembler := asm'\<rparr>"
    have inv1: "tcp_inv ?s" using inv 2(2) part False by (simp add: tcp_inv_def unsynced_ok_def)
    then have ok1: "rx_ok (rx_buffer ?s) (assembler ?s)" "remote_mss ?s \<le> 65535" using 2(2) mss by simp_all
    obtain s1 where s1: "update_ack_delay cx ?s = Some s1" "core s1 = core ?s"
      using update_ack_delay_ok [OF ok1] by blast
    have ok2: "rx_ok (rx_buffer s1) (assembler s1)" using ok1 core_fields [OF s1(2)] by simp
    obtain rep s2 where s2: "ack_reply cx ip r s1 = Some (rep, s2)" "core s2 = core s1"
      using ack_reply_ok [OF ok2] by blast
    have "\<exists>rep s'. receive_payload cx ip r part offset s = Some (rep, s') \<and> core s' = core ?s"
      using False 2(1) s1 s2 by (simp add: receive_payload_def)
    then obtain rep s' where s': "receive_payload cx ip r part offset s = Some (rep, s')" "core s' = core ?s"
      by blast
    then have inv': "tcp_inv s'" using inv1 core_inv by blast
    show thesis
      by (rule that [OF s'(1) inv']) (use 2(1) False core_fields [OF s'(2)] in \<open>auto simp: stored_def\<close>)
  qed
qed

lemma effective_control_ok:
  assumes "rx_ok (rx_buffer s) (assembler s)"
  obtains ctl where "effective_control r s = Some ctl" and "ctl = CtlRst \<longleftrightarrow> control r = CtlRst"
    and "ctl \<noteq> CtlPsh" and "ctl = CtlFin \<longleftrightarrow> control r = CtlFin \<and>
      \<not> seq_lt (remote_seq_no s + of_nat (rb_len (rx_buffer s))) (seq_number r)"
  using rx_len_bound [OF assms] that by (cases "control r") (auto simp: effective_control_def)

lemma effective_control_receives:
  "effective_control r s = Some ctl \<Longrightarrow> control r \<in> {CtlNone, CtlPsh, CtlFin} \<Longrightarrow> ctl \<in> {CtlNone, CtlFin}"
  by (cases "control r") (auto simp: effective_control_def bind_eq_Some_conv Let_def split: if_splits)

text \<open>
  The segments whose octets reach the buffers: those of a state that still receives, with an
  acceptable acknowledgement, that overlap the window.
\<close>

definition deliverable :: "tcp_socket \<Rightarrow> tcp_repr \<Rightarrow> bool" where
  "deliverable s r \<longleftrightarrow> state s \<in> {Established, FinWait1, FinWait2} \<and> control r \<in> {CtlNone, CtlPsh, CtlFin} \<and>
     ack_ok s r \<and> in_win (rb_window (rx_buffer s)) (segment_pos s r) (length (payload r))"

text \<open>
  What a segment does to the receive half: nothing; or it synchronizes it; or the octets of the
  segment inside the window are offered to the buffers, and the FIN takes a sequence number.
\<close>

definition rx_effect :: "tcp_socket \<Rightarrow> tcp_repr \<Rightarrow> tcp_socket \<Rightarrow> bool" where
  "rx_effect s r s' \<longleftrightarrow>
     (state s' \<in> {Listen, SynSent, SynReceived} \<longrightarrow> state s \<in> {Listen, SynSent, SynReceived}) \<and>
     (rx_buffer s' = rx_buffer s \<and> assembler s' = assembler s \<and> remote_seq_no s' = remote_seq_no s \<and>
       rx_fin_received s' = rx_fin_received s \<and> state s' \<in> {state s, Listen, Closed} \<and> \<not> deliverable s r \<or>
     state s \<in> {Listen, SynSent} \<and> state s' \<notin> {Listen, SynSent} \<and> rx_buffer s' = rx_buffer s \<and>
       assembler s' = assembler s \<and> remote_seq_no s' = seq_number r + 1 \<and> control r = CtlSyn \<and>
       rx_fin_received s' = rx_fin_received s \<or>
     state s \<notin> {Listen, SynSent} \<and> (\<exists>part offset fin. window_part s r part offset \<and>
       stored offset part (rx_buffer s, assembler s) (rx_buffer s', assembler s') \<and>
       remote_seq_no s' = remote_seq_no s + of_bool fin \<and> rx_fin_received s' = (rx_fin_received s \<or> fin) \<and>
       (fin \<longrightarrow> \<not> rx_fin_received s) \<and>
       (fin \<longleftrightarrow> control r = CtlFin \<and>
         \<not> seq_lt (remote_seq_no s + of_nat (rb_len (rx_buffer s))) (seq_number r))))"

lemma rx_effect_core: "core s' = core s \<Longrightarrow> \<not> deliverable s r \<Longrightarrow> rx_effect s r s'"
  by (auto simp: rx_effect_def dest: core_fields)

text \<open>Where a segment that passed the checks moves the state of a synchronized connection.\<close>

definition synced :: "tcp_state \<Rightarrow> bool" where
  "synced st \<longleftrightarrow> st \<notin> {Closed, Listen, SynSent, SynReceived}"

definition moves :: "tcp_socket \<Rightarrow> tcp_repr \<Rightarrow> tcp_socket \<Rightarrow> bool" where
  "moves s r s' \<longleftrightarrow> (\<exists>ctl ack_len fin. effective_control r s = Some ctl \<and> ack_counts s r ack_len fin \<and>
     state s' = (case rfc_next (state s) ctl fin of Some st \<Rightarrow> st | None \<Rightarrow> state s))"

lemma update_state_moves:
  assumes "update_state cx ip r ctl fin s = Some res" and "synced (state s)" and "ctl \<in> {CtlNone, CtlSyn, CtlFin}"
  shows "(case res of Inl (_, s') \<Rightarrow> state s' | Inr s' \<Rightarrow> state s')
    = (case rfc_next (state s) ctl fin of Some st \<Rightarrow> st | None \<Rightarrow> state s)"
proof -
  have "state s \<notin> {Closed, Listen, SynSent, SynReceived}" using assms(2) by (simp add: synced_def)
  from update_state_rfc [OF assms(3) this, of cx ip r fin] assms(1) show ?thesis
    by (auto simp: moved_def split: option.splits)
qed

lemma window_part_fits:
  "window_part s r part offset \<Longrightarrow> offset + length part \<le> rb_window (rx_buffer s)"
  by (auto simp: window_part_def)

lemma process_accepted_ok:
  assumes inv: "tcp_inv s" and seg: "segment_ok r" and st: "state s \<noteq> Closed"
    and ack: "control r = CtlRst \<or> ack_ok s r"
    and part: "if state s \<in> {Listen, SynSent} then part = [] else window_part s r part offset"
  obtains rep s' where "process_accepted cx ip r part offset s = Some (rep, s')" "tcp_inv s'" "rx_effect s r s'"
    "synced (state s) \<and> control r \<noteq> CtlRst \<longrightarrow> moves s r s'"
proof -
  obtain ack_len fin all s1 where c: "count_acked cx r s = Some (ack_len, fin, all, s1)" "tcp_inv s1"
    "\<exists>rt cc. s1 = s\<lparr>rtte := rt, congestion_controller := cc\<rparr>" "control r = CtlRst \<or> ack_counts s r ack_len fin"
    using count_acked_ok [OF inv ack] by blast
  have same1: "state s1 = state s" "rx_buffer s1 = rx_buffer s" "assembler s1 = assembler s"
    "remote_seq_no s1 = remote_seq_no s" "rx_fin_received s1 = rx_fin_received s"
    "tx_buffer s1 = tx_buffer s" "local_seq_no s1 = local_seq_no s"
    using c(3) by auto
  have cnt1: "control r = CtlRst \<or> ack_counts s1 r ack_len fin" using c(4) unfolding ack_counts_def same1 .
  have rx1: "rx_ok (rx_buffer s1) (assembler s1)" using c(2) by (simp add: tcp_inv_def)
  obtain ctl where ctl: "effective_control r s1 = Some ctl" "ctl = CtlRst \<longleftrightarrow> control r = CtlRst" "ctl \<noteq> CtlPsh"
    "ctl = CtlFin \<longleftrightarrow> control r = CtlFin \<and>
      \<not> seq_lt (remote_seq_no s1 + of_nat (rb_len (rx_buffer s1))) (seq_number r)"
    using effective_control_ok [OF rx1] by blast
  obtain res where res: "update_state cx ip r ctl fin s1 = Some res" "update_state_post s1 r ctl ack_len res"
    using update_state_ok [OF c(2) seg _ cnt1 ctl(2,3), of cx ip] st same1 by auto
  have eff: "effective_control r s = Some ctl" using ctl(1) unfolding effective_control_def same1 .
  have mv: "moves s r s'" if "synced (state s)" "control r \<noteq> CtlRst"
    "state s' = (case res of Inl (_, s') \<Rightarrow> state s' | Inr s' \<Rightarrow> state s')" for s'
  proof -
    have "ctl \<in> {CtlNone, CtlSyn, CtlFin}" using ctl(2,3) that(2) by (cases ctl) auto
    from update_state_moves [OF res(1) _ this] have "state s' =
        (case rfc_next (state s) ctl fin of Some st \<Rightarrow> st | None \<Rightarrow> state s)"
      using that unfolding same1 by simp
    with eff c(4) that(2) show ?thesis unfolding moves_def by blast
  qed
  show thesis
  proof (cases res)
    case (Inl out)
    obtain rep s' where out: "out = (rep, s')" by (cases out)
    have "process_accepted cx ip r part offset s = Some (rep, s')"
      using c(1) ctl(1) res(1) Inl out by (simp add: process_accepted_def)
    moreover have post: "\<not> (state s \<in> {Established, FinWait1, FinWait2} \<and> ctl \<in> {CtlNone, CtlFin})"
      using res(2) unfolding Inl out update_state_post_def sum.case prod.case same1 by blast
    have "\<not> deliverable s r"
      using post effective_control_receives [OF ctl(1)] unfolding deliverable_def by blast
    then have "tcp_inv s' \<and> rx_effect s r s'"
      using res(2) Inl out same1 by (simp add: update_state_post_def rx_effect_def)
    moreover have "synced (state s) \<and> control r \<noteq> CtlRst \<longrightarrow> moves s r s'"
      using mv [of s'] by (simp add: Inl out)
    ultimately show thesis using that by blast
  next
    case (Inr s2)
    then have upd: "state_updated s1 r ctl ack_len s2" using res by (simp add: update_state_post_def)
    obtain b s3 where s3: "update_remote cx r ack_len s2 = Some (b, s3)"
      "tcp_inv (update_timers cx r ack_len all (update_ack cx r b s3))"
      "rx_buffer (update_timers cx r ack_len all (update_ack cx r b s3)) = rx_buffer s1"
      "assembler (update_timers cx r ack_len all (update_ack cx r b s3)) = assembler s1"
      "remote_seq_no (update_timers cx r ack_len all (update_ack cx r b s3)) = remote_seq_no s2"
      "rx_fin_received (update_timers cx r ack_len all (update_ack cx r b s3)) = rx_fin_received s2"
      "state (update_timers cx r ack_len all (update_ack cx r b s3)) = state s2"
      using acknowledged_ok [OF upd seg rx1] by metis
    let ?s = "update_timers cx r ack_len all (update_ack cx r b s3)"
    have "part \<noteq> [] \<longrightarrow> offset + length part \<le> rb_window (rx_buffer ?s) \<and> state ?s \<notin> {Listen, SynSent, SynReceived}"
      using part window_part_fits [of s r part offset] upd s3 same1 by (auto simp: state_updated_def split: if_splits)
    from receive_payload_ok [OF s3(2) this] obtain rep s' where
      s': "receive_payload cx ip r part offset ?s = Some (rep, s')" "tcp_inv s'"
        "stored offset part (rx_buffer ?s, assembler ?s) (rx_buffer s', assembler s')"
        "remote_seq_no s' = remote_seq_no ?s" "rx_fin_received s' = rx_fin_received ?s" "state s' = state ?s"
      by blast
    have "process_accepted cx ip r part offset s = Some (rep, s')"
      using c(1) ctl(1) res(1) Inr s3(1) s'(1) by (simp add: process_accepted_def)
    moreover have "rx_effect s r s'"
    proof (cases "state s \<in> {Listen, SynSent}")
      case True
      then have "(rx_buffer s', assembler s') = (rx_buffer s, assembler s)"
        using part s'(3) s3 same1 by (auto simp: stored_def)
      moreover have "ctl = CtlSyn" using upd True unfolding state_updated_def same1 by blast
      moreover from this have "control r = CtlSyn"
        using ctl(1) by (auto simp: effective_control_def bind_eq_Some_conv split: if_splits)
      ultimately show ?thesis using True upd s' s3 same1 by (simp add: rx_effect_def state_updated_def) blast
    next
      case False
      have "window_part s r part offset \<and>
         stored offset part (rx_buffer s, assembler s) (rx_buffer s', assembler s') \<and>
         remote_seq_no s' = remote_seq_no s + of_bool (ctl = CtlFin) \<and>
         rx_fin_received s' = (rx_fin_received s \<or> ctl = CtlFin) \<and> (ctl = CtlFin \<longrightarrow> \<not> rx_fin_received s) \<and> (ctl = CtlFin \<longleftrightarrow> control r = CtlFin \<and>
           \<not> seq_lt (remote_seq_no s + of_nat (rb_len (rx_buffer s))) (seq_number r))"
        using False part upd s' s3 same1 ctl(4) by (simp add: state_updated_def)
      moreover have "state s' \<notin> {Listen, SynSent, SynReceived}"
        using False upd s'(6) s3(7) same1 by (simp add: state_updated_def)
      ultimately show ?thesis using False unfolding rx_effect_def by blast
    qed
    moreover have "synced (state s) \<and> control r \<noteq> CtlRst \<longrightarrow> moves s r s'"
      using mv [of s'] s'(6) s3(7) by (simp add: Inr)
    ultimately show thesis using s'(2) that by blast
  qed
qed

lemma process_ok:
  assumes inv: "tcp_inv s" and seg: "segment_ok r" and acc: "accepts s ip r"
  obtains rep s' where "process cx ip r s = Some (rep, s')" "tcp_inv s'" "rx_effect s r s'"
    "synced (state s) \<and> control r \<noteq> CtlRst \<and> ack_ok s r \<and>
       in_win (rb_window (rx_buffer s)) (segment_pos s r) (length (payload r)) \<longrightarrow> moves s r s'"
proof -
  have st: "state s \<noteq> Closed" using acc by (auto simp: accepts_def split: if_splits)
  have rx: "rx_ok (rx_buffer s) (assembler s)" using inv by (simp add: tcp_inv_def)
  note finish = that
  have early: thesis if "process cx ip r s = Some (rep, s')" "core s' = core s"
    "\<not> (synced (state s) \<and> ack_ok s r \<and> in_win (rb_window (rx_buffer s)) (segment_pos s r) (length (payload r)))"
    for rep s'
  proof -
    have "\<not> deliverable s r" using that(3) by (auto simp: deliverable_def synced_def)
    then show ?thesis using finish [OF that(1)] that(2,3) inv core_inv rx_effect_core by blast
  qed
  show thesis
  proof (cases rule: check_ack_ok [OF inv seg acc, of cx])
    case (1 rep s')
    then have "\<not> (synced (state s) \<and> ack_ok s r)" by (auto simp: synced_def)
    moreover have "process cx ip r s = Some (rep, s')" using 1(1) acc by (simp add: process_def)
    ultimately show thesis using early 1(2) by blast
  next
    case 2
    show thesis
    proof (cases "state s \<in> {Listen, SynSent}")
      case True
      have "length (payload r) < 2 ^ 31" using seg by (simp add: segment_ok_def)
      then have "check_segment cx ip r s = Some (Inr ([], 0, s))"
        using True rx_len_bound [OF rx] by (simp add: check_segment_def Let_def)
      then have eq: "process cx ip r s = process_accepted cx ip r [] 0 s"
        using acc 2(1) by (simp add: process_def)
      show thesis
        using process_accepted_ok [OF inv seg st 2(2), of "[]" 0 cx ip] True that unfolding eq synced_def by auto
    next
      case False
      show thesis
      proof (cases rule: check_segment_ok [OF rx seg False, of cx ip])
        case (1 rep s')
        moreover from this have "process cx ip r s = Some (rep, s')" using 2(1) acc by (simp add: process_def)
        ultimately show thesis using early by blast
      next
        case g: (2 part offset)
        let ?s = "s\<lparr>local_rx_last_seq := Some (seq_number r)\<rparr>"
        have c: "core ?s = core s" by (simp add: core_def)
        have "ack_ok ?s r = ack_ok s r" "window_part ?s r part offset = window_part s r part offset"
          "rx_effect ?s r = rx_effect s r" "moves ?s r = moves s r"
          by (simp_all only: ack_ok_def window_part_def segment_pos_def rx_effect_def deliverable_def
              moves_def effective_control_def ack_counts_def fun_eq_iff core_fields [OF c] simp_thms)
        with g 2 False st inv core_inv [OF c] obtain rep s' where
          "process_accepted cx ip r part offset ?s = Some (rep, s')" "tcp_inv s'" "rx_effect s r s'"
          "synced (state s) \<and> control r \<noteq> CtlRst \<longrightarrow> moves s r s'"
          using process_accepted_ok [of ?s r part offset cx ip] seg by auto
        with g(1) 2(1) acc that show thesis by (simp add: process_def)
      qed
    qed
  qed
qed


section \<open>Properties of \<open>process\<close>\<close>



lemma store_next_prefix:
  assumes "rx_ok rx asm" and "length xs \<le> rb_window rx" and "xs \<noteq> []"
  obtains rx' asm' more where "store_payload 0 xs (rx, asm) = Some (Some (rx', asm'))"
    "rb_list rx' = rb_list rx @ xs @ more"
proof -
  have fits: "0 + length xs \<le> rb_window rx" using assms(2) by simp
  show thesis
  proof (cases rule: store_payload_ok [OF assms(1) fits assms(3)])
    case 1
    then show thesis by simp
  next
    case (2 m rx' asm')
    have m: "length xs \<le> m" using 2(6) by (auto simp: front_split_def)
    have cap: "rb_length rx + m \<le> rb_capacity rx" using 2(2,3,4) by (simp add: rx_ok_def rb_inv_def)
    have "take (rb_length rx + length xs) (rb_list rx') = rb_list rx @ xs"
      using 2(3,7) m cap by (intro nth_equalityI) (auto simp: nth_append)
    then have "rb_list rx' = (rb_list rx @ xs) @ drop (rb_length rx + length xs) (rb_list rx')"
      by (metis append_take_drop_id)
    with 2(1) show thesis by (intro that) auto
  qed
qed

text \<open>
  C4: the next octets of the stream are accepted. On an open connection, a segment with data that
  starts at the next expected sequence number, fits the receive buffer and carries an acceptable
  acknowledgement always gets all its octets appended to the receive buffer, followed by what had
  been waiting behind the hole that the segment closes.
\<close>

theorem process_delivers:
  assumes inv: "tcp_inv s" and seg: "segment_ok r" and acc: "accepts s ip r"
    and st: "state s \<in> {Established, FinWait1, FinWait2}" and ctl: "control r \<in> {CtlNone, CtlPsh}"
    and ack: "ack_number r = Some (local_seq_no s + of_nat k)" "k \<le> rb_len (tx_buffer s)"
    and nxt: "seq_number r = remote_seq_no s + of_nat (rb_len (rx_buffer s))"
    and data: "payload r \<noteq> []" "length (payload r) \<le> rb_window (rx_buffer s)"
  shows "\<exists>rep s' more. process cx ip r s = Some (rep, s') \<and>
    rb_list (rx_buffer s') = rb_list (rx_buffer s) @ payload r @ more"
proof -
  have pos: "segment_pos s r = 0" by (simp add: segment_pos_def nxt)
  have "in_win (rb_window (rx_buffer s)) (segment_pos s r) (length (payload r))"
    using data by (cases "payload r") (auto simp: in_win_def pos)
  moreover have "ack_ok s r" using st ack by (auto simp: ack_ok_def intro!: exI [of _ k])
  ultimately have del: "deliverable s r" using st ctl by (auto simp: deliverable_def)
  obtain rep s' where s': "process cx ip r s = Some (rep, s')" "rx_effect s r s'"
    using process_ok [OF inv seg acc] by blast
  have "state s \<notin> {Listen, SynSent}" using st by auto
  with s'(2) del obtain part offset where p: "window_part s r part offset"
    "stored offset part (rx_buffer s, assembler s) (rx_buffer s', assembler s')"
    unfolding rx_effect_def by blast
  obtain start m where "part = take m (drop start (payload r))" "int offset = segment_pos s r + int start"
    "int offset = max 0 (segment_pos s r)"
    "int (offset + m) = min (int (rb_window (rx_buffer s))) (segment_pos s r + int (length (payload r)))"
    using p(1) unfolding window_part_def by blast
  then have "part = payload r" "offset = 0" using data by (auto simp: pos)
  moreover have rx: "rx_ok (rx_buffer s) (assembler s)" using inv by (simp add: tcp_inv_def)
  obtain rx' asm' more where "store_payload 0 (payload r) (rx_buffer s, assembler s) = Some (Some (rx', asm'))"
    "rb_list rx' = rb_list (rx_buffer s) @ payload r @ more" using store_next_prefix [OF rx data(2,1)] .
  ultimately have "rb_list (rx_buffer s') = rb_list (rx_buffer s) @ payload r @ more"
    using p(2) data by (simp add: stored_def)
  with s'(1) show ?thesis by blast
qed

theorem process_delivers_witness:
  "\<exists>rep s' more. process demo_cx demo_ip (demo_segment CtlPsh 5001 (Some 2001) [1, 2, 3]) demo_established = Some (rep, s') \<and>
    rb_list (rx_buffer s') = [] @ [1, 2, 3] @ more"
  using process_delivers [OF demo_established_inv demo_segment_ok demo_accepts, of "[1, 2, 3]" CtlPsh 5001 "Some 2001" 0 demo_cx]
  by (simp add: demo_segment_def demo_established_def demo_closed_eq rb_list_def)

end
