(* ===== verification/Tcp_Dispatch.thy ===== *)
theory Tcp_Dispatch
  imports Tcp_Receive
begin

text \<open>
  \<open>src/smoltcp/src/socket/tcp.rs\<close>, \<open>dispatch\<close> and \<open>poll_at\<close>: what the socket sends, and when. As with
  \<open>process\<close>, each step of \<open>dispatch\<close> is a definition, and a panic is \<open>None\<close>. The closure that hands
  the packet to the device is an argument of \<open>dispatch\<close>: it returns \<open>Inl\<close> an error or \<open>Inr ()\<close>.
\<close>

section \<open>Is there something to send?\<close>

definition timed_out :: "instant \<Rightarrow> tcp_socket \<Rightarrow> bool" where
  "timed_out now s = (case (remote_last_ts s, timeout s) of
      (Some last_ts, Some t) \<Rightarrow> instant_add last_ts t \<le> now
    | _ \<Rightarrow> False)"

text \<open>What the MTU leaves for the payload of a segment without options.\<close>

definition mtu_payload :: "iface_context \<Rightarrow> nat \<Rightarrow> nat option" where
  "mtu_payload cx header_len = do {
     n \<leftarrow> usize_sub (cx_ip_mtu cx) header_len;
     usize_sub n TCP_HEADER_LEN }"

definition seq_to_transmit :: "iface_context \<Rightarrow> tcp_socket \<Rightarrow> bool option" where
  "seq_to_transmit cx s = do {
     t \<leftarrow> tuple s;
     let header_len = (case ep_addr (tuple_local t) of Ipv4 _ \<Rightarrow> IPV4_HEADER_LEN | Ipv6 _ \<Rightarrow> IPV6_HEADER_LEN);
     local_mss \<leftarrow> mtu_payload cx header_len;
     let effective_mss = min local_mss (remote_mss s);
     let data_in_flight = (remote_last_seq s \<noteq> local_seq_no s);
     if state s \<in> {SynSent, SynReceived} \<and> \<not> data_in_flight then Some True
     else do {
       max_send_seq \<leftarrow> seq_add (local_seq_no s) (min (remote_win_len s) (rb_len (tx_buffer s)));
       max_send \<leftarrow> (if seq_ge max_send_seq (remote_last_seq s)
                    then seq_diff max_send_seq (remote_last_seq s) else Some 0);
       let max_send = min max_send (cc_window (congestion_controller s));
       let can_send = (max_send \<noteq> 0);
       let can_send_full = (max_send \<ge> effective_mss);
       let want_fin = (state s \<in> {FinWait1, Closing, LastAck});
       let can_send = (if nagle s \<and> data_in_flight \<and> \<not> can_send_full \<and> \<not> want_fin then False else can_send);
       end_seq \<leftarrow> (if want_fin then seq_add (local_seq_no s) (rb_len (tx_buffer s)) else Some 0);
       let can_fin = (want_fin \<and> remote_last_seq s = end_seq);
       Some (can_send \<or> can_fin) } }"

definition window_to_update :: "tcp_socket \<Rightarrow> bool option" where
  "window_to_update s =
     (if state s \<in> {SynSent, SynReceived, Established, FinWait1, FinWait2}
      then do {
        let new_win = scaled_window s;
        last \<leftarrow> last_scaled_window s;
        Some (case last of
            Some last_win \<Rightarrow> new_win > 0 \<and> last_win \<le> new_win div 2
          | None \<Rightarrow> False) }
      else Some False)"

section \<open>The steps of \<open>dispatch\<close>\<close>

text \<open>State changes because of a timer.\<close>

definition dispatch_timers :: "iface_context \<Rightarrow> tcp_socket \<Rightarrow> tcp_socket option" where
  "dispatch_timers cx s = do {
     let s = (if remote_last_ts s = None then s\<lparr>remote_last_ts := Some (cx_now cx)\<rparr> else s);
     let s = s\<lparr>congestion_controller := cc_pre_transmit (congestion_controller s) (cx_now cx)\<rparr>;
     if timed_out (cx_now cx) s then Some (set_state Closed s)
     else do {
       want \<leftarrow> seq_to_transmit cx s;
       Some (if \<not> want \<and> should_retransmit (timer s) (cx_now cx)
             then s\<lparr>remote_last_seq := local_seq_no s,
                    timer := set_for_idle (cx_now cx) (keep_alive s),
                    rtte := rtt_on_retransmit (rtte s),
                    congestion_controller := cc_on_retransmit (congestion_controller s) (cx_now cx)\<rparr>
             else s) } }"

datatype choice = EmitPacket | EmitNothing | CloseTimeWait

text \<open>Decide whether a packet is sent.\<close>

definition dispatch_choice :: "iface_context \<Rightarrow> tcp_socket \<Rightarrow> choice option" where
  "dispatch_choice cx s = do {
     want_seq \<leftarrow> seq_to_transmit cx s;
     if want_seq then Some EmitPacket
     else do {
       want_ack \<leftarrow> ack_to_transmit s;
       if want_ack \<and> delayed_ack_expired (cx_now cx) s then Some EmitPacket
       else do {
         want_win \<leftarrow> window_to_update s;
         Some (if want_win then EmitPacket
               else if state s = Closed then EmitPacket
               else if should_keep_alive (timer s) (cx_now cx) then EmitPacket
               else if should_zero_window_probe (timer s) (cx_now cx) then EmitPacket
               else if should_close (timer s) (cx_now cx) then CloseTimeWait
               else EmitNothing) } } }"

text \<open>The basic representation, an empty ACK.\<close>

definition basic_repr :: "iface_context \<Rightarrow> tcp_tuple \<Rightarrow> tcp_socket \<Rightarrow> tcp_repr option" where
  "basic_repr cx t s = do {
     ack \<leftarrow> seq_add (remote_seq_no s) (rb_len (rx_buffer s));
     Some \<lparr>src_port = ep_port (tuple_local t), dst_port = ep_port (tuple_remote t),
       control = CtlNone, seq_number = remote_last_seq s, ack_number = Some ack,
       window_len = scaled_window s, window_scale = None, max_seg_size = None,
       sack_permitted = False, sack_ranges = [None, None, None],
       timestamp = generate_reply_with_tsval
         (if tsval_generator s then Some (cx_tsval cx) else None) (last_remote_tsval s),
       payload = []\<rparr> }"

text \<open>A SYN, or a SYN|ACK: the window is not scaled.\<close>

definition syn_repr :: "tcp_socket \<Rightarrow> tcp_repr \<Rightarrow> tcp_repr" where
  "syn_repr s r =
     (let r = r\<lparr>control := CtlSyn, seq_number := local_seq_no s,
               window_len := u16_saturate (rb_window (rx_buffer s))\<rparr>
      in if state s = SynSent
         then r\<lparr>ack_number := None, window_scale := Some (of_nat (remote_win_shift s)),
                sack_permitted := True\<rparr>
         else r\<lparr>sack_permitted := remote_has_sack s,
                window_scale := map_option (\<lambda>_. of_nat (remote_win_shift s)) (remote_win_scale s)\<rparr>)"

text \<open>How many octets the segment may carry, and whether it is a zero-window probe.\<close>

definition send_limit :: "iface_context \<Rightarrow> ip_repr \<Rightarrow> tcp_socket \<Rightarrow> (nat \<times> bool) option" where
  "send_limit cx ip s = do {
     win_right_edge \<leftarrow> seq_add (local_seq_no s) (remote_win_len s);
     win_limit \<leftarrow> (if seq_ge win_right_edge (remote_last_seq s)
                   then seq_diff win_right_edge (remote_last_seq s) else Some 0);
     let probe = (win_limit = 0 \<and> should_zero_window_probe (timer s) (cx_now cx));
     let win_limit = (if probe then 1 else win_limit);
     local_mss \<leftarrow> mtu_payload cx (ip_header_len ip);
     Some (min (min win_limit (remote_mss s)) local_mss, probe) }"

text \<open>A segment with octets of the transmit buffer; PSH or FIN follows the last of them.\<close>

definition data_repr ::
  "iface_context \<Rightarrow> ip_repr \<Rightarrow> tcp_socket \<Rightarrow> tcp_repr \<Rightarrow> (tcp_repr \<times> bool) option" where
  "data_repr cx ip s r = do {
     (limit, probe) \<leftarrow> send_limit cx ip s;
     offset \<leftarrow> seq_diff (remote_last_seq s) (local_seq_no s);
     let r = r\<lparr>payload := get_allocated offset limit (tx_buffer s)\<rparr>;
     let r = (if offset + length (payload r) = rb_len (tx_buffer s)
              then if state s \<in> {FinWait1, LastAck, Closing} then r\<lparr>control := CtlFin\<rparr>
                   else if state s \<in> {Established, CloseWait} \<and> payload r \<noteq> [] then r\<lparr>control := CtlPsh\<rparr>
                   else r
              else r);
     Some (r, probe) }"

definition state_repr ::
  "iface_context \<Rightarrow> ip_repr \<Rightarrow> tcp_socket \<Rightarrow> tcp_repr \<Rightarrow> (tcp_repr \<times> bool) option option" where
  "state_repr cx ip s r =
     (case state s of
        Closed \<Rightarrow> Some (Some (r\<lparr>control := CtlRst\<rparr>, False))
      | Listen \<Rightarrow> Some None
      | SynSent \<Rightarrow> Some (Some (syn_repr s r, False))
      | SynReceived \<Rightarrow> Some (Some (syn_repr s r, False))
      | FinWait2 \<Rightarrow> Some (Some (r, False))
      | TimeWait \<Rightarrow> Some (Some (r, False))
      | _ \<Rightarrow> map_option Some (data_repr cx ip s r))"

text \<open>The fake octet of a keep-alive, and the MSS option of a SYN.\<close>

definition finish_repr ::
  "iface_context \<Rightarrow> ip_repr \<Rightarrow> tcp_socket \<Rightarrow> tcp_repr \<Rightarrow> (tcp_repr \<times> bool) option" where
  "finish_repr cx ip s r = do {
     let is_keep_alive = (should_keep_alive (timer s) (cx_now cx) \<and> repr_is_empty r);
     r \<leftarrow> (if is_keep_alive
          then do { n \<leftarrow> seq_sub (seq_number r) 1; Some (r\<lparr>seq_number := n, payload := [0]\<rparr>) }
          else Some r);
     r \<leftarrow> (if control r = CtlSyn
          then do { m \<leftarrow> mtu_payload cx (ip_header_len ip); Some (r\<lparr>max_seg_size := Some (of_nat m)\<rparr>) }
          else Some r);
     Some (r, is_keep_alive) }"

text \<open>The state after the packet is in the device buffer.\<close>

definition dispatch_sent ::
  "iface_context \<Rightarrow> tcp_repr \<Rightarrow> bool \<Rightarrow> bool \<Rightarrow> tcp_socket \<Rightarrow> tcp_socket option" where
  "dispatch_sent cx r probe is_keep_alive s = do {
     let s = s\<lparr>timer := rewind_keep_alive (timer s) (cx_now cx) (keep_alive s),
              ack_delay_timer := AckIdle\<rparr>;
     if probe then Some (s\<lparr>timer := rewind_zero_window_probe (timer s) (cx_now cx)\<rparr>)
     else if is_keep_alive then Some s
     else do {
       last_seq \<leftarrow> seq_add (seq_number r) (segment_len r);
       let s = s\<lparr>remote_last_seq := last_seq, remote_last_ack := ack_number r,
                remote_last_win := window_len r\<rparr>;
       let s = (if segment_len r > 0
                then s\<lparr>rtte := rtt_on_send (rtte s) (cx_now cx) last_seq,
                       congestion_controller :=
                         cc_post_transmit (congestion_controller s) (cx_now cx) (segment_len r)\<rparr>
                else s);
       let s = (if segment_len r > 0 \<and> \<not> timer_is_retransmit (timer s)
                then s\<lparr>timer := set_for_retransmit (timer s) (cx_now cx) (retransmission_timeout (rtte s))\<rparr>
                else s);
       Some (if state s = Closed then s\<lparr>tuple := None\<rparr> else s) } }"

section \<open>\<open>dispatch\<close> and \<open>poll_at\<close>\<close>

definition build_packet ::
  "iface_context \<Rightarrow> tcp_socket \<Rightarrow> (packet \<times> bool \<times> bool) option option" where
  "build_packet cx s = do {
     t \<leftarrow> tuple s;
     ip \<leftarrow> ip_repr_new (ep_addr (tuple_local t)) (ep_addr (tuple_remote t)) ProtoTcp 0
            (case hop_limit s of Some h \<Rightarrow> h | None \<Rightarrow> 64);
     r \<leftarrow> basic_repr cx t s;
     res \<leftarrow> state_repr cx ip s r;
     case res of
       None \<Rightarrow> Some None
     | Some (r, probe) \<Rightarrow> do {
         (r, is_keep_alive) \<leftarrow> finish_repr cx ip s r;
         Some (Some ((ip_set_payload_len ip (tcp_buffer_len r), r), probe, is_keep_alive)) } }"

text \<open>The packet given to \<open>emit\<close>, if any, the result of \<open>dispatch\<close>, and the socket.\<close>

definition dispatch ::
  "(packet \<Rightarrow> 'e + unit) \<Rightarrow> iface_context \<Rightarrow> tcp_socket \<Rightarrow> (packet option \<times> ('e + unit) \<times> tcp_socket) option" where
  "dispatch emit cx s =
     (if tuple s = None then Some (None, Inr (), s)
      else do {
        s \<leftarrow> dispatch_timers cx s;
        if state s = SynReceived \<and> synack_paused s then Some (None, Inr (), s)
        else do {
          c \<leftarrow> dispatch_choice cx s;
          case c of
            EmitNothing \<Rightarrow> Some (None, Inr (), s)
          | CloseTimeWait \<Rightarrow> Some (None, Inr (), socket_reset s)
          | EmitPacket \<Rightarrow> do {
              res \<leftarrow> build_packet cx s;
              case res of
                None \<Rightarrow> Some (None, Inr (), s)
              | Some (p, probe, is_keep_alive) \<Rightarrow>
                  (case emit p of
                     Inl e \<Rightarrow> Some (Some p, Inl e, s)
                   | Inr _ \<Rightarrow> do {
                       s \<leftarrow> dispatch_sent cx (snd p) probe is_keep_alive s;
                       Some (Some p, Inr (), s) }) } } })"

definition tcp_poll_at :: "iface_context \<Rightarrow> tcp_socket \<Rightarrow> poll_at option" where
  "tcp_poll_at cx s =
     (if tuple s = None then Some PollIngress
      else if remote_last_ts s = None then Some PollNow
      else if state s = Closed then Some PollNow
      else do {
        want_seq \<leftarrow> seq_to_transmit cx s;
        if want_seq then Some PollNow
        else do {
          want_win \<leftarrow> window_to_update s;
          if want_win then Some PollNow
          else do {
            want_ack \<leftarrow> ack_to_transmit s;
            let delayed_ack_poll_at = (if \<not> want_ack then PollIngress
                 else case ack_delay_timer s of
                     AckIdle \<Rightarrow> PollNow | AckWaiting t \<Rightarrow> PollTime t | AckImmediate \<Rightarrow> PollNow);
            let timeout_poll_at = (case (remote_last_ts s, timeout s) of
                 (Some last_ts, Some t) \<Rightarrow> PollTime (instant_add last_ts t)
               | _ \<Rightarrow> PollIngress);
            Some (min (min (timer_poll_at (timer s)) timeout_poll_at) delayed_ack_poll_at) } } })"


section \<open>No step of \<open>dispatch\<close> panics\<close>

text \<open>
  The data received so far is inside the window that was last advertised. The socket does not
  enforce this itself: \<open>last_scaled_window\<close> panics where it does not hold.
\<close>

definition advertised_edge :: "tcp_socket \<Rightarrow> seq \<Rightarrow> seq" where
  "advertised_edge s last_ack = last_ack + of_nat (unat (remote_last_win s) * 2 ^ remote_win_shift s)"

definition within_advertised :: "tcp_socket \<Rightarrow> bool" where
  "within_advertised s \<longleftrightarrow> (\<forall>a. remote_last_ack s = Some a \<longrightarrow>
     0 \<le> sint (advertised_edge s a - (remote_seq_no s + of_nat (rb_len (rx_buffer s)))))"

lemma scaled_win_bound:
  assumes "shift \<le> 15"
  shows "unat (w :: u16) * 2 ^ shift < 2 ^ 31"
proof -
  have "2 ^ shift \<le> (2 ^ 15 :: nat)" using assms by (rule power_increasing) simp
  moreover have "unat w \<le> 65535" using unsigned_less [where ?'a = nat, of w] by simp
  ultimately have "unat w * 2 ^ shift \<le> 65535 * 2 ^ 15" by (rule mult_le_mono [rotated])
  then show ?thesis by simp
qed

lemma window_to_update_ok:
  assumes inv: "tcp_inv s"
  shows "state s \<in> {SynSent, SynReceived, Established, FinWait1, FinWait2} \<longrightarrow> within_advertised s \<Longrightarrow>
      \<exists>b. window_to_update s = Some b"
    and "remote_last_ack s = Some a \<Longrightarrow> state s \<in> {SynSent, SynReceived, Established, FinWait1, FinWait2} \<Longrightarrow>
      \<not> within_advertised s \<Longrightarrow> window_to_update s = None"
proof -
  have rx: "rb_len (rx_buffer s) < 2 ^ 31" and sh: "remote_win_shift s \<le> 15"
    using inv rx_len_bound by (auto simp: tcp_inv_def peer_ok_def)
  note b = scaled_win_bound [OF sh, of "remote_last_win s"]
  have "window_to_update s \<noteq> None"
    if "state s \<in> {SynSent, SynReceived, Established, FinWait1, FinWait2} \<longrightarrow> within_advertised s"
    using that rx b
    by (cases "remote_last_ack s"; cases "state s \<in> {SynSent, SynReceived, Established, FinWait1, FinWait2}";
        simp add: window_to_update_def last_scaled_window_def Let_def within_advertised_def advertised_edge_def
        seq_diff_def del: not_None_eq)
  then show "state s \<in> {SynSent, SynReceived, Established, FinWait1, FinWait2} \<longrightarrow> within_advertised s \<Longrightarrow>
      \<exists>b. window_to_update s = Some b" by blast
  show "window_to_update s = None"
    if "remote_last_ack s = Some a" "state s \<in> {SynSent, SynReceived, Established, FinWait1, FinWait2}"
      "\<not> within_advertised s"
    using that rx b
    by (simp add: window_to_update_def last_scaled_window_def Let_def within_advertised_def advertised_edge_def
        seq_diff_def not_le)
qed

lemma mtu_payload_ok: "h \<le> 40 \<Longrightarrow> 60 \<le> cx_ip_mtu cx \<Longrightarrow> mtu_payload cx h = Some (cx_ip_mtu cx - h - 20)"
  by (simp add: mtu_payload_def TCP_HEADER_LEN_def)

lemma seq_ge_diff_ok: "\<exists>n. (if seq_ge a b then seq_diff a b else Some 0) = Some n"
  by (simp add: seq_ge_def seq_diff_def)

lemma seq_to_transmit_ok:
  assumes inv: "tcp_inv s" and t: "tuple s = Some t" and mtu: "60 \<le> cx_ip_mtu cx"
  obtains b where "seq_to_transmit cx s = Some b"
proof -
  define h where "h = (case ep_addr (tuple_local t) of Ipv4 _ \<Rightarrow> IPV4_HEADER_LEN | Ipv6 _ \<Rightarrow> IPV6_HEADER_LEN)"
  have h: "h \<le> 40" by (simp add: h_def IPV4_HEADER_LEN_def IPV6_HEADER_LEN_def split: ip_address.splits)
  have len: "min (remote_win_len s) (rb_len (tx_buffer s)) < 2 ^ 31" "rb_len (tx_buffer s) < 2 ^ 31"
    using inv by (auto simp: tcp_inv_def peer_ok_def tx_ok_def rb_inv_def rb_len_def)
  obtain n where "(if seq_ge (local_seq_no s + of_nat (min (remote_win_len s) (rb_len (tx_buffer s)))) (remote_last_seq s)
      then seq_diff (local_seq_no s + of_nat (min (remote_win_len s) (rb_len (tx_buffer s)))) (remote_last_seq s)
      else Some 0) = Some n" using seq_ge_diff_ok by blast
  then have "seq_to_transmit cx s \<noteq> None"
    using len mtu_payload_ok [OF h mtu] by (simp add: seq_to_transmit_def t Let_def del: not_None_eq flip: h_def)
  then show thesis using that by blast
qed

text \<open>What \<open>dispatch_timers\<close> changes.\<close>

lemma dispatch_timers_ok:
  assumes inv: "tcp_inv s" and t: "tuple s = Some t" and mtu: "60 \<le> cx_ip_mtu cx"
  obtains s' where "dispatch_timers cx s = Some s'" "tcp_inv s'"
    and "\<exists>st nxt tm rt cc ts. s' = s\<lparr>state := st, remote_last_seq := nxt, timer := tm, rtte := rt,
      congestion_controller := cc, remote_last_ts := ts\<rparr> \<and>
      (st = Closed \<or> st = state s) \<and> (nxt = remote_last_seq s \<or> nxt = local_seq_no s)"
proof -
  define s0 where "s0 = (if remote_last_ts s = None then s\<lparr>remote_last_ts := Some (cx_now cx)\<rparr> else s)"
  define s1 where "s1 = s0\<lparr>congestion_controller := cc_pre_transmit (congestion_controller s0) (cx_now cx)\<rparr>"
  have inv1: "tcp_inv s1" using inv by (simp add: s1_def s0_def tcp_inv_def peer_ok_def)
  have t1: "tuple s1 = Some t" by (simp add: s1_def s0_def t)
  obtain b where b: "seq_to_transmit cx s1 = Some b" using seq_to_transmit_ok [OF inv1 t1 mtu] by blast
  define s2 where "s2 = (if timed_out (cx_now cx) s1 then set_state Closed s1
    else if \<not> b \<and> should_retransmit (timer s1) (cx_now cx)
    then s1\<lparr>remote_last_seq := local_seq_no s1, timer := set_for_idle (cx_now cx) (keep_alive s1),
      rtte := rtt_on_retransmit (rtte s1),
      congestion_controller := cc_on_retransmit (congestion_controller s1) (cx_now cx)\<rparr> else s1)"
  have eq: "dispatch_timers cx s = Some s2"
    unfolding dispatch_timers_def Let_def s0_def [symmetric] s1_def [symmetric] using b by (simp add: s2_def)
  have "tcp_inv (set_state Closed s1)"
    using inv1 by (auto simp: tcp_inv_def set_state_def tx_ok_def ctl_in_flight_def unsynced_ok_def split: if_splits)
  moreover have "tcp_inv (s1\<lparr>remote_last_seq := local_seq_no s1, timer := set_for_idle (cx_now cx) (keep_alive s1),
      rtte := rtt_on_retransmit (rtte s1),
      congestion_controller := cc_on_retransmit (congestion_controller s1) (cx_now cx)\<rparr>)"
    using inv1 by (simp add: tcp_inv_def tx_ok_def peer_ok_def)
  ultimately have inv2: "tcp_inv s2" using inv1 by (simp add: s2_def)
  have "\<exists>st nxt tm rt cc ts. s2 = s\<lparr>state := st, remote_last_seq := nxt, timer := tm, rtte := rt,
      congestion_controller := cc, remote_last_ts := ts\<rparr> \<and>
      (st = Closed \<or> st = state s) \<and> (nxt = remote_last_seq s \<or> nxt = local_seq_no s)"
    by (intro exI [of _ "state s2"] exI [of _ "remote_last_seq s2"] exI [of _ "timer s2"] exI [of _ "rtte s2"]
        exI [of _ "congestion_controller s2"] exI [of _ "remote_last_ts s2"])
      (simp add: s2_def s1_def s0_def set_state_def)
  with eq inv2 show thesis using that by blast
qed

lemma dispatch_choice_ok:
  assumes inv: "tcp_inv s" and t: "tuple s = Some t" and mtu: "60 \<le> cx_ip_mtu cx" and adv: "within_advertised s"
  obtains c where "dispatch_choice cx s = Some c"
proof -
  obtain b1 where b1: "seq_to_transmit cx s = Some b1" using seq_to_transmit_ok [OF inv t mtu] by blast
  obtain b2 where b2: "window_to_update s = Some b2" using window_to_update_ok(1) [OF inv] adv by blast
  have "rb_len (rx_buffer s) < 2 ^ 31" using inv rx_len_bound by (auto simp: tcp_inv_def)
  then have "ack_to_transmit s \<noteq> None"
    by (cases "remote_last_ack s") (simp_all add: ack_to_transmit_def del: not_None_eq)
  then obtain b3 where "ack_to_transmit s = Some b3" by blast
  with b1 b2 have "\<exists>c. dispatch_choice cx s = Some c"
    by (cases b1; cases "b3 \<and> delayed_ack_expired (cx_now cx) s") (simp_all add: dispatch_choice_def)
  then show thesis using that by blast
qed

section \<open>What is sent\<close>

text \<open>
  The octets and the FIN of a segment, in terms of the transmit half: where the segment starts, the
  octets of the buffer it carries, its limits, and that a FIN follows the last octet.
\<close>

definition carries :: "iface_context \<Rightarrow> nat \<Rightarrow> tcp_socket \<Rightarrow> tcp_repr \<Rightarrow> nat \<Rightarrow> bool \<Rightarrow> bool" where
  "carries cx header_len s r offset probe \<longleftrightarrow>
     seq_number r = local_seq_no s + of_nat offset \<and>
     payload r = take (length (payload r)) (drop offset (rb_list (tx_buffer s))) \<and>
     length (payload r) \<le> remote_mss s \<and> length (payload r) + header_len + TCP_HEADER_LEN \<le> cx_ip_mtu cx \<and>
     (payload r \<noteq> [] \<longrightarrow> offset + length (payload r) \<le> max (remote_win_len s) (offset + of_bool probe)) \<and>
     (probe \<longrightarrow> remote_win_len s \<le> offset) \<and>
     (control r = CtlFin \<longrightarrow> state s \<in> {FinWait1, LastAck, Closing} \<and>
        offset + length (payload r) = rb_len (tx_buffer s)) \<and>
     (control r = CtlPsh \<longrightarrow> payload r \<noteq> []) \<and> control r \<noteq> CtlSyn \<and> control r \<noteq> CtlRst"

lemma tx_offset:
  assumes "tcp_inv s"
  obtains offset where "remote_last_seq s = local_seq_no s + of_nat offset"
    "offset \<le> rb_len (tx_buffer s) + ctl_in_flight (state s)" "offset < 2 ^ 31"
    "seq_diff (remote_last_seq s) (local_seq_no s) = Some offset"
proof -
  define d where "d = sint (remote_last_seq s - local_seq_no s)"
  have d: "0 \<le> d" "d \<le> int (rb_len (tx_buffer s) + ctl_in_flight (state s))" "d < 2 ^ 31"
    using assms sint_seq_bounds by (auto simp: d_def tcp_inv_def tx_ok_def)
  have "of_nat (nat d) = (of_int d :: seq)" using d by simp
  also have "\<dots> = remote_last_seq s - local_seq_no s" by (simp add: d_def)
  finally have eq: "remote_last_seq s = local_seq_no s + of_nat (nat d)" by (simp add: algebra_simps)
  show thesis
  proof (rule that [OF eq])
    show "nat d \<le> rb_len (tx_buffer s) + ctl_in_flight (state s)" "nat d < 2 ^ 31"
      using d by (auto simp: nat_less_iff)
    show "seq_diff (remote_last_seq s) (local_seq_no s) = Some (nat d)"
      using d by (simp add: seq_diff_eq_Some d_def)
  qed
qed

lemma send_limit_ok:
  assumes inv: "tcp_inv s" and mtu: "60 \<le> cx_ip_mtu cx" and h: "ip_header_len ip \<le> 40"
    and off: "remote_last_seq s = local_seq_no s + of_nat offset" "offset < 2 ^ 31"
  obtains limit probe where "send_limit cx ip s = Some (limit, probe)"
    "limit \<le> remote_mss s" "limit + ip_header_len ip + TCP_HEADER_LEN \<le> cx_ip_mtu cx"
    "limit \<le> max (remote_win_len s - offset) (of_bool probe)" "probe \<longrightarrow> remote_win_len s \<le> offset"
    "probe \<longrightarrow> should_zero_window_probe (timer s) (cx_now cx)"
proof -
  define win where "win = remote_win_len s - offset"
  have w: "remote_win_len s < 2 ^ 31" using inv by (simp add: tcp_inv_def peer_ok_def)
  have "sint (of_nat (remote_win_len s) - of_nat offset :: seq) = int (remote_win_len s) - int offset"
    using sint_of_int_small [of "int (remote_win_len s) - int offset"] w off(2) by simp
  then have "(if seq_ge (local_seq_no s + of_nat (remote_win_len s)) (remote_last_seq s)
      then seq_diff (local_seq_no s + of_nat (remote_win_len s)) (remote_last_seq s) else Some 0) = Some win"
    by (auto simp: off(1) seq_ge_def seq_diff_def win_def)
  then have eq: "send_limit cx ip s = Some
      (min (min (if win = 0 \<and> should_zero_window_probe (timer s) (cx_now cx) then 1 else win) (remote_mss s))
         (cx_ip_mtu cx - ip_header_len ip - 20), win = 0 \<and> should_zero_window_probe (timer s) (cx_now cx))"
    using w mtu_payload_ok [OF h mtu] by (simp add: send_limit_def Let_def)
  show thesis
    by (rule that [OF eq]) (use mtu h in \<open>auto simp: win_def TCP_HEADER_LEN_def\<close>)
qed

lemma data_repr_ok:
  assumes inv: "tcp_inv s" and mtu: "60 \<le> cx_ip_mtu cx" and h: "ip_header_len ip \<le> 40"
    and r: "seq_number r = remote_last_seq s" "control r = CtlNone"
  obtains r' offset probe where "data_repr cx ip s r = Some (r', probe)"
    "carries cx (ip_header_len ip) s r' offset probe" "remote_last_seq s = local_seq_no s + of_nat offset"
    "offset + segment_len r' \<le> rb_len (tx_buffer s) + ctl_in_flight (state s)"
    "\<exists>c p. r' = r\<lparr>payload := p, control := c\<rparr>"
proof -
  obtain offset where off: "remote_last_seq s = local_seq_no s + of_nat offset"
    "offset \<le> rb_len (tx_buffer s) + ctl_in_flight (state s)" "offset < 2 ^ 31"
    "seq_diff (remote_last_seq s) (local_seq_no s) = Some offset" using tx_offset [OF inv] .
  obtain limit probe where lim: "send_limit cx ip s = Some (limit, probe)"
    "limit \<le> remote_mss s" "limit + ip_header_len ip + TCP_HEADER_LEN \<le> cx_ip_mtu cx"
    "limit \<le> max (remote_win_len s - offset) (of_bool probe)" "probe \<longrightarrow> remote_win_len s \<le> offset"
    using send_limit_ok [OF inv mtu h off(1,3)] by blast
  have tx: "rb_inv (tx_buffer s)" using inv by (simp add: tcp_inv_def tx_ok_def)
  define p where "p = get_allocated offset limit (tx_buffer s)"
  define n where "n = length p"
  have p: "p = take n (drop offset (rb_list (tx_buffer s)))" "n \<le> limit" "n \<le> rb_len (tx_buffer s) - offset"
    by (simp_all add: n_def p_def get_allocated_eq [OF tx] rb_len_def min_def)
  have lp: "length p = n" by (simp add: n_def)
  define c where "c = (if offset + n = rb_len (tx_buffer s) then if state s \<in> {FinWait1, LastAck, Closing} then CtlFin
      else if state s \<in> {Established, CloseWait} \<and> p \<noteq> [] then CtlPsh else CtlNone else CtlNone)"
  have eq: "data_repr cx ip s r = Some (r\<lparr>payload := p, control := c\<rparr>, probe)"
    using off(4) lim(1) r(2) by (simp add: data_repr_def Let_def c_def n_def flip: p_def)
  have fin: "c = CtlFin \<longleftrightarrow> offset + n = rb_len (tx_buffer s) \<and> state s \<in> {FinWait1, LastAck, Closing}"
    and ctl: "c \<noteq> CtlSyn" "c \<noteq> CtlRst" "c = CtlPsh \<longrightarrow> p \<noteq> []" by (simp_all add: c_def)
  have "carries cx (ip_header_len ip) s (r\<lparr>payload := p, control := c\<rparr>) offset probe"
    unfolding carries_def using off(1) lim p(2) fin ctl r(1) lp p(1) [symmetric] by (auto simp: max_def split: if_splits)
  moreover have "n + control_len c + offset \<le> rb_len (tx_buffer s) + ctl_in_flight (state s)"
  proof (cases "c = CtlFin")
    case True
    then show ?thesis using fin by (auto simp: ctl_in_flight_def)
  next
    case False
    then have "control_len c = 0" using ctl by (cases c) simp_all
    then show ?thesis using p(3) off(2) by simp
  qed
  ultimately show thesis
    by (intro that [OF eq _ off(1)]) (auto simp: segment_len_def n_def)
qed

text \<open>Every packet that \<open>dispatch\<close> builds, by the state of the socket.\<close>

definition packet_ok :: "iface_context \<Rightarrow> tcp_socket \<Rightarrow> ip_repr \<Rightarrow> tcp_repr \<Rightarrow> bool \<Rightarrow> bool \<Rightarrow> bool" where
  "packet_ok cx s ip r probe ka \<longleftrightarrow>
     ack_number r = (if state s = SynSent then None
                     else Some (remote_seq_no s + of_nat (rb_len (rx_buffer s)))) \<and>
     (if ka then payload r = [0] \<and> control r = CtlNone \<and> seq_number r = remote_last_seq s - 1
      else if state s \<in> {Established, FinWait1, Closing, CloseWait, LastAck}
      then \<exists>offset. carries cx (ip_header_len ip) s r offset probe \<and>
             remote_last_seq s = local_seq_no s + of_nat offset \<and>
             offset + segment_len r \<le> rb_len (tx_buffer s) + ctl_in_flight (state s)
      else \<not> probe \<and> payload r = [] \<and>
           (if state s \<in> {SynSent, SynReceived} then control r = CtlSyn \<and> seq_number r = local_seq_no s
            else control r = (if state s = Closed then CtlRst else CtlNone) \<and> seq_number r = remote_last_seq s))"

lemma ip_header_len_le: "ip_header_len ip \<le> 40"
  by (cases ip) (simp_all add: IPV4_HEADER_LEN_def IPV6_HEADER_LEN_def)

lemma state_repr_ok:
  assumes inv: "tcp_inv s" and mtu: "60 \<le> cx_ip_mtu cx" and r: "basic_repr cx t s = Some r"
    and st: "state s \<noteq> Listen"
  obtains r' probe where "state_repr cx ip s r = Some (Some (r', probe))" "packet_ok cx s ip r' probe False"
    "control r' = CtlPsh \<longrightarrow> payload r' \<noteq> []"
    "state s \<notin> {SynSent, SynReceived} \<longrightarrow> seq_number r' = remote_last_seq s"
proof (cases "state s \<in> {Established, FinWait1, Closing, CloseWait, LastAck}")
  case True
  have r0: "seq_number r = remote_last_seq s" "control r = CtlNone"
    "ack_number r = Some (remote_seq_no s + of_nat (rb_len (rx_buffer s)))"
    using r by (auto simp: basic_repr_def bind_eq_Some_conv seq_add_eq_Some)
  obtain r' offset probe where d: "data_repr cx ip s r = Some (r', probe)"
    "carries cx (ip_header_len ip) s r' offset probe" "remote_last_seq s = local_seq_no s + of_nat offset"
    "offset + segment_len r' \<le> rb_len (tx_buffer s) + ctl_in_flight (state s)"
    "\<exists>c p. r' = r\<lparr>payload := p, control := c\<rparr>"
    using data_repr_ok [OF inv mtu ip_header_len_le r0(1,2)] .
  have ack: "ack_number r' = Some (remote_seq_no s + of_nat (rb_len (rx_buffer s)))"
    and sq: "seq_number r' = remote_last_seq s" using d(5) r0 by auto
  have "control r' = CtlPsh \<longrightarrow> payload r' \<noteq> []"
    using d(2) by (simp add: carries_def)
  moreover have "state_repr cx ip s r = Some (Some (r', probe))"
    using True d(1) by (cases "state s") (simp_all add: state_repr_def)
  moreover have "packet_ok cx s ip r' probe False"
    unfolding packet_ok_def using True d(2-4) ack by (auto intro!: exI [of _ offset])
  ultimately show thesis using that sq by blast
next
  case False
  have r0: "seq_number r = remote_last_seq s" "control r = CtlNone" "payload r = []"
    "ack_number r = Some (remote_seq_no s + of_nat (rb_len (rx_buffer s)))"
    using r by (auto simp: basic_repr_def bind_eq_Some_conv seq_add_eq_Some)
  define r' where "r' = (if state s = Closed then r\<lparr>control := CtlRst\<rparr>
    else if state s \<in> {SynSent, SynReceived} then syn_repr s r else r)"
  have "state_repr cx ip s r = Some (Some (r', False))"
    using False st by (cases "state s") (simp_all add: state_repr_def r'_def)
  moreover have "packet_ok cx s ip r' False False"
    using False st r0 by (simp add: packet_ok_def r'_def syn_repr_def Let_def)
  moreover have "control r' \<noteq> CtlPsh" using r0 by (simp add: r'_def syn_repr_def Let_def)
  ultimately show thesis using that r0 by (simp add: r'_def)
qed

lemma packet_ok_mss: "packet_ok cx s ip (r\<lparr>max_seg_size := m\<rparr>) probe ka = packet_ok cx s ip r probe ka"
  by (simp add: packet_ok_def carries_def segment_len_def)

lemma finish_repr_ok:
  assumes mtu: "60 \<le> cx_ip_mtu cx" and p: "packet_ok cx s ip r probe False" and psh: "control r = CtlPsh \<longrightarrow> payload r \<noteq> []"
    and sq: "state s \<notin> {SynSent, SynReceived} \<longrightarrow> seq_number r = remote_last_seq s"
  obtains r' ka where "finish_repr cx ip s r = Some (r', ka)" "packet_ok cx s ip r' probe ka"
proof (cases "should_keep_alive (timer s) (cx_now cx) \<and> repr_is_empty r")
  case True
  then have e: "payload r = []" "control r = CtlNone" using psh by (auto simp: repr_is_empty_def)
  then have "state s \<notin> {SynSent, SynReceived}" using p by (auto simp: packet_ok_def split: if_splits)
  then have "packet_ok cx s ip (r\<lparr>seq_number := seq_number r - 1, payload := [0]\<rparr>) probe True"
    using p e sq by (simp add: packet_ok_def)
  moreover have "finish_repr cx ip s r = Some (r\<lparr>seq_number := seq_number r - 1, payload := [0]\<rparr>, True)"
    using True e by (simp add: finish_repr_def)
  ultimately show thesis using that by blast
next
  case False
  then have "finish_repr cx ip s r = Some (if control r = CtlSyn
      then r\<lparr>max_seg_size := Some (of_nat (cx_ip_mtu cx - ip_header_len ip - 20))\<rparr> else r, False)"
    using mtu_payload_ok [OF ip_header_len_le mtu, of ip] by (auto simp: finish_repr_def)
  then show thesis by (rule that) (use p in \<open>simp add: packet_ok_mss\<close>)
qed

lemma build_packet_ok:
  assumes inv: "tcp_inv s" and t: "tuple s = Some t" and mtu: "60 \<le> cx_ip_mtu cx"
  obtains (none) "build_packet cx s = Some None"
  | (packet) ip r probe ka where "build_packet cx s = Some (Some ((ip, r), probe, ka))" "packet_ok cx s ip r probe ka"
proof -
  have "addr_version (ep_addr (tuple_local t)) = addr_version (ep_addr (tuple_remote t))"
    using inv t by (simp add: tcp_inv_def tuple_ok_def)
  then obtain ip where ip: "ip_repr_new (ep_addr (tuple_local t)) (ep_addr (tuple_remote t)) ProtoTcp 0
      (case hop_limit s of Some h \<Rightarrow> h | None \<Rightarrow> 64) = Some ip"
    using ip_repr_new_Some by blast
  have "rb_len (rx_buffer s) < 2 ^ 31" using inv rx_len_bound by (auto simp: tcp_inv_def)
  then have "\<exists>r. basic_repr cx t s = Some r" by (simp add: basic_repr_def)
  then obtain r where r: "basic_repr cx t s = Some r" by blast
  show thesis
  proof (cases "state s = Listen")
    case True
    then show thesis using ip r t none by (simp add: build_packet_def state_repr_def)
  next
    case False
    obtain r' probe where r': "state_repr cx ip s r = Some (Some (r', probe))" "packet_ok cx s ip r' probe False"
      "control r' = CtlPsh \<longrightarrow> payload r' \<noteq> []" "state s \<notin> {SynSent, SynReceived} \<longrightarrow> seq_number r' = remote_last_seq s"
      using state_repr_ok [OF inv mtu r False] .
    obtain r2 ka where r2: "finish_repr cx ip s r' = Some (r2, ka)" "packet_ok cx s ip r2 probe ka"
      using finish_repr_ok [OF mtu r'(2,3,4)] .
    let ?ip = "ip_set_payload_len ip (tcp_buffer_len r2)"
    have "packet_ok cx s ?ip r2 probe ka" using r2(2) by (simp add: packet_ok_def)
    moreover have "build_packet cx s = Some (Some ((?ip, r2), probe, ka))"
      using t ip r r'(1) r2(1) by (simp add: build_packet_def)
    ultimately show thesis using packet by blast
  qed
qed

lemma sent_span:
  assumes inv: "tcp_inv s" and p: "packet_ok cx s ip r probe False"
  obtains nxt where "seq_number r + of_nat (segment_len r) = local_seq_no s + of_nat nxt"
    "nxt \<le> rb_len (tx_buffer s) + ctl_in_flight (state s)" "segment_len r < 2 ^ 31"
proof -
  have len: "rb_len (tx_buffer s) \<le> 2 ^ 31 - 2" "ctl_in_flight (state s) \<le> 1"
    using inv by (auto simp: tcp_inv_def tx_ok_def rb_inv_def rb_len_def ctl_in_flight_def)
  consider (data) "state s \<in> {Established, FinWait1, Closing, CloseWait, LastAck}"
    | (syn) "state s \<in> {SynSent, SynReceived}"
    | (other) "state s \<in> {Closed, Listen, FinWait2, TimeWait}" by (cases "state s") auto
  then show thesis
  proof cases
    case data
    then obtain offset where o: "carries cx (ip_header_len ip) s r offset probe"
      "offset + segment_len r \<le> rb_len (tx_buffer s) + ctl_in_flight (state s)"
      using p by (auto simp: packet_ok_def)
    then show thesis
      using len by (intro that [of "offset + segment_len r"]) (simp_all add: carries_def algebra_simps)
  next
    case syn
    then have "segment_len r = 1" "seq_number r = local_seq_no s" "ctl_in_flight (state s) = 1"
      using p by (auto simp: packet_ok_def segment_len_def ctl_in_flight_def)
    then show thesis by (intro that [of 1]) simp_all
  next
    case other
    obtain offset where o: "remote_last_seq s = local_seq_no s + of_nat offset"
      "offset \<le> rb_len (tx_buffer s) + ctl_in_flight (state s)"
      using tx_offset [OF inv] by blast
    have "segment_len r = 0" "seq_number r = remote_last_seq s"
      using p other by (auto simp: packet_ok_def segment_len_def)
    then show thesis using o by (intro that [of offset]) simp_all
  qed
qed

lemma socket_reset_idem: "socket_reset (socket_reset s) = socket_reset s"
  by (simp add: socket_reset_def asm_new_def rb_clear_def rb_capacity_def)

lemma dispatch_sent_ok:
  assumes inv: "tcp_inv s" and p: "packet_ok cx s ip r probe ka"
  obtains s' where "dispatch_sent cx r probe ka s = Some s'" "tcp_inv s'"
    and "\<exists>tm nxt la lw rt cc tu. s' = s\<lparr>timer := tm, ack_delay_timer := AckIdle, remote_last_seq := nxt,
      remote_last_ack := la, remote_last_win := lw, rtte := rt, congestion_controller := cc, tuple := tu\<rparr>"
    and "probe \<or> ka \<or> remote_last_seq s' = seq_number r + of_nat (segment_len r)"
proof (cases "probe \<or> ka")
  case True
  define s' where "s' = (if probe then s\<lparr>timer := rewind_zero_window_probe
      (rewind_keep_alive (timer s) (cx_now cx) (keep_alive s)) (cx_now cx), ack_delay_timer := AckIdle\<rparr>
    else s\<lparr>timer := rewind_keep_alive (timer s) (cx_now cx) (keep_alive s), ack_delay_timer := AckIdle\<rparr>)"
  have "tcp_inv s'" using inv core_inv [of s' s] by (simp add: s'_def core_def)
  moreover have "\<exists>tm nxt la lw rt cc tu. s' = s\<lparr>timer := tm, ack_delay_timer := AckIdle, remote_last_seq := nxt,
      remote_last_ack := la, remote_last_win := lw, rtte := rt, congestion_controller := cc, tuple := tu\<rparr>"
    by (intro exI [of _ "timer s'"] exI [of _ "remote_last_seq s"] exI [of _ "remote_last_ack s"]
        exI [of _ "remote_last_win s"] exI [of _ "rtte s"] exI [of _ "congestion_controller s"]
        exI [of _ "tuple s"]) (simp add: s'_def)
  moreover have "dispatch_sent cx r probe ka s = Some s'"
    using True by (auto simp: dispatch_sent_def s'_def)
  ultimately show thesis using True that by blast
next
  case False
  then have p': "packet_ok cx s ip r probe False" using p by simp
  have len: "rb_len (tx_buffer s) \<le> 2 ^ 31 - 2"
    using inv by (auto simp: tcp_inv_def tx_ok_def rb_inv_def rb_len_def)
  obtain nxt where nxt: "seq_number r + of_nat (segment_len r) = local_seq_no s + of_nat nxt"
    "nxt \<le> rb_len (tx_buffer s) + ctl_in_flight (state s)" "segment_len r < 2 ^ 31"
    using sent_span [OF inv p'] .
  define s1 where "s1 = s\<lparr>timer := rewind_keep_alive (timer s) (cx_now cx) (keep_alive s), ack_delay_timer := AckIdle,
    remote_last_seq := seq_number r + of_nat (segment_len r), remote_last_ack := ack_number r,
    remote_last_win := window_len r\<rparr>"
  define s2 where "s2 = (if segment_len r > 0 then s1\<lparr>rtte := rtt_on_send (rtte s1) (cx_now cx) (seq_number r + of_nat (segment_len r)),
    congestion_controller := cc_post_transmit (congestion_controller s1) (cx_now cx) (segment_len r)\<rparr> else s1)"
  define s3 where "s3 = (if segment_len r > 0 \<and> \<not> timer_is_retransmit (timer s2)
    then s2\<lparr>timer := set_for_retransmit (timer s2) (cx_now cx) (retransmission_timeout (rtte s2))\<rparr> else s2)"
  define s' where "s' = (if state s3 = Closed then s3\<lparr>tuple := None\<rparr> else s3)"
  have "dispatch_sent cx r probe ka s = Some s'"
    using False nxt(3) unfolding dispatch_sent_def s'_def s3_def s2_def s1_def by (simp add: Let_def)
  moreover have "tx_ok (state s) (tx_buffer s) (local_seq_no s) (seq_number r + of_nat (segment_len r))"
  proof -
    have "nxt < 2 ^ 31" using nxt(2) len by (auto simp: ctl_in_flight_def split: if_splits)
    then have "sint (of_nat nxt :: seq) = int nxt" by simp
    then show ?thesis unfolding nxt(1) using inv nxt(2) by (simp add: tcp_inv_def tx_ok_def)
  qed
  then have "tcp_inv s'"
    using inv by (auto simp: s'_def s3_def s2_def s1_def tcp_inv_def peer_ok_def tuple_ok_def)
  moreover have "\<exists>tm nxt la lw rt cc tu. s' = s\<lparr>timer := tm, ack_delay_timer := AckIdle, remote_last_seq := nxt,
      remote_last_ack := la, remote_last_win := lw, rtte := rt, congestion_controller := cc, tuple := tu\<rparr>"
    by (intro exI [of _ "timer s'"] exI [of _ "remote_last_seq s'"] exI [of _ "remote_last_ack s'"]
        exI [of _ "remote_last_win s'"] exI [of _ "rtte s'"] exI [of _ "congestion_controller s'"]
        exI [of _ "tuple s'"]) (simp add: s'_def s3_def s2_def s1_def)
  moreover have "remote_last_seq s' = seq_number r + of_nat (segment_len r)"
    by (simp add: s'_def s3_def s2_def s1_def)
  ultimately show thesis using that by blast
qed

section \<open>\<open>dispatch\<close> as a whole\<close>

text \<open>What \<open>dispatch\<close> leaves of the receive half: all of it, unless TIME-WAIT is over.\<close>

definition same_rx :: "tcp_socket \<Rightarrow> tcp_socket \<Rightarrow> bool" where
  "same_rx s s' \<longleftrightarrow> rx_buffer s' = rx_buffer s \<and> assembler s' = assembler s \<and>
     remote_seq_no s' = remote_seq_no s \<and> rx_fin_received s' = rx_fin_received s"

lemma dispatch_ok:
  assumes inv: "tcp_inv s" and mtu: "60 \<le> cx_ip_mtu cx" and adv: "within_advertised s"
  obtains pkt res s' where "dispatch emit cx s = Some (pkt, res, s')" "tcp_inv s'"
    "s' = socket_reset s' \<or> same_rx s s' \<and> tx_buffer s' = tx_buffer s \<and> local_seq_no s' = local_seq_no s \<and>
      state s' \<in> {state s, Closed}"
    "\<And>ip r. pkt = Some (ip, r) \<Longrightarrow> \<exists>s1 probe ka. dispatch_timers cx s = Some s1 \<and> tcp_inv s1 \<and>
       packet_ok cx s1 ip r probe ka"
proof (cases "tuple s")
  case None
  with inv show thesis by (intro that [of None "Inr ()" s]) (simp_all add: dispatch_def same_rx_def)
next
  case (Some t)
  obtain s1 where s1: "dispatch_timers cx s = Some s1" "tcp_inv s1"
    "\<exists>st nxt tm rt cc ts. s1 = s\<lparr>state := st, remote_last_seq := nxt, timer := tm, rtte := rt,
      congestion_controller := cc, remote_last_ts := ts\<rparr> \<and>
      (st = Closed \<or> st = state s) \<and> (nxt = remote_last_seq s \<or> nxt = local_seq_no s)"
    using dispatch_timers_ok [OF inv Some mtu] .
  have same: "same_rx s s1" "tx_buffer s1 = tx_buffer s" "local_seq_no s1 = local_seq_no s" "tuple s1 = Some t"
    "within_advertised s1" "state s1 \<in> {state s, Closed}"
    using s1(3) Some adv by (auto simp: same_rx_def within_advertised_def advertised_edge_def)
  obtain c where c: "dispatch_choice cx s1 = Some c" using dispatch_choice_ok [OF s1(2) same(4) mtu same(5)] .
  note d = dispatch_def [of emit cx s] s1(1) c
  show thesis
  proof (cases "state s1 = SynReceived \<and> synack_paused s1")
    case True
    then show thesis using d Some s1(2) same by (intro that [of None "Inr ()" s1]) simp_all
  next
    case False
    show thesis
    proof (cases c)
      case EmitNothing
      then show thesis using d Some s1(2) same False by (intro that [of None "Inr ()" s1]) auto
    next
      case CloseTimeWait
      then show thesis
        using d Some socket_reset_inv [OF s1(2)] False
        by (intro that [of None "Inr ()" "socket_reset s1"]) (auto simp: socket_reset_idem)
    next
      case EmitPacket
      show thesis
      proof (cases rule: build_packet_ok [OF s1(2) same(4) mtu])
        case 1
        then show thesis using d Some s1(2) same False EmitPacket by (intro that [of None "Inr ()" s1]) auto
      next
        case (2 ip r probe ka)
        obtain s2 where s2: "dispatch_sent cx r probe ka s1 = Some s2" "tcp_inv s2"
          "\<exists>tm nxt la lw rt cc tu. s2 = s1\<lparr>timer := tm, ack_delay_timer := AckIdle, remote_last_seq := nxt,
            remote_last_ack := la, remote_last_win := lw, rtte := rt, congestion_controller := cc, tuple := tu\<rparr>"
          using dispatch_sent_ok [OF s1(2) 2(2)] .
        have same2: "same_rx s s2" "tx_buffer s2 = tx_buffer s" "local_seq_no s2 = local_seq_no s"
          "state s2 \<in> {state s, Closed}" using s2(3) same by (auto simp: same_rx_def)
        show thesis
        proof (cases "emit (ip, r)")
          case (Inl e)
          then show thesis using d Some s1 same False EmitPacket 2
            by (intro that [of "Some (ip, r)" "Inl e" s1]) auto
        next
          case (Inr u)
          then show thesis using d Some s1 s2 same2 False EmitPacket 2
            by (intro that [of "Some (ip, r)" "Inr ()" s2]) auto
        qed
      qed
    qed
  qed
qed

end
