(* ===== verification/Tcp_Dispatch_Props.thy ===== *)
theory Tcp_Dispatch_Props
  imports Tcp_Dispatch
begin

text \<open>
  The theorems about \<open>dispatch\<close> and \<open>poll_at\<close>: no panics, what the packets carry, and when the
  socket has to be polled.
\<close>

section \<open>Properties of \<open>dispatch\<close> and \<open>poll_at\<close>\<close>

text \<open>
  C5: \<open>dispatch\<close> never panics and keeps the invariant, whether or not the device takes the packet,
  provided that the MTU has room for the headers and that the remote side has kept to the window
  it was given.
\<close>

theorem dispatch_safe:
  assumes "tcp_inv s" and "60 \<le> cx_ip_mtu cx" and "within_advertised s"
  shows "\<exists>pkt res s'. dispatch emit cx s = Some (pkt, res, s') \<and> tcp_inv s'"
  using dispatch_ok [OF assms] by metis

theorem dispatch_safe_witness:
  "\<exists>pkt res s'. dispatch (\<lambda>_. Inr () :: unit + unit) demo_cx demo_established = Some (pkt, res, s') \<and> tcp_inv s'"
  by (rule dispatch_safe [OF demo_established_inv])
    (simp_all add: demo_cx_def within_advertised_def advertised_edge_def demo_established_def demo_closed_eq)


definition demo_sending :: tcp_socket where
  "demo_sending = demo_established\<lparr>tx_buffer := \<lparr>rb_storage = [1, 2, 3, 0, 0, 0, 0, 0], rb_read_at = 0, rb_length = 3\<rparr>\<rparr>"

lemma demo_sending_simps:
  "state demo_sending = Established" "tuple demo_sending = Some \<lparr>tuple_local = demo_local, tuple_remote = demo_remote\<rparr>"
  "remote_mss demo_sending = 536" "remote_last_seq demo_sending = 2001" "local_seq_no demo_sending = 2001"
  "remote_win_len demo_sending = 100" "rb_len (tx_buffer demo_sending) = 3" "congestion_controller demo_sending = CcNone"
  "timer demo_sending = TimerIdle None" "timeout demo_sending = None" "remote_last_ts demo_sending = Some (instant_from_millis 0)"
  "hop_limit demo_sending = None" "nagle demo_sending" "remote_seq_no demo_sending = 5001"
  "rb_len (rx_buffer demo_sending) = 0"
  "\<not> synack_paused demo_sending" "\<not> tsval_generator demo_sending" "ep_addr demo_local = Ipv4 0x0a000001"
  "ep_addr demo_remote = Ipv4 0x0a000002" "cx_ip_mtu demo_cx = 1500"
  "demo_sending\<lparr>congestion_controller := CcNone\<rparr> = demo_sending" "scaled_window demo_sending = 8"
  by (simp_all add: demo_sending_def demo_established_def demo_closed_eq DEFAULT_MSS_def rb_len_def timer_new_def
      demo_local_def demo_remote_def demo_cx_def scaled_window_def u16_saturate_def)

lemma demo_sending_inv: "tcp_inv demo_sending"
  using demo_established_inv
  by (simp add: demo_sending_def demo_established_def tcp_inv_def tx_ok_def unsynced_ok_def
      rb_inv_def rb_capacity_def rb_len_def)

lemma demo_sending_seq: "seq_to_transmit demo_cx demo_sending = Some True"
  by (simp add: seq_to_transmit_def demo_sending_simps mtu_payload_def IPV4_HEADER_LEN_def TCP_HEADER_LEN_def
      seq_ge_def seq_diff_def)

lemma demo_sending_dispatch:
  "\<exists>ip r res s'. dispatch (\<lambda>_. Inr () :: unit + unit) demo_cx demo_sending = Some (Some (ip, r), res, s') \<and>
     payload r = [1, 2, 3] \<and> control r = CtlPsh"
proof -
  have t: "dispatch_timers demo_cx demo_sending = Some demo_sending"
    by (simp add: dispatch_timers_def Let_def demo_sending_simps timed_out_def demo_sending_seq)
  have c: "dispatch_choice demo_cx demo_sending = Some EmitPacket"
    by (simp add: dispatch_choice_def demo_sending_seq)
  have alloc: "get_allocated 0 100 (tx_buffer demo_sending) = [1, 2, 3]"
    by (simp add: demo_sending_def get_allocated_def get_idx_def rb_capacity_def Let_def)
  obtain ip r where b: "build_packet demo_cx demo_sending = Some (Some ((ip, r), False, False))"
    "payload r = [1, 2, 3]" "control r = CtlPsh" "seq_number r = 2001"
    by (simp add: build_packet_def demo_sending_simps basic_repr_def state_repr_def data_repr_def send_limit_def
      mtu_payload_def IPV4_HEADER_LEN_def TCP_HEADER_LEN_def seq_ge_def seq_diff_def Let_def finish_repr_def
      alloc numeral_3_eq_3)
  then show ?thesis using t c
    by (simp add: dispatch_def demo_sending_simps dispatch_sent_def segment_len_def Let_def)
qed


lemma cc_pre_transmit_id: "cc_pre_transmit c now = c"
  by (cases c) simp_all

lemma min_le_PollTime: "min (min a b) c \<le> (t :: poll_at) \<longleftrightarrow> a \<le> t \<or> b \<le> t \<or> c \<le> t"
  by (auto simp: min_le_iff_disj)

text \<open>A timer that is due wakes the socket up.\<close>

lemma timer_due:
  assumes "should_retransmit tm now \<or> should_keep_alive tm now \<or> should_zero_window_probe tm now"
  shows "timer_poll_at tm \<le> PollTime now"
  using assms by (cases tm; cases "(tm, now)" rule: should_keep_alive.cases) auto

text \<open>The wish of a socket that has nothing to send but by a timer.\<close>

lemma tcp_poll_at_quiet:
  assumes "tcp_poll_at cx s = Some t" "tuple s \<noteq> None" "remote_last_ts s \<noteq> None"
    and "\<not> (state s = Closed \<or> seq_to_transmit cx s = Some True \<or> window_to_update s = Some True)"
  obtains want_ack where "seq_to_transmit cx s = Some False" "window_to_update s = Some False" "ack_to_transmit s = Some want_ack"
    "t = min (min (timer_poll_at (timer s)) (case (remote_last_ts s, timeout s) of
               (Some last_ts, Some t) \<Rightarrow> PollTime (instant_add last_ts t) | _ \<Rightarrow> PollIngress))
          (if \<not> want_ack then PollIngress else case ack_delay_timer s of
             AckIdle \<Rightarrow> PollNow | AckWaiting t \<Rightarrow> PollTime t | AckImmediate \<Rightarrow> PollNow)"
  using assms unfolding tcp_poll_at_def by (auto simp: bind_eq_Some_conv Let_def split: if_splits)

text \<open>
  \<open>poll_at\<close> never oversleeps. Whenever \<open>dispatch\<close> would send a packet now, \<open>poll_at\<close> has already
  asked to be called now or earlier; so a caller that polls when told to misses no transmission,
  retransmission, delayed acknowledgement, window update, keep-alive or probe.
\<close>

lemma tcp_poll_at_due:
  assumes "dispatch emit cx s = Some (Some p, res, s')" and "tcp_poll_at cx s = Some t"
  shows "t \<le> PollTime (cx_now cx)"
proof (cases "remote_last_ts s")
  case None
  then show ?thesis using assms by (auto simp: tcp_poll_at_def dispatch_def split: if_splits)
next
  case (Some ts)
  have tup: "tuple s \<noteq> None" using assms(1) by (cases "tuple s = None") (simp_all add: dispatch_def)
  show ?thesis
  proof (cases "state s = Closed \<or> seq_to_transmit cx s = Some True \<or> window_to_update s = Some True")
    case True
    then show ?thesis using assms(2) tup Some by (auto simp: tcp_poll_at_def bind_eq_Some_conv split: if_splits)
  next
    case False
    then obtain want_ack where w: "seq_to_transmit cx s = Some False" "window_to_update s = Some False"
      "ack_to_transmit s = Some want_ack"
      "t = min (min (timer_poll_at (timer s)) (case (remote_last_ts s, timeout s) of
                 (Some last_ts, Some t) \<Rightarrow> PollTime (instant_add last_ts t) | _ \<Rightarrow> PollIngress))
            (if \<not> want_ack then PollIngress else case ack_delay_timer s of
               AckIdle \<Rightarrow> PollNow | AckWaiting t \<Rightarrow> PollTime t | AckImmediate \<Rightarrow> PollNow)"
      using tcp_poll_at_quiet [OF assms(2) tup] Some by (metis option.distinct(1))
    consider (timeout) "timed_out (cx_now cx) s" | (retransmit) "should_retransmit (timer s) (cx_now cx)"
      | (plain) "dispatch_timers cx s = Some s"
      using w(1) by (cases "timed_out (cx_now cx) s"; cases "should_retransmit (timer s) (cx_now cx)")
        (auto simp: dispatch_timers_def Some cc_pre_transmit_id)
    then show ?thesis
    proof cases
      case timeout
      then show ?thesis by (auto simp: w(4) min_le_PollTime timed_out_def split: option.splits)
    next
      case retransmit
      then show ?thesis by (simp add: w(4) min_le_PollTime timer_due)
    next
      case plain
      then have "dispatch_choice cx s = Some EmitPacket"
        using assms(1) tup
        by (cases "dispatch_choice cx s"; cases "the (dispatch_choice cx s)"; simp add: dispatch_def split: if_splits)
      then have "want_ack \<and> delayed_ack_expired (cx_now cx) s \<or> should_keep_alive (timer s) (cx_now cx) \<or>
          should_zero_window_probe (timer s) (cx_now cx)"
        using False w by (auto simp: dispatch_choice_def split: if_splits)
      then show ?thesis
        by (auto simp: w(4) min_le_PollTime timer_due delayed_ack_expired_def split: ack_delay_timer.splits)
    qed
  qed
qed

section \<open>The advertised window\<close>


definition demo_beyond :: tcp_socket where
  "demo_beyond = demo_established\<lparr>remote_seq_no := 5009, ack_delay_timer := AckWaiting (instant_from_millis 10),
     rx_buffer := \<lparr>rb_storage = [9, 0, 0, 0, 0, 0, 0, 0], rb_read_at = 0, rb_length = 1\<rparr>\<rparr>"


end
