(* ===== verification/Tcp_Stream.thy ===== *)
theory Tcp_Stream
  imports Tcp_Dispatch_Props "HOL-Library.Sublist"
begin

text \<open>
  The byte stream of one direction of a connection, from the segments that arrive to the octets
  that the user reads. The network may lose, duplicate, delay and reorder segments; a step relation
  interleaves their arrival with the operations of the user and with \<open>dispatch\<close>.
\<close>

section \<open>Segments of a stream\<close>

text \<open>
  The remote side sends \<open>stream\<close>, starting behind its initial sequence number \<open>irs\<close>. \<open>d\<close> octets have
  been read by the user. A segment is honest when it has a position in the stream less than \<open>2 ^ 30\<close>
  octets from the next one expected (no segment lives so long that sequence numbers are reused),
  its octets that are still to come are those of the stream there (octets before them are not
  looked at: a keep-alive has a garbage octet), and a FIN stands behind the last octet and the
  whole segment fits the receive buffer.
\<close>

definition honest :: "seq \<Rightarrow> u8 list \<Rightarrow> nat \<Rightarrow> tcp_socket \<Rightarrow> tcp_repr \<Rightarrow> bool" where
  "honest irs stream d s r \<longleftrightarrow>
     (if state s \<in> {Listen, SynSent} then control r = CtlSyn \<longrightarrow> seq_number r = irs
      else \<exists>p :: int. seq_number r = irs + 1 + of_int p \<and> \<bar>p - int (d + rb_len (rx_buffer s))\<bar> < 2 ^ 30 \<and>
        (\<forall>i < length (payload r). int (d + rb_len (rx_buffer s)) \<le> p + int i \<longrightarrow>
           nat (p + int i) < length stream \<and> payload r ! i = stream ! nat (p + int i)) \<and>
        (control r = CtlFin \<longrightarrow> p + int (length (payload r)) = int (length stream) \<and>
           length stream \<le> d + rb_capacity (rx_buffer s)))"

text \<open>What has been read, followed by what the buffers hold, is the stream so far.\<close>

definition stream_inv :: "seq \<Rightarrow> u8 list \<Rightarrow> u8 list \<Rightarrow> tcp_socket \<Rightarrow> bool" where
  "stream_inv irs stream d s \<longleftrightarrow> tcp_inv s \<and> prefix d stream \<and>
     (state s \<in> {Listen, SynSent, SynReceived} \<longrightarrow> d = []) \<and>
     (state s \<in> {Listen, SynSent} \<or> state s = Closed \<and> rb_len (rx_buffer s) = 0 \<and> \<not> rx_fin_received s \<or>
      remote_seq_no s = irs + 1 + of_nat (length d) + of_bool (rx_fin_received s) \<and>
      rx_agrees (\<lambda>i. stream ! (length d + i)) (rx_buffer s, assembler s) \<and>
      length d + rb_len (rx_buffer s) + asm_extent (assembler s) \<le> length stream \<and>
      (rx_fin_received s \<longrightarrow> length d + rb_len (rx_buffer s) = length stream))"

lemma stream_inv_prefix:
  assumes "stream_inv irs stream d s"
  shows "prefix (d @ rb_list (rx_buffer s)) stream"
proof -
  have inv: "tcp_inv s" "prefix d stream" using assms by (simp_all add: stream_inv_def)
  consider (empty) "rb_len (rx_buffer s) = 0"
    | (data) "rx_agrees (\<lambda>i. stream ! (length d + i)) (rx_buffer s, assembler s)"
      "length d + rb_len (rx_buffer s) \<le> length stream"
    using assms by (auto simp: stream_inv_def tcp_inv_def unsynced_ok_def)
  then show ?thesis
  proof cases
    case empty
    then have "rb_list (rx_buffer s) = []" by (simp add: rb_list_def rb_len_def)
    with inv show ?thesis by simp
  next
    case data
    have "rb_list (rx_buffer s) = take (rb_len (rx_buffer s)) (drop (length d) stream)"
      using data by (intro nth_equalityI) (auto simp: rb_len_def rx_agrees_def)
    moreover have "d = take (length d) stream" using inv(2) by (metis append_eq_conv_conj prefixE)
    ultimately have "d @ rb_list (rx_buffer s) = take (length d + rb_len (rx_buffer s)) stream"
      by (metis take_add)
    then show ?thesis by (metis take_is_prefix)
  qed
qed

section \<open>One segment\<close>

lemma stored_agrees:
  assumes rx: "rx_ok rx asm" and agr: "rx_agrees f (rx, asm)" and st: "stored offset part (rx, asm) (rx', asm')"
    and fits: "offset + length part \<le> rb_window rx"
    and part: "\<And>i. i < length part \<Longrightarrow> part ! i = f (rb_len rx + offset + i)"
  shows "rx_agrees f (rx', asm')" "rb_len rx \<le> rb_len rx'"
    "rb_len rx' + asm_extent asm' = rb_len rx + asm_extent asm \<or>
     part \<noteq> [] \<and> rb_len rx' + asm_extent asm' = rb_len rx + max (asm_extent asm) (offset + length part)"
    "offset = 0 \<Longrightarrow> rb_len rx + length part \<le> rb_len rx'"
proof -
  have "rx_agrees f (rx', asm') \<and> rb_len rx \<le> rb_len rx' \<and>
    (rb_len rx' + asm_extent asm' = rb_len rx + asm_extent asm \<or>
     part \<noteq> [] \<and> rb_len rx' + asm_extent asm' = rb_len rx + max (asm_extent asm) (offset + length part)) \<and>
    (offset = 0 \<longrightarrow> rb_len rx + length part \<le> rb_len rx')"
  proof (cases "part = []")
    case True
    then show ?thesis using st agr by (simp add: stored_def)
  next
    case False
    show ?thesis
    proof (cases rule: store_payload_ok [OF rx fits False])
      case 1
      then show ?thesis using st agr False by (simp add: stored_def)
    next
      case (2 m rx2 asm2)
      then have eq: "rx' = rx2" "asm' = asm2" using st False by (simp_all add: stored_def)
      have "m + asm_extent asm2 \<le> rb_window rx" using 2(8) fits rx by (simp add: rx_ok_def)
      then have "rx_agrees f (rx2, asm2)"
        using rx_agrees_store [OF rx fits agr _ 2(3) _ 2(6,7)] part by (auto simp: rb_len_def)
      moreover have "offset = 0 \<longrightarrow> length part \<le> m" using 2(6) by (auto simp: front_split_def)
      ultimately show ?thesis using 2(3,8) False by (simp add: eq rb_len_def)
    qed
  qed
  then show "rx_agrees f (rx', asm')" "rb_len rx \<le> rb_len rx'"
    "rb_len rx' + asm_extent asm' = rb_len rx + asm_extent asm \<or>
     part \<noteq> [] \<and> rb_len rx' + asm_extent asm' = rb_len rx + max (asm_extent asm) (offset + length part)"
    "offset = 0 \<Longrightarrow> rb_len rx + length part \<le> rb_len rx'" by blast+
qed

lemma segment_pos_eq:
  assumes "seq_number r = irs + 1 + of_int q" and "remote_seq_no s = irs + 1 + of_nat n + of_bool f"
    and q: "\<bar>q - int (n + rb_len (rx_buffer s))\<bar> < 2 ^ 30"
  shows "segment_pos s r = q - int (n + rb_len (rx_buffer s)) - of_bool f"
proof -
  define k where "k = q - int (n + rb_len (rx_buffer s)) - of_bool f"
  have "seq_number r - (remote_seq_no s + of_nat (rb_len (rx_buffer s))) = of_int k"
    by (cases f) (simp_all add: assms k_def)
  moreover have "- (2 ^ 31) \<le> k" "k < 2 ^ 31" using q by (cases f; simp add: k_def abs_if split: if_splits)+
  ultimately show ?thesis unfolding segment_pos_def k_def [symmetric] by (simp only: sint_of_int_small)
qed

text \<open>The part of an honest segment inside the window is the stream there.\<close>

lemma honest_part:
  assumes h: "honest irs stream (length d) s r" "state s \<notin> {Listen, SynSent}"
    and seq: "remote_seq_no s = irs + 1 + of_nat (length d) + of_bool (rx_fin_received s)"
    and p: "window_part s r part offset"
  obtains "part = []" | "\<not> rx_fin_received s" "part \<noteq> []"
    "length d + rb_len (rx_buffer s) + offset + length part \<le> length stream"
    "\<And>i. i < length part \<Longrightarrow> part ! i = stream ! (length d + (rb_len (rx_buffer s) + offset + i))"
  | "rx_fin_received s" "length d + rb_len (rx_buffer s) < length stream"
proof (cases "part = []")
  case False
  let ?len = "rb_len (rx_buffer s)" and ?f = "of_bool (rx_fin_received s) :: int"
  obtain q :: int where q: "seq_number r = irs + 1 + of_int q" "\<bar>q - int (length d + ?len)\<bar> < 2 ^ 30"
    "\<And>i. i < length (payload r) \<Longrightarrow> int (length d + ?len) \<le> q + int i \<Longrightarrow>
       nat (q + int i) < length stream \<and> payload r ! i = stream ! nat (q + int i)"
    using h unfolding honest_def by auto
  have pos: "segment_pos s r = q - int (length d + ?len) - ?f"
    by (rule segment_pos_eq [OF q(1) seq q(2)])
  obtain start m where w: "part = take m (drop start (payload r))" "start + m \<le> length (payload r)"
    "int offset = segment_pos s r + int start"
    using p unfolding window_part_def by blast
  have len: "length part = m" using w by simp
  have at: "nat (q + int (start + i)) < length stream \<and> part ! i = stream ! nat (q + int (start + i)) \<and>
      q + int (start + i) = int (length d + ?len + offset + i) + ?f" if "i < m" for i
  proof -
    have eq: "q + int (start + i) = int (length d + ?len + offset + i) + ?f" using w(3) pos by simp
    moreover have "0 \<le> ?f" by simp
    ultimately have "int (length d + ?len) \<le> q + int (start + i)" by linarith
    moreover have "start + i < length (payload r)" using that w(2) by linarith
    ultimately show ?thesis using q(3) [of "start + i"] eq that w(1,2) by auto
  qed
  show thesis
  proof (cases "rx_fin_received s")
    case True
    have "length d + ?len < length stream" using at [of 0] False len True by auto
    with True show thesis using that(3) by blast
  next
    case nofin: False
    have eq: "nat (q + int (start + i)) = length d + (?len + offset + i)" if "i < m" for i
    proof -
      have "q + int (start + i) = int (length d + (?len + offset + i))" using at [OF that] nofin by simp
      then show ?thesis by (simp only: nat_int)
    qed
    have "m > 0" using False len by (cases part) auto
    then have "length d + ?len + offset + length part \<le> length stream"
      using at [of "m - 1"] eq [of "m - 1"] len by auto
    moreover have "part ! i = stream ! (length d + (?len + offset + i))" if "i < length part" for i
      using at [of i] eq [of i] that len by auto
    ultimately show thesis using that(2) nofin False by blast
  qed
qed (use that in blast)

text \<open>An honest FIN that is accepted ends the stream.\<close>

lemma honest_fin:
  assumes h: "honest irs stream (length d) s r" "state s \<notin> {Listen, SynSent}" and inv: "tcp_inv s"
    and seq: "remote_seq_no s = irs + 1 + of_nat (length d)" and len: "length d + rb_len (rx_buffer s) \<le> length stream"
    and fin: "control r = CtlFin" "\<not> seq_lt (remote_seq_no s + of_nat (rb_len (rx_buffer s))) (seq_number r)"
    and p: "window_part s r part offset"
  shows "offset = 0" "length d + rb_len (rx_buffer s) + length part = length stream"
proof -
  let ?len = "rb_len (rx_buffer s)"
  obtain q :: int where q: "seq_number r = irs + 1 + of_int q" "\<bar>q - int (length d + ?len)\<bar> < 2 ^ 30"
    "q + int (length (payload r)) = int (length stream)" "length stream \<le> length d + rb_capacity (rx_buffer s)"
    using h fin unfolding honest_def by auto
  have pos: "segment_pos s r = q - int (length d + ?len)"
    using segment_pos_eq [OF q(1) _ q(2), of False] seq by simp
  have "seq_lt (irs + 1 + of_int (int (length d + ?len))) (irs + 1 + of_int q) \<longleftrightarrow> int (length d + ?len) < q"
    using q(2) by (intro seq_lt_dist) auto
  then have le: "q \<le> int (length d + ?len)" using fin(2) by (simp add: seq q(1) add.assoc)
  obtain start m where w: "part = take m (drop start (payload r))" "start + m \<le> length (payload r)"
    "int offset = max 0 (segment_pos s r)"
    "int (offset + m) = min (int (rb_window (rx_buffer s))) (segment_pos s r + int (length (payload r)))"
    using p unfolding window_part_def by blast
  have rb: "rb_capacity (rx_buffer s) = ?len + rb_window (rx_buffer s)"
    using inv by (auto simp: tcp_inv_def rx_ok_def rb_inv_def rb_window_def rb_len_def)
  show "offset = 0" using w(3) pos le by simp
  have "int m = int (length stream) - int (length d + ?len)"
    using w(3,4) pos le q(3,4) rb len by (auto simp: min_def split: if_splits)
  moreover have "length part = m" using w(1,2) by simp
  ultimately show "length d + ?len + length part = length stream" using len by linarith
qed

lemma stream_inv_process:
  assumes si: "stream_inv irs stream d s" and seg: "segment_ok r" and acc: "accepts s ip r"
    and h: "honest irs stream (length d) s r" and pr: "process cx ip r s = Some (rep, s')"
  shows "stream_inv irs stream d s'"
proof -
  have inv: "tcp_inv s" and pre: "prefix d stream" using si by (simp_all add: stream_inv_def)
  have st: "state s \<noteq> Closed" using acc by (auto simp: accepts_def split: if_splits)
  have inv': "tcp_inv s'" and eff: "rx_effect s r s'" using process_ok [OF inv seg acc, of cx] pr by auto
  have d: "state s' \<in> {Listen, SynSent, SynReceived} \<longrightarrow> d = []"
    using eff si unfolding rx_effect_def stream_inv_def by blast
  note base = inv' pre d
  consider (same) "rx_buffer s' = rx_buffer s" "assembler s' = assembler s" "remote_seq_no s' = remote_seq_no s"
      "rx_fin_received s' = rx_fin_received s" "state s' \<in> {state s, Listen, Closed}"
    | (sync) "state s \<in> {Listen, SynSent}" "rx_buffer s' = rx_buffer s" "assembler s' = assembler s"
      "remote_seq_no s' = seq_number r + 1" "control r = CtlSyn" "rx_fin_received s' = rx_fin_received s"
    | (data) part offset fin where "state s \<notin> {Listen, SynSent}" "window_part s r part offset"
      "stored offset part (rx_buffer s, assembler s) (rx_buffer s', assembler s')"
      "remote_seq_no s' = remote_seq_no s + of_bool fin" "rx_fin_received s' = (rx_fin_received s \<or> fin)"
      "fin \<longrightarrow> \<not> rx_fin_received s" "fin \<longrightarrow> control r = CtlFin \<and>
         \<not> seq_lt (remote_seq_no s + of_nat (rb_len (rx_buffer s))) (seq_number r)"
    using eff unfolding rx_effect_def by blast
  then show ?thesis
  proof cases
    case same
    show ?thesis
    proof (cases "state s \<in> {Listen, SynSent}")
      case True
      then have "rb_len (rx_buffer s) = 0 \<and> \<not> rx_fin_received s" using inv by (auto simp: tcp_inv_def unsynced_ok_def)
      then show ?thesis using base same True by (auto simp: stream_inv_def)
    next
      case False
      then show ?thesis using base same si st by (auto simp: stream_inv_def)
    qed
  next
    case sync
    then have un: "rb_len (rx_buffer s) = 0" "asm_extent (assembler s) = 0" "\<not> rx_fin_received s" "d = []"
      using inv si by (auto simp: tcp_inv_def unsynced_ok_def stream_inv_def)
    have "seq_number r = irs" using h sync by (simp add: honest_def)
    moreover have "rx_agrees (\<lambda>i. stream ! (length d + i)) (rx_buffer s, assembler s)"
      using un asm_cover_bounds [of _ 0 "assembler s"] by (fastforce simp: rx_agrees_def rb_len_def)
    ultimately show ?thesis using base sync un by (simp add: stream_inv_def)
  next
    case data
    have sy: "remote_seq_no s = irs + 1 + of_nat (length d) + of_bool (rx_fin_received s)"
      "rx_agrees (\<lambda>i. stream ! (length d + i)) (rx_buffer s, assembler s)"
      "length d + rb_len (rx_buffer s) + asm_extent (assembler s) \<le> length stream"
      "rx_fin_received s \<longrightarrow> length d + rb_len (rx_buffer s) = length stream"
      using si data(1) st unfolding stream_inv_def by blast+
    have rx: "rx_ok (rx_buffer s) (assembler s)" using inv by (simp add: tcp_inv_def)
    note fits = window_part_fits [OF data(2)]
    have part: "part \<noteq> [] \<longrightarrow> length d + rb_len (rx_buffer s) + offset + length part \<le> length stream \<and>
        (\<forall>i < length part. part ! i = stream ! (length d + (rb_len (rx_buffer s) + offset + i)))"
      using honest_part [OF h data(1) sy(1) data(2)] sy(4) by (metis less_irrefl)
    have ag: "rx_agrees (\<lambda>i. stream ! (length d + i)) (rx_buffer s', assembler s')"
      "rb_len (rx_buffer s) \<le> rb_len (rx_buffer s')"
      "rb_len (rx_buffer s') + asm_extent (assembler s') = rb_len (rx_buffer s) + asm_extent (assembler s) \<or>
       part \<noteq> [] \<and> rb_len (rx_buffer s') + asm_extent (assembler s') =
         rb_len (rx_buffer s) + max (asm_extent (assembler s)) (offset + length part)"
      "offset = 0 \<Longrightarrow> rb_len (rx_buffer s) + length part \<le> rb_len (rx_buffer s')"
      using stored_agrees [OF rx sy(2) data(3) fits] part by auto
    have ext: "length d + rb_len (rx_buffer s') + asm_extent (assembler s') \<le> length stream"
      using ag(3) sy(3) part by (auto simp: max_def split: if_splits)
    have "length d + rb_len (rx_buffer s') = length stream" if "rx_fin_received s'"
    proof (cases "rx_fin_received s")
      case True
      then show ?thesis using sy(4) ag(2) ext by linarith
    next
      case False
      then have fin: fin using that data(5) by blast
      have f: "offset = 0" "length d + rb_len (rx_buffer s) + length part = length stream"
        using honest_fin [OF h data(1) inv _ _ _ _ data(2)] sy(1,3) data(7) fin False by auto
      then show ?thesis using ag(4) [OF f(1)] ext by linarith
    qed
    moreover have "remote_seq_no s' = irs + 1 + of_nat (length d) + of_bool (rx_fin_received s')"
      using data(4,5,6) sy(1) by auto
    ultimately show ?thesis using base ag(1) ext by (simp add: stream_inv_def)
  qed
qed


section \<open>The other steps\<close>

lemma socket_reset_fields:
  "state (socket_reset s) = Closed" "rb_len (rx_buffer (socket_reset s)) = 0" "\<not> rx_fin_received (socket_reset s)"
  by (simp_all add: socket_reset_def rb_len_def)

lemma stream_inv_recv:
  assumes si: "stream_inv irs stream d s" and recv: "recv_slice buf s = Some (Inr (n, out), s')"
  shows "stream_inv irs stream (d @ take n out) s'"
proof -
  have inv: "tcp_inv s" using si by (simp add: stream_inv_def)
  then have rx: "rx_ok (rx_buffer s) (assembler s)" by (simp add: tcp_inv_def)
  obtain "out = overwrite buf 0 (take n (rb_list (rx_buffer s)))" "n = min (length buf) (rb_len (rx_buffer s))"
    and inv': "tcp_inv s'"
    and s': "s' = s\<lparr>rx_buffer := rb_drop n (rx_buffer s), remote_seq_no := remote_seq_no s + of_nat n\<rparr>"
    by (rule recv_slice_inv [OF inv, of buf]) (use recv in auto)
  then have out: "take n out = take n (rb_list (rx_buffer s))" and n: "n \<le> rb_length (rx_buffer s)"
    by (auto simp: overwrite_def rb_len_def)
  have len: "rb_len (rb_drop n (rx_buffer s)) = rb_len (rx_buffer s) - n" "length (take n (rb_list (rx_buffer s))) = n"
    using rb_drop_props [of "rx_buffer s" n] rx n by (simp_all add: rx_ok_def rb_len_def)
  have pre: "prefix (d @ take n (rb_list (rx_buffer s))) stream"
    using stream_inv_prefix [OF si] by (meson prefix_order.trans same_prefix_prefix take_is_prefix)
  have un: "state s \<in> {Listen, SynSent, SynReceived} \<Longrightarrow> n = 0"
    using inv n by (auto simp: tcp_inv_def unsynced_ok_def rb_len_def)
  show ?thesis
  proof (cases "state s \<in> {Listen, SynSent} \<or> state s = Closed \<and> rb_len (rx_buffer s) = 0 \<and> \<not> rx_fin_received s")
    case True
    then show ?thesis using si inv' pre un len unfolding out by (auto simp: stream_inv_def s')
  next
    case False
    then have sy: "remote_seq_no s = irs + 1 + of_nat (length d) + of_bool (rx_fin_received s)"
      "rx_agrees (\<lambda>i. stream ! (length d + i)) (rx_buffer s, assembler s)"
      "length d + rb_len (rx_buffer s) + asm_extent (assembler s) \<le> length stream"
      "rx_fin_received s \<longrightarrow> length d + rb_len (rx_buffer s) = length stream"
      using si unfolding stream_inv_def by blast+
    have "rx_agrees (\<lambda>i. stream ! (length d + (n + i))) (rx_consume n (rx_buffer s, assembler s))"
      using rx_path.consume_agrees [OF _ sy(2), of n] rx n by (simp add: rx_good_def rx_content_def)
    then have "rx_agrees (\<lambda>i. stream ! (length d + n + i)) (rb_drop n (rx_buffer s), assembler s)"
      by (simp add: rx_consume_def add.assoc)
    moreover have "n \<le> rb_len (rx_buffer s)" using n by (simp add: rb_len_def)
    ultimately show ?thesis
      using si inv' pre un len sy unfolding out by (auto simp: stream_inv_def s')
  qed
qed

text \<open>Steps that leave the receive half alone and at most leave the states that receive.\<close>

lemma stream_inv_same:
  assumes si: "stream_inv irs stream d s" and inv: "tcp_inv s'" and same: "same_rx s s'"
    and st: "state s' \<in> {state s, Closed} \<or> state s \<notin> {Listen, SynSent} \<and> state s' \<notin> {Listen, SynSent, SynReceived}"
    and closed: "state s = Closed \<longrightarrow> state s' = Closed"
  shows "stream_inv irs stream d s'"
proof -
  have "state s \<in> {Listen, SynSent} \<Longrightarrow> rb_len (rx_buffer s) = 0 \<and> \<not> rx_fin_received s"
    using si by (auto simp: stream_inv_def tcp_inv_def unsynced_ok_def)
  then show ?thesis using si inv st closed same unfolding stream_inv_def same_rx_def by auto
qed

lemma stream_inv_dispatch:
  assumes si: "stream_inv irs stream d s" and mtu: "60 \<le> cx_ip_mtu cx" and adv: "within_advertised s"
    and disp: "dispatch emit cx s = Some (pkt, res, s')"
  shows "stream_inv irs stream d s'"
proof -
  have inv: "tcp_inv s" using si by (simp add: stream_inv_def)
  have ok: "tcp_inv s'" "s' = socket_reset s' \<or> same_rx s s' \<and> state s' \<in> {state s, Closed}"
    using dispatch_ok [OF inv mtu adv, of emit] disp by (metis option.inject prod.inject)+
  show ?thesis
  proof (cases "s' = socket_reset s'")
    case True
    then have "state s' = Closed" "rb_len (rx_buffer s') = 0" "\<not> rx_fin_received s'"
      by (metis socket_reset_fields)+
    then show ?thesis using si ok(1) by (simp add: stream_inv_def)
  next
    case False
    then show ?thesis using ok by (intro stream_inv_same [OF si]) auto
  qed
qed

section \<open>Runs\<close>

inductive stream_step :: "seq \<Rightarrow> u8 list \<Rightarrow> u8 list \<times> tcp_socket \<Rightarrow> u8 list \<times> tcp_socket \<Rightarrow> bool"
  for irs :: seq and stream :: "u8 list" where
  segment: "accepts s ip r \<Longrightarrow> segment_ok r \<Longrightarrow> honest irs stream (length d) s r \<Longrightarrow>
    process cx ip r s = Some (rep, s') \<Longrightarrow> stream_step irs stream (d, s) (d, s')"
| recv: "recv_slice buf s = Some (Inr (n, out), s') \<Longrightarrow> stream_step irs stream (d, s) (d @ take n out, s')"
| send: "send_slice data s = Some (res, s') \<Longrightarrow> stream_step irs stream (d, s) (d, s')"
| close: "stream_step irs stream (d, s) (d, tcp_close s)"
| abort: "stream_step irs stream (d, s) (d, tcp_abort s)"
| dispatch: "60 \<le> cx_ip_mtu cx \<Longrightarrow> within_advertised s \<Longrightarrow>
    dispatch (emit :: packet \<Rightarrow> unit + unit) cx s = Some (pkt, res, s') \<Longrightarrow>
    stream_step irs stream (d, s) (d, s')"

inductive_cases stream_stepE: "stream_step irs stream (d, s) (d', s')"

lemma stream_step_inv:
  assumes "stream_step irs stream (d, s) (d', s')" and si: "stream_inv irs stream d s"
  shows "stream_inv irs stream d' s'"
proof -
  have inv: "tcp_inv s" using si by (simp add: stream_inv_def)
  show ?thesis using assms(1)
  proof (rule stream_stepE, goal_cases)
  case (1 ip r cx rep)
  then show ?case using stream_inv_process [OF si] by blast
next
  case (2 buf n out)
  then show ?case using stream_inv_recv [OF si] by blast
next
  case (3 data res)
  have "tcp_inv s' \<and> same_rx s s' \<and> state s' = state s"
    by (rule send_slice_inv [OF inv, of data]) (use 3 in \<open>auto simp: same_rx_def\<close>)
  then have "stream_inv irs stream d s'" by (intro stream_inv_same [OF si]) simp_all
  with 3 show ?case by simp
next
  case 4
  have c: "tcp_inv (tcp_close s)" "same_rx s (tcp_close s)" "state s = Closed \<longrightarrow> state (tcp_close s) = Closed"
    "state (tcp_close s) \<in> {state s, Closed} \<or> state s \<notin> {Listen, SynSent} \<and> state (tcp_close s) \<notin> {Listen, SynSent, SynReceived}"
    using tcp_close_inv [OF inv] by (cases "state s"; simp add: same_rx_def tcp_close_def set_state_def)+
  have "stream_inv irs stream d (tcp_close s)" by (rule stream_inv_same [OF si c(1,2,4,3)])
  with 4 show ?case by simp
next
  case 5
  have a: "tcp_inv (tcp_abort s)" "same_rx s (tcp_abort s)" "state (tcp_abort s) = Closed"
    using tcp_abort_inv [OF inv] by (simp_all add: same_rx_def tcp_abort_def set_state_def)
  have "stream_inv irs stream d (tcp_abort s)" by (rule stream_inv_same [OF si a(1,2)]) (simp_all add: a(3))
  with 5 show ?case by simp
next
  case (6 cx emit pkt res)
  then show ?case using stream_inv_dispatch [OF si] by blast
qed
qed

lemma stream_steps_inv:
  assumes "(stream_step irs stream)\<^sup>*\<^sup>* a b" and "stream_inv irs stream (fst a) (snd a)"
  shows "stream_inv irs stream (fst b) (snd b)"
  using assms by (induction rule: rtranclp_induct) (metis prod.collapse stream_step_inv)+

text \<open>
  C1: the user reads the stream that was sent. From a socket that waits for its connection, after any
  interleaving of honest segments (lost, duplicated, delayed and reordered at will) with reads,
  writes, \<open>close\<close>, \<open>abort\<close> and \<open>dispatch\<close>: what the user has read, followed by what waits in the receive
  buffer, is a prefix of the stream that the remote side sends; and once the FIN of the remote
  side has been taken, it is all of the stream.
\<close>

theorem stream_integrity:
  assumes "tcp_inv s" and "state s \<in> {Listen, SynSent}" and "(stream_step irs stream)\<^sup>*\<^sup>* ([], s) (d, s')"
  shows "prefix (d @ rb_list (rx_buffer s')) stream \<and>
    (rx_fin_received s' \<longrightarrow> d @ rb_list (rx_buffer s') = stream)"
proof -
  have "stream_inv irs stream [] s" using assms(1,2) by (simp add: stream_inv_def)
  then have si: "stream_inv irs stream d s'" using stream_steps_inv [OF assms(3)] by simp
  have pre: "prefix (d @ rb_list (rx_buffer s')) stream" by (rule stream_inv_prefix [OF si])
  have "length (d @ rb_list (rx_buffer s')) = length stream" if "rx_fin_received s'"
    using si that by (auto simp: stream_inv_def tcp_inv_def unsynced_ok_def rb_len_def)
  with pre show ?thesis by (auto simp: prefix_def)
qed

theorem stream_integrity_witness:
  "\<exists>s'. (stream_step 5000 [7, 8])\<^sup>*\<^sup>* ([], demo_listening) ([], tcp_close s') \<and>
     prefix (rb_list (rx_buffer (tcp_close s'))) [7, 8]"
proof -
  let ?r = "demo_segment CtlSyn 5000 None []"
  have l: "state demo_listening = Listen"
    by (simp add: demo_listening_def demo_closed_eq tcp_listen_def is_open_def set_state_def)
  have ok: "segment_ok ?r" "accepts demo_listening demo_ip ?r"
    by (simp_all add: demo_segment_ok demo_accepts_listening)
  obtain rep s' where "process demo_cx demo_ip ?r demo_listening = Some (rep, s')"
    using process_ok [OF demo_listening_inv ok] by blast
  then have "stream_step 5000 [7, 8] ([], demo_listening) ([], s')"
    using ok by (intro stream_step.segment) (simp_all add: honest_def l demo_segment_def)
  then have run: "(stream_step 5000 [7, 8])\<^sup>*\<^sup>* ([], demo_listening) ([], tcp_close s')"
    using stream_step.close [of 5000 "[7, 8]" "[]" s'] by auto
  have "prefix ([] @ rb_list (rx_buffer (tcp_close s'))) [7, 8]"
    using stream_integrity [OF demo_listening_inv _ run] l by simp
  with run show ?thesis by auto
qed

section \<open>A FIN beyond the window\<close>

text \<open>
  C16: a FIN segment whose data does not fit the receive buffer is taken apart wrongly. The octets
  that fit are stored and the rest is cut off, as it should be, but the FIN is processed all the
  same: the connection counts as closed by the remote side, the sequence number of the FIN is taken
  in the middle of the data, and the user is told that the stream has ended.
\<close>

theorem fin_beyond_window_truncates:
  assumes inv: "tcp_inv s" and seg: "segment_ok r" and acc: "accepts s ip r"
    and st: "state s \<in> {Established, FinWait1, FinWait2}" and ctl: "control r = CtlFin"
    and ack: "ack_number r = Some (local_seq_no s + of_nat k)" "k \<le> rb_len (tx_buffer s)"
    and nxt: "seq_number r = remote_seq_no s + of_nat (rb_len (rx_buffer s))"
    and win: "0 < rb_window (rx_buffer s)" "rb_window (rx_buffer s) < length (payload r)"
  shows "\<exists>rep s'. process cx ip r s = Some (rep, s') \<and> rx_fin_received s' \<and>
    remote_seq_no s' = remote_seq_no s + 1 \<and>
    rb_list (rx_buffer s') = rb_list (rx_buffer s) @ take (rb_window (rx_buffer s)) (payload r)"
proof -
  let ?part = "take (rb_window (rx_buffer s)) (payload r)"
  have pos: "segment_pos s r = 0" by (simp add: segment_pos_def nxt)
  have "in_win (rb_window (rx_buffer s)) (segment_pos s r) (length (payload r))"
    using win by (auto simp: in_win_def pos)
  moreover have "ack_ok s r" using st ack by (auto simp: ack_ok_def intro!: exI [of _ k])
  ultimately have del: "deliverable s r" using st ctl by (auto simp: deliverable_def)
  obtain rep s' where s': "process cx ip r s = Some (rep, s')" "tcp_inv s'" "rx_effect s r s'"
    using process_ok [OF inv seg acc] by blast
  have "state s \<notin> {Listen, SynSent}" using st by auto
  with s'(3) del obtain part offset fin where p: "window_part s r part offset"
    "stored offset part (rx_buffer s, assembler s) (rx_buffer s', assembler s')"
    "remote_seq_no s' = remote_seq_no s + of_bool fin" "rx_fin_received s' = (rx_fin_received s \<or> fin)"
    "fin \<longleftrightarrow> control r = CtlFin \<and> \<not> seq_lt (remote_seq_no s + of_nat (rb_len (rx_buffer s))) (seq_number r)"
    unfolding rx_effect_def by blast
  have fin: fin using p(5) ctl nxt by simp
  obtain start m where w: "part = take m (drop start (payload r))" "int offset = segment_pos s r + int start"
    "int offset = max 0 (segment_pos s r)"
    "int (offset + m) = min (int (rb_window (rx_buffer s))) (segment_pos s r + int (length (payload r)))"
    using p(1) unfolding window_part_def by blast
  then have part: "part = ?part" "offset = 0" using win by (auto simp: pos)
  have ne: "?part \<noteq> []" "length ?part \<le> rb_window (rx_buffer s)" using win by (auto simp: take_eq_Nil)
  have rx: "rx_ok (rx_buffer s) (assembler s)" using inv by (simp add: tcp_inv_def)
  obtain rx' asm' more where o: "store_payload 0 ?part (rx_buffer s, assembler s) = Some (Some (rx', asm'))"
    "rb_list rx' = rb_list (rx_buffer s) @ ?part @ more" using store_next_prefix [OF rx ne(2,1)] .
  then have l: "rb_list (rx_buffer s') = rb_list (rx_buffer s) @ ?part @ more"
    using p(2) ne unfolding part by (simp add: stored_def)
  moreover have "rb_capacity (rx_buffer s') = rb_capacity (rx_buffer s)"
    by (rule store_payload_ok [OF rx, of 0 ?part]) (use o p(2) ne part in \<open>auto simp: stored_def\<close>)
  then have "length (rb_list (rx_buffer s')) \<le> rb_capacity (rx_buffer s)"
    using s'(2) by (simp add: tcp_inv_def rx_ok_def rb_inv_def)
  then have "more = []"
    using l win rx by (auto simp: rx_ok_def rb_inv_def rb_window_def rb_len_def)
  ultimately show ?thesis using s'(1) p(3,4) fin by auto
qed

theorem fin_beyond_window_truncates_witness:
  "\<exists>rep s'. process demo_cx demo_ip (demo_segment CtlFin 5001 (Some 2001) [1, 2, 3, 4, 5, 6, 7, 8, 9, 10]) demo_established
     = Some (rep, s') \<and> rx_fin_received s' \<and> rb_list (rx_buffer s') = [1, 2, 3, 4, 5, 6, 7, 8]"
  using fin_beyond_window_truncates [OF demo_established_inv demo_segment_ok demo_accepts,
      of "[1, 2, 3, 4, 5, 6, 7, 8, 9, 10]" CtlFin 5001 "Some 2001" 0 demo_cx]
  by (auto simp: demo_segment_def demo_established_def demo_closed_eq rb_list_def)

end
