(* ===== verification/Tcp_Lifecycle.thy ===== *)
theory Tcp_Lifecycle
  imports Tcp_Stream
begin

text \<open>
  The life of a connection: the transitions that segments cause, through the whole of \<open>process\<close>, and
  the closing of a connection whose handshake is not over.
\<close>

lemma of_nat_seq_eq_iff:
  "m < 2 ^ 32 \<Longrightarrow> n < 2 ^ 32 \<Longrightarrow> (of_nat m :: seq) = of_nat n \<longleftrightarrow> m = n"
  by (simp add: word_unat_eq_iff unat_of_nat take_bit_eq_mod)

lemma ack_counts_fin:
  assumes inv: "tcp_inv s" and sy: "synced (state s)" and c: "ack_counts s r ack_len fin"
    and ack: "ack_number r = Some (local_seq_no s + of_nat k)" and k: "k \<le> rb_len (tx_buffer s) + 1"
  shows "fin \<longleftrightarrow> k = rb_len (tx_buffer s) + 1"
proof -
  have len: "rb_len (tx_buffer s) \<le> 2 ^ 31 - 2" using inv tx_len_bound by (auto simp: tcp_inv_def)
  have n: "ack_len \<le> rb_len (tx_buffer s)" "fin \<longrightarrow> ack_len = rb_len (tx_buffer s)"
    "(of_nat k :: seq) = of_nat (ack_len + of_bool fin)"
    using c ack sy by (simp_all add: ack_counts_def synced_def)
  have "k < 2 ^ 32" "ack_len + of_bool fin < 2 ^ 32" using len k n(1) by (cases fin; simp)+
  then have "k = ack_len + of_bool fin" using n(3) of_nat_seq_eq_iff by blast
  then show ?thesis using n by (cases fin) auto
qed

lemma segment_after_hole:
  assumes rx: "rx_ok (rx_buffer s) (assembler s)"
    and win: "in_win (rb_window (rx_buffer s)) (segment_pos s r) (length (payload r))"
    and seg: "length (payload r) \<le> 131072"
  shows "seq_lt (remote_seq_no s + of_nat (rb_len (rx_buffer s))) (seq_number r) \<longleftrightarrow> 0 < segment_pos s r"
proof -
  let ?ws = "remote_seq_no s + of_nat (rb_len (rx_buffer s))"
  have "rb_window (rx_buffer s) \<le> 2 ^ 30" using rx by (auto simp: rx_ok_def rb_window_def)
  note b = in_win_bounds [OF win this seg]
  have "seq_number r = ?ws + of_int (segment_pos s r)" by (simp add: segment_pos_def)
  then show ?thesis using seq_lt_dist [of 0 "segment_pos s r" ?ws] b by simp
qed

text \<open>
  C7: once the connection is synchronized, the state machine of \<open>process\<close> is that of RFC 793. A segment
  in the window, without RST, whose acknowledgement covers \<open>k\<close> of the octets in flight (our FIN being
  the one behind the transmit buffer), moves the socket exactly along the transition table, by the
  control flag that is in effect (PSH counts as none, a FIN behind a hole does not count yet);
  where the table has no entry the state stays as it is.
\<close>

theorem process_follows_rfc:
  assumes inv: "tcp_inv s" and seg: "segment_ok r" and acc: "accepts s ip r"
    and st: "state s \<notin> {Closed, Listen, SynSent, SynReceived}" and ctl: "control r \<noteq> CtlRst"
    and ack: "ack_number r = Some (local_seq_no s + of_nat k)"
      "k \<le> rb_len (tx_buffer s) + of_bool (state s \<in> {FinWait1, LastAck, Closing})"
    and win: "in_win (rb_window (rx_buffer s)) (segment_pos s r) (length (payload r))"
  shows "\<exists>rep s'. process cx ip r s = Some (rep, s') \<and>
    state s' = (case rfc_next (state s)
        (if control r = CtlPsh \<or> control r = CtlFin \<and> 0 < segment_pos s r then CtlNone else control r)
        (k = rb_len (tx_buffer s) + 1) of Some st' \<Rightarrow> st' | None \<Rightarrow> state s)"
proof -
  have sy: "synced (state s)" using st by (simp add: synced_def)
  have ok: "ack_ok s r" using st ack by (auto simp: ack_ok_def sent_syn_fin_def intro!: exI [of _ k])
  obtain rep s' where p: "process cx ip r s = Some (rep, s')" "moves s r s'"
    using process_ok [OF inv seg acc] sy ok ctl win by blast
  obtain c ack_len fin where m: "effective_control r s = Some c" "ack_counts s r ack_len fin"
    "state s' = (case rfc_next (state s) c fin of Some st' \<Rightarrow> st' | None \<Rightarrow> state s)"
    using p(2) unfolding moves_def by blast
  have k: "k \<le> rb_len (tx_buffer s) + 1" using ack(2) by (cases "state s \<in> {FinWait1, LastAck, Closing}") (simp_all del: insert_iff)
  have fin: "fin \<longleftrightarrow> k = rb_len (tx_buffer s) + 1" by (rule ack_counts_fin [OF inv sy m(2) ack(1) k])
  have rx: "rx_ok (rx_buffer s) (assembler s)" using inv by (simp add: tcp_inv_def)
  have "c = (if control r = CtlPsh \<or> control r = CtlFin \<and> 0 < segment_pos s r then CtlNone else control r)"
    using m(1) segment_after_hole [OF rx win] seg rx_len_bound [OF rx]
    by (cases "control r") (auto simp: effective_control_def segment_ok_def)
  with p(1) m(3) fin show ?thesis by blast
qed

theorem process_follows_rfc_witness:
  "\<exists>rep s'. process demo_cx demo_ip (demo_segment CtlFin 5001 (Some 2001) []) demo_established = Some (rep, s') \<and>
    state s' = CloseWait"
  using process_follows_rfc [OF demo_established_inv demo_segment_ok demo_accepts, of "[]" CtlFin 5001 "Some 2001" 0 demo_cx]
  by (simp add: demo_segment_def demo_established_def demo_closed_eq in_win_def segment_pos_def)

section \<open>Closing before the handshake is over\<close>

text \<open>
  C17: a socket that is closed in SYN-RECEIVED loses its FIN. \<open>close\<close> moves it to FIN-WAIT-1 although its
  SYN is not acknowledged yet, and the acknowledgement that ends the handshake, for the one sequence
  number of the SYN, is taken for the acknowledgement of a FIN: the socket is in FIN-WAIT-2, and no
  FIN was ever sent.
\<close>

theorem close_in_syn_received_loses_fin:
  assumes inv: "tcp_inv s" and st: "state s = SynReceived" and seg: "segment_ok r" and acc: "accepts s ip r"
    and ack: "control r = CtlNone" "ack_number r = Some (local_seq_no s + 1)" "payload r = []"
    and nxt: "seq_number r = remote_seq_no s"
  shows "\<exists>rep s'. process cx ip r (tcp_close s) = Some (rep, s') \<and> state s' = FinWait2"
proof -
  let ?s = "tcp_close s"
  have s: "?s = s\<lparr>state := FinWait1\<rparr>" using st by (simp add: tcp_close_def set_state_def)
  have inv': "tcp_inv ?s" by (rule tcp_close_inv [OF inv])
  have acc': "accepts ?s ip r" using acc st by (auto simp: s accepts_def split: option.splits)
  have len: "rb_len (tx_buffer ?s) = 0" "rb_len (rx_buffer ?s) = 0"
    using inv st by (simp_all add: s tcp_inv_def unsynced_ok_def)
  have win: "in_win (rb_window (rx_buffer ?s)) (segment_pos ?s r) (length (payload r))"
    using ack nxt len by (simp add: in_win_def segment_pos_def s)
  show ?thesis
    using process_follows_rfc [OF inv' seg acc', of 1 cx] win ack len by (simp add: s)
qed

text \<open>A socket that has answered the SYN 5000 with its own SYN 2000.\<close>

definition demo_syn_received :: tcp_socket where
  "demo_syn_received = demo_established\<lparr>state := SynReceived, local_seq_no := 2000\<rparr>"

lemma demo_syn_received_inv: "tcp_inv demo_syn_received"
  using demo_established_inv
  by (auto simp: demo_syn_received_def demo_established_def demo_closed_eq tcp_inv_def tx_ok_def unsynced_ok_def
      ctl_in_flight_def)

lemma demo_syn_received_accepts: "accepts demo_syn_received demo_ip (demo_segment ctl n ack data)"
  using demo_accepts [of ctl n ack data] by (simp add: demo_syn_received_def demo_established_def accepts_def)

theorem close_in_syn_received_loses_fin_witness:
  "\<exists>rep s'. process demo_cx demo_ip (demo_segment CtlNone 5001 (Some 2001) []) (tcp_close demo_syn_received)
     = Some (rep, s') \<and> state s' = FinWait2"
  by (rule close_in_syn_received_loses_fin [OF demo_syn_received_inv _ _ demo_syn_received_accepts])
    (simp_all add: demo_segment_ok, simp_all add: demo_syn_received_def demo_established_def demo_segment_def)

end
