(* ===== verification/Checksum.thy ===== *)
theory Checksum
  imports Ip
begin

text \<open>
  The Internet checksum, \<open>wire::ip::checksum\<close> (\<open>src/smoltcp/src/wire/ip.rs\<close>): the sums are kept in a
  32-bit accumulator, unrolled over chunks of 32 octets, and folded to 16 bits at the end. The
  theorems relate this to the one's complement sum of RFC 1071, and show what the receiver's
  test of a checksum guarantees.
\<close>

unbundle bit_operations_syntax

section \<open>Computation\<close>

definition propagate_carries :: "u32 \<Rightarrow> u16" where
  "propagate_carries word =
     (let sum = drop_bit 16 word + (word AND 0xffff)
      in ucast (drop_bit 16 sum) + ucast sum)"

text \<open>\<open>while d.len() >= 2\<close>: add the next 16-bit word; what is left, and the accumulator.\<close>

fun sum_words :: "u32 \<Rightarrow> u8 list \<Rightarrow> u32 \<times> u8 list" where
  "sum_words accum (a # b # d) = sum_words (accum + ucast (of_be [a, b] :: u16)) d"
| "sum_words accum d = (accum, d)"

text \<open>\<open>while data.len() >= CHUNK_SIZE\<close>.\<close>

function sum_chunks :: "u32 \<Rightarrow> u8 list \<Rightarrow> u32 \<times> u8 list" where
  "sum_chunks accum data =
     (if 32 \<le> length data then sum_chunks (fst (sum_words accum (take 32 data))) (drop 32 data)
      else (accum, data))"
  by pat_completeness auto
termination by (relation "measure (length \<circ> snd)") auto

declare sum_chunks.simps [simp del]

definition checksum_data :: "u8 list \<Rightarrow> u16" where
  "checksum_data data =
     (let (accum, data) = sum_chunks 0 data;
          (accum, data) = sum_words accum data;
          accum = (case data of [] \<Rightarrow> accum | value # _ \<Rightarrow> accum + push_bit 8 (ucast value))
      in propagate_carries accum)"

definition checksum_combine :: "u16 list \<Rightarrow> u16" where
  "checksum_combine checksums = propagate_carries (foldl (\<lambda>accum word. accum + ucast word) 0 checksums)"

definition pseudo_header_v4 :: "ipv4_address \<Rightarrow> ipv4_address \<Rightarrow> ip_protocol \<Rightarrow> u32 \<Rightarrow> u16" where
  "pseudo_header_v4 src_addr dst_addr next_header len =
     (let proto_len = [0, protocol_to_u8 next_header] @ be_bytes 2 (ucast len :: u16)
      in checksum_combine [checksum_data (be_bytes 4 src_addr), checksum_data (be_bytes 4 dst_addr),
           checksum_data proto_len])"

definition pseudo_header_v6 :: "ipv6_address \<Rightarrow> ipv6_address \<Rightarrow> ip_protocol \<Rightarrow> u32 \<Rightarrow> u16" where
  "pseudo_header_v6 src_addr dst_addr next_header len =
     (let proto_len = [0, protocol_to_u8 next_header] @ be_bytes 2 (ucast len :: u16)
      in checksum_combine [checksum_data (be_bytes 16 src_addr), checksum_data (be_bytes 16 dst_addr),
           checksum_data proto_len])"

text \<open>\<open>unreachable!\<close> for addresses of different versions.\<close>

definition pseudo_header :: "ip_address \<Rightarrow> ip_address \<Rightarrow> ip_protocol \<Rightarrow> u32 \<Rightarrow> u16 option" where
  "pseudo_header src_addr dst_addr next_header len =
     (case (src_addr, dst_addr) of
        (Ipv4 src, Ipv4 dst) \<Rightarrow> Some (pseudo_header_v4 src dst next_header len)
      | (Ipv6 src, Ipv6 dst) \<Rightarrow> Some (pseudo_header_v6 src dst next_header len)
      | _ \<Rightarrow> None)"

section \<open>The sum of the 16-bit words\<close>

text \<open>The words of the data, a last odd octet padded with zero, and the folding of their sum.\<close>

fun word_sum :: "u8 list \<Rightarrow> nat" where
  "word_sum (a # b # d) = 256 * unat a + unat b + word_sum d"
| "word_sum [a] = 256 * unat a"
| "word_sum [] = 0"

definition fold_carries :: "nat \<Rightarrow> nat" where
  "fold_carries n = (if n = 0 then 0 else (n - 1) mod 65535 + 1)"

lemma word_sum_append: "even (length xs) \<Longrightarrow> word_sum (xs @ ys) = word_sum xs + word_sum ys"
  by (induction xs rule: word_sum.induct) auto

lemma word_sum_bound: "word_sum d \<le> 65535 * ((length d + 1) div 2)"
proof (induction d rule: word_sum.induct)
  case (1 a b d)
  have "256 * unat a + unat b \<le> 65535" using unat_byte [of a] unat_byte [of b] by simp
  with 1 show ?case by simp
next
  case (2 a)
  show ?case using unat_byte [of a] by simp
qed simp

lemma unat_add_u32: "unat (x :: u32) + n < 2 ^ 32 \<Longrightarrow> unat (x + of_nat n) = unat x + n"
  by (simp add: unat_word_ariths unat_of_nat take_bit_eq_mod mod_simps)

lemma ucast_of_be: "(ucast (of_be [a, b] :: u16) :: u32) = of_nat (256 * unat a + unat b)"
  unfolding unat_of_be_2 [symmetric] by simp

lemma ucast_shift: "(push_bit 8 (ucast (a :: u8)) :: u32) = of_nat (256 * unat a)"
  by (simp add: push_bit_eq_mult mult.commute)

lemma unat_add_small: "unat a + unat b < 2 ^ LENGTH('a) \<Longrightarrow> unat (a + b) = unat a + unat (b :: 'a::len word)"
  by (simp add: unat_word_ariths)

lemma fold_carries_add: "0 < m \<Longrightarrow> m \<le> 65535 \<Longrightarrow> fold_carries (65535 * q + m) = m"
  using mod_mult_self3 [of q 65535 "m - 1"] by (simp add: fold_carries_def mult.commute)

lemma fold_carries_le: "fold_carries n \<le> 65535"
  using mod_less_divisor [of 65535 "n - 1"] by (simp add: fold_carries_def Suc_le_eq)

lemma fold_carries_split:
  fixes n :: nat
  assumes "n div 65536 + n mod 65536 \<le> 131070"
  shows "(n div 65536 + n mod 65536) div 65536 + (n div 65536 + n mod 65536) mod 65536 = fold_carries n"
proof -
  define q s where "q = n div 65536" and "s = n div 65536 + n mod 65536"
  have n: "n = 65535 * q + s" using div_mult_mod_eq [of n 65536] unfolding q_def s_def by linarith
  consider "s = 0" | "0 < s" "s \<le> 65535" | "65536 \<le> s" by linarith
  then have "s div 65536 + s mod 65536 = fold_carries n"
  proof cases
    case 1
    then have "q = 0" by (simp add: q_def s_def)
    with n 1 have "n = 0" by simp
    with 1 show ?thesis by (simp add: fold_carries_def)
  next
    case 2
    then show ?thesis unfolding n by (simp add: fold_carries_add)
  next
    case 3
    then have "s div 65536 = 1" "s mod 65536 = s - 65536"
      using assms by (simp_all add: s_def [symmetric] div_nat_eqI le_mod_geq)
    moreover have "n = 65535 * (q + 1) + (s - 65535)" using n 3 by simp
    moreover have "s - 65535 \<le> 65535" using assms by (simp add: s_def)
    ultimately show ?thesis using fold_carries_add [of "s - 65535" "q + 1"] 3 by simp
  qed
  then show ?thesis by (simp add: s_def)
qed

lemma unat_propagate_carries: "unat (propagate_carries w) = fold_carries (unat w)"
proof -
  define n where "n = unat w"
  have n: "n < 2 ^ 32" using unsigned_less [where ?'a = nat, of w] by (simp add: n_def)
  define s where "s = n div 65536 + n mod 65536"
  have "w AND 0xffff = w mod 65536" using take_bit_eq_mask [of 16 w] by (simp add: take_bit_eq_mod mask_eq_exp_minus_1)
  then have parts: "unat (drop_bit 16 w) = n div 65536" "unat (w AND 0xffff) = n mod 65536"
    by (simp_all add: n_def drop_bit_eq_div unat_div_distrib unat_mod_distrib)
  have s: "s \<le> 131070" "unat (drop_bit 16 w + (w AND 0xffff)) = s"
    using n unat_add_small [of "drop_bit 16 w" "w AND 0xffff"] parts by (simp_all add: s_def)
  let ?s = "drop_bit 16 w + (w AND 0xffff)"
  have "drop_bit 16 ?s = ?s div 65536" by (simp add: drop_bit_eq_div)
  then have "unat (drop_bit 16 ?s) = s div 65536" using s(2) by (simp add: unat_div_distrib)
  then have hl: "unat (ucast (drop_bit 16 ?s) :: u16) = s div 65536" "unat (ucast ?s :: u16) = s mod 65536"
    using s by (simp_all add: unsigned_ucast_eq take_bit_eq_mod)
  have f: "s div 65536 + s mod 65536 = fold_carries n" using s(1) fold_carries_split [of n] by (simp add: s_def)
  then have "s div 65536 + s mod 65536 < 65536" using fold_carries_le [of n] by simp
  then have "unat (propagate_carries w) = s div 65536 + s mod 65536"
    using unat_add_small [of "ucast (drop_bit 16 ?s) :: u16" "ucast ?s"] hl s
    by (simp add: propagate_carries_def Let_def)
  with f show ?thesis by (simp add: n_def)
qed

lemma sum_words_sum:
  "unat accum + word_sum d < 2 ^ 32 \<Longrightarrow> sum_words accum d = (accum', d') \<Longrightarrow>
     unat accum' + word_sum d' = unat accum + word_sum d \<and> length d' \<le> 1"
proof (induction accum d rule: sum_words.induct)
  case (1 accum a b d)
  then show ?case
    using unat_add_u32 [of accum "256 * unat a + unat b"] unfolding sum_words.simps(1) ucast_of_be by simp
qed auto

lemma sum_words_even:
  assumes "unat accum + word_sum d < 2 ^ 32" and "even (length d)"
  shows "unat (fst (sum_words accum d)) = unat accum + word_sum d"
  using assms
proof (induction accum d rule: sum_words.induct)
  case (1 accum a b d)
  then show ?case
    using unat_add_u32 [of accum "256 * unat a + unat b"] unfolding sum_words.simps(1) ucast_of_be by simp
qed auto

lemma sum_chunks_sum:
  "unat accum + word_sum d < 2 ^ 32 \<Longrightarrow> sum_chunks accum d = (accum', d') \<Longrightarrow>
     unat accum' + word_sum d' = unat accum + word_sum d"
proof (induction accum d rule: sum_chunks.induct)
  case (1 accum d)
  show ?case
  proof (cases "32 \<le> length d")
    case True
    have sum: "word_sum d = word_sum (take 32 d) + word_sum (drop 32 d)"
      using word_sum_append [of "take 32 d" "drop 32 d"] True by (simp add: min_def)
    then have acc: "unat (fst (sum_words accum (take 32 d))) = unat accum + word_sum (take 32 d)"
      using 1(2) True by (intro sum_words_even) (simp_all add: min_def)
    have "sum_chunks (fst (sum_words accum (take 32 d))) (drop 32 d) = (accum', d')"
      using 1(3) True by (simp add: sum_chunks.simps [of accum d])
    from 1(1) [OF True _ this] show ?thesis using 1(2) acc sum by simp
  next
    case False
    then show ?thesis using 1(3) by (simp add: sum_chunks.simps [of accum d])
  qed
qed

lemma word_sum_short: "length d \<le> 131072 \<Longrightarrow> word_sum d < 2 ^ 32"
  using word_sum_bound [of d] by simp

lemma unat_checksum_data:
  assumes "length d \<le> 131072"
  shows "unat (checksum_data d) = fold_carries (word_sum d)"
proof -
  have b: "word_sum d < 2 ^ 32" by (rule word_sum_short [OF assms])
  obtain acc1 d1 where c: "sum_chunks 0 d = (acc1, d1)" by (cases "sum_chunks 0 d")
  obtain acc2 d2 where w: "sum_words acc1 d1 = (acc2, d2)" by (cases "sum_words acc1 d1")
  have s1: "unat acc1 + word_sum d1 = word_sum d" using sum_chunks_sum [OF _ c] b by simp
  then have s2: "unat acc2 + word_sum d2 = word_sum d" "length d2 \<le> 1" using sum_words_sum [OF _ w] b by simp_all
  then show ?thesis
    using c w b unat_add_u32 [of acc2 "256 * unat (hd d2)"]
    by (cases d2) (simp_all add: checksum_data_def unat_propagate_carries ucast_shift)
qed

section \<open>One's complement arithmetic\<close>

lemma fold_carries_dvd: "n = 65535 * (if n = 0 then 0 else (n - 1) div 65535) + fold_carries n"
  using div_mult_mod_eq [of "n - 1" 65535] by (auto simp: fold_carries_def)

lemma fold_carries_pos [simp]: "fold_carries n = 0 \<longleftrightarrow> n = 0"
  by (simp add: fold_carries_def)

lemma fold_carries_shift: "0 < m \<Longrightarrow> fold_carries (65535 * q + m) = fold_carries m"
  using mod_mult_self3 [of q 65535 "m - 1"] by (simp add: fold_carries_def mult.commute)

lemma fold_carries_fold [simp]: "fold_carries (fold_carries a + b) = fold_carries (a + b)"
proof (cases "a = 0")
  case False
  obtain q where a: "a = 65535 * q + fold_carries a" using fold_carries_dvd by blast
  have "a + b = 65535 * q + (fold_carries a + b)" using a by linarith
  then have "fold_carries (a + b) = fold_carries (65535 * q + (fold_carries a + b))" by (rule arg_cong)
  also have "\<dots> = fold_carries (fold_carries a + b)" using False fold_carries_pos [of a] by (intro fold_carries_shift) linarith
  finally show ?thesis by simp
qed (simp add: fold_carries_def)

lemma fold_carries_fold_right [simp]: "fold_carries (a + fold_carries b) = fold_carries (a + b)"
  using fold_carries_fold [of b a] by (simp only: add.commute)

lemma fold_carries_full: "fold_carries n = 65535 \<longleftrightarrow> 0 < n \<and> 65535 dvd n"
proof
  assume f: "fold_carries n = 65535"
  obtain q where "n = 65535 * q + 65535" using fold_carries_dvd [of n] unfolding f by blast
  then have "n = 65535 * (q + 1)" by simp
  then have "65535 dvd n" by (rule dvdI)
  moreover have "n \<noteq> 0" using f by (intro notI) (simp add: fold_carries_def)
  ultimately show "0 < n \<and> 65535 dvd n" by simp
next
  assume n: "0 < n \<and> 65535 dvd n"
  then obtain k where k: "n = 65535 * k" by (elim conjE dvdE)
  with n have "n = 65535 * (k - 1) + 65535" by (cases k) simp_all
  then show "fold_carries n = 65535" using fold_carries_add [of 65535 "k - 1"] by simp
qed

lemma fold_carries_id: "n \<le> 65535 \<Longrightarrow> fold_carries n = n"
  by (simp add: fold_carries_def)

lemma unat_u16_le: "unat (w :: u16) \<le> 65535"
  using unsigned_less [where ?'a = nat, of w] by simp

lemma unat_checksum_combine2:
  "unat (checksum_combine [a, b]) = fold_carries (unat a + unat b)"
proof -
  have "unat (ucast a + ucast b :: u32) = unat a + unat b"
    using unat_u16_le [of a] unat_u16_le [of b] unat_add_u32 [of "ucast a" "unat b"]
    by (simp add: unsigned_ucast_eq take_bit_nat_eq_self)
  then show ?thesis by (simp add: checksum_combine_def unat_propagate_carries)
qed

lemma unat_full: "w = (0xffff :: u16) \<longleftrightarrow> unat w = 65535"
  by (simp add: word_unat_eq_iff)

text \<open>The test of the receiver: the sum of everything is all ones.\<close>

lemma checksum_valid_iff:
  "length d \<le> 131072 \<Longrightarrow> checksum_combine [ps, checksum_data d] = 0xffff \<longleftrightarrow>
     0 < unat ps + word_sum d \<and> 65535 dvd (unat ps + word_sum d)"
  by (simp add: unat_full unat_checksum_combine2 unat_checksum_data fold_carries_full)

lemma word_sum_split:
  assumes "even pos" and "pos + 2 \<le> length d"
  shows "word_sum (overwrite d pos [a, b]) = word_sum (take pos d) + (256 * unat a + unat b) + word_sum (drop (pos + 2) d)"
  using assms word_sum_append [of "take pos d"] by (simp add: overwrite_def)

lemma word_sum_put:
  assumes "even pos" and "pos + 2 \<le> length d"
  shows "word_sum (overwrite d pos (be_bytes 2 w)) = word_sum (overwrite d pos [0, 0]) + unat (w :: u16)"
proof -
  obtain a b where ab: "be_bytes 2 w = [a, b]" by (simp add: be_bytes_2)
  have "unat w = 256 * unat a + unat b" using be_round_trip_16 [of w] unat_of_be_2 [of a b] by (simp add: ab)
  with assms show ?thesis by (simp add: ab word_sum_split)
qed

lemma unat_not_u16: "unat (NOT w :: u16) = 65535 - unat w"
proof -
  have "NOT w = 0xffff - w" by (simp add: not_eq_complement)
  then show ?thesis using unat_u16_le [of w] by (simp add: unat_sub_if_size)
qed

text \<open>
  Filling in the complement of the sum makes the packet valid, also with the substitution of all
  ones for zero that UDP makes.
\<close>

lemma checksum_fill_valid:
  assumes pos: "even pos" "pos + 2 \<le> length d" and len: "length d \<le> 131072"
    and ck: "ck = NOT (checksum_combine [ps, checksum_data (overwrite d pos [0, 0])])"
    and ck': "ck' = ck \<or> ck = 0 \<and> ck' = 0xffff"
  shows "checksum_combine [ps, checksum_data (overwrite d pos (be_bytes 2 ck'))] = 0xffff"
proof -
  define n where "n = unat ps + word_sum (overwrite d pos [0, 0])"
  have l: "length (overwrite d pos [0, 0]) \<le> 131072" "length (overwrite d pos (be_bytes 2 ck')) \<le> 131072"
    using pos len by simp_all
  have c: "unat ck = 65535 - fold_carries n"
    using l by (simp add: ck unat_not_u16 unat_checksum_combine2 unat_checksum_data n_def)
  obtain q where q: "n = 65535 * q + fold_carries n" using fold_carries_dvd by blast
  have le: "fold_carries n \<le> 65535" by (rule fold_carries_le)
  have "unat ck + fold_carries n = 65535" using c le by simp
  then have "n + unat ck = 65535 * (q + 1)" using q by presburger
  moreover have "n + unat ck' = n + unat ck \<or> n + unat ck' = n + unat ck + 65535"
    using ck' by auto
  ultimately obtain k where "n + unat ck' = 65535 * k" "0 < k" by (metis add_gr_0 zero_less_one mult_Suc_right add.commute Suc_eq_plus1 zero_less_Suc)
  then have "0 < n + unat ck' \<and> 65535 dvd (n + unat ck')" by simp
  then show ?thesis
    using l pos by (simp add: checksum_valid_iff word_sum_put n_def add.assoc)
qed

section \<open>Properties\<close>

text \<open>The checksum as RFC 1071 has it: 16-bit words, added with the carry wrapped around.\<close>

fun words16 :: "u8 list \<Rightarrow> u16 list" where
  "words16 (a # b # d) = of_be [a, b] # words16 d"
| "words16 [a] = [of_be [a, 0]]"
| "words16 [] = []"

definition ones_add :: "u16 \<Rightarrow> u16 \<Rightarrow> u16" where
  "ones_add a b = (if unat a + unat b \<le> 65535 then a + b else a + b + 1)"

lemma unat_ones_add: "unat (ones_add a b) = fold_carries (unat a + unat b)"
proof (cases "unat a + unat b \<le> 65535")
  case True
  then show ?thesis using unat_add_small [of a b] by (simp add: ones_add_def fold_carries_id)
next
  case False
  have s: "unat a + unat b = 65535 * 1 + (unat a + unat b - 65535)" "unat a + unat b - 65535 \<le> 65535"
    using False unat_u16_le [of a] unat_u16_le [of b] by simp_all
  have "fold_carries (unat a + unat b) = unat a + unat b - 65535"
    by (subst s(1), rule fold_carries_add) (use s(2) False in auto)
  moreover have "unat (a + b) = unat a + unat b - 65536"
    using False unat_u16_le [of a] unat_u16_le [of b] by (simp add: unat_word_ariths mod_if)
  moreover from this have "unat (a + b + 1) = unat a + unat b - 65535"
    using False s(2) unat_add_small [of "a + b" 1] by simp
  ultimately show ?thesis using False by (simp add: ones_add_def)
qed

lemma unat_ones_sum: "unat (foldl ones_add acc (words16 d)) = fold_carries (unat acc + word_sum d)"
  by (induction d arbitrary: acc rule: word_sum.induct)
    (simp_all add: unat_ones_add unat_of_be_2 fold_carries_id unat_u16_le add.assoc)

text \<open>
  C39: the checksum of the code, with its 32-bit accumulator, its loop over chunks of 32 octets and its
  carries folded only at the end, is the one's complement sum of RFC 1071, added word by word
  with the carry wrapped around, for all data up to 128 KiB (more than a packet can hold).
\<close>

theorem checksum_data_rfc1071:
  assumes "length d \<le> 131072"
  shows "checksum_data d = foldl ones_add 0 (words16 d)"
  using assms by (simp add: word_unat_eq_iff unat_checksum_data unat_ones_sum)

theorem checksum_data_rfc1071_witness:
  "checksum_data (replicate 40 0xff @ [1]) = foldl ones_add 0 (words16 (replicate 40 0xff @ [1]))"
  by (rule checksum_data_rfc1071) simp

text \<open>
  The checksum detects every corruption of a single 16-bit word. If a packet passes the test of
  the receiver and one of its aligned words is replaced by another, it fails the test, unless the two
  words are the two zeros of one's complement arithmetic.
\<close>

lemma checksum_detects:
  assumes valid: "checksum_combine [ps, checksum_data (overwrite d pos (be_bytes 2 w))] = 0xffff"
    and pos: "even pos" "pos + 2 \<le> length d" and len: "length d \<le> 131072"
    and diff: "w \<noteq> w'" "{w, w'} \<noteq> {0, 0xffff :: u16}"
  shows "checksum_combine [ps, checksum_data (overwrite d pos (be_bytes 2 w'))] \<noteq> 0xffff"
proof
  assume valid': "checksum_combine [ps, checksum_data (overwrite d pos (be_bytes 2 w'))] = 0xffff"
  define n where "n = unat ps + word_sum (overwrite d pos [0, 0])"
  have "length (overwrite d pos (be_bytes 2 v)) \<le> 131072" for v :: u16 using pos len by simp
  then have dvd: "65535 dvd (n + unat w)" "65535 dvd (n + unat w')"
    using valid valid' pos by (simp_all add: checksum_valid_iff word_sum_put n_def add.assoc)
  then have "65535 dvd (int (n + unat w) - int (n + unat w'))" by (metis dvd_diff int_dvd_int_iff of_nat_numeral)
  then obtain k where k: "int (unat w) - int (unat w') = 65535 * k" by (auto elim: dvdE)
  have b: "unat w \<le> 65535" "unat w' \<le> 65535" by (rule unat_u16_le)+
  have "k \<noteq> 0" using diff(1) k by (auto simp: word_uint_eq_iff)
  moreover have "- 65535 \<le> 65535 * k" "65535 * k \<le> 65535" using k b by linarith+
  ultimately consider "k = 1" | "k = -1" by linarith
  then have "unat w = 65535 \<and> unat w' = 0 \<or> unat w = 0 \<and> unat w' = 65535"
    using k b by cases (rule disjI1, linarith, rule disjI2, linarith)
  then have "w = 0xffff \<and> w' = 0 \<or> w = 0 \<and> w' = 0xffff" by (simp add: unat_full unat_eq_zero)
  with diff(2) show False by auto
qed

lemma checksum_detects_witness:
  "checksum_combine [0xfffe, checksum_data (overwrite [0, 0] 0 (be_bytes 2 (2 :: u16)))] \<noteq> 0xffff"
proof (rule checksum_detects [where w = 1])
  show "checksum_combine [0xfffe, checksum_data (overwrite [0, 0] 0 (be_bytes 2 (1 :: u16)))] = 0xffff"
    by (simp add: be_bytes_2 overwrite_def checksum_valid_iff)
qed (simp_all add: doubleton_eq_iff)

end
