(* ===== verification/Wire.thy ===== *)
theory Wire
  imports Checksum
begin

text \<open>
  What the wire formats share: the checksum capabilities of \<open>src/smoltcp/src/phy/mod.rs\<close>, the
  reading and writing of fields of a packet buffer, and the interface of a wire format, a
  representation that is emitted into a buffer and parsed from it.
\<close>

section \<open>Checksum capabilities\<close>

datatype checksum = ChecksumBoth | ChecksumRx | ChecksumTx | ChecksumNone

fun checksum_rx :: "checksum \<Rightarrow> bool" where
  "checksum_rx ChecksumBoth = True"
| "checksum_rx ChecksumRx = True"
| "checksum_rx _ = False"

fun checksum_tx :: "checksum \<Rightarrow> bool" where
  "checksum_tx ChecksumBoth = True"
| "checksum_tx ChecksumTx = True"
| "checksum_tx _ = False"

record checksum_capabilities =
  caps_ipv4 :: checksum
  caps_udp :: checksum
  caps_tcp :: checksum
  caps_icmpv4 :: checksum
  caps_icmpv6 :: checksum

definition caps_ignored :: checksum_capabilities where
  "caps_ignored = \<lparr>caps_ipv4 = ChecksumNone, caps_udp = ChecksumNone, caps_tcp = ChecksumNone,
     caps_icmpv4 = ChecksumNone, caps_icmpv6 = ChecksumNone\<rparr>"

section \<open>Fields of a buffer\<close>

lemma unat_of_nat_u16: "n \<le> 65535 \<Longrightarrow> unat (of_nat n :: u16) = n"
  by (simp add: unat_of_nat take_bit_eq_mod)

lemma unat_of_nat_u8: "n \<le> 255 \<Longrightarrow> unat (of_nat n :: u8) = n"
  by (simp add: unat_of_nat take_bit_eq_mod)

named_theorems wire_simps \<open>reading fields behind writes to other fields\<close>

lemma get_u8_at: "a < length d \<Longrightarrow> get_u8 d a = Some (d ! a)"
  by (simp add: get_u8_def)

lemma get_u16_at: "a + 2 \<le> length d \<Longrightarrow> get_u16 d a = Some (of_be (take 2 (drop a d)))"
  by (simp add: get_u16_def)

lemma get_u32_at: "a + 4 \<le> length d \<Longrightarrow> get_u32 d a = Some (of_be (take 4 (drop a d)))"
  by (simp add: get_u32_def)

lemma put_u8_at: "a < length d \<Longrightarrow> put_u8 d a v = Some (overwrite d a [v])"
  by (simp add: put_u8_def)

lemma put_u16_at: "a + 2 \<le> length d \<Longrightarrow> put_u16 d a v = Some (overwrite d a (be_bytes 2 v))"
  by (simp add: put_u16_def)

lemma put_u32_at: "a + 4 \<le> length d \<Longrightarrow> put_u32 d a v = Some (overwrite d a (be_bytes 4 v))"
  by (simp add: put_u32_def)

lemmas put_at = put_u8_at put_u16_at put_u32_at

lemma take_drop_overwrite_other:
  assumes "a + length ys \<le> length xs" and "b + n \<le> a \<or> a + length ys \<le> b"
  shows "take n (drop b (overwrite xs a ys)) = take n (drop b xs)"
  using assms(2)
proof
  assume "b + n \<le> a"
  then have "take n (drop b (overwrite xs a ys)) = drop b (take (b + n) (overwrite xs a ys))"
    by (simp add: drop_take)
  also have "\<dots> = drop b (take (b + n) xs)"
    using \<open>b + n \<le> a\<close> assms(1) by (simp add: take_overwrite_after)
  finally show ?thesis by (simp add: drop_take)
next
  assume "a + length ys \<le> b"
  then show ?thesis using assms(1) by (simp add: drop_overwrite_before)
qed

lemma slice_overwrite_other [wire_simps]:
  assumes "a + length ys \<le> length xs" and "c \<le> a \<or> a + length ys \<le> b"
  shows "slice (overwrite xs a ys) b c = slice xs b c"
  using assms take_drop_overwrite_other [OF assms(1), of b "c - b"] by (auto simp: slice_def)

lemma get_u16_overwrite_other [wire_simps]:
  "a + length ys \<le> length d \<Longrightarrow> b + 2 \<le> a \<or> a + length ys \<le> b \<Longrightarrow> get_u16 (overwrite d a ys) b = get_u16 d b"
  by (simp add: get_u16_def slice_overwrite_other)

lemma get_u32_overwrite_other [wire_simps]:
  "a + length ys \<le> length d \<Longrightarrow> b + 4 \<le> a \<or> a + length ys \<le> b \<Longrightarrow> get_u32 (overwrite d a ys) b = get_u32 d b"
  by (simp add: get_u32_def slice_overwrite_other)

lemma get_u8_overwrite_other [wire_simps]:
  "a + length ys \<le> length d \<Longrightarrow> b < a \<or> a + length ys \<le> b \<Longrightarrow> get_u8 (overwrite d a ys) b = get_u8 d b"
  by (auto simp: get_u8_def nth_overwrite)

lemma slice_overwrite_same [wire_simps]:
  "a + length ys \<le> length xs \<Longrightarrow> b = a + length ys \<Longrightarrow> slice (overwrite xs a ys) a b = Some ys"
  by (simp add: take_drop_overwrite_self)

lemma get_u16_overwrite_same [wire_simps]:
  "a + 2 \<le> length d \<Longrightarrow> get_u16 (overwrite d a (be_bytes 2 v)) a = Some v"
  by (simp only: get_u16_def slice_overwrite_same length_be_bytes option.map be_round_trip_16)

lemma get_u32_overwrite_same [wire_simps]:
  "a + 4 \<le> length d \<Longrightarrow> get_u32 (overwrite d a (be_bytes 4 v)) a = Some v"
  by (simp only: get_u32_def slice_overwrite_same length_be_bytes option.map be_round_trip_32)

lemma get_u8_overwrite_same [wire_simps]:
  "a < length d \<Longrightarrow> get_u8 (overwrite d a [v]) a = Some v"
  by (simp add: get_u8_def nth_overwrite)

lemma overwrite_twice [simp]:
  assumes "length ys = length zs" and "a + length zs \<le> length xs"
  shows "overwrite (overwrite xs a ys) a zs = overwrite xs a zs"
proof (rule nth_equalityI)
  have l: "length (overwrite xs a ys) = length xs" using assms by simp
  show "length (overwrite (overwrite xs a ys) a zs) = length (overwrite xs a zs)" using assms l by simp
  fix i
  assume "i < length (overwrite (overwrite xs a ys) a zs)"
  then have "i < length xs" using assms l by simp
  then show "overwrite (overwrite xs a ys) a zs ! i = overwrite xs a zs ! i"
    using assms l nth_overwrite [of a zs "overwrite xs a ys" i] nth_overwrite [of a ys xs i] nth_overwrite [of a zs xs i]
    by (simp del: length_overwrite)
qed

lemma overwrite_behind:
  assumes "p + length xs + length ys \<le> length buf" and "q = p + length xs"
  shows "overwrite (overwrite buf p xs) q ys = overwrite buf p (xs @ ys)"
  using assms by (simp add: overwrite_def ac_simps)

lemma overwrite_before:
  assumes "p + length xs + length ys \<le> length buf" and "q = p + length xs"
  shows "overwrite (overwrite buf q ys) p xs = overwrite buf p (xs @ ys)"
  using assms by (simp add: overwrite_def ac_simps)

lemma overwrite_front: "overwrite buf 0 xs = xs @ drop (length xs) buf"
  by (simp add: overwrite_def)

section \<open>Checksums in a packet\<close>

text \<open>
  The transport protocols cover the data and a pseudo header: \<open>checksum_of\<close> is the sum that the
  receiver compares with all ones, and whose complement the sender fills in.
\<close>

definition checksum_of :: "ip_address \<Rightarrow> ip_address \<Rightarrow> ip_protocol \<Rightarrow> u8 list \<Rightarrow> u16 option" where
  "checksum_of src_addr dst_addr proto data = do {
     header \<leftarrow> pseudo_header src_addr dst_addr proto (of_nat (length data));
     Some (checksum_combine [header, checksum_data data]) }"

definition same_version :: "ip_address \<Rightarrow> ip_address \<Rightarrow> bool" where
  "same_version a b \<longleftrightarrow> addr_version a = addr_version b"

lemma pseudo_header_Some:
  "same_version a b \<Longrightarrow> \<exists>h. pseudo_header a b proto len = Some h"
  by (cases a; cases b) (auto simp: same_version_def pseudo_header_def)

lemma checksum_of_Some:
  assumes "same_version a b"
  obtains c where "checksum_of a b proto data = Some c"
  using pseudo_header_Some [OF assms, of proto "of_nat (length data)"] that by (auto simp: checksum_of_def)

lemma checksum_of_filled:
  assumes "even pos" "pos + 2 \<le> length d" "length d \<le> 131072"
    and "checksum_of a b proto (overwrite d pos (be_bytes 2 (0 :: u16))) = Some c"
    and "ck = NOT c \<or> NOT c = 0 \<and> ck = 0xffff"
  shows "checksum_of a b proto (overwrite d pos (be_bytes 2 ck)) = Some 0xffff"
proof -
  have zero: "be_bytes 2 (0 :: u16) = [0, 0]" by (simp add: be_bytes_2)
  obtain h where h: "pseudo_header a b proto (of_nat (length d)) = Some h"
    "NOT c = NOT (checksum_combine [h, checksum_data (overwrite d pos [0, 0])])"
    using assms(2,4) by (auto simp: checksum_of_def bind_eq_Some_conv zero)
  show ?thesis
    using checksum_fill_valid [OF assms(1-3) h(2), of ck] assms(2,5) h(1) by (auto simp: checksum_of_def)
qed

section \<open>The interface of a wire format\<close>

text \<open>
  \<open>ok\<close> says which representations fit the format in an environment (addresses, checksum
  capabilities), \<open>blen\<close> how long the packet is. The laws: a representation that fits is emitted into
  any buffer of its length without a panic, and parsed back unchanged; and parsing never panics,
  whatever the octets.
\<close>

locale wire_format =
  fixes env_ok :: "'e \<Rightarrow> bool" and ok :: "'e \<Rightarrow> 'r \<Rightarrow> bool" and blen :: "'r \<Rightarrow> nat"
    and emit :: "'e \<Rightarrow> 'r \<Rightarrow> u8 list \<Rightarrow> u8 list option"
    and parse :: "'e \<Rightarrow> u8 list \<Rightarrow> (wire_error + 'r) option"
  assumes emitted: "env_ok e \<Longrightarrow> ok e r \<Longrightarrow> length buf = blen r \<Longrightarrow>
      \<exists>bs. emit e r buf = Some bs \<and> length bs = blen r \<and> parse e bs = Some (Inr r)"
    and parsed: "env_ok e \<Longrightarrow> parse e buf \<noteq> None"
begin

lemma round_trip:
  assumes "env_ok e" and "ok e r" and "length buf = blen r" and "emit e r buf = Some bs"
  shows "parse e bs = Some (Inr r)"
  using emitted [OF assms(1-3)] assms(4) by auto

lemma emit_inj:
  assumes "env_ok e" and "ok e r" "length buf = blen r" "emit e r buf = Some bs"
    and "ok e r'" "length buf' = blen r'" "emit e r' buf' = Some bs"
  shows "r = r'"
  using round_trip [OF assms(1,2,3,4)] round_trip [OF assms(1,5,6,7)] by simp

lemma parse_cases:
  assumes "env_ok e"
  obtains (error) err where "parse e buf = Some (Inl err)" | (ok) r where "parse e buf = Some (Inr r)"
  using parsed [OF assms, of buf] by (cases "parse e buf"; cases "the (parse e buf)") auto

end

end
