(* ===== verification/Udp_Wire.thy ===== *)
theory Udp_Wire
  imports Wire
begin

text \<open>
  \<open>src/smoltcp/src/wire/udp.rs\<close>: the accessors of a UDP packet buffer and the representation of a UDP
  header. A packet is the list of octets of its buffer; an accessor that reads or writes outside of it
  panics.
\<close>

section \<open>Packets\<close>

definition UDP_HEADER_LEN :: nat where "UDP_HEADER_LEN = 8"

definition udp_src_port :: "u8 list \<Rightarrow> u16 option" where "udp_src_port data = get_u16 data 0"

definition udp_dst_port :: "u8 list \<Rightarrow> u16 option" where "udp_dst_port data = get_u16 data 2"

definition udp_len :: "u8 list \<Rightarrow> u16 option" where "udp_len data = get_u16 data 4"

definition udp_checksum :: "u8 list \<Rightarrow> u16 option" where "udp_checksum data = get_u16 data 6"

definition udp_check_len :: "u8 list \<Rightarrow> (wire_error + unit) option" where
  "udp_check_len data =
     (if length data < UDP_HEADER_LEN then Some (Inl WireError)
      else do {
        len \<leftarrow> udp_len data;
        if length data < unat len \<or> unat len < UDP_HEADER_LEN then Some (Inl WireError)
        else Some (Inr ()) })"

definition udp_new_checked :: "u8 list \<Rightarrow> (wire_error + u8 list) option" where
  "udp_new_checked data = do {
     res \<leftarrow> udp_check_len data;
     case res of Inl e \<Rightarrow> Some (Inl e) | Inr _ \<Rightarrow> Some (Inr data) }"

definition udp_verify_partial_checksum :: "ip_address \<Rightarrow> ip_address \<Rightarrow> u8 list \<Rightarrow> bool option" where
  "udp_verify_partial_checksum src_addr dst_addr data = do {
     len \<leftarrow> udp_len data;
     header \<leftarrow> pseudo_header src_addr dst_addr ProtoUdp (ucast len);
     ck \<leftarrow> udp_checksum data;
     Some (header = ck) }"

definition udp_verify_checksum :: "ip_address \<Rightarrow> ip_address \<Rightarrow> u8 list \<Rightarrow> bool option" where
  "udp_verify_checksum src_addr dst_addr data = do {
     ck \<leftarrow> udp_checksum data;
     if ck = 0 then Some True
     else do {
       len \<leftarrow> udp_len data;
       header \<leftarrow> pseudo_header src_addr dst_addr ProtoUdp (ucast len);
       part \<leftarrow> slice data 0 (unat len);
       Some (checksum_combine [header, checksum_data part] = 0xffff) } }"

definition udp_payload :: "u8 list \<Rightarrow> u8 list option" where
  "udp_payload data = do { len \<leftarrow> udp_len data; slice data 8 (unat len) }"

definition udp_set_src_port :: "u16 \<Rightarrow> u8 list \<Rightarrow> u8 list option" where
  "udp_set_src_port v data = put_u16 data 0 v"

definition udp_set_dst_port :: "u16 \<Rightarrow> u8 list \<Rightarrow> u8 list option" where
  "udp_set_dst_port v data = put_u16 data 2 v"

definition udp_set_len :: "u16 \<Rightarrow> u8 list \<Rightarrow> u8 list option" where
  "udp_set_len v data = put_u16 data 4 v"

definition udp_set_checksum :: "u16 \<Rightarrow> u8 list \<Rightarrow> u8 list option" where
  "udp_set_checksum v data = put_u16 data 6 v"

definition udp_fill_checksum :: "ip_address \<Rightarrow> ip_address \<Rightarrow> u8 list \<Rightarrow> u8 list option" where
  "udp_fill_checksum src_addr dst_addr data = do {
     data \<leftarrow> udp_set_checksum 0 data;
     len \<leftarrow> udp_len data;
     header \<leftarrow> pseudo_header src_addr dst_addr ProtoUdp (ucast len);
     part \<leftarrow> slice data 0 (unat len);
     let ck = NOT (checksum_combine [header, checksum_data part]);
     udp_set_checksum (if ck = 0 then 0xffff else ck) data }"

text \<open>\<open>emit_payload(packet.payload_mut())\<close>: the closure fills the slice it is given.\<close>

definition udp_payload_mut :: "(u8 list \<Rightarrow> u8 list) \<Rightarrow> u8 list \<Rightarrow> u8 list option" where
  "udp_payload_mut f data = do {
     part \<leftarrow> udp_payload data;
     Some (overwrite data 8 (f part)) }"

section \<open>Representation\<close>

record udp_repr =
  udp_repr_src_port :: u16
  udp_repr_dst_port :: u16

definition udp_parse ::
  "ip_address \<Rightarrow> ip_address \<Rightarrow> checksum_capabilities \<Rightarrow> u8 list \<Rightarrow> (wire_error + udp_repr) option" where
  "udp_parse src_addr dst_addr caps data = do {
     res \<leftarrow> udp_check_len data;
     case res of
       Inl e \<Rightarrow> Some (Inl e)
     | Inr _ \<Rightarrow> do {
         dst \<leftarrow> udp_dst_port data;
         if dst = 0 then Some (Inl WireError)
         else do {
           bad \<leftarrow> (if checksum_rx (caps_udp caps)
                  then map_option Not (udp_verify_checksum src_addr dst_addr data) else Some False);
           ck \<leftarrow> udp_checksum data;
           if bad \<and> \<not> (addr_version src_addr = VIpv4 \<and> addr_version dst_addr = VIpv4 \<and> ck = 0)
           then Some (Inl WireError)
           else do {
             src \<leftarrow> udp_src_port data;
             Some (Inr \<lparr>udp_repr_src_port = src, udp_repr_dst_port = dst\<rparr>) } } } }"

definition udp_header_len :: "udp_repr \<Rightarrow> nat" where
  "udp_header_len r = UDP_HEADER_LEN"

definition udp_emit_header :: "udp_repr \<Rightarrow> nat \<Rightarrow> u8 list \<Rightarrow> u8 list option" where
  "udp_emit_header r payload_len data = do {
     data \<leftarrow> udp_set_src_port (udp_repr_src_port r) data;
     data \<leftarrow> udp_set_dst_port (udp_repr_dst_port r) data;
     data \<leftarrow> udp_set_len (of_nat (UDP_HEADER_LEN + payload_len)) data;
     udp_set_checksum 0 data }"

definition udp_emit ::
  "udp_repr \<Rightarrow> ip_address \<Rightarrow> ip_address \<Rightarrow> nat \<Rightarrow> (u8 list \<Rightarrow> u8 list) \<Rightarrow> checksum_capabilities \<Rightarrow>
   u8 list \<Rightarrow> u8 list option" where
  "udp_emit r src_addr dst_addr payload_len emit_payload caps data = do {
     data \<leftarrow> udp_set_src_port (udp_repr_src_port r) data;
     data \<leftarrow> udp_set_dst_port (udp_repr_dst_port r) data;
     data \<leftarrow> udp_set_len (of_nat (UDP_HEADER_LEN + payload_len)) data;
     data \<leftarrow> udp_payload_mut emit_payload data;
     if checksum_tx (caps_udp caps) then udp_fill_checksum src_addr dst_addr data
     else udp_set_checksum 0 data }"

lemmas udp_fields = udp_src_port_def udp_dst_port_def udp_len_def udp_checksum_def
lemmas udp_setters = udp_set_src_port_def udp_set_dst_port_def udp_set_len_def udp_set_checksum_def

section \<open>Well-formed packets\<close>

lemma udp_check_len_ok:
  "udp_check_len data = Some (Inr ()) \<longleftrightarrow>
     8 \<le> length data \<and> (\<exists>len. udp_len data = Some len \<and> 8 \<le> unat len \<and> unat len \<le> length data)"
  by (auto simp: udp_check_len_def UDP_HEADER_LEN_def udp_len_def get_u16_at)

lemma udp_check_len_total: "udp_check_len data \<noteq> None"
  by (simp add: udp_check_len_def UDP_HEADER_LEN_def udp_len_def get_u16_at)

lemma udp_verify_checksum_total:
  assumes "same_version src dst" and "udp_check_len data = Some (Inr ())"
  shows "\<exists>b. udp_verify_checksum src dst data = Some b"
proof -
  obtain len where len: "8 \<le> length data" "udp_len data = Some len" "8 \<le> unat len" "unat len \<le> length data"
    using assms(2) by (auto simp: udp_check_len_ok)
  obtain h where "pseudo_header src dst ProtoUdp (ucast len) = Some h" using pseudo_header_Some [OF assms(1)] by blast
  then show ?thesis using len by (simp add: udp_verify_checksum_def udp_checksum_def get_u16_at) blast
qed

lemma udp_parse_total:
  assumes "same_version src dst"
  shows "udp_parse src dst caps data \<noteq> None"
proof (cases "udp_check_len data")
  case None
  then show ?thesis using udp_check_len_total by simp
next
  case (Some res)
  show ?thesis
  proof (cases res)
    case (Inr u)
    then have ok: "udp_check_len data = Some (Inr ())" using Some by simp
    then have "8 \<le> length data" by (simp add: udp_check_len_ok)
    then show ?thesis
      using ok udp_verify_checksum_total [OF assms ok]
      by (auto simp: udp_parse_def udp_fields get_u16_at simp del: not_None_eq)
  qed (simp add: udp_parse_def Some)
qed

text \<open>On a buffer of exactly the length of the packet, the receiver checks the sum of all of it.\<close>

lemma ucast_len: "unat (len :: u16) = n \<Longrightarrow> (ucast len :: u32) = of_nat n"
  by auto

lemma udp_verify_checksum_exact:
  assumes "udp_len data = Some len" and "unat len = length data" and "udp_checksum data = Some ck"
  shows "udp_verify_checksum src dst data = (if ck = 0 then Some True
     else map_option (\<lambda>c. c = 0xffff) (checksum_of src dst ProtoUdp data))"
  using assms ucast_len [OF assms(2)]
  by (cases "pseudo_header src dst ProtoUdp (of_nat (length data))") (simp_all add: udp_verify_checksum_def checksum_of_def)

lemma udp_fill_checksum_exact:
  assumes "udp_len data = Some len" and "unat len = length data" and "8 \<le> length data"
    and "same_version src dst"
  obtains ck :: u16 where "udp_fill_checksum src dst data = Some (overwrite data 6 (be_bytes 2 ck))" "ck \<noteq> 0"
    "checksum_of src dst ProtoUdp (overwrite data 6 (be_bytes 2 ck)) = Some 0xffff"
proof -
  let ?z = "overwrite data 6 (be_bytes 2 (0 :: u16))"
  obtain c where c: "checksum_of src dst ProtoUdp ?z = Some c" using checksum_of_Some [OF assms(4)] .
  let ?ck = "if NOT c = 0 then 0xffff else NOT c"
  have l: "length ?z = length data" using assms(3) by simp
  then have "udp_len ?z = Some len" "slice ?z 0 (unat len) = Some ?z" "udp_set_checksum 0 data = Some ?z"
    using assms(1-3) by (simp_all add: udp_len_def udp_set_checksum_def wire_simps put_at)
  then have f: "udp_fill_checksum src dst data = Some (overwrite data 6 (be_bytes 2 ?ck))"
    using c assms(2,3) l ucast_len [OF assms(2)]
    by (auto simp: udp_fill_checksum_def checksum_of_def bind_eq_Some_conv udp_set_checksum_def put_at)
  have "length data \<le> 131072" using unsigned_less [where ?'a = nat, of len] assms(2) by simp
  then have "checksum_of src dst ProtoUdp (overwrite data 6 (be_bytes 2 ?ck)) = Some 0xffff"
    using assms(3) c by (intro checksum_of_filled [OF _ _ _ c]) auto
  with f show thesis by (intro that [of ?ck]) auto
qed

definition udp_fits :: "udp_repr \<times> u8 list \<Rightarrow> bool" where
  "udp_fits p \<longleftrightarrow> udp_repr_dst_port (fst p) \<noteq> 0 \<and> length (snd p) \<le> 65527"

text \<open>The packet that \<open>emit\<close> leaves in the buffer, up to the checksum.\<close>

definition udp_octets :: "udp_repr \<Rightarrow> u8 list \<Rightarrow> u8 list \<Rightarrow> u8 list" where
  "udp_octets r p buf = overwrite (overwrite (overwrite (overwrite buf 0 (be_bytes 2 (udp_repr_src_port r)))
     2 (be_bytes 2 (udp_repr_dst_port r))) 4 (be_bytes 2 (of_nat (8 + length p) :: u16))) 8 p"

lemma udp_octets_fields:
  assumes "length buf = 8 + length p" and "length p \<le> 65527"
  shows "length (udp_octets r p buf) = 8 + length p"
    and "udp_src_port (udp_octets r p buf) = Some (udp_repr_src_port r)"
    and "udp_dst_port (udp_octets r p buf) = Some (udp_repr_dst_port r)"
    and "udp_len (udp_octets r p buf) = Some (of_nat (8 + length p))"
    and "unat (of_nat (8 + length p) :: u16) = 8 + length p"
    and "udp_payload (udp_octets r p buf) = Some p"
proof -
  show n: "unat (of_nat (8 + length p) :: u16) = 8 + length p"
    using assms(2) by (intro unat_of_nat_u16) simp
  show "length (udp_octets r p buf) = 8 + length p"
    and "udp_src_port (udp_octets r p buf) = Some (udp_repr_src_port r)"
    and "udp_dst_port (udp_octets r p buf) = Some (udp_repr_dst_port r)"
    and l: "udp_len (udp_octets r p buf) = Some (of_nat (8 + length p))"
    using assms by (simp_all add: udp_octets_def udp_fields wire_simps)
  show "udp_payload (udp_octets r p buf) = Some p"
    using assms unfolding udp_payload_def l
    by (simp add: n udp_octets_def wire_simps del: of_nat_add slice_Some)
qed

lemma udp_emit_octets:
  assumes len: "length buf = 8 + length p" "length p \<le> 65527" and ver: "same_version src dst"
  obtains ck :: u16 where
    "udp_emit r src dst (length p) (\<lambda>_. p) caps buf = Some (overwrite (udp_octets r p buf) 6 (be_bytes 2 ck))"
    "ck = 0 \<or> checksum_of src dst ProtoUdp (overwrite (udp_octets r p buf) 6 (be_bytes 2 ck)) = Some 0xffff"
proof -
  let ?h = "overwrite (overwrite (overwrite buf 0 (be_bytes 2 (udp_repr_src_port r)))
     2 (be_bytes 2 (udp_repr_dst_port r))) 4 (be_bytes 2 (of_nat (8 + length p) :: u16))"
  have n: "unat (of_nat (8 + length p) :: u16) = 8 + length p" by (rule udp_octets_fields(5) [OF len])
  have "udp_len ?h = Some (of_nat (8 + length p))" using len by (simp add: udp_len_def wire_simps)
  then have "udp_payload_mut (\<lambda>_. p) ?h = Some (udp_octets r p buf)"
    using len unfolding udp_payload_mut_def udp_payload_def by (simp add: n udp_octets_def del: of_nat_add)
  then have emit: "udp_emit r src dst (length p) (\<lambda>_. p) caps buf =
      (if checksum_tx (caps_udp caps) then udp_fill_checksum src dst (udp_octets r p buf)
       else udp_set_checksum 0 (udp_octets r p buf))"
    using len by (simp add: udp_emit_def udp_setters put_at UDP_HEADER_LEN_def del: of_nat_add)
  note f = udp_octets_fields [OF len]
  show thesis
  proof (cases "checksum_tx (caps_udp caps)")
    case True
    have ex: "unat (of_nat (8 + length p) :: u16) = length (udp_octets r p buf)" "8 \<le> length (udp_octets r p buf)"
      using f(1) [of r] f(5) by simp_all
    obtain ck :: u16 where "udp_fill_checksum src dst (udp_octets r p buf) = Some (overwrite (udp_octets r p buf) 6 (be_bytes 2 ck))" "ck \<noteq> 0"
      "checksum_of src dst ProtoUdp (overwrite (udp_octets r p buf) 6 (be_bytes 2 ck)) = Some 0xffff"
      using udp_fill_checksum_exact [OF f(4) ex ver] .
    with True emit show thesis by (intro that) auto
  next
    case False
    with emit f(1) show thesis by (intro that [of 0]) (simp_all add: udp_set_checksum_def put_at)
  qed
qed

lemma udp_parse_octets:
  fixes ck :: u16
  assumes len: "length buf = 8 + length p" "length p \<le> 65527" and dst: "udp_repr_dst_port r \<noteq> 0"
    and ck: "ck = 0 \<or> checksum_of src dst ProtoUdp (overwrite (udp_octets r p buf) 6 (be_bytes 2 ck)) = Some 0xffff"
  shows "udp_parse src dst caps (overwrite (udp_octets r p buf) 6 (be_bytes 2 ck)) = Some (Inr r)"
    and "udp_payload (overwrite (udp_octets r p buf) 6 (be_bytes 2 ck)) = Some p"
proof -
  let ?d = "overwrite (udp_octets r p buf) 6 (be_bytes 2 ck)"
  note f = udp_octets_fields [OF len]
  have d: "length ?d = 8 + length p" "udp_src_port ?d = Some (udp_repr_src_port r)"
    "udp_dst_port ?d = Some (udp_repr_dst_port r)" "udp_len ?d = Some (of_nat (8 + length p))"
    "udp_checksum ?d = Some ck"
    using f by (simp_all add: udp_fields wire_simps)
  have "udp_check_len ?d = Some (Inr ())" using d f(5) by (simp add: udp_check_len_ok)
  moreover have "udp_verify_checksum src dst ?d = Some True"
    using udp_verify_checksum_exact [OF d(4) _ d(5)] ck f(5) d(1) by auto
  ultimately show "udp_parse src dst caps ?d = Some (Inr r)"
    using d dst by (simp add: udp_parse_def)
  show "udp_payload ?d = Some p"
    using f(1,4,5,6) unfolding udp_payload_def d(4) by (simp add: wire_simps del: of_nat_add slice_Some)
qed

section \<open>UDP as a wire format\<close>

definition udp_env_ok :: "ip_address \<times> ip_address \<times> checksum_capabilities \<Rightarrow> bool" where
  "udp_env_ok e \<longleftrightarrow> same_version (fst e) (fst (snd e))"

definition udp_write ::
  "ip_address \<times> ip_address \<times> checksum_capabilities \<Rightarrow> udp_repr \<times> u8 list \<Rightarrow> u8 list \<Rightarrow> u8 list option" where
  "udp_write e p buf = udp_emit (fst p) (fst e) (fst (snd e)) (length (snd p)) (\<lambda>_. snd p) (snd (snd e)) buf"

definition udp_read ::
  "ip_address \<times> ip_address \<times> checksum_capabilities \<Rightarrow> u8 list \<Rightarrow> (wire_error + udp_repr \<times> u8 list) option" where
  "udp_read e bs = do {
     res \<leftarrow> udp_parse (fst e) (fst (snd e)) (snd (snd e)) bs;
     case res of
       Inl err \<Rightarrow> Some (Inl err)
     | Inr r \<Rightarrow> do { p \<leftarrow> udp_payload bs; Some (Inr (r, p)) } }"

lemma udp_read_ok:
  "udp_read (src, dst, caps) bs = Some (Inr (r, p)) \<longleftrightarrow>
     udp_parse src dst caps bs = Some (Inr r) \<and> udp_payload bs = Some p"
  by (cases "udp_parse src dst caps bs"; cases "the (udp_parse src dst caps bs)"; cases "udp_payload bs")
    (auto simp: udp_read_def)

lemma udp_parse_payload:
  assumes "udp_parse src dst caps data = Some (Inr r)"
  shows "\<exists>p. udp_payload data = Some p"
proof -
  have "udp_check_len data = Some (Inr ())"
    using assms by (cases "udp_check_len data") (auto simp: udp_parse_def split: sum.splits)
  then show ?thesis by (auto simp: udp_check_len_ok udp_payload_def)
qed

interpretation udp_format: wire_format udp_env_ok "\<lambda>_. udp_fits" "\<lambda>p. 8 + length (snd p)" udp_write udp_read
proof unfold_locales
  fix e and p :: "udp_repr \<times> u8 list" and buf :: "u8 list"
  assume e: "udp_env_ok e" "udp_fits p" "length buf = 8 + length (snd p)"
  obtain src dst caps where env: "e = (src, dst, caps)" by (cases e)
  obtain r d where p: "p = (r, d)" by (cases p)
  have len: "length buf = 8 + length d" "length d \<le> 65527" "same_version src dst" "udp_repr_dst_port r \<noteq> 0"
    using e by (simp_all add: p env udp_env_ok_def udp_fits_def)
  obtain ck :: u16 where ck: "udp_emit r src dst (length d) (\<lambda>_. d) caps buf = Some (overwrite (udp_octets r d buf) 6 (be_bytes 2 ck))"
    "ck = 0 \<or> checksum_of src dst ProtoUdp (overwrite (udp_octets r d buf) 6 (be_bytes 2 ck)) = Some 0xffff"
    using udp_emit_octets [OF len(1-3)] .
  then show "\<exists>bs. udp_write e p buf = Some bs \<and> length bs = 8 + length (snd p) \<and> udp_read e bs = Some (Inr p)"
    using udp_parse_octets [OF len(1,2,4) ck(2)] udp_octets_fields(1) [OF len(1,2), of r]
    by (simp add: udp_write_def udp_read_def env p)
next
  fix e buf
  assume "udp_env_ok e"
  then have t: "udp_parse (fst e) (fst (snd e)) (snd (snd e)) buf \<noteq> None"
    by (intro udp_parse_total) (simp add: udp_env_ok_def)
  then show "udp_read e buf \<noteq> None"
    by (auto simp: udp_read_def split: sum.splits dest!: udp_parse_payload)
qed

section \<open>Properties\<close>

text \<open>
  A UDP datagram that is emitted is parsed back unchanged. For addresses of one version, any
  checksum capabilities, a destination port other than zero and a payload that fits the length field,
  \<open>emit\<close> into a buffer of the right length does not panic, and the result passes \<open>parse\<close> (the
  checksum test included) with the same ports and the same payload, whatever was in the buffer before.
\<close>

lemma udp_round_trip:
  assumes "same_version src dst" and "udp_repr_dst_port r \<noteq> 0" and "length p \<le> 65527"
    and "length buf = UDP_HEADER_LEN + length p"
  shows "\<exists>bs. udp_emit r src dst (length p) (\<lambda>_. p) caps buf = Some bs \<and> length bs = length buf \<and>
    udp_parse src dst caps bs = Some (Inr r) \<and> udp_payload bs = Some p"
proof -
  have "udp_env_ok (src, dst, caps)" "udp_fits (r, p)" "length buf = 8 + length (snd (r, p))"
    using assms by (simp_all add: udp_env_ok_def udp_fits_def UDP_HEADER_LEN_def)
  from udp_format.emitted [OF this] assms(4) show ?thesis
    by (auto simp: udp_write_def udp_read_ok UDP_HEADER_LEN_def)
qed

lemma udp_round_trip_witness:
  "\<exists>bs. udp_emit \<lparr>udp_repr_src_port = 53, udp_repr_dst_port = 4000\<rparr> (Ipv4 0x0a000001) (Ipv4 0x0a000002) 3 (\<lambda>_. [1, 2, 3])
      (caps_ignored\<lparr>caps_udp := ChecksumBoth\<rparr>) (replicate 11 0xff) = Some bs \<and> length bs = 11 \<and>
    udp_parse (Ipv4 0x0a000001) (Ipv4 0x0a000002) (caps_ignored\<lparr>caps_udp := ChecksumBoth\<rparr>) bs
      = Some (Inr \<lparr>udp_repr_src_port = 53, udp_repr_dst_port = 4000\<rparr>) \<and> udp_payload bs = Some [1, 2, 3]"
  using udp_round_trip [of "Ipv4 0x0a000001" "Ipv4 0x0a000002" "\<lparr>udp_repr_src_port = 53, udp_repr_dst_port = 4000\<rparr>"
      "[1, 2, 3]" "replicate 11 0xff" "caps_ignored\<lparr>caps_udp := ChecksumBoth\<rparr>"]
  by (simp add: same_version_def UDP_HEADER_LEN_def numeral_3_eq_3)

text \<open>
  Parsing a UDP packet is total. Whatever octets arrive, \<open>parse\<close> returns an error or a
  representation and never panics; after it has accepted, the payload is inside the buffer, the
  length field covers the header, and the destination port is not zero.
\<close>

lemma udp_parse_safe:
  assumes "same_version src dst"
  shows "\<exists>res. udp_parse src dst caps data = Some res \<and> (\<forall>r. res = Inr r \<longrightarrow> udp_repr_dst_port r \<noteq> 0 \<and>
    (\<exists>len p. udp_len data = Some len \<and> 8 \<le> unat len \<and> unat len \<le> length data \<and>
       udp_payload data = Some p \<and> length p = unat len - 8))"
proof -
  obtain res where res: "udp_parse src dst caps data = Some res" using udp_parse_total [OF assms] by blast
  have "udp_repr_dst_port r \<noteq> 0 \<and> (\<exists>len p. udp_len data = Some len \<and> 8 \<le> unat len \<and> unat len \<le> length data \<and>
       udp_payload data = Some p \<and> length p = unat len - 8)" if "res = Inr r" for r
  proof -
    have "udp_check_len data = Some (Inr ())" "udp_repr_dst_port r \<noteq> 0"
      using res that by (cases "udp_check_len data"; auto simp: udp_parse_def bind_eq_Some_conv split: sum.splits if_splits)+
    then show ?thesis by (auto simp: udp_check_len_ok udp_payload_def)
  qed
  with res show ?thesis by blast
qed

lemma udp_parse_safe_witness:
  "\<exists>res. udp_parse (Ipv4 1) (Ipv4 2) caps_ignored [] = Some res \<and> (\<forall>r. res = Inr r \<longrightarrow> udp_repr_dst_port r \<noteq> 0)"
  using udp_parse_safe [of "Ipv4 1" "Ipv4 2" caps_ignored "[]"] by (auto simp: same_version_def)

text \<open>
  A UDP datagram over IPv6 with a zero checksum is accepted, although the checksum is mandatory
  there and the code means to allow its omission over IPv4 only: \<open>verify_checksum\<close> has already answered
  true before the version of the addresses is looked at. So no octet of such a datagram is checked.
\<close>

lemma udp_v6_zero_checksum_accepted:
  assumes "udp_check_len data = Some (Inr ())" and "udp_checksum data = Some 0"
    and "udp_dst_port data = Some port" "port \<noteq> 0"
  shows "\<exists>r. udp_parse (Ipv6 src) (Ipv6 dst) (caps\<lparr>caps_udp := ChecksumBoth\<rparr>) data = Some (Inr r)"
proof -
  have "8 \<le> length data" using assms(1) by (simp add: udp_check_len_ok)
  then obtain sp where "udp_src_port data = Some sp" by (simp add: udp_src_port_def get_u16_at)
  then show ?thesis using assms by (simp add: udp_parse_def udp_verify_checksum_def)
qed

lemma udp_v6_zero_checksum_accepted_witness:
  "\<exists>r. udp_parse (Ipv6 1) (Ipv6 2) (caps_ignored\<lparr>caps_udp := ChecksumBoth\<rparr>) [0, 1, 0, 2, 0, 9, 0, 0, 7] = Some (Inr r)"
proof (rule udp_v6_zero_checksum_accepted)
  show "udp_check_len [0, 1, 0, 2, 0, 9, 0, 0, 7] = Some (Inr ())"
    by (simp add: udp_check_len_ok udp_len_def get_u16_def unat_of_be_2)
  show "udp_dst_port [0, 1, 0, 2, 0, 9, 0, 0, 7] = Some 2" "udp_checksum [0, 1, 0, 2, 0, 9, 0, 0, 7] = Some 0"
    by (simp_all add: udp_fields get_u16_def of_be_2)
qed simp

end
