(* ===== verification/Tcp_Options.thy ===== *)
theory Tcp_Options
  imports Wire Tcp_Repr
begin

text \<open>
  The options of the TCP header, \<open>TcpOption\<close> of \<open>src/smoltcp/src/wire/tcp.rs\<close>: parsing and emitting of
  one option, and the loop over the options area in \<open>Repr::parse\<close>.
\<close>

section \<open>One option\<close>

datatype tcp_option =
    OptEndOfList
  | OptNoOperation
  | OptMaxSegmentSize u16
  | OptWindowScale u8
  | OptSackPermitted
  | OptSackRange "sack_range list"
  | OptTimeStamp u32 u32
  | OptUnknown u8 "u8 list"

text \<open>The \<open>i\<close>-th range of a SACK option.\<close>

definition parse_sack_range :: "u8 list \<Rightarrow> nat \<Rightarrow> sack_range option" where
  "parse_sack_range data i =
     (let left = i * 8
      in if left < length data
         then do {
           range_left \<leftarrow> get_u32 data left;
           range_right \<leftarrow> get_u32 data (left + 4);
           Some (Some (range_left, range_right)) }
         else Some None)"

definition parse_sack_ranges :: "u8 list \<Rightarrow> sack_range list option" where
  "parse_sack_ranges data = do {
     r0 \<leftarrow> parse_sack_range data 0;
     r1 \<leftarrow> parse_sack_range data 1;
     r2 \<leftarrow> parse_sack_range data 2;
     Some [r0, r1, r2] }"

text \<open>\<open>match (kind, length)\<close>, for an option with a length octet.\<close>

definition parse_option_data :: "u8 \<Rightarrow> nat \<Rightarrow> u8 list \<Rightarrow> (wire_error + tcp_option) option" where
  "parse_option_data kind len data =
     (if kind = 0x02 then
        if len = 4 then do { v \<leftarrow> get_u16 data 0; Some (Inr (OptMaxSegmentSize v)) } else Some (Inl WireError)
      else if kind = 0x03 then
        if len = 3 then do { v \<leftarrow> get_u8 data 0; Some (Inr (OptWindowScale v)) } else Some (Inl WireError)
      else if kind = 0x04 then
        if len = 2 then Some (Inr OptSackPermitted) else Some (Inl WireError)
      else if kind = 0x05 then
        if len < 10 \<or> (len - 2) mod 8 \<noteq> 0 then Some (Inl WireError)
        else do { s \<leftarrow> parse_sack_ranges data; Some (Inr (OptSackRange s)) }
      else if kind = 0x08 \<and> len = 10 then do {
          ts \<leftarrow> get_u32 data 0;
          te \<leftarrow> get_u32 data 4;
          Some (Inr (OptTimeStamp ts te)) }
      else Some (Inr (OptUnknown kind data)))"

definition tcp_option_parse :: "u8 list \<Rightarrow> (wire_error + u8 list \<times> tcp_option) option" where
  "tcp_option_parse buffer =
     (case buffer of
        [] \<Rightarrow> Some (Inl WireError)
      | kind # rest \<Rightarrow>
          if kind = 0x00 then Some (Inr (rest, OptEndOfList))
          else if kind = 0x01 then Some (Inr (rest, OptNoOperation))
          else (case rest of
              [] \<Rightarrow> Some (Inl WireError)
            | l # _ \<Rightarrow>
                (let len = unat l
                 in case slice buffer 2 len of
                      None \<Rightarrow> Some (Inl WireError)
                    | Some data \<Rightarrow> do {
                        res \<leftarrow> parse_option_data kind len data;
                        case res of
                          Inl e \<Rightarrow> Some (Inl e)
                        | Inr opt \<Rightarrow> do {
                            next \<leftarrow> slice buffer len (length buffer);
                            Some (Inr (next, opt)) } })))"

fun option_buffer_len :: "tcp_option \<Rightarrow> nat" where
  "option_buffer_len OptEndOfList = 1"
| "option_buffer_len OptNoOperation = 1"
| "option_buffer_len (OptMaxSegmentSize _) = 4"
| "option_buffer_len (OptWindowScale _) = 3"
| "option_buffer_len OptSackPermitted = 2"
| "option_buffer_len (OptSackRange s) = length (filter (\<lambda>r. r \<noteq> None) s) * 8 + 2"
| "option_buffer_len (OptTimeStamp _ _) = 10"
| "option_buffer_len (OptUnknown _ data) = 2 + length data"

text \<open>The ranges that are there, one behind the other, from position \<open>i * 8 + 2\<close> on.\<close>

fun emit_sack_ranges :: "nat \<Rightarrow> sack_range list \<Rightarrow> u8 list \<Rightarrow> u8 list option" where
  "emit_sack_ranges i (Some (first, second) # s) buffer = do {
     buffer \<leftarrow> put_u32 buffer (i * 8 + 2) first;
     buffer \<leftarrow> put_u32 buffer (i * 8 + 2 + 4) second;
     emit_sack_ranges (i + 1) s buffer }"
| "emit_sack_ranges i (None # s) buffer = emit_sack_ranges i s buffer"
| "emit_sack_ranges i [] buffer = Some buffer"

fun emit_option_data :: "tcp_option \<Rightarrow> u8 list \<Rightarrow> u8 list option" where
  "emit_option_data OptEndOfList buffer = Some (replicate (length buffer) 0x00)"
| "emit_option_data OptNoOperation buffer = put_u8 buffer 0 0x01"
| "emit_option_data (OptMaxSegmentSize v) buffer = do {
     buffer \<leftarrow> put_u8 buffer 0 0x02; put_u16 buffer 2 v }"
| "emit_option_data (OptWindowScale v) buffer = do {
     buffer \<leftarrow> put_u8 buffer 0 0x03; put_u8 buffer 2 v }"
| "emit_option_data OptSackPermitted buffer = put_u8 buffer 0 0x04"
| "emit_option_data (OptSackRange s) buffer = do {
     buffer \<leftarrow> put_u8 buffer 0 0x05; emit_sack_ranges 0 s buffer }"
| "emit_option_data (OptTimeStamp ts te) buffer = do {
     buffer \<leftarrow> put_u8 buffer 0 0x08; buffer \<leftarrow> put_u32 buffer 2 ts; put_u32 buffer 6 te }"
| "emit_option_data (OptUnknown kind provided) buffer = do {
     buffer \<leftarrow> put_u8 buffer 0 kind;
     panic_unless (length buffer = 2 + length provided);
     put_bytes buffer 2 provided }"

text \<open>The buffer after \<open>emit\<close>, and where the slice that it returns starts.\<close>

definition tcp_option_emit :: "tcp_option \<Rightarrow> u8 list \<Rightarrow> (u8 list \<times> nat) option" where
  "tcp_option_emit opt buffer = do {
     let len = option_buffer_len opt;
     buffer \<leftarrow> (if opt = OptEndOfList \<or> opt = OptNoOperation then Some buffer else put_u8 buffer 1 (of_nat len));
     buffer \<leftarrow> emit_option_data opt buffer;
     panic_unless (len \<le> length buffer);
     Some (buffer, len) }"

section \<open>The options area\<close>

record tcp_options =
  o_max_seg_size :: "u16 option"
  o_window_scale :: "u8 option"
  o_sack_permitted :: bool
  o_sack_ranges :: "sack_range list"
  o_timestamp :: "tcp_timestamp_repr option"

definition no_options :: tcp_options where
  "no_options = \<lparr>o_max_seg_size = None, o_window_scale = None, o_sack_permitted = False,
     o_sack_ranges = [None, None, None], o_timestamp = None\<rparr>"

fun apply_option :: "tcp_option \<Rightarrow> tcp_options \<Rightarrow> tcp_options" where
  "apply_option (OptMaxSegmentSize v) st = st\<lparr>o_max_seg_size := Some v\<rparr>"
| "apply_option (OptWindowScale v) st = st\<lparr>o_window_scale := (if 14 < v then Some 14 else Some v)\<rparr>"
| "apply_option OptSackPermitted st = st\<lparr>o_sack_permitted := True\<rparr>"
| "apply_option (OptSackRange s) st = st\<lparr>o_sack_ranges := s\<rparr>"
| "apply_option (OptTimeStamp ts te) st = st\<lparr>o_timestamp := Some \<lparr>tsval = ts, tsecr = te\<rparr>\<rparr>"
| "apply_option _ st = st"

text \<open>Parsing one option is total, and takes at least one octet off the buffer.\<close>

lemma parse_sack_range_total:
  assumes "length data mod 8 = 0"
  shows "\<exists>r. parse_sack_range data i = Some r"
proof (cases "i * 8 < length data")
  case True
  then have "i * 8 + 4 \<le> length data" "i * 8 + 4 + 4 \<le> length data" using assms by presburger+
  then show ?thesis using True by (simp add: parse_sack_range_def Let_def get_u32_at)
qed (simp add: parse_sack_range_def)

lemma parse_sack_ranges_total: "length data mod 8 = 0 \<Longrightarrow> \<exists>s. parse_sack_ranges data = Some s"
  using parse_sack_range_total [of data 0] parse_sack_range_total [of data 1] parse_sack_range_total [of data 2]
  by (auto simp: parse_sack_ranges_def)

lemma parse_option_data_total:
  assumes "length data = len - 2"
  shows "\<exists>res. parse_option_data kind len data = Some res"
proof -
  have "(len - 2) mod 8 = 0 \<Longrightarrow> \<exists>s. parse_sack_ranges data = Some s"
    using parse_sack_ranges_total [of data] assms by simp
  then show ?thesis
    using assms by (cases "(len - 2) mod 8 = 0") (auto simp: parse_option_data_def get_u16_at get_u8_at get_u32_at)
qed

lemma tcp_option_parse_long:
  assumes "kind \<notin> {0x00, 0x01}" and "slice (kind # l # tail) 2 (unat l) = Some data"
    and "parse_option_data kind (unat l) data = Some res"
  shows "tcp_option_parse (kind # l # tail) =
    Some (map_sum id (\<lambda>opt. (drop (unat l) (kind # l # tail), opt)) res)"
proof -
  have "unat l \<le> length (kind # l # tail)" using assms(2) by (auto simp: slice_def split: if_splits)
  then have "slice (kind # l # tail) (unat l) (length (kind # l # tail)) = Some (drop (unat l) (kind # l # tail))"
    by simp
  then show ?thesis
    using assms by (cases res) (simp_all add: tcp_option_parse_def Let_def del: slice_Some length_Cons list.size)
qed

lemma tcp_option_parse_cases:
  obtains (err) e where "tcp_option_parse buffer = Some (Inl e)"
  | (opt) rest opt where "tcp_option_parse buffer = Some (Inr (rest, opt))" "length rest < length buffer"
proof -
  consider (nil) "buffer = []" | (single) kind tail where "buffer = kind # tail" "kind \<in> {0, 1}"
    | (short) kind where "buffer = [kind]" "kind \<notin> {0, 1}"
    | (long) kind l tail where "buffer = kind # l # tail" "kind \<notin> {0, 1}"
    by (cases buffer; cases "tl buffer") auto
  then show thesis
  proof cases
    case (long kind l tail)
    show thesis
    proof (cases "slice buffer 2 (unat l)")
      case None
      with long show thesis by (intro err) (simp add: tcp_option_parse_def Let_def)
    next
      case (Some data)
      then have "length data = unat l - 2" "2 \<le> unat l" by (auto simp: slice_def split: if_splits)
      moreover from this obtain res where "parse_option_data kind (unat l) data = Some res"
        using parse_option_data_total by blast
      ultimately show thesis
        using tcp_option_parse_long [of kind l tail data res] long Some err opt by (cases res) auto
    qed
  qed (auto simp: tcp_option_parse_def intro: err opt)
qed

lemma tcp_option_parse_shorter:
  "tcp_option_parse buffer = Some (Inr (next, opt)) \<Longrightarrow> length next < length buffer"
  by (cases rule: tcp_option_parse_cases [of buffer]) auto

function parse_options :: "u8 list \<Rightarrow> tcp_options \<Rightarrow> (wire_error + tcp_options) option" where
  "parse_options options st =
     (if options = [] then Some (Inr st)
      else case tcp_option_parse options of
          None \<Rightarrow> None
        | Some (Inl e) \<Rightarrow> Some (Inl e)
        | Some (Inr (next, opt)) \<Rightarrow>
            if opt = OptEndOfList then Some (Inr st) else parse_options next (apply_option opt st))"
  by pat_completeness auto
termination
  by (relation "measure (length \<circ> fst)") (auto dest: tcp_option_parse_shorter)

declare parse_options.simps [simp del]

lemma parse_options_total: "\<exists>res. parse_options options st = Some res"
proof (induction options st rule: parse_options.induct)
  case (1 options st)
  show ?case
  proof (cases rule: tcp_option_parse_cases [of options])
    case (opt rest opt)
    with 1 [OF _ _ _ refl] show ?thesis by (subst parse_options.simps) auto
  qed (subst parse_options.simps, simp)
qed

section \<open>What is emitted is parsed back\<close>

fun range_octets :: "sack_range \<Rightarrow> u8 list" where
  "range_octets (Some (first, second)) = be_bytes 4 first @ be_bytes 4 second"
| "range_octets None = []"

fun option_octets :: "tcp_option \<Rightarrow> u8 list" where
  "option_octets (OptMaxSegmentSize v) = [0x02, 4] @ be_bytes 2 v"
| "option_octets (OptWindowScale v) = [0x03, 3, v]"
| "option_octets OptSackPermitted = [0x04, 2]"
| "option_octets (OptSackRange s) = [0x05, of_nat (option_buffer_len (OptSackRange s))] @ concat (map range_octets s)"
| "option_octets (OptTimeStamp ts te) = [0x08, 10] @ be_bytes 4 ts @ be_bytes 4 te"
| "option_octets _ = [0x01]"

lemma length_ranges: "length (concat (map range_octets s)) = length (filter (\<lambda>r. r \<noteq> None) s) * 8"
proof (induction s)
  case (Cons r s)
  then show ?case by (cases r rule: range_octets.cases) simp_all
qed simp

lemma emit_sack_ranges_eq:
  "i * 8 + 2 + length (concat (map range_octets s)) \<le> length buffer \<Longrightarrow>
     emit_sack_ranges i s buffer = Some (overwrite buffer (i * 8 + 2) (concat (map range_octets s)))"
proof (induction i s buffer rule: emit_sack_ranges.induct)
  case (1 i first second s buffer)
  then show ?case by (simp add: put_at overwrite_behind del: put_bytes_Some)
qed simp_all

text \<open>The options that the stack emits: everything but an unknown option and the end of the list.\<close>

fun option_fits :: "tcp_option \<Rightarrow> bool" where
  "option_fits (OptSackRange s) \<longleftrightarrow> (\<exists>a. s = [Some a, None, None]) \<or> (\<exists>a b. s = [Some a, Some b, None]) \<or>
     (\<exists>a b c. s = [Some a, Some b, Some c])"
| "option_fits OptEndOfList = False"
| "option_fits (OptUnknown _ _) = False"
| "option_fits _ = True"

lemma length_option_octets: "option_fits opt \<Longrightarrow> length (option_octets opt) = option_buffer_len opt"
  by (cases opt) (simp_all add: length_ranges)

lemma emit_option_head:
  "2 \<le> length buffer \<Longrightarrow> put_u8 buffer 1 l = Some (overwrite buffer 1 [l]) \<and>
     put_u8 (overwrite buffer 1 [l]) 0 k = Some (overwrite buffer 0 [k, l])"
  using overwrite_before [of 0 "[k]" "[l]" buffer 1] by (simp add: put_u8_def)

lemma put_behind:
  "length xs + length ys \<le> length buffer \<Longrightarrow> p = length xs \<Longrightarrow>
     put_bytes (overwrite buffer 0 xs) p ys = Some (overwrite buffer 0 (xs @ ys))"
  using overwrite_behind [of 0 xs ys buffer p] by simp

lemma tcp_option_emit_octets:
  assumes "option_fits opt" and "option_buffer_len opt \<le> length buffer"
  shows "tcp_option_emit opt buffer = Some (overwrite buffer 0 (option_octets opt), option_buffer_len opt)"
proof (cases opt)
  case OptNoOperation
  then show ?thesis using assms by (simp add: tcp_option_emit_def put_u8_def)
next
  case (OptMaxSegmentSize v)
  then show ?thesis
    using assms emit_option_head [of buffer 4 2] put_behind [of "[2, 4]" "be_bytes 2 v" buffer 2]
    by (simp add: tcp_option_emit_def put_u16_def)
next
  case (OptWindowScale v)
  then show ?thesis
    using assms emit_option_head [of buffer 3 3] put_behind [of "[3, 3]" "[v]" buffer 2]
    by (simp add: tcp_option_emit_def put_u8_def)
next
  case OptSackPermitted
  then show ?thesis using assms emit_option_head [of buffer 2 4] by (simp add: tcp_option_emit_def)
next
  case (OptSackRange s)
  define l :: u8 where "l = of_nat (option_buffer_len opt)"
  define d where "d = concat (map range_octets s)"
  have oct: "option_octets opt = [5, l] @ d" by (simp add: OptSackRange l_def d_def)
  have fit: "0 + length [5, l] + length d \<le> length buffer" "option_buffer_len opt = 2 + length d"
    using assms(2) by (simp_all add: OptSackRange d_def length_ranges)
  have "length (overwrite buffer 0 [5, l]) = length buffer" using fit(1) by simp
  then have "emit_sack_ranges 0 s (overwrite buffer 0 [5, l]) = Some (overwrite (overwrite buffer 0 [5, l]) 2 d)"
    using emit_sack_ranges_eq [of 0 s "overwrite buffer 0 [5, l]"] fit(1) by (simp add: d_def numeral_2_eq_2)
  also have "overwrite (overwrite buffer 0 [5, l]) 2 d = overwrite buffer 0 (option_octets opt)"
    using overwrite_behind [OF fit(1), of 2] by (simp add: oct)
  finally have "emit_option_data opt (overwrite buffer 1 [l]) = Some (overwrite buffer 0 (option_octets opt))"
    using emit_option_head [of buffer l 5] fit(1) by (simp add: OptSackRange)
  moreover have "put_u8 buffer 1 l = Some (overwrite buffer 1 [l])" using emit_option_head [of buffer l 5] fit(1) by simp
  moreover have "length (overwrite buffer 0 (option_octets opt)) = length buffer" using fit(1) by (simp add: oct)
  moreover have "opt \<noteq> OptEndOfList" "opt \<noteq> OptNoOperation" by (simp_all add: OptSackRange)
  ultimately show ?thesis
    using fit unfolding tcp_option_emit_def Let_def l_def [symmetric] by simp
next
  case (OptTimeStamp ts te)
  have fit: "10 \<le> length buffer" using assms(2) by (simp add: OptTimeStamp)
  have "put_u32 (overwrite buffer 0 [8, 10]) 2 ts = Some (overwrite buffer 0 ([8, 10] @ be_bytes 4 ts))"
    "put_u32 (overwrite buffer 0 ([8, 10] @ be_bytes 4 ts)) 6 te = Some (overwrite buffer 0 (option_octets opt))"
    unfolding put_u32_def OptTimeStamp option_octets.simps append_assoc [symmetric]
    by (rule put_behind; use fit in simp)+
  moreover have "length (overwrite buffer 0 (option_octets opt)) = length buffer"
    using fit length_option_octets [OF assms(1)] by (simp add: OptTimeStamp)
  ultimately show ?thesis
    using fit emit_option_head [of buffer 10 8] by (simp add: OptTimeStamp tcp_option_emit_def del: option_octets.simps)
qed (use assms in simp_all)

text \<open>An option in front of the buffer is read as it was written.\<close>

lemma get_at_front:
  "get_u16 (be_bytes 2 v @ xs) 0 = Some v" "get_u32 (be_bytes 4 w @ xs) 0 = Some w"
  "get_u32 (be_bytes 4 w' @ be_bytes 4 w @ xs) 4 = Some w"
  by (simp_all add: get_u16_def get_u32_def)

lemma get_u32_front: "n = length xs \<Longrightarrow> get_u32 (xs @ be_bytes 4 w @ ys) n = Some w"
  by (simp add: get_u32_def)

lemma parse_sack_ranges_octets:
  assumes "option_fits (OptSackRange s)"
  shows "parse_sack_ranges (concat (map range_octets s)) = Some s"
proof -
  have rng: "get_u32 (concat (map range_octets xs) @ be_bytes 4 a @ be_bytes 4 b @ ys) n = Some a \<and>
      get_u32 (concat (map range_octets xs) @ be_bytes 4 a @ be_bytes 4 b @ ys) (n + 4) = Some b"
    if "n = length (concat (map range_octets xs))" for n xs and a b :: u32 and ys
    using that get_u32_front [of n "concat (map range_octets xs)" a "be_bytes 4 b @ ys"]
      get_u32_front [of "n + 4" "concat (map range_octets xs) @ be_bytes 4 a" b ys] by simp
  consider a1 a2 where "s = [Some (a1, a2), None, None]" | a1 a2 b1 b2 where "s = [Some (a1, a2), Some (b1, b2), None]"
    | a1 a2 b1 b2 c1 c2 where "s = [Some (a1, a2), Some (b1, b2), Some (c1, c2)]"
    using assms by auto
  then show ?thesis
  proof cases
    case 1
    then show ?thesis
      using rng [of 0 "[]" a1 a2 "[]"] by (simp add: parse_sack_ranges_def parse_sack_range_def)
  next
    case 2
    then show ?thesis
      using rng [of 0 "[]" a1 a2 "be_bytes 4 b1 @ be_bytes 4 b2"] rng [of 8 "[Some (a1, a2)]" b1 b2 "[]"]
      by (simp add: parse_sack_ranges_def parse_sack_range_def)
  next
    case 3
    then show ?thesis
      using rng [of 0 "[]" a1 a2 "be_bytes 4 b1 @ be_bytes 4 b2 @ be_bytes 4 c1 @ be_bytes 4 c2"]
        rng [of 8 "[Some (a1, a2)]" b1 b2 "be_bytes 4 c1 @ be_bytes 4 c2"]
        rng [of 16 "[Some (a1, a2), Some (b1, b2)]" c1 c2 "[]"]
      by (simp add: parse_sack_ranges_def parse_sack_range_def)
  qed
qed

lemma parse_option_octets:
  assumes "option_fits opt"
  shows "tcp_option_parse (option_octets opt @ tail) = Some (Inr (tail, opt))"
proof (cases opt)
  case OptNoOperation
  then show ?thesis by (simp add: tcp_option_parse_def)
next
  case (OptMaxSegmentSize v)
  then show ?thesis
    using tcp_option_parse_long [of 2 4 "be_bytes 2 v @ tail" "be_bytes 2 v"] get_at_front(1) [of v "[]"]
    by (simp add: parse_option_data_def)
next
  case (OptWindowScale v)
  then show ?thesis
    using tcp_option_parse_long [of 3 3 "v # tail" "[v]"] by (simp add: parse_option_data_def get_u8_def)
next
  case OptSackPermitted
  then show ?thesis
    using tcp_option_parse_long [of 4 2 tail "[]"] by (simp add: parse_option_data_def)
next
  case (OptTimeStamp ts te)
  then show ?thesis
    using tcp_option_parse_long [of 8 10 "be_bytes 4 ts @ be_bytes 4 te @ tail" "be_bytes 4 ts @ be_bytes 4 te"]
      get_at_front(2) [of ts "be_bytes 4 te"] get_at_front(3) [of ts te "[]"]
    by (simp add: parse_option_data_def)
next
  case (OptSackRange s)
  let ?data = "concat (map range_octets s)" and ?l = "of_nat (option_buffer_len opt) :: u8"
  have l: "unat ?l = 2 + length ?data" "length ?data \<in> {8, 16, 24}"
    using assms OptSackRange by (auto simp: length_ranges)
  have "parse_option_data 5 (unat ?l) ?data = Some (Inr opt)"
    using parse_sack_ranges_octets [of s] assms OptSackRange l by (auto simp: parse_option_data_def)
  then show ?thesis
    using tcp_option_parse_long [of 5 ?l "?data @ tail" ?data "Inr opt"] l(1) OptSackRange by simp
qed (use assms in simp_all)

end
