(* ===== verification/Tcp_Wire.thy ===== *)
theory Tcp_Wire
  imports Tcp_Options
begin

text \<open>
  \<open>src/smoltcp/src/wire/tcp.rs\<close>: the accessors of a TCP packet buffer, and \<open>Repr::parse\<close> and
  \<open>Repr::emit\<close>. A packet is the list of octets of its buffer.
\<close>

unbundle bit_operations_syntax

section \<open>Reading fields\<close>

definition tcp_get_src_port :: "u8 list \<Rightarrow> u16 option" where "tcp_get_src_port data = get_u16 data 0"

definition tcp_get_dst_port :: "u8 list \<Rightarrow> u16 option" where "tcp_get_dst_port data = get_u16 data 2"

definition tcp_get_seq_number :: "u8 list \<Rightarrow> seq option" where "tcp_get_seq_number data = get_u32 data 4"

definition tcp_get_ack_number :: "u8 list \<Rightarrow> seq option" where "tcp_get_ack_number data = get_u32 data 8"

definition tcp_flag :: "u16 \<Rightarrow> u8 list \<Rightarrow> bool option" where
  "tcp_flag flag data = do { raw \<leftarrow> get_u16 data 12; Some (raw AND flag \<noteq> 0) }"

definition tcp_fin :: "u8 list \<Rightarrow> bool option" where "tcp_fin = tcp_flag 0x001"

definition tcp_syn :: "u8 list \<Rightarrow> bool option" where "tcp_syn = tcp_flag 0x002"

definition tcp_rst :: "u8 list \<Rightarrow> bool option" where "tcp_rst = tcp_flag 0x004"

definition tcp_psh :: "u8 list \<Rightarrow> bool option" where "tcp_psh = tcp_flag 0x008"

definition tcp_ack :: "u8 list \<Rightarrow> bool option" where "tcp_ack = tcp_flag 0x010"

definition tcp_urg :: "u8 list \<Rightarrow> bool option" where "tcp_urg = tcp_flag 0x020"

definition tcp_ece :: "u8 list \<Rightarrow> bool option" where "tcp_ece = tcp_flag 0x040"

definition tcp_cwr :: "u8 list \<Rightarrow> bool option" where "tcp_cwr = tcp_flag 0x080"

definition tcp_ns :: "u8 list \<Rightarrow> bool option" where "tcp_ns = tcp_flag 0x100"

definition tcp_get_header_len :: "u8 list \<Rightarrow> u8 option" where
  "tcp_get_header_len data = do { raw \<leftarrow> get_u16 data 12; Some (ucast (drop_bit 12 raw * 4)) }"

definition tcp_get_window_len :: "u8 list \<Rightarrow> u16 option" where "tcp_get_window_len data = get_u16 data 14"

definition tcp_get_checksum :: "u8 list \<Rightarrow> u16 option" where "tcp_get_checksum data = get_u16 data 16"

definition tcp_get_urgent_at :: "u8 list \<Rightarrow> u16 option" where "tcp_get_urgent_at data = get_u16 data 18"

definition tcp_packet_segment_len :: "u8 list \<Rightarrow> nat option" where
  "tcp_packet_segment_len data = do {
     hl \<leftarrow> tcp_get_header_len data;
     len \<leftarrow> usize_sub (length data) (unat hl);
     syn \<leftarrow> tcp_syn data;
     fin \<leftarrow> tcp_fin data;
     Some (len + (if syn then 1 else 0) + (if fin then 1 else 0)) }"

definition tcp_check_len :: "u8 list \<Rightarrow> (wire_error + unit) option" where
  "tcp_check_len data =
     (if length data < TCP_HEADER_LEN then Some (Inl WireError)
      else do {
        hl \<leftarrow> tcp_get_header_len data;
        if length data < unat hl \<or> unat hl < TCP_HEADER_LEN then Some (Inl WireError) else Some (Inr ()) })"

definition tcp_new_checked :: "u8 list \<Rightarrow> (wire_error + u8 list) option" where
  "tcp_new_checked data = do {
     res \<leftarrow> tcp_check_len data;
     case res of Inl e \<Rightarrow> Some (Inl e) | Inr _ \<Rightarrow> Some (Inr data) }"

definition tcp_get_options :: "u8 list \<Rightarrow> u8 list option" where
  "tcp_get_options data = do { hl \<leftarrow> tcp_get_header_len data; slice data 20 (unat hl) }"

definition tcp_get_payload :: "u8 list \<Rightarrow> u8 list option" where
  "tcp_get_payload data = do { hl \<leftarrow> tcp_get_header_len data; slice data (unat hl) (length data) }"

text \<open>The loops of \<open>selective_ack_permitted\<close> and \<open>selective_ack_ranges\<close>: the first option that \<open>f\<close> takes.\<close>

function find_option :: "(tcp_option \<Rightarrow> 'a option) \<Rightarrow> u8 list \<Rightarrow> (wire_error + 'a option) option" where
  "find_option f options =
     (if options = [] then Some (Inr None)
      else case tcp_option_parse options of
          None \<Rightarrow> None
        | Some (Inl e) \<Rightarrow> Some (Inl e)
        | Some (Inr (rest, opt)) \<Rightarrow>
            (case f opt of Some v \<Rightarrow> Some (Inr (Some v)) | None \<Rightarrow> find_option f rest))"
  by pat_completeness auto
termination
  by (relation "measure (length \<circ> snd)") (auto dest: tcp_option_parse_shorter)

declare find_option.simps [simp del]

definition selective_ack_permitted :: "u8 list \<Rightarrow> (wire_error + bool) option" where
  "selective_ack_permitted data = do {
     options \<leftarrow> tcp_get_options data;
     res \<leftarrow> find_option (\<lambda>opt. if opt = OptSackPermitted then Some () else None) options;
     Some (map_sum id (\<lambda>v. v \<noteq> None) res) }"

definition selective_ack_ranges :: "u8 list \<Rightarrow> (wire_error + sack_range list) option" where
  "selective_ack_ranges data = do {
     options \<leftarrow> tcp_get_options data;
     res \<leftarrow> find_option (\<lambda>opt. case opt of OptSackRange s \<Rightarrow> Some s | _ \<Rightarrow> None) options;
     Some (map_sum id (\<lambda>v. case v of Some s \<Rightarrow> s | None \<Rightarrow> [None, None, None]) res) }"

definition tcp_verify_partial_checksum :: "ip_address \<Rightarrow> ip_address \<Rightarrow> u8 list \<Rightarrow> bool option" where
  "tcp_verify_partial_checksum src_addr dst_addr data = do {
     header \<leftarrow> pseudo_header src_addr dst_addr ProtoTcp (of_nat (length data));
     ck \<leftarrow> tcp_get_checksum data;
     Some (header = ck) }"

definition tcp_verify_checksum :: "ip_address \<Rightarrow> ip_address \<Rightarrow> u8 list \<Rightarrow> bool option" where
  "tcp_verify_checksum src_addr dst_addr data = do {
     header \<leftarrow> pseudo_header src_addr dst_addr ProtoTcp (of_nat (length data));
     Some (checksum_combine [header, checksum_data data] = 0xffff) }"

section \<open>Writing fields\<close>

definition tcp_set_src_port :: "u16 \<Rightarrow> u8 list \<Rightarrow> u8 list option" where
  "tcp_set_src_port v data = put_u16 data 0 v"

definition tcp_set_dst_port :: "u16 \<Rightarrow> u8 list \<Rightarrow> u8 list option" where
  "tcp_set_dst_port v data = put_u16 data 2 v"

definition tcp_set_seq_number :: "seq \<Rightarrow> u8 list \<Rightarrow> u8 list option" where
  "tcp_set_seq_number v data = put_u32 data 4 v"

definition tcp_set_ack_number :: "seq \<Rightarrow> u8 list \<Rightarrow> u8 list option" where
  "tcp_set_ack_number v data = put_u32 data 8 v"

definition tcp_clear_flags :: "u8 list \<Rightarrow> u8 list option" where
  "tcp_clear_flags data = do {
     raw \<leftarrow> get_u16 data 12;
     put_u16 data 12 (raw AND NOT 0x0fff) }"

definition tcp_set_flag :: "u16 \<Rightarrow> bool \<Rightarrow> u8 list \<Rightarrow> u8 list option" where
  "tcp_set_flag flag v data = do {
     raw \<leftarrow> get_u16 data 12;
     put_u16 data 12 (if v then raw OR flag else raw AND NOT flag) }"

definition tcp_set_fin :: "bool \<Rightarrow> u8 list \<Rightarrow> u8 list option" where "tcp_set_fin = tcp_set_flag 0x001"

definition tcp_set_syn :: "bool \<Rightarrow> u8 list \<Rightarrow> u8 list option" where "tcp_set_syn = tcp_set_flag 0x002"

definition tcp_set_rst :: "bool \<Rightarrow> u8 list \<Rightarrow> u8 list option" where "tcp_set_rst = tcp_set_flag 0x004"

definition tcp_set_psh :: "bool \<Rightarrow> u8 list \<Rightarrow> u8 list option" where "tcp_set_psh = tcp_set_flag 0x008"

definition tcp_set_ack :: "bool \<Rightarrow> u8 list \<Rightarrow> u8 list option" where "tcp_set_ack = tcp_set_flag 0x010"

definition tcp_set_urg :: "bool \<Rightarrow> u8 list \<Rightarrow> u8 list option" where "tcp_set_urg = tcp_set_flag 0x020"

definition tcp_set_ece :: "bool \<Rightarrow> u8 list \<Rightarrow> u8 list option" where "tcp_set_ece = tcp_set_flag 0x040"

definition tcp_set_cwr :: "bool \<Rightarrow> u8 list \<Rightarrow> u8 list option" where "tcp_set_cwr = tcp_set_flag 0x080"

definition tcp_set_ns :: "bool \<Rightarrow> u8 list \<Rightarrow> u8 list option" where "tcp_set_ns = tcp_set_flag 0x100"

definition tcp_set_header_len :: "u8 \<Rightarrow> u8 list \<Rightarrow> u8 list option" where
  "tcp_set_header_len v data = do {
     raw \<leftarrow> get_u16 data 12;
     put_u16 data 12 ((raw AND NOT 0xf000) OR push_bit 12 (ucast v div 4)) }"

definition tcp_set_window_len :: "u16 \<Rightarrow> u8 list \<Rightarrow> u8 list option" where
  "tcp_set_window_len v data = put_u16 data 14 v"

definition tcp_set_checksum :: "u16 \<Rightarrow> u8 list \<Rightarrow> u8 list option" where
  "tcp_set_checksum v data = put_u16 data 16 v"

definition tcp_set_urgent_at :: "u16 \<Rightarrow> u8 list \<Rightarrow> u8 list option" where
  "tcp_set_urgent_at v data = put_u16 data 18 v"

definition tcp_fill_checksum :: "ip_address \<Rightarrow> ip_address \<Rightarrow> u8 list \<Rightarrow> u8 list option" where
  "tcp_fill_checksum src_addr dst_addr data = do {
     data \<leftarrow> tcp_set_checksum 0 data;
     header \<leftarrow> pseudo_header src_addr dst_addr ProtoTcp (of_nat (length data));
     tcp_set_checksum (NOT (checksum_combine [header, checksum_data data])) data }"

section \<open>Representation\<close>

text \<open>\<open>match (packet.syn(), packet.fin(), packet.rst(), packet.psh())\<close>.\<close>

fun control_of_flags :: "bool \<Rightarrow> bool \<Rightarrow> bool \<Rightarrow> bool \<Rightarrow> wire_error + tcp_control" where
  "control_of_flags False False False False = Inr CtlNone"
| "control_of_flags False False False True = Inr CtlPsh"
| "control_of_flags True False False _ = Inr CtlSyn"
| "control_of_flags False True False _ = Inr CtlFin"
| "control_of_flags False False True _ = Inr CtlRst"
| "control_of_flags _ _ _ _ = Inl WireError"

text \<open>The representation, once the checks have passed and the options are parsed.\<close>

definition tcp_build_repr :: "tcp_control \<Rightarrow> tcp_options \<Rightarrow> u8 list \<Rightarrow> tcp_repr option" where
  "tcp_build_repr ctl opts data = do {
     src \<leftarrow> tcp_get_src_port data;
     dst \<leftarrow> tcp_get_dst_port data;
     sq \<leftarrow> tcp_get_seq_number data;
     has_ack \<leftarrow> tcp_ack data;
     ackn \<leftarrow> tcp_get_ack_number data;
     win \<leftarrow> tcp_get_window_len data;
     pl \<leftarrow> tcp_get_payload data;
     Some \<lparr>src_port = src, dst_port = dst, control = ctl, seq_number = sq,
       ack_number = (if has_ack then Some ackn else None), window_len = win,
       window_scale = o_window_scale opts, max_seg_size = o_max_seg_size opts,
       sack_permitted = o_sack_permitted opts, sack_ranges = o_sack_ranges opts,
       timestamp = o_timestamp opts, payload = pl\<rparr> }"

definition tcp_parse_body :: "u8 list \<Rightarrow> (wire_error + tcp_repr) option" where
  "tcp_parse_body data = do {
     syn \<leftarrow> tcp_syn data;
     fin \<leftarrow> tcp_fin data;
     rst \<leftarrow> tcp_rst data;
     psh \<leftarrow> tcp_psh data;
     case control_of_flags syn fin rst psh of
       Inl e \<Rightarrow> Some (Inl e)
     | Inr ctl \<Rightarrow> do {
         options \<leftarrow> tcp_get_options data;
         res \<leftarrow> parse_options options no_options;
         case res of
           Inl e \<Rightarrow> Some (Inl e)
         | Inr opts \<Rightarrow> do { r \<leftarrow> tcp_build_repr ctl opts data; Some (Inr r) } } }"

definition tcp_parse ::
  "ip_address \<Rightarrow> ip_address \<Rightarrow> checksum_capabilities \<Rightarrow> u8 list \<Rightarrow> (wire_error + tcp_repr) option" where
  "tcp_parse src_addr dst_addr caps data = do {
     res \<leftarrow> tcp_check_len data;
     case res of
       Inl e \<Rightarrow> Some (Inl e)
     | Inr _ \<Rightarrow> do {
         src \<leftarrow> tcp_get_src_port data;
         dst \<leftarrow> tcp_get_dst_port data;
         if src = 0 \<or> dst = 0 then Some (Inl WireError)
         else do {
           valid \<leftarrow> (if checksum_rx (caps_tcp caps) then tcp_verify_checksum src_addr dst_addr data else Some True);
           if \<not> valid then Some (Inl WireError) else tcp_parse_body data } } }"

text \<open>\<open>options = option.emit(options)\<close>: emit an option at the position reached, and move on.\<close>

definition emit_option_at :: "tcp_option \<Rightarrow> u8 list \<times> nat \<Rightarrow> (u8 list \<times> nat) option" where
  "emit_option_at opt st = do {
     (rest, n) \<leftarrow> tcp_option_emit opt (drop (snd st) (fst st));
     Some (take (snd st) (fst st) @ rest, snd st + n) }"

definition emit_options :: "tcp_repr \<Rightarrow> u8 list \<Rightarrow> u8 list option" where
  "emit_options r options = do {
     st \<leftarrow> (case max_seg_size r of Some v \<Rightarrow> emit_option_at (OptMaxSegmentSize v) (options, 0) | None \<Rightarrow> Some (options, 0));
     st \<leftarrow> (case window_scale r of Some v \<Rightarrow> emit_option_at (OptWindowScale v) st | None \<Rightarrow> Some st);
     st \<leftarrow> (if sack_permitted r then emit_option_at OptSackPermitted st
           else if ack_number r \<noteq> None \<and> (\<exists>s \<in> set (sack_ranges r). s \<noteq> None)
           then emit_option_at (OptSackRange (sack_ranges r)) st
           else Some st);
     st \<leftarrow> (case timestamp r of Some t \<Rightarrow> emit_option_at (OptTimeStamp (tsval t) (tsecr t)) st | None \<Rightarrow> Some st);
     if snd st < length (fst st) then map_option fst (emit_option_at OptEndOfList st) else Some (fst st) }"

fun tcp_set_control :: "tcp_control \<Rightarrow> u8 list \<Rightarrow> u8 list option" where
  "tcp_set_control CtlNone data = Some data"
| "tcp_set_control CtlPsh data = tcp_set_psh True data"
| "tcp_set_control CtlSyn data = tcp_set_syn True data"
| "tcp_set_control CtlFin data = tcp_set_fin True data"
| "tcp_set_control CtlRst data = tcp_set_rst True data"

text \<open>The fixed part of the header.\<close>

definition tcp_emit_header :: "tcp_repr \<Rightarrow> u8 list \<Rightarrow> u8 list option" where
  "tcp_emit_header r data = do {
     data \<leftarrow> tcp_set_src_port (src_port r) data;
     data \<leftarrow> tcp_set_dst_port (dst_port r) data;
     data \<leftarrow> tcp_set_seq_number (seq_number r) data;
     data \<leftarrow> tcp_set_ack_number (case ack_number r of Some a \<Rightarrow> a | None \<Rightarrow> 0) data;
     data \<leftarrow> tcp_set_window_len (window_len r) data;
     data \<leftarrow> tcp_set_header_len (of_nat (tcp_header_len r)) data;
     data \<leftarrow> tcp_clear_flags data;
     data \<leftarrow> tcp_set_control (control r) data;
     tcp_set_ack (ack_number r \<noteq> None) data }"

definition tcp_emit ::
  "tcp_repr \<Rightarrow> ip_address \<Rightarrow> ip_address \<Rightarrow> checksum_capabilities \<Rightarrow> u8 list \<Rightarrow> u8 list option" where
  "tcp_emit r src_addr dst_addr caps data = do {
     data \<leftarrow> tcp_emit_header r data;
     options \<leftarrow> tcp_get_options data;
     options \<leftarrow> emit_options r options;
     let data = overwrite data 20 options;
     data \<leftarrow> tcp_set_urgent_at 0 data;
     hl \<leftarrow> tcp_get_header_len data;
     rest \<leftarrow> slice data (unat hl) (length data);
     part \<leftarrow> slice rest 0 (length (payload r));
     let data = overwrite data (unat hl) (payload r);
     if checksum_tx (caps_tcp caps) then tcp_fill_checksum src_addr dst_addr data
     else tcp_set_checksum 0 data }"

lemmas tcp_getters = tcp_get_src_port_def tcp_get_dst_port_def tcp_get_seq_number_def tcp_get_ack_number_def
  tcp_get_window_len_def tcp_get_checksum_def tcp_get_urgent_at_def
lemmas tcp_flag_getters = tcp_fin_def tcp_syn_def tcp_rst_def tcp_psh_def tcp_ack_def tcp_flag_def
lemmas tcp_setters = tcp_set_src_port_def tcp_set_dst_port_def tcp_set_seq_number_def tcp_set_ack_number_def
  tcp_set_window_len_def tcp_set_checksum_def tcp_set_urgent_at_def

section \<open>Parsing is total\<close>

lemma tcp_check_len_ok:
  "tcp_check_len data = Some (Inr ()) \<longleftrightarrow>
     20 \<le> length data \<and> (\<exists>hl. tcp_get_header_len data = Some hl \<and> 20 \<le> unat hl \<and> unat hl \<le> length data)"
  by (auto simp: tcp_check_len_def TCP_HEADER_LEN_def tcp_get_header_len_def get_u16_at)

lemma tcp_check_len_total:
  obtains (err) e where "tcp_check_len data = Some (Inl e)" | (ok) "tcp_check_len data = Some (Inr ())"
proof -
  have "tcp_check_len data \<in> {Some (Inl WireError), Some (Inr ())}"
    by (cases "length data < 20") (auto simp: tcp_check_len_def TCP_HEADER_LEN_def tcp_get_header_len_def get_u16_at)
  then show thesis using that by blast
qed

lemma tcp_parse_body_total:
  assumes "tcp_check_len data = Some (Inr ())"
  shows "\<exists>res. tcp_parse_body data = Some res"
proof -
  obtain hl where hl: "20 \<le> length data" "tcp_get_header_len data = Some hl" "20 \<le> unat hl" "unat hl \<le> length data"
    using assms by (auto simp: tcp_check_len_ok)
  define raw where "raw = (of_be (take 2 (drop 12 data)) :: u16)"
  define ctl where "ctl = control_of_flags (raw AND 0x002 \<noteq> 0) (raw AND 0x001 \<noteq> 0) (raw AND 0x004 \<noteq> 0) (raw AND 0x008 \<noteq> 0)"
  define options where "options = take (unat hl - 20) (drop 20 data)"
  have g: "get_u16 data 12 = Some raw" using hl(1) by (simp add: raw_def get_u16_at)
  have o: "tcp_get_options data = Some options" using hl by (simp add: tcp_get_options_def options_def)
  obtain res where res: "parse_options options no_options = Some res" using parse_options_total by blast
  have "\<exists>r. tcp_build_repr c opts data = Some r" for c opts
    using hl g by (simp add: tcp_build_repr_def tcp_getters tcp_ack_def tcp_flag_def tcp_get_payload_def get_u16_at get_u32_at)
  then have "\<exists>r. (case res of Inl e \<Rightarrow> Some (Inl e) | Inr opts \<Rightarrow> tcp_build_repr c opts data \<bind> (\<lambda>r. Some (Inr r))) = Some r" for c
    by (cases res) (auto, metis bind.bind_lunit)
  then show ?thesis
    using o res unfolding tcp_parse_body_def tcp_flag_getters g
    by (cases ctl) (simp_all add: ctl_def)
qed

lemma tcp_verify_checksum_eq:
  "tcp_verify_checksum src dst data = map_option (\<lambda>c. c = 0xffff) (checksum_of src dst ProtoTcp data)"
  by (cases "pseudo_header src dst ProtoTcp (of_nat (length data))") (simp_all add: tcp_verify_checksum_def checksum_of_def)

lemma tcp_parse_total:
  assumes "same_version src dst"
  shows "\<exists>res. tcp_parse src dst caps data = Some res"
proof (cases rule: tcp_check_len_total [of data])
  case err
  then show ?thesis by (simp add: tcp_parse_def)
next
  case ok
  then have "20 \<le> length data" by (simp add: tcp_check_len_ok)
  moreover obtain c where "checksum_of src dst ProtoTcp data = Some c" using checksum_of_Some [OF assms] .
  moreover obtain res where "tcp_parse_body data = Some res" using tcp_parse_body_total [OF ok] by blast
  ultimately show ?thesis
    using ok by (simp add: tcp_parse_def tcp_getters get_u16_at tcp_verify_checksum_eq)
qed

section \<open>The header\<close>

fun control_bits :: "tcp_control \<Rightarrow> u16" where
  "control_bits CtlNone = 0"
| "control_bits CtlPsh = 0x008"
| "control_bits CtlSyn = 0x002"
| "control_bits CtlFin = 0x001"
| "control_bits CtlRst = 0x004"

definition flags_word :: "nat \<Rightarrow> tcp_control \<Rightarrow> bool \<Rightarrow> u16" where
  "flags_word hl ctl ack = push_bit 12 (of_nat (hl div 4)) OR control_bits ctl OR (if ack then 0x010 else 0)"

lemma and_flag: "(w :: u16) AND 2 ^ n \<noteq> 0 \<longleftrightarrow> bit w n"
  by (simp add: and_exp_eq_0_iff_not_bit)

lemma and_flags:
  "(w :: u16) AND 0x001 \<noteq> 0 \<longleftrightarrow> bit w 0" "w AND 0x002 \<noteq> 0 \<longleftrightarrow> bit w 1" "w AND 0x004 \<noteq> 0 \<longleftrightarrow> bit w 2"
  "w AND 0x008 \<noteq> 0 \<longleftrightarrow> bit w 3" "w AND 0x010 \<noteq> 0 \<longleftrightarrow> bit w 4"
  using and_flag [of w 0] and_flag [of w 1] and_flag [of w 2] and_flag [of w 3] and_flag [of w 4] by simp_all

lemma flags_word_bits:
  "bit (flags_word hl ctl ack) 0 \<longleftrightarrow> ctl = CtlFin" "bit (flags_word hl ctl ack) 1 \<longleftrightarrow> ctl = CtlSyn"
  "bit (flags_word hl ctl ack) 2 \<longleftrightarrow> ctl = CtlRst" "bit (flags_word hl ctl ack) 3 \<longleftrightarrow> ctl = CtlPsh"
  "bit (flags_word hl ctl ack) 4 \<longleftrightarrow> ack"
  by (cases ctl; simp add: flags_word_def bit_simps)+

lemma flags_word_header_len:
  assumes "hl mod 4 = 0" and "hl \<le> 60"
  shows "unat (ucast (drop_bit 12 (flags_word hl ctl ack) * 4) :: u8) = hl"
proof -
  have "hl = 4 * (hl div 4)" "hl div 4 < 16" using assms by auto
  then obtain k where k: "hl = 4 * k" "k < 16" by blast
  have "drop_bit 12 (flags_word hl ctl ack) = drop_bit 12 (push_bit 12 (of_nat k))"
    using k(1) by (cases ctl; cases ack) (simp_all add: flags_word_def drop_bit_or)
  moreover have "k \<in> {0, 1, 2, 3, 4, 5, 6, 7, 8, 9, 10, 11, 12, 13, 14, 15}" using k(2) by (simp, arith)
  ultimately show ?thesis using k(1) by (elim insertE) simp_all
qed

text \<open>The word of flags after the header length was set, the flags cleared and set again.\<close>

lemma header_len_then_clear:
  "((raw AND NOT 0xf000) OR push_bit 12 x) AND NOT 0x0fff = push_bit 12 (x :: u16)"
proof (rule bit_word_eqI)
  fix n
  assume n: "n < LENGTH(16)"
  have f: "bit (0x0fff :: u16) n \<longleftrightarrow> n < 12" using bit_mask_iff [of 12 n, where ?'a = u16] n by (simp add: mask_eq_exp_minus_1)
  have "bit (0xf000 :: u16) n \<longleftrightarrow> bit (push_bit 12 (mask 4) :: u16) n" by (simp add: mask_eq_exp_minus_1)
  also have "\<dots> \<longleftrightarrow> 12 \<le> n" using n by (auto simp: bit_push_bit_iff bit_mask_iff)
  finally have g: "bit (0xf000 :: u16) n \<longleftrightarrow> 12 \<le> n" .
  show "bit (((raw AND NOT 0xf000) OR push_bit 12 x) AND NOT 0x0fff) n \<longleftrightarrow> bit (push_bit 12 x) n"
    using n unfolding bit_and_iff bit_or_iff bit_not_iff bit_push_bit_iff f g by auto
qed

lemma clear_ack:
  "(push_bit 12 x OR control_bits ctl) AND NOT 0x010 = push_bit 12 (x :: u16) OR control_bits ctl"
proof (rule bit_word_eqI)
  fix n
  assume n: "n < LENGTH(16)"
  have f: "bit (0x010 :: u16) n \<longleftrightarrow> n = 4" using bit_exp_iff [of 4 n, where ?'a = u16] by auto
  have "\<not> bit (push_bit 12 x OR control_bits ctl) 4" by (cases ctl) (simp_all add: bit_simps)
  with f n show "bit ((push_bit 12 x OR control_bits ctl) AND NOT 0x010) n \<longleftrightarrow> bit (push_bit 12 x OR control_bits ctl) n"
    unfolding bit_and_iff bit_not_iff f by auto
qed

lemma set_flag_word:
  "14 \<le> length data \<Longrightarrow> tcp_set_flag f v (overwrite data 12 (be_bytes 2 w)) =
     Some (overwrite data 12 (be_bytes 2 (if v then w OR f else w AND NOT f)))"
  by (simp add: tcp_set_flag_def wire_simps put_at)

lemma set_control_word:
  "14 \<le> length data \<Longrightarrow> tcp_set_control ctl (overwrite data 12 (be_bytes 2 w)) =
     Some (overwrite data 12 (be_bytes 2 (w OR control_bits ctl)))"
  by (cases ctl) (simp_all add: set_flag_word tcp_set_fin_def tcp_set_syn_def tcp_set_rst_def tcp_set_psh_def)

definition header_octets :: "tcp_repr \<Rightarrow> u8 list \<Rightarrow> u8 list" where
  "header_octets r data = overwrite (overwrite (overwrite (overwrite (overwrite (overwrite data
     0 (be_bytes 2 (src_port r))) 2 (be_bytes 2 (dst_port r))) 4 (be_bytes 4 (seq_number r)))
     8 (be_bytes 4 (case ack_number r of Some a \<Rightarrow> a | None \<Rightarrow> 0))) 14 (be_bytes 2 (window_len r)))
     12 (be_bytes 2 (flags_word (tcp_header_len r) (control r) (ack_number r \<noteq> None)))"

lemma tcp_emit_header_octets:
  assumes len: "20 \<le> length data" and hl: "tcp_header_len r \<le> 60"
  shows "tcp_emit_header r data = Some (header_octets r data)"
proof -
  define b where "b = overwrite (overwrite (overwrite (overwrite (overwrite data
     0 (be_bytes 2 (src_port r))) 2 (be_bytes 2 (dst_port r))) 4 (be_bytes 4 (seq_number r)))
     8 (be_bytes 4 (case ack_number r of Some a \<Rightarrow> a | None \<Rightarrow> 0))) 14 (be_bytes 2 (window_len r))"
  have lb: "14 \<le> length b" using len by (simp add: b_def)
  define x :: u16 where "x = ucast (of_nat (tcp_header_len r) :: u8) div 4"
  have "unat x = tcp_header_len r div 4"
    using hl by (simp add: x_def unat_div_distrib unsigned_ucast_eq unat_of_nat take_bit_eq_mod)
  then have x: "x = of_nat (tcp_header_len r div 4)" by (metis unsigned_of_nat word_of_nat_eq_iff of_nat_unat ucast_id)
  have "tcp_set_header_len (of_nat (tcp_header_len r)) b = Some (overwrite b 12 (be_bytes 2
      ((of_be (take 2 (drop 12 b)) AND NOT 0xf000) OR push_bit 12 x)))"
    using lb by (simp add: tcp_set_header_len_def get_u16_at put_at x_def)
  moreover have "tcp_clear_flags (overwrite b 12 (be_bytes 2 ((raw AND NOT 0xf000) OR push_bit 12 x)))
      = Some (overwrite b 12 (be_bytes 2 (push_bit 12 x)))" for raw
    using lb by (simp add: tcp_clear_flags_def wire_simps put_at header_len_then_clear [simplified])
  moreover have "tcp_set_ack (ack_number r \<noteq> None) (overwrite b 12 (be_bytes 2 (push_bit 12 x OR control_bits (control r))))
      = Some (overwrite b 12 (be_bytes 2 (flags_word (tcp_header_len r) (control r) (ack_number r \<noteq> None))))"
    using lb unfolding tcp_set_ack_def by (simp add: set_flag_word clear_ack [simplified] flags_word_def x or.assoc)
  ultimately show ?thesis
    using len lb by (simp add: tcp_emit_header_def tcp_setters put_at set_control_word header_octets_def flip: b_def)
qed

section \<open>The options\<close>

definition repr_options :: "tcp_repr \<Rightarrow> tcp_option list" where
  "repr_options r =
     (case max_seg_size r of Some v \<Rightarrow> [OptMaxSegmentSize v] | None \<Rightarrow> []) @
     (case window_scale r of Some v \<Rightarrow> [OptWindowScale v] | None \<Rightarrow> []) @
     (if sack_permitted r then [OptSackPermitted]
      else if ack_number r \<noteq> None \<and> (\<exists>s \<in> set (sack_ranges r). s \<noteq> None) then [OptSackRange (sack_ranges r)] else []) @
     (case timestamp r of Some t \<Rightarrow> [OptTimeStamp (tsval t) (tsecr t)] | None \<Rightarrow> [])"

abbreviation options_octets :: "tcp_option list \<Rightarrow> u8 list" where
  "options_octets opts \<equiv> concat (map option_octets opts)"

text \<open>After the options \<open>opts\<close>: their octets, and the rest of the buffer untouched.\<close>

definition emitted_state :: "u8 list \<Rightarrow> tcp_option list \<Rightarrow> u8 list \<times> nat" where
  "emitted_state buf opts = (overwrite buf 0 (options_octets opts), length (options_octets opts))"

lemma emit_option_at_state:
  assumes "option_fits opt" and "length (options_octets (opts @ [opt])) \<le> length buf"
  shows "emit_option_at opt (emitted_state buf opts) = Some (emitted_state buf (opts @ [opt]))"
proof -
  let ?e = "options_octets opts" and ?n = "option_buffer_len opt"
  have len: "length ?e + ?n \<le> length buf" "length (option_octets opt) = ?n"
    using assms length_option_octets [OF assms(1)] by simp_all
  have d: "drop (length ?e) (overwrite buf 0 ?e) = drop (length ?e) buf" "take (length ?e) (overwrite buf 0 ?e) = ?e"
    by (simp_all add: overwrite_front)
  have "?n \<le> length (drop (length ?e) buf)" using len by simp
  from tcp_option_emit_octets [OF assms(1) this] d len show ?thesis
    by (simp add: emit_option_at_def emitted_state_def overwrite_front add.commute)
qed

lemma emit_options_octets:
  assumes fits: "\<forall>opt \<in> set (repr_options r). option_fits opt"
    and len: "length (options_octets (repr_options r)) \<le> length buf"
  shows "emit_options r buf = Some (options_octets (repr_options r) @
    replicate (length buf - length (options_octets (repr_options r))) 0)"
proof -
  define o1 where "o1 = (case max_seg_size r of Some v \<Rightarrow> [OptMaxSegmentSize v] | None \<Rightarrow> [])"
  define o2 where "o2 = (case window_scale r of Some v \<Rightarrow> [OptWindowScale v] | None \<Rightarrow> [])"
  define has where "has \<longleftrightarrow> ack_number r \<noteq> None \<and> (\<exists>s \<in> set (sack_ranges r). s \<noteq> None)"
  define o3 where "o3 = (if sack_permitted r then [OptSackPermitted]
      else if has then [OptSackRange (sack_ranges r)] else [])"
  define o4 where "o4 = (case timestamp r of Some t \<Rightarrow> [OptTimeStamp (tsval t) (tsecr t)] | None \<Rightarrow> [])"
  have all: "repr_options r = o1 @ o2 @ o3 @ o4" by (simp only: repr_options_def o1_def o2_def o3_def o4_def has_def)
  have fit: "option_fits opt" if "opt \<in> set (o1 @ o2 @ o3 @ o4)" for opt using fits that by (simp add: all)
  have l: "length (options_octets o1) + length (options_octets o2) + length (options_octets o3)
      + length (options_octets o4) \<le> length buf"
    using len by (simp add: all)
  have s0: "(buf, 0) = emitted_state buf []" by (simp add: emitted_state_def)
  have s1: "(case max_seg_size r of Some v \<Rightarrow> emit_option_at (OptMaxSegmentSize v) (buf, 0) | None \<Rightarrow> Some (buf, 0))
      = Some (emitted_state buf o1)"
    using emit_option_at_state [of _ "[]" buf] fit l unfolding s0 by (auto simp: o1_def split: option.splits)
  have s2: "(case window_scale r of Some v \<Rightarrow> emit_option_at (OptWindowScale v) (emitted_state buf o1) | None \<Rightarrow> Some (emitted_state buf o1))
      = Some (emitted_state buf (o1 @ o2))"
    using emit_option_at_state [of _ o1 buf] fit l by (auto simp: o2_def split: option.splits)
  have s3: "(if sack_permitted r then emit_option_at OptSackPermitted (emitted_state buf (o1 @ o2))
           else if has then emit_option_at (OptSackRange (sack_ranges r)) (emitted_state buf (o1 @ o2))
           else Some (emitted_state buf (o1 @ o2))) = Some (emitted_state buf (o1 @ o2 @ o3))"
    using emit_option_at_state [of _ "o1 @ o2" buf] fit l 
    by (cases "sack_permitted r"; cases has) (auto simp: o3_def simp del: option_fits.simps option_octets.simps)
  have s4: "(case timestamp r of Some t \<Rightarrow> emit_option_at (OptTimeStamp (tsval t) (tsecr t)) (emitted_state buf (o1 @ o2 @ o3))
      | None \<Rightarrow> Some (emitted_state buf (o1 @ o2 @ o3))) = Some (emitted_state buf (repr_options r))"
    using emit_option_at_state [of _ "o1 @ o2 @ o3" buf] fit l by (auto simp: all o4_def split: option.splits)
  let ?e = "options_octets (repr_options r)"
  have "emit_options r buf = (if length ?e < length (overwrite buf 0 ?e)
      then map_option fst (emit_option_at OptEndOfList (emitted_state buf (repr_options r))) else Some (overwrite buf 0 ?e))"
    unfolding emit_options_def has_def [symmetric] s1 bind.bind_lunit s2 s3 s4 by (simp add: emitted_state_def)
  also have "\<dots> = Some (?e @ replicate (length buf - length ?e) 0)"
    using len by (auto simp: emit_option_at_def emitted_state_def tcp_option_emit_def overwrite_front)
  finally show ?thesis .
qed

lemma parse_options_octets:
  assumes "\<forall>opt \<in> set opts. option_fits opt"
  shows "parse_options (options_octets opts @ replicate k 0) st = Some (Inr (fold apply_option opts st))"
  using assms
proof (induction opts arbitrary: st)
  case Nil
  show ?case by (cases k) (simp_all add: parse_options.simps tcp_option_parse_def)
next
  case (Cons opt opts)
  have "option_octets opt \<noteq> []" "opt \<noteq> OptEndOfList" using Cons.prems by (cases opt; simp)+
  then show ?case
    using Cons parse_option_octets [of opt "options_octets opts @ replicate k 0"] by (subst parse_options.simps) simp
qed

section \<open>TCP as a wire format\<close>

definition tcp_fits :: "tcp_repr \<Rightarrow> bool" where
  "tcp_fits r \<longleftrightarrow> src_port r \<noteq> 0 \<and> dst_port r \<noteq> 0 \<and> (\<forall>sc. window_scale r = Some sc \<longrightarrow> sc \<le> 14) \<and>
     (sack_ranges r = [None, None, None] \<or>
      option_fits (OptSackRange (sack_ranges r)) \<and> ack_number r \<noteq> None \<and> \<not> sack_permitted r) \<and>
     tcp_header_len r \<le> 60 \<and> tcp_buffer_len r \<le> 65535"

lemma if_add_same: "(if b then x + y else x) = x + (if b then y else (0 :: nat))"
  by simp

lemma tcp_header_len_props:
  "tcp_header_len r mod 4 = 0" "20 \<le> tcp_header_len r"
  "TCP_HEADER_LEN + (if max_seg_size r \<noteq> None then 4 else 0) + (if window_scale r \<noteq> None then 3 else 0) +
     (if sack_permitted r then 2 else 0) + (if timestamp r \<noteq> None then 10 else 0) +
     (if 0 < sack_range_len r then sack_range_len r + 2 else 0) \<le> tcp_header_len r"
proof -
  define n where "n = TCP_HEADER_LEN + (if max_seg_size r \<noteq> None then 4 else 0) + (if window_scale r \<noteq> None then 3 else 0) +
     (if sack_permitted r then 2 else 0) + (if timestamp r \<noteq> None then 10 else 0) +
     (if 0 < sack_range_len r then sack_range_len r + 2 else 0)"
  have e: "tcp_header_len r = (if n mod 4 \<noteq> 0 then n + (4 - n mod 4) else n)"
    unfolding tcp_header_len_def n_def Let_def by (simp only: if_add_same)
  show "tcp_header_len r mod 4 = 0" unfolding e by (auto, presburger)
  have "20 \<le> n" by (simp add: n_def TCP_HEADER_LEN_def)
  then show "20 \<le> tcp_header_len r" unfolding e by auto
  show "TCP_HEADER_LEN + (if max_seg_size r \<noteq> None then 4 else 0) + (if window_scale r \<noteq> None then 3 else 0) +
     (if sack_permitted r then 2 else 0) + (if timestamp r \<noteq> None then 10 else 0) +
     (if 0 < sack_range_len r then sack_range_len r + 2 else 0) \<le> tcp_header_len r"
    unfolding e n_def [symmetric] by auto
qed

lemma sack_range_len_octets: "length (concat (map range_octets (sack_ranges r))) = sack_range_len r"
proof -
  have "length (concat (map range_octets s)) = sum_list (map (\<lambda>r. if r = None then 0 else 8) s)" for s
  proof (induction s)
    case (Cons r s)
    then show ?case by (cases r rule: range_octets.cases) simp_all
  qed simp
  then show ?thesis by (simp add: sack_range_len_def)
qed

lemma sum_within:
  "c \<le> e + f \<Longrightarrow> 20 + a + b + e + d + f \<le> h \<Longrightarrow> 20 + (a + (b + (c + d))) \<le> (h :: nat)"
  by simp

lemma repr_options_fit:
  assumes "tcp_fits r"
  shows "\<forall>opt \<in> set (repr_options r). option_fits opt"
    and "20 + length (options_octets (repr_options r)) \<le> tcp_header_len r"
    and "fold apply_option (repr_options r) no_options = \<lparr>o_max_seg_size = max_seg_size r, o_window_scale = window_scale r,
      o_sack_permitted = sack_permitted r, o_sack_ranges = sack_ranges r, o_timestamp = timestamp r\<rparr>"
proof -
  have sack: "sack_ranges r = [None, None, None] \<and> sack_range_len r = 0 \<or>
      option_fits (OptSackRange (sack_ranges r)) \<and> ack_number r \<noteq> None \<and> \<not> sack_permitted r \<and>
      (\<exists>s \<in> set (sack_ranges r). s \<noteq> None) \<and> 0 < sack_range_len r"
    using assms by (auto simp: tcp_fits_def sack_range_len_def)
  show "\<forall>opt \<in> set (repr_options r). option_fits opt"
    using sack by (auto simp: repr_options_def split: option.splits)
  have l1: "length (options_octets (case max_seg_size r of Some v \<Rightarrow> [OptMaxSegmentSize v] | None \<Rightarrow> []))
      = (if max_seg_size r \<noteq> None then 4 else 0)"
    and l2: "length (options_octets (case window_scale r of Some v \<Rightarrow> [OptWindowScale v] | None \<Rightarrow> []))
      = (if window_scale r \<noteq> None then 3 else 0)"
    and l4: "length (options_octets (case timestamp r of Some t \<Rightarrow> [OptTimeStamp (tsval t) (tsecr t)] | None \<Rightarrow> []))
      = (if timestamp r \<noteq> None then 10 else 0)"
    by (cases "max_seg_size r"; cases "window_scale r"; cases "timestamp r"; simp)+
  have l3: "length (options_octets (if sack_permitted r then [OptSackPermitted]
      else if ack_number r \<noteq> None \<and> (\<exists>s \<in> set (sack_ranges r). s \<noteq> None) then [OptSackRange (sack_ranges r)] else []))
      \<le> (if sack_permitted r then 2 else 0) + (if 0 < sack_range_len r then sack_range_len r + 2 else 0)"
    using sack sack_range_len_octets [of r] by (elim disjE conjE) (simp_all del: option_fits.simps)
  show "20 + length (options_octets (repr_options r)) \<le> tcp_header_len r"
    unfolding repr_options_def map_append concat_append length_append l1 l2 l4
    by (rule sum_within [OF l3 tcp_header_len_props(3) [of r, unfolded TCP_HEADER_LEN_def]])
  have ws: "\<not> 14 < sc" if "window_scale r = Some sc" for sc using assms that by (auto simp: tcp_fits_def not_less)
  have f1: "fold apply_option (case max_seg_size r of Some v \<Rightarrow> [OptMaxSegmentSize v] | None \<Rightarrow> []) no_options
      = \<lparr>o_max_seg_size = max_seg_size r, o_window_scale = None, o_sack_permitted = False,
          o_sack_ranges = [None, None, None], o_timestamp = None\<rparr>"
    by (cases "max_seg_size r") (simp_all add: no_options_def)
  have f2: "fold apply_option (case window_scale r of Some v \<Rightarrow> [OptWindowScale v] | None \<Rightarrow> [])
      \<lparr>o_max_seg_size = m, o_window_scale = None, o_sack_permitted = p, o_sack_ranges = s, o_timestamp = ts\<rparr>
      = \<lparr>o_max_seg_size = m, o_window_scale = window_scale r, o_sack_permitted = p, o_sack_ranges = s, o_timestamp = ts\<rparr>"
    for m p s ts using ws by (cases "window_scale r") simp_all
  have f3: "fold apply_option (if sack_permitted r then [OptSackPermitted] else if ack_number r \<noteq> None \<and>
        (\<exists>s \<in> set (sack_ranges r). s \<noteq> None) then [OptSackRange (sack_ranges r)] else [])
      \<lparr>o_max_seg_size = m, o_window_scale = w, o_sack_permitted = False, o_sack_ranges = [None, None, None], o_timestamp = ts\<rparr>
      = \<lparr>o_max_seg_size = m, o_window_scale = w, o_sack_permitted = sack_permitted r, o_sack_ranges = sack_ranges r, o_timestamp = ts\<rparr>"
    for m w ts using sack by (elim disjE conjE) (simp_all del: option_fits.simps)
  have f4: "fold apply_option (case timestamp r of Some t \<Rightarrow> [OptTimeStamp (tsval t) (tsecr t)] | None \<Rightarrow> [])
      \<lparr>o_max_seg_size = m, o_window_scale = w, o_sack_permitted = p, o_sack_ranges = s, o_timestamp = None\<rparr>
      = \<lparr>o_max_seg_size = m, o_window_scale = w, o_sack_permitted = p, o_sack_ranges = s, o_timestamp = timestamp r\<rparr>"
    for m w p s by (cases "timestamp r") simp_all
  show "fold apply_option (repr_options r) no_options = \<lparr>o_max_seg_size = max_seg_size r, o_window_scale = window_scale r,
      o_sack_permitted = sack_permitted r, o_sack_ranges = sack_ranges r, o_timestamp = timestamp r\<rparr>"
    unfolding repr_options_def fold_append comp_def f1 f2 f3 f4 by simp
qed

definition options_area :: "tcp_repr \<Rightarrow> u8 list" where
  "options_area r = options_octets (repr_options r) @
     replicate (tcp_header_len r - 20 - length (options_octets (repr_options r))) 0"

text \<open>The packet that \<open>emit\<close> leaves in the buffer, with \<open>ck\<close> in the checksum field.\<close>

definition packet_octets :: "tcp_repr \<Rightarrow> u8 list \<Rightarrow> u8 list" where
  "packet_octets r buf = overwrite (overwrite (overwrite (header_octets r buf) 20 (options_area r))
     18 (be_bytes 2 (0 :: u16))) (tcp_header_len r) (payload r)"

lemma length_options_area: "tcp_fits r \<Longrightarrow> length (options_area r) = tcp_header_len r - 20"
  using repr_options_fit(2) [of r] by (simp add: options_area_def)

lemma length_header_octets [simp]: "20 \<le> length buf \<Longrightarrow> length (header_octets r buf) = length buf"
  by (simp add: header_octets_def)

lemma header_octets_fields:
  assumes "20 \<le> length buf"
  shows "get_u16 (header_octets r buf) 0 = Some (src_port r)" "get_u16 (header_octets r buf) 2 = Some (dst_port r)"
    "get_u32 (header_octets r buf) 4 = Some (seq_number r)"
    "get_u32 (header_octets r buf) 8 = Some (case ack_number r of Some a \<Rightarrow> a | None \<Rightarrow> 0)"
    "get_u16 (header_octets r buf) 12 = Some (flags_word (tcp_header_len r) (control r) (ack_number r \<noteq> None))"
    "get_u16 (header_octets r buf) 14 = Some (window_len r)"
  using assms by (simp_all add: header_octets_def wire_simps)

lemma length_packet_octets:
  "tcp_fits r \<Longrightarrow> length buf = tcp_buffer_len r \<Longrightarrow> length (packet_octets r buf) = tcp_buffer_len r"
  using tcp_header_len_props(2) [of r] length_options_area [of r]
  by (simp add: packet_octets_def tcp_buffer_len_def)

lemma header_len_read:
  assumes "tcp_fits r" and "get_u16 d 12 = Some (flags_word (tcp_header_len r) (control r) (ack_number r \<noteq> None))"
  obtains h where "tcp_get_header_len d = Some h" "unat h = tcp_header_len r"
proof -
  have "tcp_header_len r \<le> 60" using assms(1) by (simp add: tcp_fits_def)
  from flags_word_header_len [OF tcp_header_len_props(1) this] assms(2) show thesis
    by (intro that) (simp_all add: tcp_get_header_len_def)
qed

lemma tcp_emit_octets:
  assumes fits: "tcp_fits r" and len: "length buf = tcp_buffer_len r"
  shows "tcp_emit r src dst caps buf = (if checksum_tx (caps_tcp caps) then tcp_fill_checksum src dst (packet_octets r buf)
    else tcp_set_checksum 0 (packet_octets r buf))"
proof -
  let ?h = "header_octets r buf" and ?hl = "tcp_header_len r"
  define d where "d = overwrite (overwrite ?h 20 (options_area r)) 18 (be_bytes 2 (0 :: u16))"
  have hl: "20 \<le> ?hl" "?hl \<le> 60" "?hl \<le> length buf" "20 \<le> length buf" "length buf = ?hl + length (payload r)"
    using tcp_header_len_props(2) [of r] fits len by (simp_all add: tcp_fits_def tcp_buffer_len_def)
  have lh: "length ?h = length buf" using hl by simp
  have la: "length (options_area r) = ?hl - 20" by (rule length_options_area [OF fits])
  have "get_u16 ?h 12 = Some (flags_word ?hl (control r) (ack_number r \<noteq> None))" "get_u16 d 12 = get_u16 ?h 12"
    using header_octets_fields(5) [OF hl(4)] hl lh la by (simp_all add: d_def wire_simps)
  then obtain h h' where h: "tcp_get_header_len ?h = Some h" "unat h = ?hl" "tcp_get_header_len d = Some h'" "unat h' = ?hl"
    using header_len_read [OF fits] by metis
  have "tcp_get_options ?h = Some (take (?hl - 20) (drop 20 ?h))"
    using h hl lh by (simp add: tcp_get_options_def)
  moreover have "emit_options r (take (?hl - 20) (drop 20 ?h)) = Some (options_area r)"
    using emit_options_octets [OF repr_options_fit(1) [OF fits], of "take (?hl - 20) (drop 20 ?h)"]
      repr_options_fit(2) [OF fits] hl lh by (simp add: options_area_def)
  moreover have "tcp_set_urgent_at 0 (overwrite ?h 20 (options_area r)) = Some d"
    using hl lh la by (simp add: d_def tcp_set_urgent_at_def put_at)
  moreover have "length d = length buf" using hl lh la by (simp add: d_def)
  moreover have "overwrite d ?hl (payload r) = packet_octets r buf" by (simp add: d_def packet_octets_def)
  ultimately show ?thesis
    using tcp_emit_header_octets [OF hl(4,2)] h hl by (simp add: tcp_emit_def)
qed

lemma packet_octets_fields:
  fixes ck :: u16
  assumes fits: "tcp_fits r" and len: "length buf = tcp_buffer_len r"
  defines "d \<equiv> overwrite (packet_octets r buf) 16 (be_bytes 2 ck)"
  shows "get_u16 d 0 = Some (src_port r)" "get_u16 d 2 = Some (dst_port r)" "get_u32 d 4 = Some (seq_number r)"
    "get_u32 d 8 = Some (case ack_number r of Some a \<Rightarrow> a | None \<Rightarrow> 0)"
    "get_u16 d 12 = Some (flags_word (tcp_header_len r) (control r) (ack_number r \<noteq> None))"
    "get_u16 d 14 = Some (window_len r)"
    "slice d 20 (tcp_header_len r) = Some (options_area r)" "slice d (tcp_header_len r) (length d) = Some (payload r)"
    "length d = tcp_buffer_len r"
proof -
  have hl: "20 \<le> tcp_header_len r" "length buf = tcp_header_len r + length (payload r)" "20 \<le> length buf"
    using tcp_header_len_props(2) [of r] len by (simp_all add: tcp_buffer_len_def)
  have lh: "length (header_octets r buf) = length buf" using hl by simp
  have la: "length (options_area r) = tcp_header_len r - 20" by (rule length_options_area [OF fits])
  show l: "length d = tcp_buffer_len r" using length_packet_octets [OF fits len] hl len by (simp add: d_def)
  note f = header_octets_fields [OF hl(3), of r]
  show "get_u16 d 0 = Some (src_port r)" "get_u16 d 2 = Some (dst_port r)" "get_u32 d 4 = Some (seq_number r)"
    "get_u32 d 8 = Some (case ack_number r of Some a \<Rightarrow> a | None \<Rightarrow> 0)"
    "get_u16 d 12 = Some (flags_word (tcp_header_len r) (control r) (ack_number r \<noteq> None))"
    "get_u16 d 14 = Some (window_len r)"
    using hl lh la f by (simp_all add: d_def packet_octets_def wire_simps)
  show "slice d 20 (tcp_header_len r) = Some (options_area r)" "slice d (tcp_header_len r) (length d) = Some (payload r)"
    using hl lh la l by (simp_all add: d_def packet_octets_def wire_simps tcp_buffer_len_def del: slice_Some)
qed

lemma tcp_parse_octets:
  fixes ck :: u16
  assumes fits: "tcp_fits r" and len: "length buf = tcp_buffer_len r"
  defines "d \<equiv> overwrite (packet_octets r buf) 16 (be_bytes 2 ck)"
  assumes ck: "checksum_rx (caps_tcp caps) \<longrightarrow> checksum_of src dst ProtoTcp d = Some 0xffff"
  shows "tcp_parse src dst caps d = Some (Inr r)"
proof -
  note f = packet_octets_fields [OF fits len, of ck, folded d_def]
  let ?w = "flags_word (tcp_header_len r) (control r) (ack_number r \<noteq> None)"
  obtain h where h: "tcp_get_header_len d = Some h" "unat h = tcp_header_len r" using header_len_read [OF fits f(5)] .
  have hl: "20 \<le> tcp_header_len r" "tcp_header_len r \<le> length d" "20 \<le> length d"
    using tcp_header_len_props(2) [of r] f(9) by (simp_all add: tcp_buffer_len_def)
  have "tcp_check_len d = Some (Inr ())" using h hl by (simp add: tcp_check_len_ok)
  moreover have "src_port r \<noteq> 0" "dst_port r \<noteq> 0" using fits by (simp_all add: tcp_fits_def)
  moreover have "(if checksum_rx (caps_tcp caps) then tcp_verify_checksum src dst d else Some True) = Some True"
    using ck by (simp add: tcp_verify_checksum_eq)
  ultimately have "tcp_parse src dst caps d = tcp_parse_body d"
    using f by (simp add: tcp_parse_def tcp_getters)
  also have "\<dots> = Some (Inr r)"
  proof -
    have "tcp_get_options d = Some (options_area r)" "tcp_get_payload d = Some (payload r)"
      using h f by (simp_all add: tcp_get_options_def tcp_get_payload_def)
    moreover have "parse_options (options_area r) no_options = Some (Inr \<lparr>o_max_seg_size = max_seg_size r,
        o_window_scale = window_scale r, o_sack_permitted = sack_permitted r, o_sack_ranges = sack_ranges r,
        o_timestamp = timestamp r\<rparr>)"
      using parse_options_octets [OF repr_options_fit(1) [OF fits]] repr_options_fit(3) [OF fits]
      by (simp add: options_area_def)
    moreover have "control_of_flags (bit ?w 1) (bit ?w 0) (bit ?w 2) (bit ?w 3) = Inr (control r)"
      unfolding flags_word_bits by (cases "control r") simp_all
    moreover have "tcp_syn d = Some (bit ?w 1)" "tcp_fin d = Some (bit ?w 0)" "tcp_rst d = Some (bit ?w 2)"
      "tcp_psh d = Some (bit ?w 3)" "tcp_ack d = Some (ack_number r \<noteq> None)"
      unfolding tcp_flag_getters f(5) bind.bind_lunit and_flags flags_word_bits by (rule refl)+
    ultimately show ?thesis
      using f by (cases "ack_number r") (simp_all add: tcp_parse_body_def tcp_build_repr_def tcp_getters)
  qed
  finally show ?thesis .
qed

lemma tcp_emit_parse:
  assumes fits: "tcp_fits r" and len: "length buf = tcp_buffer_len r" and ver: "same_version src dst"
    and caps: "checksum_rx (caps_tcp caps) \<longrightarrow> checksum_tx (caps_tcp caps)"
  obtains bs where "tcp_emit r src dst caps buf = Some bs" "length bs = tcp_buffer_len r"
    "tcp_parse src dst caps bs = Some (Inr r)"
proof -
  let ?p = "packet_octets r buf"
  have l: "length ?p = tcp_buffer_len r" "20 \<le> length ?p" "length ?p \<le> 131072"
    using length_packet_octets [OF fits len] tcp_header_len_props(2) [of r] fits
    by (simp_all add: tcp_buffer_len_def tcp_fits_def)
  define ck :: u16 where "ck = (if checksum_tx (caps_tcp caps)
    then NOT (the (checksum_of src dst ProtoTcp (overwrite ?p 16 (be_bytes 2 (0 :: u16))))) else 0)"
  obtain c where c: "checksum_of src dst ProtoTcp (overwrite ?p 16 (be_bytes 2 (0 :: u16))) = Some c"
    using checksum_of_Some [OF ver] .
  have ck: "checksum_tx (caps_tcp caps) \<longrightarrow> ck = NOT c" by (simp add: ck_def c)
  have "tcp_emit r src dst caps buf = Some (overwrite ?p 16 (be_bytes 2 ck))"
    using c l(2) unfolding tcp_emit_octets [OF fits len] ck_def
    by (auto simp: tcp_fill_checksum_def tcp_set_checksum_def put_at checksum_of_def bind_eq_Some_conv)
  moreover have "checksum_tx (caps_tcp caps) \<longrightarrow> checksum_of src dst ProtoTcp (overwrite ?p 16 (be_bytes 2 ck)) = Some 0xffff"
    using checksum_of_filled [OF _ _ l(3) c, of ck] l(2) ck by auto
  ultimately show thesis
    using tcp_parse_octets [OF fits len, of caps src dst ck] caps l by (intro that) auto
qed

definition tcp_env_ok :: "ip_address \<times> ip_address \<times> checksum_capabilities \<Rightarrow> bool" where
  "tcp_env_ok e \<longleftrightarrow> same_version (fst e) (fst (snd e))"

interpretation tcp_format: wire_format tcp_env_ok
  "\<lambda>e r. tcp_fits r \<and> (checksum_rx (caps_tcp (snd (snd e))) \<longrightarrow> checksum_tx (caps_tcp (snd (snd e))))" tcp_buffer_len
  "\<lambda>e r. tcp_emit r (fst e) (fst (snd e)) (snd (snd e))" "\<lambda>e. tcp_parse (fst e) (fst (snd e)) (snd (snd e))"
proof unfold_locales
  fix e :: "ip_address \<times> ip_address \<times> checksum_capabilities" and r and buf :: "u8 list"
  assume e: "tcp_env_ok e" "tcp_fits r \<and> (checksum_rx (caps_tcp (snd (snd e))) \<longrightarrow> checksum_tx (caps_tcp (snd (snd e))))"
    "length buf = tcp_buffer_len r"
  obtain bs where "tcp_emit r (fst e) (fst (snd e)) (snd (snd e)) buf = Some bs" "length bs = tcp_buffer_len r"
    "tcp_parse (fst e) (fst (snd e)) (snd (snd e)) bs = Some (Inr r)"
    using tcp_emit_parse [of r buf "fst e" "fst (snd e)" "snd (snd e)"] e by (auto simp: tcp_env_ok_def)
  then show "\<exists>bs. tcp_emit r (fst e) (fst (snd e)) (snd (snd e)) buf = Some bs \<and> length bs = tcp_buffer_len r \<and>
      tcp_parse (fst e) (fst (snd e)) (snd (snd e)) bs = Some (Inr r)" by blast
next
  fix e buf
  assume "tcp_env_ok e"
  then show "tcp_parse (fst e) (fst (snd e)) (snd (snd e)) buf \<noteq> None"
    using tcp_parse_total [of "fst e" "fst (snd e)" "snd (snd e)" buf] by (auto simp: tcp_env_ok_def)
qed

section \<open>Properties\<close>

text \<open>
  C35: a TCP segment that is emitted is parsed back unchanged, options, flags, payload and checksum
  included, for every representation that fits the header: ports other than zero, a window scale of at
  most 14, SACK ranges only together with an acknowledgement and from the front of the array, and
  options within 40 octets. What was in the buffer before does not matter.
\<close>

theorem tcp_round_trip:
  assumes "same_version src dst" and "tcp_fits r" and "length buf = tcp_buffer_len r"
    and "checksum_rx (caps_tcp caps) \<longrightarrow> checksum_tx (caps_tcp caps)"
  shows "\<exists>bs. tcp_emit r src dst caps buf = Some bs \<and> length bs = tcp_buffer_len r \<and>
    tcp_parse src dst caps bs = Some (Inr r)"
  using tcp_format.emitted [of "(src, dst, caps)" r buf] assms by (simp add: tcp_env_ok_def)

theorem tcp_round_trip_witness:
  "\<exists>r bs. sack_ranges r = [Some (3, 5), None, None] \<and> payload r = [1, 2, 3] \<and>
     tcp_emit r (Ipv4 1) (Ipv4 2) (caps_ignored\<lparr>caps_tcp := ChecksumBoth\<rparr>) (replicate (tcp_buffer_len r) 0xff) = Some bs \<and>
     tcp_parse (Ipv4 1) (Ipv4 2) (caps_ignored\<lparr>caps_tcp := ChecksumBoth\<rparr>) bs = Some (Inr r)"
proof -
  let ?r = "\<lparr>src_port = 80, dst_port = 4000, control = CtlPsh, seq_number = 7, ack_number = Some 9, window_len = 100,
    window_scale = None, max_seg_size = None, sack_permitted = False, sack_ranges = [Some (3, 5), None, None],
    timestamp = None, payload = [1, 2, 3]\<rparr>"
  have "tcp_fits ?r" by (simp add: tcp_fits_def tcp_buffer_len_def tcp_header_len_def sack_range_len_def TCP_HEADER_LEN_def)
  then show ?thesis
    using tcp_round_trip [of "Ipv4 1" "Ipv4 2" ?r "replicate (tcp_buffer_len ?r) 0xff" "caps_ignored\<lparr>caps_tcp := ChecksumBoth\<rparr>"]
    by (intro exI [of _ ?r]) (auto simp: same_version_def)
qed

lemma apply_option_scale:
  "(\<forall>sc. o_window_scale st = Some sc \<longrightarrow> sc \<le> 14) \<Longrightarrow>
     \<forall>sc. o_window_scale (apply_option opt st) = Some sc \<longrightarrow> sc \<le> 14"
  by (cases opt) auto

lemma parse_options_scale:
  "parse_options options st = Some (Inr st') \<Longrightarrow> (\<forall>sc. o_window_scale st = Some sc \<longrightarrow> sc \<le> 14) \<Longrightarrow>
     \<forall>sc. o_window_scale st' = Some sc \<longrightarrow> sc \<le> 14"
proof (induction options st rule: parse_options.induct)
  case (1 options st)
  show ?case
  proof (cases "options = []")
    case True
    then show ?thesis using 1(2,3) by (simp add: parse_options.simps)
  next
    case False
    then show ?thesis
    proof (cases rule: tcp_option_parse_cases [of options])
      case (err e)
      then show ?thesis using 1(2) False by (simp add: parse_options.simps [of options st])
    next
      case (opt rest opt)
      show ?thesis
      proof (cases "opt = OptEndOfList")
        case True
        then show ?thesis using 1(2,3) False opt by (simp add: parse_options.simps [of options st])
      next
        case no: False
        then have "parse_options rest (apply_option opt st) = Some (Inr st')"
          using 1(2) False opt by (simp add: parse_options.simps [of options st])
        then show ?thesis using 1(1) [OF False _ _ refl no] opt(1) apply_option_scale [OF 1(3)] by auto
      qed
    qed
  qed
qed

lemma tcp_parse_body_repr:
  assumes "tcp_parse_body data = Some (Inr r)"
  obtains ctl opts options where "parse_options options no_options = Some (Inr opts)" "tcp_build_repr ctl opts data = Some r"
proof -
  obtain c where c: "(case c of Inl e \<Rightarrow> Some (Inl e) | Inr ctl \<Rightarrow> do {
         options \<leftarrow> tcp_get_options data;
         res \<leftarrow> parse_options options no_options;
         case res of
           Inl e \<Rightarrow> Some (Inl e)
         | Inr opts \<Rightarrow> do { r \<leftarrow> tcp_build_repr ctl opts data; Some (Inr r) } }) = Some (Inr r)"
    using assms unfolding tcp_parse_body_def bind_eq_Some_conv by blast
  then obtain ctl options res where res: "parse_options options no_options = Some res"
    "(case res of Inl e \<Rightarrow> Some (Inl e) | Inr opts \<Rightarrow> do { r \<leftarrow> tcp_build_repr ctl opts data; Some (Inr r) }) = Some (Inr r)"
    by (cases c) (auto simp: bind_eq_Some_conv)
  then show thesis using that by (cases res) (auto simp: bind_eq_Some_conv)
qed

lemma tcp_parse_repr:
  assumes "same_version src dst"
  shows "\<exists>res. tcp_parse src dst caps data = Some res \<and>
    (\<forall>r. res = Inr r \<longrightarrow> src_port r \<noteq> 0 \<and> dst_port r \<noteq> 0 \<and> length (payload r) + 20 \<le> length data \<and>
       (\<forall>sc. window_scale r = Some sc \<longrightarrow> sc \<le> 14))"
proof -
  obtain res where res: "tcp_parse src dst caps data = Some res" using tcp_parse_total [OF assms] by blast
  have "src_port r \<noteq> 0 \<and> dst_port r \<noteq> 0 \<and> length (payload r) + 20 \<le> length data \<and>
       (\<forall>sc. window_scale r = Some sc \<longrightarrow> sc \<le> 14)" if r: "res = Inr r" for r
  proof (cases rule: tcp_check_len_total [of data])
    case (err e)
    then show ?thesis using res r by (simp add: tcp_parse_def)
  next
    case ok
    then have p: "tcp_get_src_port data \<noteq> Some 0" "tcp_get_dst_port data \<noteq> Some 0" "tcp_parse_body data = Some (Inr r)"
      using res r by (auto simp: tcp_parse_def bind_eq_Some_conv split: if_splits)
    obtain ctl opts options where o: "parse_options options no_options = Some (Inr opts)" "tcp_build_repr ctl opts data = Some r"
      using tcp_parse_body_repr [OF p(3)] .
    have "\<forall>sc. o_window_scale opts = Some sc \<longrightarrow> sc \<le> 14"
      using parse_options_scale [OF o(1)] by (simp add: no_options_def)
    moreover obtain hl where hl: "tcp_get_header_len data = Some hl" "20 \<le> unat hl" "unat hl \<le> length data"
      using ok by (auto simp: tcp_check_len_ok)
    ultimately show ?thesis
      using o(2) p by (auto simp: tcp_build_repr_def bind_eq_Some_conv tcp_get_payload_def)
  qed
  with res show ?thesis by blast
qed

text \<open>
  C36: parsing a TCP segment is total: whatever octets arrive, the loop over the options ends, no field,
  option or payload is read outside of the buffer, and the result is an error or a representation
  that satisfies what \<open>process\<close> relies on, a window scale of at most 14.
\<close>

theorem tcp_parse_safe:
  assumes "same_version src dst"
  shows "\<exists>res. tcp_parse src dst caps data = Some res \<and>
    (\<forall>r. res = Inr r \<longrightarrow> src_port r \<noteq> 0 \<and> dst_port r \<noteq> 0 \<and> length (payload r) + 20 \<le> length data \<and>
       (\<forall>sc. window_scale r = Some sc \<longrightarrow> sc \<le> 14))"
  by (rule tcp_parse_repr [OF assms])

theorem tcp_parse_safe_witness:
  "\<exists>res. tcp_parse (Ipv6 1) (Ipv6 2) caps_ignored (replicate 20 0xff) = Some res \<and>
     (\<forall>r. res = Inr r \<longrightarrow> length (payload r) + 20 \<le> 20)"
  using tcp_parse_safe [of "Ipv6 1" "Ipv6 2" caps_ignored "replicate 20 0xff"] by (auto simp: same_version_def)

end
