(* ===== verification/Packet_Buffer.thy ===== *)
theory Packet_Buffer
  imports Ring_Buffer
begin

text \<open>
  \<open>src/smoltcp/src/storage/packet_buffer.rs\<close>: a queue of packets in two ring buffers, one for the size
  and header of each packet, one for the octets. A packet is contiguous in memory; where it would not
  fit before the end of the octet ring, padding is queued in front of it. A padding entry has no header.

  The abstraction \<open>pb_packets\<close> is the list of headers and payloads, without padding.
\<close>

section \<open>Metadata\<close>

record 'h packet_metadata =
  pm_size :: nat
  pm_header :: "'h option"

definition pm_empty :: "'h packet_metadata" where "pm_empty = \<lparr>pm_size = 0, pm_header = None\<rparr>"

definition pm_padding :: "nat \<Rightarrow> 'h packet_metadata" where "pm_padding n = \<lparr>pm_size = n, pm_header = None\<rparr>"

definition pm_packet :: "nat \<Rightarrow> 'h \<Rightarrow> 'h packet_metadata" where "pm_packet n h = \<lparr>pm_size = n, pm_header = Some h\<rparr>"

definition is_padding :: "'h packet_metadata \<Rightarrow> bool" where "is_padding m \<longleftrightarrow> pm_header m = None"

section \<open>The buffer\<close>

record 'h packet_buffer =
  metadata_ring :: "'h packet_metadata ring_buffer"
  payload_ring :: "u8 ring_buffer"

definition pb_new :: "'h packet_metadata list \<Rightarrow> u8 list \<Rightarrow> 'h packet_buffer" where
  "pb_new ms ps = \<lparr>metadata_ring = rb_new ms, payload_ring = rb_new ps\<rparr>"

definition pb_is_empty :: "'h packet_buffer \<Rightarrow> bool" where "pb_is_empty b \<longleftrightarrow> rb_is_empty (metadata_ring b)"

definition pb_is_full :: "'h packet_buffer \<Rightarrow> bool" where "pb_is_full b \<longleftrightarrow> rb_is_full (metadata_ring b)"

text \<open>\<open>*self.metadata_ring.enqueue_one()? = m\<close>.\<close>

definition enqueue_metadata ::
  "'h packet_metadata \<Rightarrow> 'h packet_metadata ring_buffer \<Rightarrow> full + 'h packet_metadata ring_buffer" where
  "enqueue_metadata m ring =
     (case enqueue_one ring of
        Inl e \<Rightarrow> Inl e
      | Inr (idx, ring') \<Rightarrow> Inr (ring'\<lparr>rb_storage := (rb_storage ring')[idx := m]\<rparr>))"

text \<open>
  \<open>Padding\<close> is the step that both enqueueing operations share: make a contiguous window of \<open>n\<close> octets,
  with padding where needed. An \<open>Err\<close> leaves the buffer as it is.
\<close>

definition make_room :: "nat \<Rightarrow> 'h packet_buffer \<Rightarrow> (full + 'h packet_buffer) option" where
  "make_room n b =
     (let window = rb_window (payload_ring b);
          contig_window = rb_contiguous_window (payload_ring b)
      in if window < n then Some (Inl Full)
         else if contig_window < n then
           if window - contig_window < n then Some (Inl Full)
           else (case enqueue_metadata (pm_padding contig_window) (metadata_ring b) of
               Inl e \<Rightarrow> Some (Inl e)
             | Inr ring \<Rightarrow> do {
                 (_, payload) \<leftarrow> enqueue_many contig_window (payload_ring b);
                 Some (Inr \<lparr>metadata_ring = ring, payload_ring = payload\<rparr>) })
         else Some (Inr b))"

text \<open>The slice that \<open>enqueue\<close> returns is its start and length in the storage of the octet ring.\<close>

definition pb_enqueue :: "nat \<Rightarrow> 'h \<Rightarrow> 'h packet_buffer \<Rightarrow> ((full + nat \<times> nat) \<times> 'h packet_buffer) option" where
  "pb_enqueue sz header b =
     (if rb_capacity (payload_ring b) < sz \<or> rb_is_full (metadata_ring b) then Some (Inl Full, b)
      else do {
        let b = (if rb_is_empty (payload_ring b) then b\<lparr>payload_ring := rb_clear (payload_ring b)\<rparr> else b);
        room \<leftarrow> make_room sz b;
        case room of
          Inl e \<Rightarrow> Some (Inl e, b)
        | Inr b \<Rightarrow>
            (case enqueue_metadata (pm_packet sz header) (metadata_ring b) of
               Inl e \<Rightarrow> Some (Inl e, b)
             | Inr ring \<Rightarrow> do {
                 ((start, n), payload) \<leftarrow> enqueue_many sz (payload_ring b);
                 panic_unless (n = sz);
                 Some (Inr (start, n), \<lparr>metadata_ring = ring, payload_ring = payload\<rparr>) }) })"

text \<open>The closure fills the slice of \<open>max_size\<close> octets and says how many of them it used.\<close>

definition enqueue_with_infallible ::
  "nat \<Rightarrow> 'h \<Rightarrow> (u8 list \<Rightarrow> nat \<times> u8 list) \<Rightarrow> 'h packet_buffer \<Rightarrow> ((full + nat) \<times> 'h packet_buffer) option" where
  "enqueue_with_infallible max_size header f b =
     (if rb_capacity (payload_ring b) < max_size \<or> rb_is_full (metadata_ring b) then Some (Inl Full, b)
      else do {
        room \<leftarrow> make_room max_size b;
        case room of
          Inl e \<Rightarrow> Some (Inl e, b)
        | Inr b \<Rightarrow> do {
            panic_unless (max_size \<le> rb_contiguous_window (rb_home (payload_ring b)));
            ((n, _), payload) \<leftarrow> enqueue_many_with
               (\<lambda>data. case f (take max_size data) of (n, buf) \<Rightarrow> (n, (), overwrite data 0 buf)) (payload_ring b);
            case enqueue_metadata (pm_packet n header) (metadata_ring b) of
              Inl e \<Rightarrow> Some (Inl e, b\<lparr>payload_ring := payload\<rparr>)
            | Inr ring \<Rightarrow> Some (Inr n, \<lparr>metadata_ring = ring, payload_ring = payload\<rparr>) } })"

definition dequeue_padding :: "'h packet_buffer \<Rightarrow> 'h packet_buffer option" where
  "dequeue_padding b =
     (if rb_is_empty (metadata_ring b) then Some b
      else let m = rb_storage (metadata_ring b) ! rb_read_at (metadata_ring b)
           in if is_padding m
              then (case dequeue_one_with (\<lambda>x. (Inr () :: unit + unit, x)) (metadata_ring b) of
                  Inl _ \<Rightarrow> Some b
                | Inr (_, ring) \<Rightarrow> do {
                    (_, payload) \<leftarrow> dequeue_many (pm_size m) (payload_ring b);
                    Some \<lparr>metadata_ring = ring, payload_ring = payload\<rparr> })
              else Some b)"

text \<open>
  The closure of \<open>dequeue_with\<close> gets the header and the payload, both mutable: it returns them as it
  leaves them, beside its result. A result \<open>Inl\<close> keeps the packet in the queue.
\<close>

definition pb_dequeue_with ::
  "('h \<Rightarrow> u8 list \<Rightarrow> ('e + 'r) \<times> 'h \<times> u8 list) \<Rightarrow> 'h packet_buffer \<Rightarrow> ((empty + 'e + 'r) \<times> 'h packet_buffer) option" where
  "pb_dequeue_with f b = do {
     b \<leftarrow> dequeue_padding b;
     if rb_is_empty (metadata_ring b) then Some (Inl Empty, b)
     else do {
       let m = rb_storage (metadata_ring b) ! rb_read_at (metadata_ring b);
       panic_unless (pm_size m \<le> min (rb_len (payload_ring b)) (rb_capacity (payload_ring b) - rb_read_at (payload_ring b)));
       h \<leftarrow> pm_header m;
       ((_, res, h'), payload) \<leftarrow> dequeue_many_with
          (\<lambda>buf. case f h (take (pm_size m) buf) of (res, h', buf') \<Rightarrow>
             (if isl res then 0 else pm_size m, (res, h'), overwrite buf 0 buf')) (payload_ring b);
       case dequeue_one_with (\<lambda>x. (res, x\<lparr>pm_header := Some h'\<rparr>)) (metadata_ring b) of
         Inl e \<Rightarrow> Some (Inl e, b\<lparr>payload_ring := payload\<rparr>)
       | Inr (res, ring) \<Rightarrow> Some (Inr res, \<lparr>metadata_ring = ring, payload_ring = payload\<rparr>) } }"

definition pb_dequeue :: "'h packet_buffer \<Rightarrow> ((empty + 'h \<times> u8 list) \<times> 'h packet_buffer) option" where
  "pb_dequeue b = do {
     b \<leftarrow> dequeue_padding b;
     case dequeue_one (metadata_ring b) of
       Inl e \<Rightarrow> Some (Inl e, b)
     | Inr (idx, ring) \<Rightarrow> do {
         let m = rb_storage ring ! idx;
         (buf, payload) \<leftarrow> dequeue_many (pm_size m) (payload_ring b);
         panic_unless (length buf = pm_size m);
         h \<leftarrow> pm_header m;
         let ring = ring\<lparr>rb_storage := (rb_storage ring)[idx := m\<lparr>pm_header := None\<rparr>]\<rparr>;
         Some (Inr (h, buf), \<lparr>metadata_ring = ring, payload_ring = payload\<rparr>) } }"

definition pb_peek :: "'h packet_buffer \<Rightarrow> ((empty + 'h \<times> u8 list) \<times> 'h packet_buffer) option" where
  "pb_peek b = do {
     b \<leftarrow> dequeue_padding b;
     case get_allocated 0 1 (metadata_ring b) of
       [] \<Rightarrow> Some (Inl Empty, b)
     | m # _ \<Rightarrow> do {
         h \<leftarrow> pm_header m;
         Some (Inr (h, get_allocated 0 (pm_size m) (payload_ring b)), b) } }"

definition packet_capacity :: "'h packet_buffer \<Rightarrow> nat" where "packet_capacity b = rb_capacity (metadata_ring b)"

definition payload_capacity :: "'h packet_buffer \<Rightarrow> nat" where "payload_capacity b = rb_capacity (payload_ring b)"

definition payload_bytes_count :: "'h packet_buffer \<Rightarrow> nat" where "payload_bytes_count b = rb_len (payload_ring b)"

definition pb_reset :: "'h packet_buffer \<Rightarrow> 'h packet_buffer" where
  "pb_reset b = \<lparr>metadata_ring = rb_clear (metadata_ring b), payload_ring = rb_clear (payload_ring b)\<rparr>"

section \<open>Invariant and abstraction\<close>

text \<open>The entries from offset \<open>off\<close> of the octets on: every entry is contiguous in the storage.\<close>

fun entries_ok :: "u8 ring_buffer \<Rightarrow> nat \<Rightarrow> 'h packet_metadata list \<Rightarrow> bool" where
  "entries_ok p off [] \<longleftrightarrow> True"
| "entries_ok p off (m # ms) \<longleftrightarrow> get_idx p off + pm_size m \<le> rb_capacity p \<and>
     entries_ok p (off + pm_size m) ms"

text \<open>Padding is followed by a packet; only the last entry may be padding without one.\<close>

fun spaced :: "'h packet_metadata list \<Rightarrow> bool" where
  "spaced (m # m' # ms) \<longleftrightarrow> (is_padding m \<longrightarrow> \<not> is_padding m') \<and> spaced (m' # ms)"
| "spaced _ \<longleftrightarrow> True"

fun entries_packets :: "u8 list \<Rightarrow> 'h packet_metadata list \<Rightarrow> ('h \<times> u8 list) list" where
  "entries_packets xs [] = []"
| "entries_packets xs (m # ms) =
     (case pm_header m of
        None \<Rightarrow> entries_packets (drop (pm_size m) xs) ms
      | Some h \<Rightarrow> (h, take (pm_size m) xs) # entries_packets (drop (pm_size m) xs) ms)"

definition sizes :: "'h packet_metadata list \<Rightarrow> nat" where
  "sizes ms = sum_list (map pm_size ms)"

definition pb_wf :: "'h packet_buffer \<Rightarrow> bool" where
  "pb_wf b \<longleftrightarrow> rb_inv (metadata_ring b) \<and> rb_inv (payload_ring b) \<and>
     sizes (rb_list (metadata_ring b)) = rb_length (payload_ring b) \<and>
     entries_ok (payload_ring b) 0 (rb_list (metadata_ring b)) \<and> spaced (rb_list (metadata_ring b))"

definition ends_padded :: "'h packet_buffer \<Rightarrow> bool" where
  "ends_padded b \<longleftrightarrow> rb_list (metadata_ring b) \<noteq> [] \<and> is_padding (last (rb_list (metadata_ring b)))"

text \<open>Behind padding that no packet follows yet, the octet ring is filled to the end of its storage.\<close>

definition pb_inv :: "'h packet_buffer \<Rightarrow> bool" where
  "pb_inv b \<longleftrightarrow> pb_wf b \<and> (ends_padded b \<longrightarrow> get_idx (payload_ring b) (rb_length (payload_ring b)) = 0)"

definition pb_packets :: "'h packet_buffer \<Rightarrow> ('h \<times> u8 list) list" where
  "pb_packets b = entries_packets (rb_list (payload_ring b)) (rb_list (metadata_ring b))"

lemma sizes_simps [simp]: "sizes [] = 0" "sizes (m # ms) = pm_size m + sizes ms" "sizes (ms @ ms') = sizes ms + sizes ms'"
  by (simp_all add: sizes_def)

lemma entries_packets_append:
  assumes "sizes ms \<le> length xs"
  shows "entries_packets (xs @ ys) (ms @ ms') = entries_packets xs ms @ entries_packets (drop (sizes ms) xs @ ys) ms'"
  using assms by (induction ms arbitrary: xs) (auto split: option.splits simp: add.commute)

lemma entries_packets_prefix: "sizes ms \<le> length xs \<Longrightarrow> entries_packets (xs @ ys) ms = entries_packets xs ms"
  using entries_packets_append [of ms xs ys "[]"] by simp

lemma entries_ok_append:
  "entries_ok p off (ms @ ms') \<longleftrightarrow> entries_ok p off ms \<and> entries_ok p (off + sizes ms) ms'"
  by (induction ms arbitrary: off) (auto simp: add.assoc)

lemma spaced_append:
  "spaced (ms @ [m]) \<longleftrightarrow> spaced ms \<and> (ms \<noteq> [] \<and> is_padding (last ms) \<longrightarrow> \<not> is_padding m)"
  by (induction ms rule: spaced.induct) auto

lemma pb_new_inv: "pb_inv (pb_new ms ps)" and pb_new_packets: "pb_packets (pb_new ms ps) = []"
  by (simp_all add: pb_inv_def pb_wf_def ends_padded_def pb_packets_def pb_new_def) (simp add: rb_new_def)

lemma pb_reset_inv: "pb_inv (pb_reset b)" and pb_reset_packets: "pb_packets (pb_reset b) = []"
  by (simp_all add: pb_inv_def pb_wf_def ends_padded_def pb_packets_def pb_reset_def)

text \<open>The entries stay contiguous when the octet ring moves on, and when it returns to its start empty.\<close>

lemma entries_ok_cong:
  assumes "\<And>i. i \<le> off + sizes ms \<Longrightarrow> get_idx p' i = get_idx p i" and "rb_capacity p' = rb_capacity p"
  shows "entries_ok p off ms \<Longrightarrow> entries_ok p' off ms"
  using assms by (induction ms arbitrary: off) auto

lemma entries_ok_empty: "rb_inv p \<Longrightarrow> sizes ms = 0 \<Longrightarrow> entries_ok p off ms"
  by (induction ms arbitrary: off) (auto simp: get_idx_bound)

lemma entries_ok_shift:
  assumes "\<And>i. get_idx p' i = get_idx p (n + i)" and "rb_capacity p' = rb_capacity p"
  shows "entries_ok p' off ms \<longleftrightarrow> entries_ok p (n + off) ms"
  using assms by (induction ms arbitrary: off) (auto simp: add.assoc)

lemma get_idx_drop:
  assumes "rb_inv p" and "n \<le> rb_length p"
  shows "get_idx (rb_drop n p) i = get_idx p (n + i)"
  using assms by (auto simp: get_idx_def rb_drop_def rb_capacity_def Let_def mod_simps add.assoc)

section \<open>Enqueueing\<close>

lemma enqueue_metadata_full: "rb_is_full ring \<Longrightarrow> enqueue_metadata m ring = Inl Full"
  by (simp add: enqueue_metadata_def enqueue_one_full)

lemma enqueue_metadata_ok:
  assumes "rb_inv ring" and "\<not> rb_is_full ring"
  obtains ring' where "enqueue_metadata m ring = Inr ring'" "rb_inv ring'" "rb_list ring' = rb_list ring @ [m]"
    "rb_capacity ring' = rb_capacity ring"
proof -
  obtain idx r where "enqueue_one ring = Inr (idx, r)" "rb_inv (r\<lparr>rb_storage := (rb_storage r)[idx := m]\<rparr>)"
    "rb_list (r\<lparr>rb_storage := (rb_storage r)[idx := m]\<rparr>) = rb_list ring @ [m]"
    "rb_capacity (r\<lparr>rb_storage := (rb_storage r)[idx := m]\<rparr>) = rb_capacity ring"
    using enqueue_one_spec [OF assms] .
  then show thesis by (intro that [of "r\<lparr>rb_storage := (rb_storage r)[idx := m]\<rparr>"]) (simp_all add: enqueue_metadata_def)
qed

lemma enqueue_many_ok:
  assumes inv: "rb_inv p" and n: "n \<le> rb_contiguous_window (rb_home p)"
  obtains xs p' where "enqueue_many n p = Some ((get_idx p' (rb_length p), n), p')" "rb_inv p'"
    "rb_list p' = rb_list p @ xs" "length xs = n" "rb_capacity p' = rb_capacity p" "rb_length p' = rb_length p + n"
    "rb_read_at p' = rb_read_at (rb_home p)" "get_idx p' (rb_length p) + n \<le> rb_capacity p"
proof -
  let ?f = "\<lambda>buf :: 'a list. (min n (length buf), (), buf)"
  have f: "slice_fn ?f" by (simp add: slice_fn_def)
  have l: "length (free_slice (rb_home p)) = rb_contiguous_window (rb_home p)"
    using inv by (intro length_free_slice) simp
  have "?f (free_slice (rb_home p)) = (n, (), free_slice (rb_home p))" using l n by simp
  from enqueue_many_with_spec [OF inv f this] obtain p' where
    e: "enqueue_many_with ?f p = Some ((n, ()), p')" "rb_inv p'" "rb_list p' = rb_list p @ take n (free_slice (rb_home p))"
      "rb_capacity p' = rb_capacity p" "rb_length p' = rb_length p + n" "rb_read_at p' = rb_read_at (rb_home p)"
    by blast
  have "get_idx p' (rb_length p) = get_idx (rb_home p) (rb_length (rb_home p))"
    using e(4,6) inv by (simp add: get_idx_def Let_def)
  then have "get_idx p' (rb_length p) + n \<le> rb_capacity p"
    using n inv get_idx_bound [of "rb_home p" "rb_length (rb_home p)"]
    by (simp add: rb_contiguous_window_def) linarith
  moreover have "enqueue_many n p = Some ((get_idx p' (rb_length p), n), p')" using e(1,5) by (simp add: enqueue_many_def)
  ultimately show thesis using e l n by (intro that [of p' "take n (free_slice (rb_home p))"]) simp_all
qed

text \<open>Filling the slice that was enqueued.\<close>

lemma fill_slice:
  assumes inv: "rb_inv p" and list: "rb_list p = ys @ xs" and len: "length data = length xs"
    and fits: "get_idx p (length ys) + length xs \<le> rb_capacity p"
  defines "p' \<equiv> p\<lparr>rb_storage := overwrite (rb_storage p) (get_idx p (length ys)) data\<rparr>"
  shows "rb_inv p'" "rb_list p' = ys @ data" "rb_capacity p' = rb_capacity p" "rb_length p' = rb_length p"
    "rb_read_at p' = rb_read_at p"
proof -
  have l: "rb_length p = length ys + length xs" using arg_cong [OF list, of length] by simp
  have cap: "rb_length p \<le> rb_capacity p" using inv by (simp add: rb_inv_def)
  show c: "rb_capacity p' = rb_capacity p" and l': "rb_length p' = rb_length p" and "rb_read_at p' = rb_read_at p"
    using fits len by (simp_all add: p'_def rb_capacity_def)
  show "rb_inv p'" using inv c by (simp add: rb_inv_def p'_def)
  show "rb_list p' = ys @ data"
  proof (rule rb_list_eqI)
    fix i
    assume i: "i < rb_length p'"
    have "rb_at p' i = (if length ys \<le> i \<and> i < length ys + length data then data ! (i - length ys) else rb_at p i)"
      using rb_at_overwrite [OF inv, of "length ys" data i] i l l' cap fits len by (simp add: p'_def)
    moreover have "i < length ys \<Longrightarrow> rb_at p i = ys ! i"
      using nth_rb_list [of i p] l by (simp add: list nth_append)
    ultimately show "rb_at p' i = (ys @ data) ! i" using i l l' len by (auto simp: nth_append)
  qed (use l l' len in simp)
qed

text \<open>An entry behind the others, with its octets.\<close>

lemma append_entry:
  assumes wf: "pb_wf b" and ring: "rb_inv ring" "rb_list ring = rb_list (metadata_ring b) @ [m]"
    and p: "rb_inv p" "rb_list p = rb_list (payload_ring b) @ xs" "length xs = pm_size m"
      "rb_capacity p = rb_capacity (payload_ring b)" "rb_read_at p = rb_read_at (rb_home (payload_ring b))"
    and fits: "get_idx p (rb_length (payload_ring b)) + pm_size m \<le> rb_capacity p"
    and pad: "is_padding m \<longrightarrow> \<not> ends_padded b"
  shows "pb_wf \<lparr>metadata_ring = ring, payload_ring = p\<rparr>"
    and "pb_packets \<lparr>metadata_ring = ring, payload_ring = p\<rparr> =
      pb_packets b @ (case pm_header m of None \<Rightarrow> [] | Some h \<Rightarrow> [(h, xs)])"
proof -
  let ?q = "payload_ring b" and ?ms = "rb_list (metadata_ring b)"
  have inv: "rb_inv ?q" and sz: "sizes ?ms = rb_length ?q" and ok: "entries_ok ?q 0 ?ms" and sp: "spaced ?ms"
    using wf by (simp_all add: pb_wf_def)
  have len: "rb_length p = rb_length ?q + pm_size m" using arg_cong [OF p(2), of length] p(3) by simp
  have "entries_ok p 0 ?ms"
  proof (cases "rb_length ?q = 0")
    case True
    then show ?thesis using sz p(1) by (intro entries_ok_empty) simp_all
  next
    case False
    then have "get_idx p i = get_idx ?q i" for i using p(4,5) by (simp add: get_idx_def Let_def rb_home_def)
    then show ?thesis using ok p(4) by (intro entries_ok_cong [of 0 ?ms p ?q]) simp_all
  qed
  then have "entries_ok p 0 (?ms @ [m])" using fits sz by (simp add: entries_ok_append)
  moreover have "spaced (?ms @ [m])" using sp pad by (auto simp: spaced_append ends_padded_def)
  ultimately show "pb_wf \<lparr>metadata_ring = ring, payload_ring = p\<rparr>"
    using ring p(1) sz len by (simp add: pb_wf_def)
  have "entries_packets (rb_list ?q @ xs) (?ms @ [m]) = entries_packets (rb_list ?q) ?ms @ entries_packets xs [m]"
    using entries_packets_append [of ?ms "rb_list ?q" xs "[m]"] sz by simp
  then show "pb_packets \<lparr>metadata_ring = ring, payload_ring = p\<rparr> =
      pb_packets b @ (case pm_header m of None \<Rightarrow> [] | Some h \<Rightarrow> [(h, xs)])"
    using ring(2) p(2,3) by (simp add: pb_packets_def split: option.splits)
qed

lemma contiguous_home:
  assumes "rb_inv p"
  shows "rb_contiguous_window p \<le> rb_contiguous_window (rb_home p)"
proof (cases "rb_length p = 0")
  case True
  then have "rb_contiguous_window (rb_home p) = rb_window p" using assms
    by (auto simp: rb_contiguous_window_def rb_home_def get_idx_def Let_def rb_window_def rb_len_def rb_capacity_def)
  then show ?thesis by (simp add: rb_contiguous_window_def)
qed (simp add: rb_home_def)

text \<open>A buffer that ends with padding has its whole window in one piece.\<close>

lemma contiguous_padded:
  "rb_inv p \<Longrightarrow> get_idx p (rb_length p) = 0 \<Longrightarrow> rb_contiguous_window p = rb_window p"
  by (simp add: rb_contiguous_window_def rb_window_def)

text \<open>Padding takes the octet ring to the end of its storage.\<close>

lemma padding_fills:
  assumes inv: "rb_inv p" and cw: "rb_contiguous_window p < rb_window p"
    and same: "rb_capacity p' = rb_capacity p" "rb_read_at p' = rb_read_at p"
      "rb_length p' = rb_length p + rb_contiguous_window p"
  shows "get_idx p' (rb_length p') = 0"
proof -
  let ?x = "rb_read_at p + rb_length p" and ?c = "rb_capacity p"
  have pos: "0 < ?c" using cw by (auto simp: rb_window_def)
  have "rb_contiguous_window p = ?c - ?x mod ?c"
    using cw pos by (auto simp: rb_contiguous_window_def get_idx_def min_def split: if_splits)
  moreover have "?x + (?c - ?x mod ?c) = ?c * (?x div ?c + 1)"
    using mod_less_divisor [OF pos, of ?x] mod_less_eq_dividend [of ?x ?c] minus_mod_eq_mult_div [of ?x ?c]
    unfolding distrib_left by linarith
  ultimately show ?thesis using same pos by (simp add: get_idx_def add.assoc)
qed

lemma padded_from_start:
  assumes inv: "rb_inv p" and empty: "rb_length p = 0" and cw: "rb_contiguous_window p < rb_window p"
    and p': "rb_inv p'" "rb_capacity p' = rb_capacity p" "rb_length p' = rb_length p + rb_contiguous_window p"
      "rb_read_at p' = 0"
  shows "rb_contiguous_window p' = rb_window p'"
proof -
  have "rb_contiguous_window p < rb_capacity p" using cw by (simp add: rb_window_def)
  then have "get_idx p' (rb_length p') = rb_length p'" using p' empty by (simp add: get_idx_def)
  then show ?thesis using p'(2) by (simp add: rb_contiguous_window_def rb_window_def rb_len_def)
qed

lemma make_room_ok:
  assumes inv: "pb_inv b" and room: "\<not> rb_is_full (metadata_ring b)"
  obtains (full) "make_room n b = Some (Inl Full)"
  | (same) "make_room n b = Some (Inr b)" "n \<le> rb_contiguous_window (payload_ring b)"
  | (padded) b' where "make_room n b = Some (Inr b')" "pb_wf b'" "pb_packets b' = pb_packets b"
      "n \<le> rb_contiguous_window (rb_home (payload_ring b'))"
      "rb_home (payload_ring b) = payload_ring b \<longrightarrow> pb_inv b'"
      "rb_length (metadata_ring b') = rb_length (metadata_ring b) + 1"
      "rb_capacity (metadata_ring b') = rb_capacity (metadata_ring b)"
      "rb_contiguous_window (payload_ring b) < n" "rb_list (metadata_ring b') \<noteq> []"
proof -
  let ?p = "payload_ring b" and ?w = "rb_window (payload_ring b)" and ?c = "rb_contiguous_window (payload_ring b)"
  have wf: "pb_wf b" and rp: "rb_inv ?p" and rm: "rb_inv (metadata_ring b)"
    using inv by (simp_all add: pb_inv_def pb_wf_def)
  consider "?w < n \<or> ?c < n \<and> ?w - ?c < n" | "\<not> ?w < n" "\<not> ?c < n" | "\<not> ?w < n" "?c < n" "\<not> ?w - ?c < n" by blast
  then show thesis
  proof cases
    case 1
    then show thesis by (intro full) (auto simp: make_room_def Let_def)
  next
    case 2
    then show thesis by (intro same) (auto simp: make_room_def Let_def)
  next
    case 3
    then have cw: "?c < ?w" by simp
    have last: "\<not> ends_padded b"
      using inv contiguous_padded [OF rp] cw by (auto simp: pb_inv_def)
    obtain ring where ring: "enqueue_metadata (pm_padding ?c) (metadata_ring b) = Inr ring" "rb_inv ring"
      "rb_list ring = rb_list (metadata_ring b) @ [pm_padding ?c]" "rb_capacity ring = rb_capacity (metadata_ring b)"
      using enqueue_metadata_ok [OF rm room] .
    obtain xs p' where p': "enqueue_many ?c ?p = Some ((get_idx p' (rb_length ?p), ?c), p')" "rb_inv p'"
      "rb_list p' = rb_list ?p @ xs" "length xs = ?c" "rb_capacity p' = rb_capacity ?p" "rb_length p' = rb_length ?p + ?c"
      "rb_read_at p' = rb_read_at (rb_home ?p)" "get_idx p' (rb_length ?p) + ?c \<le> rb_capacity ?p"
      using enqueue_many_ok [OF rp contiguous_home [OF rp]] .
    let ?b' = "\<lparr>metadata_ring = ring, payload_ring = p'\<rparr>"
    have m: "make_room n b = Some (Inr ?b')" using 3 ring(1) p'(1) by (simp add: make_room_def Let_def)
    have b': "pb_wf ?b'" "pb_packets ?b' = pb_packets b"
      using append_entry [OF wf ring(2,3) p'(2,3) _ p'(5,7)] last p'(4,5,8) by (simp_all add: pm_padding_def)
    have len': "rb_length p' = rb_length ?p + ?c" by (rule p'(6))
    have win': "rb_window p' = ?w - ?c" using p'(5,6) by (simp add: rb_window_def rb_len_def)
    have "rb_contiguous_window p' = rb_window p'"
    proof (cases "rb_home ?p = ?p")
      case True
      then show ?thesis using contiguous_window_after(1) [OF rp p'(2,5) _ p'(6) cw] p'(7) by simp
    next
      case False
      then show ?thesis using padded_from_start [OF rp _ cw p'(2,5,6)] p'(7) by (auto simp: rb_home_def split: if_splits)
    qed
    then have c': "n \<le> rb_contiguous_window (rb_home p')"
      using contiguous_home [OF p'(2)] win' 3 by simp
    have i': "rb_home ?p = ?p \<longrightarrow> pb_inv ?b'"
      using b'(1) padding_fills [OF rp cw p'(5) _ p'(6)] p'(7) by (simp add: pb_inv_def)
    have "rb_length ring = rb_length (metadata_ring b) + 1" using arg_cong [OF ring(3), of length] by simp
    with m b' c' i' 3 ring show thesis by (intro padded [of ?b']) simp_all
  qed
qed

lemma get_idx_same: "rb_capacity p' = rb_capacity p \<Longrightarrow> rb_read_at p' = rb_read_at p \<Longrightarrow> get_idx p' i = get_idx p i"
  by (simp add: get_idx_def Let_def)

text \<open>A packet whose octets fit before the end of the storage, filled with \<open>data\<close>.\<close>

lemma append_packet:
  assumes wf: "pb_wf b" and n: "length data \<le> rb_contiguous_window (rb_home (payload_ring b))"
    and ring: "rb_inv ring" "rb_list ring = rb_list (metadata_ring b) @ [pm_packet (length data) h]"
  obtains start p where "enqueue_many (length data) (payload_ring b) = Some ((start, length data), p)"
    "start + length data \<le> rb_capacity p"
    "pb_inv \<lparr>metadata_ring = ring, payload_ring = p\<lparr>rb_storage := overwrite (rb_storage p) start data\<rparr>\<rparr>"
    "pb_packets \<lparr>metadata_ring = ring, payload_ring = p\<lparr>rb_storage := overwrite (rb_storage p) start data\<rparr>\<rparr>
      = pb_packets b @ [(h, data)]"
proof -
  let ?q = "payload_ring b"
  have rq: "rb_inv ?q" using wf by (simp add: pb_wf_def)
  obtain xs p where p: "enqueue_many (length data) ?q = Some ((get_idx p (rb_length ?q), length data), p)" "rb_inv p"
      "rb_list p = rb_list ?q @ xs" "length xs = length data" "rb_capacity p = rb_capacity ?q"
      "rb_length p = rb_length ?q + length data" "rb_read_at p = rb_read_at (rb_home ?q)"
      "get_idx p (rb_length ?q) + length data \<le> rb_capacity ?q"
    using enqueue_many_ok [OF rq n] .
  let ?p = "p\<lparr>rb_storage := overwrite (rb_storage p) (get_idx p (rb_length ?q)) data\<rparr>"
  have "get_idx p (length (rb_list ?q)) + length xs \<le> rb_capacity p" using p(4,5,8) by simp
  note f = fill_slice [OF p(2,3) p(4) [symmetric] this, unfolded length_rb_list]
  have "get_idx ?p (rb_length ?q) = get_idx p (rb_length ?q)" by (rule get_idx_same [OF f(3,5)])
  then have fits: "get_idx ?p (rb_length ?q) + length data \<le> rb_capacity ?p" using p(5,8) f(3) by simp
  have "pb_wf \<lparr>metadata_ring = ring, payload_ring = ?p\<rparr>"
    "pb_packets \<lparr>metadata_ring = ring, payload_ring = ?p\<rparr> = pb_packets b @ [(h, data)]"
    using append_entry [OF wf ring f(1,2)] f(3,5) p(5,7) fits by (simp_all add: pm_packet_def is_padding_def)
  moreover have "\<not> ends_padded \<lparr>metadata_ring = ring, payload_ring = ?p\<rparr>"
    using ring(2) by (simp add: ends_padded_def is_padding_def pm_packet_def)
  ultimately show thesis using p(1,5,8) by (intro that) (simp_all add: pb_inv_def)
qed

text \<open>Enqueueing and filling the slice, as every caller of \<open>enqueue\<close> does.\<close>

definition pb_put :: "'h \<Rightarrow> u8 list \<Rightarrow> 'h packet_buffer \<Rightarrow> (bool \<times> 'h packet_buffer) option" where
  "pb_put h data b = do {
     (res, b) \<leftarrow> pb_enqueue (length data) h b;
     case res of
       Inl _ \<Rightarrow> Some (False, b)
     | Inr (start, n) \<Rightarrow> do {
         panic_unless (n = length data);
         Some (True, b\<lparr>payload_ring := (payload_ring b)
           \<lparr>rb_storage := overwrite (rb_storage (payload_ring b)) start data\<rparr>\<rparr>) } }"

lemma pb_clear_inv:
  assumes "pb_inv b" and "rb_is_empty (payload_ring b)"
  shows "pb_inv (b\<lparr>payload_ring := rb_clear (payload_ring b)\<rparr>)"
    and "pb_packets (b\<lparr>payload_ring := rb_clear (payload_ring b)\<rparr>) = pb_packets b"
proof -
  have "rb_list (payload_ring b) = []" using assms(2) by (simp add: rb_list_def rb_is_empty_def rb_len_def)
  then show "pb_packets (b\<lparr>payload_ring := rb_clear (payload_ring b)\<rparr>) = pb_packets b" by (simp add: pb_packets_def)
  have z: "get_idx (rb_clear (payload_ring b)) 0 = 0" by (simp add: get_idx_def rb_clear_def Let_def)
  have "sizes (rb_list (metadata_ring b)) = 0"
    using assms by (simp add: pb_inv_def pb_wf_def rb_is_empty_def rb_len_def)
  then show "pb_inv (b\<lparr>payload_ring := rb_clear (payload_ring b)\<rparr>)"
    using assms z by (simp add: pb_inv_def pb_wf_def ends_padded_def entries_ok_empty)
qed

text \<open>The slice that \<open>enqueue\<close> returns may be filled with any octets: they are the new packet.\<close>

lemma pb_enqueue_ok:
  assumes inv: "pb_inv b"
  obtains (full) b' where "pb_enqueue n h b = Some (Inl Full, b')" "pb_inv b'" "pb_packets b' = pb_packets b"
      "\<not> (pb_is_empty b \<and> 0 < packet_capacity b \<and> n \<le> payload_capacity b)"
  | (room) start b' where "pb_enqueue n h b = Some (Inr (start, n), b')" "start + n \<le> rb_capacity (payload_ring b')"
      "\<And>data. length data = n \<Longrightarrow> pb_inv (b'\<lparr>payload_ring := (payload_ring b')\<lparr>rb_storage := overwrite (rb_storage (payload_ring b')) start data\<rparr>\<rparr>)"
      "\<And>data. length data = n \<Longrightarrow> pb_packets (b'\<lparr>payload_ring := (payload_ring b')\<lparr>rb_storage := overwrite (rb_storage (payload_ring b')) start data\<rparr>\<rparr>)
         = pb_packets b @ [(h, data)]"
proof (cases "rb_capacity (payload_ring b) < n \<or> rb_is_full (metadata_ring b)")
  case True
  have "rb_is_empty (metadata_ring b) \<and> 0 < rb_capacity (metadata_ring b) \<Longrightarrow> \<not> rb_is_full (metadata_ring b)"
    by (simp add: rb_is_empty_def rb_is_full_def rb_window_def)
  with True inv show thesis
    by (intro full [of b]) (auto simp: pb_enqueue_def pb_is_empty_def packet_capacity_def payload_capacity_def)
next
  case False
  define c where "c = (if rb_is_empty (payload_ring b) then b\<lparr>payload_ring := rb_clear (payload_ring b)\<rparr> else b)"
  have c: "pb_inv c" "pb_packets c = pb_packets b" "metadata_ring c = metadata_ring b"
    "rb_capacity (payload_ring c) = rb_capacity (payload_ring b)"
    using pb_clear_inv [OF inv] inv by (simp_all add: c_def)
  have home: "rb_home (payload_ring c) = payload_ring c"
    by (simp add: c_def rb_home_def rb_is_empty_def rb_len_def rb_clear_def)
  have nf: "\<not> rb_is_full (metadata_ring c)" using False c(3) by simp
  have enq: "pb_enqueue n h b = do {
        room \<leftarrow> make_room n c;
        case room of
          Inl e \<Rightarrow> Some (Inl e, c)
        | Inr b \<Rightarrow>
            (case enqueue_metadata (pm_packet n h) (metadata_ring b) of
               Inl e \<Rightarrow> Some (Inl e, b)
             | Inr ring \<Rightarrow> do {
                 ((start, n'), payload) \<leftarrow> enqueue_many n (payload_ring b);
                 panic_unless (n' = n);
                 Some (Inr (start, n'), \<lparr>metadata_ring = ring, payload_ring = payload\<rparr>) }) }"
    unfolding pb_enqueue_def Let_def c_def if_not_P [OF False] by (rule refl)
  have go: thesis if d: "make_room n c = Some (Inr d)" "pb_wf d" "pb_packets d = pb_packets b"
      "n \<le> rb_contiguous_window (rb_home (payload_ring d))" "\<not> rb_is_full (metadata_ring d)" for d
  proof -
    obtain ring where ring: "enqueue_metadata (pm_packet n h) (metadata_ring d) = Inr ring" "rb_inv ring"
      "rb_list ring = rb_list (metadata_ring d) @ [pm_packet n h]" "rb_capacity ring = rb_capacity (metadata_ring d)"
      using enqueue_metadata_ok [OF _ d(5)] d(2) by (metis pb_wf_def)
    have put: "\<exists>start p. enqueue_many n (payload_ring d) = Some ((start, n), p) \<and> start + n \<le> rb_capacity p \<and>
        pb_inv \<lparr>metadata_ring = ring, payload_ring = p\<lparr>rb_storage := overwrite (rb_storage p) start data\<rparr>\<rparr> \<and>
        pb_packets \<lparr>metadata_ring = ring, payload_ring = p\<lparr>rb_storage := overwrite (rb_storage p) start data\<rparr>\<rparr> = pb_packets d @ [(h, data)]"
      if "length data = n" for data
      using append_packet [OF d(2), of data ring h] d(4) ring(2,3) that by metis
    obtain start p where e: "enqueue_many n (payload_ring d) = Some ((start, n), p)" "start + n \<le> rb_capacity p"
      using put [of "replicate n 0"] by auto
    show thesis
    proof (rule room [of start "\<lparr>metadata_ring = ring, payload_ring = p\<rparr>"])
      show "pb_enqueue n h b = Some (Inr (start, n), \<lparr>metadata_ring = ring, payload_ring = p\<rparr>)" using d(1) ring(1) e(1) by (simp add: enq)
    qed (use e put d(3) in auto)
  qed
  have empty: "rb_contiguous_window (payload_ring c) = rb_capacity (payload_ring c)"
    if "pb_is_empty b"
  proof -
    have "sizes (rb_list (metadata_ring b)) = 0"
      using that by (simp add: pb_is_empty_def rb_is_empty_def rb_len_def rb_list_def)
    then have "rb_length (payload_ring b) = 0" using inv by (simp add: pb_inv_def pb_wf_def)
    then show ?thesis
      by (simp add: c_def rb_is_empty_def rb_len_def rb_contiguous_window_def rb_window_def get_idx_def rb_clear_def Let_def)
  qed
  show thesis
  proof (cases rule: make_room_ok [OF c(1) nf, of n, case_names mr_full same padded])
    case mr_full
    moreover have "\<not> (pb_is_empty b \<and> n \<le> payload_capacity b)"
      using mr_full empty c(4) by (auto simp: make_room_def Let_def payload_capacity_def rb_contiguous_window_def split: if_splits)
    ultimately show thesis using c by (intro full [of c]) (auto simp: enq)
  next
    case same
    then show thesis
      using c nf home by (intro go [of c]) (simp_all add: pb_inv_def)
  next
    case (padded d)
    show thesis
    proof (cases "rb_is_full (metadata_ring d)")
      case True
      moreover have "\<not> (pb_is_empty b \<and> n \<le> payload_capacity b)"
        using padded(8) empty c(4) by (auto simp: payload_capacity_def)
      ultimately show thesis
        using padded(1,3,5) c(2) home by (intro full [of d]) (auto simp: enq enqueue_metadata_full)
    next
      case False
      then show thesis using padded c(2) by (intro go [of d]) simp_all
    qed
  qed
qed

lemma pb_put_ok:
  assumes inv: "pb_inv b"
  obtains stored b' where "pb_put h data b = Some (stored, b')" "pb_inv b'"
    "pb_packets b' = pb_packets b @ (if stored then [(h, data)] else [])"
    "pb_is_empty b \<and> 0 < packet_capacity b \<and> length data \<le> payload_capacity b \<longrightarrow> stored"
proof (cases rule: pb_enqueue_ok [OF inv, of "length data" h, case_names full room])
  case (full b')
  then show thesis by (intro that [of False b']) (auto simp: pb_put_def)
next
  case (room start b')
  show thesis using room(1,3,4)
    by (intro that [of True "b'\<lparr>payload_ring := (payload_ring b')\<lparr>rb_storage := overwrite (rb_storage (payload_ring b')) start data\<rparr>\<rparr>"])
      (simp_all add: pb_put_def)
qed

text \<open>A caller that builds the packet in the slice, from the octets that are there: \<open>fill\<close> replaces them, or panics.\<close>

definition pb_fill :: "nat \<Rightarrow> 'h \<Rightarrow> (u8 list \<Rightarrow> u8 list option) \<Rightarrow> 'h packet_buffer \<Rightarrow> (bool \<times> 'h packet_buffer) option" where
  "pb_fill n h fill b = do {
     (res, b) \<leftarrow> pb_enqueue n h b;
     case res of
       Inl _ \<Rightarrow> Some (False, b)
     | Inr (start, n) \<Rightarrow> do {
         old \<leftarrow> slice (rb_storage (payload_ring b)) start (start + n);
         data \<leftarrow> fill old;
         Some (True, b\<lparr>payload_ring := (payload_ring b)
           \<lparr>rb_storage := overwrite (rb_storage (payload_ring b)) start data\<rparr>\<rparr>) } }"

lemma pb_fill_ok:
  assumes inv: "pb_inv b" and fill: "\<And>old. length old = n \<Longrightarrow> \<exists>data. fill old = Some data \<and> length data = n \<and> P data"
  obtains (full) b' where "pb_fill n h fill b = Some (False, b')" "pb_inv b'" "pb_packets b' = pb_packets b"
      "\<not> (pb_is_empty b \<and> 0 < packet_capacity b \<and> n \<le> payload_capacity b)"
  | (stored) data b' where "pb_fill n h fill b = Some (True, b')" "pb_inv b'" "pb_packets b' = pb_packets b @ [(h, data)]"
      "length data = n" "P data"
proof (cases rule: pb_enqueue_ok [OF inv, of n h, case_names full room])
  case (full b')
  then show thesis by (intro that(1) [of b']) (auto simp: pb_fill_def)
next
  case (room start b')
  let ?old = "take n (drop start (rb_storage (payload_ring b')))"
  have len: "start + n \<le> length (rb_storage (payload_ring b'))" using room(2) by (simp add: rb_capacity_def)
  then obtain data where data: "fill ?old = Some data" "length data = n" "P data" using fill [of ?old] by auto
  have "slice (rb_storage (payload_ring b')) start (start + n) = Some ?old" using len by (simp add: slice_def)
  then show thesis using room(1) room(3,4) [OF data(2)] data by (intro that(2) [of _ data]) (simp_all add: pb_fill_def)
qed

section \<open>Dequeueing\<close>

lemma drop_entry:
  assumes inv: "pb_inv b" and list: "rb_list (metadata_ring b) = m # ms"
    and ring: "rb_inv ring" "rb_list ring = ms"
    and n: "p = rb_drop (pm_size m) (payload_ring b)"
  shows "pb_inv \<lparr>metadata_ring = ring, payload_ring = p\<rparr>"
    and "pb_packets \<lparr>metadata_ring = ring, payload_ring = p\<rparr> = entries_packets (drop (pm_size m) (rb_list (payload_ring b))) ms"
proof -
  let ?q = "payload_ring b"
  have rq: "rb_inv ?q" and sz: "pm_size m + sizes ms = rb_length ?q" and ok: "entries_ok ?q (pm_size m) ms"
    and sp: "spaced (m # ms)"
    using inv list by (simp_all add: pb_inv_def pb_wf_def)
  have le: "pm_size m \<le> rb_length ?q" using sz by simp
  note d = rb_drop_props [OF rq le]
  have i: "get_idx p i = get_idx ?q (pm_size m + i)" for i using get_idx_drop [OF rq le] n by simp
  have "entries_ok p 0 ms" using ok entries_ok_shift [of p ?q "pm_size m" 0 ms] i d n by simp
  moreover have "spaced ms" using sp by (cases ms) simp_all
  moreover have "ms \<noteq> [] \<and> is_padding (last ms) \<longrightarrow> get_idx ?q (rb_length ?q) = 0"
    using inv list by (auto simp: pb_inv_def ends_padded_def)
  ultimately show "pb_inv \<lparr>metadata_ring = ring, payload_ring = p\<rparr>"
    using ring d sz le i by (simp add: pb_inv_def pb_wf_def ends_padded_def n)
  show "pb_packets \<lparr>metadata_ring = ring, payload_ring = p\<rparr> = entries_packets (drop (pm_size m) (rb_list ?q)) ms"
    using ring d n by (simp add: pb_packets_def)
qed


text \<open>Writing over the first elements, in place.\<close>

lemma rb_overwrite_front:
  assumes inv: "rb_inv p" and n: "length data \<le> rb_length p" and fits: "rb_read_at p + length data \<le> rb_capacity p"
  defines "p' \<equiv> p\<lparr>rb_storage := overwrite (rb_storage p) (rb_read_at p) data\<rparr>"
  shows "rb_inv p'" "rb_list p' = data @ drop (length data) (rb_list p)" "rb_capacity p' = rb_capacity p"
    "rb_length p' = rb_length p" "rb_read_at p' = rb_read_at p"
proof -
  have z: "get_idx p 0 = rb_read_at p" using inv by (simp add: get_idx_def Let_def rb_inv_def split: if_splits)
  have cap: "rb_length p \<le> rb_capacity p" using inv by (simp add: rb_inv_def)
  show c: "rb_capacity p' = rb_capacity p" and l: "rb_length p' = rb_length p" and "rb_read_at p' = rb_read_at p"
    using fits by (simp_all add: p'_def rb_capacity_def)
  show "rb_inv p'" using inv c by (simp add: rb_inv_def p'_def)
  show "rb_list p' = data @ drop (length data) (rb_list p)"
  proof (rule rb_list_eqI)
    fix i
    assume i: "i < rb_length p'"
    have "rb_at p' i = (if i < length data then data ! i else rb_at p i)"
      using rb_at_overwrite [OF inv, of 0 data i] i l cap fits n by (simp add: p'_def z)
    then show "rb_at p' i = (data @ drop (length data) (rb_list p)) ! i" using i l n by (simp add: nth_append)
  qed (use l n in simp)
qed

lemma dequeue_many_front:
  assumes inv: "rb_inv p" and n: "n \<le> rb_length p" and fits: "rb_read_at p + n \<le> rb_capacity p"
  shows "dequeue_many n p = Some (take n (rb_list p), rb_drop n p)"
proof -
  let ?f = "\<lambda>buf :: 'a list. let k = min n (length buf) in (k, take k buf, buf)"
  have ro: "reads_only ?f" by (simp add: reads_only_def Let_def)
  have "?f (front_slice p) = (n, take n (rb_list p), front_slice p)"
    using n fits by (auto simp: front_slice_eq [OF inv] Let_def min_def)
  from dequeue_many_with_spec(1) [OF inv ro this] show ?thesis by (simp add: dequeue_many_def)
qed

text \<open>The first element of a ring: replaced, and taken out.\<close>

lemma rb_list_Nil: "rb_list r = [] \<longleftrightarrow> rb_is_empty r"
  by (simp add: rb_list_def rb_is_empty_def rb_len_def)

lemma ring_head:
  assumes inv: "rb_inv r" and list: "rb_list r = m # ms"
  shows "rb_storage r ! rb_read_at r = m" "\<not> rb_is_empty r" "rb_read_at r < rb_capacity r" "0 < rb_length r"
proof -
  show l: "0 < rb_length r" using arg_cong [OF list, of length] by simp
  then show "\<not> rb_is_empty r" by (simp add: rb_is_empty_def rb_len_def)
  have "0 < rb_capacity r" using inv l by (simp add: rb_inv_def)
  then show r: "rb_read_at r < rb_capacity r" using inv by (simp add: rb_inv_def)
  have "rb_at r 0 = m" using nth_rb_list [OF l] list by simp
  then show "rb_storage r ! rb_read_at r = m" using r by (simp add: rb_at_def)
qed

lemma ring_head_set:
  fixes r :: "'a ring_buffer" and x :: 'a
  assumes inv: "rb_inv r" and list: "rb_list r = m # ms"
  defines "r' \<equiv> r\<lparr>rb_storage := (rb_storage r)[rb_read_at r := x]\<rparr>"
  shows "rb_inv r'" "rb_list r' = x # ms" "rb_capacity r' = rb_capacity r"
proof -
  note h = ring_head [OF inv list]
  have "r' = r\<lparr>rb_storage := overwrite (rb_storage r) (rb_read_at r) [x]\<rparr>"
    using h(3) by (simp add: r'_def overwrite_singleton rb_capacity_def)
  then show "rb_inv r'" "rb_list r' = x # ms" "rb_capacity r' = rb_capacity r"
    using rb_overwrite_front [OF inv, of "[x]"] h list by simp_all
qed

lemma ring_head_drop:
  fixes r :: "'a ring_buffer" and x :: 'a
  assumes inv: "rb_inv r" and list: "rb_list r = m # ms"
  defines "r' \<equiv> r\<lparr>rb_storage := (rb_storage r)[rb_read_at r := x], rb_length := rb_length r - 1,
    rb_read_at := get_idx_unchecked r 1\<rparr>"
  shows "rb_inv r'" "rb_list r' = ms" "rb_capacity r' = rb_capacity r"
proof -
  let ?s = "r\<lparr>rb_storage := (rb_storage r)[rb_read_at r := x]\<rparr>"
  note s = ring_head_set [OF inv list, of x] and h = ring_head [OF inv list]
  have "r' = rb_drop 1 ?s"
    using h by (auto simp: r'_def rb_drop_def get_idx_def get_idx_unchecked_def rb_capacity_def Let_def)
  moreover have "1 \<le> rb_length ?s" using h(4) by simp
  ultimately show "rb_inv r'" "rb_list r' = ms" "rb_capacity r' = rb_capacity r"
    using rb_drop_props(1-3) [OF s(1), of 1] s(2,3) by simp_all
qed

lemma entry_front:
  assumes inv: "pb_inv b" and list: "rb_list (metadata_ring b) = m # ms"
  shows "rb_inv (metadata_ring b)" "rb_inv (payload_ring b)" "pm_size m \<le> rb_length (payload_ring b)"
    "rb_read_at (payload_ring b) + pm_size m \<le> rb_capacity (payload_ring b)"
proof -
  show "rb_inv (metadata_ring b)" and p: "rb_inv (payload_ring b)" using inv by (simp_all add: pb_inv_def pb_wf_def)
  show "pm_size m \<le> rb_length (payload_ring b)" using inv list by (simp add: pb_inv_def pb_wf_def)
  have "get_idx (payload_ring b) 0 = rb_read_at (payload_ring b)"
    using p by (simp add: get_idx_def Let_def rb_inv_def split: if_splits)
  then show "rb_read_at (payload_ring b) + pm_size m \<le> rb_capacity (payload_ring b)"
    using inv list by (simp add: pb_inv_def pb_wf_def)
qed

lemma dequeue_padding_ok:
  assumes inv: "pb_inv b"
  obtains b' where "dequeue_padding b = Some b'" "pb_inv b'" "pb_packets b' = pb_packets b"
    "packet_capacity b' = packet_capacity b" "payload_capacity b' = payload_capacity b"
    "rb_list (metadata_ring b') = [] \<or> (\<exists>m ms h. rb_list (metadata_ring b') = m # ms \<and> pm_header m = Some h)"
proof (cases "rb_list (metadata_ring b)")
  case Nil
  then have "rb_is_empty (metadata_ring b)" by (simp add: rb_list_Nil)
  then show thesis using inv Nil by (intro that [of b]) (simp_all add: dequeue_padding_def)
next
  case (Cons m ms)
  note f = entry_front [OF inv Cons]
  note h = ring_head [OF f(1) Cons]
  show thesis
  proof (cases "pm_header m")
    case None
    define ring where "ring = (metadata_ring b)
      \<lparr>rb_storage := (rb_storage (metadata_ring b))[rb_read_at (metadata_ring b) := m], rb_length := rb_length (metadata_ring b) - 1,
      rb_read_at := get_idx_unchecked (metadata_ring b) 1\<rparr>"
    have ring: "rb_inv ring" "rb_list ring = ms" "rb_capacity ring = rb_capacity (metadata_ring b)"
      unfolding ring_def by (rule ring_head_drop [OF f(1) Cons])+
    let ?b = "\<lparr>metadata_ring = ring, payload_ring = rb_drop (pm_size m) (payload_ring b)\<rparr>"
    have "dequeue_padding b = Some ?b"
      using h None dequeue_many_front [OF f(2-4)] list_update_id [of "rb_storage (metadata_ring b)" "rb_read_at (metadata_ring b)"]
      by (simp add: dequeue_padding_def Let_def is_padding_def dequeue_one_with_def ring_def)
    moreover have "pb_inv ?b" "pb_packets ?b = pb_packets b"
      using drop_entry [OF inv Cons ring(1,2) refl] Cons None by (simp_all add: pb_packets_def)
    moreover have "ms = [] \<or> (\<exists>m' ms' h. ms = m' # ms' \<and> pm_header m' = Some h)"
      using inv Cons None by (cases ms) (auto simp: pb_inv_def pb_wf_def is_padding_def)
    ultimately show thesis
      using ring rb_drop_props(3) [OF f(2,3)] by (intro that [of ?b]) (simp_all add: packet_capacity_def payload_capacity_def)
  next
    case (Some x)
    then show thesis using inv h Cons by (intro that [of b]) (simp_all add: dequeue_padding_def Let_def is_padding_def)
  qed
qed

lemma pb_dequeue_ok:
  assumes inv: "pb_inv b"
  obtains b' where "pb_dequeue b = Some (case pb_packets b of [] \<Rightarrow> Inl Empty | x # _ \<Rightarrow> Inr x, b')" "pb_inv b'"
    "pb_packets b' = tl (pb_packets b)" "packet_capacity b' = packet_capacity b" "payload_capacity b' = payload_capacity b"
proof -
  obtain d where d: "dequeue_padding b = Some d" "pb_inv d" "pb_packets d = pb_packets b"
    "packet_capacity d = packet_capacity b" "payload_capacity d = payload_capacity b"
    "rb_list (metadata_ring d) = [] \<or> (\<exists>m ms h. rb_list (metadata_ring d) = m # ms \<and> pm_header m = Some h)"
    using dequeue_padding_ok [OF inv] .
  from d(6) consider "rb_list (metadata_ring d) = []"
    | m ms h where "rb_list (metadata_ring d) = m # ms" "pm_header m = Some h" by blast
  then show thesis
  proof cases
    case 1
    then have "rb_is_empty (metadata_ring d)" by (simp add: rb_list_Nil)
    moreover have "pb_packets b = []" using 1 by (simp add: d(3) [symmetric]) (simp add: pb_packets_def)
    ultimately show thesis
      using d by (intro that [of d]) (simp_all add: pb_dequeue_def dequeue_one_def dequeue_one_with_def)
  next
    case (2 m ms h)
    note f = entry_front [OF d(2) 2(1)]
    note r = ring_head [OF f(1) 2(1)]
    let ?ring = "(metadata_ring d)\<lparr>rb_storage := (rb_storage (metadata_ring d))[rb_read_at (metadata_ring d) := m\<lparr>pm_header := None\<rparr>],
       rb_length := rb_length (metadata_ring d) - 1, rb_read_at := get_idx_unchecked (metadata_ring d) 1\<rparr>"
    note ring = ring_head_drop [OF f(1) 2(1), of "m\<lparr>pm_header := None\<rparr>"]
    let ?b = "\<lparr>metadata_ring = ?ring, payload_ring = rb_drop (pm_size m) (payload_ring d)\<rparr>"
    have e: "pb_dequeue b = Some (Inr (h, take (pm_size m) (rb_list (payload_ring d))), ?b)"
      using d(1) r 2 dequeue_many_front [OF f(2-4)] f(3)
      by (simp add: pb_dequeue_def dequeue_one_def dequeue_one_with_def Let_def list_update_overwrite rb_capacity_def)
    have p: "pb_packets b = (h, take (pm_size m) (rb_list (payload_ring d))) # pb_packets ?b"
      using drop_entry(2) [OF d(2) 2(1) ring(1,2) refl] 2 by (simp add: d(3) [symmetric]) (simp add: pb_packets_def)
    show thesis
      using e p drop_entry(1) [OF d(2) 2(1) ring(1,2) refl] ring(3) rb_drop_props(3) [OF f(2,3)] d(4,5)
      by (intro that [of ?b]) (simp_all add: packet_capacity_def payload_capacity_def)
  qed
qed


lemma overwrite_part:
  assumes "length ys \<le> m" and "a + m \<le> length s"
  shows "overwrite s a (overwrite (take m (drop a s)) 0 ys) = overwrite s a ys"
proof -
  let ?k = "length ys"
  have "drop ?k (take m (drop a s)) = take (m - ?k) (drop (a + ?k) s)" by (simp add: drop_take add.commute)
  moreover have "drop (a + m) s = drop (m - ?k) (drop (a + ?k) s)" using assms by (simp add: add.commute)
  ultimately have "drop ?k (take m (drop a s)) @ drop (a + m) s = drop (a + ?k) s"
    by (metis append_take_drop_id)
  then show ?thesis using assms by (simp add: overwrite_def)
qed

lemma replace_head:
  assumes inv: "pb_inv b" and list: "rb_list (metadata_ring b) = m # ms" and m: "pm_header m = Some h"
    and data: "length data = pm_size m"
    and ring: "rb_inv ring" "rb_list ring = m\<lparr>pm_header := Some h'\<rparr> # ms"
  defines "p \<equiv> (payload_ring b)\<lparr>rb_storage := overwrite (rb_storage (payload_ring b)) (rb_read_at (payload_ring b)) data\<rparr>"
  shows "pb_inv \<lparr>metadata_ring = ring, payload_ring = p\<rparr>"
    and "rb_list p = data @ drop (pm_size m) (rb_list (payload_ring b))"
    and "rb_capacity p = rb_capacity (payload_ring b)"
proof -
  let ?m = "m\<lparr>pm_header := Some h'\<rparr>"
  note e = entry_front [OF inv list]
  note p = rb_overwrite_front [OF e(2), of data, unfolded data, OF e(3,4), folded p_def]
  show "rb_list p = data @ drop (pm_size m) (rb_list (payload_ring b))" and c: "rb_capacity p = rb_capacity (payload_ring b)"
    using p by simp_all
  have i: "get_idx p i = get_idx (payload_ring b) i" for i by (rule get_idx_same [OF p(3,5)])
  have "entries_ok p 0 (?m # ms)"
    using inv list c entries_ok_cong [of 0 "m # ms" p "payload_ring b"] i by (simp add: pb_inv_def pb_wf_def)
  moreover have "spaced (?m # ms)" using inv list by (cases ms) (simp_all add: pb_inv_def pb_wf_def is_padding_def)
  ultimately have "pb_wf \<lparr>metadata_ring = ring, payload_ring = p\<rparr>"
    using inv list ring p(1,4) by (simp add: pb_inv_def pb_wf_def)
  moreover have "ends_padded \<lparr>metadata_ring = ring, payload_ring = p\<rparr> \<longrightarrow> ends_padded b"
    using ring list by (simp add: ends_padded_def is_padding_def)
  ultimately show "pb_inv \<lparr>metadata_ring = ring, payload_ring = p\<rparr>"
    using inv p(4) i by (simp add: pb_inv_def)
qed

text \<open>
  \<open>dequeue_with\<close>: the closure may change the header and the octets; an error keeps the packet, with
  these changes.
\<close>

lemma pb_dequeue_with_ok:
  assumes inv: "pb_inv b" and f: "\<And>h xs. length (snd (snd (f h xs))) = length xs"
  obtains (none) b' where "pb_dequeue_with f b = Some (Inl Empty, b')" "pb_inv b'" "pb_packets b = []" "pb_packets b' = []"
      "packet_capacity b' = packet_capacity b" "payload_capacity b' = payload_capacity b"
  | (some) h xs rest b' where "pb_packets b = (h, xs) # rest" "pb_dequeue_with f b = Some (Inr (fst (f h xs)), b')" "pb_inv b'"
      "pb_packets b' = (if isl (fst (f h xs)) then [snd (f h xs)] else []) @ rest"
      "packet_capacity b' = packet_capacity b" "payload_capacity b' = payload_capacity b"
proof -
  obtain d where d: "dequeue_padding b = Some d" "pb_inv d" "pb_packets d = pb_packets b"
    "packet_capacity d = packet_capacity b" "payload_capacity d = payload_capacity b"
    "rb_list (metadata_ring d) = [] \<or> (\<exists>m ms h. rb_list (metadata_ring d) = m # ms \<and> pm_header m = Some h)"
    using dequeue_padding_ok [OF inv] .
  from d(6) consider "rb_list (metadata_ring d) = []"
    | m ms h where "rb_list (metadata_ring d) = m # ms" "pm_header m = Some h" by blast
  then show thesis
  proof cases
    case 1
    then have "rb_is_empty (metadata_ring d)" by (simp add: rb_list_Nil)
    moreover have "pb_packets b = []" using 1 by (simp add: d(3) [symmetric]) (simp add: pb_packets_def)
    ultimately show thesis using d by (intro none [of d]) (simp_all add: pb_dequeue_with_def)
  next
    case (2 m ms h)
    let ?p = "payload_ring d" and ?r = "metadata_ring d"
    let ?xs = "take (pm_size m) (rb_list ?p)"
    note e = entry_front [OF d(2) 2(1)]
    note r = ring_head [OF e(1) 2(1)]
    obtain res h' buf where fx: "f h ?xs = (res, h', buf)" by (cases "f h ?xs")
    have len: "length buf = pm_size m" using f [of h ?xs] e(3) fx by simp
    let ?k = "if isl res then 0 else pm_size m"
    define q where "q = ?p\<lparr>rb_storage := overwrite (rb_storage ?p) (rb_read_at ?p) buf\<rparr>"
    define ring where "ring = ?r\<lparr>rb_storage := (rb_storage ?r)[rb_read_at ?r := m\<lparr>pm_header := Some h'\<rparr>]\<rparr>"
    note ring = ring_head_set [OF e(1) 2(1), of "m\<lparr>pm_header := Some h'\<rparr>", folded ring_def]
    note q = replace_head [OF d(2) 2 len ring(1,2), folded q_def]
    have pk: "pb_packets b = (h, ?xs) # entries_packets (drop (pm_size m) (rb_list ?p)) ms"
      using 2 by (simp add: d(3) [symmetric]) (simp add: pb_packets_def)
    have g: "dequeue_many_with
          (\<lambda>buf. case f h (take (pm_size m) buf) of (res, h', buf') \<Rightarrow>
             (if isl res then 0 else pm_size m, (res, h'), overwrite buf 0 buf')) ?p
        = Some ((?k, res, h'), if isl res then q else rb_drop (pm_size m) q)" (is "?lhs = _")
    proof -
      let ?n = "min (rb_len ?p) (rb_capacity ?p - rb_read_at ?p)"
      have "take (pm_size m) (front_slice ?p) = ?xs" using e(4) by (simp add: front_slice_eq [OF e(2)])
      then have "f h (take (pm_size m) (take ?n (drop (rb_read_at ?p) (rb_storage ?p)))) = (res, h', buf)"
        using fx by (simp add: front_slice_def)
      moreover have "overwrite (rb_storage ?p) (rb_read_at ?p) (overwrite (take ?n (drop (rb_read_at ?p) (rb_storage ?p))) 0 buf)
          = rb_storage q"
        using e(3,4) len by (simp add: q_def overwrite_part rb_capacity_def rb_len_def)
      moreover have "pm_size m \<le> ?n" using e(3,4) by (simp add: rb_len_def)
      moreover have "rb_read_at ?p = (if 0 < rb_capacity ?p then rb_read_at ?p mod rb_capacity ?p else 0)"
        using e(2) by (simp add: rb_inv_def)
      ultimately show ?thesis
        using q(3) by (auto simp: dequeue_many_with_def Let_def rb_drop_def get_idx_def q_def)
    qed
    show thesis
    proof (cases "isl res")
      case True
      let ?b = "\<lparr>metadata_ring = ring, payload_ring = q\<rparr>"
      have "pb_dequeue_with f b = Some (Inr res, ?b)"
        using d(1) r 2 g e(3,4) True by (simp add: pb_dequeue_with_def Let_def rb_len_def dequeue_one_with_def ring_def)
      then show thesis
        using pk q fx True ring len d(4,5)
        by (intro some [of h ?xs "entries_packets (drop (pm_size m) (rb_list ?p)) ms" ?b])
          (simp_all add: pb_packets_def packet_capacity_def payload_capacity_def)
    next
      case False
      let ?ring = "ring\<lparr>rb_length := rb_length ?r - 1, rb_read_at := get_idx_unchecked ?r 1\<rparr>"
      let ?b = "\<lparr>metadata_ring = ?ring, payload_ring = rb_drop (pm_size m) q\<rparr>"
      note ring' = ring_head_drop [OF e(1) 2(1), of "m\<lparr>pm_header := Some h'\<rparr>"]
      have r': "rb_inv ?ring" "rb_list ?ring = ms" "rb_capacity ?ring = rb_capacity ?r" using ring' by (simp_all add: ring_def)
      have "pb_dequeue_with f b = Some (Inr res, ?b)"
        using d(1) r 2 g e(3,4) False by (simp add: pb_dequeue_with_def Let_def rb_len_def dequeue_one_with_def ring_def)
      moreover have "pb_inv ?b" "pb_packets ?b = entries_packets (drop (pm_size m) (rb_list ?p)) ms"
        using drop_entry [OF q(1), of "m\<lparr>pm_header := Some h'\<rparr>" ms ?ring] ring(2) r' q(2) len by simp_all
      moreover have "rb_capacity (rb_drop (pm_size m) q) = rb_capacity q"
        by (simp add: rb_drop_def rb_capacity_def)
      ultimately show thesis
        using pk fx False r' d(4,5) q(3)
        by (intro some [of h ?xs "entries_packets (drop (pm_size m) (rb_list ?p)) ms" ?b])
          (simp_all add: packet_capacity_def payload_capacity_def)
    qed
  qed
qed


lemma pb_peek_ok:
  assumes inv: "pb_inv b"
  obtains b' where "pb_peek b = Some (case pb_packets b of [] \<Rightarrow> Inl Empty | x # _ \<Rightarrow> Inr x, b')" "pb_inv b'"
    "pb_packets b' = pb_packets b" "packet_capacity b' = packet_capacity b" "payload_capacity b' = payload_capacity b"
proof -
  obtain d where d: "dequeue_padding b = Some d" "pb_inv d" "pb_packets d = pb_packets b"
    "packet_capacity d = packet_capacity b" "payload_capacity d = payload_capacity b"
    "rb_list (metadata_ring d) = [] \<or> (\<exists>m ms h. rb_list (metadata_ring d) = m # ms \<and> pm_header m = Some h)"
    using dequeue_padding_ok [OF inv] .
  have im: "rb_inv (metadata_ring d)" and ip: "rb_inv (payload_ring d)" using d(2) by (simp_all add: pb_inv_def pb_wf_def)
  have z: "rb_inv p \<Longrightarrow> get_idx p 0 = rb_read_at p" for p :: "'x ring_buffer"
    by (simp add: get_idx_def Let_def rb_inv_def split: if_splits)
  from d(6) consider "rb_list (metadata_ring d) = []"
    | m ms h where "rb_list (metadata_ring d) = m # ms" "pm_header m = Some h" by blast
  then have "pb_peek b = Some (case pb_packets b of [] \<Rightarrow> Inl Empty | x # _ \<Rightarrow> Inr x, d)"
  proof cases
    case 1
    moreover have "pb_packets b = []" using 1 by (simp add: d(3) [symmetric]) (simp add: pb_packets_def)
    ultimately show ?thesis using d(1) im by (simp add: pb_peek_def get_allocated_eq)
  next
    case (2 m ms h)
    note f = entry_front [OF d(2) 2(1)]
    note r = ring_head [OF f(1) 2(1)]
    have "pb_packets b = (h, take (pm_size m) (rb_list (payload_ring d))) # entries_packets (drop (pm_size m) (rb_list (payload_ring d))) ms"
      using 2 by (simp add: d(3) [symmetric]) (simp add: pb_packets_def)
    moreover have "get_allocated 0 1 (metadata_ring d) = [m]"
      using 2 r(3) z [OF f(1)] by (simp add: get_allocated_eq [OF f(1)])
    moreover have "get_allocated 0 (pm_size m) (payload_ring d) = take (pm_size m) (rb_list (payload_ring d))"
      using f(4) z [OF f(2)] by (simp add: get_allocated_eq [OF f(2)])
    ultimately show ?thesis using d(1) 2 by (simp add: pb_peek_def)
  qed
  with d show thesis by (intro that)
qed

section \<open>The queue of datagrams\<close>

text \<open>
  What a socket relies on: a queue of headers with payloads, first in, first out. A packet that is
  not stored leaves the others as they are.
\<close>

datatype 'h dg_op = Put 'h "u8 list" | Get

fun dg_run ::
  "('h \<Rightarrow> u8 list \<Rightarrow> 'q \<Rightarrow> (bool \<times> 'q) option) \<Rightarrow> ('q \<Rightarrow> ((empty + 'h \<times> u8 list) \<times> 'q) option) \<Rightarrow>
   'h dg_op list \<Rightarrow> 'q \<Rightarrow> (('h \<times> u8 list) list \<times> ('h \<times> u8 list) list \<times> 'q) option" where
  "dg_run put get [] q = Some ([], [], q)"
| "dg_run put get (Put h xs # ops) q = do {
     (stored, q) \<leftarrow> put h xs q;
     (acc, del, q) \<leftarrow> dg_run put get ops q;
     Some ((if stored then [(h, xs)] else []) @ acc, del, q) }"
| "dg_run put get (Get # ops) q = do {
     (res, q) \<leftarrow> get q;
     (acc, del, q) \<leftarrow> dg_run put get ops q;
     Some (acc, (case res of Inl _ \<Rightarrow> [] | Inr x \<Rightarrow> [x]) @ del, q) }"

locale datagram_queue =
  fixes good :: "'q \<Rightarrow> bool"
    and items :: "'q \<Rightarrow> ('h \<times> u8 list) list"
    and put :: "'h \<Rightarrow> u8 list \<Rightarrow> 'q \<Rightarrow> (bool \<times> 'q) option"
    and get :: "'q \<Rightarrow> ((empty + 'h \<times> u8 list) \<times> 'q) option"
  assumes put_law: "good q \<Longrightarrow> \<exists>stored q'. put h xs q = Some (stored, q') \<and> good q' \<and>
      items q' = items q @ (if stored then [(h, xs)] else [])"
    and get_law: "good q \<Longrightarrow> \<exists>q'. get q = Some (case items q of [] \<Rightarrow> Inl Empty | x # _ \<Rightarrow> Inr x, q') \<and> good q' \<and>
      items q' = tl (items q)"
begin

lemma run_lossless:
  "good q \<Longrightarrow> \<exists>acc del q'. dg_run put get ops q = Some (acc, del, q') \<and> good q' \<and> items q @ acc = del @ items q'"
proof (induction ops arbitrary: q)
  case Nil
  then show ?case by simp
next
  case (Cons x ops)
  show ?case
  proof (cases x)
    case (Put h xs)
    obtain stored q1 where q1: "put h xs q = Some (stored, q1)" "good q1"
      "items q1 = items q @ (if stored then [(h, xs)] else [])"
      using put_law [OF Cons.prems] by blast
    with Cons.IH [OF q1(2)] Put show ?thesis by force
  next
    case Get
    obtain q1 where q1: "get q = Some (case items q of [] \<Rightarrow> Inl Empty | y # _ \<Rightarrow> Inr y, q1)" "good q1"
      "items q1 = tl (items q)"
      using get_law [OF Cons.prems] by blast
    with Cons.IH [OF q1(2)] Get show ?thesis by (force split: list.splits)
  qed
qed

end

interpretation pb: datagram_queue pb_inv pb_packets pb_put pb_dequeue
proof
  fix q :: "'h packet_buffer" and h xs
  assume q: "pb_inv q"
  show "\<exists>stored q'. pb_put h xs q = Some (stored, q') \<and> pb_inv q' \<and>
      pb_packets q' = pb_packets q @ (if stored then [(h, xs)] else [])"
    by (rule pb_put_ok [OF q, of h xs]) blast
  show "\<exists>q'. pb_dequeue q = Some (case pb_packets q of [] \<Rightarrow> Inl Empty | x # _ \<Rightarrow> Inr x, q') \<and> pb_inv q' \<and>
      pb_packets q' = tl (pb_packets q)"
    by (rule pb_dequeue_ok [OF q]) blast
qed

text \<open>
  C26: The packet buffer is a queue of whole packets. For any run of enqueueing (a slice requested
  with \<open>enqueue\<close> and filled) and dequeueing on a fresh buffer, whatever its two storages, no operation
  panics, and the packets that were stored are, in order, header and payload octet for octet, those that
  were dequeued followed by those that are still in the buffer; padding is never seen.
\<close>

theorem packet_buffer_fifo:
  "\<exists>stored delivered b'. dg_run pb_put pb_dequeue ops (pb_new ms ps) = Some (stored, delivered, b') \<and>
     pb_inv b' \<and> stored = delivered @ pb_packets b'"
  using pb.run_lossless [OF pb_new_inv, of ops ms ps] by (simp add: pb_new_packets)

section \<open>The closure form of enqueueing\<close>

text \<open>The closure keeps the length of its slice, and reports no more octets than it was given.\<close>

definition fills :: "(u8 list \<Rightarrow> nat \<times> u8 list) \<Rightarrow> bool" where
  "fills f \<longleftrightarrow> (\<forall>buf. fst (f buf) \<le> length buf \<and> length (snd (f buf)) = length buf)"

lemma append_with:
  assumes wf: "pb_wf b" and room: "\<not> rb_is_full (metadata_ring b)" and f: "fills f"
    and n: "max_size \<le> rb_contiguous_window (rb_home (payload_ring b))"
  obtains buf p ring where "length buf = max_size"
    "enqueue_many_with (\<lambda>data. case f (take max_size data) of (n, buf) \<Rightarrow> (n, (), overwrite data 0 buf)) (payload_ring b)
      = Some ((fst (f buf), ()), p)"
    "enqueue_metadata (pm_packet (fst (f buf)) h) (metadata_ring b) = Inr ring"
    "pb_inv \<lparr>metadata_ring = ring, payload_ring = p\<rparr>"
    "pb_packets \<lparr>metadata_ring = ring, payload_ring = p\<rparr> = pb_packets b @ [(h, take (fst (f buf)) (snd (f buf)))]"
proof -
  let ?q = "payload_ring b" and ?F = "\<lambda>data. case f (take max_size data) of (n, buf) \<Rightarrow> (n, (), overwrite data 0 buf)"
  have rq: "rb_inv ?q" and rm: "rb_inv (metadata_ring b)" using wf by (simp_all add: pb_wf_def)
  have lf: "fst (f buf) \<le> length buf" "length (snd (f buf)) = length buf" for buf using f by (simp_all add: fills_def)
  have sf: "slice_fn ?F"
    unfolding slice_fn_def
  proof
    fix d
    show "fst (?F d) \<le> length d \<and> length (snd (snd (?F d))) = length d"
      using lf [of "take max_size d"] by (auto simp: overwrite_def split: prod.splits)
  qed
  define buf where "buf = take max_size (free_slice (rb_home ?q))"
  have lb: "length buf = max_size" using n length_free_slice [of "rb_home ?q"] rq by (simp add: buf_def)
  have "?F (free_slice (rb_home ?q)) = (fst (f buf), (), overwrite (free_slice (rb_home ?q)) 0 (snd (f buf)))"
    by (simp add: buf_def split: prod.splits)
  from enqueue_many_with_spec [OF rq sf this] obtain p where
    p: "enqueue_many_with ?F ?q = Some ((fst (f buf), ()), p)" "rb_inv p"
      "rb_list p = rb_list ?q @ take (fst (f buf)) (overwrite (free_slice (rb_home ?q)) 0 (snd (f buf)))"
      "rb_capacity p = rb_capacity ?q" "rb_length p = rb_length ?q + fst (f buf)" "rb_read_at p = rb_read_at (rb_home ?q)"
      "fst (f buf) \<le> rb_contiguous_window (rb_home ?q)" by blast
  have xs: "take (fst (f buf)) (overwrite (free_slice (rb_home ?q)) 0 (snd (f buf))) = take (fst (f buf)) (snd (f buf))"
    using lf [of buf] by (simp add: overwrite_def)
  obtain ring where ring: "enqueue_metadata (pm_packet (fst (f buf)) h) (metadata_ring b) = Inr ring" "rb_inv ring"
    "rb_list ring = rb_list (metadata_ring b) @ [pm_packet (fst (f buf)) h]" "rb_capacity ring = rb_capacity (metadata_ring b)"
    using enqueue_metadata_ok [OF rm room] .
  have "get_idx p (rb_length ?q) = get_idx (rb_home ?q) (rb_length (rb_home ?q))"
    using p(4,6) rq by (simp add: get_idx_def Let_def)
  then have fits: "get_idx p (rb_length ?q) + fst (f buf) \<le> rb_capacity p"
    using p(4,7) rq get_idx_bound [of "rb_home ?q" "rb_length (rb_home ?q)"]
    by (simp add: rb_contiguous_window_def) linarith
  have "pb_wf \<lparr>metadata_ring = ring, payload_ring = p\<rparr>"
    "pb_packets \<lparr>metadata_ring = ring, payload_ring = p\<rparr> = pb_packets b @ [(h, take (fst (f buf)) (snd (f buf)))]"
    using append_entry [OF wf ring(2,3) p(2) p(3) [unfolded xs] _ p(4,6)] lf [of buf] fits
    by (simp_all add: pm_packet_def is_padding_def)
  moreover have "\<not> ends_padded \<lparr>metadata_ring = ring, payload_ring = p\<rparr>"
    using ring(3) by (simp add: ends_padded_def is_padding_def pm_packet_def)
  ultimately show thesis using p(1) ring(1) lb by (intro that [of buf]) (simp_all add: pb_inv_def)
qed

text \<open>With a place in the ring of headers for the padding too, the packet is stored whole or not at all.\<close>

lemma enqueue_with_infallible_ok:
  assumes inv: "pb_inv b" and f: "fills f" and places: "rb_length (metadata_ring b) + 2 \<le> packet_capacity b"
  obtains (refused) "enqueue_with_infallible max_size h f b = Some (Inl Full, b)"
  | (stored) buf b' where "length buf = max_size" "enqueue_with_infallible max_size h f b = Some (Inr (fst (f buf)), b')"
      "pb_inv b'" "pb_packets b' = pb_packets b @ [(h, take (fst (f buf)) (snd (f buf)))]"
proof (cases "rb_capacity (payload_ring b) < max_size")
  case True
  then show thesis by (intro refused) (simp add: enqueue_with_infallible_def)
next
  case False
  have room: "\<not> rb_is_full (metadata_ring b)"
    using places by (simp add: rb_is_full_def rb_window_def rb_len_def packet_capacity_def)
  have go: thesis if d: "make_room max_size b = Some (Inr d)" "pb_wf d" "\<not> rb_is_full (metadata_ring d)"
      "max_size \<le> rb_contiguous_window (rb_home (payload_ring d))" "pb_packets d = pb_packets b" for d
  proof (rule append_with [OF d(2,3) f d(4), of h])
    fix buf p ring
    assume "length buf = max_size"
      "enqueue_many_with (\<lambda>data. case f (take max_size data) of (n, buf) \<Rightarrow> (n, (), overwrite data 0 buf)) (payload_ring d)
        = Some ((fst (f buf), ()), p)"
      "enqueue_metadata (pm_packet (fst (f buf)) h) (metadata_ring d) = Inr ring"
      "pb_inv \<lparr>metadata_ring = ring, payload_ring = p\<rparr>"
      "pb_packets \<lparr>metadata_ring = ring, payload_ring = p\<rparr> = pb_packets d @ [(h, take (fst (f buf)) (snd (f buf)))]"
    then show thesis
      using d False room by (intro stored [of buf "\<lparr>metadata_ring = ring, payload_ring = p\<rparr>"])
        (simp_all add: enqueue_with_infallible_def)
  qed
  show thesis
  proof (cases rule: make_room_ok [OF inv room, of max_size, case_names full same padded])
    case full
    then show thesis using False room by (intro refused) (simp add: enqueue_with_infallible_def)
  next
    case same
    have "rb_inv (payload_ring b)" using inv by (simp add: pb_inv_def pb_wf_def)
    then show thesis
      using same inv room order_trans [OF same(2) contiguous_home] by (intro go [of b]) (simp_all add: pb_inv_def)
  next
    case (padded d)
    moreover have "\<not> rb_is_full (metadata_ring d)"
      using padded(6,7) places by (simp add: rb_is_full_def rb_window_def rb_len_def packet_capacity_def)
    ultimately show thesis by (intro go [of d])
  qed
qed

text \<open>
  \<open>enqueue_with_infallible\<close> queues the octets before it knows that the ring of headers has a
  place for the packet. In this history one place is left and padding is needed, which takes it.
\<close>

definition demo_fill :: "u8 list \<Rightarrow> u8 list \<Rightarrow> nat \<times> u8 list" where
  "demo_fill data buf = (length data, overwrite buf 0 data)"

definition demo_buffer :: "nat packet_buffer option" where
  "demo_buffer = do {
     (_, b) \<leftarrow> pb_put 1 [1, 2, 3] (pb_new (replicate 2 pm_empty) (replicate 6 0));
     (_, b) \<leftarrow> pb_put 2 [4, 5] b;
     (_, b) \<leftarrow> pb_dequeue b;
     Some b }"

definition demo_history :: "nat packet_buffer \<Rightarrow> ((full + nat) \<times> (bool \<times> nat packet_buffer)) option" where
  "demo_history b = do {
     (refused, b) \<leftarrow> enqueue_with_infallible 3 3 (demo_fill [7, 7, 7]) b;
     (_, b) \<leftarrow> pb_dequeue b;
     (stored, b) \<leftarrow> pb_put 4 [9, 9] b;
     Some (refused, stored, b) }"


end
