(* ===== verification/Iface_Addr.thy ===== *)
theory Iface_Addr
  imports Ip
begin

text \<open>
  The addresses of an interface: \<open>src/smoltcp/src/iface/interface/mod.rs\<close>, \<open>ipv4.rs\<close> and \<open>ipv6.rs\<close>, with
  the scopes of IPv6 addresses from \<open>src/smoltcp/src/wire/ipv6.rs\<close>. What the code keeps in
  \<open>InterfaceInner::ip_addrs\<close> is a list of CIDR blocks here; every function takes it as an argument.
\<close>

section \<open>Scopes of IPv6 addresses\<close>

datatype multicast_scope =
  ScopeInterfaceLocal | ScopeLinkLocal | ScopeAdminLocal | ScopeSiteLocal | ScopeOrganizationLocal | ScopeGlobal
| ScopeUnknown

fun scope_u8 :: "multicast_scope \<Rightarrow> nat" where
  "scope_u8 ScopeInterfaceLocal = 1"
| "scope_u8 ScopeLinkLocal = 2"
| "scope_u8 ScopeAdminLocal = 4"
| "scope_u8 ScopeSiteLocal = 5"
| "scope_u8 ScopeOrganizationLocal = 8"
| "scope_u8 ScopeGlobal = 14"
| "scope_u8 ScopeUnknown = 255"

definition scope_from_u8 :: "u8 \<Rightarrow> multicast_scope" where
  "scope_from_u8 v =
     (if v = 1 then ScopeInterfaceLocal else if v = 2 then ScopeLinkLocal else if v = 4 then ScopeAdminLocal
      else if v = 5 then ScopeSiteLocal else if v = 8 then ScopeOrganizationLocal else if v = 14 then ScopeGlobal
      else ScopeUnknown)"

abbreviation octets6 :: "ipv6_address \<Rightarrow> u8 list" where
  "octets6 a \<equiv> be_bytes 16 a"

definition v6_is_global_unicast :: "ipv6_address \<Rightarrow> bool" where
  "v6_is_global_unicast a \<longleftrightarrow> drop_bit 5 (octets6 a ! 0) = 1"

definition v6_is_link_local :: "ipv6_address \<Rightarrow> bool" where
  "v6_is_link_local a \<longleftrightarrow> take 8 (octets6 a) = [0xfe, 0x80, 0, 0, 0, 0, 0, 0]"

definition v6_is_unique_local :: "ipv6_address \<Rightarrow> bool" where
  "v6_is_unique_local a \<longleftrightarrow> octets6 a ! 0 AND 0xfe = 0xfc"

definition v6_multicast_scope :: "ipv6_address \<Rightarrow> multicast_scope" where
  "v6_multicast_scope a =
     (if addr_is_multicast (Ipv6 a) then scope_from_u8 (octets6 a ! 1 AND 0xf)
      else if v6_is_link_local a then ScopeLinkLocal
      else if v6_is_unique_local a \<or> v6_is_global_unicast a then ScopeGlobal
      else ScopeUnknown)"

definition v6_localhost :: ipv6_address where "v6_localhost = 1"

text \<open>The solicited-node multicast address; panics for an address that is not unicast.\<close>

definition solicited_node :: "ipv6_address \<Rightarrow> ipv6_address option" where
  "solicited_node a = do {
     panic_unless (addr_is_unicast (Ipv6 a));
     let o' = octets6 a;
     Some (of_be [0xff, 0x02, 0, 0, 0, 0, 0, 0, 0, 0, 0, 0x01, 0xff, o' ! 13, o' ! 14, o' ! 15]) }"

definition is_solicited_node_multicast :: "ipv6_address \<Rightarrow> bool" where
  "is_solicited_node_multicast a \<longleftrightarrow> take 13 (octets6 a) = [0xff, 0x02, 0, 0, 0, 0, 0, 0, 0, 0, 0, 0x01, 0xff]"

section \<open>The addresses of the interface\<close>

definition check_ip_addrs :: "ip_cidr list \<Rightarrow> unit option" where
  "check_ip_addrs addrs =
     panic_unless (\<forall>c \<in> set addrs. addr_is_unicast (cidr_address c) \<or> addr_is_unspecified (cidr_address c))"

definition has_ip_addr :: "ip_cidr list \<Rightarrow> ip_address \<Rightarrow> bool" where
  "has_ip_addr addrs addr \<longleftrightarrow> (\<exists>probe \<in> set addrs. cidr_address probe = addr)"

fun cidr_v4 :: "ip_cidr \<Rightarrow> ipv4_cidr option" where
  "cidr_v4 (Cidr4 c) = Some c"
| "cidr_v4 (Cidr6 c) = None"

fun cidr_v6 :: "ip_cidr \<Rightarrow> ipv6_cidr option" where
  "cidr_v6 (Cidr4 c) = None"
| "cidr_v6 (Cidr6 c) = Some c"

definition get_source_address_ipv4 :: "ip_cidr list \<Rightarrow> ipv4_address option" where
  "get_source_address_ipv4 addrs =
     (case List.map_filter cidr_v4 addrs of [] \<Rightarrow> None | c # _ \<Rightarrow> Some (v4_address c))"

definition ipv4_addr :: "ip_cidr list \<Rightarrow> ipv4_address option" where
  "ipv4_addr addrs = (case List.map_filter cidr_v4 addrs of [] \<Rightarrow> None | c # _ \<Rightarrow> Some (v4_address c))"

definition is_broadcast_v4 :: "ip_cidr list \<Rightarrow> ipv4_address \<Rightarrow> bool" where
  "is_broadcast_v4 addrs a \<longleftrightarrow> addr_is_broadcast (Ipv4 a) \<or>
     a \<in> set (List.map_filter (\<lambda>c. case c of Cidr4 own \<Rightarrow> broadcast4 own | Cidr6 _ \<Rightarrow> None) addrs)"

definition is_unicast_v4 :: "ip_cidr list \<Rightarrow> ipv4_address \<Rightarrow> bool" where
  "is_unicast_v4 addrs a \<longleftrightarrow> addr_is_unicast (Ipv4 a) \<and> \<not> is_broadcast_v4 addrs a"

fun is_broadcast :: "ip_cidr list \<Rightarrow> ip_address \<Rightarrow> bool" where
  "is_broadcast addrs (Ipv4 a) = is_broadcast_v4 addrs a"
| "is_broadcast addrs (Ipv6 a) = False"

definition has_solicited_node :: "ip_cidr list \<Rightarrow> ipv6_address \<Rightarrow> bool" where
  "has_solicited_node addrs a \<longleftrightarrow>
     (\<exists>c \<in> set (List.map_filter cidr_v6 addrs). v6_address c \<noteq> v6_localhost \<and>
        drop 14 (octets6 a) = drop 14 (octets6 (v6_address c)))"

definition ipv6_addr :: "ip_cidr list \<Rightarrow> ipv6_address option" where
  "ipv6_addr addrs = (case List.map_filter cidr_v6 addrs of [] \<Rightarrow> None | c # _ \<Rightarrow> Some (v6_address c))"

definition link_local_ipv6_address :: "ip_cidr list \<Rightarrow> ipv6_address option" where
  "link_local_ipv6_address addrs =
     (case filter (v6_is_link_local \<circ> v6_address) (List.map_filter cidr_v6 addrs) of
        [] \<Rightarrow> None | c # _ \<Rightarrow> Some (v6_address c))"

section \<open>Source address selection for IPv6\<close>

definition is_candidate_source_address :: "ipv6_address \<Rightarrow> ipv6_address \<Rightarrow> bool" where
  "is_candidate_source_address dst src \<longleftrightarrow>
     \<not> (v6_is_link_local dst \<and> \<not> v6_is_link_local src) \<and>
     \<not> (addr_is_multicast (Ipv6 dst) \<and> v6_multicast_scope dst = ScopeLinkLocal \<and>
        addr_is_multicast (Ipv6 src) \<and> v6_multicast_scope src \<noteq> ScopeLinkLocal) \<and>
     \<not> (addr_is_unspecified (Ipv6 src) \<or> addr_is_multicast (Ipv6 src))"

definition leading_zeros :: "u8 \<Rightarrow> nat" where
  "leading_zeros x = length (takeWhile (\<lambda>i. \<not> bit x i) (rev [0..<8]))"

fun common_bits :: "u8 list \<Rightarrow> u8 list \<Rightarrow> nat" where
  "common_bits (l # ls) (r # rs) = (if l = r then 8 + common_bits ls rs else leading_zeros (l XOR r))"
| "common_bits _ _ = 0"

definition common_prefix_length :: "ipv6_cidr \<Rightarrow> ipv6_address \<Rightarrow> nat" where
  "common_prefix_length c a = min (common_bits (octets6 (v6_address c)) (octets6 a)) (v6_prefix_len c)"

text \<open>One round of the loop: the three rules, in their order.\<close>

definition better_source :: "ipv6_address \<Rightarrow> ipv6_cidr \<Rightarrow> ipv6_cidr \<Rightarrow> ipv6_cidr" where
  "better_source dst addr candidate =
     (if \<not> is_candidate_source_address dst (v6_address addr) then candidate
      else
        let scope = (\<lambda>c. scope_u8 (v6_multicast_scope (v6_address c)));
            dst_scope = scope_u8 (v6_multicast_scope dst);
            candidate = (if v6_address candidate \<noteq> dst \<and> v6_address addr = dst then addr else candidate);
            candidate = (if scope candidate < scope addr
                         then (if scope candidate < dst_scope then addr else candidate)
                         else if scope addr > dst_scope then addr else candidate)
        in if common_prefix_length candidate dst < common_prefix_length addr dst then addr else candidate)"

definition get_source_address_ipv6 :: "ip_cidr list \<Rightarrow> ipv6_address \<Rightarrow> ipv6_address option" where
  "get_source_address_ipv6 addrs dst = do {
     panic_unless (\<not> addr_is_unspecified (Ipv6 dst));
     case (dst = v6_localhost, List.map_filter cidr_v6 addrs) of
       (True, _) \<Rightarrow> Some v6_localhost
     | (False, []) \<Rightarrow> Some v6_localhost
     | (False, c # cs) \<Rightarrow> Some (v6_address (fold (better_source dst) (c # cs) c)) }"

text \<open>The outer option is a panic, the inner one is the result.\<close>

fun get_source_address :: "ip_cidr list \<Rightarrow> ip_address \<Rightarrow> ip_address option option" where
  "get_source_address addrs (Ipv4 a) = Some (map_option Ipv4 (get_source_address_ipv4 addrs))"
| "get_source_address addrs (Ipv6 a) = map_option (Some \<circ> Ipv6) (get_source_address_ipv6 addrs a)"

section \<open>Properties\<close>

lemma map_filter_v4: "c \<in> set (List.map_filter cidr_v4 addrs) \<longleftrightarrow> Cidr4 c \<in> set addrs"
  by (induction addrs) (auto simp: map_filter_simps elim: cidr_v4.elims split: option.splits)

lemma map_filter_v6: "c \<in> set (List.map_filter cidr_v6 addrs) \<longleftrightarrow> Cidr6 c \<in> set addrs"
  by (induction addrs) (auto simp: map_filter_simps elim: cidr_v6.elims split: option.splits)

lemma better_source_cases: "better_source dst addr c = addr \<or> better_source dst addr c = c"
  by (simp add: better_source_def Let_def)

lemma fold_better_source: "c \<in> A \<Longrightarrow> set cs \<subseteq> A \<Longrightarrow> fold (better_source dst) cs c \<in> A"
proof (induction cs arbitrary: c)
  case (Cons x cs)
  then have "better_source dst x c \<in> A" using better_source_cases [of dst x c] by auto
  with Cons show ?case by simp
qed simp

lemma source_v6_own:
  assumes "dst \<noteq> 0"
  obtains a where "get_source_address_ipv6 addrs dst = Some a" "a = v6_localhost \<or> has_ip_addr addrs (Ipv6 a)"
proof (cases "List.map_filter cidr_v6 addrs")
  case Nil
  then show thesis using assms that [of v6_localhost] by (auto simp: get_source_address_ipv6_def split: bool.splits)
next
  case (Cons c cs)
  have "fold (better_source dst) (c # cs) c \<in> set (c # cs)" by (rule fold_better_source) auto
  then have "Cidr6 (fold (better_source dst) (c # cs) c) \<in> set addrs" by (simp add: Cons [symmetric] map_filter_v6 del: fold_simps)
  then have "has_ip_addr addrs (Ipv6 (v6_address (fold (better_source dst) (c # cs) c)))"
    unfolding has_ip_addr_def by (rule bexI [rotated]) simp
  then show thesis using assms Cons
    by (cases "dst = v6_localhost") (auto intro: that simp: get_source_address_ipv6_def simp del: fold_simps)
qed


text \<open>
  The source address for a destination is an address of the interface. For every specified
  destination the selection returns without a panic; what it returns has the version of the destination
  and is assigned to the interface, or is the IPv6 loopback address; and it returns none only for an IPv4
  destination on an interface with no IPv4 address.
\<close>

lemma source_address_own:
  assumes "\<not> addr_is_unspecified dst"
  shows "\<exists>res. get_source_address addrs dst = Some res \<and>
    (case res of
       None \<Rightarrow> addr_version dst = VIpv4 \<and> (\<forall>c \<in> set addrs. addr_version (cidr_address c) \<noteq> VIpv4)
     | Some src \<Rightarrow> addr_version src = addr_version dst \<and> (has_ip_addr addrs src \<or> src = Ipv6 v6_localhost))"
proof (cases dst)
  case (Ipv4 a)
  have none: "\<forall>c \<in> set addrs. addr_version (cidr_address c) \<noteq> VIpv4" if nil: "List.map_filter cidr_v4 addrs = []"
  proof
    fix c
    assume "c \<in> set addrs"
    then show "addr_version (cidr_address c) \<noteq> VIpv4" using nil map_filter_v4 [of _ addrs] by (cases c rule: ip_cidr.exhaust) auto
  qed
  have some: "has_ip_addr addrs (Ipv4 (v4_address c))" if "List.map_filter cidr_v4 addrs = c # cs" for c cs
    using that map_filter_v4 [of c addrs] unfolding has_ip_addr_def by (intro bexI [of _ "Cidr4 c"]) simp_all
  show ?thesis using Ipv4 none some by (auto simp: get_source_address_ipv4_def split: list.splits)
next
  case (Ipv6 a)
  then have "a \<noteq> 0" using assms by simp
  then obtain s where "get_source_address_ipv6 addrs a = Some s" "s = v6_localhost \<or> has_ip_addr addrs (Ipv6 s)"
    by (rule source_v6_own)
  then show ?thesis using Ipv6 by auto
qed

definition demo_addrs :: "ip_cidr list" where
  "demo_addrs = [Cidr4 \<lparr>v4_address = 0xc0a80102, v4_prefix_len = 24\<rparr>,
     Cidr6 \<lparr>v6_address = 0x20010db8000000000000000000000001, v6_prefix_len = 64\<rparr>,
     Cidr6 \<lparr>v6_address = 0x20010db8000000000000000000000002, v6_prefix_len = 128\<rparr>]"

lemma source_address_own_witness:
  "\<exists>res. get_source_address demo_addrs (Ipv4 0xc0a80101) = Some res \<and>
    (case res of
       None \<Rightarrow> addr_version (Ipv4 0xc0a80101) = VIpv4 \<and> (\<forall>c \<in> set demo_addrs. addr_version (cidr_address c) \<noteq> VIpv4)
     | Some src \<Rightarrow> addr_version src = addr_version (Ipv4 0xc0a80101) \<and>
         (has_ip_addr demo_addrs src \<or> src = Ipv6 v6_localhost))"
  by (rule source_address_own) simp

text \<open>Rule 1 of RFC 6724: the destination itself, where it is an address of the interface.\<close>

lemma common_bits_same: "common_bits xs xs = 8 * length xs"
  by (induction xs) simp_all

lemma common_prefix_own:
  "v6_address c = dst \<Longrightarrow> v6_prefix_len c \<le> 128 \<Longrightarrow> common_prefix_length c dst = v6_prefix_len c"
  by (simp add: common_prefix_length_def common_bits_same)

lemma better_source_keeps:
  assumes "v6_address c = dst" and "v6_prefix_len addr \<le> v6_prefix_len c" and "v6_prefix_len c \<le> 128"
  shows "v6_address (better_source dst addr c) = dst \<and>
    (better_source dst addr c = c \<or> v6_address addr = dst)"
proof -
  have "common_prefix_length addr dst \<le> common_prefix_length c dst"
    using assms common_prefix_own [of c dst] by (simp add: common_prefix_length_def)
  then show ?thesis using assms(1) by (auto simp: better_source_def Let_def)
qed

lemma better_source_takes:
  assumes "v6_address addr = dst" and "is_candidate_source_address dst dst"
    and "v6_prefix_len c \<le> v6_prefix_len addr" and "v6_prefix_len addr \<le> 128"
  shows "v6_address (better_source dst addr c) = dst"
proof -
  have "common_prefix_length c dst \<le> common_prefix_length addr dst"
    using assms common_prefix_own [of addr dst] by (simp add: common_prefix_length_def)
  then show ?thesis using assms(1,2) by (auto simp: better_source_def Let_def)
qed

lemma fold_own_destination:
  assumes "is_candidate_source_address dst dst" and "n \<le> 128"
    and "\<forall>c \<in> set (c # cs). v6_prefix_len c = n" and "v6_address c = dst \<or> dst \<in> v6_address ` set cs"
  shows "v6_address (fold (better_source dst) cs c) = dst"
  using assms(3,4)
proof (induction cs arbitrary: c)
  case (Cons x cs)
  let ?d = "better_source dst x c"
  have n: "\<forall>c \<in> set (?d # cs). v6_prefix_len c = n"
    using Cons.prems better_source_cases [of dst x c] by auto
  have "v6_address ?d = dst \<or> dst \<in> v6_address ` set cs"
    using Cons.prems assms(1,2) better_source_keeps [of c dst x] better_source_takes [of x dst c] by auto
  with Cons.IH [OF n] show ?case by simp
qed simp

text \<open>
  With equal prefix lengths, an interface that sends to one of its own IPv6 addresses uses that
  address as the source (rule 1 of RFC 6724), wherever it stands among the addresses.
\<close>

lemma own_destination_selected:
  assumes "has_ip_addr addrs (Ipv6 dst)" and "addr_is_unicast (Ipv6 dst)" and "n \<le> 128"
    and "\<forall>c \<in> set addrs. case c of Cidr4 _ \<Rightarrow> True | Cidr6 c \<Rightarrow> v6_prefix_len c = n"
  shows "get_source_address_ipv6 addrs dst = Some dst"
proof -
  have own: "is_candidate_source_address dst dst"
    using assms(2) by (simp add: is_candidate_source_address_def)
  obtain c where "c \<in> set addrs" "cidr_address c = Ipv6 dst" using assms(1) by (auto simp: has_ip_addr_def)
  then have mem: "dst \<in> v6_address ` set (List.map_filter cidr_v6 addrs)"
    by (cases c rule: ip_cidr.exhaust) (auto simp: map_filter_v6 intro: image_eqI [rotated])
  have len: "\<forall>c \<in> set (List.map_filter cidr_v6 addrs). v6_prefix_len c = n"
    using assms(4) by (auto simp: map_filter_v6 split: ip_cidr.splits)
  obtain d ds where l: "List.map_filter cidr_v6 addrs = d # ds" using mem by (cases "List.map_filter cidr_v6 addrs") auto
  have "v6_address (fold (better_source dst) (d # ds) d) = dst"
    using fold_own_destination [OF own assms(3), of d "d # ds"] len mem l by simp
  then show ?thesis using assms(2) l by (auto simp: get_source_address_ipv6_def v6_localhost_def simp del: fold_simps split: bool.splits)
qed

lemma own_destination_selected_witness:
  "get_source_address_ipv6 [Cidr6 \<lparr>v6_address = 0xfd000000000000000000000000000002, v6_prefix_len = 64\<rparr>,
      Cidr6 \<lparr>v6_address = 0xfd000000000000000000000000000001, v6_prefix_len = 64\<rparr>]
     0xfd000000000000000000000000000001 = Some 0xfd000000000000000000000000000001"
  by (rule own_destination_selected [of _ _ 64]) (simp_all add: has_ip_addr_def)

text \<open>
  With a longer prefix on another address the first rule is lost: the last rule, the longest
  matching prefix, replaces a candidate that is the destination itself. An interface with
  \<open>2001:db8::1/64\<close> and \<open>2001:db8::2/128\<close> sends to its own \<open>2001:db8::1\<close> from \<open>2001:db8::2\<close>.
\<close>

lemma prefix_beats_own_destination:
  "has_ip_addr demo_addrs (Ipv6 0x20010db8000000000000000000000001) \<and>
   get_source_address_ipv6 demo_addrs 0x20010db8000000000000000000000001 = Some 0x20010db8000000000000000000000002"
  by code_simp

end
