(* ===== verification/Routing.thy ===== *)
theory Routing
  imports Iface_Addr Time
begin

text \<open>
  \<open>src/smoltcp/src/iface/route.rs\<close>: the routing table, and the choice of the next hop in
  \<open>src/smoltcp/src/iface/interface/mod.rs\<close>. The table is a \<open>heapless::Vec\<close>, which reads as a slice; its two
  operations that change it are parameters, with their documented behaviour as the hypothesis
  \<open>vec_laws\<close>.
\<close>

section \<open>The table\<close>

record route =
  route_cidr :: ip_cidr
  via_router :: ip_address
  preferred_until :: "instant option"
  route_expires_at :: "instant option"

datatype route_table_full = RouteTableFull

text \<open>\<open>push\<close> fails when the vector is full; \<open>remove\<close> takes out the element at an index.\<close>

record 'a vec_ops =
  vec_push :: "'a \<Rightarrow> 'a list \<Rightarrow> 'a list option"
  vec_remove :: "nat \<Rightarrow> 'a list \<Rightarrow> 'a list"

definition vec_laws :: "nat \<Rightarrow> 'a vec_ops \<Rightarrow> bool" where
  "vec_laws n ops \<longleftrightarrow>
     (\<forall>x xs. vec_push ops x xs = (if length xs < n then Some (xs @ [x]) else None)) \<and>
     (\<forall>i xs. i < length xs \<longrightarrow> vec_remove ops i xs = take i xs @ drop (Suc i) xs)"

definition ipv4_default :: ip_cidr where "ipv4_default = Cidr4 \<lparr>v4_address = 0, v4_prefix_len = 0\<rparr>"

definition ipv6_default :: ip_cidr where "ipv6_default = Cidr6 \<lparr>v6_address = 0, v6_prefix_len = 0\<rparr>"

definition new_ipv4_gateway :: "ipv4_address \<Rightarrow> route" where
  "new_ipv4_gateway gateway =
     \<lparr>route_cidr = ipv4_default, via_router = Ipv4 gateway, preferred_until = None, route_expires_at = None\<rparr>"

definition new_ipv6_gateway :: "ipv6_address \<Rightarrow> route" where
  "new_ipv6_gateway gateway =
     \<lparr>route_cidr = ipv6_default, via_router = Ipv6 gateway, preferred_until = None, route_expires_at = None\<rparr>"

text \<open>\<open>iter().enumerate().find(..)\<close>: the first index.\<close>

fun find_index :: "('a \<Rightarrow> bool) \<Rightarrow> 'a list \<Rightarrow> nat option" where
  "find_index P [] = None"
| "find_index P (x # xs) = (if P x then Some 0 else map_option Suc (find_index P xs))"

definition remove_default_route :: "ip_cidr \<Rightarrow> route vec_ops \<Rightarrow> route list \<Rightarrow> route option \<times> route list" where
  "remove_default_route d ops rs =
     (case find_index (\<lambda>r. route_cidr r = d) rs of
        None \<Rightarrow> (None, rs)
      | Some i \<Rightarrow> (Some (rs ! i), vec_remove ops i rs))"

definition remove_default_ipv4_route :: "route vec_ops \<Rightarrow> route list \<Rightarrow> route option \<times> route list" where
  "remove_default_ipv4_route = remove_default_route ipv4_default"

definition remove_default_ipv6_route :: "route vec_ops \<Rightarrow> route list \<Rightarrow> route option \<times> route list" where
  "remove_default_ipv6_route = remove_default_route ipv6_default"

definition add_default_ipv4_route ::
  "ipv4_address \<Rightarrow> route vec_ops \<Rightarrow> route list \<Rightarrow> (route_table_full + route option) \<times> route list" where
  "add_default_ipv4_route gateway ops rs =
     (let (old, rs) = remove_default_ipv4_route ops rs
      in case vec_push ops (new_ipv4_gateway gateway) rs of
           None \<Rightarrow> (Inl RouteTableFull, rs)
         | Some rs \<Rightarrow> (Inr old, rs))"

definition add_default_ipv6_route ::
  "ipv6_address \<Rightarrow> route vec_ops \<Rightarrow> route list \<Rightarrow> (route_table_full + route option) \<times> route list" where
  "add_default_ipv6_route gateway ops rs =
     (let (old, rs) = remove_default_ipv6_route ops rs
      in case vec_push ops (new_ipv6_gateway gateway) rs of
           None \<Rightarrow> (Inl RouteTableFull, rs)
         | Some rs \<Rightarrow> (Inr old, rs))"

section \<open>Lookup\<close>

text \<open>\<open>filter\<close> with a predicate that may panic.\<close>

fun filter_opt :: "('a \<Rightarrow> bool option) \<Rightarrow> 'a list \<Rightarrow> 'a list option" where
  "filter_opt P [] = Some []"
| "filter_opt P (x # xs) = do { b \<leftarrow> P x; ys \<leftarrow> filter_opt P xs; Some (if b then x # ys else ys) }"

text \<open>\<open>Iterator::max_by_key\<close>: of several maxima, the last one.\<close>

fun max_by_key :: "('a \<Rightarrow> nat) \<Rightarrow> 'a list \<Rightarrow> 'a option" where
  "max_by_key f [] = None"
| "max_by_key f (x # xs) = Some (fold (\<lambda>y best. if f best \<le> f y then y else best) xs x)"

definition route_matches :: "ip_address \<Rightarrow> instant \<Rightarrow> route \<Rightarrow> bool option" where
  "route_matches addr timestamp r =
     (case route_expires_at r of
        Some expires_at \<Rightarrow> if timestamp > expires_at then Some False else contains_addr (route_cidr r) addr
      | None \<Rightarrow> contains_addr (route_cidr r) addr)"

definition routes_lookup :: "route list \<Rightarrow> ip_address \<Rightarrow> instant \<Rightarrow> ip_address option option" where
  "routes_lookup rs addr timestamp = do {
     panic_unless (addr_is_unicast addr);
     ms \<leftarrow> filter_opt (route_matches addr timestamp) rs;
     Some (map_option via_router (max_by_key (cidr_prefix_len \<circ> route_cidr) ms)) }"

text \<open>\<open>any\<close> with a predicate that may panic: it stops at the first hit.\<close>

fun any_opt :: "('a \<Rightarrow> bool option) \<Rightarrow> 'a list \<Rightarrow> bool option" where
  "any_opt P [] = Some False"
| "any_opt P (x # xs) = do { b \<leftarrow> P x; if b then Some True else any_opt P xs }"

definition in_same_network :: "ip_cidr list \<Rightarrow> ip_address \<Rightarrow> bool option" where
  "in_same_network addrs addr = any_opt (\<lambda>c. contains_addr c addr) addrs"

definition iface_route :: "ip_cidr list \<Rightarrow> route list \<Rightarrow> ip_address \<Rightarrow> instant \<Rightarrow> ip_address option option" where
  "iface_route addrs rs addr timestamp = do {
     near \<leftarrow> in_same_network addrs addr;
     if near \<or> addr_is_broadcast addr then Some (Some addr)
     else routes_lookup rs addr timestamp }"

section \<open>Properties of the lookup\<close>

text \<open>A block as \<open>Ipv4Cidr::new\<close> and \<open>Ipv6Cidr::new\<close> make them.\<close>

fun cidr_ok :: "ip_cidr \<Rightarrow> bool" where
  "cidr_ok (Cidr4 c) \<longleftrightarrow> v4_prefix_len c \<le> 32"
| "cidr_ok (Cidr6 c) \<longleftrightarrow> v6_prefix_len c \<le> 128"

lemma contains_addr_total: "cidr_ok c \<Longrightarrow> contains_addr c addr \<noteq> None"
  by (cases "(c, addr)" rule: contains_addr.cases) (auto simp: contains_addr6_def mask6_def Let_def)

text \<open>The routes that apply to an address at a time.\<close>

definition applies :: "ip_address \<Rightarrow> instant \<Rightarrow> route \<Rightarrow> bool" where
  "applies addr timestamp r \<longleftrightarrow> contains_addr (route_cidr r) addr = Some True \<and>
     (\<forall>e. route_expires_at r = Some e \<longrightarrow> timestamp \<le> e)"

lemma route_matches_applies:
  assumes "cidr_ok (route_cidr r)"
  shows "route_matches addr t r = Some (applies addr t r)"
  using contains_addr_total [OF assms, of addr] by (auto simp: route_matches_def applies_def split: option.splits)

lemma filter_opt_total: "(\<And>x. x \<in> set xs \<Longrightarrow> P x = Some (Q x)) \<Longrightarrow> filter_opt P xs = Some (filter Q xs)"
  by (induction xs) simp_all

lemma max_by_key_fold:
  "let m = fold (\<lambda>y best. if f best \<le> f y then y else best) xs x
   in m \<in> insert x (set xs) \<and> f x \<le> f m \<and> (\<forall>y \<in> set xs. f y \<le> f m)" for f :: "'a \<Rightarrow> nat"
proof (induction xs arbitrary: x)
  case (Cons y ys)
  show ?case using Cons.IH [of "if f x \<le> f y then y else x"] by (auto simp: Let_def)
qed simp

lemma max_by_key_Some:
  assumes "max_by_key f xs = Some m"
  shows "m \<in> set xs \<and> (\<forall>y \<in> set xs. f y \<le> f m)"
  using assms max_by_key_fold [of f "tl xs" "hd xs"] by (cases xs) (simp_all add: Let_def)

lemma max_by_key_None: "max_by_key f xs = None \<longleftrightarrow> xs = []"
  by (cases xs) simp_all

text \<open>
  C32: Longest prefix match. For a unicast address and a table of valid blocks the lookup does not panic:
  it finds no router exactly when no unexpired route contains the address, and otherwise the router
  of such a route with the longest prefix of all of them.
\<close>

theorem routes_longest_prefix:
  assumes "addr_is_unicast addr" and "\<forall>r \<in> set rs. cidr_ok (route_cidr r)"
  shows "\<exists>res. routes_lookup rs addr t = Some res \<and>
    (case res of
       None \<Rightarrow> \<forall>r \<in> set rs. \<not> applies addr t r
     | Some router \<Rightarrow> \<exists>r \<in> set rs. applies addr t r \<and> via_router r = router \<and>
         (\<forall>r' \<in> set rs. applies addr t r' \<longrightarrow> cidr_prefix_len (route_cidr r') \<le> cidr_prefix_len (route_cidr r)))"
proof -
  let ?ms = "filter (applies addr t) rs" and ?key = "cidr_prefix_len \<circ> route_cidr"
  have "filter_opt (route_matches addr t) rs = Some ?ms"
    using assms(2) by (intro filter_opt_total route_matches_applies) simp
  then have l: "routes_lookup rs addr t = Some (map_option via_router (max_by_key ?key ?ms))"
    using assms(1) by (simp add: routes_lookup_def)
  show ?thesis
  proof (cases "max_by_key ?key ?ms")
    case None
    then show ?thesis using l by (simp add: max_by_key_None filter_empty_conv)
  next
    case (Some m)
    with max_by_key_Some [OF Some] l show ?thesis by auto
  qed
qed

definition demo_routes :: "route list" where
  "demo_routes = [new_ipv4_gateway 0xc0a80101,
     \<lparr>route_cidr = Cidr4 \<lparr>v4_address = 0x0a000000, v4_prefix_len = 8\<rparr>, via_router = Ipv4 0xc0a80102,
      preferred_until = None, route_expires_at = Some (Instant 5)\<rparr>]"

theorem routes_longest_prefix_witness:
  "(\<exists>res. routes_lookup demo_routes (Ipv4 0x0a010203) (Instant 3) = Some res \<and>
    (case res of
       None \<Rightarrow> \<forall>r \<in> set demo_routes. \<not> applies (Ipv4 0x0a010203) (Instant 3) r
     | Some router \<Rightarrow> \<exists>r \<in> set demo_routes. applies (Ipv4 0x0a010203) (Instant 3) r \<and> via_router r = router \<and>
         (\<forall>r' \<in> set demo_routes. applies (Ipv4 0x0a010203) (Instant 3) r' \<longrightarrow>
            cidr_prefix_len (route_cidr r') \<le> cidr_prefix_len (route_cidr r)))) \<and>
   routes_lookup demo_routes (Ipv4 0x0a010203) (Instant 3) = Some (Some (Ipv4 0xc0a80102)) \<and>
   routes_lookup demo_routes (Ipv4 0x0a010203) (Instant 6) = Some (Some (Ipv4 0xc0a80101))"
proof (intro conjI)
  show "\<exists>res. routes_lookup demo_routes (Ipv4 0x0a010203) (Instant 3) = Some res \<and>
    (case res of
       None \<Rightarrow> \<forall>r \<in> set demo_routes. \<not> applies (Ipv4 0x0a010203) (Instant 3) r
     | Some router \<Rightarrow> \<exists>r \<in> set demo_routes. applies (Ipv4 0x0a010203) (Instant 3) r \<and> via_router r = router \<and>
         (\<forall>r' \<in> set demo_routes. applies (Ipv4 0x0a010203) (Instant 3) r' \<longrightarrow>
            cidr_prefix_len (route_cidr r') \<le> cidr_prefix_len (route_cidr r)))"
    by (rule routes_longest_prefix) (simp, simp add: demo_routes_def new_ipv4_gateway_def ipv4_default_def)
qed code_simp+

section \<open>The default route\<close>

lemma find_index_Some:
  "find_index P xs = Some i \<Longrightarrow> i < length xs \<and> P (xs ! i) \<and> (\<forall>j < i. \<not> P (xs ! j))"
  by (induction xs arbitrary: i) (auto split: if_splits simp: less_Suc_eq_0_disj)

lemma find_index_None: "find_index P xs = None \<longleftrightarrow> (\<forall>x \<in> set xs. \<not> P x)"
  by (induction xs) simp_all

lemma remove_default_route_length:
  assumes "vec_laws n ops" and "remove_default_route d ops rs = (old, rs')"
  shows "(old = None \<and> rs' = rs) \<or> (old \<noteq> None \<and> length rs' < length rs)"
  using assms find_index_Some [of "\<lambda>r. route_cidr r = d" rs]
  by (auto simp: remove_default_route_def vec_laws_def split: option.splits)

text \<open>
  Adding a default route for IPv4. With a vector as documented: an existing default route is
  replaced and returned, and the other routes stay in their order; without one, the route is added
  at the end; the table is reported full only when it is full and has no default route, and then it is
  unchanged.
\<close>

lemma default_route_replaced:
  assumes "vec_laws n ops"
  shows "length rs \<le> n \<Longrightarrow> add_default_ipv4_route gateway ops rs =
    (case find_index (\<lambda>r. route_cidr r = ipv4_default) rs of
       Some i \<Rightarrow> (Inr (Some (rs ! i)), take i rs @ drop (Suc i) rs @ [new_ipv4_gateway gateway])
     | None \<Rightarrow> if length rs < n then (Inr None, rs @ [new_ipv4_gateway gateway]) else (Inl RouteTableFull, rs))"
  using assms find_index_Some [of "\<lambda>r. route_cidr r = ipv4_default" rs]
  by (auto simp: add_default_ipv4_route_def remove_default_ipv4_route_def remove_default_route_def vec_laws_def
      split: option.splits)

definition demo_vec :: "nat \<Rightarrow> 'a vec_ops" where
  "demo_vec n = \<lparr>vec_push = (\<lambda>x xs. if length xs < n then Some (xs @ [x]) else None),
     vec_remove = (\<lambda>i xs. take i xs @ drop (Suc i) xs)\<rparr>"

lemma default_route_replaced_witness:
  "add_default_ipv4_route 0xc0a80103 (demo_vec 2) demo_routes =
    (case find_index (\<lambda>r. route_cidr r = ipv4_default) demo_routes of
       Some i \<Rightarrow> (Inr (Some (demo_routes ! i)), take i demo_routes @ drop (Suc i) demo_routes @ [new_ipv4_gateway 0xc0a80103])
     | None \<Rightarrow> if length demo_routes < 2 then (Inr None, demo_routes @ [new_ipv4_gateway 0xc0a80103])
       else (Inl RouteTableFull, demo_routes))"
  by (rule default_route_replaced) (simp_all add: vec_laws_def demo_vec_def demo_routes_def)

text \<open>Over any table with room, the new default route is found for every address no other route contains.\<close>

lemma default_route_found:
  assumes "addr_is_unicast (Ipv4 a)" and "\<forall>r \<in> set rs. cidr_ok (route_cidr r)" and "\<forall>r \<in> set rs. \<not> applies (Ipv4 a) t r"
  shows "routes_lookup (rs @ [new_ipv4_gateway gateway]) (Ipv4 a) t = Some (Some (Ipv4 gateway))"
proof -
  let ?r = "new_ipv4_gateway gateway"
  have ok: "cidr_ok (route_cidr ?r)" and ap: "applies (Ipv4 a) t ?r"
    by (simp_all add: new_ipv4_gateway_def ipv4_default_def applies_def contains_addr4_def netmask4_def)
  have "filter_opt (route_matches (Ipv4 a) t) (rs @ [?r]) = Some (filter (applies (Ipv4 a) t) (rs @ [?r]))"
    using assms(2) ok by (intro filter_opt_total route_matches_applies) auto
  moreover have "filter (applies (Ipv4 a) t) rs = []" using assms(3) by (simp add: filter_empty_conv)
  ultimately show ?thesis using assms(1) ap by (simp add: routes_lookup_def new_ipv4_gateway_def)
qed

end
