(* ===== verification/Neighbor.thy ===== *)
theory Neighbor
  imports Iface_Addr Time "HOL-Library.AList"
begin

text \<open>
  \<open>src/smoltcp/src/iface/neighbor.rs\<close>: the cache of hardware addresses, with the hardware addresses of
  \<open>src/smoltcp/src/wire\<close>. The cache keeps its entries in a \<open>heapless::LinearMap\<close>; the operations of that map
  are parameters, with their documented behaviour as the hypothesis \<open>lm_laws\<close>.
\<close>

section \<open>Hardware addresses\<close>

type_synonym ethernet_address = "48 word"

definition eth_broadcast :: ethernet_address where "eth_broadcast = 0xffffffffffff"

definition eth_is_broadcast :: "ethernet_address \<Rightarrow> bool" where "eth_is_broadcast a \<longleftrightarrow> a = eth_broadcast"

definition eth_is_multicast :: "ethernet_address \<Rightarrow> bool" where
  "eth_is_multicast a \<longleftrightarrow> (be_bytes 6 a ! 0 :: u8) AND 0x01 \<noteq> 0"

definition eth_is_local :: "ethernet_address \<Rightarrow> bool" where
  "eth_is_local a \<longleftrightarrow> (be_bytes 6 a ! 0 :: u8) AND 0x02 \<noteq> 0"

definition eth_is_unicast :: "ethernet_address \<Rightarrow> bool" where
  "eth_is_unicast a \<longleftrightarrow> \<not> (eth_is_broadcast a \<or> eth_is_multicast a)"

datatype ieee802154_address = IeeeAbsent | IeeeShort "16 word" | IeeeExtended "64 word"

definition ieee_broadcast :: ieee802154_address where "ieee_broadcast = IeeeShort 0xffff"

definition ieee_is_broadcast :: "ieee802154_address \<Rightarrow> bool" where "ieee_is_broadcast a \<longleftrightarrow> a = ieee_broadcast"

definition ieee_is_unicast :: "ieee802154_address \<Rightarrow> bool" where "ieee_is_unicast a \<longleftrightarrow> \<not> ieee_is_broadcast a"

datatype hardware_address = HwIp | HwEthernet ethernet_address | HwIeee802154 ieee802154_address

text \<open>Asking an address of the IP medium is \<open>unreachable!\<close>.\<close>

fun hw_is_unicast :: "hardware_address \<Rightarrow> bool option" where
  "hw_is_unicast HwIp = None"
| "hw_is_unicast (HwEthernet a) = Some (eth_is_unicast a)"
| "hw_is_unicast (HwIeee802154 a) = Some (ieee_is_unicast a)"

section \<open>The cache\<close>

record neighbor =
  hardware_addr :: hardware_address
  expires_at :: instant

datatype answer = Found hardware_address | NotFound | RateLimited

fun answer_found :: "answer \<Rightarrow> bool" where
  "answer_found (Found _) = True"
| "answer_found _ = False"

text \<open>
  The map: \<open>insert\<close> returns the old value, or its arguments when the map is full; \<open>lm_write\<close> is an
  assignment through the reference of \<open>get_mut\<close>.
\<close>

record 'm linear_map =
  lm_new :: 'm
  lm_get :: "'m \<Rightarrow> ip_address \<Rightarrow> neighbor option"
  lm_iter :: "'m \<Rightarrow> (ip_address \<times> neighbor) list"
  lm_insert :: "ip_address \<Rightarrow> neighbor \<Rightarrow> 'm \<Rightarrow> (ip_address \<times> neighbor + neighbor option) \<times> 'm"
  lm_remove :: "ip_address \<Rightarrow> 'm \<Rightarrow> neighbor option \<times> 'm"
  lm_write :: "ip_address \<Rightarrow> neighbor \<Rightarrow> 'm \<Rightarrow> 'm"
  lm_clear :: "'m \<Rightarrow> 'm"

record 'm neighbor_cache =
  nc_storage :: 'm
  silent_until :: instant

definition SILENT_TIME :: duration where "SILENT_TIME = duration_from_millis 1000"

definition ENTRY_LIFETIME :: duration where "ENTRY_LIFETIME = duration_from_millis 60000"

definition cache_new :: "'m linear_map \<Rightarrow> 'm neighbor_cache" where
  "cache_new ops = \<lparr>nc_storage = lm_new ops, silent_until = instant_from_millis 0\<rparr>"

definition reset_expiry_if_existing ::
  "'m linear_map \<Rightarrow> ip_address \<Rightarrow> hardware_address \<Rightarrow> instant \<Rightarrow> 'm neighbor_cache \<Rightarrow> 'm neighbor_cache" where
  "reset_expiry_if_existing ops addr source_hardware_addr timestamp c =
     (case lm_get ops (nc_storage c) addr of
        None \<Rightarrow> c
      | Some nb \<Rightarrow>
          if source_hardware_addr = hardware_addr nb
          then c\<lparr>nc_storage := lm_write ops addr (nb\<lparr>expires_at := instant_add timestamp ENTRY_LIFETIME\<rparr>) (nc_storage c)\<rparr>
          else c)"

text \<open>\<open>Iterator::min_by_key\<close>: of several minima, the first one.\<close>

fun min_by_key :: "('a \<Rightarrow> 'b :: linorder) \<Rightarrow> 'a list \<Rightarrow> 'a option" where
  "min_by_key f [] = None"
| "min_by_key f (x # xs) = Some (fold (\<lambda>y best. if f y < f best then y else best) xs x)"

text \<open>The two \<open>debug_assert!\<close> of \<open>fill\<close> and \<open>fill_with_expiration\<close>.\<close>

definition assert_unicast :: "ip_address \<Rightarrow> hardware_address \<Rightarrow> unit option" where
  "assert_unicast addr hw = do {
     panic_unless (addr_is_unicast addr);
     u \<leftarrow> hw_is_unicast hw;
     panic_unless u }"

definition fill_with_expiration ::
  "'m linear_map \<Rightarrow> ip_address \<Rightarrow> hardware_address \<Rightarrow> instant \<Rightarrow> 'm neighbor_cache \<Rightarrow> 'm neighbor_cache option" where
  "fill_with_expiration ops addr hw expires c = do {
     assert_unicast addr hw;
     let nb = \<lparr>hardware_addr = hw, expires_at = expires\<rparr>;
     case lm_insert ops addr nb (nc_storage c) of
       (Inr _, m) \<Rightarrow> Some (c\<lparr>nc_storage := m\<rparr>)
     | (Inl (addr, nb), m) \<Rightarrow> do {
         (old_addr, _) \<leftarrow> min_by_key (expires_at \<circ> snd) (lm_iter ops m);
         let (old, m) = lm_remove ops old_addr m;
         _ \<leftarrow> old;
         case lm_insert ops addr nb m of
           (Inr None, m) \<Rightarrow> Some (c\<lparr>nc_storage := m\<rparr>)
         | _ \<Rightarrow> None } }"

definition cache_fill ::
  "'m linear_map \<Rightarrow> ip_address \<Rightarrow> hardware_address \<Rightarrow> instant \<Rightarrow> 'm neighbor_cache \<Rightarrow> 'm neighbor_cache option" where
  "cache_fill ops addr hw timestamp c = do {
     assert_unicast addr hw;
     fill_with_expiration ops addr hw (instant_add timestamp ENTRY_LIFETIME) c }"

definition cache_lookup :: "'m linear_map \<Rightarrow> ip_address \<Rightarrow> instant \<Rightarrow> 'm neighbor_cache \<Rightarrow> answer option" where
  "cache_lookup ops addr timestamp c = do {
     panic_unless (addr_is_unicast addr);
     Some (case lm_get ops (nc_storage c) addr of
         Some nb \<Rightarrow>
           if timestamp < expires_at nb then Found (hardware_addr nb)
           else if timestamp < silent_until c then RateLimited else NotFound
       | None \<Rightarrow> if timestamp < silent_until c then RateLimited else NotFound) }"

definition limit_rate :: "instant \<Rightarrow> 'm neighbor_cache \<Rightarrow> 'm neighbor_cache" where
  "limit_rate timestamp c = c\<lparr>silent_until := instant_add timestamp SILENT_TIME\<rparr>"

definition cache_flush :: "'m linear_map \<Rightarrow> 'm neighbor_cache \<Rightarrow> 'm neighbor_cache" where
  "cache_flush ops c = c\<lparr>nc_storage := lm_clear ops (nc_storage c)\<rparr>"

section \<open>The map\<close>

text \<open>
  \<open>ok\<close> holds of every map that the operations make. The entries are listed without duplicates, at most
  \<open>n\<close> of them; \<open>get\<close> reads and \<open>insert\<close>, \<open>remove\<close> and assignments update them.
\<close>

definition lm_laws :: "nat \<Rightarrow> ('m \<Rightarrow> bool) \<Rightarrow> 'm linear_map \<Rightarrow> bool" where
  "lm_laws n ok ops \<longleftrightarrow>
     ok (lm_new ops) \<and> lm_get ops (lm_new ops) = Map.empty \<and>
     (\<forall>m. ok m \<longrightarrow> lm_get ops m = map_of (lm_iter ops m) \<and> distinct (map fst (lm_iter ops m)) \<and>
        length (lm_iter ops m) \<le> n \<and>
        (\<forall>k v. if lm_get ops m k \<noteq> None \<or> length (lm_iter ops m) < n
           then (\<exists>m'. lm_insert ops k v m = (Inr (lm_get ops m k), m') \<and> ok m' \<and> lm_get ops m' = (lm_get ops m)(k \<mapsto> v))
           else lm_insert ops k v m = (Inl (k, v), m)) \<and>
        (\<forall>k. \<exists>m'. lm_remove ops k m = (lm_get ops m k, m') \<and> ok m' \<and> lm_get ops m' = (lm_get ops m)(k := None)) \<and>
        (\<forall>k v. lm_get ops m k \<noteq> None \<longrightarrow> ok (lm_write ops k v m) \<and> lm_get ops (lm_write ops k v m) = (lm_get ops m)(k \<mapsto> v)) \<and>
        ok (lm_clear ops m) \<and> lm_get ops (lm_clear ops m) = Map.empty)"

lemma lm_getD:
  assumes "lm_laws n ok ops" and "ok m"
  shows "lm_get ops m = map_of (lm_iter ops m)" "distinct (map fst (lm_iter ops m))" "length (lm_iter ops m) \<le> n"
  using assms unfolding lm_laws_def by blast+

lemma lm_insertD:
  assumes "lm_laws n ok ops" and "ok m" and "lm_get ops m k \<noteq> None \<or> length (lm_iter ops m) < n"
  obtains m' where "lm_insert ops k v m = (Inr (lm_get ops m k), m')" "ok m'" "lm_get ops m' = (lm_get ops m)(k \<mapsto> v)"
proof -
  have "if lm_get ops m k \<noteq> None \<or> length (lm_iter ops m) < n
     then (\<exists>m'. lm_insert ops k v m = (Inr (lm_get ops m k), m') \<and> ok m' \<and> lm_get ops m' = (lm_get ops m)(k \<mapsto> v))
     else lm_insert ops k v m = (Inl (k, v), m)"
    using assms(1,2) unfolding lm_laws_def by blast
  with assms(3) that show thesis by auto
qed

lemma lm_insert_full:
  assumes "lm_laws n ok ops" and "ok m" and "lm_get ops m k = None" and "\<not> length (lm_iter ops m) < n"
  shows "lm_insert ops k v m = (Inl (k, v), m)"
proof -
  have "if lm_get ops m k \<noteq> None \<or> length (lm_iter ops m) < n
     then (\<exists>m'. lm_insert ops k v m = (Inr (lm_get ops m k), m') \<and> ok m' \<and> lm_get ops m' = (lm_get ops m)(k \<mapsto> v))
     else lm_insert ops k v m = (Inl (k, v), m)"
    using assms(1,2) unfolding lm_laws_def by blast
  with assms(3,4) show ?thesis by simp
qed

lemma lm_removeD:
  assumes "lm_laws n ok ops" and "ok m"
  obtains m' where "lm_remove ops k m = (lm_get ops m k, m')" "ok m'" "lm_get ops m' = (lm_get ops m)(k := None)"
  using assms unfolding lm_laws_def by blast

text \<open>The number of entries is the number of keys.\<close>

lemma lm_size:
  assumes "lm_laws n ok ops" and "ok m"
  shows "length (lm_iter ops m) = card (dom (lm_get ops m))"
  using lm_getD [OF assms] by (simp add: dom_map_of_conv_image_fst distinct_card flip: set_map)

lemma lm_remove_room:
  assumes "lm_laws n ok ops" and "ok m" and "lm_get ops m k \<noteq> None" and "ok m'" and "lm_get ops m' = (lm_get ops m)(k := None)"
  shows "length (lm_iter ops m') < length (lm_iter ops m)"
proof -
  have "finite (dom (lm_get ops m))" using lm_getD(1) [OF assms(1,2)] by (simp add: finite_dom_map_of)
  moreover have "dom (lm_get ops m') = dom (lm_get ops m) - {k}" using assms(5) by simp
  moreover have "k \<in> dom (lm_get ops m)" using assms(3) by blast
  ultimately show ?thesis
    using lm_size [OF assms(1,2)] lm_size [OF assms(1,4)] card_Diff1_less by metis
qed

lemma min_by_key_fold:
  fixes f :: "'a \<Rightarrow> 'b :: linorder"
  shows "let m = fold (\<lambda>y best. if f y < f best then y else best) xs x
    in m \<in> insert x (set xs) \<and> f m \<le> f x \<and> (\<forall>y \<in> set xs. f m \<le> f y)"
proof (induction xs arbitrary: x)
  case (Cons y ys)
  show ?case using Cons.IH [of "if f y < f x then y else x"] by (auto simp: Let_def)
qed simp

lemma min_by_key_Some:
  assumes "xs \<noteq> []"
  obtains m where "min_by_key f xs = Some m" "m \<in> set xs" "\<And>y. y \<in> set xs \<Longrightarrow> f m \<le> f y"
  using assms min_by_key_fold [of f "tl xs" "hd xs"] by (cases xs) (auto simp: Let_def)


section \<open>Properties of the cache\<close>

lemma fill_with_expiration_ok:
  fixes c :: "'m neighbor_cache" and ops :: "'m linear_map" and e :: instant and hw :: hardware_address
  assumes laws: "lm_laws n ok ops" and n: "0 < n" and ok: "ok (nc_storage c)"
    and addr: "addr_is_unicast addr" and hw: "hw_is_unicast hw = Some True"
  defines "nb \<equiv> \<lparr>hardware_addr = hw, expires_at = e\<rparr>" and "m \<equiv> lm_get ops (nc_storage c)"
  obtains (plain) c' where "fill_with_expiration ops addr hw e c = Some c'" "ok (nc_storage c')" "silent_until c' = silent_until c"
      "lm_get ops (nc_storage c') = m(addr \<mapsto> nb)" "m addr \<noteq> None \<or> card (dom m) < n"
  | (evict) c' k old where "fill_with_expiration ops addr hw e c = Some c'" "ok (nc_storage c')" "silent_until c' = silent_until c"
      "m addr = None" "card (dom m) = n" "m k = Some old" "\<And>k' nb'. m k' = Some nb' \<Longrightarrow> expires_at old \<le> expires_at nb'"
      "lm_get ops (nc_storage c') = m(k := None, addr \<mapsto> nb)"
proof -
  let ?s = "nc_storage c"
  note g = lm_getD [OF laws ok] and sz = lm_size [OF laws ok]
  have au: "assert_unicast addr hw = Some ()" using addr hw by (simp add: assert_unicast_def)
  show thesis
  proof (cases "lm_get ops ?s addr \<noteq> None \<or> length (lm_iter ops ?s) < n")
    case True
    obtain s' where s': "lm_insert ops addr nb ?s = (Inr (lm_get ops ?s addr), s')" "ok s'" "lm_get ops s' = (lm_get ops ?s)(addr \<mapsto> nb)"
      using lm_insertD [OF laws ok True] .
    then show thesis using au True sz
      by (intro plain [of "c\<lparr>nc_storage := s'\<rparr>"]) (simp_all add: fill_with_expiration_def Let_def nb_def m_def)
  next
    case False
    then have full: "lm_insert ops addr nb ?s = (Inl (addr, nb), ?s)" using lm_insert_full [OF laws ok] by blast
    have ne: "lm_iter ops ?s \<noteq> []" using False n by auto
    obtain x where x: "min_by_key (expires_at \<circ> snd) (lm_iter ops ?s) = Some x" "x \<in> set (lm_iter ops ?s)"
      "\<And>y. y \<in> set (lm_iter ops ?s) \<Longrightarrow> (expires_at \<circ> snd) x \<le> (expires_at \<circ> snd) y"
      using min_by_key_Some [OF ne] by blast
    obtain k old where k: "x = (k, old)" by (cases x)
    have get: "lm_get ops ?s k = Some old" using x(2) k g by simp
    have least: "expires_at old \<le> expires_at nb'" if "lm_get ops ?s k' = Some nb'" for k' nb'
      using x(3) [of "(k', nb')"] that g(1) k by (simp add: map_of_SomeD)
    obtain r where r: "lm_remove ops k ?s = (lm_get ops ?s k, r)" "ok r" "lm_get ops r = (lm_get ops ?s)(k := None)"
      using lm_removeD [OF laws ok] .
    have "length (lm_iter ops r) < length (lm_iter ops ?s)" using lm_remove_room [OF laws ok _ r(2,3)] get by simp
    then have room: "lm_get ops r addr \<noteq> None \<or> length (lm_iter ops r) < n" using g(3) by simp
    have free: "lm_get ops r addr = None" using False r(3) by simp
    obtain s' where s': "lm_insert ops addr nb r = (Inr (lm_get ops r addr), s')" "ok s'" "lm_get ops s' = (lm_get ops r)(addr \<mapsto> nb)"
      using lm_insertD [OF laws r(2) room] .
    have "fill_with_expiration ops addr hw e c = Some (c\<lparr>nc_storage := s'\<rparr>)"
      using au full x(1) k r(1) get s'(1) free by (simp add: fill_with_expiration_def Let_def nb_def)
    then show thesis
      using False sz g(3) s' r(3) get least by (intro evict [of "c\<lparr>nc_storage := s'\<rparr>" k old]) (auto simp: m_def)
  qed
qed

text \<open>
  C31: Filling the neighbor cache. With a map as documented and room for one entry at least, filling the
  cache with a unicast pair of addresses does not panic; for a minute the address is then found with that
  hardware address; and every other entry stays as it is, but for one that is given up when the cache
  was full, and that is one that would have expired first.
\<close>

theorem neighbor_fill:
  assumes "lm_laws n ok ops" and "0 < n" and "ok (nc_storage c)"
    and "addr_is_unicast addr" and "hw_is_unicast hw = Some True"
  shows "\<exists>c'. cache_fill ops addr hw t c = Some c' \<and> ok (nc_storage c') \<and>
    (\<forall>t'. t' < instant_add t ENTRY_LIFETIME \<longrightarrow> cache_lookup ops addr t' c' = Some (Found hw)) \<and>
    (\<forall>a. a \<noteq> addr \<longrightarrow> lm_get ops (nc_storage c') a = lm_get ops (nc_storage c) a \<or>
       card (dom (lm_get ops (nc_storage c))) = n \<and> lm_get ops (nc_storage c') a = None \<and>
       (\<forall>b \<in> ran (lm_get ops (nc_storage c)). expires_at (the (lm_get ops (nc_storage c) a)) \<le> expires_at b)) \<and>
    card {a. a \<noteq> addr \<and> lm_get ops (nc_storage c') a \<noteq> lm_get ops (nc_storage c) a} \<le> 1"
proof -
  let ?e = "instant_add t ENTRY_LIFETIME" and ?m = "lm_get ops (nc_storage c)"
  have f: "cache_fill ops addr hw t c = fill_with_expiration ops addr hw ?e c"
    using assms(4,5) by (simp add: cache_fill_def assert_unicast_def)
  show ?thesis
  proof (cases rule: fill_with_expiration_ok [OF assms, of ?e, case_names plain evict])
    case (plain c')
    have none: "{a. a \<noteq> addr \<and> lm_get ops (nc_storage c') a \<noteq> ?m a} = {}" using plain(4) by auto
    show ?thesis unfolding f using plain assms(4) none
      by (intro exI [of _ c']) (simp add: cache_lookup_def)
  next
    case (evict c' k old)
    have "{a. a \<noteq> addr \<and> lm_get ops (nc_storage c') a \<noteq> ?m a} \<subseteq> {k}" using evict(8) by auto
    then have one: "card {a. a \<noteq> addr \<and> lm_get ops (nc_storage c') a \<noteq> ?m a} \<le> 1"
      by (metis card_mono finite.emptyI finite.insertI is_singletonI is_singleton_altdef)
    have "\<forall>b \<in> ran ?m. expires_at old \<le> expires_at b" using evict(7) by (auto simp: ran_def)
    then show ?thesis unfolding f using evict(1,2,5,6,8) assms(4) one
      by (intro exI [of _ c']) (auto simp: cache_lookup_def)
  qed
qed

text \<open>An association list of bounded length is such a map.\<close>

definition alist_map :: "nat \<Rightarrow> (ip_address \<times> neighbor) list linear_map" where
  "alist_map n = \<lparr>lm_new = [], lm_get = map_of, lm_iter = id,
     lm_insert = (\<lambda>k v m. if map_of m k \<noteq> None \<or> length m < n then (Inr (map_of m k), AList.update k v m) else (Inl (k, v), m)),
     lm_remove = (\<lambda>k m. (map_of m k, AList.delete k m)), lm_write = AList.update, lm_clear = (\<lambda>_. [])\<rparr>"

lemma length_alist_update: "length (AList.update k v m) = (if map_of m k = None then Suc (length m) else length m)"
  by (induction m) auto

lemma alist_map_laws: "lm_laws n (\<lambda>m. distinct (map fst m) \<and> length m \<le> n) (alist_map n)"
  unfolding lm_laws_def alist_map_def
  by (auto simp: update_conv' delete_conv' distinct_update length_alist_update distinct_delete
      intro: order_trans [OF length_delete_le])

theorem neighbor_fill_witness:
  "\<exists>c'. cache_fill (alist_map 1) (Ipv4 0xc0a80102) (HwEthernet 0x020000000002) (Instant 0)
      \<lparr>nc_storage = [(Ipv4 0xc0a80101, \<lparr>hardware_addr = HwEthernet 0x020000000001, expires_at = Instant 5\<rparr>)], silent_until = Instant 0\<rparr>
      = Some c' \<and>
    cache_lookup (alist_map 1) (Ipv4 0xc0a80102) (Instant 59999999) c' = Some (Found (HwEthernet 0x020000000002))"
proof -
  let ?c = "\<lparr>nc_storage = [(Ipv4 0xc0a80101, \<lparr>hardware_addr = HwEthernet 0x020000000001, expires_at = Instant 5\<rparr>)],
    silent_until = Instant 0\<rparr>"
  have 1: "addr_is_unicast (Ipv4 0xc0a80102)" by code_simp
  have 2: "hw_is_unicast (HwEthernet 0x020000000002) = Some True" by code_simp
  have 3: "Instant 59999999 < instant_add (Instant 0) ENTRY_LIFETIME"
    by (simp add: instant_add_def ENTRY_LIFETIME_def duration_from_millis_def less_instant_def wrap_i64_def wrap_u64_def)
  have 4: "distinct (map fst (nc_storage ?c)) \<and> length (nc_storage ?c) \<le> 1" by simp
  from neighbor_fill [OF alist_map_laws zero_less_one 4 1 2, of "Instant 0"] 3 show ?thesis by blast
qed

text \<open>The rate limit: within a second of a request, an unknown neighbor is not asked for again.\<close>

lemma limit_rate_lookup:
  assumes "addr_is_unicast addr" and "lm_get ops (nc_storage c) addr = None"
  shows "cache_lookup ops addr t' (limit_rate t c) = Some (if t' < instant_add t SILENT_TIME then RateLimited else NotFound)"
  using assms by (simp add: cache_lookup_def limit_rate_def)

lemma flush_lookup:
  assumes "lm_laws n ok ops" and "ok (nc_storage c)" and "addr_is_unicast addr"
  shows "\<exists>a. cache_lookup ops addr t (cache_flush ops c) = Some a \<and> \<not> answer_found a"
proof -
  have "lm_get ops (lm_clear ops (nc_storage c)) = Map.empty" using assms(1,2) unfolding lm_laws_def by blast
  then show ?thesis using assms(3) by (simp add: cache_lookup_def cache_flush_def)
qed

end
