(* ===== verification/Udp_Socket.thy ===== *)
theory Udp_Socket
  imports Packet_Buffer Udp_Wire Iface_Addr Tcp_Timer
begin

text \<open>
  \<open>src/smoltcp/src/socket/udp.rs\<close>: the UDP socket. Of the interface context the socket reads the
  addresses (for the broadcast test and the choice of a source address); the wakers of the \<open>async\<close>
  feature are left out. The buffers of a socket are packet buffers, seen through \<open>pb_packets\<close>.
\<close>

section \<open>State\<close>

record packet_meta =
  meta_id :: u32

definition packet_meta_default :: packet_meta where "packet_meta_default = \<lparr>meta_id = 0\<rparr>"

record udp_metadata =
  um_endpoint :: ip_endpoint
  um_local_address :: "ip_address option"
  um_meta :: packet_meta

definition udp_metadata_from :: "ip_endpoint \<Rightarrow> udp_metadata" where
  "udp_metadata_from e = \<lparr>um_endpoint = e, um_local_address = None, um_meta = packet_meta_default\<rparr>"

datatype bind_error = BindInvalidState | BindUnaddressable
datatype udp_send_error = UdpUnaddressable | UdpBufferFull
datatype udp_recv_error = UdpExhausted | UdpTruncated

record udp_socket =
  udp_endpoint :: ip_listen_endpoint
  udp_rx :: "udp_metadata packet_buffer"
  udp_tx :: "udp_metadata packet_buffer"
  udp_hop_limit :: "u8 option"

definition udp_new :: "udp_metadata packet_buffer \<Rightarrow> udp_metadata packet_buffer \<Rightarrow> udp_socket" where
  "udp_new rx tx = \<lparr>udp_endpoint = listen_endpoint_default, udp_rx = rx, udp_tx = tx, udp_hop_limit = None\<rparr>"

section \<open>Operations of the user\<close>

definition udp_set_hop_limit :: "u8 option \<Rightarrow> udp_socket \<Rightarrow> udp_socket option" where
  "udp_set_hop_limit hop_limit s = do {
     panic_unless (hop_limit \<noteq> Some 0);
     Some (s\<lparr>udp_hop_limit := hop_limit\<rparr>) }"

definition udp_is_open :: "udp_socket \<Rightarrow> bool" where "udp_is_open s \<longleftrightarrow> le_port (udp_endpoint s) \<noteq> 0"

definition udp_bind :: "ip_listen_endpoint \<Rightarrow> udp_socket \<Rightarrow> (bind_error + unit) \<times> udp_socket" where
  "udp_bind e s =
     (if le_port e = 0 then (Inl BindUnaddressable, s)
      else if udp_is_open s then (Inl BindInvalidState, s)
      else (Inr (), s\<lparr>udp_endpoint := e\<rparr>))"

definition udp_close :: "udp_socket \<Rightarrow> udp_socket" where
  "udp_close s = s\<lparr>udp_endpoint := listen_endpoint_default, udp_tx := pb_reset (udp_tx s), udp_rx := pb_reset (udp_rx s)\<rparr>"

definition udp_can_send :: "udp_socket \<Rightarrow> bool" where "udp_can_send s \<longleftrightarrow> \<not> pb_is_full (udp_tx s)"

definition udp_can_recv :: "udp_socket \<Rightarrow> bool" where "udp_can_recv s \<longleftrightarrow> \<not> pb_is_empty (udp_rx s)"

definition packet_recv_capacity :: "udp_socket \<Rightarrow> nat" where "packet_recv_capacity s = packet_capacity (udp_rx s)"

definition packet_send_capacity :: "udp_socket \<Rightarrow> nat" where "packet_send_capacity s = packet_capacity (udp_tx s)"

definition payload_recv_capacity :: "udp_socket \<Rightarrow> nat" where "payload_recv_capacity s = payload_capacity (udp_rx s)"

definition payload_send_capacity :: "udp_socket \<Rightarrow> nat" where "payload_send_capacity s = payload_capacity (udp_tx s)"

definition udp_send_queue :: "udp_socket \<Rightarrow> nat" where "udp_send_queue s = payload_bytes_count (udp_tx s)"

definition udp_recv_queue :: "udp_socket \<Rightarrow> nat" where "udp_recv_queue s = payload_bytes_count (udp_rx s)"

text \<open>The checks at the head of \<open>send\<close> and \<open>send_with\<close>.\<close>

definition udp_addressable :: "udp_metadata \<Rightarrow> udp_socket \<Rightarrow> bool" where
  "udp_addressable m s \<longleftrightarrow> le_port (udp_endpoint s) \<noteq> 0 \<and> \<not> addr_is_unspecified (ep_addr (um_endpoint m)) \<and>
     ep_port (um_endpoint m) \<noteq> 0"

text \<open>The slice that \<open>send\<close> returns is its start and length in the storage of the transmit buffer.\<close>

definition udp_send :: "nat \<Rightarrow> udp_metadata \<Rightarrow> udp_socket \<Rightarrow> ((udp_send_error + nat \<times> nat) \<times> udp_socket) option" where
  "udp_send sz m s =
     (if \<not> udp_addressable m s then Some (Inl UdpUnaddressable, s)
      else do {
        (res, tx) \<leftarrow> pb_enqueue sz m (udp_tx s);
        Some (case res of Inl Full \<Rightarrow> Inl UdpBufferFull | Inr sl \<Rightarrow> Inr sl, s\<lparr>udp_tx := tx\<rparr>) })"

definition udp_send_with ::
  "nat \<Rightarrow> udp_metadata \<Rightarrow> (u8 list \<Rightarrow> nat \<times> u8 list) \<Rightarrow> udp_socket \<Rightarrow> ((udp_send_error + nat) \<times> udp_socket) option" where
  "udp_send_with max_size m f s =
     (if \<not> udp_addressable m s then Some (Inl UdpUnaddressable, s)
      else do {
        (res, tx) \<leftarrow> enqueue_with_infallible max_size m f (udp_tx s);
        Some (case res of Inl Full \<Rightarrow> Inl UdpBufferFull | Inr n \<Rightarrow> Inr n, s\<lparr>udp_tx := tx\<rparr>) })"

text \<open>\<open>copy_from_slice\<close> panics when the lengths differ.\<close>

definition udp_send_slice :: "u8 list \<Rightarrow> udp_metadata \<Rightarrow> udp_socket \<Rightarrow> ((udp_send_error + unit) \<times> udp_socket) option" where
  "udp_send_slice data m s = do {
     (res, s) \<leftarrow> udp_send (length data) m s;
     case res of
       Inl e \<Rightarrow> Some (Inl e, s)
     | Inr (start, n) \<Rightarrow> do {
         panic_unless (n = length data);
         Some (Inr (), s\<lparr>udp_tx := (udp_tx s)\<lparr>payload_ring := (payload_ring (udp_tx s))
           \<lparr>rb_storage := overwrite (rb_storage (payload_ring (udp_tx s))) start data\<rparr>\<rparr>\<rparr>) } }"

definition udp_recv :: "udp_socket \<Rightarrow> ((udp_recv_error + u8 list \<times> udp_metadata) \<times> udp_socket) option" where
  "udp_recv s = do {
     (res, rx) \<leftarrow> pb_dequeue (udp_rx s);
     Some (case res of Inl Empty \<Rightarrow> Inl UdpExhausted | Inr (m, xs) \<Rightarrow> Inr (xs, m), s\<lparr>udp_rx := rx\<rparr>) }"

text \<open>
  \<open>recv_slice\<close> and \<open>peek_slice\<close> return the destination \<open>data\<close> as they leave it. A destination that is too
  short is an error; \<open>recv_slice\<close> has dequeued the datagram by then.
\<close>

definition udp_recv_slice ::
  "u8 list \<Rightarrow> udp_socket \<Rightarrow> ((udp_recv_error + nat \<times> udp_metadata) \<times> u8 list \<times> udp_socket) option" where
  "udp_recv_slice data s = do {
     (res, s) \<leftarrow> udp_recv s;
     Some (case res of
         Inl _ \<Rightarrow> (Inl UdpExhausted, data, s)
       | Inr (buffer, m) \<Rightarrow>
           if length data < length buffer then (Inl UdpTruncated, data, s)
           else let n = min (length data) (length buffer)
                in (Inr (n, m), overwrite data 0 (take n buffer), s)) }"

definition udp_peek :: "udp_socket \<Rightarrow> ((udp_recv_error + u8 list \<times> udp_metadata) \<times> udp_socket) option" where
  "udp_peek s = do {
     (res, rx) \<leftarrow> pb_peek (udp_rx s);
     Some (case res of Inl Empty \<Rightarrow> Inl UdpExhausted | Inr (m, xs) \<Rightarrow> Inr (xs, m), s\<lparr>udp_rx := rx\<rparr>) }"

definition udp_peek_slice ::
  "u8 list \<Rightarrow> udp_socket \<Rightarrow> ((udp_recv_error + nat \<times> udp_metadata) \<times> u8 list \<times> udp_socket) option" where
  "udp_peek_slice data s = do {
     (res, s) \<leftarrow> udp_peek s;
     Some (case res of
         Inl e \<Rightarrow> (Inl e, data, s)
       | Inr (buffer, m) \<Rightarrow>
           if length data < length buffer then (Inl UdpTruncated, data, s)
           else let n = min (length data) (length buffer)
                in (Inr (n, m), overwrite data 0 (take n buffer), s)) }"

section \<open>Operations of the interface\<close>

definition udp_accepts :: "ip_cidr list \<Rightarrow> ip_repr \<Rightarrow> udp_repr \<Rightarrow> udp_socket \<Rightarrow> bool" where
  "udp_accepts addrs ip r s \<longleftrightarrow>
     le_port (udp_endpoint s) = udp_repr_dst_port r \<and>
     \<not> (le_addr (udp_endpoint s) \<noteq> None \<and> le_addr (udp_endpoint s) \<noteq> Some (ip_dst_addr ip) \<and>
        \<not> is_broadcast addrs (ip_dst_addr ip) \<and> \<not> addr_is_multicast (ip_dst_addr ip))"

definition udp_process ::
  "ip_cidr list \<Rightarrow> packet_meta \<Rightarrow> ip_repr \<Rightarrow> udp_repr \<Rightarrow> u8 list \<Rightarrow> udp_socket \<Rightarrow> udp_socket option" where
  "udp_process addrs m ip r xs s = do {
     panic_unless (udp_accepts addrs ip r s);
     let remote = \<lparr>ep_addr = ip_src_addr ip, ep_port = udp_repr_src_port r\<rparr>;
     let metadata = \<lparr>um_endpoint = remote, um_local_address = Some (ip_dst_addr ip), um_meta = m\<rparr>;
     (_, rx) \<leftarrow> pb_put metadata xs (udp_rx s);
     Some (s\<lparr>udp_rx := rx\<rparr>) }"

type_synonym udp_packet = "packet_meta \<times> ip_repr \<times> udp_repr \<times> u8 list"

text \<open>The packet for a queued datagram; none when there is no source address for it.\<close>

definition udp_packet_for :: "ip_cidr list \<Rightarrow> udp_socket \<Rightarrow> udp_metadata \<Rightarrow> u8 list \<Rightarrow> udp_packet option option" where
  "udp_packet_for addrs s m xs = do {
     src \<leftarrow> (case um_local_address m of
         Some a \<Rightarrow> Some (Some a)
       | None \<Rightarrow> (case le_addr (udp_endpoint s) of
             Some a \<Rightarrow> Some (Some a)
           | None \<Rightarrow> get_source_address addrs (ep_addr (um_endpoint m))));
     case src of
       None \<Rightarrow> Some None
     | Some src_addr \<Rightarrow> do {
         let r = \<lparr>udp_repr_src_port = le_port (udp_endpoint s), udp_repr_dst_port = ep_port (um_endpoint m)\<rparr>;
         ip \<leftarrow> ip_repr_new src_addr (ep_addr (um_endpoint m)) ProtoUdp (udp_header_len r + length xs)
                (case udp_hop_limit s of Some h \<Rightarrow> h | None \<Rightarrow> 64);
         Some (Some (um_meta m, ip, r, xs)) } }"

text \<open>
  The packet given to \<open>emit\<close>, if any, the result of \<open>dispatch\<close>, and the socket. In the closure of
  \<open>dequeue_with\<close>, \<open>Inl None\<close> stands for a panic.
\<close>

definition udp_dispatch ::
  "(udp_packet \<Rightarrow> 'e + unit) \<Rightarrow> ip_cidr list \<Rightarrow> udp_socket \<Rightarrow> (udp_packet option \<times> ('e + unit) \<times> udp_socket) option" where
  "udp_dispatch emit addrs s = do {
     (res, tx) \<leftarrow> pb_dequeue_with (\<lambda>m xs.
        (case udp_packet_for addrs s m xs of
           None \<Rightarrow> Inl None
         | Some None \<Rightarrow> Inr None
         | Some (Some p) \<Rightarrow> (case emit p of Inl e \<Rightarrow> Inl (Some (p, e)) | Inr _ \<Rightarrow> Inr (Some p)), m, xs)) (udp_tx s);
     case res of
       Inl Empty \<Rightarrow> Some (None, Inr (), s\<lparr>udp_tx := tx\<rparr>)
     | Inr (Inl None) \<Rightarrow> None
     | Inr (Inl (Some (p, e))) \<Rightarrow> Some (Some p, Inl e, s\<lparr>udp_tx := tx\<rparr>)
     | Inr (Inr p) \<Rightarrow> Some (p, Inr (), s\<lparr>udp_tx := tx\<rparr>) }"

definition udp_poll_at :: "udp_socket \<Rightarrow> poll_at" where
  "udp_poll_at s = (if pb_is_empty (udp_tx s) then PollIngress else PollNow)"

section \<open>Invariant\<close>

definition udp_inv :: "udp_socket \<Rightarrow> bool" where
  "udp_inv s \<longleftrightarrow> pb_inv (udp_rx s) \<and> pb_inv (udp_tx s) \<and> udp_hop_limit s \<noteq> Some 0 \<and>
     (\<forall>(m, _) \<in> set (pb_packets (udp_tx s)).
        \<not> addr_is_unspecified (ep_addr (um_endpoint m)) \<and> ep_port (um_endpoint m) \<noteq> 0)"

text \<open>The two queues, as the user and the network see them.\<close>

abbreviation received :: "udp_socket \<Rightarrow> (udp_metadata \<times> u8 list) list" where
  "received s \<equiv> pb_packets (udp_rx s)"

abbreviation queued :: "udp_socket \<Rightarrow> (udp_metadata \<times> u8 list) list" where
  "queued s \<equiv> pb_packets (udp_tx s)"

lemma udp_new_inv: "pb_inv rx \<Longrightarrow> pb_inv tx \<Longrightarrow> pb_packets tx = [] \<Longrightarrow> udp_inv (udp_new rx tx)"
  by (simp add: udp_inv_def udp_new_def)

lemma udp_set_hop_limit_inv: "udp_inv s \<Longrightarrow> udp_set_hop_limit h s = Some s' \<Longrightarrow> udp_inv s'"
  by (cases "h = Some 0") (auto simp: udp_set_hop_limit_def udp_inv_def)

lemma udp_bind_inv: "udp_inv s \<Longrightarrow> udp_inv (snd (udp_bind e s))"
  by (simp add: udp_bind_def udp_inv_def)

lemma udp_close_inv: "udp_inv s \<Longrightarrow> udp_inv (udp_close s)"
  by (simp add: udp_close_def udp_inv_def pb_reset_inv pb_reset_packets)

text \<open>\<open>send_slice\<close> in terms of the queue.\<close>

lemma udp_send_slice_put:
  assumes "udp_addressable m s"
  shows "udp_send_slice data m s = do {
    (stored, tx) \<leftarrow> pb_put m data (udp_tx s);
    Some (if stored then Inr () else Inl UdpBufferFull, s\<lparr>udp_tx := tx\<rparr>) }"
proof (cases "pb_enqueue (length data) m (udp_tx s)")
  case None
  then show ?thesis using assms by (simp add: udp_send_slice_def udp_send_def pb_put_def)
next
  case (Some x)
  obtain res tx where x: "x = (res, tx)" by (cases x)
  show ?thesis
  proof (cases res)
    case (Inl e)
    then show ?thesis using assms Some x by (cases e) (simp add: udp_send_slice_def udp_send_def pb_put_def)
  next
    case (Inr sl)
    then show ?thesis using assms Some x
      by (cases sl) (simp add: udp_send_slice_def udp_send_def pb_put_def panic_unless_def)
  qed
qed

lemma udp_send_slice_ok:
  assumes inv: "udp_inv s" and m: "udp_addressable m s"
  obtains stored s' where "udp_send_slice data m s = Some (if stored then Inr () else Inl UdpBufferFull, s')" "udp_inv s'"
    "queued s' = queued s @ (if stored then [(m, data)] else [])" "received s' = received s" "udp_endpoint s' = udp_endpoint s"
    "pb_is_empty (udp_tx s) \<and> 0 < packet_send_capacity s \<and> length data \<le> payload_send_capacity s \<longrightarrow> stored"
proof -
  have "pb_inv (udp_tx s)" using inv by (simp add: udp_inv_def)
  then obtain stored tx where "pb_put m data (udp_tx s) = Some (stored, tx)" "pb_inv tx"
    "pb_packets tx = queued s @ (if stored then [(m, data)] else [])"
    "pb_is_empty (udp_tx s) \<and> 0 < packet_capacity (udp_tx s) \<and> length data \<le> payload_capacity (udp_tx s) \<longrightarrow> stored"
    by (rule pb_put_ok [of "udp_tx s" m data])
  then show thesis using inv m
    by (intro that [of stored "s\<lparr>udp_tx := tx\<rparr>"])
      (auto simp: udp_send_slice_put udp_inv_def udp_addressable_def packet_send_capacity_def payload_send_capacity_def
        split: if_splits)
qed


lemma udp_recv_ok:
  assumes "udp_inv s"
  obtains s' where "udp_recv s = Some (case received s of [] \<Rightarrow> Inl UdpExhausted | (m, xs) # _ \<Rightarrow> Inr (xs, m), s')" "udp_inv s'"
    "received s' = tl (received s)" "queued s' = queued s" "udp_endpoint s' = udp_endpoint s"
proof -
  have "pb_inv (udp_rx s)" using assms by (simp add: udp_inv_def)
  then obtain rx where rx: "pb_dequeue (udp_rx s) = Some (case received s of [] \<Rightarrow> Inl Empty | x # _ \<Rightarrow> Inr x, rx)" "pb_inv rx"
    "pb_packets rx = tl (received s)"
    by (rule pb_dequeue_ok)
  show thesis using assms rx
    by (intro that [of "s\<lparr>udp_rx := rx\<rparr>"]) (auto simp: udp_recv_def udp_inv_def split: list.splits prod.splits)
qed

lemma udp_peek_ok:
  assumes "udp_inv s"
  obtains s' where "udp_peek s = Some (case received s of [] \<Rightarrow> Inl UdpExhausted | (m, xs) # _ \<Rightarrow> Inr (xs, m), s')" "udp_inv s'"
    "received s' = received s" "queued s' = queued s" "udp_endpoint s' = udp_endpoint s"
proof -
  have "pb_inv (udp_rx s)" using assms by (simp add: udp_inv_def)
  then obtain rx where rx: "pb_peek (udp_rx s) = Some (case received s of [] \<Rightarrow> Inl Empty | x # _ \<Rightarrow> Inr x, rx)" "pb_inv rx"
    "pb_packets rx = received s"
    by (rule pb_peek_ok)
  show thesis using assms rx
    by (intro that [of "s\<lparr>udp_rx := rx\<rparr>"]) (auto simp: udp_peek_def udp_inv_def split: list.splits prod.splits)
qed

section \<open>Receiving\<close>

text \<open>What the user is told about a datagram.\<close>

definition udp_origin :: "packet_meta \<Rightarrow> ip_repr \<Rightarrow> udp_repr \<Rightarrow> udp_metadata" where
  "udp_origin m ip r = \<lparr>um_endpoint = \<lparr>ep_addr = ip_src_addr ip, ep_port = udp_repr_src_port r\<rparr>,
     um_local_address = Some (ip_dst_addr ip), um_meta = m\<rparr>"

lemma udp_process_ok:
  assumes inv: "udp_inv s" and acc: "udp_accepts addrs ip r s"
  obtains stored s' where "udp_process addrs m ip r xs s = Some s'" "udp_inv s'" "queued s' = queued s"
    "received s' = received s @ (if stored then [(udp_origin m ip r, xs)] else [])" "udp_endpoint s' = udp_endpoint s"
    "pb_is_empty (udp_rx s) \<and> 0 < packet_recv_capacity s \<and> length xs \<le> payload_recv_capacity s \<longrightarrow> stored"
proof -
  have "pb_inv (udp_rx s)" using inv by (simp add: udp_inv_def)
  then obtain stored rx where "pb_put (udp_origin m ip r) xs (udp_rx s) = Some (stored, rx)" "pb_inv rx"
    "pb_packets rx = received s @ (if stored then [(udp_origin m ip r, xs)] else [])"
    "pb_is_empty (udp_rx s) \<and> 0 < packet_capacity (udp_rx s) \<and> length xs \<le> payload_capacity (udp_rx s) \<longrightarrow> stored"
    by (rule pb_put_ok [of "udp_rx s" "udp_origin m ip r" xs])
  then show thesis using inv acc
    by (intro that [of "s\<lparr>udp_rx := rx\<rparr>" stored])
      (simp_all add: udp_process_def udp_inv_def udp_origin_def packet_recv_capacity_def payload_recv_capacity_def)
qed

text \<open>
  The life of a bound socket: datagrams that arrive, and the calls of the user and the interface. The
  run collects the datagrams that were taken in, those the user was handed, those that were queued to
  be sent, and those that left the transmit queue.
\<close>

datatype udp_op =
    UdpArrive packet_meta ip_repr udp_repr "u8 list"
  | UdpRecv
  | UdpSend "u8 list" udp_metadata

fun udp_run :: "ip_cidr list \<Rightarrow> udp_op list \<Rightarrow> udp_socket \<Rightarrow>
    ((udp_metadata \<times> u8 list) list \<times> (udp_metadata \<times> u8 list) list \<times> (udp_metadata \<times> u8 list) list \<times> udp_socket) option"
where
  "udp_run addrs [] s = Some ([], [], [], s)"
| "udp_run addrs (UdpArrive m ip r xs # ops) s =
     (if udp_accepts addrs ip r s
      then do {
        s' \<leftarrow> udp_process addrs m ip r xs s;
        (ins, outs, sends, t) \<leftarrow> udp_run addrs ops s';
        Some ((if length (received s') = length (received s) then [] else [(udp_origin m ip r, xs)]) @ ins, outs, sends, t) }
      else udp_run addrs ops s)"
| "udp_run addrs (UdpRecv # ops) s = do {
     (res, s) \<leftarrow> udp_recv s;
     (ins, outs, sends, t) \<leftarrow> udp_run addrs ops s;
     Some (ins, (case res of Inl _ \<Rightarrow> [] | Inr (xs, m) \<Rightarrow> [(m, xs)]) @ outs, sends, t) }"
| "udp_run addrs (UdpSend xs m # ops) s = do {
     (res, s) \<leftarrow> udp_send_slice xs m s;
     (ins, outs, sends, t) \<leftarrow> udp_run addrs ops s;
     Some (ins, outs, (case res of Inl _ \<Rightarrow> [] | Inr _ \<Rightarrow> [(m, xs)]) @ sends, t) }"

lemma udp_send_slice_refused:
  "\<not> udp_addressable m s \<Longrightarrow> udp_send_slice data m s = Some (Inl UdpUnaddressable, s)"
  by (simp add: udp_send_slice_def udp_send_def)

lemma udp_run_ok:
  "udp_inv s \<Longrightarrow> \<exists>ins outs sends s'. udp_run addrs ops s = Some (ins, outs, sends, s') \<and> udp_inv s' \<and>
     received s @ ins = outs @ received s' \<and> queued s' = queued s @ sends"
proof (induction ops arbitrary: s)
  case Nil
  then show ?case by simp
next
  case (Cons x ops)
  show ?case
  proof (cases x)
    case (UdpArrive m ip r xs)
    show ?thesis
    proof (cases "udp_accepts addrs ip r s")
      case True
      obtain stored s' where "udp_process addrs m ip r xs s = Some s'" "udp_inv s'" "queued s' = queued s"
        "received s' = received s @ (if stored then [(udp_origin m ip r, xs)] else [])"
        by (rule udp_process_ok [OF Cons.prems True, of m xs])
      moreover from Cons.IH [OF this(2)] obtain ins outs sends t where
        "udp_run addrs ops s' = Some (ins, outs, sends, t)" "udp_inv t"
        "received s' @ ins = outs @ received t" "queued t = queued s' @ sends" by blast
      ultimately show ?thesis using UdpArrive True by (cases stored) simp_all
    qed (use UdpArrive Cons in simp)
  next
    case UdpRecv
    obtain s' where s': "udp_recv s = Some (case received s of [] \<Rightarrow> Inl UdpExhausted | (m, xs) # _ \<Rightarrow> Inr (xs, m), s')" "udp_inv s'"
      "received s' = tl (received s)" "queued s' = queued s"
      by (rule udp_recv_ok [OF Cons.prems])
    from Cons.IH [OF s'(2)] obtain ins outs sends t where
      "udp_run addrs ops s' = Some (ins, outs, sends, t)" "udp_inv t"
      "received s' @ ins = outs @ received t" "queued t = queued s' @ sends" by blast
    then show ?thesis using UdpRecv s' by (cases "received s") auto
  next
    case (UdpSend xs m)
    show ?thesis
    proof (cases "udp_addressable m s")
      case True
      obtain stored s' where s': "udp_send_slice xs m s = Some (if stored then Inr () else Inl UdpBufferFull, s')" "udp_inv s'"
        "queued s' = queued s @ (if stored then [(m, xs)] else [])" "received s' = received s"
        by (rule udp_send_slice_ok [OF Cons.prems True])
      from Cons.IH [OF s'(2)] obtain ins outs sends t where
        "udp_run addrs ops s' = Some (ins, outs, sends, t)" "udp_inv t"
        "received s' @ ins = outs @ received t" "queued t = queued s' @ sends" by blast
      then show ?thesis using UdpSend s' by simp
    next
      case False
      with Cons UdpSend show ?thesis by (simp add: udp_send_slice_refused)
    qed
  qed
qed


text \<open>
  C18: A UDP socket neither mixes up nor invents datagrams. For every sequence of datagrams that arrive
  and calls of \<open>recv\<close> and \<open>send_slice\<close> on a socket in a good state, nothing panics; what the user is
  handed, followed by what is still queued, is what was queued before followed by the datagrams taken
  in, in order, each whole and with the endpoint it came from and the address it came to; and the
  transmit queue has grown by exactly the datagrams for which \<open>send_slice\<close> returned \<open>Ok\<close>.
\<close>

theorem udp_datagrams_intact:
  assumes "udp_inv s"
  shows "\<exists>ins outs sends s'. udp_run addrs ops s = Some (ins, outs, sends, s') \<and> udp_inv s' \<and>
    received s @ ins = outs @ received s' \<and> queued s' = queued s @ sends"
  using udp_run_ok [OF assms] .

definition demo_udp :: udp_socket where
  "demo_udp = snd (udp_bind \<lparr>le_addr = Some (Ipv4 0xc0a80102), le_port = 53\<rparr>
     (udp_new (pb_new (replicate 2 pm_empty) (replicate 8 0)) (pb_new (replicate 2 pm_empty) (replicate 8 0))))"

lemma demo_udp_inv: "udp_inv demo_udp"
  unfolding demo_udp_def by (intro udp_bind_inv udp_new_inv pb_new_inv pb_new_packets)

theorem udp_datagrams_intact_witness:
  "\<exists>ins outs sends s'. udp_run demo_addrs [UdpRecv, UdpSend [1, 2] (udp_metadata_from \<lparr>ep_addr = Ipv4 0xc0a80101, ep_port = 99\<rparr>)]
      demo_udp = Some (ins, outs, sends, s') \<and> udp_inv s' \<and>
    received demo_udp @ ins = outs @ received s' \<and> queued s' = queued demo_udp @ sends"
  by (rule udp_datagrams_intact) (rule demo_udp_inv)

section \<open>Sending\<close>

text \<open>The source address of a queued datagram: its own, that of the socket, or one of the interface.\<close>

definition udp_source_is :: "ip_cidr list \<Rightarrow> udp_socket \<Rightarrow> udp_metadata \<Rightarrow> ip_address option \<Rightarrow> bool" where
  "udp_source_is addrs s m src \<longleftrightarrow>
     (case (um_local_address m, le_addr (udp_endpoint s)) of
        (Some a, _) \<Rightarrow> src = Some a
      | (None, Some a) \<Rightarrow> src = Some a
      | (None, None) \<Rightarrow> get_source_address addrs (ep_addr (um_endpoint m)) = Some src)"

text \<open>The versions of the fixed addresses fit the destination.\<close>

definition udp_versions_ok :: "udp_socket \<Rightarrow> udp_metadata \<Rightarrow> bool" where
  "udp_versions_ok s m \<longleftrightarrow>
     (case (um_local_address m, le_addr (udp_endpoint s)) of
        (Some a, _) \<Rightarrow> addr_version a = addr_version (ep_addr (um_endpoint m))
      | (None, Some a) \<Rightarrow> addr_version a = addr_version (ep_addr (um_endpoint m))
      | (None, None) \<Rightarrow> True)"

lemma source_address_version:
  assumes "\<not> addr_is_unspecified dst"
  obtains src where "get_source_address addrs dst = Some src"
    "\<And>a. src = Some a \<Longrightarrow> addr_version a = addr_version dst"
proof (cases dst)
  case (Ipv4 a)
  then show thesis by (intro that [of "map_option Ipv4 (get_source_address_ipv4 addrs)"]) auto
next
  case (Ipv6 a)
  then have "a \<noteq> 0" using assms by simp
  then obtain b where "get_source_address_ipv6 addrs a = Some b" by (rule source_v6_own)
  then show thesis using Ipv6 by (intro that [of "Some (Ipv6 b)"]) auto
qed

lemma udp_packet_for_ok:
  assumes "udp_versions_ok s m" and "\<not> addr_is_unspecified (ep_addr (um_endpoint m))"
  obtains (none) "udp_packet_for addrs s m xs = Some None" "udp_source_is addrs s m None"
  | (packet) ip r src where "udp_packet_for addrs s m xs = Some (Some (um_meta m, ip, r, xs))" "udp_source_is addrs s m (Some src)"
      "ip_src_addr ip = src" "ip_dst_addr ip = ep_addr (um_endpoint m)" "ip_next_header ip = ProtoUdp"
      "ip_payload_len ip = 8 + length xs" "ip_hop_limit ip = (case udp_hop_limit s of Some h \<Rightarrow> h | None \<Rightarrow> 64)"
      "r = \<lparr>udp_repr_src_port = le_port (udp_endpoint s), udp_repr_dst_port = ep_port (um_endpoint m)\<rparr>"
proof -
  let ?dst = "ep_addr (um_endpoint m)"
  let ?r = "\<lparr>udp_repr_src_port = le_port (udp_endpoint s), udp_repr_dst_port = ep_port (um_endpoint m)\<rparr>"
  let ?sel = "case um_local_address m of Some a \<Rightarrow> Some (Some a)
       | None \<Rightarrow> (case le_addr (udp_endpoint s) of Some a \<Rightarrow> Some (Some a) | None \<Rightarrow> get_source_address addrs ?dst)"
  obtain src where src: "?sel = Some src" "udp_source_is addrs s m src" "\<And>a. src = Some a \<Longrightarrow> addr_version a = addr_version ?dst"
  proof (rule source_address_version [OF assms(2), of addrs])
    fix x
    assume "get_source_address addrs ?dst = Some x" "\<And>a. x = Some a \<Longrightarrow> addr_version a = addr_version ?dst"
    then show thesis using assms(1)
      by (cases "um_local_address m"; cases "le_addr (udp_endpoint s)")
        (auto intro: that simp: udp_source_is_def udp_versions_ok_def)
  qed
  show thesis
  proof (cases src)
    case None
    then show thesis using src by (intro none) (simp_all add: udp_packet_for_def)
  next
    case (Some a)
    obtain ip where ip: "ip_repr_new a ?dst ProtoUdp (8 + length xs) (case udp_hop_limit s of Some h \<Rightarrow> h | None \<Rightarrow> 64) = Some ip"
      using ip_repr_new_Some [OF src(3) [OF Some]] by blast
    show thesis using src Some ip ip_repr_newD [OF ip]
      by (intro packet [of ip ?r a]) (simp_all add: udp_packet_for_def udp_header_len_def UDP_HEADER_LEN_def Let_def)
  qed
qed


definition demo_meta :: udp_metadata where
  "demo_meta = udp_metadata_from \<lparr>ep_addr = Ipv4 0xc0a80101, ep_port = 99\<rparr>"

definition demo_udp_busy :: udp_socket where
  "demo_udp_busy = (case udp_send_slice [1, 2] demo_meta demo_udp of Some (_, s) \<Rightarrow> s | None \<Rightarrow> demo_udp)"

lemma demo_udp_busy_queued: "queued demo_udp_busy = [(demo_meta, [1, 2])]"
  by code_simp

lemma demo_udp_busy_versions: "udp_versions_ok demo_udp_busy demo_meta"
  by code_simp

lemma demo_udp_busy_inv: "udp_inv demo_udp_busy"
proof -
  have "udp_addressable demo_meta demo_udp" by code_simp
  then obtain stored s' where "udp_send_slice [1, 2] demo_meta demo_udp = Some (if stored then Inr () else Inl UdpBufferFull, s')"
    "udp_inv s'" by (rule udp_send_slice_ok [OF demo_udp_inv])
  then show ?thesis by (simp add: demo_udp_busy_def)
qed


lemma pb_is_empty_packets: "pb_is_empty b \<Longrightarrow> pb_packets b = []"
  by (simp add: pb_is_empty_def pb_packets_def flip: rb_list_Nil)

text \<open>
  C20: A datagram for the other version of IP stops the interface. A socket that is bound to an address
  accepts a datagram for an endpoint of the other IP version: \<open>send_slice\<close> returns \<open>Ok\<close>. The next
  \<open>dispatch\<close> panics.
\<close>

theorem udp_version_mismatch_panics:
  assumes inv: "udp_inv s" and m: "udp_addressable m s" "um_local_address m = None"
    and bound: "le_addr (udp_endpoint s) = Some a" "addr_version a \<noteq> addr_version (ep_addr (um_endpoint m))"
    and room: "pb_is_empty (udp_tx s)" "0 < packet_send_capacity s" "length data \<le> payload_send_capacity s"
  shows "\<exists>s'. udp_send_slice data m s = Some (Inr (), s') \<and> udp_dispatch emit addrs s' = None"
proof -
  obtain stored s' where s': "udp_send_slice data m s = Some (if stored then Inr () else Inl UdpBufferFull, s')" "udp_inv s'"
    "queued s' = queued s @ (if stored then [(m, data)] else [])" "udp_endpoint s' = udp_endpoint s" "stored"
    using udp_send_slice_ok [OF inv m(1), of data] room by metis
  have q: "queued s' = [(m, data)]" using s' room(1) by (simp add: pb_is_empty_packets)
  have none: "udp_packet_for addrs s' m data = None"
    using m(2) bound s'(4) by (cases a; cases "ep_addr (um_endpoint m)") (simp_all add: udp_packet_for_def Let_def)
  let ?f = "\<lambda>m xs. (case udp_packet_for addrs s' m xs of
           None \<Rightarrow> Inl None
         | Some None \<Rightarrow> Inr None
         | Some (Some p) \<Rightarrow> (case emit p of Inl e \<Rightarrow> Inl (Some (p, e)) | Inr _ \<Rightarrow> Inr (Some p)), m, xs)"
  have tx: "pb_inv (udp_tx s')" using s'(2) by (simp add: udp_inv_def)
  have "udp_dispatch emit addrs s' = None"
  proof (cases rule: pb_dequeue_with_ok [OF tx, of ?f, case_names len none some])
    case (some h xs rest b')
    then show ?thesis using q none by (simp add: udp_dispatch_def)
  qed (use q in simp_all)
  then show ?thesis using s'(1,5) by simp
qed

theorem udp_version_mismatch_panics_witness:
  "\<exists>s'. udp_send_slice [1, 2] (udp_metadata_from \<lparr>ep_addr = Ipv6 7, ep_port = 99\<rparr>) demo_udp = Some (Inr (), s') \<and>
     udp_dispatch (\<lambda>_. Inr () :: unit + unit) demo_addrs s' = None"
proof (rule udp_version_mismatch_panics [OF demo_udp_inv, of _ "Ipv4 0xc0a80102"])
  show "udp_addressable (udp_metadata_from \<lparr>ep_addr = Ipv6 7, ep_port = 99\<rparr>) demo_udp" by code_simp
  show "le_addr (udp_endpoint demo_udp) = Some (Ipv4 0xc0a80102)" by code_simp
  show "pb_is_empty (udp_tx demo_udp)" by code_simp
  show "0 < packet_send_capacity demo_udp" by code_simp
  show "length [1, 2 :: u8] \<le> payload_send_capacity demo_udp" by code_simp
qed (simp_all add: udp_metadata_from_def)

end
