(* ===== verification/Iface_Tcp.thy ===== *)
theory Iface_Tcp
  imports Tcp_Lifecycle Tcp_Wire Iface_Addr
begin

text \<open>
  \<open>src/smoltcp/src/iface/interface/tcp.rs\<close>: what the interface does with the payload of an IP packet that
  holds a TCP segment. The TCP sockets of the socket set are a list, in the order of the set.
\<close>

section \<open>\<open>process_tcp\<close>\<close>

text \<open>The loop over the sockets: the first one that accepts the segment processes it.\<close>

fun process_first ::
  "iface_context \<Rightarrow> ip_repr \<Rightarrow> tcp_repr \<Rightarrow> tcp_socket list \<Rightarrow> (packet option \<times> tcp_socket list) option option" where
  "process_first cx ip r [] = Some None"
| "process_first cx ip r (s # ss) =
     (if accepts s ip r
      then do { (rep, s') \<leftarrow> process cx ip r s; Some (Some (rep, s' # ss)) }
      else do {
        res \<leftarrow> process_first cx ip r ss;
        Some (map_option (\<lambda>(rep, ss'). (rep, s # ss')) res) })"

definition process_tcp ::
  "iface_context \<Rightarrow> checksum_capabilities \<Rightarrow> ip_repr \<Rightarrow> u8 list \<Rightarrow> tcp_socket list \<Rightarrow>
   (packet option \<times> tcp_socket list) option" where
  "process_tcp cx caps ip ip_payload sockets = do {
     checked \<leftarrow> tcp_new_checked ip_payload;
     case checked of
       Inl _ \<Rightarrow> Some (None, sockets)
     | Inr tcp_packet \<Rightarrow> do {
         parsed \<leftarrow> tcp_parse (ip_src_addr ip) (ip_dst_addr ip) caps tcp_packet;
         case parsed of
           Inl _ \<Rightarrow> Some (None, sockets)
         | Inr r \<Rightarrow> do {
             handled \<leftarrow> process_first cx ip r sockets;
             case handled of
               Some out \<Rightarrow> Some out
             | None \<Rightarrow>
                 if control r = CtlRst \<or> addr_is_unspecified (ip_dst_addr ip) \<or> addr_is_unspecified (ip_src_addr ip)
                 then Some (None, sockets)
                 else do { p \<leftarrow> rst_reply ip r; Some (Some p, sockets) } } } }"

section \<open>No packet stops the interface\<close>

lemma process_first_ok:
  assumes "\<forall>s \<in> set ss. tcp_inv s" and seg: "segment_ok r"
  shows "\<exists>res. process_first cx ip r ss = Some res \<and>
    (case res of
       None \<Rightarrow> \<forall>s \<in> set ss. \<not> accepts s ip r
     | Some (rep, ss') \<Rightarrow> \<exists>i s'. i < length ss \<and> accepts (ss ! i) ip r \<and> (\<forall>j < i. \<not> accepts (ss ! j) ip r) \<and>
         process cx ip r (ss ! i) = Some (rep, s') \<and> tcp_inv s' \<and> ss' = ss[i := s'])"
  using assms(1)
proof (induction ss)
  case (Cons s ss)
  show ?case
  proof (cases "accepts s ip r")
    case True
    obtain rep s' where "process cx ip r s = Some (rep, s')" "tcp_inv s'"
      by (rule process_ok [OF _ seg True, of cx]) (use Cons.prems in auto)
    then show ?thesis using True by (intro exI [of _ "Some (rep, s' # ss)"]) (auto intro!: exI [of _ 0])
  next
    case False
    from Cons obtain res where r: "process_first cx ip r ss = Some res" and res: "case res of
       None \<Rightarrow> \<forall>s \<in> set ss. \<not> accepts s ip r
     | Some (rep, ss') \<Rightarrow> \<exists>i s'. i < length ss \<and> accepts (ss ! i) ip r \<and> (\<forall>j < i. \<not> accepts (ss ! j) ip r) \<and>
         process cx ip r (ss ! i) = Some (rep, s') \<and> tcp_inv s' \<and> ss' = ss[i := s']" by auto
    show ?thesis
    proof (cases res)
      case None
      then show ?thesis using False r res by simp
    next
      case (Some x)
      obtain rep ss' where x: "x = (rep, ss')" by (cases x)
      from res Some x obtain i s' where i: "i < length ss" "accepts (ss ! i) ip r" "\<forall>j < i. \<not> accepts (ss ! j) ip r"
        "process cx ip r (ss ! i) = Some (rep, s')" "tcp_inv s'" "ss' = ss[i := s']" by auto
      then have "Suc i < length (s # ss) \<and> accepts ((s # ss) ! Suc i) ip r \<and> (\<forall>j < Suc i. \<not> accepts ((s # ss) ! j) ip r) \<and>
         process cx ip r ((s # ss) ! Suc i) = Some (rep, s') \<and> tcp_inv s' \<and> s # ss' = (s # ss)[Suc i := s']"
        using False by (auto simp: less_Suc_eq_0_disj)
      then show ?thesis using False r Some x by auto
    qed
  qed
qed simp

lemma rst_reply_addr:
  assumes "rst_reply ip r = Some (ip', rep)"
  shows "control rep = CtlRst \<and> ip_src_addr ip' = ip_dst_addr ip \<and> ip_dst_addr ip' = ip_src_addr ip"
  using assms by (auto simp: rst_reply_def reply_def Let_def bind_eq_Some_conv split: if_splits dest!: ip_repr_newD)

lemma parsed_segment_ok:
  assumes "tcp_parse src dst caps data = Some (Inr r)" and "same_version src dst" and "length data \<le> 131072"
  shows "segment_ok r"
  using tcp_parse_repr [OF assms(2), of caps data] assms(1,3) by (auto simp: segment_ok_def word_le_nat_alt)

lemma tcp_new_checked_total: "\<exists>res. tcp_new_checked data = Some res \<and> (\<forall>p. res = Inr p \<longrightarrow> p = data)"
  by (cases rule: tcp_check_len_total [of data]) (simp_all add: tcp_new_checked_def)

text \<open>What becomes of a payload: nothing, a reset in answer, or one socket processes the segment.\<close>

lemma process_tcp_ok:
  assumes inv: "\<forall>s \<in> set ss. tcp_inv s" and len: "length data \<le> 131072"
  obtains (dropped) "process_tcp cx caps ip data ss = Some (None, ss)"
  | (reset) r p where "process_tcp cx caps ip data ss = Some (Some p, ss)"
      "tcp_parse (ip_src_addr ip) (ip_dst_addr ip) caps data = Some (Inr r)" "rst_reply ip r = Some p"
  | (processed) r i rep s' where "process_tcp cx caps ip data ss = Some (rep, ss[i := s'])" "\<forall>s \<in> set (ss[i := s']). tcp_inv s"
      "tcp_parse (ip_src_addr ip) (ip_dst_addr ip) caps data = Some (Inr r)" "i < length ss" "accepts (ss ! i) ip r"
      "\<forall>j < i. \<not> accepts (ss ! j) ip r" "process cx ip r (ss ! i) = Some (rep, s')"
proof -
  have v: "same_version (ip_src_addr ip) (ip_dst_addr ip)" by (simp add: same_version_def)
  obtain checked where c: "tcp_new_checked data = Some checked" "\<And>p. checked = Inr p \<Longrightarrow> p = data"
    using tcp_new_checked_total by blast
  obtain parsed where parsed: "tcp_parse (ip_src_addr ip) (ip_dst_addr ip) caps data = Some parsed"
    using tcp_parse_repr [OF v] by blast
  show thesis
  proof (cases "\<exists>e. checked = Inl e \<or> parsed = Inl e")
    case True
    then show thesis using c parsed by (intro dropped) (cases checked; auto simp: process_tcp_def)
  next
    case False
    then obtain p r where r: "checked = Inr p" "parsed = Inr r" by (meson sum.exhaust)
    note eq = c(1) c(2) [OF r(1)] r parsed
    have seg: "segment_ok r" using parsed_segment_ok [OF _ v len] parsed r by blast
    obtain res where f: "process_first cx ip r ss = Some res" and res: "case res of
       None \<Rightarrow> \<forall>s \<in> set ss. \<not> accepts s ip r
     | Some (rep, ss') \<Rightarrow> \<exists>i s'. i < length ss \<and> accepts (ss ! i) ip r \<and> (\<forall>j < i. \<not> accepts (ss ! j) ip r) \<and>
         process cx ip r (ss ! i) = Some (rep, s') \<and> tcp_inv s' \<and> ss' = ss[i := s']"
      using process_first_ok [OF inv seg] by blast
    show thesis
    proof (cases res)
      case None
      show thesis
      proof (cases "control r = CtlRst \<or> addr_is_unspecified (ip_dst_addr ip) \<or> addr_is_unspecified (ip_src_addr ip)")
        case True
        then show thesis using eq f None by (intro dropped) (simp add: process_tcp_def)
      next
        case False
        then obtain q where "rst_reply ip r = Some q" using rst_reply_Some [OF _ seg, of ip] by blast
        then show thesis using eq f None False by (intro reset [of q r]) (simp_all add: process_tcp_def)
      qed
    next
      case (Some x)
      obtain rep ss' where x: "x = (rep, ss')" by (cases x)
      from res Some x obtain i s' where i: "i < length ss" "accepts (ss ! i) ip r" "\<forall>j < i. \<not> accepts (ss ! j) ip r"
        "process cx ip r (ss ! i) = Some (rep, s')" "tcp_inv s'" "ss' = ss[i := s']" by auto
      have "process_tcp cx caps ip data ss = Some (rep, ss[i := s'])" using eq f Some x i(6) by (simp add: process_tcp_def)
      moreover have "\<forall>s \<in> set (ss[i := s']). tcp_inv s" using i(5) inv set_update_subset_insert [of ss i s'] by auto
      ultimately show thesis using i parsed r by (intro processed [of rep i s' r]) simp_all
    qed
  qed
qed

text \<open>
  No IP payload whatsoever stops the interface or breaks a socket. For any octets, up to twice the length
  an IP packet can have (as much as the last fragment can add), and any set of sockets that satisfy their invariant, the TCP input of the interface
  returns: the octets are parsed, at most one socket changes, the first that accepts the segment, and
  by \<open>process\<close>; all sockets keep their invariant. A segment that no socket accepts is answered with
  a reset that goes back where the segment came from, unless it is a reset itself.
\<close>

lemma tcp_input_safe:
  assumes inv: "\<forall>s \<in> set ss. tcp_inv s" and len: "length data \<le> 131072"
  shows "\<exists>rep ss'. process_tcp cx caps ip data ss = Some (rep, ss') \<and> (\<forall>s \<in> set ss'. tcp_inv s) \<and>
    (ss' = ss \<and> (\<forall>p. rep = Some p \<longrightarrow> control (snd p) = CtlRst \<and> ip_dst_addr (fst p) = ip_src_addr ip \<and>
         ip_src_addr (fst p) = ip_dst_addr ip) \<or>
     (\<exists>r i s'. tcp_parse (ip_src_addr ip) (ip_dst_addr ip) caps data = Some (Inr r) \<and> i < length ss \<and>
        accepts (ss ! i) ip r \<and> (\<forall>j < i. \<not> accepts (ss ! j) ip r) \<and>
        process cx ip r (ss ! i) = Some (rep, s') \<and> ss' = ss[i := s']))"
proof (cases rule: process_tcp_ok [OF inv len, of cx caps ip, case_names dropped reset processed])
  case dropped
  then show ?thesis using inv by blast
next
  case (reset r p)
  then show ?thesis using inv rst_reply_addr [of ip r "fst p" "snd p"] by (intro exI [of _ "Some p"] exI [of _ ss]) simp
next
  case (processed r i rep s')
  then show ?thesis by blast
qed


lemma tcp_input_safe_witness:
  "\<exists>rep ss'. process_tcp demo_cx caps_ignored demo_ip [1, 2, 3] [demo_listening, demo_established] = Some (rep, ss') \<and>
     (\<forall>s \<in> set ss'. tcp_inv s)"
  using tcp_input_safe [of "[demo_listening, demo_established]" "[1, 2, 3]" demo_cx caps_ignored demo_ip]
    demo_listening_inv demo_established_inv by fastforce

section \<open>Segments from the unspecified address\<close>

text \<open>\<open>process_ipv4\<close> lets packets pass whose source address is unspecified.\<close>

definition ipv4_src_admitted :: "ip_cidr list \<Rightarrow> ipv4_address \<Rightarrow> bool" where
  "ipv4_src_admitted addrs src \<longleftrightarrow> \<not> (\<not> is_unicast_v4 addrs src \<and> \<not> addr_is_unspecified (Ipv4 src))"

text \<open>The assertion at the head of \<open>dispatch_ip\<close>.\<close>

definition dispatch_ip_assert :: "ip_repr \<Rightarrow> unit option" where
  "dispatch_ip_assert ip = panic_unless (\<not> addr_is_unspecified (ip_dst_addr ip))"

datatype egress_error = EgressExhausted | EgressDispatch

text \<open>
  \<open>socket_egress\<close> for one TCP socket: with a token of the device (\<open>token\<close>) the packet goes to \<open>dispatch_ip\<close>, of
  which \<open>send\<close> is the part behind the assertion.
\<close>

definition tcp_egress ::
  "bool \<Rightarrow> (packet \<Rightarrow> bool) \<Rightarrow> iface_context \<Rightarrow> tcp_socket \<Rightarrow> ((egress_error + unit) \<times> tcp_socket) option" where
  "tcp_egress token send cx s = do {
     (p, res, s') \<leftarrow> dispatch (\<lambda>p. if \<not> token then Inl EgressExhausted else if send p then Inr () else Inl EgressDispatch) cx s;
     _ \<leftarrow> (case p of
         None \<Rightarrow> Some ()
       | Some p \<Rightarrow> if token then dispatch_ip_assert (fst p) else Some ());
     Some (res, s') }"

definition endpoints :: "tcp_socket \<Rightarrow> tcp_state \<times> tcp_tuple option \<times> seq \<times> seq \<times> bool \<times> duration option \<times> instant option" where
  "endpoints s = (state s, tuple s, remote_last_seq s, local_seq_no s, synack_paused s, timeout s, remote_last_ts s)"

lemma update_timers_endpoints: "endpoints (update_timers cx r n b s) = endpoints s"
  by (simp add: update_timers_def endpoints_def Let_def split: option.split)

lemma adopt_mss_endpoints: "endpoints (adopt_mss r s) = endpoints s"
  by (simp add: adopt_mss_def endpoints_def split: option.split)

lemma listen_syn:
  assumes inv: "tcp_inv s" and seg: "segment_ok r" and acc: "accepts s ip r"
    and st: "state s = Listen" and syn: "control r = CtlSyn" "max_seg_size r \<noteq> Some 0"
  obtains s' where "process cx ip r s = Some (None, s')" "tcp_inv s'" "state s' = SynReceived"
    "tuple s' = Some \<lparr>tuple_local = \<lparr>ep_addr = ip_dst_addr ip, ep_port = dst_port r\<rparr>,
       tuple_remote = \<lparr>ep_addr = ip_src_addr ip, ep_port = src_port r\<rparr>\<rparr>"
    "remote_last_seq s' = local_seq_no s'" "synack_paused s' = synack_paused s" "timeout s' = timeout s"
    "remote_last_ts s' = Some (cx_now cx)"
proof -
  have ack: "ack_number r = None" using acc st by (auto simp: accepts_def split: if_splits)
  obtain rep s' where p: "process cx ip r s = Some (rep, s')" "tcp_inv s'"
    by (rule process_ok [OF inv seg acc, of cx])
  let ?t = "\<lparr>tuple_local = \<lparr>ep_addr = ip_dst_addr ip, ep_port = dst_port r\<rparr>,
       tuple_remote = \<lparr>ep_addr = ip_src_addr ip, ep_port = src_port r\<rparr>\<rparr>"
  have 1: "check_ack cx ip r s = Some (Inr s)" using st syn ack by (simp add: check_ack_def)
  have 2: "check_segment cx ip r s = Some x \<Longrightarrow> x = Inr ([], 0, s)" for x
    using st by (auto simp: check_segment_def Let_def bind_eq_Some_conv)
  have 3: "process_accepted cx ip r [] 0 s = Some (rep, s')"
    using p(1) acc 1 by (auto simp: process_def bind_eq_Some_conv dest: 2)
  have 4: "count_acked cx r s = Some (0, False, False, s)" using syn ack by (simp add: count_acked_def)
  have 5: "effective_control r s = Some ctl \<Longrightarrow> ctl = CtlSyn" for ctl
    using syn by (auto simp: effective_control_def bind_eq_Some_conv)
  obtain u where u: "update_state cx ip r CtlSyn False s = Some (Inr u)"
    "endpoints u = (SynReceived, Some ?t, random_seq_no cx, random_seq_no cx, synack_paused s, timeout s, remote_last_ts s)"
    using st syn adopt_mss_endpoints [of r s]
    by (simp add: update_state_def accept_syn_def adopt_options_def endpoints_def Let_def set_state_def)
  obtain b w where w: "update_remote cx r 0 u = Some (b, w)"
    "endpoints w = (SynReceived, Some ?t, random_seq_no cx, random_seq_no cx, synack_paused s, timeout s, Some (cx_now cx))"
    using u(2) by (simp add: update_remote_def endpoints_def Let_def)
  have 6: "rep = None \<and> s' = update_timers cx r 0 False w"
    using 3 4 u(1) w(1) ack by (auto simp: process_accepted_def receive_payload_def update_ack_def bind_eq_Some_conv dest!: 5)
  have "endpoints s' = endpoints w" using 6 update_timers_endpoints by metis
  then have "rep = None \<and> state s' = SynReceived \<and> tuple s' = Some ?t \<and>
    remote_last_seq s' = local_seq_no s' \<and> synack_paused s' = synack_paused s \<and> timeout s' = timeout s \<and>
    remote_last_ts s' = Some (cx_now cx)"
    using 6 w(2) by (simp add: endpoints_def)
  with p that show thesis by blast
qed


text \<open>Every packet of \<open>dispatch\<close> goes to the remote endpoint.\<close>

lemma build_packet_dst:
  assumes "build_packet cx s = Some (Some (p, probe, ka))" and "tuple s = Some t"
  shows "ip_dst_addr (fst p) = ep_addr (tuple_remote t)"
  using assms by (auto simp: build_packet_def bind_eq_Some_conv split: option.splits dest!: ip_repr_newD)

lemma dispatch_synack:
  assumes st: "state s = SynReceived" and t: "tuple s = Some t" and seq: "remote_last_seq s = local_seq_no s"
    and s: "\<not> synack_paused s" "timeout s = None" "remote_last_ts s = Some now"
    and d: "dispatch emit cx s = Some (p, res, s')"
  obtains q where "p = Some q" "ip_dst_addr (fst q) = ep_addr (tuple_remote t)"
proof -
  let ?s = "s\<lparr>congestion_controller := cc_pre_transmit (congestion_controller s) (cx_now cx)\<rparr>"
  have to: "\<not> timed_out (cx_now cx) ?s" using s by (simp add: timed_out_def)
  have want: "seq_to_transmit cx ?s = Some b \<Longrightarrow> b" for b
    using st t seq by (auto simp: seq_to_transmit_def Let_def bind_eq_Some_conv split: ip_address.splits)
  have timers: "dispatch_timers cx s = Some u \<Longrightarrow> u = ?s \<and> seq_to_transmit cx ?s = Some True" for u
    using s to want by (auto simp: dispatch_timers_def Let_def bind_eq_Some_conv)
  have choice: "dispatch_choice cx ?s = Some EmitPacket" if "seq_to_transmit cx ?s = Some True"
    using that by (simp add: dispatch_choice_def)
  obtain u c where u: "dispatch_timers cx s = Some u" using d t by (auto simp: dispatch_def bind_eq_Some_conv)
  note u' = timers [OF u]
  obtain pk where b: "build_packet cx ?s = Some pk"
    using d t u u' choice s st by (auto simp: dispatch_def bind_eq_Some_conv)
  have ne: "pk \<noteq> None"
    using b st by (auto simp: build_packet_def bind_eq_Some_conv state_repr_def)
  then obtain q probe ka where q: "pk = Some (q, probe, ka)" by (cases pk) auto
  have "p = Some q"
    using d t u u' choice s st b q by (auto simp: dispatch_def bind_eq_Some_conv split: sum.splits)
  moreover have "ip_dst_addr (fst q) = ep_addr (tuple_remote t)"
    using build_packet_dst [of cx ?s q probe ka t] b q t by simp
  ultimately show thesis by (rule that)
qed

text \<open>
  C8: A SYN from the unspecified address stops the interface. IPv4 packets from \<open>0.0.0.0\<close> are let in; a
  listening socket accepts a SYN from there like any other and has no reply yet; and the egress that
  follows hands its SYN|ACK to \<open>dispatch_ip\<close>, whose assertion on the destination fails.
\<close>

theorem syn_from_unspecified_panics:
  assumes "tcp_inv s" and "segment_ok r" and "accepts s ip r" and "state s = Listen" and "control r = CtlSyn"
    and "max_seg_size r \<noteq> Some 0" and "\<not> synack_paused s" and "timeout s = None" and "ip_src_addr ip = Ipv4 0"
  shows "ipv4_src_admitted addrs 0 \<and> (\<exists>s'. process cx ip r s = Some (None, s') \<and> tcp_egress True send cx s' = None)"
proof -
  obtain s' where s': "process cx ip r s = Some (None, s')" "state s' = SynReceived"
    "tuple s' = Some \<lparr>tuple_local = \<lparr>ep_addr = ip_dst_addr ip, ep_port = dst_port r\<rparr>,
       tuple_remote = \<lparr>ep_addr = ip_src_addr ip, ep_port = src_port r\<rparr>\<rparr>"
    "remote_last_seq s' = local_seq_no s'" "synack_paused s' = synack_paused s" "timeout s' = timeout s"
    "remote_last_ts s' = Some (cx_now cx)"
    by (rule listen_syn [OF assms(1-6), of cx])
  let ?emit = "\<lambda>p. if \<not> True then Inl EgressExhausted else if send p then Inr () else Inl EgressDispatch"
  have "tcp_egress True send cx s' = None"
  proof (cases "dispatch ?emit cx s'")
    case (Some x)
    obtain p res u where x: "x = (p, res, u)" by (cases x)
    obtain q where q: "p = Some q" "ip_dst_addr (fst q) = Ipv4 0"
      using dispatch_synack [OF s'(2-4) _ _ s'(7), of ?emit cx p res u] s'(5,6) assms(7-9) Some x by auto
    then show ?thesis using Some x by (simp add: tcp_egress_def dispatch_ip_assert_def)
  qed (simp add: tcp_egress_def)
  with s'(1) show ?thesis by (simp add: ipv4_src_admitted_def)
qed

definition unspecified_ip :: ip_repr where
  "unspecified_ip = Ipv4Repr \<lparr>ih_src_addr = 0, ih_dst_addr = 0x0a000001, ih_next_header = ProtoTcp,
     ih_payload_len = 20, ih_hop_limit = 64\<rparr>"

theorem syn_from_unspecified_panics_witness:
  "ipv4_src_admitted [] 0 \<and> (\<exists>s'. process demo_cx unspecified_ip (demo_segment CtlSyn 5000 None []) demo_listening = Some (None, s') \<and>
     tcp_egress True (\<lambda>_. True) demo_cx s' = None)"
  by (rule syn_from_unspecified_panics [OF demo_listening_inv])
    (simp_all add: unspecified_ip_def demo_segment_ok demo_segment_def demo_listening_def demo_closed_eq tcp_listen_def
      accepts_def listen_endpoint_default_def segment_ok_def socket_reset_def set_state_def is_open_def)

end
