(* ===== verification/Fragmentation.thy ===== *)
theory Fragmentation
  imports Assembler Time Wire
begin

text \<open>
  \<open>src/smoltcp/src/iface/fragmentation.rs\<close>: the packet assemblers that collect the fragments of datagrams.
  A packet assembler has a buffer and an assembler that knows which offsets of it are filled; the set has
  one slot for each datagram that is under way, found by its key. \<open>alloc\<close> says whether the feature of that name is
  on: then buffers grow, otherwise they have a fixed size.

  The abstraction of a slot is the set of offsets that its assembler covers and the octets there; the
  properties compare them with the datagram of which fragments are received.
\<close>

section \<open>Packet assemblers\<close>

datatype assembler_error = AssemblerError
datatype assembler_full_error = AssemblerFullError

record 'k packet_assembler =
  pa_key :: "'k option"
  pa_buffer :: "u8 list"
  pa_assembler :: assembler
  pa_total_size :: "nat option"
  pa_expires_at :: instant

text \<open>\<open>size\<close> stands for \<open>REASSEMBLY_BUFFER_SIZE\<close>, \<open>count\<close> for \<open>ASSEMBLER_MAX_SEGMENT_COUNT\<close>.\<close>

definition pa_new :: "bool \<Rightarrow> nat \<Rightarrow> nat \<Rightarrow> 'k packet_assembler" where
  "pa_new alloc sz count = \<lparr>pa_key = None, pa_buffer = (if alloc then [] else replicate sz 0),
     pa_assembler = asm_new count, pa_total_size = None, pa_expires_at = instant_zero\<rparr>"

definition pa_reset :: "'k packet_assembler \<Rightarrow> 'k packet_assembler" where
  "pa_reset a = a\<lparr>pa_key := None, pa_assembler := asm_clear (pa_assembler a), pa_total_size := None,
     pa_expires_at := instant_zero\<rparr>"

text \<open>\<open>self.buffer.resize(n, 0)\<close>, for a buffer that is shorter than \<open>n\<close>.\<close>

definition buffer_grow :: "nat \<Rightarrow> 'k packet_assembler \<Rightarrow> 'k packet_assembler" where
  "buffer_grow n a = a\<lparr>pa_buffer := pa_buffer a @ replicate (n - length (pa_buffer a)) 0\<rparr>"

definition pa_set_total_size ::
  "bool \<Rightarrow> nat \<Rightarrow> 'k packet_assembler \<Rightarrow> (assembler_error + unit) \<times> 'k packet_assembler" where
  "pa_set_total_size alloc sz a =
     (if (case pa_total_size a of Some old_size \<Rightarrow> old_size \<noteq> sz | None \<Rightarrow> False) then (Inl AssemblerError, a)
      else if \<not> alloc \<and> length (pa_buffer a) < sz then (Inl AssemblerError, a)
      else let a = (if length (pa_buffer a) < sz then buffer_grow sz a else a)
           in (Inr (), a\<lparr>pa_total_size := Some sz\<rparr>))"

text \<open>\<open>self.assembler.add(offset, len);\<close>: the result is thrown away.\<close>

definition asm_add_ignored :: "nat \<Rightarrow> nat \<Rightarrow> 'k packet_assembler \<Rightarrow> 'k packet_assembler option" where
  "asm_add_ignored offset len a = do {
     res \<leftarrow> asm_add (pa_assembler a) offset len;
     Some (case res of Inl _ \<Rightarrow> a | Inr asm \<Rightarrow> a\<lparr>pa_assembler := asm\<rparr>) }"

text \<open>The closure of \<open>add_with\<close> writes to the buffer from \<open>offset\<close> on and says how many octets it wrote.\<close>

definition pa_add_with ::
  "nat \<Rightarrow> (u8 list \<Rightarrow> (assembler_error + nat) \<times> u8 list) \<Rightarrow> 'k packet_assembler \<Rightarrow>
   ((assembler_error + unit) \<times> 'k packet_assembler) option" where
  "pa_add_with offset f a =
     (if length (pa_buffer a) < offset then Some (Inl AssemblerError, a)
      else case f (drop offset (pa_buffer a)) of (res, part) \<Rightarrow>
        let a = a\<lparr>pa_buffer := overwrite (pa_buffer a) offset part\<rparr> in
        (case res of
           Inl e \<Rightarrow> Some (Inl e, a)
         | Inr len \<Rightarrow> do {
             panic_unless (offset + len \<le> length (pa_buffer a));
             a \<leftarrow> asm_add_ignored offset len a;
             Some (Inr (), a) }))"

definition pa_add ::
  "bool \<Rightarrow> u8 list \<Rightarrow> nat \<Rightarrow> 'k packet_assembler \<Rightarrow> ((assembler_error + unit) \<times> 'k packet_assembler) option" where
  "pa_add alloc data offset a =
     (if \<not> alloc \<and> length (pa_buffer a) < offset + length data then Some (Inl AssemblerError, a)
      else do {
        let a = (if length (pa_buffer a) < offset + length data then buffer_grow (offset + length data) a else a);
        buffer \<leftarrow> put_bytes (pa_buffer a) offset data;
        a \<leftarrow> asm_add_ignored offset (length data) (a\<lparr>pa_buffer := buffer\<rparr>);
        Some (Inr (), a) })"

definition pa_is_complete :: "'k packet_assembler \<Rightarrow> bool" where
  "pa_is_complete a \<longleftrightarrow> pa_total_size a = Some (asm_peek_front (pa_assembler a))"

definition pa_assemble :: "'k packet_assembler \<Rightarrow> (u8 list option \<times> 'k packet_assembler) option" where
  "pa_assemble a =
     (if \<not> pa_is_complete a then Some (None, a)
      else do {
        sz \<leftarrow> pa_total_size a;
        let a = pa_reset a;
        p \<leftarrow> slice (pa_buffer a) 0 sz;
        Some (Some p, a) })"

definition pa_is_free :: "'k packet_assembler \<Rightarrow> bool" where "pa_is_free a \<longleftrightarrow> pa_key a = None"

section \<open>The set\<close>

type_synonym 'k packet_assembler_set = "'k packet_assembler list"

definition pas_new :: "nat \<Rightarrow> bool \<Rightarrow> nat \<Rightarrow> nat \<Rightarrow> 'k packet_assembler_set" where
  "pas_new slots alloc sz count = replicate slots (pa_new alloc sz count)"

text \<open>The loop of \<open>get\<close>: \<open>Inr i\<close> for the slot that has the key, \<open>Inl\<close> with the last free slot, if any, otherwise.\<close>

fun pas_find :: "'k \<Rightarrow> nat \<Rightarrow> nat option \<Rightarrow> 'k packet_assembler list \<Rightarrow> nat option + nat" where
  "pas_find key i empty_slot [] = Inl empty_slot"
| "pas_find key i empty_slot (slot # slots) =
     (if pa_key slot = Some key then Inr i
      else pas_find key (Suc i) (if pa_is_free slot then Some i else empty_slot) slots)"

text \<open>The slot that \<open>get\<close> lends is its index.\<close>

definition pas_get ::
  "'k \<Rightarrow> instant \<Rightarrow> 'k packet_assembler_set \<Rightarrow> (assembler_full_error + nat) \<times> 'k packet_assembler_set" where
  "pas_get key expires_at slots =
     (case pas_find key 0 None slots of
        Inr i \<Rightarrow> (Inr i, slots)
      | Inl None \<Rightarrow> (Inl AssemblerFullError, slots)
      | Inl (Some i) \<Rightarrow> (Inr i, slots[i := (slots ! i)\<lparr>pa_key := Some key, pa_expires_at := expires_at\<rparr>]))"

definition pas_remove_expired :: "instant \<Rightarrow> 'k packet_assembler_set \<Rightarrow> 'k packet_assembler_set" where
  "pas_remove_expired timestamp slots =
     map (\<lambda>a. if \<not> pa_is_free a \<and> pa_expires_at a < timestamp then pa_reset a else a) slots"

text \<open>
  What \<open>process_ipv4\<close> does with a fragment (\<open>iface/interface/ipv4.rs\<close>): \<open>total_sz\<close> is the size of the datagram,
  which only the last fragment tells. The result is the datagram, if it is complete.
\<close>

definition pa_input ::
  "bool \<Rightarrow> nat option \<Rightarrow> u8 list \<Rightarrow> nat \<Rightarrow> 'k packet_assembler \<Rightarrow> (u8 list option \<times> 'k packet_assembler) option" where
  "pa_input alloc total_sz data offset a =
     (case (case total_sz of None \<Rightarrow> (Inr (), a) | Some sz \<Rightarrow> pa_set_total_size alloc sz a) of
        (Inl _, a) \<Rightarrow> Some (None, a)
      | (Inr _, a) \<Rightarrow> do {
          (res, a) \<leftarrow> pa_add alloc data offset a;
          case res of
            Inl _ \<Rightarrow> Some (None, a)
          | Inr _ \<Rightarrow> pa_assemble a })"

definition pas_input ::
  "bool \<Rightarrow> 'k \<Rightarrow> instant \<Rightarrow> nat option \<Rightarrow> u8 list \<Rightarrow> nat \<Rightarrow> 'k packet_assembler_set \<Rightarrow>
   (u8 list option \<times> 'k packet_assembler_set) option" where
  "pas_input alloc key expires_at total_sz data offset slots =
     (case pas_get key expires_at slots of
        (Inl _, slots) \<Rightarrow> Some (None, slots)
      | (Inr i, slots) \<Rightarrow> do {
          (p, a) \<leftarrow> pa_input alloc total_sz data offset (slots ! i);
          Some (p, slots[i := a]) })"

section \<open>Invariant\<close>

abbreviation pa_cover :: "'k packet_assembler \<Rightarrow> nat set" where
  "pa_cover a \<equiv> asm_cover 0 (pa_assembler a)"

text \<open>
  The offsets of a slot are inside the buffer, and so is the total size; a free slot is empty.
\<close>

definition pa_inv :: "'k packet_assembler \<Rightarrow> bool" where
  "pa_inv a \<longleftrightarrow> asm_inv (pa_assembler a) \<and> pa_cover a \<subseteq> {..<length (pa_buffer a)} \<and>
     (\<forall>n. pa_total_size a = Some n \<longrightarrow> n \<le> length (pa_buffer a)) \<and>
     (pa_is_free a \<longrightarrow> pa_cover a = {} \<and> pa_total_size a = None)"

text \<open>The octets received so far are those of the datagram \<open>d\<close>, and so is the size, once it is known.\<close>

definition pa_agrees :: "u8 list \<Rightarrow> 'k packet_assembler \<Rightarrow> bool" where
  "pa_agrees d a \<longleftrightarrow> (\<forall>x \<in> pa_cover a. x < length d \<and> pa_buffer a ! x = d ! x) \<and> pa_total_size a \<in> {None, Some (length d)}"

text \<open>A fragment of the datagram \<open>d\<close>; the last one, and perhaps others, tell the size.\<close>

definition fragment_of :: "u8 list \<Rightarrow> nat option \<Rightarrow> u8 list \<Rightarrow> nat \<Rightarrow> bool" where
  "fragment_of d total_sz data offset \<longleftrightarrow> offset + length data \<le> length d \<and> data = take (length data) (drop offset d) \<and>
     total_sz \<in> {None, Some (length d)}"

lemma fragment_of_nth: "fragment_of d total_sz data offset \<Longrightarrow> i < length data \<Longrightarrow> data ! i = d ! (offset + i)"
  using nth_take [of i "length data" "drop offset d"] by (auto simp: fragment_of_def)

lemma asm_inv_new: "0 < count \<Longrightarrow> asm_inv (asm_new count)"
  using asm_invI [of "[]" count] by (simp add: asm_new_def)

lemma asm_clear_replicate: "asm_clear cs = asm_new (length cs)"
  by (simp add: asm_clear_def asm_new_def map_replicate_const)

lemma asm_cover_new [simp]: "asm_cover 0 (asm_new n) = {}"
  by (simp add: asm_new_def)

lemma pa_new_inv: "0 < count \<Longrightarrow> pa_inv (pa_new alloc sz count)"
  by (simp add: pa_inv_def pa_new_def asm_inv_new)

lemma pa_reset_inv: "pa_inv a \<Longrightarrow> pa_inv (pa_reset a)"
  by (auto simp: pa_inv_def pa_reset_def asm_clear_replicate asm_inv_new asm_inv_def [of "pa_assembler a"])

lemma pa_reset_simps [simp]: "pa_cover (pa_reset a) = {}" "pa_total_size (pa_reset a) = None" "pa_key (pa_reset a) = None"
  "pa_buffer (pa_reset a) = pa_buffer a"
  by (simp_all add: pa_reset_def asm_clear_replicate)

lemma asm_peek_front_split:
  assumes "asm_inv cs"
  shows "{0..<asm_peek_front cs} \<subseteq> asm_cover 0 cs" and "asm_peek_front cs \<notin> asm_cover 0 cs"
proof -
  obtain m cs' where m: "asm_remove_front cs = Some (m, cs')" "front_split (asm_cover 0 cs) m (asm_cover 0 cs')"
    using asm_remove_front_ok [OF assms] by metis
  have "m = asm_peek_front cs"
    using m(1) by (auto simp: asm_remove_front_def asm_peek_front_def has_data_def Let_def bind_eq_Some_conv split: if_splits)
  with m(2) show "{0..<asm_peek_front cs} \<subseteq> asm_cover 0 cs" and "asm_peek_front cs \<notin> asm_cover 0 cs"
    by (auto simp: front_split_def)
qed

lemma buffer_grow_inv: "pa_inv a \<Longrightarrow> pa_inv (buffer_grow n a)"
  by (force simp: pa_inv_def buffer_grow_def pa_is_free_def)

lemma buffer_grow_agrees: "pa_inv a \<Longrightarrow> pa_agrees d a \<Longrightarrow> pa_agrees d (buffer_grow n a)"
  by (auto simp: pa_inv_def pa_agrees_def buffer_grow_def nth_append)

lemma buffer_grow_simps [simp]: "pa_key (buffer_grow n a) = pa_key a" "pa_assembler (buffer_grow n a) = pa_assembler a"
  "pa_total_size (buffer_grow n a) = pa_total_size a" "length (pa_buffer (buffer_grow n a)) = max n (length (pa_buffer a))"
  by (simp_all add: buffer_grow_def)

text \<open>A fragment never makes the assembler panic; what it adds is the fragment, or nothing.\<close>

lemma pa_add_ok:
  assumes inv: "pa_inv a" "\<not> pa_is_free a"
  obtains (err) "pa_add alloc data offset a = Some (Inl AssemblerError, a)" "\<not> alloc" "length (pa_buffer a) < offset + length data"
  | (ok) a' where "pa_add alloc data offset a = Some (Inr (), a')" "pa_inv a'" "pa_key a' = pa_key a"
      "pa_total_size a' = pa_total_size a" "length (pa_assembler a') = length (pa_assembler a)"
      "pa_cover a' = pa_cover a \<union> {offset ..< offset + length data} \<or>
       pa_cover a' = pa_cover a \<and> length (pa_assembler a) < card (run_starts (pa_cover a \<union> {offset ..< offset + length data}))"
      "\<And>d. pa_agrees d a \<Longrightarrow> fragment_of d total_sz data offset \<Longrightarrow> pa_agrees d a'"
      "length (pa_buffer a) \<le> length (pa_buffer a')"
proof (cases "\<not> alloc \<and> length (pa_buffer a) < offset + length data")
  case True
  then show thesis by (intro err) (simp_all add: pa_add_def)
next
  case False
  define b where "b = (if length (pa_buffer a) < offset + length data then buffer_grow (offset + length data) a else a)"
  define c where "c = b\<lparr>pa_buffer := overwrite (pa_buffer b) offset data\<rparr>"
  have b: "pa_inv b" "pa_key b = pa_key a" "pa_assembler b = pa_assembler a" "pa_total_size b = pa_total_size a"
    "offset + length data \<le> length (pa_buffer b)" "length (pa_buffer a) \<le> length (pa_buffer b)"
    "\<And>d. pa_agrees d a \<Longrightarrow> pa_agrees d b"
    using inv by (auto simp: b_def buffer_grow_inv buffer_grow_agrees)
  have asm: "asm_inv (pa_assembler a)" using inv by (simp add: pa_inv_def)
  have free: "\<not> pa_is_free c" using inv(2) b(2) by (simp add: c_def pa_is_free_def)
  obtain res where res: "asm_add (pa_assembler a) offset (length data) = Some res" using asm_add_no_panic [OF asm] by blast
  define cs where "cs = (case res of Inl _ \<Rightarrow> pa_assembler a | Inr cs \<Rightarrow> cs)"
  have cs: "asm_inv cs" "length cs = length (pa_assembler a)"
    "asm_cover 0 cs = pa_cover a \<union> {offset ..< offset + length data} \<or>
     asm_cover 0 cs = pa_cover a \<and> length (pa_assembler a) < card (run_starts (pa_cover a \<union> {offset ..< offset + length data}))"
    using asm_add_spec [OF asm, of offset "length data"] asm by (auto simp: cs_def res split: sum.splits)
  have "c\<lparr>pa_assembler := pa_assembler a\<rparr> = c" using b(3) by (simp add: c_def)
  then have add: "pa_add alloc data offset a = Some (Inr (), c\<lparr>pa_assembler := cs\<rparr>)"
    using False b res by (cases res) (simp_all add: pa_add_def c_def Let_def asm_add_ignored_def cs_def flip: b_def)
  have buf: "length (pa_buffer c) = length (pa_buffer b)" using b(5) by (simp add: c_def)
  have nth: "pa_buffer c ! x = (if offset \<le> x \<and> x < offset + length data then data ! (x - offset) else pa_buffer b ! x)"
    if "x < length (pa_buffer b)" for x using that b(5) by (simp add: c_def nth_overwrite)
  have cov: "pa_cover b \<subseteq> {..<length (pa_buffer b)}" using b(1) by (simp add: pa_inv_def)
  have ag: "x < length d \<and> pa_buffer c ! x = d ! x" if "pa_agrees d a" "fragment_of d total_sz data offset"
    "x \<in> pa_cover b \<union> {offset ..< offset + length data}" for d x
  proof (cases "offset \<le> x \<and> x < offset + length data")
    case True
    moreover have "offset + length data \<le> length d" using that(2) by (simp add: fragment_of_def)
    ultimately show ?thesis using b(5) fragment_of_nth [OF that(2), of "x - offset"] nth [of x] by auto
  next
    case False
    then have "x \<in> pa_cover b" using that(3) by auto
    then show ?thesis using False cov b(7) [OF that(1)] nth [of x] by (auto simp: pa_agrees_def)
  qed
  have tot: "pa_total_size a \<in> {None, Some (length d)}" if "pa_agrees d a" for d using that by (simp add: pa_agrees_def)
  have "asm_cover 0 cs \<subseteq> pa_cover b \<union> {offset ..< offset + length data}" using cs(3) b(3) by auto
  note sub = this
  have inv': "pa_inv (c\<lparr>pa_assembler := cs\<rparr>)"
  proof -
    have "asm_cover 0 cs \<subseteq> {..<length (pa_buffer c)}" using sub cov b(5) buf by auto
    moreover have "n \<le> length (pa_buffer c)" if "pa_total_size c = Some n" for n
      using that b(1) buf by (simp add: pa_inv_def c_def)
    ultimately show ?thesis using cs(1) free by (auto simp: pa_inv_def pa_is_free_def)
  qed
  have ag': "pa_agrees d (c\<lparr>pa_assembler := cs\<rparr>)" if "pa_agrees d a" "fragment_of d total_sz data offset" for d
    using ag [OF that] tot [OF that(1)] sub b(4) by (auto simp: pa_agrees_def c_def)
  show thesis
    by (rule ok [OF add inv' _ _ _ _ ag']) (use b cs buf in \<open>simp_all add: c_def\<close>)
qed

lemma pa_set_total_size_ok:
  assumes "pa_inv a" "\<not> pa_is_free a"
  obtains (err) "pa_set_total_size alloc sz a = (Inl AssemblerError, a)" "(\<exists>old. pa_total_size a = Some old \<and> old \<noteq> sz) \<or> \<not> alloc \<and> length (pa_buffer a) < sz"
  | (ok) a' where "pa_set_total_size alloc sz a = (Inr (), a')" "pa_inv a'" "pa_key a' = pa_key a" "pa_cover a' = pa_cover a"
      "pa_total_size a' = Some sz" "pa_assembler a' = pa_assembler a" "pa_agrees d a \<Longrightarrow> sz = length d \<Longrightarrow> pa_agrees d a'"
      "length (pa_buffer a) \<le> length (pa_buffer a')"
proof (cases "(case pa_total_size a of Some old \<Rightarrow> old \<noteq> sz | None \<Rightarrow> False) \<or> \<not> alloc \<and> length (pa_buffer a) < sz")
  case True
  then show thesis by (intro err) (auto simp: pa_set_total_size_def split: option.splits)
next
  case False
  define b where "b = (if length (pa_buffer a) < sz then buffer_grow sz a else a)"
  have b: "pa_inv b" "pa_key b = pa_key a" "pa_assembler b = pa_assembler a" "sz \<le> length (pa_buffer b)"
    "length (pa_buffer a) \<le> length (pa_buffer b)" "pa_agrees d a \<Longrightarrow> pa_agrees d b"
    using assms by (auto simp: b_def buffer_grow_inv buffer_grow_agrees)
  have "pa_set_total_size alloc sz a = (Inr (), b\<lparr>pa_total_size := Some sz\<rparr>)"
    using False by (auto simp: pa_set_total_size_def b_def split: option.splits)
  moreover have "pa_inv (b\<lparr>pa_total_size := Some sz\<rparr>)" using b assms(2) by (auto simp: pa_inv_def pa_is_free_def)
  moreover have "pa_agrees d (b\<lparr>pa_total_size := Some sz\<rparr>)" if "pa_agrees d a" "sz = length d"
    using b(6) [OF that(1)] that(2) by (simp add: pa_agrees_def)
  ultimately show thesis using b by (intro ok [of "b\<lparr>pa_total_size := Some sz\<rparr>"]) simp_all
qed

lemma pa_assemble_ok:
  assumes "pa_inv a"
  obtains (incomplete) "pa_assemble a = Some (None, a)" "\<not> pa_is_complete a"
  | (complete) n where "pa_assemble a = Some (Some (take n (pa_buffer a)), pa_reset a)" "pa_total_size a = Some n"
      "{0..<n} \<subseteq> pa_cover a" "n \<notin> pa_cover a"
proof (cases "pa_is_complete a")
  case True
  then obtain n where n: "pa_total_size a = Some n" "n = asm_peek_front (pa_assembler a)" by (simp add: pa_is_complete_def)
  then have "n \<le> length (pa_buffer a)" using assms by (simp add: pa_inv_def)
  with n True asm_peek_front_split [of "pa_assembler a"] assms show thesis
    by (intro complete [of n]) (simp_all add: pa_assemble_def pa_inv_def)
qed (use incomplete in \<open>simp add: pa_assemble_def\<close>)

lemma pa_assemble_datagram:
  assumes "pa_inv a" "pa_agrees d a" "pa_assemble a = Some (Some p, a')"
  shows "p = d"
proof (cases rule: pa_assemble_ok [OF assms(1), case_names i c])
  case (c n)
  then have n: "n = length d" using assms(2) by (simp add: pa_agrees_def)
  then have l: "length d \<le> length (pa_buffer a)" using c(2) assms(1) by (simp add: pa_inv_def)
  have "take n (pa_buffer a) = d"
    using c(3) n l assms(2) by (intro nth_equalityI) (auto simp: pa_agrees_def subset_iff)
  then show ?thesis using c(1) assms(3) by simp
qed (use assms in simp)

lemma pa_sized_ok:
  assumes "pa_inv a" "\<not> pa_is_free a" "(case total_sz of None \<Rightarrow> (Inr (), a) | Some sz \<Rightarrow> pa_set_total_size alloc sz a) = (r, b)"
  shows "pa_inv b" "pa_key b = pa_key a" "pa_cover b = pa_cover a" "pa_assembler b = pa_assembler a"
    "fragment_of d total_sz data offset \<Longrightarrow> pa_agrees d a \<Longrightarrow> pa_agrees d b"
proof -
  have "pa_inv b \<and> pa_key b = pa_key a \<and> pa_cover b = pa_cover a \<and> pa_assembler b = pa_assembler a \<and>
      (fragment_of d total_sz data offset \<longrightarrow> pa_agrees d a \<longrightarrow> pa_agrees d b)"
  proof (cases total_sz)
    case (Some sz)
    show ?thesis
    proof (cases rule: pa_set_total_size_ok [OF assms(1,2), where alloc = alloc and sz = sz and d = d, case_names e g])
      case (g a')
      then show ?thesis using assms(3) Some by (auto simp: fragment_of_def)
    qed (use assms Some in simp)
  qed (use assms in simp)
  then show "pa_inv b" "pa_key b = pa_key a" "pa_cover b = pa_cover a" "pa_assembler b = pa_assembler a"
    "fragment_of d total_sz data offset \<Longrightarrow> pa_agrees d a \<Longrightarrow> pa_agrees d b" by blast+
qed

lemma pa_input_ok:
  assumes inv: "pa_inv a" "\<not> pa_is_free a"
  obtains p a' where "pa_input alloc total_sz data offset a = Some (p, a')" "pa_inv a'" "pa_key a' \<in> {None, pa_key a}"
    "pa_agrees d a \<Longrightarrow> fragment_of d total_sz data offset \<Longrightarrow> pa_agrees d a' \<and> p \<in> {None, Some d}"
proof (cases "case total_sz of None \<Rightarrow> (Inr (), a) | Some sz \<Rightarrow> pa_set_total_size alloc sz a")
  case (Pair r b)
  have b: "pa_inv b" "pa_key b = pa_key a" "fragment_of d total_sz data offset \<Longrightarrow> pa_agrees d a \<Longrightarrow> pa_agrees d b"
    using pa_sized_ok [OF inv Pair] by blast+
  show thesis
  proof (cases r)
    case (Inl e)
    then show thesis using Pair b by (intro that [of None b]) (simp_all add: pa_input_def)
  next
    case (Inr u)
    have free: "\<not> pa_is_free b" using b(2) inv(2) by (simp add: pa_is_free_def)
    show thesis
    proof (cases rule: pa_add_ok [OF b(1) free, where alloc = alloc and data = data and offset = offset and total_sz = total_sz, case_names e g])
      case e
      show thesis using e(1) Pair Inr b by (intro that [of None b]) (simp_all add: pa_input_def)
    next
      case (g c)
      then have i: "pa_input alloc total_sz data offset a = pa_assemble c" using Pair Inr by (simp add: pa_input_def)
      have ag: "pa_agrees d c" if "pa_agrees d a" "fragment_of d total_sz data offset" using that b(3) g(7) by blast
      show thesis
      proof (cases rule: pa_assemble_ok [OF g(2), case_names inc com])
        case inc
        then show thesis using i g(2,3) b(2) ag by (intro that [of None c]) simp_all
      next
        case (com n)
        then show thesis using i g(2) pa_reset_inv [OF g(2)] ag pa_assemble_datagram [OF g(2) _ com(1)]
          by (intro that [of "Some (take n (pa_buffer c))" "pa_reset c"]) (auto simp: pa_agrees_def)
      qed
    qed
  qed
qed

section \<open>The set of assemblers\<close>

lemma pas_find_ok:
  "pas_find key j e slots = r \<Longrightarrow>
   (case r of
      Inr i \<Rightarrow> j \<le> i \<and> i < j + length slots \<and> pa_key (slots ! (i - j)) = Some key
    | Inl res \<Rightarrow> (\<forall>a \<in> set slots. pa_key a \<noteq> Some key) \<and>
        (case res of
           None \<Rightarrow> e = None \<and> (\<forall>a \<in> set slots. \<not> pa_is_free a)
         | Some i \<Rightarrow> e = Some i \<or> j \<le> i \<and> i < j + length slots \<and> pa_is_free (slots ! (i - j))))"
proof (induction slots arbitrary: j e r)
  case Nil
  then show ?case by (auto split: sum.splits option.splits)
next
  case (Cons a slots)
  show ?case
  proof (cases "pa_key a = Some key")
    case True
    then show ?thesis using Cons.prems by auto
  next
    case False
    have "pas_find key (Suc j) (if pa_is_free a then Some j else e) slots = r" using False Cons.prems by simp
    note IH = Cons.IH [OF this]
    show ?thesis
    proof (cases r)
      case (Inl res)
      show ?thesis using IH False Inl by (cases res) (auto simp: nth_Cons' Suc_diff_le split: if_splits)
    next
      case (Inr i)
      then show ?thesis using IH by (auto simp: nth_Cons')
    qed
  qed
qed

lemma pas_get_ok:
  obtains (full) "pas_get key expires slots = (Inl AssemblerFullError, slots)" "\<forall>a \<in> set slots. pa_key a \<noteq> Some key \<and> \<not> pa_is_free a"
  | (found) i where "pas_get key expires slots = (Inr i, slots)" "i < length slots" "pa_key (slots ! i) = Some key"
  | (fresh) i where "pas_get key expires slots = (Inr i, slots[i := (slots ! i)\<lparr>pa_key := Some key, pa_expires_at := expires\<rparr>])"
      "i < length slots" "pa_is_free (slots ! i)" "\<forall>a \<in> set slots. pa_key a \<noteq> Some key"
proof (cases "pas_find key 0 None slots")
  case (Inr i)
  with pas_find_ok [OF Inr] show thesis by (intro found [of i]) (simp_all add: pas_get_def)
next
  case (Inl res)
  note f = pas_find_ok [OF Inl]
  show thesis
  proof (cases res)
    case None
    with Inl f show thesis by (intro full) (simp_all add: pas_get_def)
  next
    case (Some i)
    with Inl f show thesis by (intro fresh [of i]) (simp_all add: pas_get_def)
  qed
qed

text \<open>Each slot collects the datagram \<open>dg k\<close> that belongs to its key.\<close>

definition pas_agrees :: "('k \<Rightarrow> u8 list) \<Rightarrow> 'k packet_assembler_set \<Rightarrow> bool" where
  "pas_agrees dg slots \<longleftrightarrow> (\<forall>a \<in> set slots. \<forall>k. pa_key a = Some k \<longrightarrow> pa_agrees (dg k) a)"

definition pas_inv :: "'k packet_assembler_set \<Rightarrow> bool" where
  "pas_inv slots \<longleftrightarrow> (\<forall>a \<in> set slots. pa_inv a)"

lemma pas_inv_update: "pas_inv slots \<Longrightarrow> pa_inv a \<Longrightarrow> pas_inv (slots[i := a])"
  by (auto simp: pas_inv_def dest!: set_update_subset_insert [THEN subsetD])

lemma pas_get_slot:
  assumes "pas_inv slots" "pas_get key expires slots = (Inr i, slots')"
  shows "i < length slots'" "length slots' = length slots" "pas_inv slots'" "pa_key (slots' ! i) = Some key" "pas_agrees dg slots \<Longrightarrow> pas_agrees dg slots'"
proof -
  have "i < length slots' \<and> length slots' = length slots \<and> pas_inv slots' \<and> pa_key (slots' ! i) = Some key \<and> (pas_agrees dg slots \<longrightarrow> pas_agrees dg slots')"
  proof (cases rule: pas_get_ok [of key expires slots, case_names full found fresh])
    case (fresh j)
    let ?a = "(slots ! j)\<lparr>pa_key := Some key, pa_expires_at := expires\<rparr>"
    have j: "j = i" "slots' = slots[i := ?a]" using fresh(1) assms(2) by simp_all
    have "pa_inv (slots ! j)" using assms(1) fresh(2) by (simp add: pas_inv_def)
    then have e: "pa_inv ?a" "pa_cover ?a = {}" "pa_total_size ?a = None" using fresh(3) by (auto simp: pa_inv_def pa_is_free_def)
    then have "pa_agrees d ?a" for d by (simp add: pa_agrees_def)
    then show ?thesis using j fresh(2) assms(1) e(1)
      by (auto simp: pas_inv_def pas_agrees_def dest!: set_update_subset_insert [THEN subsetD])
  qed (use assms in auto)
  then show "i < length slots'" "length slots' = length slots" "pas_inv slots'" "pa_key (slots' ! i) = Some key" "pas_agrees dg slots \<Longrightarrow> pas_agrees dg slots'"
    by blast+
qed

lemma pas_input_ok:
  assumes inv: "pas_inv slots"
  obtains p slots' where "pas_input alloc key expires total_sz data offset slots = Some (p, slots')" "pas_inv slots'" "length slots' = length slots"
    "pas_agrees dg slots \<Longrightarrow> fragment_of (dg key) total_sz data offset \<Longrightarrow> pas_agrees dg slots' \<and> p \<in> {None, Some (dg key)}"
proof (cases "pas_get key expires slots")
  case (Pair r s)
  show thesis
  proof (cases r)
    case (Inl e)
    then have "s = slots" using Pair by (cases rule: pas_get_ok [of key expires slots, case_names full found fresh]) auto
    then show thesis using Pair Inl inv by (intro that [of None slots]) (simp_all add: pas_input_def)
  next
    case (Inr i)
    note g = pas_get_slot [OF inv Pair [unfolded Inr]]
    have a: "pa_inv (s ! i)" "\<not> pa_is_free (s ! i)" using g by (simp_all add: pas_inv_def pa_is_free_def)
    obtain p a' where i: "pa_input alloc total_sz data offset (s ! i) = Some (p, a')" "pa_inv a'" "pa_key a' \<in> {None, Some key}"
      "pa_agrees (dg key) (s ! i) \<Longrightarrow> fragment_of (dg key) total_sz data offset \<Longrightarrow> pa_agrees (dg key) a' \<and> p \<in> {None, Some (dg key)}"
      using pa_input_ok [OF a, where d = "dg key"] g(4) by metis
    have "pas_input alloc key expires total_sz data offset slots = Some (p, s[i := a'])"
      using Pair Inr i(1) by (simp add: pas_input_def)
    moreover have "pas_inv (s[i := a'])" using g(3) i(2) by (rule pas_inv_update)
    moreover have "pas_agrees dg (s[i := a']) \<and> p \<in> {None, Some (dg key)}"
      if "pas_agrees dg slots" "fragment_of (dg key) total_sz data offset"
    proof -
      have "pas_agrees dg s" using g(5) that(1) .
      moreover from this have "pa_agrees (dg key) (s ! i)" using g(1,4) by (simp add: pas_agrees_def)
      ultimately show ?thesis using i(3) i(4) that(2)
        by (auto simp: pas_agrees_def dest!: set_update_subset_insert [THEN subsetD])
    qed
    ultimately show thesis using g(2) by (intro that) simp_all
  qed
qed

section \<open>Completeness\<close>

lemma run_starts_front: "card (run_starts {0..<n}) \<le> 1"
proof -
  have "run_starts {0..<n} \<subseteq> {0}" by (auto simp: run_starts_def)
  then have "card (run_starts {0..<n}) \<le> card {0 :: nat}" by (intro card_mono) simp_all
  then show ?thesis by simp
qed

lemma front_unique: "{0..<p} \<subseteq> {0..<m} \<Longrightarrow> p \<notin> {0..<m} \<Longrightarrow> p = (m :: nat)"
  by (cases p) (auto simp: subset_iff)

text \<open>A fragment that continues the front, or completes the datagram, always finds room.\<close>

lemma pa_input_front:
  assumes inv: "pa_inv a" "\<not> pa_is_free a" and ag: "pa_agrees d a" "fragment_of d total_sz data offset"
    and cov: "pa_cover a \<union> {offset ..< offset + length data} = {0..<m}" and room: "alloc \<or> length d \<le> length (pa_buffer a)"
  obtains (whole) a' where "pa_input alloc total_sz data offset a = Some (Some d, pa_reset a')" "total_sz = Some (length d) \<or> pa_total_size a = Some (length d)" "m = length d"
      "pa_inv a'" "length (pa_buffer a) \<le> length (pa_buffer a')"
  | (part) a' where "pa_input alloc total_sz data offset a = Some (None, a')" "pa_inv a'" "pa_key a' = pa_key a" "pa_agrees d a'"
      "pa_cover a' = {0..<m}" "pa_total_size a' = (if total_sz = None then pa_total_size a else total_sz)" "m \<noteq> length d \<or> total_sz = None \<and> pa_total_size a = None"
      "length (pa_buffer a) \<le> length (pa_buffer a')"
proof -
  obtain b where b: "(case total_sz of None \<Rightarrow> (Inr (), a) | Some sz \<Rightarrow> pa_set_total_size alloc sz a) = (Inr (), b)"
    "pa_total_size b = (if total_sz = None then pa_total_size a else total_sz)" "length (pa_buffer a) \<le> length (pa_buffer b)"
  proof (cases total_sz)
    case (Some sz)
    then have sz: "sz = length d" using ag(2) by (simp add: fragment_of_def)
    show thesis
    proof (cases rule: pa_set_total_size_ok [OF inv, where alloc = alloc and sz = sz and d = d, case_names e g])
      case e
      then show thesis using ag(1) room sz by (auto simp: pa_agrees_def)
    next
      case (g b)
      then show thesis using Some by (intro that [of b]) simp_all
    qed
  qed (use that in simp)
  note s = pa_sized_ok [OF inv b(1)]
  have free: "\<not> pa_is_free b" using s(2) inv(2) by (simp add: pa_is_free_def)
  have agb: "pa_agrees d b" using s(5) [OF ag(2,1)] .
  have le: "offset + length data \<le> length d" using ag(2) by (simp add: fragment_of_def)
  have "1 \<le> length (pa_assembler b)" using s(1) by (cases "pa_assembler b") (auto simp: pa_inv_def asm_inv_def)
  then have runs: "\<not> length (pa_assembler b) < card (run_starts (pa_cover b \<union> {offset ..< offset + length data}))"
    using run_starts_front [of m] cov s(3) by simp
  show thesis
  proof (cases rule: pa_add_ok [OF s(1) free, where alloc = alloc and data = data and offset = offset and total_sz = total_sz, case_names e g])
    case e
    then show thesis using le room b(3) by simp
  next
    case (g c)
    have cc: "pa_cover c = {0..<m}" using g(6) runs cov s(3) by auto
    have agc: "pa_agrees d c" using g(7) [OF agb ag(2)] .
    have i: "pa_input alloc total_sz data offset a = pa_assemble c" using b(1) g(1) by (simp add: pa_input_def)
    have pf: "asm_peek_front (pa_assembler c) = m"
      using asm_peek_front_split [of "pa_assembler c"] g(2) cc by (intro front_unique) (simp_all add: pa_inv_def)
    show thesis
    proof (cases rule: pa_assemble_ok [OF g(2), case_names inc com])
      case inc
      have ts: "pa_total_size c = (if total_sz = None then pa_total_size a else total_sz)" using g(4) b(2) by simp
      have "pa_total_size c \<noteq> Some m" using inc(2) pf by (simp add: pa_is_complete_def)
      moreover have "pa_total_size c \<in> {None, Some (length d)}" using agc by (simp add: pa_agrees_def)
      ultimately have "m \<noteq> length d \<or> pa_total_size c = None" by auto
      then have "m \<noteq> length d \<or> total_sz = None \<and> pa_total_size a = None" using ts by (auto split: if_splits)
      then show thesis using i inc(1) g(2,3,8) b(3) s(2) cc agc ts by (intro part [of c]) simp_all
    next
      case (com n)
      have "take n (pa_buffer c) = d" using pa_assemble_datagram [OF g(2) agc com(1)] .
      moreover have "n = length d" using com(2) agc by (simp add: pa_agrees_def)
      moreover have "n = m" using com(3,4) cc by (intro front_unique) simp_all
      ultimately show thesis using com i g b by (intro whole [of c]) (auto split: if_splits)
    qed
  qed
qed

section \<open>Runs\<close>

text \<open>Fragments of many datagrams arrive in any order, and slots expire in between.\<close>

datatype 'k frag_event = Fragment 'k instant "nat option" "u8 list" nat | Expire instant

fun pas_run :: "bool \<Rightarrow> 'k frag_event list \<Rightarrow> 'k packet_assembler_set \<Rightarrow> (('k \<times> u8 list) list \<times> 'k packet_assembler_set) option" where
  "pas_run alloc [] slots = Some ([], slots)"
| "pas_run alloc (Expire t # es) slots = pas_run alloc es (pas_remove_expired t slots)"
| "pas_run alloc (Fragment k t sz data offset # es) slots = do {
     (p, slots) \<leftarrow> pas_input alloc k t sz data offset slots;
     (out, slots) \<leftarrow> pas_run alloc es slots;
     Some ((case p of Some p \<Rightarrow> [(k, p)] | None \<Rightarrow> []) @ out, slots) }"

fun event_of :: "('k \<Rightarrow> u8 list) \<Rightarrow> 'k frag_event \<Rightarrow> bool" where
  "event_of dg (Fragment k t sz data offset) = fragment_of (dg k) sz data offset"
| "event_of dg (Expire t) = True"

lemma pas_remove_expired_ok:
  "pas_inv slots \<Longrightarrow> pas_inv (pas_remove_expired t slots)"
  "pas_agrees dg slots \<Longrightarrow> pas_agrees dg (pas_remove_expired t slots)"
  by (auto simp: pas_inv_def pas_agrees_def pas_remove_expired_def pa_reset_inv)

lemma pas_run_ok:
  "pas_inv slots \<Longrightarrow> \<exists>out slots'. pas_run alloc es slots = Some (out, slots') \<and> pas_inv slots' \<and>
     (pas_agrees dg slots \<longrightarrow> (\<forall>e \<in> set es. event_of dg e) \<longrightarrow> (\<forall>(k, p) \<in> set out. p = dg k))"
proof (induction es arbitrary: slots)
  case (Cons e es)
  show ?case
  proof (cases e)
    case (Expire t)
    then show ?thesis using Cons.IH [of "pas_remove_expired t slots"] Cons.prems pas_remove_expired_ok(1) [of slots t] pas_remove_expired_ok(2) [of dg slots t] by auto
  next
    case (Fragment k t sz data offset)
    obtain p s where s: "pas_input alloc k t sz data offset slots = Some (p, s)" "pas_inv s"
      "pas_agrees dg slots \<Longrightarrow> fragment_of (dg k) sz data offset \<Longrightarrow> pas_agrees dg s \<and> p \<in> {None, Some (dg k)}"
      using pas_input_ok [OF Cons.prems, where dg = dg] by metis
    obtain out s' where r: "pas_run alloc es s = Some (out, s')" "pas_inv s'"
      "pas_agrees dg s \<longrightarrow> (\<forall>e \<in> set es. event_of dg e) \<longrightarrow> (\<forall>(k, p) \<in> set out. p = dg k)"
      using Cons.IH [OF s(2)] by blast
    show ?thesis using s r Fragment by (auto split: option.splits)
  qed
qed simp

lemma pas_new_ok: "0 < count \<Longrightarrow> pas_inv (pas_new slots alloc sz count)" "pas_agrees dg (pas_new slots alloc sz count)"
  by (simp_all add: pas_inv_def pas_new_def pa_new_inv) (simp add: pas_agrees_def pas_new_def pa_new_def)

text \<open>The fragments of a datagram in order: the last one tells the size.\<close>

fun frags_from :: "'k \<Rightarrow> instant \<Rightarrow> nat \<Rightarrow> u8 list list \<Rightarrow> 'k frag_event list" where
  "frags_from k t off [] = []"
| "frags_from k t off (p # ps) = Fragment k t (if ps = [] then Some (off + length p) else None) p off # frags_from k t (off + length p) ps"

lemma pas_get_only:
  assumes "i < length slots" "pa_key (slots ! i) = Some key" "\<And>j. j < length slots \<Longrightarrow> pa_key (slots ! j) = Some key \<Longrightarrow> j = i"
  shows "pas_get key t slots = (Inr i, slots)"
proof (cases rule: pas_get_ok [of key t slots, case_names full found fresh])
  case (found j)
  then show ?thesis using assms(3) by simp
qed (use assms nth_mem in \<open>blast+\<close>)

lemma pas_run_frags:
  assumes "pas_inv slots" and i: "i < length slots" "pa_key (slots ! i) = Some k"
    "\<And>j. j < length slots \<Longrightarrow> pa_key (slots ! j) = Some k \<Longrightarrow> j = i"
    and a: "pa_agrees d (slots ! i)" "pa_cover (slots ! i) = {0..<off}" "pa_total_size (slots ! i) = None"
      "alloc \<or> length d \<le> length (pa_buffer (slots ! i))"
    and ps: "ps \<noteq> []" "drop off d = concat ps" "off \<le> length d"
  shows "\<exists>slots'. pas_run alloc (frags_from k t off ps) slots = Some ([(k, d)], slots') \<and> pas_inv slots' \<and> length slots' = length slots \<and>
    pa_is_free (slots' ! i) \<and> (\<forall>j < length slots. j \<noteq> i \<longrightarrow> slots' ! j = slots ! j)"
  using assms
proof (induction ps arbitrary: off slots)
  case Nil
  from Nil.prems(9) show ?case by (rule notE) (rule refl)
next
  case (Cons p ps)
  let ?a = "slots ! i" and ?sz = "if ps = [] then Some (off + length p) else None"
  have len: "length d = off + length p + length (concat ps)"
    using arg_cong [OF Cons.prems(10), of length] Cons.prems(11) by simp
  have "p = take (length p) (drop off d)" using Cons.prems(10) by simp
  then have f: "fragment_of d ?sz p off" using len by (auto simp: fragment_of_def)
  have g: "pas_get k t slots = (Inr i, slots)" using pas_get_only [OF Cons.prems(2-4)] .
  have inv: "pa_inv ?a" "\<not> pa_is_free ?a" using Cons.prems(1-3) by (simp_all add: pas_inv_def pa_is_free_def)
  have cov: "pa_cover ?a \<union> {off ..< off + length p} = {0..<off + length p}"
    unfolding Cons.prems(6) by (rule ivl_disj_un_two(3)) simp_all
  show ?case
  proof (cases rule: pa_input_front [OF inv Cons.prems(5) f cov Cons.prems(8), case_names whole part])
    case (whole a')
    then have "ps = []" using Cons.prems(7) by (cases ps) auto
    moreover have "pas_input alloc k t ?sz p off slots = Some (Some d, slots[i := pa_reset a'])"
      using whole(1) g by (simp add: pas_input_def)
    ultimately show ?thesis
      using Cons.prems(2) pas_inv_update [OF Cons.prems(1) pa_reset_inv [OF whole(4)], of i] by (simp add: pa_is_free_def)
  next
    case (part a')
    then have ne: "ps \<noteq> []" using len by (cases ps) auto
    let ?s = "slots[i := a']"
    have step: "pas_input alloc k t ?sz p off slots = Some (None, ?s)" using g part(1) by (simp add: pas_input_def)
    have "pas_inv ?s" using Cons.prems(1) part(2) by (rule pas_inv_update)
    moreover have "j = i" if "j < length ?s" "pa_key (?s ! j) = Some k" for j
    proof (rule ccontr)
      assume "j \<noteq> i"
      with that have "j < length slots" "pa_key (slots ! j) = Some k" by simp_all
      with Cons.prems(4) \<open>j \<noteq> i\<close> show False by blast
    qed
    moreover have "drop (off + length p) d = concat ps"
      using arg_cong [OF Cons.prems(10), of "drop (length p)"] by (simp add: add.commute)
    ultimately have "\<exists>slots'. pas_run alloc (frags_from k t (off + length p) ps) ?s = Some ([(k, d)], slots') \<and> pas_inv slots' \<and>
        length slots' = length ?s \<and> pa_is_free (slots' ! i) \<and> (\<forall>j < length ?s. j \<noteq> i \<longrightarrow> slots' ! j = ?s ! j)"
      using part Cons.prems(2,3,7,8) ne len by (intro Cons.IH) auto
    then show ?thesis using step by auto
  qed
qed

text \<open>
  When no slot has the key and one is free, the fragments of a datagram in order, cut anywhere, give back exactly the
  datagram, with the last one; the slot is free again and the others are untouched. Without \<open>alloc\<close> the buffers must
  be large enough.
\<close>

lemma pas_run_new:
  assumes "pas_inv slots" and "\<forall>a \<in> set slots. pa_key a \<noteq> Some k \<and> (alloc \<or> length (concat ps) \<le> length (pa_buffer a))"
    and "\<exists>a \<in> set slots. pa_is_free a" and "ps \<noteq> []"
  shows "\<exists>i slots'. pas_run alloc (frags_from k t 0 ps) slots = Some ([(k, concat ps)], slots') \<and> pas_inv slots' \<and>
    length slots' = length slots \<and> i < length slots \<and> pa_is_free (slots ! i) \<and> pa_is_free (slots' ! i) \<and>
    (\<forall>j < length slots. j \<noteq> i \<longrightarrow> slots' ! j = slots ! j)"
proof -
  show ?thesis
  proof (cases rule: pas_get_ok [of k t slots, case_names full found fresh])
    case full
    then show ?thesis using assms(3) by auto
  next
    case (found i)
    then show ?thesis using assms(2) nth_mem [of i slots] by auto
  next
    case (fresh i)
    let ?a = "(slots ! i)\<lparr>pa_key := Some k, pa_expires_at := t\<rparr>"
    let ?s = "slots[i := ?a]"
    have only: "j = i" if "j < length ?s" "pa_key (?s ! j) = Some k" for j
    proof (rule ccontr)
      assume "j \<noteq> i"
      with that have "slots ! j \<in> set slots" "pa_key (slots ! j) = Some k" by simp_all
      with fresh(4) show False by blast
    qed
    have "pas_get k t ?s = (Inr i, ?s)" using fresh(2) only by (intro pas_get_only) simp_all
    then have "pas_input alloc k t sz data offset slots = pas_input alloc k t sz data offset ?s" for sz data offset
      using fresh(1) by (simp add: pas_input_def)
    then have run: "pas_run alloc (frags_from k t 0 ps) slots = pas_run alloc (frags_from k t 0 ps) ?s"
      using assms(4) by (cases ps) simp_all
    have a: "pa_inv (slots ! i)" "alloc \<or> length (concat ps) \<le> length (pa_buffer (slots ! i))"
      using assms(1,2) fresh(2) by (simp_all add: pas_inv_def)
    then have e: "pa_cover (slots ! i) = {}" "pa_total_size (slots ! i) = None" using fresh(3) by (simp_all add: pa_inv_def)
    then have "pa_inv ?a" using a(1) by (simp add: pa_inv_def pa_is_free_def)
    then have inv: "pas_inv ?s" using pas_inv_update [OF assms(1)] by blast
    have "\<exists>slots'. pas_run alloc (frags_from k t 0 ps) ?s = Some ([(k, concat ps)], slots') \<and> pas_inv slots' \<and> length slots' = length ?s \<and>
        pa_is_free (slots' ! i) \<and> (\<forall>j < length ?s. j \<noteq> i \<longrightarrow> slots' ! j = ?s ! j)"
      using fresh(2) a(2) e assms(4) only by (intro pas_run_frags [OF inv]) (simp_all add: pa_agrees_def)
    then show ?thesis using run fresh(2,3) by auto
  qed
qed

section \<open>Properties\<close>

text \<open>
  C22: reassembly never mixes datagrams. Start with an empty set of assemblers, whatever its size, and let
  fragments of any number of datagrams arrive in any order, repeated, overlapping or with some missing, and slots
  expire in between. Then nothing panics, and every packet that comes out under a key is the whole datagram
  of that key, octet for octet. The fragments under one key are assumed to be of one datagram.
\<close>

theorem reassembly_correct:
  assumes "0 < count" and "\<forall>e \<in> set es. event_of dg e"
  shows "\<exists>out slots'. pas_run alloc es (pas_new slots alloc sz count) = Some (out, slots') \<and> (\<forall>(k, p) \<in> set out. p = dg k)"
  using pas_run_ok [OF pas_new_ok(1) [OF assms(1)], where dg = dg and es = es and alloc = alloc] assms(2) pas_new_ok(2) [of dg slots alloc sz count]
  by blast

theorem reassembly_correct_witness:
  "\<exists>out slots'. pas_run True [Fragment (1 :: nat) instant_zero (Some 4) [3, 4] 2, Fragment 2 instant_zero None [9] 0,
      Fragment 1 instant_zero None [1, 2] 0, Expire instant_zero] (pas_new 2 True 0 4) = Some (out, slots') \<and>
    (\<forall>(k, p) \<in> set out. p = (if k = 1 then [1, 2, 3, 4] else [9, 9]))"
  using reassembly_correct [of 4 "[Fragment (1 :: nat) instant_zero (Some 4) [3, 4] 2, Fragment 2 instant_zero None [9] 0,
      Fragment 1 instant_zero None [1, 2] 0, Expire instant_zero]" "\<lambda>k. if k = 1 then [1, 2, 3, 4] else [9, 9]" True 2 0]
  by (simp add: fragment_of_def numeral_2_eq_2)

end
