(* ===== verification/Ethernet_Wire.thy ===== *)
theory Ethernet_Wire
  imports Neighbor Wire
begin

text \<open>
  \<open>src/smoltcp/src/wire/ethernet.rs\<close> and \<open>src/smoltcp/src/wire/arp.rs\<close>: Ethernet II frames and ARP packets for IPv4
  over Ethernet, parsed and emitted.
\<close>

section \<open>Six octets\<close>

definition get_eth_addr :: "u8 list \<Rightarrow> nat \<Rightarrow> ethernet_address option" where
  "get_eth_addr d a = map_option of_be (slice d a (a + 6))"

definition put_eth_addr :: "u8 list \<Rightarrow> nat \<Rightarrow> ethernet_address \<Rightarrow> u8 list option" where
  "put_eth_addr d a v = put_bytes d a (be_bytes 6 v)"

lemma be_bytes_6:
  "be_bytes 6 w = [ucast (drop_bit 40 w), ucast (drop_bit 32 w), ucast (drop_bit 24 w), ucast (drop_bit 16 w), ucast (drop_bit 8 w), ucast w]"
  by (simp add: be_bytes_def upt_rec eval_nat_numeral)

lemma be_round_trip_48 [simp]: "of_be (be_bytes 6 w) = (w :: 48 word)"
proof (rule bit_word_eqI)
  fix n
  assume "n < LENGTH(48)"
  then consider "n < 8" | "8 \<le> n" "n < 16" | "16 \<le> n" "n < 24" | "24 \<le> n" "n < 32" | "32 \<le> n" "n < 40" | "40 \<le> n" "n < 48"
    by fastforce
  then show "bit (of_be (be_bytes 6 w) :: 48 word) n \<longleftrightarrow> bit w n"
    by cases (auto simp: be_bytes_6 of_be_def bit_simps)
qed

lemma get_eth_addr_overwrite_same [wire_simps]: "a + 6 \<le> length d \<Longrightarrow> get_eth_addr (overwrite d a (be_bytes 6 v)) a = Some v"
  by (simp only: get_eth_addr_def slice_overwrite_same length_be_bytes option.map be_round_trip_48)

lemma get_eth_addr_overwrite_other [wire_simps]:
  "a + length ys \<le> length d \<Longrightarrow> b + 6 \<le> a \<or> a + length ys \<le> b \<Longrightarrow> get_eth_addr (overwrite d a ys) b = get_eth_addr d b"
  by (simp add: get_eth_addr_def slice_overwrite_other)

lemma put_eth_addr_at: "a + 6 \<le> length d \<Longrightarrow> put_eth_addr d a v = Some (overwrite d a (be_bytes 6 v))"
  by (simp add: put_eth_addr_def)

lemma get_eth_addr_at: "a + 6 \<le> length d \<Longrightarrow> get_eth_addr d a = Some (of_be (take 6 (drop a d)))"
  by (simp add: get_eth_addr_def)

section \<open>Ethernet frames\<close>

datatype ether_type = EtherIpv4 | EtherArp | EtherIpv6 | EtherUnknown u16

definition ether_type_from :: "u16 \<Rightarrow> ether_type" where
  "ether_type_from v = (if v = 0x0800 then EtherIpv4 else if v = 0x0806 then EtherArp else if v = 0x86DD then EtherIpv6 else EtherUnknown v)"

fun ether_type_into :: "ether_type \<Rightarrow> u16" where
  "ether_type_into EtherIpv4 = 0x0800"
| "ether_type_into EtherArp = 0x0806"
| "ether_type_into EtherIpv6 = 0x86DD"
| "ether_type_into (EtherUnknown v) = v"

definition ETH_HEADER_LEN :: nat where "ETH_HEADER_LEN = 14"

definition eth_check_len :: "u8 list \<Rightarrow> wire_error + unit" where
  "eth_check_len d = (if length d < ETH_HEADER_LEN then Inl WireError else Inr ())"

definition eth_new_checked :: "u8 list \<Rightarrow> wire_error + u8 list" where
  "eth_new_checked d = (case eth_check_len d of Inl e \<Rightarrow> Inl e | Inr _ \<Rightarrow> Inr d)"

definition eth_buffer_len :: "nat \<Rightarrow> nat" where "eth_buffer_len payload_len = ETH_HEADER_LEN + payload_len"

definition eth_dst_addr :: "u8 list \<Rightarrow> ethernet_address option" where "eth_dst_addr d = get_eth_addr d 0"

definition eth_src_addr :: "u8 list \<Rightarrow> ethernet_address option" where "eth_src_addr d = get_eth_addr d 6"

definition eth_ethertype :: "u8 list \<Rightarrow> ether_type option" where "eth_ethertype d = map_option ether_type_from (get_u16 d 12)"

definition eth_payload :: "u8 list \<Rightarrow> u8 list option" where "eth_payload d = slice d 14 (length d)"

definition eth_set_dst_addr :: "ethernet_address \<Rightarrow> u8 list \<Rightarrow> u8 list option" where "eth_set_dst_addr v d = put_eth_addr d 0 v"

definition eth_set_src_addr :: "ethernet_address \<Rightarrow> u8 list \<Rightarrow> u8 list option" where "eth_set_src_addr v d = put_eth_addr d 6 v"

definition eth_set_ethertype :: "ether_type \<Rightarrow> u8 list \<Rightarrow> u8 list option" where "eth_set_ethertype v d = put_u16 d 12 (ether_type_into v)"

text \<open>\<open>payload_mut\<close> lends the rest of the frame: the borrower \<open>f\<close> replaces it, or panics.\<close>

definition eth_payload_mut :: "(u8 list \<Rightarrow> u8 list option) \<Rightarrow> u8 list \<Rightarrow> u8 list option" where
  "eth_payload_mut f d = do { p \<leftarrow> eth_payload d; p \<leftarrow> f p; Some (overwrite d 14 p) }"

record eth_repr =
  er_src_addr :: ethernet_address
  er_dst_addr :: ethernet_address
  er_ethertype :: ether_type

definition eth_parse :: "u8 list \<Rightarrow> (wire_error + eth_repr) option" where
  "eth_parse d =
     (case eth_check_len d of
        Inl e \<Rightarrow> Some (Inl e)
      | Inr _ \<Rightarrow> do {
          src \<leftarrow> eth_src_addr d;
          dst \<leftarrow> eth_dst_addr d;
          ty \<leftarrow> eth_ethertype d;
          Some (Inr \<lparr>er_src_addr = src, er_dst_addr = dst, er_ethertype = ty\<rparr>) })"

definition eth_emit :: "eth_repr \<Rightarrow> u8 list \<Rightarrow> u8 list option" where
  "eth_emit r d = do {
     panic_unless (ETH_HEADER_LEN \<le> length d);
     d \<leftarrow> eth_set_src_addr (er_src_addr r) d;
     d \<leftarrow> eth_set_dst_addr (er_dst_addr r) d;
     eth_set_ethertype (er_ethertype r) d }"

section \<open>ARP packets\<close>

datatype arp_hardware = ArpEthernet | ArpHwUnknown u16
datatype arp_operation = ArpRequest | ArpReply | ArpOpUnknown u16

definition arp_hardware_from :: "u16 \<Rightarrow> arp_hardware" where "arp_hardware_from v = (if v = 1 then ArpEthernet else ArpHwUnknown v)"

fun arp_hardware_into :: "arp_hardware \<Rightarrow> u16" where
  "arp_hardware_into ArpEthernet = 1"
| "arp_hardware_into (ArpHwUnknown v) = v"

definition arp_operation_from :: "u16 \<Rightarrow> arp_operation" where
  "arp_operation_from v = (if v = 1 then ArpRequest else if v = 2 then ArpReply else ArpOpUnknown v)"

fun arp_operation_into :: "arp_operation \<Rightarrow> u16" where
  "arp_operation_into ArpRequest = 1"
| "arp_operation_into ArpReply = 2"
| "arp_operation_into (ArpOpUnknown v) = v"

text \<open>The fields behind the operation, as start and end, for the given lengths of addresses.\<close>

definition arp_sha :: "u8 \<Rightarrow> u8 \<Rightarrow> nat \<times> nat" where "arp_sha hl pl = (8, 8 + unat hl)"

definition arp_spa :: "u8 \<Rightarrow> u8 \<Rightarrow> nat \<times> nat" where "arp_spa hl pl = (let start = snd (arp_sha hl pl) in (start, start + unat pl))"

definition arp_tha :: "u8 \<Rightarrow> u8 \<Rightarrow> nat \<times> nat" where "arp_tha hl pl = (let start = snd (arp_spa hl pl) in (start, start + unat hl))"

definition arp_tpa :: "u8 \<Rightarrow> u8 \<Rightarrow> nat \<times> nat" where "arp_tpa hl pl = (let start = snd (arp_tha hl pl) in (start, start + unat pl))"

definition arp_hardware_type :: "u8 list \<Rightarrow> arp_hardware option" where "arp_hardware_type d = map_option arp_hardware_from (get_u16 d 0)"

definition arp_protocol_type :: "u8 list \<Rightarrow> ether_type option" where "arp_protocol_type d = map_option ether_type_from (get_u16 d 2)"

definition arp_hardware_len :: "u8 list \<Rightarrow> u8 option" where "arp_hardware_len d = get_u8 d 4"

definition arp_protocol_len :: "u8 list \<Rightarrow> u8 option" where "arp_protocol_len d = get_u8 d 5"

definition arp_get_operation :: "u8 list \<Rightarrow> arp_operation option" where "arp_get_operation d = map_option arp_operation_from (get_u16 d 6)"

text \<open>A field that depends on the two lengths in the packet.\<close>

definition arp_field :: "(u8 \<Rightarrow> u8 \<Rightarrow> nat \<times> nat) \<Rightarrow> u8 list \<Rightarrow> u8 list option" where
  "arp_field f d = do {
     hl \<leftarrow> arp_hardware_len d;
     pl \<leftarrow> arp_protocol_len d;
     slice d (fst (f hl pl)) (snd (f hl pl)) }"

definition arp_source_hardware_addr :: "u8 list \<Rightarrow> u8 list option" where "arp_source_hardware_addr d = arp_field arp_sha d"

definition arp_source_protocol_addr :: "u8 list \<Rightarrow> u8 list option" where "arp_source_protocol_addr d = arp_field arp_spa d"

definition arp_target_hardware_addr :: "u8 list \<Rightarrow> u8 list option" where "arp_target_hardware_addr d = arp_field arp_tha d"

definition arp_target_protocol_addr :: "u8 list \<Rightarrow> u8 list option" where "arp_target_protocol_addr d = arp_field arp_tpa d"

definition arp_check_len :: "u8 list \<Rightarrow> (wire_error + unit) option" where
  "arp_check_len d =
     (if length d < 8 then Some (Inl WireError)
      else do {
        hl \<leftarrow> arp_hardware_len d;
        pl \<leftarrow> arp_protocol_len d;
        if length d < snd (arp_tpa hl pl) then Some (Inl WireError) else Some (Inr ()) })"

definition arp_new_checked :: "u8 list \<Rightarrow> (wire_error + u8 list) option" where
  "arp_new_checked d = do {
     res \<leftarrow> arp_check_len d;
     case res of Inl e \<Rightarrow> Some (Inl e) | Inr _ \<Rightarrow> Some (Inr d) }"

definition arp_set_hardware_type :: "arp_hardware \<Rightarrow> u8 list \<Rightarrow> u8 list option" where "arp_set_hardware_type v d = put_u16 d 0 (arp_hardware_into v)"

definition arp_set_protocol_type :: "ether_type \<Rightarrow> u8 list \<Rightarrow> u8 list option" where "arp_set_protocol_type v d = put_u16 d 2 (ether_type_into v)"

definition arp_set_hardware_len :: "u8 \<Rightarrow> u8 list \<Rightarrow> u8 list option" where "arp_set_hardware_len v d = put_u8 d 4 v"

definition arp_set_protocol_len :: "u8 \<Rightarrow> u8 list \<Rightarrow> u8 list option" where "arp_set_protocol_len v d = put_u8 d 5 v"

definition arp_set_operation :: "arp_operation \<Rightarrow> u8 list \<Rightarrow> u8 list option" where "arp_set_operation v d = put_u16 d 6 (arp_operation_into v)"

text \<open>\<open>copy_from_slice\<close> panics unless the value has the length of the field.\<close>

definition arp_put_field :: "(u8 \<Rightarrow> u8 \<Rightarrow> nat \<times> nat) \<Rightarrow> u8 list \<Rightarrow> u8 list \<Rightarrow> u8 list option" where
  "arp_put_field f v d = do {
     hl \<leftarrow> arp_hardware_len d;
     pl \<leftarrow> arp_protocol_len d;
     part \<leftarrow> slice d (fst (f hl pl)) (snd (f hl pl));
     panic_unless (length part = length v);
     Some (overwrite d (fst (f hl pl)) v) }"

definition arp_set_source_hardware_addr :: "u8 list \<Rightarrow> u8 list \<Rightarrow> u8 list option" where "arp_set_source_hardware_addr v d = arp_put_field arp_sha v d"

definition arp_set_source_protocol_addr :: "u8 list \<Rightarrow> u8 list \<Rightarrow> u8 list option" where "arp_set_source_protocol_addr v d = arp_put_field arp_spa v d"

definition arp_set_target_hardware_addr :: "u8 list \<Rightarrow> u8 list \<Rightarrow> u8 list option" where "arp_set_target_hardware_addr v d = arp_put_field arp_tha v d"

definition arp_set_target_protocol_addr :: "u8 list \<Rightarrow> u8 list \<Rightarrow> u8 list option" where "arp_set_target_protocol_addr v d = arp_put_field arp_tpa v d"

text \<open>The one constructor of \<open>Repr\<close>, \<open>EthernetIpv4\<close>, is a record.\<close>

record arp_repr =
  arp_operation :: arp_operation
  arp_source_hw :: ethernet_address
  arp_source_ip :: ipv4_address
  arp_target_hw :: ethernet_address
  arp_target_ip :: ipv4_address

text \<open>\<open>from_bytes\<close> panics unless it is given as many octets as the address has.\<close>

definition eth_from_bytes :: "u8 list \<Rightarrow> ethernet_address option" where
  "eth_from_bytes bs = (if length bs = 6 then Some (of_be bs) else None)"

definition ipv4_from_bytes :: "u8 list \<Rightarrow> ipv4_address option" where
  "ipv4_from_bytes bs = (if length bs = 4 then Some (of_be bs) else None)"

definition arp_parse :: "u8 list \<Rightarrow> (wire_error + arp_repr) option" where
  "arp_parse d = do {
     res \<leftarrow> arp_check_len d;
     case res of
       Inl e \<Rightarrow> Some (Inl e)
     | Inr _ \<Rightarrow> do {
         ht \<leftarrow> arp_hardware_type d;
         pt \<leftarrow> arp_protocol_type d;
         hl \<leftarrow> arp_hardware_len d;
         pl \<leftarrow> arp_protocol_len d;
         if ht = ArpEthernet \<and> pt = EtherIpv4 \<and> hl = 6 \<and> pl = 4 then do {
           oper \<leftarrow> arp_get_operation d;
           sha \<leftarrow> arp_source_hardware_addr d;
           sha \<leftarrow> eth_from_bytes sha;
           spa \<leftarrow> arp_source_protocol_addr d;
           spa \<leftarrow> ipv4_from_bytes spa;
           tha \<leftarrow> arp_target_hardware_addr d;
           tha \<leftarrow> eth_from_bytes tha;
           tpa \<leftarrow> arp_target_protocol_addr d;
           tpa \<leftarrow> ipv4_from_bytes tpa;
           Some (Inr \<lparr>arp_operation = oper, arp_source_hw = sha, arp_source_ip = spa, arp_target_hw = tha, arp_target_ip = tpa\<rparr>) }
         else Some (Inl WireError) } }"

definition arp_buffer_len :: "arp_repr \<Rightarrow> nat" where "arp_buffer_len r = snd (arp_tpa 6 4)"

definition arp_emit :: "arp_repr \<Rightarrow> u8 list \<Rightarrow> u8 list option" where
  "arp_emit r d = do {
     d \<leftarrow> arp_set_hardware_type ArpEthernet d;
     d \<leftarrow> arp_set_protocol_type EtherIpv4 d;
     d \<leftarrow> arp_set_hardware_len 6 d;
     d \<leftarrow> arp_set_protocol_len 4 d;
     d \<leftarrow> arp_set_operation (arp_operation r) d;
     d \<leftarrow> arp_set_source_hardware_addr (be_bytes 6 (arp_source_hw r)) d;
     d \<leftarrow> arp_set_source_protocol_addr (be_bytes 4 (arp_source_ip r)) d;
     d \<leftarrow> arp_set_target_hardware_addr (be_bytes 6 (arp_target_hw r)) d;
     arp_set_target_protocol_addr (be_bytes 4 (arp_target_ip r)) d }"

section \<open>Ethernet: round trip\<close>

lemmas eth_fields = eth_dst_addr_def eth_src_addr_def eth_ethertype_def
lemmas eth_setters = eth_set_dst_addr_def eth_set_src_addr_def eth_set_ethertype_def

text \<open>Types for which there is only one number.\<close>

definition eth_fits :: "eth_repr \<Rightarrow> bool" where
  "eth_fits r \<longleftrightarrow> ether_type_from (ether_type_into (er_ethertype r)) = er_ethertype r"

definition eth_octets :: "eth_repr \<Rightarrow> u8 list \<Rightarrow> u8 list" where
  "eth_octets r d = overwrite (overwrite (overwrite d 6 (be_bytes 6 (er_src_addr r))) 0 (be_bytes 6 (er_dst_addr r)))
     12 (be_bytes 2 (ether_type_into (er_ethertype r)))"

lemma eth_emit_octets: "14 \<le> length d \<Longrightarrow> eth_emit r d = Some (eth_octets r d)"
  by (simp add: eth_emit_def ETH_HEADER_LEN_def eth_setters put_eth_addr_at put_at eth_octets_def)

lemma eth_octets_fields:
  assumes "14 \<le> length d"
  shows "length (eth_octets r d) = length d" "eth_payload (eth_octets r d) = Some (drop 14 d)"
    "eth_src_addr (eth_octets r d) = Some (er_src_addr r)" "eth_dst_addr (eth_octets r d) = Some (er_dst_addr r)"
    "eth_ethertype (eth_octets r d) = Some (ether_type_from (ether_type_into (er_ethertype r)))"
  using assms by (simp_all add: eth_octets_def eth_fields wire_simps eth_payload_def drop_overwrite_before)

text \<open>A frame with its payload.\<close>

definition eth_write :: "eth_repr \<times> u8 list \<Rightarrow> u8 list \<Rightarrow> u8 list option" where
  "eth_write p d = do { d \<leftarrow> eth_emit (fst p) d; eth_payload_mut (\<lambda>_. Some (snd p)) d }"

definition eth_read :: "u8 list \<Rightarrow> (wire_error + eth_repr \<times> u8 list) option" where
  "eth_read d = do { res \<leftarrow> eth_parse d; case res of Inl e \<Rightarrow> Some (Inl e) | Inr r \<Rightarrow> do { p \<leftarrow> eth_payload d; Some (Inr (r, p)) } }"

lemma eth_read_ok: "eth_read d = Some (Inr (r, p)) \<longleftrightarrow> eth_parse d = Some (Inr r) \<and> eth_payload d = Some p"
  by (cases "eth_parse d"; cases "the (eth_parse d)"; cases "eth_payload d") (auto simp: eth_read_def)

interpretation eth_format: wire_format "\<lambda>_ :: unit. True" "\<lambda>_. eth_fits \<circ> fst" "\<lambda>p. 14 + length (snd p)"
  "\<lambda>_. eth_write" "\<lambda>_. eth_read"
proof unfold_locales
  fix p :: "eth_repr \<times> u8 list" and buf :: "u8 list"
  assume a: "(eth_fits \<circ> fst) p" "length buf = 14 + length (snd p)"
  then have l: "14 \<le> length buf" by simp
  let ?d = "overwrite (eth_octets (fst p) buf) 14 (snd p)"
  note f = eth_octets_fields [OF l, of "fst p"]
  have e: "eth_emit (fst p) buf = Some (eth_octets (fst p) buf)" using l by (rule eth_emit_octets)
  have m: "eth_payload_mut (\<lambda>_. Some (snd p)) (eth_octets (fst p) buf) = Some ?d" using f(2) by (simp add: eth_payload_mut_def)
  have len: "length ?d = 14 + length (snd p)" using f(1) a(2) by simp
  have "eth_src_addr ?d = eth_src_addr (eth_octets (fst p) buf)" "eth_dst_addr ?d = eth_dst_addr (eth_octets (fst p) buf)"
    "eth_ethertype ?d = eth_ethertype (eth_octets (fst p) buf)"
    using f(1) a(2) by (simp_all add: eth_fields wire_simps)
  then have "eth_parse ?d = Some (Inr (fst p))"
    using f a len by (simp add: eth_parse_def eth_check_len_def ETH_HEADER_LEN_def eth_fits_def)
  moreover have "eth_payload ?d = Some (snd p)"
    using a(2) f(1) len by (simp add: eth_payload_def overwrite_def drop_append)
  ultimately show "\<exists>bs. eth_write p buf = Some bs \<and> length bs = 14 + length (snd p) \<and>
      eth_read bs = Some (Inr p)"
    using e m len by (simp add: eth_write_def eth_read_def)
next
  fix buf :: "u8 list"
  show "eth_read buf \<noteq> None"
    by (cases "14 \<le> length buf")
      (auto simp: eth_read_def eth_parse_def eth_check_len_def ETH_HEADER_LEN_def eth_fields get_eth_addr_at get_u16_at eth_payload_def)
qed

section \<open>ARP: round trip\<close>

lemmas arp_setters = arp_set_hardware_type_def arp_set_protocol_type_def arp_set_hardware_len_def arp_set_protocol_len_def
  arp_set_operation_def arp_set_source_hardware_addr_def arp_set_source_protocol_addr_def arp_set_target_hardware_addr_def
  arp_set_target_protocol_addr_def
lemmas arp_fields = arp_hardware_type_def arp_protocol_type_def arp_hardware_len_def arp_protocol_len_def arp_get_operation_def
  arp_source_hardware_addr_def arp_source_protocol_addr_def arp_target_hardware_addr_def arp_target_protocol_addr_def arp_field_def
lemmas arp_bounds = arp_sha_def arp_spa_def arp_tha_def arp_tpa_def

definition arp_fits :: "arp_repr \<Rightarrow> bool" where
  "arp_fits r \<longleftrightarrow> arp_operation_from (arp_operation_into (arp_operation r)) = arp_operation r"

definition arp_header :: "arp_repr \<Rightarrow> u8 list \<Rightarrow> u8 list" where
  "arp_header r d = overwrite (overwrite (overwrite (overwrite (overwrite d 0 (be_bytes 2 (1 :: u16))) 2 (be_bytes 2 (0x0800 :: u16)))
     4 [6]) 5 [4]) 6 (be_bytes 2 (arp_operation_into (arp_operation r)))"

definition arp_octets :: "arp_repr \<Rightarrow> u8 list \<Rightarrow> u8 list" where
  "arp_octets r d = overwrite (overwrite (overwrite (overwrite (arp_header r d) 8 (be_bytes 6 (arp_source_hw r)))
     14 (be_bytes 4 (arp_source_ip r))) 18 (be_bytes 6 (arp_target_hw r))) 24 (be_bytes 4 (arp_target_ip r))"

lemma arp_put_field_at:
  assumes "arp_hardware_len d = Some 6" "arp_protocol_len d = Some 4" "f 6 4 = (a, b)" "a + length v = b" "b \<le> length d"
  shows "arp_put_field f v d = Some (overwrite d a v)"
  using assms by (simp add: arp_put_field_def)

lemma arp_lens_kept:
  assumes "8 \<le> a" "a + length v \<le> length d"
  shows "arp_hardware_len (overwrite d a v) = arp_hardware_len d" "arp_protocol_len (overwrite d a v) = arp_protocol_len d"
  using assms by (simp_all add: arp_hardware_len_def arp_protocol_len_def wire_simps)

lemma arp_header_lens:
  assumes "28 \<le> length d"
  shows "length (arp_header r d) = length d" "arp_hardware_len (arp_header r d) = Some 6" "arp_protocol_len (arp_header r d) = Some 4"
    "arp_hardware_type (arp_header r d) = Some ArpEthernet" "arp_protocol_type (arp_header r d) = Some EtherIpv4"
    "arp_get_operation (arp_header r d) = Some (arp_operation_from (arp_operation_into (arp_operation r)))"
  using assms by (simp_all add: arp_header_def arp_fields wire_simps arp_hardware_from_def ether_type_from_def)

lemma arp_emit_octets:
  assumes "28 \<le> length d"
  shows "arp_emit r d = Some (arp_octets r d)"
proof -
  have h: "arp_emit r d = Option.bind (arp_put_field arp_sha (be_bytes 6 (arp_source_hw r)) (arp_header r d)) (\<lambda>d.
      Option.bind (arp_put_field arp_spa (be_bytes 4 (arp_source_ip r)) d) (\<lambda>d.
      Option.bind (arp_put_field arp_tha (be_bytes 6 (arp_target_hw r)) d) (arp_put_field arp_tpa (be_bytes 4 (arp_target_ip r)))))"
    using assms by (simp add: arp_emit_def arp_setters put_at arp_header_def)
  show ?thesis
    using assms arp_header_lens [OF assms, of r] unfolding h
    by (simp add: arp_put_field_at [where a = 8 and b = 14] arp_put_field_at [where a = 14 and b = 18]
        arp_put_field_at [where a = 18 and b = 24] arp_put_field_at [where a = 24 and b = 28] arp_bounds arp_lens_kept arp_octets_def)
qed

lemma arp_octets_fields:
  assumes "28 \<le> length d"
  shows "length (arp_octets r d) = length d" "arp_hardware_len (arp_octets r d) = Some 6" "arp_protocol_len (arp_octets r d) = Some 4"
    "arp_hardware_type (arp_octets r d) = Some ArpEthernet" "arp_protocol_type (arp_octets r d) = Some EtherIpv4"
    "arp_get_operation (arp_octets r d) = Some (arp_operation_from (arp_operation_into (arp_operation r)))"
    "slice (arp_octets r d) 8 14 = Some (be_bytes 6 (arp_source_hw r))" "slice (arp_octets r d) 14 18 = Some (be_bytes 4 (arp_source_ip r))"
    "slice (arp_octets r d) 18 24 = Some (be_bytes 6 (arp_target_hw r))" "slice (arp_octets r d) 24 28 = Some (be_bytes 4 (arp_target_ip r))"
  using assms arp_header_lens [OF assms, of r]
  by (simp_all add: arp_octets_def arp_lens_kept arp_hardware_type_def arp_protocol_type_def arp_get_operation_def wire_simps del: slice_Some)

lemma arp_parse_octets:
  assumes "28 \<le> length d" "arp_fits r"
  shows "arp_parse (arp_octets r d) = Some (Inr r)"
proof -
  note f = arp_octets_fields [OF assms(1), of r]
  have "arp_check_len (arp_octets r d) = Some (Inr ())" using f(1-3) assms(1) by (simp add: arp_check_len_def arp_bounds)
  then show ?thesis
    using f assms(2) by (simp add: arp_parse_def arp_source_hardware_addr_def arp_source_protocol_addr_def arp_target_hardware_addr_def
        arp_target_protocol_addr_def arp_field_def arp_bounds eth_from_bytes_def ipv4_from_bytes_def arp_fits_def del: slice_Some)
qed

lemma arp_parse_total: "arp_parse d \<noteq> None"
proof (cases "8 \<le> length d")
  case True
  then obtain hl pl ht pt where f: "arp_hardware_len d = Some hl" "arp_protocol_len d = Some pl" "arp_hardware_type d = Some ht" "arp_protocol_type d = Some pt"
    by (simp add: arp_fields get_u8_at get_u16_at)
  obtain oper where oper: "arp_get_operation d = Some oper" using True by (simp add: arp_fields get_u16_at)
  show ?thesis
  proof (cases "length d < snd (arp_tpa hl pl)")
    case False
    show ?thesis
    proof (cases "ht = ArpEthernet \<and> pt = EtherIpv4 \<and> hl = 6 \<and> pl = 4")
      case c: True
      then have "28 \<le> length d" using False by (simp add: arp_bounds)
      then show ?thesis
        using c f oper True False
        by (simp add: arp_parse_def arp_check_len_def arp_source_hardware_addr_def arp_source_protocol_addr_def arp_target_hardware_addr_def
          arp_target_protocol_addr_def arp_field_def arp_bounds eth_from_bytes_def ipv4_from_bytes_def)
    next
      case c: False
      then show ?thesis using f True False by (auto simp: arp_parse_def arp_check_len_def)
    qed
  qed (use f True in \<open>simp add: arp_parse_def arp_check_len_def\<close>)
qed (simp add: arp_parse_def arp_check_len_def)

interpretation arp_format: wire_format "\<lambda>_ :: unit. True" "\<lambda>_. arp_fits" "\<lambda>_. 28" "\<lambda>_. arp_emit" "\<lambda>_. arp_parse"
proof unfold_locales
  fix r :: arp_repr and buf :: "u8 list"
  assume "arp_fits r" "length buf = 28"
  then show "\<exists>bs. arp_emit r buf = Some bs \<and> length bs = 28 \<and> arp_parse bs = Some (Inr r)"
    using arp_emit_octets [of buf r] arp_parse_octets [of buf r] arp_octets_fields(1) [of buf r] by simp
qed (rule arp_parse_total)

section \<open>Properties\<close>

text \<open>
  An ARP packet in an Ethernet frame survives the wire. An ARP representation emitted into the payload of
  an emitted frame is found again by parsing the frame, its payload and the ARP packet in it, for all
  addresses and for every operation and type that has one number, whatever was in the buffer before; and the
  frame is as long as the two headers say.
\<close>

lemma arp_frame_round_trip:
  assumes "ether_type_from (ether_type_into (er_ethertype e)) = er_ethertype e"
    and "arp_operation_from (arp_operation_into (arp_operation r)) = arp_operation r"
    and "length buf = eth_buffer_len (arp_buffer_len r)"
  shows "\<exists>d p. Option.bind (eth_emit e buf) (eth_payload_mut (arp_emit r)) = Some d \<and> length d = 42 \<and>
    eth_parse d = Some (Inr e) \<and> eth_payload d = Some p \<and> arp_parse p = Some (Inr r)"
proof -
  have l: "length buf = 42" using assms(3) by (simp add: eth_buffer_len_def ETH_HEADER_LEN_def arp_buffer_len_def arp_bounds)
  have l14: "14 \<le> length buf" using l by simp
  obtain p where p: "arp_emit r (drop 14 buf) = Some p" "length p = 28" "arp_parse p = Some (Inr r)"
    using arp_format.emitted [of r "drop 14 buf"] assms(2) l by (auto simp: arp_fits_def)
  have e: "eth_emit e buf = Some (eth_octets e buf)" using l14 by (rule eth_emit_octets)
  note f = eth_octets_fields [OF l14, of e]
  have m: "Option.bind (eth_emit e buf) (eth_payload_mut (arp_emit r)) = Some (overwrite (eth_octets e buf) 14 p)"
    using e f(2) p(1) by (simp add: eth_payload_mut_def)
  have "(eth_fits \<circ> fst) (e, p)" "length buf = 14 + length (snd (e, p))" using assms(1) l p(2) by (simp_all add: eth_fits_def)
  from eth_format.emitted [OF TrueI this] obtain d where d: "d = overwrite (eth_octets e buf) 14 p" "length d = 42"
    "eth_read d = Some (Inr (e, p))"
    using e f(2) p(2) by (auto simp: eth_write_def eth_payload_mut_def)
  then have "eth_parse d = Some (Inr e)" "eth_payload d = Some p" by (simp_all add: eth_read_ok)
  with m d p(3) show ?thesis by blast
qed

lemma arp_frame_round_trip_witness:
  "\<exists>d p. Option.bind (eth_emit \<lparr>er_src_addr = 0x020000000001, er_dst_addr = eth_broadcast, er_ethertype = EtherArp\<rparr> (replicate 42 0xaa))
      (eth_payload_mut (arp_emit \<lparr>arp_operation = ArpRequest, arp_source_hw = 0x020000000001, arp_source_ip = 0x0a000001,
        arp_target_hw = eth_broadcast, arp_target_ip = 0x0a000002\<rparr>)) = Some d \<and> length d = 42 \<and>
    eth_parse d = Some (Inr \<lparr>er_src_addr = 0x020000000001, er_dst_addr = eth_broadcast, er_ethertype = EtherArp\<rparr>) \<and>
    eth_payload d = Some p \<and> arp_parse p = Some (Inr \<lparr>arp_operation = ArpRequest, arp_source_hw = 0x020000000001, arp_source_ip = 0x0a000001,
        arp_target_hw = eth_broadcast, arp_target_ip = 0x0a000002\<rparr>)"
  by (rule arp_frame_round_trip)
    (simp_all add: ether_type_from_def arp_operation_from_def eth_buffer_len_def ETH_HEADER_LEN_def arp_buffer_len_def arp_bounds)

end
