(* ===== verification/Ipv4_Wire.thy ===== *)
theory Ipv4_Wire
  imports Wire
begin

text \<open>
  \<open>src/smoltcp/src/wire/ipv4.rs\<close>: the accessors of an IPv4 packet buffer, and \<open>Repr::parse\<close> and
  \<open>Repr::emit\<close>. The representation is \<^typ>\<open>ipv4_address ip_header\<close> of \<open>Ip\<close>. The parser takes as an argument
  whether the feature \<open>proto-ipv4-fragmentation\<close> is enabled.
\<close>

section \<open>Packets\<close>

definition ipv4_version :: "u8 list \<Rightarrow> u8 option" where
  "ipv4_version d = map_option (drop_bit 4) (get_u8 d 0)"

definition ipv4_get_header_len :: "u8 list \<Rightarrow> u8 option" where
  "ipv4_get_header_len d = map_option (\<lambda>b. (b AND 0x0f) * 4) (get_u8 d 0)"

definition ipv4_dscp :: "u8 list \<Rightarrow> u8 option" where
  "ipv4_dscp d = map_option (drop_bit 2) (get_u8 d 1)"

definition ipv4_ecn :: "u8 list \<Rightarrow> u8 option" where
  "ipv4_ecn d = map_option (\<lambda>b. b AND 0x03) (get_u8 d 1)"

definition ipv4_total_len :: "u8 list \<Rightarrow> u16 option" where "ipv4_total_len d = get_u16 d 2"

definition ipv4_ident :: "u8 list \<Rightarrow> u16 option" where "ipv4_ident d = get_u16 d 4"

definition ipv4_dont_frag :: "u8 list \<Rightarrow> bool option" where
  "ipv4_dont_frag d = map_option (\<lambda>w. w AND 0x4000 \<noteq> 0) (get_u16 d 6)"

definition ipv4_more_frags :: "u8 list \<Rightarrow> bool option" where
  "ipv4_more_frags d = map_option (\<lambda>w. w AND 0x2000 \<noteq> 0) (get_u16 d 6)"

definition ipv4_frag_offset :: "u8 list \<Rightarrow> u16 option" where
  "ipv4_frag_offset d = map_option (push_bit 3) (get_u16 d 6)"

definition ipv4_hop_limit :: "u8 list \<Rightarrow> u8 option" where "ipv4_hop_limit d = get_u8 d 8"

definition ipv4_next_header :: "u8 list \<Rightarrow> ip_protocol option" where
  "ipv4_next_header d = map_option protocol_from_u8 (get_u8 d 9)"

definition ipv4_checksum :: "u8 list \<Rightarrow> u16 option" where "ipv4_checksum d = get_u16 d 10"

definition ipv4_src_addr :: "u8 list \<Rightarrow> ipv4_address option" where "ipv4_src_addr d = get_u32 d 12"

definition ipv4_dst_addr :: "u8 list \<Rightarrow> ipv4_address option" where "ipv4_dst_addr d = get_u32 d 16"

definition ipv4_check_len :: "u8 list \<Rightarrow> (wire_error + unit) option" where
  "ipv4_check_len d =
     (if length d < IPV4_HEADER_LEN then Some (Inl WireError)
      else do {
        hl \<leftarrow> ipv4_get_header_len d;
        if length d < unat hl then Some (Inl WireError)
        else do {
          tl \<leftarrow> ipv4_total_len d;
          if ucast hl > tl then Some (Inl WireError)
          else if length d < unat tl then Some (Inl WireError)
          else Some (Inr ()) } })"

definition ipv4_new_checked :: "u8 list \<Rightarrow> (wire_error + u8 list) option" where
  "ipv4_new_checked d = do {
     res \<leftarrow> ipv4_check_len d;
     case res of Inl e \<Rightarrow> Some (Inl e) | Inr _ \<Rightarrow> Some (Inr d) }"

definition ipv4_verify_checksum :: "u8 list \<Rightarrow> bool option" where
  "ipv4_verify_checksum d = do {
     hl \<leftarrow> ipv4_get_header_len d;
     part \<leftarrow> slice d 0 (unat hl);
     Some (checksum_data part = 0xffff) }"

definition ipv4_payload :: "u8 list \<Rightarrow> u8 list option" where
  "ipv4_payload d = do {
     hl \<leftarrow> ipv4_get_header_len d;
     tl \<leftarrow> ipv4_total_len d;
     slice d (unat hl) (unat tl) }"

text \<open>The key by which fragments of one packet are collected.\<close>

record ipv4_key =
  key_id :: u16
  key_src_addr :: ipv4_address
  key_dst_addr :: ipv4_address
  key_protocol :: ip_protocol

definition ipv4_get_key :: "u8 list \<Rightarrow> ipv4_key option" where
  "ipv4_get_key d = do {
     i \<leftarrow> ipv4_ident d;
     src \<leftarrow> ipv4_src_addr d;
     dst \<leftarrow> ipv4_dst_addr d;
     p \<leftarrow> ipv4_next_header d;
     Some \<lparr>key_id = i, key_src_addr = src, key_dst_addr = dst, key_protocol = p\<rparr> }"

subsection \<open>Writing\<close>

definition ipv4_set_version :: "u8 \<Rightarrow> u8 list \<Rightarrow> u8 list option" where
  "ipv4_set_version v d = do { b \<leftarrow> get_u8 d 0; put_u8 d 0 ((b AND NOT 0xf0) OR push_bit 4 v) }"

definition ipv4_set_header_len :: "u8 \<Rightarrow> u8 list \<Rightarrow> u8 list option" where
  "ipv4_set_header_len v d = do { b \<leftarrow> get_u8 d 0; put_u8 d 0 ((b AND NOT 0x0f) OR ((v div 4) AND 0x0f)) }"

definition ipv4_set_dscp :: "u8 \<Rightarrow> u8 list \<Rightarrow> u8 list option" where
  "ipv4_set_dscp v d = do { b \<leftarrow> get_u8 d 1; put_u8 d 1 ((b AND NOT 0xfc) OR push_bit 2 v) }"

definition ipv4_set_ecn :: "u8 \<Rightarrow> u8 list \<Rightarrow> u8 list option" where
  "ipv4_set_ecn v d = do { b \<leftarrow> get_u8 d 1; put_u8 d 1 ((b AND NOT 0x03) OR (v AND 0x03)) }"

definition ipv4_set_total_len :: "u16 \<Rightarrow> u8 list \<Rightarrow> u8 list option" where "ipv4_set_total_len v d = put_u16 d 2 v"

definition ipv4_set_ident :: "u16 \<Rightarrow> u8 list \<Rightarrow> u8 list option" where "ipv4_set_ident v d = put_u16 d 4 v"

definition ipv4_clear_flags :: "u8 list \<Rightarrow> u8 list option" where
  "ipv4_clear_flags d = do { raw \<leftarrow> get_u16 d 6; put_u16 d 6 (raw AND NOT 0xe000) }"

definition ipv4_set_dont_frag :: "bool \<Rightarrow> u8 list \<Rightarrow> u8 list option" where
  "ipv4_set_dont_frag v d = do { raw \<leftarrow> get_u16 d 6; put_u16 d 6 (if v then raw OR 0x4000 else raw AND NOT 0x4000) }"

definition ipv4_set_more_frags :: "bool \<Rightarrow> u8 list \<Rightarrow> u8 list option" where
  "ipv4_set_more_frags v d = do { raw \<leftarrow> get_u16 d 6; put_u16 d 6 (if v then raw OR 0x2000 else raw AND NOT 0x2000) }"

definition ipv4_set_frag_offset :: "u16 \<Rightarrow> u8 list \<Rightarrow> u8 list option" where
  "ipv4_set_frag_offset v d = do { raw \<leftarrow> get_u16 d 6; put_u16 d 6 ((raw AND 0xe000) OR drop_bit 3 v) }"

definition ipv4_set_hop_limit :: "u8 \<Rightarrow> u8 list \<Rightarrow> u8 list option" where "ipv4_set_hop_limit v d = put_u8 d 8 v"

definition ipv4_set_next_header :: "ip_protocol \<Rightarrow> u8 list \<Rightarrow> u8 list option" where
  "ipv4_set_next_header p d = put_u8 d 9 (protocol_to_u8 p)"

definition ipv4_set_checksum :: "u16 \<Rightarrow> u8 list \<Rightarrow> u8 list option" where "ipv4_set_checksum v d = put_u16 d 10 v"

definition ipv4_set_src_addr :: "ipv4_address \<Rightarrow> u8 list \<Rightarrow> u8 list option" where "ipv4_set_src_addr a d = put_u32 d 12 a"

definition ipv4_set_dst_addr :: "ipv4_address \<Rightarrow> u8 list \<Rightarrow> u8 list option" where "ipv4_set_dst_addr a d = put_u32 d 16 a"

text \<open>\<open>payload_mut\<close> lends the octets behind the header: the borrower \<open>f\<close> replaces them.\<close>

definition ipv4_payload_mut :: "(u8 list \<Rightarrow> u8 list) \<Rightarrow> u8 list \<Rightarrow> u8 list option" where
  "ipv4_payload_mut f d = do {
     hl \<leftarrow> ipv4_get_header_len d;
     p \<leftarrow> ipv4_payload d;
     Some (overwrite d (unat hl) (f p)) }"

definition ipv4_fill_checksum :: "u8 list \<Rightarrow> u8 list option" where
  "ipv4_fill_checksum d = do {
     d \<leftarrow> ipv4_set_checksum 0 d;
     hl \<leftarrow> ipv4_get_header_len d;
     part \<leftarrow> slice d 0 (unat hl);
     ipv4_set_checksum (NOT (checksum_data part)) d }"

section \<open>Representation\<close>

definition ipv4_parse ::
  "bool \<Rightarrow> checksum_capabilities \<Rightarrow> u8 list \<Rightarrow> (wire_error + ipv4_address ip_header) option" where
  "ipv4_parse frag_feature caps d = do {
     res \<leftarrow> ipv4_check_len d;
     case res of
       Inl e \<Rightarrow> Some (Inl e)
     | Inr _ \<Rightarrow> do {
         v \<leftarrow> ipv4_version d;
         if v \<noteq> 4 then Some (Inl WireError)
         else do {
           bad \<leftarrow> (if checksum_rx (caps_ipv4 caps) then map_option Not (ipv4_verify_checksum d) else Some False);
           if bad then Some (Inl WireError)
           else do {
             more_frags \<leftarrow> ipv4_more_frags d;
             offset \<leftarrow> ipv4_frag_offset d;
             if \<not> frag_feature \<and> (more_frags \<or> offset \<noteq> 0) then Some (Inl WireError)
             else do {
               tl \<leftarrow> ipv4_total_len d;
               hl \<leftarrow> ipv4_get_header_len d;
               payload_len \<leftarrow> usize_sub (unat tl) (unat hl);
               src \<leftarrow> ipv4_src_addr d;
               dst \<leftarrow> ipv4_dst_addr d;
               p \<leftarrow> ipv4_next_header d;
               ttl \<leftarrow> ipv4_hop_limit d;
               Some (Inr \<lparr>ih_src_addr = src, ih_dst_addr = dst, ih_next_header = p, ih_payload_len = payload_len,
                 ih_hop_limit = ttl\<rparr>) } } } } }"

definition ipv4_buffer_len :: "ipv4_address ip_header \<Rightarrow> nat" where
  "ipv4_buffer_len r = IPV4_HEADER_LEN"

definition ipv4_emit :: "ipv4_address ip_header \<Rightarrow> checksum_capabilities \<Rightarrow> u8 list \<Rightarrow> u8 list option" where
  "ipv4_emit r caps d = do {
     d \<leftarrow> ipv4_set_version 4 d;
     d \<leftarrow> ipv4_set_header_len (of_nat IPV4_HEADER_LEN) d;
     d \<leftarrow> ipv4_set_dscp 0 d;
     d \<leftarrow> ipv4_set_ecn 0 d;
     hl \<leftarrow> ipv4_get_header_len d;
     d \<leftarrow> ipv4_set_total_len (ucast hl + of_nat (ih_payload_len r)) d;
     d \<leftarrow> ipv4_set_ident 0 d;
     d \<leftarrow> ipv4_clear_flags d;
     d \<leftarrow> ipv4_set_more_frags False d;
     d \<leftarrow> ipv4_set_dont_frag True d;
     d \<leftarrow> ipv4_set_frag_offset 0 d;
     d \<leftarrow> ipv4_set_hop_limit (ih_hop_limit r) d;
     d \<leftarrow> ipv4_set_next_header (ih_next_header r) d;
     d \<leftarrow> ipv4_set_src_addr (ih_src_addr r) d;
     d \<leftarrow> ipv4_set_dst_addr (ih_dst_addr r) d;
     if checksum_tx (caps_ipv4 caps) then ipv4_fill_checksum d else ipv4_set_checksum 0 d }"

lemmas ipv4_fields = ipv4_version_def ipv4_get_header_len_def ipv4_total_len_def ipv4_more_frags_def
  ipv4_frag_offset_def ipv4_hop_limit_def ipv4_next_header_def ipv4_checksum_def ipv4_src_addr_def ipv4_dst_addr_def
lemmas ipv4_setters = ipv4_set_version_def ipv4_set_header_len_def ipv4_set_dscp_def ipv4_set_ecn_def
  ipv4_set_total_len_def ipv4_set_ident_def ipv4_clear_flags_def ipv4_set_dont_frag_def ipv4_set_more_frags_def
  ipv4_set_frag_offset_def ipv4_set_hop_limit_def ipv4_set_next_header_def ipv4_set_checksum_def ipv4_set_src_addr_def
  ipv4_set_dst_addr_def

section \<open>Parsing never panics\<close>

lemma unat_ucast_u8: "unat (ucast (b :: u8) :: u16) = unat b"
  using unat_byte [of b] by (simp add: unsigned_ucast_eq take_bit_nat_eq_self)

lemma ipv4_check_len_total:
  obtains (err) e where "ipv4_check_len d = Some (Inl e)"
  | (ok) hl tl where "ipv4_check_len d = Some (Inr ())" "20 \<le> length d" "ipv4_get_header_len d = Some hl"
      "ipv4_total_len d = Some tl" "unat hl \<le> unat tl" "unat tl \<le> length d"
proof (cases "20 \<le> length d")
  case True
  define hl :: u8 where "hl = (d ! 0 AND 0x0f) * 4"
  define tl :: u16 where "tl = of_be (take 2 (drop 2 d))"
  have "d \<noteq> []" using True by auto
  then have hl: "ipv4_get_header_len d = Some hl" and tl: "ipv4_total_len d = Some tl"
    using True by (simp_all add: ipv4_fields get_u8_at get_u16_at hl_def tl_def)
  have c: "ipv4_check_len d = (if length d < unat hl \<or> unat tl < unat hl \<or> length d < unat tl then Some (Inl WireError) else Some (Inr ()))"
    using True hl tl by (auto simp: ipv4_check_len_def IPV4_HEADER_LEN_def word_less_nat_alt unat_ucast_u8)
  show thesis
  proof (cases "length d < unat hl \<or> unat tl < unat hl \<or> length d < unat tl")
    case False
    with c True hl tl show thesis by (intro ok) auto
  qed (use c err in simp)
next
  case False
  then show thesis by (intro err [of WireError]) (simp add: ipv4_check_len_def IPV4_HEADER_LEN_def)
qed

lemma get_u8_long: "20 \<le> length d \<Longrightarrow> a < 20 \<Longrightarrow> get_u8 d a = Some (d ! a)"
  by (simp add: get_u8_def)

lemma ipv4_parse_total:
  obtains (err) e where "ipv4_parse frag caps d = Some (Inl e)"
  | (ok) r p where "ipv4_parse frag caps d = Some (Inr r)" "ipv4_payload d = Some p" "length p = ih_payload_len r"
      "length p \<le> length d" "length p \<le> 65535" "ipv4_version d = Some 4" "ipv4_src_addr d = Some (ih_src_addr r)"
      "checksum_rx (caps_ipv4 caps) \<longrightarrow> ipv4_verify_checksum d = Some True"
proof (cases rule: ipv4_check_len_total [of d, case_names e g])
  case (e x)
  then show thesis by (intro err [of x]) (simp add: ipv4_parse_def)
next
  case (g hl tl)
  have "unat tl \<le> 65535" by (rule unat_u16_le)
  obtain p where p: "ipv4_payload d = Some p" "length p = unat tl - unat hl"
    using g by (auto simp: ipv4_payload_def slice_def)
  obtain b where b: "ipv4_verify_checksum d = Some b" using g by (auto simp: ipv4_verify_checksum_def slice_def)
  have f: "\<exists>x. ipv4_version d = Some x" "\<exists>x. ipv4_more_frags d = Some x" "\<exists>x. ipv4_frag_offset d = Some x"
    "\<exists>x. ipv4_src_addr d = Some x" "\<exists>x. ipv4_dst_addr d = Some x" "\<exists>x. ipv4_next_header d = Some x" "\<exists>x. ipv4_hop_limit d = Some x"
    using g(2) by (simp_all add: ipv4_fields get_u8_long get_u16_at get_u32_at)
  obtain v mf off src dst nh ttl where v: "ipv4_version d = Some v" "ipv4_more_frags d = Some mf" "ipv4_frag_offset d = Some off"
    "ipv4_src_addr d = Some src" "ipv4_dst_addr d = Some dst" "ipv4_next_header d = Some nh" "ipv4_hop_limit d = Some ttl"
    using f by blast
  let ?r = "\<lparr>ih_src_addr = src, ih_dst_addr = dst, ih_next_header = nh, ih_payload_len = unat tl - unat hl, ih_hop_limit = ttl\<rparr>"
  have e: "ipv4_parse frag caps d = Some (if v \<noteq> 4 \<or> checksum_rx (caps_ipv4 caps) \<and> \<not> b \<or> \<not> frag \<and> (mf \<or> off \<noteq> 0) then Inl WireError else Inr ?r)"
    using g v b by (auto simp: ipv4_parse_def)
  show thesis
  proof (cases "v \<noteq> 4 \<or> checksum_rx (caps_ipv4 caps) \<and> \<not> b \<or> \<not> frag \<and> (mf \<or> off \<noteq> 0)")
    case True
    then show thesis using e by (intro err [of WireError]) simp
  next
    case False
    then show thesis using e p g(5,6) b v \<open>unat tl \<le> 65535\<close> by (intro ok [of ?r p]) simp_all
  qed
qed

section \<open>Emitting\<close>

lemma byte_4_5: "(((b AND NOT 0xf0) OR 0x40) AND NOT 0x0f) OR 5 = (0x45 :: u8)"
proof (rule bit_word_eqI)
  fix n
  assume "n < LENGTH(8)"
  then have "n \<in> {0, 1, 2, 3, 4, 5, 6, 7}" by auto
  then show "bit ((((b AND NOT 0xf0) OR 0x40) AND NOT 0x0f) OR 5) n = bit (0x45 :: u8) n"
    by (elim insertE emptyE) (simp_all add: bit_simps)
qed

lemma byte_0_0: "((b AND NOT 0xfc) AND NOT 0x03) = (0 :: u8)"
proof (rule bit_word_eqI)
  fix n
  assume "n < LENGTH(8)"
  then have "n \<in> {0, 1, 2, 3, 4, 5, 6, 7}" by auto
  then show "bit ((b AND NOT 0xfc) AND NOT 0x03) n = bit (0 :: u8) n"
    by (elim insertE emptyE) (simp_all add: bit_simps)
qed

lemma flags_4000: "(((w AND NOT 0xe000) AND NOT 0x2000) OR 0x4000) AND 0xe000 = (0x4000 :: u16)"
proof (rule bit_word_eqI)
  fix n
  assume "n < LENGTH(16)"
  then have "n \<in> {0, 1, 2, 3, 4, 5, 6, 7, 8, 9, 10, 11, 12, 13, 14, 15}" by simp presburger
  then show "bit ((((w AND NOT 0xe000) AND NOT 0x2000) OR 0x4000) AND 0xe000) n = bit (0x4000 :: u16) n"
    by (elim insertE emptyE) (simp_all add: bit_simps)
qed

text \<open>The packet that \<open>emit\<close> leaves in the buffer, up to the checksum.\<close>

definition ipv4_octets :: "ipv4_address ip_header \<Rightarrow> u8 list \<Rightarrow> u8 list" where
  "ipv4_octets r buf = overwrite (overwrite (overwrite (overwrite (overwrite (overwrite (overwrite (overwrite (overwrite buf
     0 [0x45]) 1 [0]) 2 (be_bytes 2 (20 + of_nat (ih_payload_len r) :: u16))) 4 (be_bytes 2 (0 :: u16)))
     6 (be_bytes 2 (0x4000 :: u16))) 8 [ih_hop_limit r]) 9 [protocol_to_u8 (ih_next_header r)])
     12 (be_bytes 4 (ih_src_addr r))) 16 (be_bytes 4 (ih_dst_addr r))"

lemma get_u8_overwrite_0: "get_u8 (overwrite d 0 [v]) 0 = Some v"
  by (simp add: get_u8_def overwrite_def)

lemma put_u8_0: "d \<noteq> [] \<Longrightarrow> put_u8 d 0 v = Some (overwrite d 0 [v])"
  by (simp add: put_u8_def put_bytes_def Suc_le_eq)

lemma overwrite_twice_0: "d \<noteq> [] \<Longrightarrow> overwrite (overwrite d 0 [v]) 0 [w] = overwrite d 0 [w]"
  by (intro overwrite_twice) (simp_all add: Suc_le_eq)

lemma overwrite_not_Nil [simp]: "d \<noteq> [] \<Longrightarrow> overwrite d 0 [v] \<noteq> []"
  by (simp add: overwrite_def)

text \<open>The setters of one field, together.\<close>

lemma ipv4_set_byte_0:
  assumes "0 < length d"
  shows "Option.bind (ipv4_set_version 4 d) (\<lambda>d. Option.bind (ipv4_set_header_len 20 d) k) = k (overwrite d 0 [0x45])"
  using assms byte_4_5 [of "d ! 0", simplified]
  by (simp add: ipv4_setters get_u8_at put_u8_0 get_u8_overwrite_0 overwrite_twice_0)

lemma ipv4_set_byte_1:
  assumes "1 < length d"
  shows "Option.bind (ipv4_set_dscp 0 d) (\<lambda>d. Option.bind (ipv4_set_ecn 0 d) k) = k (overwrite d 1 [0])"
  using assms byte_0_0 [of "d ! 1", simplified]
  by (simp add: ipv4_setters get_u8_at put_at wire_simps nth_overwrite)

lemma ipv4_set_flags:
  assumes "8 \<le> length d"
  shows "Option.bind (ipv4_clear_flags d) (\<lambda>d. Option.bind (ipv4_set_more_frags False d) (\<lambda>d.
    Option.bind (ipv4_set_dont_frag True d) (\<lambda>d. Option.bind (ipv4_set_frag_offset 0 d) k))) = k (overwrite d 6 (be_bytes 2 (0x4000 :: u16)))"
proof -
  obtain w where w: "get_u16 d 6 = Some w" using assms by (simp add: get_u16_at)
  then show ?thesis using assms flags_4000 [of w, simplified]
    by (simp add: ipv4_setters put_at wire_simps)
qed

lemma ipv4_emit_octets:
  assumes "20 \<le> length buf"
  shows "ipv4_emit r caps buf = (if checksum_tx (caps_ipv4 caps) then ipv4_fill_checksum (ipv4_octets r buf)
    else ipv4_set_checksum 0 (ipv4_octets r buf))"
proof -
  have hl: "ipv4_get_header_len (overwrite (overwrite buf 0 [0x45]) 1 [0]) = Some 20"
    using assms by (simp add: ipv4_get_header_len_def wire_simps get_u8_overwrite_0)
  have "Option.bind (ipv4_set_version 4 buf) (\<lambda>d. Option.bind (ipv4_set_header_len 20 d) k) = k (overwrite buf 0 [0x45])" for k :: "u8 list \<Rightarrow> u8 list option"
    using assms by (intro ipv4_set_byte_0) linarith
  moreover have "Option.bind (ipv4_set_dscp 0 (overwrite buf 0 [0x45])) (\<lambda>d. Option.bind (ipv4_set_ecn 0 d) k)
      = k (overwrite (overwrite buf 0 [0x45]) 1 [0])" for k :: "u8 list \<Rightarrow> u8 list option"
    using assms by (intro ipv4_set_byte_1) simp
  ultimately show ?thesis
    using assms unfolding ipv4_emit_def
    by (simp add: hl [simplified] IPV4_HEADER_LEN_def ipv4_set_flags ipv4_set_total_len_def ipv4_set_ident_def ipv4_set_hop_limit_def
        ipv4_set_next_header_def ipv4_set_src_addr_def ipv4_set_dst_addr_def put_at ipv4_octets_def)
qed

section \<open>Checksum\<close>

lemma checksum_combine_0: "checksum_combine [0, checksum_data d] = checksum_data d"
proof -
  have "unat (checksum_combine [0, checksum_data d]) = unat (checksum_data d)"
    using unat_u16_le [of "checksum_data d"] by (simp add: unat_checksum_combine2 fold_carries_id)
  then show ?thesis by (simp only: unsigned_word_eqI)
qed

lemma take_overwrite_inside: "a + length ys \<le> n \<Longrightarrow> n \<le> length d \<Longrightarrow> take n (overwrite d a ys) = overwrite (take n d) a ys"
  by (auto simp: overwrite_def drop_take)

lemma ipv4_fill_checksum_ok:
  assumes "20 \<le> length d" and hl: "ipv4_get_header_len d = Some 20"
  obtains ck :: u16 where "ipv4_fill_checksum d = Some (overwrite d 10 (be_bytes 2 ck))"
    "checksum_data (take 20 (overwrite d 10 (be_bytes 2 ck))) = 0xffff"
proof -
  let ?z = "overwrite d 10 (be_bytes 2 (0 :: u16))"
  let ?ck = "NOT (checksum_data (take 20 ?z))"
  have "ipv4_get_header_len ?z = Some 20" using assms by (simp add: ipv4_get_header_len_def wire_simps)
  then have f: "ipv4_fill_checksum d = Some (overwrite d 10 (be_bytes 2 ?ck))"
    using assms(1) by (simp add: ipv4_fill_checksum_def ipv4_set_checksum_def put_at)
  have z: "overwrite (take 20 d) 10 [0, 0] = take 20 ?z"
    using assms(1) by (simp add: take_overwrite_inside be_bytes_2)
  have "?ck = NOT (checksum_combine [0, checksum_data (overwrite (take 20 d) 10 [0, 0])])"
    by (simp only: z checksum_combine_0)
  then have "checksum_combine [0, checksum_data (overwrite (take 20 d) 10 (be_bytes 2 ?ck))] = 0xffff"
    using assms(1) by (intro checksum_fill_valid [where ck = ?ck]) simp_all
  then have "checksum_data (take 20 (overwrite d 10 (be_bytes 2 ?ck))) = 0xffff"
    using assms(1) by (simp only: checksum_combine_0 take_overwrite_inside length_be_bytes)
  with f show thesis by (rule that)
qed

section \<open>Round trip\<close>

lemma ipv4_octets_fields:
  assumes "20 \<le> length buf"
  shows "length (ipv4_octets r buf) = length buf" and "drop 20 (ipv4_octets r buf) = drop 20 buf"
    and "ipv4_version (ipv4_octets r buf) = Some 4" and "ipv4_get_header_len (ipv4_octets r buf) = Some 20"
    and "ipv4_total_len (ipv4_octets r buf) = Some (20 + of_nat (ih_payload_len r))"
    and "ipv4_more_frags (ipv4_octets r buf) = Some False" and "ipv4_frag_offset (ipv4_octets r buf) = Some 0"
    and "ipv4_hop_limit (ipv4_octets r buf) = Some (ih_hop_limit r)"
    and "ipv4_next_header (ipv4_octets r buf) = Some (protocol_from_u8 (protocol_to_u8 (ih_next_header r)))"
    and "ipv4_src_addr (ipv4_octets r buf) = Some (ih_src_addr r)" and "ipv4_dst_addr (ipv4_octets r buf) = Some (ih_dst_addr r)"
  using assms by (simp_all add: ipv4_octets_def ipv4_fields wire_simps get_u8_overwrite_0 drop_overwrite_before)

text \<open>Representations that fit the format: the length field holds the packet, and the protocol has one number.\<close>

definition ipv4_fits :: "ipv4_address ip_header \<Rightarrow> bool" where
  "ipv4_fits r \<longleftrightarrow> ih_payload_len r \<le> 65515 \<and> protocol_from_u8 (protocol_to_u8 (ih_next_header r)) = ih_next_header r"

lemma ipv4_emit_ok:
  assumes len: "20 \<le> length buf"
  obtains ck :: u16 where "ipv4_emit r caps buf = Some (overwrite (ipv4_octets r buf) 10 (be_bytes 2 ck))"
    "checksum_tx (caps_ipv4 caps) \<Longrightarrow> checksum_data (take 20 (overwrite (ipv4_octets r buf) 10 (be_bytes 2 ck))) = 0xffff"
proof (cases "checksum_tx (caps_ipv4 caps)")
  case True
  obtain ck :: u16 where "ipv4_fill_checksum (ipv4_octets r buf) = Some (overwrite (ipv4_octets r buf) 10 (be_bytes 2 ck))"
    "checksum_data (take 20 (overwrite (ipv4_octets r buf) 10 (be_bytes 2 ck))) = 0xffff"
    by (rule ipv4_fill_checksum_ok [of "ipv4_octets r buf"]) (use len ipv4_octets_fields [OF len, of r] in simp_all)
  with True ipv4_emit_octets [OF len, of r caps] show thesis by (intro that) auto
next
  case False
  with ipv4_emit_octets [OF len, of r caps] ipv4_octets_fields(1) [OF len, of r] len show thesis
    by (intro that [of 0]) (simp_all add: ipv4_set_checksum_def put_at)
qed

lemma ipv4_parse_octets:
  fixes ck :: u16
  assumes len: "length buf = 20 + ih_payload_len r" and fits: "ipv4_fits r"
    and ck: "checksum_rx (caps_ipv4 caps) \<Longrightarrow> checksum_data (take 20 (overwrite (ipv4_octets r buf) 10 (be_bytes 2 ck))) = 0xffff"
  shows "ipv4_parse frag caps (overwrite (ipv4_octets r buf) 10 (be_bytes 2 ck)) = Some (Inr r)"
    and "ipv4_payload (overwrite (ipv4_octets r buf) 10 (be_bytes 2 ck)) = Some (drop 20 buf)"
proof -
  let ?d = "overwrite (ipv4_octets r buf) 10 (be_bytes 2 ck)"
  let ?tl = "20 + of_nat (ih_payload_len r) :: u16"
  have l: "20 \<le> length buf" using len by simp
  note f = ipv4_octets_fields [OF l, of r]
  have tl: "unat ?tl = 20 + ih_payload_len r"
    using unat_of_nat_u16 [of "20 + ih_payload_len r"] fits by (simp add: ipv4_fits_def)
  have d: "length ?d = length buf" "drop 20 ?d = drop 20 buf" "ipv4_version ?d = Some 4" "ipv4_get_header_len ?d = Some 20"
    "ipv4_total_len ?d = Some ?tl" "ipv4_more_frags ?d = Some False" "ipv4_frag_offset ?d = Some 0"
    "ipv4_hop_limit ?d = Some (ih_hop_limit r)" "ipv4_next_header ?d = Some (ih_next_header r)"
    "ipv4_src_addr ?d = Some (ih_src_addr r)" "ipv4_dst_addr ?d = Some (ih_dst_addr r)"
    using f l fits unfolding ipv4_fields by (simp_all add: wire_simps drop_overwrite_before ipv4_fits_def)
  have c: "ipv4_check_len ?d = Some (Inr ())"
    using d(1,4,5) len tl by (simp add: ipv4_check_len_def IPV4_HEADER_LEN_def word_less_nat_alt)
  have v: "checksum_rx (caps_ipv4 caps) \<Longrightarrow> ipv4_verify_checksum ?d = Some True"
    using d(1,4) l ck by (simp add: ipv4_verify_checksum_def)
  show "ipv4_parse frag caps ?d = Some (Inr r)"
    using c v d tl by (simp add: ipv4_parse_def)
  show "ipv4_payload ?d = Some (drop 20 buf)"
    using d(1,2,4,5) tl len by (simp add: ipv4_payload_def)
qed

section \<open>IPv4 as a wire format\<close>

text \<open>The environment says whether fragments are accepted and which checksums are computed: not the receiver's alone.\<close>

definition ipv4_env_ok :: "bool \<times> checksum_capabilities \<Rightarrow> bool" where
  "ipv4_env_ok e \<longleftrightarrow> (checksum_rx (caps_ipv4 (snd e)) \<longrightarrow> checksum_tx (caps_ipv4 (snd e)))"

interpretation ipv4_format: wire_format ipv4_env_ok "\<lambda>_. ipv4_fits" "\<lambda>r. 20 + ih_payload_len r"
  "\<lambda>e r. ipv4_emit r (snd e)" "\<lambda>e. ipv4_parse (fst e) (snd e)"
proof unfold_locales
  fix e and r :: "ipv4_address ip_header" and buf :: "u8 list"
  assume e: "ipv4_env_ok e" "ipv4_fits r" "length buf = 20 + ih_payload_len r"
  then have l: "20 \<le> length buf" by simp
  obtain ck :: u16 where ck: "ipv4_emit r (snd e) buf = Some (overwrite (ipv4_octets r buf) 10 (be_bytes 2 ck))"
    "checksum_tx (caps_ipv4 (snd e)) \<Longrightarrow> checksum_data (take 20 (overwrite (ipv4_octets r buf) 10 (be_bytes 2 ck))) = 0xffff"
    using ipv4_emit_ok [OF l, of r "snd e"] by metis
  have "ipv4_parse (fst e) (snd e) (overwrite (ipv4_octets r buf) 10 (be_bytes 2 ck)) = Some (Inr r)"
    using e ck(2) by (intro ipv4_parse_octets) (simp_all add: ipv4_env_ok_def)
  with ck(1) e(3) ipv4_octets_fields(1) [OF l, of r]
  show "\<exists>bs. ipv4_emit r (snd e) buf = Some bs \<and> length bs = 20 + ih_payload_len r \<and> ipv4_parse (fst e) (snd e) bs = Some (Inr r)"
    by simp
next
  fix e buf
  show "ipv4_parse (fst e) (snd e) buf \<noteq> None" by (cases rule: ipv4_parse_total [of "fst e" "snd e" buf]) auto
qed

section \<open>Properties\<close>

text \<open>
  C37: an IPv4 header that is emitted is parsed back unchanged, and the payload behind it is found. The
  packet fits its length field, the protocol is one that has no other name, and a receiver that checks
  the header checksum has a sender that fills it in; the buffer is as long as header and payload, and
  whatever was in its first twenty octets before is gone.
\<close>

theorem ipv4_round_trip:
  assumes "ih_payload_len r \<le> 65515" and "protocol_from_u8 (protocol_to_u8 (ih_next_header r)) = ih_next_header r"
    and "length buf = ipv4_buffer_len r + ih_payload_len r" and "checksum_rx (caps_ipv4 caps) \<longrightarrow> checksum_tx (caps_ipv4 caps)"
  shows "\<exists>bs. ipv4_emit r caps buf = Some bs \<and> length bs = length buf \<and> ipv4_parse frag caps bs = Some (Inr r) \<and>
    ipv4_payload bs = Some (drop 20 buf)"
proof -
  have fits: "ipv4_fits r" "length buf = 20 + ih_payload_len r" "20 \<le> length buf"
    using assms by (simp_all add: ipv4_fits_def ipv4_buffer_len_def IPV4_HEADER_LEN_def)
  obtain ck :: u16 where ck: "ipv4_emit r caps buf = Some (overwrite (ipv4_octets r buf) 10 (be_bytes 2 ck))"
    "checksum_tx (caps_ipv4 caps) \<Longrightarrow> checksum_data (take 20 (overwrite (ipv4_octets r buf) 10 (be_bytes 2 ck))) = 0xffff"
    using ipv4_emit_ok [OF fits(3), of r caps] by metis
  have v: "checksum_rx (caps_ipv4 caps) \<Longrightarrow> checksum_data (take 20 (overwrite (ipv4_octets r buf) 10 (be_bytes 2 ck))) = 0xffff"
    using ck(2) assms(4) by simp
  show ?thesis
    using ck(1) ipv4_parse_octets [OF fits(2,1) v] ipv4_octets_fields(1) [OF fits(3), of r] fits(3) by auto
qed

theorem ipv4_round_trip_witness:
  "\<exists>bs. ipv4_emit \<lparr>ih_src_addr = 0x0a000001, ih_dst_addr = 0x0a000002, ih_next_header = ProtoTcp, ih_payload_len = 3, ih_hop_limit = 64\<rparr>
      (caps_ignored\<lparr>caps_ipv4 := ChecksumBoth\<rparr>) (replicate 23 0xff) = Some bs \<and> length bs = 23 \<and>
    ipv4_parse False (caps_ignored\<lparr>caps_ipv4 := ChecksumBoth\<rparr>) bs = Some (Inr
      \<lparr>ih_src_addr = 0x0a000001, ih_dst_addr = 0x0a000002, ih_next_header = ProtoTcp, ih_payload_len = 3, ih_hop_limit = 64\<rparr>) \<and>
    ipv4_payload bs = Some [0xff, 0xff, 0xff]"
  using ipv4_round_trip [of "\<lparr>ih_src_addr = 0x0a000001, ih_dst_addr = 0x0a000002, ih_next_header = ProtoTcp, ih_payload_len = 3, ih_hop_limit = 64\<rparr>"
      "replicate 23 0xff" "caps_ignored\<lparr>caps_ipv4 := ChecksumBoth\<rparr>" False]
  by (simp add: protocol_from_u8_def ipv4_buffer_len_def IPV4_HEADER_LEN_def numeral_3_eq_3)

text \<open>
  Parsing an IPv4 packet is total. Whatever octets arrive, \<open>parse\<close> returns an error or a
  representation and never panics; a packet it accepts is of version 4, its header checksum has been
  verified where that is asked for, and its payload is inside the buffer and as long as the representation
  says.
\<close>

lemma ipv4_parse_safe:
  "\<exists>res. ipv4_parse frag caps d = Some res \<and>
    (case res of
       Inl e \<Rightarrow> True
     | Inr r \<Rightarrow> ipv4_version d = Some 4 \<and> (if checksum_rx (caps_ipv4 caps) then ipv4_verify_checksum d = Some True else True) \<and>
         (\<exists>p. ipv4_payload d = Some p \<and> length p = ih_payload_len r \<and> length p \<le> length d))"
proof (cases rule: ipv4_parse_total [of frag caps d, case_names e g])
  case (g r p)
  then show ?thesis by simp
qed simp

definition short_header_packet :: "u8 list" where
  "short_header_packet = [0x42, 0, 0, 20, 0xbd, 0xeb, 0, 0, 64, 6, 0, 0, 10, 0, 0, 1, 10, 0, 0, 2]"

text \<open>
  \<open>check_len\<close> does not ask that the header length field is at least five words. A packet whose
  header claims eight octets is accepted, checksum test included, and what \<open>parse\<close> reads as the addresses
  is at the same time handed to the upper layer as payload.
\<close>

lemma ipv4_short_header_accepted:
  "\<exists>d r. ipv4_parse False (caps_ignored\<lparr>caps_ipv4 := ChecksumBoth\<rparr>) d = Some (Inr r) \<and> ipv4_get_header_len d = Some 8 \<and>
    ipv4_payload d = Some (drop 8 (take 20 d))"
proof -
  have p: "ipv4_parse False (caps_ignored\<lparr>caps_ipv4 := ChecksumBoth\<rparr>) short_header_packet =
      Some (Inr \<lparr>ih_src_addr = 0x0a000001, ih_dst_addr = 0x0a000002, ih_next_header = ProtoTcp, ih_payload_len = 12, ih_hop_limit = 64\<rparr>)"
    by code_simp
  have q: "ipv4_get_header_len short_header_packet = Some 8"
    "ipv4_payload short_header_packet = Some (drop 8 (take 20 short_header_packet))" by code_simp+
  show ?thesis by (intro exI conjI) (rule p q)+
qed

end
