(* ===== verification/Icmpv4_Wire.thy ===== *)
theory Icmpv4_Wire
  imports Ipv4_Wire
begin

text \<open>
  \<open>src/smoltcp/src/wire/icmpv4.rs\<close>: ICMPv4 messages: the accessors of a packet buffer, and \<open>Repr::parse\<close> and \<open>Repr::emit\<close>
  with the echo messages and the two error messages that carry an IPv4 header.
\<close>

section \<open>Numbers\<close>

datatype icmpv4_message = IcmpEchoReply | IcmpDstUnreachable | IcmpRedirect | IcmpEchoRequest | IcmpRouterAdvert | IcmpRouterSolicit
  | IcmpTimeExceeded | IcmpParamProblem | IcmpTimestamp | IcmpTimestampReply | IcmpUnknown u8

definition icmpv4_message_from :: "u8 \<Rightarrow> icmpv4_message" where
  "icmpv4_message_from v =
     (if v = 0 then IcmpEchoReply else if v = 3 then IcmpDstUnreachable else if v = 5 then IcmpRedirect else if v = 8 then IcmpEchoRequest
      else if v = 9 then IcmpRouterAdvert else if v = 10 then IcmpRouterSolicit else if v = 11 then IcmpTimeExceeded
      else if v = 12 then IcmpParamProblem else if v = 13 then IcmpTimestamp else if v = 14 then IcmpTimestampReply else IcmpUnknown v)"

fun icmpv4_message_into :: "icmpv4_message \<Rightarrow> u8" where
  "icmpv4_message_into IcmpEchoReply = 0"
| "icmpv4_message_into IcmpDstUnreachable = 3"
| "icmpv4_message_into IcmpRedirect = 5"
| "icmpv4_message_into IcmpEchoRequest = 8"
| "icmpv4_message_into IcmpRouterAdvert = 9"
| "icmpv4_message_into IcmpRouterSolicit = 10"
| "icmpv4_message_into IcmpTimeExceeded = 11"
| "icmpv4_message_into IcmpParamProblem = 12"
| "icmpv4_message_into IcmpTimestamp = 13"
| "icmpv4_message_into IcmpTimestampReply = 14"
| "icmpv4_message_into (IcmpUnknown v) = v"

datatype dst_unreachable = NetUnreachable | HostUnreachable | ProtoUnreachable | PortUnreachable | FragRequired | SrcRouteFailed
  | DstNetUnknown | DstHostUnknown | SrcHostIsolated | NetProhibited | HostProhibited | NetUnreachToS | HostUnreachToS
  | CommProhibited | HostPrecedViol | PrecedCutoff | DstUnreachableUnknown u8

definition dst_unreachable_codes :: "dst_unreachable list" where
  "dst_unreachable_codes = [NetUnreachable, HostUnreachable, ProtoUnreachable, PortUnreachable, FragRequired, SrcRouteFailed,
     DstNetUnknown, DstHostUnknown, SrcHostIsolated, NetProhibited, HostProhibited, NetUnreachToS, HostUnreachToS, CommProhibited,
     HostPrecedViol, PrecedCutoff]"

text \<open>The codes from 0 to 15 are the constructors in their order.\<close>

definition dst_unreachable_from :: "u8 \<Rightarrow> dst_unreachable" where
  "dst_unreachable_from v = (if unat v < 16 then dst_unreachable_codes ! unat v else DstUnreachableUnknown v)"

fun dst_unreachable_into :: "dst_unreachable \<Rightarrow> u8" where
  "dst_unreachable_into NetUnreachable = 0"
| "dst_unreachable_into HostUnreachable = 1"
| "dst_unreachable_into ProtoUnreachable = 2"
| "dst_unreachable_into PortUnreachable = 3"
| "dst_unreachable_into FragRequired = 4"
| "dst_unreachable_into SrcRouteFailed = 5"
| "dst_unreachable_into DstNetUnknown = 6"
| "dst_unreachable_into DstHostUnknown = 7"
| "dst_unreachable_into SrcHostIsolated = 8"
| "dst_unreachable_into NetProhibited = 9"
| "dst_unreachable_into HostProhibited = 10"
| "dst_unreachable_into NetUnreachToS = 11"
| "dst_unreachable_into HostUnreachToS = 12"
| "dst_unreachable_into CommProhibited = 13"
| "dst_unreachable_into HostPrecedViol = 14"
| "dst_unreachable_into PrecedCutoff = 15"
| "dst_unreachable_into (DstUnreachableUnknown v) = v"

datatype time_exceeded = TtlExpired | FragExpired | TimeExceededUnknown u8

definition time_exceeded_from :: "u8 \<Rightarrow> time_exceeded" where
  "time_exceeded_from v = (if v = 0 then TtlExpired else if v = 1 then FragExpired else TimeExceededUnknown v)"

fun time_exceeded_into :: "time_exceeded \<Rightarrow> u8" where
  "time_exceeded_into TtlExpired = 0"
| "time_exceeded_into FragExpired = 1"
| "time_exceeded_into (TimeExceededUnknown v) = v"

section \<open>Packets\<close>

definition icmpv4_check_len :: "u8 list \<Rightarrow> wire_error + unit" where
  "icmpv4_check_len d = (if length d < 8 then Inl WireError else Inr ())"

definition icmpv4_new_checked :: "u8 list \<Rightarrow> wire_error + u8 list" where
  "icmpv4_new_checked d = (case icmpv4_check_len d of Inl e \<Rightarrow> Inl e | Inr _ \<Rightarrow> Inr d)"

definition icmpv4_msg_type :: "u8 list \<Rightarrow> icmpv4_message option" where "icmpv4_msg_type d = map_option icmpv4_message_from (get_u8 d 0)"

definition icmpv4_msg_code :: "u8 list \<Rightarrow> u8 option" where "icmpv4_msg_code d = get_u8 d 1"

definition icmpv4_checksum :: "u8 list \<Rightarrow> u16 option" where "icmpv4_checksum d = get_u16 d 2"

definition icmpv4_echo_ident :: "u8 list \<Rightarrow> u16 option" where "icmpv4_echo_ident d = get_u16 d 4"

definition icmpv4_echo_seq_no :: "u8 list \<Rightarrow> u16 option" where "icmpv4_echo_seq_no d = get_u16 d 6"

text \<open>All branches of the match have the same length.\<close>

definition icmpv4_header_len :: "u8 list \<Rightarrow> nat option" where
  "icmpv4_header_len d = do {
     ty \<leftarrow> icmpv4_msg_type d;
     Some (case ty of IcmpEchoRequest \<Rightarrow> 8 | IcmpEchoReply \<Rightarrow> 8 | IcmpDstUnreachable \<Rightarrow> 8 | _ \<Rightarrow> 8) }"

definition icmpv4_verify_checksum :: "u8 list \<Rightarrow> bool" where "icmpv4_verify_checksum d \<longleftrightarrow> checksum_data d = 0xffff"

definition icmpv4_data :: "u8 list \<Rightarrow> u8 list option" where
  "icmpv4_data d = do { hl \<leftarrow> icmpv4_header_len d; slice d hl (length d) }"

definition icmpv4_set_msg_type :: "icmpv4_message \<Rightarrow> u8 list \<Rightarrow> u8 list option" where "icmpv4_set_msg_type v d = put_u8 d 0 (icmpv4_message_into v)"

definition icmpv4_set_msg_code :: "u8 \<Rightarrow> u8 list \<Rightarrow> u8 list option" where "icmpv4_set_msg_code v d = put_u8 d 1 v"

definition icmpv4_set_checksum :: "u16 \<Rightarrow> u8 list \<Rightarrow> u8 list option" where "icmpv4_set_checksum v d = put_u16 d 2 v"

definition icmpv4_set_echo_ident :: "u16 \<Rightarrow> u8 list \<Rightarrow> u8 list option" where "icmpv4_set_echo_ident v d = put_u16 d 4 v"

definition icmpv4_set_echo_seq_no :: "u16 \<Rightarrow> u8 list \<Rightarrow> u8 list option" where "icmpv4_set_echo_seq_no v d = put_u16 d 6 v"

definition icmpv4_fill_checksum :: "u8 list \<Rightarrow> u8 list option" where
  "icmpv4_fill_checksum d = do {
     d \<leftarrow> icmpv4_set_checksum 0 d;
     icmpv4_set_checksum (NOT (checksum_data d)) d }"

text \<open>\<open>data_mut\<close> lends the octets behind the header: the borrower \<open>f\<close> replaces them, or panics.\<close>

definition icmpv4_data_mut :: "(u8 list \<Rightarrow> u8 list option) \<Rightarrow> u8 list \<Rightarrow> u8 list option" where
  "icmpv4_data_mut f d = do {
     hl \<leftarrow> icmpv4_header_len d;
     part \<leftarrow> slice d hl (length d);
     part \<leftarrow> f part;
     Some (overwrite d hl part) }"

section \<open>Representation\<close>

datatype icmpv4_repr =
    EchoRequest u16 u16 "u8 list"
  | EchoReply u16 u16 "u8 list"
  | DstUnreachable dst_unreachable "ipv4_address ip_header" "u8 list"
  | TimeExceeded time_exceeded "ipv4_address ip_header" "u8 list"

text \<open>The header and the data of an error message.\<close>

definition icmpv4_parse_error :: "u8 list \<Rightarrow> (wire_error + ipv4_address ip_header \<times> u8 list) option" where
  "icmpv4_parse_error d = do {
     part \<leftarrow> icmpv4_data d;
     res \<leftarrow> ipv4_new_checked part;
     case res of
       Inl e \<Rightarrow> Some (Inl e)
     | Inr ip_packet \<Rightarrow> do {
         hl \<leftarrow> ipv4_get_header_len ip_packet;
         p \<leftarrow> slice part (unat hl) (length part);
         if length p < 8 then Some (Inl WireError)
         else do {
           src \<leftarrow> ipv4_src_addr ip_packet;
           dst \<leftarrow> ipv4_dst_addr ip_packet;
           nh \<leftarrow> ipv4_next_header ip_packet;
           ttl \<leftarrow> ipv4_hop_limit ip_packet;
           Some (Inr (\<lparr>ih_src_addr = src, ih_dst_addr = dst, ih_next_header = nh, ih_payload_len = length p, ih_hop_limit = ttl\<rparr>, p)) } } }"

definition icmpv4_parse :: "checksum_capabilities \<Rightarrow> u8 list \<Rightarrow> (wire_error + icmpv4_repr) option" where
  "icmpv4_parse caps d =
     (case icmpv4_check_len d of
        Inl e \<Rightarrow> Some (Inl e)
      | Inr _ \<Rightarrow>
          if checksum_rx (caps_icmpv4 caps) \<and> \<not> icmpv4_verify_checksum d then Some (Inl WireError)
          else do {
            ty \<leftarrow> icmpv4_msg_type d;
            code \<leftarrow> icmpv4_msg_code d;
            if ty = IcmpEchoRequest \<and> code = 0 then do {
              ident \<leftarrow> icmpv4_echo_ident d;
              seq_no \<leftarrow> icmpv4_echo_seq_no d;
              data \<leftarrow> icmpv4_data d;
              Some (Inr (EchoRequest ident seq_no data)) }
            else if ty = IcmpEchoReply \<and> code = 0 then do {
              ident \<leftarrow> icmpv4_echo_ident d;
              seq_no \<leftarrow> icmpv4_echo_seq_no d;
              data \<leftarrow> icmpv4_data d;
              Some (Inr (EchoReply ident seq_no data)) }
            else if ty = IcmpDstUnreachable then do {
              res \<leftarrow> icmpv4_parse_error d;
              case res of Inl e \<Rightarrow> Some (Inl e) | Inr (header, data) \<Rightarrow> Some (Inr (DstUnreachable (dst_unreachable_from code) header data)) }
            else if ty = IcmpTimeExceeded then do {
              res \<leftarrow> icmpv4_parse_error d;
              case res of Inl e \<Rightarrow> Some (Inl e) | Inr (header, data) \<Rightarrow> Some (Inr (TimeExceeded (time_exceeded_from code) header data)) }
            else Some (Inl WireError) })"

fun icmpv4_buffer_len :: "icmpv4_repr \<Rightarrow> nat" where
  "icmpv4_buffer_len (EchoRequest _ _ data) = 8 + length data"
| "icmpv4_buffer_len (EchoReply _ _ data) = 8 + length data"
| "icmpv4_buffer_len (DstUnreachable _ header data) = 8 + ipv4_buffer_len header + length data"
| "icmpv4_buffer_len (TimeExceeded _ header data) = 8 + ipv4_buffer_len header + length data"

definition icmpv4_emit_echo :: "icmpv4_message \<Rightarrow> u16 \<Rightarrow> u16 \<Rightarrow> u8 list \<Rightarrow> u8 list \<Rightarrow> u8 list option" where
  "icmpv4_emit_echo ty ident seq_no data d = do {
     d \<leftarrow> icmpv4_set_msg_type ty d;
     d \<leftarrow> icmpv4_set_msg_code 0 d;
     d \<leftarrow> icmpv4_set_echo_ident ident d;
     d \<leftarrow> icmpv4_set_echo_seq_no seq_no d;
     icmpv4_data_mut (\<lambda>part. Some (overwrite part 0 (take (min (length part) (length data)) data))) d }"

text \<open>\<open>copy_from_slice\<close> panics unless the data fill the rest of the packet.\<close>

definition icmpv4_emit_error ::
  "icmpv4_message \<Rightarrow> u8 \<Rightarrow> ipv4_address ip_header \<Rightarrow> u8 list \<Rightarrow> checksum_capabilities \<Rightarrow> u8 list \<Rightarrow> u8 list option" where
  "icmpv4_emit_error ty code header data caps d = do {
     d \<leftarrow> icmpv4_set_msg_type ty d;
     d \<leftarrow> icmpv4_set_msg_code code d;
     icmpv4_data_mut (\<lambda>part. do {
       part \<leftarrow> ipv4_emit header caps part;
       p \<leftarrow> slice part (ipv4_buffer_len header) (length part);
       panic_unless (length p = length data);
       Some (overwrite part (ipv4_buffer_len header) data) }) d }"

definition icmpv4_emit :: "icmpv4_repr \<Rightarrow> checksum_capabilities \<Rightarrow> u8 list \<Rightarrow> u8 list option" where
  "icmpv4_emit r caps d = do {
     d \<leftarrow> icmpv4_set_msg_code 0 d;
     d \<leftarrow> (case r of
         EchoRequest ident seq_no data \<Rightarrow> icmpv4_emit_echo IcmpEchoRequest ident seq_no data d
       | EchoReply ident seq_no data \<Rightarrow> icmpv4_emit_echo IcmpEchoReply ident seq_no data d
       | DstUnreachable reason header data \<Rightarrow> icmpv4_emit_error IcmpDstUnreachable (dst_unreachable_into reason) header data caps d
       | TimeExceeded reason header data \<Rightarrow> icmpv4_emit_error IcmpTimeExceeded (time_exceeded_into reason) header data caps d);
     if checksum_tx (caps_icmpv4 caps) then icmpv4_fill_checksum d else icmpv4_set_checksum 0 d }"

lemmas icmpv4_fields = icmpv4_msg_type_def icmpv4_msg_code_def icmpv4_checksum_def icmpv4_echo_ident_def icmpv4_echo_seq_no_def
lemmas icmpv4_setters = icmpv4_set_msg_type_def icmpv4_set_msg_code_def icmpv4_set_checksum_def icmpv4_set_echo_ident_def icmpv4_set_echo_seq_no_def

section \<open>Parsing never panics\<close>

lemma icmpv4_header_len_8: "d \<noteq> [] \<Longrightarrow> icmpv4_header_len d = Some 8"
  by (simp add: icmpv4_header_len_def icmpv4_msg_type_def get_u8_def split: icmpv4_message.split)

lemma icmpv4_data_at: "8 \<le> length d \<Longrightarrow> icmpv4_data d = Some (drop 8 d)"
  using icmpv4_header_len_8 [of d] by (cases d) (simp_all add: icmpv4_data_def)

lemma icmpv4_parse_error_total:
  assumes "8 \<le> length d"
  shows "icmpv4_parse_error d \<noteq> None"
proof (cases rule: ipv4_check_len_total [of "drop 8 d", case_names e g])
  case (e x)
  then show ?thesis using assms by (simp add: icmpv4_parse_error_def icmpv4_data_at ipv4_new_checked_def)
next
  case (g hl tl)
  then have n: "ipv4_new_checked (drop 8 d) = Some (Inr (drop 8 d))" by (simp add: ipv4_new_checked_def)
  have "\<exists>x. ipv4_src_addr (drop 8 d) = Some x" "\<exists>x. ipv4_dst_addr (drop 8 d) = Some x" "\<exists>x. ipv4_next_header (drop 8 d) = Some x"
    "\<exists>x. ipv4_hop_limit (drop 8 d) = Some x"
    using g(2) by (simp_all add: ipv4_fields get_u8_long get_u16_at get_u32_at del: length_drop)
  then show ?thesis using assms n g(2,3,5,6) by (auto simp: icmpv4_parse_error_def icmpv4_data_at)
qed

lemma icmpv4_parse_total: "icmpv4_parse caps d \<noteq> None"
proof (cases "8 \<le> length d")
  case True
  have "d \<noteq> []" using True by auto
  then obtain ty code ident seq_no where f: "icmpv4_msg_type d = Some ty" "icmpv4_msg_code d = Some code"
    "icmpv4_echo_ident d = Some ident" "icmpv4_echo_seq_no d = Some seq_no"
    using True by (simp add: icmpv4_fields get_u8_at get_u16_at)
  obtain res where "icmpv4_parse_error d = Some res" using icmpv4_parse_error_total [OF True] by blast
  then show ?thesis using f True icmpv4_data_at [OF True]
    by (cases res) (auto simp: icmpv4_parse_def icmpv4_check_len_def)
qed (simp add: icmpv4_parse_def icmpv4_check_len_def)

section \<open>Round trip\<close>

lemma icmpv4_finish:
  assumes "8 \<le> length x" "length x \<le> 131072"
  obtains ck :: u16 where "(if tx then icmpv4_fill_checksum x else icmpv4_set_checksum 0 x) = Some (overwrite x 2 (be_bytes 2 ck))"
    "tx \<Longrightarrow> icmpv4_verify_checksum (overwrite x 2 (be_bytes 2 ck))"
proof (cases tx)
  case True
  let ?z = "overwrite x 2 (be_bytes 2 (0 :: u16))"
  let ?ck = "NOT (checksum_data ?z)"
  have z: "?z = overwrite x 2 [0, 0]" by (simp add: be_bytes_2)
  have "icmpv4_fill_checksum x = Some (overwrite x 2 (be_bytes 2 ?ck))"
    using assms(1) by (simp add: icmpv4_fill_checksum_def icmpv4_set_checksum_def put_at)
  moreover have "checksum_combine [0, checksum_data (overwrite x 2 (be_bytes 2 ?ck))] = 0xffff"
    using assms by (intro checksum_fill_valid [where ck = ?ck]) (simp_all add: z checksum_combine_0)
  ultimately show thesis using True by (intro that [of ?ck]) (simp_all add: icmpv4_verify_checksum_def checksum_combine_0)
next
  case False
  then show thesis using assms(1) by (intro that [of 0]) (simp_all add: icmpv4_set_checksum_def put_at)
qed

text \<open>What a message looks like before the checksum: its type, its code and what is behind the header.\<close>

definition icmpv4_message_at :: "icmpv4_message \<Rightarrow> u8 \<Rightarrow> u8 list \<Rightarrow> u8 list \<Rightarrow> bool" where
  "icmpv4_message_at ty code data x \<longleftrightarrow> 8 \<le> length x \<and> icmpv4_msg_type x = Some ty \<and> icmpv4_msg_code x = Some code \<and> drop 8 x = data"

lemma icmpv4_message_at_checksum:
  assumes "icmpv4_message_at ty code data x"
  shows "icmpv4_message_at ty code data (overwrite x 2 (be_bytes 2 (ck :: u16)))"
    "icmpv4_echo_ident (overwrite x 2 (be_bytes 2 ck)) = icmpv4_echo_ident x" "icmpv4_echo_seq_no (overwrite x 2 (be_bytes 2 ck)) = icmpv4_echo_seq_no x"
  using assms by (auto simp: icmpv4_message_at_def icmpv4_fields wire_simps drop_overwrite_before)

lemma icmpv4_message_inverse: "ty \<in> {IcmpEchoRequest, IcmpEchoReply, IcmpDstUnreachable, IcmpTimeExceeded} \<Longrightarrow> icmpv4_message_from (icmpv4_message_into ty) = ty"
  by (auto simp: icmpv4_message_from_def)

lemma overwrite_all: "length xs = length ys \<Longrightarrow> overwrite xs 0 ys = ys"
  by (simp add: overwrite_def)

lemma drop_overwrite_end: "length xs = n + length ys \<Longrightarrow> drop n (overwrite xs n ys) = ys"
  by (simp add: overwrite_def)

lemma icmpv4_data_mut_at:
  assumes "8 \<le> length h"
  shows "icmpv4_data_mut f h = Option.bind (f (drop 8 h)) (\<lambda>p. Some (overwrite h 8 p))"
proof -
  have "icmpv4_header_len h = Some 8" using assms by (intro icmpv4_header_len_8) auto
  then show ?thesis using assms by (simp add: icmpv4_data_mut_def)
qed

lemma icmpv4_emit_echo_ok:
  assumes len: "length d = 8 + length data" and ty: "ty \<in> {IcmpEchoRequest, IcmpEchoReply}"
  obtains x where "icmpv4_emit_echo ty ident seq_no data d = Some x" "icmpv4_message_at ty 0 data x" "length x = length d"
    "icmpv4_echo_ident x = Some ident" "icmpv4_echo_seq_no x = Some seq_no"
proof -
  define h where "h = overwrite (overwrite (overwrite (overwrite d 0 [icmpv4_message_into ty]) 1 [0]) 4 (be_bytes 2 ident)) 6 (be_bytes 2 seq_no)"
  have ne: "d \<noteq> []" using len by auto
  have l: "length h = 8 + length data" "8 \<le> length h" using len by (simp_all add: h_def)
  have "icmpv4_emit_echo ty ident seq_no data d = icmpv4_data_mut (\<lambda>part. Some (overwrite part 0 (take (min (length part) (length data)) data))) h"
    using len ne by (simp add: icmpv4_emit_echo_def icmpv4_setters put_at put_u8_0 h_def)
  also have "\<dots> = Some (overwrite h 8 data)" using l by (simp add: icmpv4_data_mut_at overwrite_all)
  finally have e: "icmpv4_emit_echo ty ident seq_no data d = Some (overwrite h 8 data)" .
  have m: "icmpv4_message_from (icmpv4_message_into ty) = ty" using ty by (intro icmpv4_message_inverse) auto
  have "icmpv4_msg_type h = Some ty" "icmpv4_msg_code h = Some 0" "icmpv4_echo_ident h = Some ident" "icmpv4_echo_seq_no h = Some seq_no"
    using len m by (simp_all add: h_def icmpv4_fields wire_simps get_u8_overwrite_0)
  then show thesis
    using l len by (intro that [OF e]) (simp_all add: icmpv4_message_at_def icmpv4_fields wire_simps drop_overwrite_end)
qed

text \<open>The embedded packet: a header, which fits its data, and the data.\<close>

lemma icmpv4_embedded:
  assumes len: "length part = 20 + length data" and fits: "ipv4_fits header" "ih_payload_len header = length data"
  obtains q where "(do { part \<leftarrow> ipv4_emit header caps part; p \<leftarrow> slice part (ipv4_buffer_len header) (length part);
       panic_unless (length p = length data); Some (overwrite part (ipv4_buffer_len header) data) }) = Some q"
    "length q = length part" "drop 20 q = data" "ipv4_check_len q = Some (Inr ())" "ipv4_get_header_len q = Some 20"
    "ipv4_src_addr q = Some (ih_src_addr header)" "ipv4_dst_addr q = Some (ih_dst_addr header)"
    "ipv4_next_header q = Some (ih_next_header header)" "ipv4_hop_limit q = Some (ih_hop_limit header)"
proof -
  have l: "20 \<le> length part" using len by simp
  obtain ck :: u16 where e: "ipv4_emit header caps part = Some (overwrite (ipv4_octets header part) 10 (be_bytes 2 ck))"
    using ipv4_emit_ok [OF l, of header caps] by metis
  define w where "w = overwrite (ipv4_octets header part) 10 (be_bytes 2 ck)"
  note f = ipv4_octets_fields [OF l, of header]
  have w: "length w = 20 + length data" "ipv4_get_header_len w = Some 20" "ipv4_total_len w = Some (20 + of_nat (length data))"
    "ipv4_src_addr w = Some (ih_src_addr header)" "ipv4_dst_addr w = Some (ih_dst_addr header)"
    "ipv4_next_header w = Some (ih_next_header header)" "ipv4_hop_limit w = Some (ih_hop_limit header)"
    using f l len fits unfolding w_def ipv4_fields by (simp_all add: wire_simps ipv4_fits_def)
  define q where "q = overwrite w 20 data"
  have q: "length q = length part" "drop 20 q = data" "ipv4_get_header_len q = Some 20" "ipv4_total_len q = Some (20 + of_nat (length data))"
    "ipv4_src_addr q = Some (ih_src_addr header)" "ipv4_dst_addr q = Some (ih_dst_addr header)"
    "ipv4_next_header q = Some (ih_next_header header)" "ipv4_hop_limit q = Some (ih_hop_limit header)"
    using w len unfolding q_def ipv4_fields by (simp_all add: wire_simps drop_overwrite_end)
  have tl: "unat (20 + of_nat (length data) :: u16) = 20 + length data"
    using unat_of_nat_u16 [of "20 + length data"] fits by (simp add: ipv4_fits_def)
  have "ipv4_check_len q = Some (Inr ())"
    using q(1,3,4) len tl by (simp add: ipv4_check_len_def IPV4_HEADER_LEN_def word_less_nat_alt)
  moreover have "(do { part \<leftarrow> ipv4_emit header caps part; p \<leftarrow> slice part (ipv4_buffer_len header) (length part);
       panic_unless (length p = length data); Some (overwrite part (ipv4_buffer_len header) data) }) = Some q"
    using e w(1) by (simp add: q_def ipv4_buffer_len_def IPV4_HEADER_LEN_def flip: w_def)
  ultimately show thesis using q by (intro that [of q]) simp_all
qed

lemma icmpv4_emit_error_ok:
  assumes len: "length d = 28 + length data" and ty: "ty \<in> {IcmpDstUnreachable, IcmpTimeExceeded}"
    and fits: "ipv4_fits header" "ih_payload_len header = length data" "8 \<le> length data"
  obtains x q where "icmpv4_emit_error ty code header data caps d = Some x" "icmpv4_message_at ty code q x" "length x = length d"
    "\<And>y. icmpv4_message_at ty code q y \<Longrightarrow> icmpv4_parse_error y = Some (Inr (header, data))"
proof -
  define h where "h = overwrite (overwrite d 0 [icmpv4_message_into ty]) 1 [code]"
  have ne: "d \<noteq> []" using len by auto
  have l: "length h = length d" "8 \<le> length h" using len by (simp_all add: h_def)
  have lp: "length (drop 8 h) = 20 + length data" using l len by simp
  obtain q where q: "(do { part \<leftarrow> ipv4_emit header caps (drop 8 h); p \<leftarrow> slice part (ipv4_buffer_len header) (length part);
       panic_unless (length p = length data); Some (overwrite part (ipv4_buffer_len header) data) }) = Some q"
    "length q = 20 + length data" "drop 20 q = data" "ipv4_check_len q = Some (Inr ())" "ipv4_get_header_len q = Some 20"
    "ipv4_src_addr q = Some (ih_src_addr header)" "ipv4_dst_addr q = Some (ih_dst_addr header)"
    "ipv4_next_header q = Some (ih_next_header header)" "ipv4_hop_limit q = Some (ih_hop_limit header)"
    using icmpv4_embedded [OF lp fits(1,2), of caps thesis] lp by (auto simp del: length_drop)
  have "icmpv4_emit_error ty code header data caps d = Some (overwrite h 8 q)"
  proof -
    have "icmpv4_set_msg_type ty d = Some (overwrite d 0 [icmpv4_message_into ty])"
      "icmpv4_set_msg_code code (overwrite d 0 [icmpv4_message_into ty]) = Some h"
      using len ne by (simp_all add: icmpv4_setters put_at put_u8_0 h_def)
    then show ?thesis unfolding icmpv4_emit_error_def by (simp only: bind.simps icmpv4_data_mut_at [OF l(2)] q(1))
  qed
  moreover have "icmpv4_msg_type h = Some ty" "icmpv4_msg_code h = Some code"
    using len ty icmpv4_message_inverse [of ty] by (auto simp: h_def icmpv4_fields wire_simps get_u8_overwrite_0)
  moreover from this have "icmpv4_message_at ty code q (overwrite h 8 q)"
    using l len q(2) by (simp add: icmpv4_message_at_def icmpv4_fields wire_simps drop_overwrite_end)
  moreover have "icmpv4_parse_error y = Some (Inr (header, data))" if y: "icmpv4_message_at ty code q y" for y
  proof -
    have "icmpv4_data y = Some q" using y by (simp add: icmpv4_data_at icmpv4_message_at_def)
    moreover have "slice q 20 (length q) = Some data" using q(2,3) by simp
    ultimately show ?thesis using q fits(2,3) by (simp add: icmpv4_parse_error_def ipv4_new_checked_def del: slice_Some)
  qed
  ultimately show thesis using l(1) q(2) len by (intro that [of "overwrite h 8 q" q]) simp_all
qed

lemma icmpv4_parse_message:
  assumes "icmpv4_parse_error y = Some (Inr (header, data))" "checksum_rx (caps_icmpv4 caps) \<Longrightarrow> icmpv4_verify_checksum y"
  shows "icmpv4_message_at IcmpDstUnreachable code q y \<Longrightarrow> icmpv4_parse caps y = Some (Inr (DstUnreachable (dst_unreachable_from code) header data))"
    and "icmpv4_message_at IcmpTimeExceeded code q y \<Longrightarrow> icmpv4_parse caps y = Some (Inr (TimeExceeded (time_exceeded_from code) header data))"
  using assms by (auto simp: icmpv4_parse_def icmpv4_check_len_def icmpv4_message_at_def)

text \<open>Messages that fit the format.\<close>

fun icmpv4_fits :: "icmpv4_repr \<Rightarrow> bool" where
  "icmpv4_fits (EchoRequest _ _ data) \<longleftrightarrow> length data \<le> 65515"
| "icmpv4_fits (EchoReply _ _ data) \<longleftrightarrow> length data \<le> 65515"
| "icmpv4_fits (DstUnreachable reason header data) \<longleftrightarrow> dst_unreachable_from (dst_unreachable_into reason) = reason \<and> ipv4_fits header \<and>
     ih_payload_len header = length data \<and> 8 \<le> length data"
| "icmpv4_fits (TimeExceeded reason header data) \<longleftrightarrow> time_exceeded_from (time_exceeded_into reason) = reason \<and> ipv4_fits header \<and>
     ih_payload_len header = length data \<and> 8 \<le> length data"

lemma icmpv4_fits_len: "icmpv4_fits r \<Longrightarrow> 8 \<le> icmpv4_buffer_len r \<and> icmpv4_buffer_len r \<le> 131072"
  by (cases r) (auto simp: ipv4_fits_def ipv4_buffer_len_def IPV4_HEADER_LEN_def)

text \<open>The message before the checksum, and that any message like it is parsed as \<open>r\<close>.\<close>

lemma icmpv4_emit_body:
  assumes len: "length buf = icmpv4_buffer_len r" and fits: "icmpv4_fits r"
  obtains x where "icmpv4_emit r caps buf = (if checksum_tx (caps_icmpv4 caps) then icmpv4_fill_checksum x else icmpv4_set_checksum 0 x)"
    "length x = length buf"
    "\<And>ck. (checksum_rx (caps_icmpv4 caps) \<Longrightarrow> icmpv4_verify_checksum (overwrite x 2 (be_bytes 2 (ck :: u16)))) \<Longrightarrow>
       icmpv4_parse caps (overwrite x 2 (be_bytes 2 ck)) = Some (Inr r)"
proof -
  let ?b = "overwrite buf 1 [0]"
  have l: "8 \<le> length buf" using icmpv4_fits_len [OF fits] len by simp
  then have b: "icmpv4_set_msg_code 0 buf = Some ?b" "length ?b = length buf" by (simp_all add: icmpv4_set_msg_code_def put_at)
  show thesis
  proof (cases r)
    case (EchoRequest ident seq_no data)
    then have "length ?b = 8 + length data" using b(2) len by simp
    from icmpv4_emit_echo_ok [OF this, of IcmpEchoRequest ident seq_no]
    obtain x where x: "icmpv4_emit_echo IcmpEchoRequest ident seq_no data ?b = Some x" "icmpv4_message_at IcmpEchoRequest 0 data x" "length x = length ?b"
      "icmpv4_echo_ident x = Some ident" "icmpv4_echo_seq_no x = Some seq_no" by auto
    show thesis
      using b x EchoRequest icmpv4_message_at_checksum [OF x(2)]
      by (intro that [of x]) (auto simp: icmpv4_emit_def icmpv4_parse_def icmpv4_check_len_def icmpv4_message_at_def icmpv4_data_at)
  next
    case (EchoReply ident seq_no data)
    then have "length ?b = 8 + length data" using b(2) len by simp
    from icmpv4_emit_echo_ok [OF this, of IcmpEchoReply ident seq_no]
    obtain x where x: "icmpv4_emit_echo IcmpEchoReply ident seq_no data ?b = Some x" "icmpv4_message_at IcmpEchoReply 0 data x" "length x = length ?b"
      "icmpv4_echo_ident x = Some ident" "icmpv4_echo_seq_no x = Some seq_no" by auto
    show thesis
      using b x EchoReply icmpv4_message_at_checksum [OF x(2)]
      by (intro that [of x]) (auto simp: icmpv4_emit_def icmpv4_parse_def icmpv4_check_len_def icmpv4_message_at_def icmpv4_data_at)
  next
    case (DstUnreachable reason header data)
    then have a: "length ?b = 28 + length data" "ipv4_fits header" "ih_payload_len header = length data" "8 \<le> length data"
      "dst_unreachable_from (dst_unreachable_into reason) = reason"
      using b(2) len fits by (simp_all add: ipv4_buffer_len_def IPV4_HEADER_LEN_def)
    obtain x q where x: "icmpv4_emit_error IcmpDstUnreachable (dst_unreachable_into reason) header data caps ?b = Some x"
      "icmpv4_message_at IcmpDstUnreachable (dst_unreachable_into reason) q x" "length x = length ?b"
      "\<And>y. icmpv4_message_at IcmpDstUnreachable (dst_unreachable_into reason) q y \<Longrightarrow> icmpv4_parse_error y = Some (Inr (header, data))"
      using icmpv4_emit_error_ok [OF a(1) _ a(2-4), of IcmpDstUnreachable "dst_unreachable_into reason" caps] by auto
    show thesis
    proof (rule that [of x])
      fix ck :: u16
      assume v: "checksum_rx (caps_icmpv4 caps) \<Longrightarrow> icmpv4_verify_checksum (overwrite x 2 (be_bytes 2 ck))"
      note m = icmpv4_message_at_checksum(1) [OF x(2), of ck]
      show "icmpv4_parse caps (overwrite x 2 (be_bytes 2 ck)) = Some (Inr r)"
        using icmpv4_parse_message(1) [OF x(4) [OF m] v m] a(5) DstUnreachable by simp
    qed (use b x(1,3) DstUnreachable in \<open>simp_all add: icmpv4_emit_def\<close>)
  next
    case (TimeExceeded reason header data)
    then have a: "length ?b = 28 + length data" "ipv4_fits header" "ih_payload_len header = length data" "8 \<le> length data"
      "time_exceeded_from (time_exceeded_into reason) = reason"
      using b(2) len fits by (simp_all add: ipv4_buffer_len_def IPV4_HEADER_LEN_def)
    obtain x q where x: "icmpv4_emit_error IcmpTimeExceeded (time_exceeded_into reason) header data caps ?b = Some x"
      "icmpv4_message_at IcmpTimeExceeded (time_exceeded_into reason) q x" "length x = length ?b"
      "\<And>y. icmpv4_message_at IcmpTimeExceeded (time_exceeded_into reason) q y \<Longrightarrow> icmpv4_parse_error y = Some (Inr (header, data))"
      using icmpv4_emit_error_ok [OF a(1) _ a(2-4), of IcmpTimeExceeded "time_exceeded_into reason" caps] by auto
    show thesis
    proof (rule that [of x])
      fix ck :: u16
      assume v: "checksum_rx (caps_icmpv4 caps) \<Longrightarrow> icmpv4_verify_checksum (overwrite x 2 (be_bytes 2 ck))"
      note m = icmpv4_message_at_checksum(1) [OF x(2), of ck]
      show "icmpv4_parse caps (overwrite x 2 (be_bytes 2 ck)) = Some (Inr r)"
        using icmpv4_parse_message(2) [OF x(4) [OF m] v m] a(5) TimeExceeded by simp
    qed (use b x(1,3) TimeExceeded in \<open>simp_all add: icmpv4_emit_def\<close>)
  qed
qed

section \<open>ICMPv4 as a wire format\<close>

definition icmpv4_env_ok :: "checksum_capabilities \<Rightarrow> bool" where
  "icmpv4_env_ok caps \<longleftrightarrow> (checksum_rx (caps_icmpv4 caps) \<longrightarrow> checksum_tx (caps_icmpv4 caps))"

interpretation icmpv4_format: wire_format icmpv4_env_ok "\<lambda>_. icmpv4_fits" icmpv4_buffer_len "\<lambda>caps r. icmpv4_emit r caps" icmpv4_parse
proof unfold_locales
  fix caps and r :: icmpv4_repr and buf :: "u8 list"
  assume a: "icmpv4_env_ok caps" "icmpv4_fits r" "length buf = icmpv4_buffer_len r"
  obtain x where x: "icmpv4_emit r caps buf = (if checksum_tx (caps_icmpv4 caps) then icmpv4_fill_checksum x else icmpv4_set_checksum 0 x)"
    "length x = length buf"
    "\<And>ck. (checksum_rx (caps_icmpv4 caps) \<Longrightarrow> icmpv4_verify_checksum (overwrite x 2 (be_bytes 2 (ck :: u16)))) \<Longrightarrow>
       icmpv4_parse caps (overwrite x 2 (be_bytes 2 ck)) = Some (Inr r)"
    using icmpv4_emit_body [OF a(3,2), of caps] by metis
  have l: "8 \<le> length x" "length x \<le> 131072" using icmpv4_fits_len [OF a(2)] x(2) a(3) by simp_all
  obtain ck :: u16 where ck: "icmpv4_emit r caps buf = Some (overwrite x 2 (be_bytes 2 ck))"
    "checksum_tx (caps_icmpv4 caps) \<Longrightarrow> icmpv4_verify_checksum (overwrite x 2 (be_bytes 2 ck))"
    using icmpv4_finish [OF l, of "checksum_tx (caps_icmpv4 caps)"] x(1) by metis
  have "icmpv4_parse caps (overwrite x 2 (be_bytes 2 ck)) = Some (Inr r)"
    by (rule x(3), rule ck(2)) (use a(1) in \<open>simp add: icmpv4_env_ok_def\<close>)
  then show "\<exists>bs. icmpv4_emit r caps buf = Some bs \<and> length bs = icmpv4_buffer_len r \<and> icmpv4_parse caps bs = Some (Inr r)"
    using ck(1) x(2) l(1) a(3) by simp
qed (rule icmpv4_parse_total)

section \<open>Properties\<close>

text \<open>
  C38: an ICMPv4 message that is emitted is parsed back unchanged: echo requests and replies with any data, and error
  messages with the header and data they carry (at least eight octets, all that the header announces), checksums
  included. A receiver that checks the checksum has a sender that fills it in; the buffer has the length of the
  message, and its old octets do not matter.
\<close>

theorem icmpv4_round_trip:
  assumes "icmpv4_fits r" and "length buf = icmpv4_buffer_len r" and "checksum_rx (caps_icmpv4 caps) \<longrightarrow> checksum_tx (caps_icmpv4 caps)"
  shows "\<exists>bs. icmpv4_emit r caps buf = Some bs \<and> length bs = length buf \<and> icmpv4_parse caps bs = Some (Inr r)"
  using icmpv4_format.emitted [of caps r buf] assms by (simp add: icmpv4_env_ok_def)

theorem icmpv4_round_trip_witness:
  "\<exists>bs. icmpv4_emit (DstUnreachable PortUnreachable \<lparr>ih_src_addr = 0x0a000001, ih_dst_addr = 0x0a000002, ih_next_header = ProtoUdp, ih_payload_len = 8,
      ih_hop_limit = 64\<rparr> [0x10, 0, 0, 53, 0, 8, 0, 0]) (caps_ignored\<lparr>caps_icmpv4 := ChecksumBoth\<rparr>) (replicate 36 0xff) = Some bs \<and> length bs = 36 \<and>
    icmpv4_parse (caps_ignored\<lparr>caps_icmpv4 := ChecksumBoth\<rparr>) bs = Some (Inr (DstUnreachable PortUnreachable \<lparr>ih_src_addr = 0x0a000001,
      ih_dst_addr = 0x0a000002, ih_next_header = ProtoUdp, ih_payload_len = 8, ih_hop_limit = 64\<rparr> [0x10, 0, 0, 53, 0, 8, 0, 0]))"
proof -
  have "icmpv4_fits (DstUnreachable PortUnreachable \<lparr>ih_src_addr = 0x0a000001, ih_dst_addr = 0x0a000002, ih_next_header = ProtoUdp, ih_payload_len = 8,
      ih_hop_limit = 64\<rparr> [0x10, 0, 0, 53, 0, 8, 0, 0])"
    by code_simp
  from icmpv4_round_trip [OF this, of "replicate 36 0xff" "caps_ignored\<lparr>caps_icmpv4 := ChecksumBoth\<rparr>"] show ?thesis
    by (simp add: ipv4_buffer_len_def IPV4_HEADER_LEN_def)
qed

text \<open>
  The parser of error messages rejects what RFC 792 prescribes. An error message returns the header of the
  datagram and the first eight octets behind it; but the embedded header must pass the length check of a whole
  packet. So a destination unreachable or time exceeded message whose embedded total length is that of the original
  datagram, and longer than the octets returned, is always an error.
\<close>

lemma icmpv4_truncated_error_rejected:
  assumes "icmpv4_msg_type d \<in> {Some IcmpDstUnreachable, Some IcmpTimeExceeded}" and "28 \<le> length d"
    and "ipv4_total_len (drop 8 d) = Some len" and "length d < 8 + unat len"
  shows "icmpv4_parse caps d = Some (Inl WireError)"
proof -
  have l: "8 \<le> length d" "20 \<le> length (drop 8 d)" using assms(2) by simp_all
  obtain hl where "ipv4_get_header_len (drop 8 d) = Some hl" using l(2) by (auto simp: ipv4_get_header_len_def get_u8_long simp del: length_drop)
  moreover have "length (drop 8 d) < unat len" using assms(4) l(1) by simp
  ultimately have "ipv4_check_len (drop 8 d) = Some (Inl WireError)"
    using assms(3) l(2) by (simp add: ipv4_check_len_def IPV4_HEADER_LEN_def del: length_drop)
  then have "icmpv4_parse_error d = Some (Inl WireError)" using l(1) by (simp add: icmpv4_parse_error_def icmpv4_data_at ipv4_new_checked_def)
  moreover obtain code where "icmpv4_msg_code d = Some code" using l(1) by (simp add: icmpv4_fields get_u8_at)
  ultimately show ?thesis using assms(1) l(1) by (auto simp: icmpv4_parse_def icmpv4_check_len_def)
qed

text \<open>A port unreachable message about a datagram of 60 octets, with its header and the first eight octets of its payload.\<close>

definition rfc792_error :: "u8 list" where
  "rfc792_error = [3, 3, 0, 0, 0, 0, 0, 0,
     0x45, 0, 0, 60, 0, 0, 0x40, 0, 64, 17, 0, 0, 10, 0, 0, 1, 10, 0, 0, 2,
     0x10, 0, 0, 53, 0, 40, 0, 0]"

lemma icmpv4_truncated_error_rejected_witness: "icmpv4_parse caps_ignored rfc792_error = Some (Inl WireError)"
proof (rule icmpv4_truncated_error_rejected)
  show "icmpv4_msg_type rfc792_error \<in> {Some IcmpDstUnreachable, Some IcmpTimeExceeded}" by code_simp
  show "28 \<le> length rfc792_error" by code_simp
  show "ipv4_total_len (drop 8 rfc792_error) = Some 60" by code_simp
  show "length rfc792_error < 8 + unat (60 :: u16)" by code_simp
qed

end
