(* ===== verification/Ip_Dispatch.thy ===== *)
theory Ip_Dispatch
  imports Fragmentation Ethernet_Wire Icmpv4_Wire Udp_Wire Tcp_Wire Routing
begin

text \<open>
  The way of an IPv4 packet from the interface to the device: \<open>src/smoltcp/src/iface/packet.rs\<close> (the payload of a
  packet), \<open>lookup_hardware_addr\<close> and \<open>dispatch_ip\<close> of \<open>src/smoltcp/src/iface/interface/mod.rs\<close>, \<open>dispatch_ethernet\<close> of
  \<open>ethernet.rs\<close>, and the fragmentation of \<open>ipv4.rs\<close>, with the fragmenter of \<open>src/smoltcp/src/iface/fragmentation.rs\<close>. The media are
  Ethernet and IP; the features are those of the default build with \<open>proto-ipv4-fragmentation\<close>.

  The device is a parameter: \<open>tx n\<close> is the buffer of \<open>n\<close> octets in which \<open>TxToken::consume\<close> lets a frame of this
  length be built. What is built in it is the frame that is sent.
\<close>

section \<open>Device capabilities\<close>

datatype medium = MediumEthernet | MediumIp

record device_capabilities =
  dc_medium :: medium
  max_transmission_unit :: nat
  max_burst_size :: "nat option"
  dc_checksum :: checksum_capabilities

definition dc_ip_mtu :: "device_capabilities \<Rightarrow> nat option" where
  "dc_ip_mtu caps =
     (case dc_medium caps of
        MediumEthernet \<Rightarrow> usize_sub (max_transmission_unit caps) ETH_HEADER_LEN
      | MediumIp \<Rightarrow> Some (max_transmission_unit caps))"

section \<open>Packets\<close>

datatype ip_payload = PlIcmpv4 icmpv4_repr | PlRaw "u8 list" | PlUdp udp_repr "u8 list" | PlTcp tcp_repr

record packet_v4 =
  p4_header :: "ipv4_address ip_header"
  p4_payload :: ip_payload

text \<open>The limit on the window that \<open>emit_payload\<close> puts on TCP segments.\<close>

definition burst_limit :: "device_capabilities \<Rightarrow> tcp_repr \<Rightarrow> tcp_repr option" where
  "burst_limit caps r =
     (case max_burst_size caps of
        None \<Rightarrow> Some r
      | Some burst \<Rightarrow> do {
          mss \<leftarrow> usize_sub (max_transmission_unit caps) IPV4_HEADER_LEN;
          mss \<leftarrow> usize_sub mss (tcp_header_len r);
          let max_window_size = burst * mss;
          Some (if unat (window_len r) > max_window_size then r\<lparr>window_len := of_nat max_window_size\<rparr> else r) })"

text \<open>
  \<open>copy_from_slice\<close> panics when the lengths differ: always for a raw payload that does not fill the buffer, and for
  a UDP payload that does not fit the length field of the header.
\<close>

definition emit_payload :: "device_capabilities \<Rightarrow> ipv4_address ip_header \<Rightarrow> ip_payload \<Rightarrow> u8 list \<Rightarrow> u8 list option" where
  "emit_payload caps ip pl buf =
     (case pl of
        PlIcmpv4 r \<Rightarrow> icmpv4_emit r (dc_checksum caps) buf
      | PlRaw raw \<Rightarrow> do { panic_unless (length buf = length raw); Some raw }
      | PlUdp r data \<Rightarrow> do {
          panic_unless (unat (of_nat (UDP_HEADER_LEN + length data) :: u16) = UDP_HEADER_LEN + length data);
          udp_emit r (Ipv4 (ih_src_addr ip)) (Ipv4 (ih_dst_addr ip)) (length data) (\<lambda>_. data) (dc_checksum caps) buf }
      | PlTcp r \<Rightarrow> do {
          r \<leftarrow> burst_limit caps r;
          tcp_emit r (Ipv4 (ih_src_addr ip)) (Ipv4 (ih_dst_addr ip)) (dc_checksum caps) buf })"

section \<open>The fragmenter\<close>

record fragmenter =
  fr_buffer :: "u8 list"
  fr_packet_len :: nat
  fr_sent_bytes :: nat
  fr_repr :: "ipv4_address ip_header"
  fr_dst_hardware_addr :: ethernet_address
  fr_frag_offset :: u16
  fr_ident :: u16

definition fr_no_repr :: "ipv4_address ip_header" where
  "fr_no_repr = \<lparr>ih_src_addr = 0, ih_dst_addr = 0, ih_next_header = UnknownProto 0, ih_payload_len = 0, ih_hop_limit = 0\<rparr>"

text \<open>\<open>n\<close> is \<open>FRAGMENTATION_BUFFER_SIZE\<close>.\<close>

definition fragmenter_new :: "nat \<Rightarrow> fragmenter" where
  "fragmenter_new n = \<lparr>fr_buffer = replicate n 0, fr_packet_len = 0, fr_sent_bytes = 0, fr_repr = fr_no_repr,
     fr_dst_hardware_addr = 0, fr_frag_offset = 0, fr_ident = 0\<rparr>"

definition fr_finished :: "fragmenter \<Rightarrow> bool" where "fr_finished f \<longleftrightarrow> fr_packet_len f = fr_sent_bytes f"

definition fr_is_empty :: "fragmenter \<Rightarrow> bool" where "fr_is_empty f \<longleftrightarrow> fr_packet_len f = 0"

definition fr_reset :: "fragmenter \<Rightarrow> fragmenter" where
  "fr_reset f = f\<lparr>fr_packet_len := 0, fr_sent_bytes := 0, fr_repr := fr_no_repr, fr_dst_hardware_addr := 0\<rparr>"

section \<open>The interface\<close>

text \<open>\<open>InterfaceInner\<close>, without the random numbers and the state of multicast groups. The neighbor cache has a map \<open>'m\<close>.\<close>

record 'm iface =
  if_caps :: device_capabilities
  if_now :: instant
  if_neighbor_cache :: "'m neighbor_cache"
  if_hardware_addr :: hardware_address
  if_ipv4_id :: u16
  if_ip_addrs :: "ip_cidr list"
  if_any_ip :: bool
  if_routes :: "route list"

definition next_ipv4_frag_ident :: "'m iface \<Rightarrow> u16 \<times> 'm iface" where
  "next_ipv4_frag_ident i = (if_ipv4_id i, i\<lparr>if_ipv4_id := if_ipv4_id i + 1\<rparr>)"

fun ethernet_or_panic :: "hardware_address \<Rightarrow> ethernet_address option" where
  "ethernet_or_panic (HwEthernet a) = Some a"
| "ethernet_or_panic _ = None"

text \<open>The frame that \<open>dispatch_ethernet\<close> sends: the closure \<open>f\<close> completes it.\<close>

definition dispatch_ethernet :: "(nat \<Rightarrow> u8 list) \<Rightarrow> 'm iface \<Rightarrow> nat \<Rightarrow> (u8 list \<Rightarrow> u8 list option) \<Rightarrow> u8 list option" where
  "dispatch_ethernet tx i buffer_len f = do {
     let tx_len = eth_buffer_len buffer_len;
     let frame = tx tx_len;
     panic_unless (length frame = tx_len);
     src_addr \<leftarrow> ethernet_or_panic (if_hardware_addr i);
     frame \<leftarrow> eth_set_src_addr src_addr frame;
     f frame }"

datatype dispatch_error = NoRoute | NeighborPending

text \<open>
  \<open>lookup_hardware_addr\<close> for an IPv4 destination on Ethernet. The result, the ARP request that was sent, if any,
  and the interface. Neighbor discovery is not modelled: an IPv6 router for an IPv4 destination, for which the code
  would send a neighbor solicitation, is outside of the model, as a panic is.
\<close>

definition lookup_hardware_addr_v4 ::
  "'m linear_map \<Rightarrow> (nat \<Rightarrow> u8 list) \<Rightarrow> ipv4_address \<Rightarrow> 'm iface \<Rightarrow>
   ((dispatch_error + ethernet_address) \<times> u8 list list \<times> 'm iface) option" where
  "lookup_hardware_addr_v4 ops tx dst i =
     (if is_broadcast (if_ip_addrs i) (Ipv4 dst) then Some (Inr eth_broadcast, [], i)
      else if addr_is_multicast (Ipv4 dst) then do {
        let b = be_bytes 4 dst;
        hw \<leftarrow> eth_from_bytes [0x01, 0x00, 0x5e, b ! 1 AND 0x7f, b ! 2, b ! 3];
        Some (Inr hw, [], i) }
      else do {
        next_hop \<leftarrow> iface_route (if_ip_addrs i) (if_routes i) (Ipv4 dst) (if_now i);
        case next_hop of
          None \<Rightarrow> Some (Inl NoRoute, [], i)
        | Some next_hop \<Rightarrow> do {
            ans \<leftarrow> cache_lookup ops next_hop (if_now i) (if_neighbor_cache i);
            case ans of
              Found (HwEthernet hw) \<Rightarrow> Some (Inr hw, [], i)
            | Found _ \<Rightarrow> None
            | RateLimited \<Rightarrow> Some (Inl NeighborPending, [], i)
            | NotFound \<Rightarrow>
                (case next_hop of
                   Ipv4 target \<Rightarrow> do {
                     src_hw \<leftarrow> ethernet_or_panic (if_hardware_addr i);
                     case get_source_address_ipv4 (if_ip_addrs i) of
                       None \<Rightarrow> Some (Inl NoRoute, [], i)
                     | Some src \<Rightarrow> do {
                         let r = \<lparr>arp_operation = ArpRequest, arp_source_hw = src_hw, arp_source_ip = src,
                                  arp_target_hw = eth_broadcast, arp_target_ip = target\<rparr>;
                         frame \<leftarrow> dispatch_ethernet tx i (arp_buffer_len r) (\<lambda>frame. do {
                           frame \<leftarrow> eth_set_dst_addr eth_broadcast frame;
                           frame \<leftarrow> eth_set_ethertype EtherArp frame;
                           eth_payload_mut (arp_emit r) frame });
                         Some (Inl NeighborPending, [frame],
                           i\<lparr>if_neighbor_cache := limit_rate (if_now i) (if_neighbor_cache i)\<rparr>) } }
                 | Ipv6 _ \<Rightarrow> None) } })"

text \<open>\<open>emit_ethernet\<close> of \<open>dispatch_ip\<close> and \<open>dispatch_ipv4_frag\<close>, for an IPv4 packet.\<close>

definition emit_ethernet_v4 :: "'m iface \<Rightarrow> ethernet_address \<Rightarrow> u8 list \<Rightarrow> u8 list option" where
  "emit_ethernet_v4 i dst_hw frame = do {
     src_addr \<leftarrow> ethernet_or_panic (if_hardware_addr i);
     frame \<leftarrow> eth_set_src_addr src_addr frame;
     frame \<leftarrow> eth_set_dst_addr dst_hw frame;
     eth_set_ethertype EtherIpv4 frame }"

text \<open>Build the frame: on Ethernet, its header first; then \<open>f\<close> writes the IP packet into the rest.\<close>

definition link_frame :: "(nat \<Rightarrow> u8 list) \<Rightarrow> 'm iface \<Rightarrow> ethernet_address \<Rightarrow> nat \<Rightarrow> (u8 list \<Rightarrow> u8 list option) \<Rightarrow> u8 list option" where
  "link_frame tx i dst_hw tx_len f =
     (case dc_medium (if_caps i) of
        MediumEthernet \<Rightarrow> do {
          frame \<leftarrow> emit_ethernet_v4 i dst_hw (tx tx_len);
          rest \<leftarrow> slice frame ETH_HEADER_LEN (length frame);
          rest \<leftarrow> f rest;
          Some (overwrite frame ETH_HEADER_LEN rest) }
      | MediumIp \<Rightarrow> f (tx tx_len))"

text \<open>\<open>emit_ip\<close>: header and payload.\<close>

definition emit_ip_v4 :: "device_capabilities \<Rightarrow> ipv4_address ip_header \<Rightarrow> ip_payload \<Rightarrow> u8 list \<Rightarrow> u8 list option" where
  "emit_ip_v4 caps repr pl buf = do {
     buf \<leftarrow> ipv4_emit repr (dc_checksum caps) buf;
     rest \<leftarrow> slice buf (ipv4_buffer_len repr) (length buf);
     rest \<leftarrow> emit_payload caps repr pl rest;
     Some (overwrite buf (ipv4_buffer_len repr) rest) }"

text \<open>The fields that make a header that of a fragment.\<close>

definition set_fragment_fields :: "checksum_capabilities \<Rightarrow> u16 \<Rightarrow> bool \<Rightarrow> u16 \<Rightarrow> u8 list \<Rightarrow> u8 list option" where
  "set_fragment_fields caps ident more_frags offset d = do {
     d \<leftarrow> ipv4_set_ident ident d;
     d \<leftarrow> ipv4_set_more_frags more_frags d;
     d \<leftarrow> ipv4_set_dont_frag False d;
     d \<leftarrow> ipv4_set_frag_offset offset d;
     if checksum_tx (caps_ipv4 caps) then ipv4_fill_checksum d else Some d }"

text \<open>The first fragment: the packet is built in the buffer of the fragmenter, and as much as fits is sent.\<close>

definition start_fragmentation ::
  "(nat \<Rightarrow> u8 list) \<Rightarrow> 'm iface \<Rightarrow> u16 \<Rightarrow> ethernet_address \<Rightarrow> packet_v4 \<Rightarrow> nat \<Rightarrow> fragmenter \<Rightarrow> (u8 list \<times> fragmenter) option" where
  "start_fragmentation tx i ipv4_id dst_hw p ip_mtu f = do {
     let repr = p4_header p;
     let total_ip_len = ipv4_buffer_len repr + ih_payload_len repr;
     payload_len \<leftarrow> usize_sub ip_mtu (ipv4_buffer_len repr);
     buffer \<leftarrow> emit_ip_v4 (if_caps i) (repr\<lparr>ih_payload_len := payload_len\<rparr>) (p4_payload p) (fr_buffer f);
     buffer \<leftarrow> set_fragment_fields (dc_checksum (if_caps i)) ipv4_id True 0 buffer;
     frame \<leftarrow> link_frame tx i dst_hw (max_transmission_unit (if_caps i)) (\<lambda>rest. do {
       part \<leftarrow> slice rest 0 ip_mtu;
       packet \<leftarrow> slice buffer 0 ip_mtu;
       Some (overwrite rest 0 packet) });
     Some (frame, f\<lparr>fr_buffer := buffer, fr_packet_len := total_ip_len, fr_sent_bytes := ip_mtu, fr_repr := repr,
       fr_dst_hardware_addr := dst_hw, fr_frag_offset := of_nat payload_len, fr_ident := ipv4_id\<rparr>) }"

text \<open>
  \<open>dispatch_ip\<close> for an IPv4 packet: the result, the frames that were sent, the interface and the fragmenter. A packet
  that does not fit the buffer of the fragmenter is dropped without an error.
\<close>

definition dispatch_ip_v4 ::
  "'m linear_map \<Rightarrow> (nat \<Rightarrow> u8 list) \<Rightarrow> packet_v4 \<Rightarrow> 'm iface \<Rightarrow> fragmenter \<Rightarrow>
   ((dispatch_error + unit) \<times> u8 list list \<times> 'm iface \<times> fragmenter) option" where
  "dispatch_ip_v4 ops tx p i f = do {
     panic_unless (\<not> addr_is_unspecified (Ipv4 (ih_dst_addr (p4_header p))));
     let (ipv4_id, i) = next_ipv4_frag_ident i;
     let total_ip_len = ipv4_buffer_len (p4_header p) + ih_payload_len (p4_header p);
     (hw, frames, i) \<leftarrow> (case dc_medium (if_caps i) of
         MediumEthernet \<Rightarrow> lookup_hardware_addr_v4 ops tx (ih_dst_addr (p4_header p)) i
       | MediumIp \<Rightarrow> Some (Inr 0, [], i));
     case hw of
       Inl e \<Rightarrow> Some (Inl e, frames, i, f)
     | Inr dst_hw \<Rightarrow> do {
         ip_mtu \<leftarrow> dc_ip_mtu (if_caps i);
         if ip_mtu < total_ip_len then
           if length (fr_buffer f) < total_ip_len then Some (Inr (), frames, i, f)
           else do {
             (frame, f) \<leftarrow> start_fragmentation tx i ipv4_id dst_hw p ip_mtu f;
             Some (Inr (), frames @ [frame], i, f) }
         else do {
           let total_len = (case dc_medium (if_caps i) of MediumEthernet \<Rightarrow> eth_buffer_len total_ip_len | MediumIp \<Rightarrow> total_ip_len);
           frame \<leftarrow> link_frame tx i dst_hw total_len (emit_ip_v4 (if_caps i) (p4_header p) (p4_payload p));
           Some (Inr (), frames @ [frame], i, f) } } }"

text \<open>The next fragment.\<close>

definition dispatch_ipv4_frag :: "(nat \<Rightarrow> u8 list) \<Rightarrow> 'm iface \<Rightarrow> fragmenter \<Rightarrow> (u8 list \<times> fragmenter) option" where
  "dispatch_ipv4_frag tx i f = do {
     let hlen = ipv4_buffer_len (fr_repr f);
     mtu_max \<leftarrow> dc_ip_mtu (if_caps i);
     left \<leftarrow> usize_sub (fr_packet_len f) (fr_sent_bytes f);
     let ip_len = min (left + hlen) mtu_max;
     payload_len \<leftarrow> usize_sub ip_len hlen;
     let more_frags = (left \<noteq> payload_len);
     let repr = (fr_repr f)\<lparr>ih_payload_len := payload_len\<rparr>;
     let tx_len = (case dc_medium (if_caps i) of MediumEthernet \<Rightarrow> ip_len + ETH_HEADER_LEN | MediumIp \<Rightarrow> ip_len);
     frame \<leftarrow> link_frame tx i (fr_dst_hardware_addr f) tx_len (\<lambda>rest. do {
       header \<leftarrow> slice rest 0 hlen;
       header \<leftarrow> ipv4_emit repr (dc_checksum (if_caps i)) header;
       header \<leftarrow> set_fragment_fields (dc_checksum (if_caps i)) (fr_ident f) more_frags (fr_frag_offset f) header;
       body \<leftarrow> slice rest hlen (hlen + payload_len);
       data \<leftarrow> slice (fr_buffer f) (unat (fr_frag_offset f) + hlen) (unat (fr_frag_offset f) + hlen + payload_len);
       Some (overwrite (overwrite rest 0 header) hlen data) });
     Some (frame, f\<lparr>fr_repr := repr, fr_sent_bytes := fr_sent_bytes f + payload_len,
       fr_frag_offset := fr_frag_offset f + of_nat payload_len\<rparr>) }"

text \<open>\<open>ipv4_egress\<close>, when the device has a token (\<open>token\<close>): at most one fragment is sent.\<close>

definition ipv4_egress :: "bool \<Rightarrow> (nat \<Rightarrow> u8 list) \<Rightarrow> 'm iface \<Rightarrow> fragmenter \<Rightarrow> (u8 list list \<times> fragmenter) option" where
  "ipv4_egress token tx i f = do {
     let f = (if fr_finished f then fr_reset f else f);
     if fr_is_empty f then Some ([], f)
     else if fr_sent_bytes f < fr_packet_len f \<and> token then do {
       (frame, f) \<leftarrow> dispatch_ipv4_frag tx i f;
       Some ([frame], f) }
     else Some ([], f) }"

section \<open>Reception of fragments\<close>

text \<open>The treatment of fragments in \<open>process_ipv4\<close>: the payload of a packet that is complete, if this one completes one.\<close>

definition ipv4_reassemble ::
  "bool \<Rightarrow> instant \<Rightarrow> u8 list \<Rightarrow> ipv4_key packet_assembler_set \<Rightarrow> (u8 list option \<times> ipv4_key packet_assembler_set) option" where
  "ipv4_reassemble alloc expires d slots = do {
     more_frags \<leftarrow> ipv4_more_frags d;
     offset \<leftarrow> ipv4_frag_offset d;
     if more_frags \<or> offset \<noteq> 0 then do {
       key \<leftarrow> ipv4_get_key d;
       total_len \<leftarrow> ipv4_total_len d;
       hlen \<leftarrow> ipv4_get_header_len d;
       left \<leftarrow> usize_sub (unat total_len) (unat hlen);
       p \<leftarrow> ipv4_payload d;
       pas_input alloc key expires (if more_frags then None else Some (left + unat offset)) p (unat offset) slots }
     else do {
       p \<leftarrow> ipv4_payload d;
       Some (Some p, slots) } }"

end
