(* ===== verification/Ip_Frag.thy ===== *)
theory Ip_Frag
  imports Ip_Dispatch
begin

text \<open>
  What \<open>Ip_Dispatch\<close> sends and what a receiver makes of it: the headers of fragments, the frames they are in, the
  state of the fragmenter between them, and the reassembly of the pieces. The properties are that fragments arrive,
  and three ways in which they do not.
\<close>

section \<open>Headers of fragments\<close>

text \<open>What \<open>emit\<close> writes into the first twenty octets, up to the checksum.\<close>

definition header_ok :: "ipv4_address ip_header \<Rightarrow> u8 list \<Rightarrow> bool" where
  "header_ok r x \<longleftrightarrow> 20 \<le> length x \<and> ipv4_version x = Some 4 \<and> ipv4_get_header_len x = Some 20 \<and>
     ipv4_total_len x = Some (20 + of_nat (ih_payload_len r)) \<and> ipv4_hop_limit x = Some (ih_hop_limit r) \<and>
     ipv4_next_header x = Some (protocol_from_u8 (protocol_to_u8 (ih_next_header r))) \<and>
     ipv4_src_addr x = Some (ih_src_addr r) \<and> ipv4_dst_addr x = Some (ih_dst_addr r)"

lemma header_ok_octets: "20 \<le> length d \<Longrightarrow> header_ok r (ipv4_octets r d)"
  using ipv4_octets_fields [of d r] by (simp add: header_ok_def)

lemma header_ok_overwrite:
  assumes "header_ok r x" "a + length ys \<le> length x" "4 \<le> a \<and> a + length ys \<le> 8 \<or> 10 \<le> a \<and> a + length ys \<le> 12 \<or> 20 \<le> a"
  shows "header_ok r (overwrite x a ys)"
  using assms unfolding header_ok_def ipv4_fields by (auto simp: wire_simps)

lemma get_append:
  "a < length xs \<Longrightarrow> get_u8 (xs @ ys) a = get_u8 xs a"
  "a + 2 \<le> length xs \<Longrightarrow> get_u16 (xs @ ys) a = get_u16 xs a"
  "a + 4 \<le> length xs \<Longrightarrow> get_u32 (xs @ ys) a = get_u32 xs a"
  by (simp_all add: get_u8_def get_u16_def get_u32_def slice_def nth_append)

lemma header_ok_append: "header_ok r h \<Longrightarrow> header_ok r (h @ ys)"
  unfolding header_ok_def ipv4_fields by (cases "h = []") (auto simp: get_append)

lemma header_ok_take: "header_ok r h \<Longrightarrow> 20 \<le> n \<Longrightarrow> n \<le> length h \<Longrightarrow> header_ok r (take n h)"
  using get_append [of _ "take n h" "drop n h"] unfolding header_ok_def ipv4_fields by (cases "take n h = []") auto

lemma emit_header_ok:
  assumes "20 \<le> length d"
  obtains x where "ipv4_emit r caps d = Some x" "header_ok r x" "length x = length d" "drop 20 x = drop 20 d" "get_u16 x 6 = Some 0x4000"
proof -
  obtain ck :: u16 where ck: "ipv4_emit r caps d = Some (overwrite (ipv4_octets r d) 10 (be_bytes 2 ck))"
    using ipv4_emit_ok [OF assms, of r caps] by metis
  have l: "length (ipv4_octets r d) = length d" using ipv4_octets_fields(1) [OF assms] .
  have "get_u16 (ipv4_octets r d) 6 = Some 0x4000" using assms by (simp add: ipv4_octets_def wire_simps)
  then have "get_u16 (overwrite (ipv4_octets r d) 10 (be_bytes 2 ck)) 6 = Some 0x4000" using assms l by (simp add: wire_simps)
  then show thesis
    using ck assms l ipv4_octets_fields(2) [OF assms, of r] header_ok_overwrite [OF header_ok_octets [OF assms], of 10 "be_bytes 2 ck" r]
    by (intro that) (simp_all add: drop_overwrite_before)
qed

definition flag_word :: "bool \<Rightarrow> u16 \<Rightarrow> u16" where
  "flag_word mf offset = ((if mf then 0x2000 else 0) OR drop_bit 3 offset)"

lemma flag_word_set:
  "((((if mf then 0x4000 OR 0x2000 else 0x4000 AND NOT 0x2000) AND NOT 0x4000) AND 0xe000) OR drop_bit 3 offset) = flag_word mf offset"
  by (simp add: flag_word_def)

lemma u16_bits: "n < LENGTH(16) \<Longrightarrow> n \<in> {0, 1, 2, 3, 4, 5, 6, 7, 8, 9, 10, 11, 12, 13, 14, 15 :: nat}"
  by simp presburger

lemma drop_bit_3_flags: "drop_bit 3 offset AND 0x2000 = (0 :: u16)"
proof (rule bit_word_eqI)
  fix n
  assume "n < LENGTH(16)"
  note u16_bits [OF this]
  moreover have "\<not> bit offset 16" using bit_imp_le_length [of offset 16] by auto
  ultimately show "bit (drop_bit 3 offset AND 0x2000) n = bit (0 :: u16) n"
    by (elim insertE emptyE) (simp_all add: bit_simps)
qed

lemma flag_word_more: "flag_word mf offset AND 0x2000 \<noteq> 0 \<longleftrightarrow> mf"
  by (simp add: flag_word_def bit.conj_disj_distrib2 drop_bit_3_flags)

lemma aligned_bits:
  assumes "8 dvd unat (w :: u16)" "n < 3"
  shows "\<not> bit w n"
proof -
  have "take_bit 3 (unat w) = 0" using assms(1) by (simp add: take_bit_eq_mod)
  then have "\<not> bit (take_bit 3 (unat w)) n" by simp
  then show ?thesis using assms(2) by (simp add: bit_take_bit_iff bit_unsigned_iff)
qed

lemma flag_word_offset:
  assumes "8 dvd unat offset"
  shows "push_bit 3 (flag_word mf offset) = offset"
proof (rule bit_word_eqI)
  fix n
  assume "n < LENGTH(16)"
  note u16_bits [OF this]
  then show "bit (push_bit 3 (flag_word mf offset)) n = bit offset n"
    using aligned_bits [OF assms, of 0] aligned_bits [OF assms, of 1] aligned_bits [OF assms, of 2]
    by (elim insertE emptyE) (simp_all add: flag_word_def bit_simps)
qed

text \<open>
  The packet \<open>q\<close> carries the octets \<open>piece\<close> of the datagram with the header \<open>r\<close>, from \<open>offset\<close> on: all that a
  receiver reads of it.
\<close>

definition frag_key :: "u16 \<Rightarrow> ipv4_address ip_header \<Rightarrow> ipv4_key" where
  "frag_key ident r = \<lparr>key_id = ident, key_src_addr = ih_src_addr r, key_dst_addr = ih_dst_addr r, key_protocol = ih_next_header r\<rparr>"

definition carries :: "checksum_capabilities \<Rightarrow> u16 \<Rightarrow> ipv4_address ip_header \<Rightarrow> bool \<Rightarrow> nat \<Rightarrow> u8 list \<Rightarrow> u8 list \<Rightarrow> bool" where
  "carries caps ident r mf offset piece q \<longleftrightarrow>
     ipv4_parse True caps q = Some (Inr (r\<lparr>ih_payload_len := length piece\<rparr>)) \<and> ipv4_more_frags q = Some mf \<and>
     ipv4_frag_offset q = Some (of_nat offset) \<and> ipv4_get_key q = Some (frag_key ident r) \<and> ipv4_payload q = Some piece \<and>
     ipv4_total_len q = Some (of_nat (20 + length piece)) \<and> ipv4_get_header_len q = Some 20"

lemma set_fragment_fields_ok:
  assumes x: "header_ok r x" "get_u16 x 6 = Some 0x4000"
  obtains h where "set_fragment_fields caps ident mf offset x = Some h" "header_ok r h" "length h = length x" "drop 20 h = drop 20 x"
    "ipv4_ident h = Some ident" "get_u16 h 6 = Some (flag_word mf offset)" "checksum_tx (caps_ipv4 caps) \<Longrightarrow> checksum_data (take 20 h) = 0xffff"
proof -
  let ?d = "overwrite (overwrite x 4 (be_bytes 2 ident)) 6 (be_bytes 2 (flag_word mf offset))"
  have l: "20 \<le> length x" using x(1) by (simp add: header_ok_def)
  have s: "set_fragment_fields caps ident mf offset x = (if checksum_tx (caps_ipv4 caps) then ipv4_fill_checksum ?d else Some ?d)"
    using l x(2) flag_word_set [of mf offset] unfolding set_fragment_fields_def
    by (cases mf) (simp_all add: ipv4_setters put_at wire_simps)
  have d: "header_ok r ?d" using l by (intro header_ok_overwrite [OF header_ok_overwrite [OF x(1)]]) simp_all
  have f: "length ?d = length x" "drop 20 ?d = drop 20 x" "ipv4_ident ?d = Some ident" "get_u16 ?d 6 = Some (flag_word mf offset)"
    using l by (simp_all add: drop_overwrite_before ipv4_ident_def wire_simps)
  show thesis
  proof (cases "checksum_tx (caps_ipv4 caps)")
    case True
    obtain ck :: u16 where ck: "ipv4_fill_checksum ?d = Some (overwrite ?d 10 (be_bytes 2 ck))"
      "checksum_data (take 20 (overwrite ?d 10 (be_bytes 2 ck))) = 0xffff"
      by (rule ipv4_fill_checksum_ok [of ?d]) (use d l in \<open>simp_all add: header_ok_def\<close>)
    have h: "header_ok r (overwrite ?d 10 (be_bytes 2 ck))" using l by (intro header_ok_overwrite [OF d]) simp_all
    show thesis
    proof (rule that [of "overwrite ?d 10 (be_bytes 2 ck)"])
      show "set_fragment_fields caps ident mf offset x = Some (overwrite ?d 10 (be_bytes 2 ck))" using s True ck(1) by simp
      show "ipv4_ident (overwrite ?d 10 (be_bytes 2 ck)) = Some ident" "get_u16 (overwrite ?d 10 (be_bytes 2 ck)) 6 = Some (flag_word mf offset)"
        using l f(3,4) unfolding ipv4_ident_def by (simp_all add: wire_simps)
    qed (use h ck(2) l f in \<open>simp_all add: drop_overwrite_before\<close>)
  next
    case False
    with s d f show thesis by (intro that [of ?d]) simp_all
  qed
qed

text \<open>A header with the fields of a fragment, and the piece behind it.\<close>

lemma carriesI:
  assumes h: "header_ok (r\<lparr>ih_payload_len := length piece\<rparr>) h" "ipv4_ident h = Some ident" "get_u16 h 6 = Some (flag_word mf (of_nat offset))"
    and ck: "checksum_rx (caps_ipv4 caps) \<Longrightarrow> checksum_data (take 20 h) = 0xffff"
    and p: "length h = 20 + length piece" "drop 20 h = piece" "length piece \<le> 65515"
    and nh: "protocol_from_u8 (protocol_to_u8 (ih_next_header r)) = ih_next_header r"
    and off: "8 dvd offset" "offset \<le> 65535"
  shows "carries caps ident r mf offset piece h"
proof -
  have u: "unat (of_nat offset :: u16) = offset" using off(2) by (rule unat_of_nat_u16)
  have mf: "ipv4_more_frags h = Some mf" "ipv4_frag_offset h = Some (of_nat offset)"
    using h(3) flag_word_more flag_word_offset [of "of_nat offset" mf] off(1) u by (auto simp: ipv4_more_frags_def ipv4_frag_offset_def)
  have tl: "unat (20 + of_nat (length piece) :: u16) = 20 + length piece"
    using unat_of_nat_u16 [of "20 + length piece"] p(3) by simp
  have f: "ipv4_version h = Some 4" "ipv4_get_header_len h = Some 20" "ipv4_total_len h = Some (20 + of_nat (length piece))"
    "ipv4_hop_limit h = Some (ih_hop_limit r)" "ipv4_next_header h = Some (ih_next_header r)"
    "ipv4_src_addr h = Some (ih_src_addr r)" "ipv4_dst_addr h = Some (ih_dst_addr r)"
    using h(1) nh by (simp_all add: header_ok_def)
  have c: "ipv4_check_len h = Some (Inr ())"
    using f(2,3) tl p(1) by (simp add: ipv4_check_len_def IPV4_HEADER_LEN_def word_less_nat_alt)
  have v: "checksum_rx (caps_ipv4 caps) \<Longrightarrow> ipv4_verify_checksum h = Some True"
    using ck f(2) p(1) by (simp add: ipv4_verify_checksum_def)
  have "ipv4_parse True caps h = Some (Inr (r\<lparr>ih_payload_len := length piece\<rparr>))"
    using c v f mf tl by (simp add: ipv4_parse_def)
  moreover have "ipv4_payload h = Some piece" using f(2,3) tl p(1,2) by (simp add: ipv4_payload_def)
  ultimately show ?thesis using mf f h(2) by (simp add: carries_def ipv4_get_key_def frag_key_def)
qed

section \<open>Frames\<close>

text \<open>The IP packet in a frame, and the length of the link header.\<close>

definition link_header_len :: "'m iface \<Rightarrow> nat" where
  "link_header_len i = (case dc_medium (if_caps i) of MediumEthernet \<Rightarrow> 14 | MediumIp \<Rightarrow> 0)"

definition ip_part :: "'m iface \<Rightarrow> u8 list \<Rightarrow> u8 list" where "ip_part i frame = drop (link_header_len i) frame"

text \<open>The interface has an address for its medium.\<close>

definition link_ok :: "'m iface \<Rightarrow> bool" where
  "link_ok i \<longleftrightarrow> (case dc_medium (if_caps i) of MediumEthernet \<Rightarrow> ethernet_or_panic (if_hardware_addr i) \<noteq> None | MediumIp \<Rightarrow> True)"

lemma emit_ethernet_v4_ok:
  assumes "14 \<le> length frame" "ethernet_or_panic (if_hardware_addr i) = Some a"
  obtains frame' where "emit_ethernet_v4 i hw frame = Some frame'" "length frame' = length frame" "drop 14 frame' = drop 14 frame"
  using assms
  by (intro that [of "overwrite (overwrite (overwrite frame 6 (be_bytes 6 a)) 0 (be_bytes 6 hw)) 12 (be_bytes 2 (0x0800 :: u16))"])
    (simp_all add: emit_ethernet_v4_def eth_setters put_eth_addr_at put_at drop_overwrite_before)

lemma link_frame_ok:
  assumes tx: "\<And>n. length (tx n) = n" and i: "link_ok i" and n: "tx_len = n + link_header_len i"
    and f: "\<And>rest. length rest = n \<Longrightarrow> \<exists>q. f rest = Some q \<and> length q = n \<and> Q q"
  obtains frame where "link_frame tx i hw tx_len f = Some frame" "length frame = tx_len" "Q (ip_part i frame)"
proof (cases "dc_medium (if_caps i)")
  case MediumEthernet
  then obtain a where a: "ethernet_or_panic (if_hardware_addr i) = Some a" using i by (auto simp: link_ok_def)
  have l: "length (tx tx_len) = n + 14" using tx n MediumEthernet by (simp add: link_header_len_def)
  then obtain frame where frame: "emit_ethernet_v4 i hw (tx tx_len) = Some frame" "length frame = n + 14"
    using emit_ethernet_v4_ok [OF _ a, of "tx tx_len" hw] by auto
  obtain q where q: "f (drop 14 frame) = Some q" "length q = n" "Q q" using f [of "drop 14 frame"] frame(2) by auto
  show thesis
    using frame q n MediumEthernet
    by (intro that [of "overwrite frame 14 q"])
      (simp_all add: link_frame_def ETH_HEADER_LEN_def link_header_len_def ip_part_def drop_overwrite_end)
next
  case MediumIp
  obtain q where q: "f (tx tx_len) = Some q" "length q = n" "Q q" using f [of "tx tx_len"] tx n MediumIp by (auto simp: link_header_len_def)
  then show thesis using n MediumIp by (intro that [of q]) (simp_all add: link_frame_def link_header_len_def ip_part_def)
qed

section \<open>Sending fragments\<close>

text \<open>
  The fragmenter holds the datagram \<open>P\<close> with the header \<open>r\<close>, of which \<open>off\<close> octets are sent.
\<close>

definition fr_state :: "u8 list \<Rightarrow> ipv4_address ip_header \<Rightarrow> u16 \<Rightarrow> nat \<Rightarrow> fragmenter \<Rightarrow> bool" where
  "fr_state P r ident off f \<longleftrightarrow> fr_packet_len f = 20 + length P \<and> fr_sent_bytes f = 20 + off \<and> off \<le> length P \<and>
     20 + length P \<le> length (fr_buffer f) \<and> take (length P) (drop 20 (fr_buffer f)) = P \<and>
     fr_frag_offset f = of_nat off \<and> fr_ident f = ident \<and> (\<forall>n. (fr_repr f)\<lparr>ih_payload_len := n\<rparr> = r\<lparr>ih_payload_len := n\<rparr>) \<and>
     (off < length P \<longrightarrow> 8 dvd off)"

lemma dispatch_ipv4_frag_ok:
  assumes tx: "\<And>n. length (tx n) = n" and i: "link_ok i" "dc_ip_mtu (if_caps i) = Some mtu" and mtu: "20 < mtu" "8 dvd mtu - 20"
    and caps: "checksum_rx (caps_ipv4 (dc_checksum (if_caps i))) \<longrightarrow> checksum_tx (caps_ipv4 (dc_checksum (if_caps i)))"
    and f: "fr_state P r ident off f" "off < length P" and P: "length P \<le> 65515"
    and nh: "protocol_from_u8 (protocol_to_u8 (ih_next_header r)) = ih_next_header r" and n: "n = min (length P - off) (mtu - 20)"
  obtains frame f' where "dispatch_ipv4_frag tx i f = Some (frame, f')"
    "carries (dc_checksum (if_caps i)) ident r (off + n \<noteq> length P) off (take n (drop off P)) (ip_part i frame)"
    "fr_state P r ident (off + n) f'"
proof -
  let ?caps = "dc_checksum (if_caps i)"
  let ?piece = "take n (drop off P)"
  have s: "fr_packet_len f = 20 + length P" "fr_sent_bytes f = 20 + off" "20 + length P \<le> length (fr_buffer f)"
    "take (length P) (drop 20 (fr_buffer f)) = P" "fr_frag_offset f = of_nat off" "fr_ident f = ident"
    "(fr_repr f)\<lparr>ih_payload_len := n\<rparr> = r\<lparr>ih_payload_len := n\<rparr>" "8 dvd off"
    using f by (simp_all add: fr_state_def)
  have u: "unat (of_nat off :: u16) = off" using f(2) P by (intro unat_of_nat_u16) simp
  have lp: "length ?piece = n" using n by simp
  have hl: "ipv4_buffer_len (fr_repr f) = 20" by (simp add: ipv4_buffer_len_def IPV4_HEADER_LEN_def)
  have len: "min (length P - off + 20) mtu = 20 + n" using n mtu by auto
  have data: "slice (fr_buffer f) (off + 20) (off + 20 + n) = Some ?piece"
  proof -
    have "?piece = take n (drop off (take (length P) (drop 20 (fr_buffer f))))" using s(4) by simp
    also have "\<dots> = take n (drop (off + 20) (fr_buffer f))" using n by (simp add: drop_take min_def add.commute)
    finally show ?thesis using s(3) f(2) n by simp
  qed
  define g where "g = (\<lambda>rest. do {
       header \<leftarrow> slice rest 0 20;
       header \<leftarrow> ipv4_emit (r\<lparr>ih_payload_len := n\<rparr>) ?caps header;
       header \<leftarrow> set_fragment_fields ?caps ident (length P - off \<noteq> n) (of_nat off) header;
       body \<leftarrow> slice rest 20 (20 + n);
       data \<leftarrow> slice (fr_buffer f) (off + 20) (off + 20 + n);
       Some (overwrite (overwrite rest 0 header) 20 data) })"
  have g: "\<exists>q. g rest = Some q \<and> length q = 20 + n \<and> carries ?caps ident r (off + n \<noteq> length P) off ?piece q" if rest: "length rest = 20 + n" for rest
  proof -
    obtain x where x: "ipv4_emit (r\<lparr>ih_payload_len := n\<rparr>) ?caps (take 20 rest) = Some x" "header_ok (r\<lparr>ih_payload_len := n\<rparr>) x" "length x = 20"
      "get_u16 x 6 = Some 0x4000"
      using emit_header_ok [of "take 20 rest" "r\<lparr>ih_payload_len := n\<rparr>" ?caps] rest by auto
    obtain h where h: "set_fragment_fields ?caps ident (length P - off \<noteq> n) (of_nat off) x = Some h" "header_ok (r\<lparr>ih_payload_len := n\<rparr>) h"
      "length h = 20" "ipv4_ident h = Some ident" "get_u16 h 6 = Some (flag_word (length P - off \<noteq> n) (of_nat off))"
      "checksum_tx (caps_ipv4 ?caps) \<Longrightarrow> checksum_data (take 20 h) = 0xffff"
      using set_fragment_fields_ok [OF x(2,4), of ?caps ident "length P - off \<noteq> n" "of_nat off"] x(3) by metis
    define q where "q = overwrite (overwrite rest 0 h) 20 ?piece"
    have q: "q = h @ ?piece" using h(3) rest lp by (simp add: q_def overwrite_def)
    have "g rest = Some q" using x(1) h(1) rest data by (simp add: g_def q_def del: slice_Some) (simp add: slice_def)
    moreover have "carries ?caps ident r (off + n \<noteq> length P) off ?piece q"
    proof (rule carriesI)
      have h20: "header_ok (r\<lparr>ih_payload_len := n\<rparr>) q" "ipv4_ident q = ipv4_ident h" "get_u16 q 6 = get_u16 h 6"
        using header_ok_append [OF h(2)] h(3) by (simp_all add: q ipv4_ident_def get_append)
      show "header_ok (r\<lparr>ih_payload_len := length ?piece\<rparr>) q" using h20 lp by simp
      show "ipv4_ident q = Some ident" using h20 h(4) by simp
      have "(length P - off \<noteq> n) = (off + n \<noteq> length P)" using f(2) n by auto
      then show "get_u16 q 6 = Some (flag_word (off + n \<noteq> length P) (of_nat off))" using h20 h(5) by simp
      show "checksum_data (take 20 q) = 0xffff" if "checksum_rx (caps_ipv4 ?caps)" using that caps h(3,6) by (simp add: q)
      show "length q = 20 + length ?piece" "drop 20 q = ?piece" "length ?piece \<le> 65515" using q h(3) lp n P by simp_all
      show "off \<le> 65535" using f(2) P by simp
    qed (use nh s(8) in simp_all)
    ultimately show ?thesis using q h(3) lp by auto
  qed
  obtain frame where frame: "link_frame tx i (fr_dst_hardware_addr f) (20 + n + link_header_len i) g = Some frame"
    "carries ?caps ident r (off + n \<noteq> length P) off ?piece (ip_part i frame)"
    by (rule link_frame_ok [where tx = tx and i = i and n = "20 + n" and f = g and hw = "fr_dst_hardware_addr f"
        and Q = "carries ?caps ident r (off + n \<noteq> length P) off ?piece", OF tx i(1) refl g])
  have "dispatch_ipv4_frag tx i f = Some (frame, f\<lparr>fr_repr := r\<lparr>ih_payload_len := n\<rparr>, fr_sent_bytes := 20 + off + n, fr_frag_offset := of_nat (off + n)\<rparr>)"
  proof -
    have ms: "(case dc_medium (if_caps i) of MediumEthernet \<Rightarrow> 20 + n + ETH_HEADER_LEN | MediumIp \<Rightarrow> 20 + n) = 20 + n + link_header_len i"
      by (simp add: link_header_len_def ETH_HEADER_LEN_def split: medium.split)
    have left: "usize_sub (fr_packet_len f) (fr_sent_bytes f) = Some (length P - off)" using s(1,2) f(2) by simp
    have pl: "usize_sub (20 + n) 20 = Some n" by simp
    show ?thesis
      unfolding dispatch_ipv4_frag_def Let_def hl i(2) left bind.simps len pl
      unfolding s(2,5-7) u ms g_def [symmetric] frame(1) by simp
  qed
  moreover have "fr_state P r ident (off + n) (f\<lparr>fr_repr := r\<lparr>ih_payload_len := n\<rparr>, fr_sent_bytes := 20 + off + n, fr_frag_offset := of_nat (off + n)\<rparr>)"
  proof -
    have "8 dvd off + n" if "off + n < length P"
    proof -
      have "n = mtu - 20" using that n by auto
      then show ?thesis using mtu(2) s(8) by (simp add: dvd_add)
    qed
    moreover have "off + n \<le> length P" using n f(2) by auto
    ultimately show ?thesis using f(1) by (simp add: fr_state_def)
  qed
  ultimately show thesis using frame(2) by (intro that)
qed

text \<open>Packets that carry the pieces of a datagram one after the other.\<close>

fun carry_all :: "checksum_capabilities \<Rightarrow> u16 \<Rightarrow> ipv4_address ip_header \<Rightarrow> nat \<Rightarrow> u8 list list \<Rightarrow> u8 list list \<Rightarrow> bool" where
  "carry_all caps ident r off [] [] = True"
| "carry_all caps ident r off (p # ps) (q # qs) \<longleftrightarrow> carries caps ident r (ps \<noteq> []) off p q \<and> carry_all caps ident r (off + length p) ps qs"
| "carry_all caps ident r off _ _ = False"

text \<open>\<open>ipv4_egress\<close>, once in each of \<open>k\<close> polls.\<close>

fun egress_run :: "nat \<Rightarrow> (nat \<Rightarrow> u8 list) \<Rightarrow> 'm iface \<Rightarrow> fragmenter \<Rightarrow> (u8 list list \<times> fragmenter) option" where
  "egress_run 0 tx i f = Some ([], f)"
| "egress_run (Suc k) tx i f = do {
     (fs, f) \<leftarrow> ipv4_egress True tx i f;
     (fs', f) \<leftarrow> egress_run k tx i f;
     Some (fs @ fs', f) }"

lemma egress_run_ok:
  assumes tx: "\<And>n. length (tx n) = n" and i: "link_ok i" "dc_ip_mtu (if_caps i) = Some mtu" and mtu: "20 < mtu" "8 dvd mtu - 20"
    and caps: "checksum_rx (caps_ipv4 (dc_checksum (if_caps i))) \<longrightarrow> checksum_tx (caps_ipv4 (dc_checksum (if_caps i)))"
    and P: "length P \<le> 65515" and nh: "protocol_from_u8 (protocol_to_u8 (ih_next_header r)) = ih_next_header r"
    and f: "fr_state P r ident off f" "off < length P"
  shows "\<exists>k frames pieces f'. egress_run k tx i f = Some (frames, f') \<and> fr_finished f' \<and> pieces \<noteq> [] \<and> [] \<notin> set pieces \<and> concat pieces = drop off P \<and>
    carry_all (dc_checksum (if_caps i)) ident r off pieces (map (ip_part i) frames)"
  using f
proof (induction "length P - off" arbitrary: off f rule: less_induct)
  case less
  define n where "n = min (length P - off) (mtu - 20)"
  have n: "0 < n" "off + n \<le> length P" using less.prems(2) mtu by (auto simp: n_def)
  obtain frame f1 where d: "dispatch_ipv4_frag tx i f = Some (frame, f1)"
    "carries (dc_checksum (if_caps i)) ident r (off + n \<noteq> length P) off (take n (drop off P)) (ip_part i frame)" "fr_state P r ident (off + n) f1"
    using dispatch_ipv4_frag_ok [OF tx i mtu caps less.prems P nh n_def] .
  have e: "ipv4_egress True tx i f = Some ([frame], f1)"
    using less.prems d(1) by (simp add: ipv4_egress_def fr_state_def fr_finished_def fr_is_empty_def)
  show ?case
  proof (cases "off + n = length P")
    case True
    then have "fr_finished f1" using d(3) by (simp add: fr_state_def fr_finished_def)
    moreover have "take n (drop off P) = drop off P" using True by simp
    moreover have "drop off P \<noteq> []" using less.prems(2) by simp
    ultimately show ?thesis using e d(2) True
      by (intro exI [of _ "Suc 0"] exI [of _ "[frame]"] exI [of _ "[drop off P]"] exI [of _ f1]) simp
  next
    case False
    have "length P - (off + n) < length P - off" "off + n < length P" using n False less.prems(2) by auto
    from less.hyps [OF this(1) d(3) this(2)] obtain k frames pieces f' where r: "egress_run k tx i f1 = Some (frames, f')" "fr_finished f'" "pieces \<noteq> []" "[] \<notin> set pieces"
      "concat pieces = drop (off + n) P" "carry_all (dc_checksum (if_caps i)) ident r (off + n) pieces (map (ip_part i) frames)" by blast
    have "concat (take n (drop off P) # pieces) = drop off P" using r(5) by (simp add: add.commute flip: drop_drop)
    moreover have "take n (drop off P) \<noteq> []" using n less.prems(2) by simp
    ultimately show ?thesis using e r d(2) False n
      by (intro exI [of _ "Suc k"] exI [of _ "frame # frames"] exI [of _ "take n (drop off P) # pieces"] exI [of _ f']) simp
  qed
qed

lemma dc_ip_mtu_len:
  assumes "dc_ip_mtu (if_caps i) = Some mtu"
  shows "max_transmission_unit (if_caps i) = mtu + link_header_len i"
  using assms by (auto simp: dc_ip_mtu_def link_header_len_def usize_sub_eq_Some ETH_HEADER_LEN_def split: medium.splits)

lemma start_fragmentation_ok:
  assumes tx: "\<And>n. length (tx n) = n" and i: "link_ok i" "dc_ip_mtu (if_caps i) = Some mtu" and mtu: "20 < mtu" "8 dvd mtu - 20"
    and caps: "checksum_rx (caps_ipv4 (dc_checksum (if_caps i))) \<longrightarrow> checksum_tx (caps_ipv4 (dc_checksum (if_caps i)))"
    and r: "r = p4_header p" and nh: "protocol_from_u8 (protocol_to_u8 (ih_next_header r)) = ih_next_header r"
    and len: "mtu < 20 + ih_payload_len r" "20 + ih_payload_len r \<le> length (fr_buffer f)" "ih_payload_len r \<le> 65515"
    and e: "emit_payload (if_caps i) (r\<lparr>ih_payload_len := mtu - 20\<rparr>) (p4_payload p) (drop 20 (fr_buffer f)) = Some e" "length e = length (fr_buffer f) - 20"
    and P: "P = take (ih_payload_len r) e"
  obtains frame f' where "start_fragmentation tx i ident hw p mtu f = Some (frame, f')"
    "carries (dc_checksum (if_caps i)) ident r True 0 (take (mtu - 20) P) (ip_part i frame)" "fr_state P r ident (mtu - 20) f'"
proof -
  let ?caps = "dc_checksum (if_caps i)"
  let ?r = "r\<lparr>ih_payload_len := mtu - 20\<rparr>"
  have l: "20 \<le> length (fr_buffer f)" using len by simp
  have hl: "ipv4_buffer_len x = 20" for x by (simp add: ipv4_buffer_len_def IPV4_HEADER_LEN_def)
  have lP: "length P = ih_payload_len r" using P len(2) e(2) by simp
  obtain x where x: "ipv4_emit ?r ?caps (fr_buffer f) = Some x" "header_ok ?r x" "length x = length (fr_buffer f)" "drop 20 x = drop 20 (fr_buffer f)"
    "get_u16 x 6 = Some 0x4000"
    by (rule emit_header_ok [OF l, of ?r ?caps])
  define y where "y = overwrite x 20 e"
  have emit: "emit_ip_v4 (if_caps i) ?r (p4_payload p) (fr_buffer f) = Some y"
    using x l e(1) by (simp add: emit_ip_v4_def hl y_def)
  have y: "header_ok ?r y" "get_u16 y 6 = Some 0x4000" "length y = length (fr_buffer f)" "drop 20 y = e"
    using x l e(2) header_ok_overwrite [OF x(2), of 20 e] by (simp_all add: y_def wire_simps drop_overwrite_end)
  obtain h where h: "set_fragment_fields ?caps ident True 0 y = Some h" "header_ok ?r h" "length h = length y" "drop 20 h = drop 20 y"
    "ipv4_ident h = Some ident" "get_u16 h 6 = Some (flag_word True 0)" "checksum_tx (caps_ipv4 ?caps) \<Longrightarrow> checksum_data (take 20 h) = 0xffff"
    using set_fragment_fields_ok [OF y(1,2), of ?caps ident True 0] by metis
  have lh: "mtu \<le> length h" using h(3) y(3) len by simp
  have piece: "drop 20 (take mtu h) = take (mtu - 20) P"
    using h(4) y(4) P len(1) mtu(1) by (simp add: drop_take)
  have c: "carries ?caps ident r True 0 (take (mtu - 20) P) (take mtu h)"
  proof (rule carriesI)
    have lp: "length (take (mtu - 20) P) = mtu - 20" using lP len(1) by simp
    show "header_ok (r\<lparr>ih_payload_len := length (take (mtu - 20) P)\<rparr>) (take mtu h)" unfolding lp using h(2) lh mtu by (intro header_ok_take) simp_all
    show "ipv4_ident (take mtu h) = Some ident" "get_u16 (take mtu h) 6 = Some (flag_word True (of_nat 0))"
      using h(5,6) lh mtu get_append(2) [of _ "take mtu h" "drop mtu h"] by (simp_all add: ipv4_ident_def)
    show "checksum_data (take 20 (take mtu h)) = 0xffff" if "checksum_rx (caps_ipv4 ?caps)" using that caps h(7) mtu by (simp add: min_def)
    show "length (take mtu h) = 20 + length (take (mtu - 20) P)" "length (take (mtu - 20) P) \<le> 65515" using lh lp mtu lP len by simp_all
  qed (use piece nh in simp_all)
  define g where "g = (\<lambda>rest. do { part \<leftarrow> slice rest 0 mtu; packet \<leftarrow> slice h 0 mtu; Some (overwrite rest 0 packet) })"
  have g: "\<exists>q. g rest = Some q \<and> length q = mtu \<and> carries ?caps ident r True 0 (take (mtu - 20) P) q" if "length rest = mtu" for rest
    using that lh c by (simp add: g_def overwrite_all)
  obtain frame where frame: "link_frame tx i hw (max_transmission_unit (if_caps i)) g = Some frame"
    "carries ?caps ident r True 0 (take (mtu - 20) P) (ip_part i frame)"
    by (rule link_frame_ok [where tx = tx and i = i and n = mtu and f = g and hw = hw
        and Q = "carries ?caps ident r True 0 (take (mtu - 20) P)", OF tx i(1) dc_ip_mtu_len [OF i(2)] g])
  let ?f = "f\<lparr>fr_buffer := h, fr_packet_len := 20 + ih_payload_len r, fr_sent_bytes := mtu, fr_repr := r, fr_dst_hardware_addr := hw,
    fr_frag_offset := of_nat (mtu - 20), fr_ident := ident\<rparr>"
  have "usize_sub mtu 20 = Some (mtu - 20)" using mtu by simp
  then have "start_fragmentation tx i ident hw p mtu f = Some (frame, ?f)"
    unfolding start_fragmentation_def Let_def hl r [symmetric] using emit h(1) frame(1) by (simp add: g_def [symmetric])
  moreover have "fr_state P r ident (mtu - 20) ?f"
    using len mtu lP h(3,4) y(3,4) P by (simp add: fr_state_def)
  ultimately show thesis using frame(2) by (intro that)
qed

section \<open>Receiving them\<close>

fun reassemble_all :: "bool \<Rightarrow> instant \<Rightarrow> u8 list list \<Rightarrow> ipv4_key packet_assembler_set \<Rightarrow> (u8 list list \<times> ipv4_key packet_assembler_set) option" where
  "reassemble_all alloc t [] slots = Some ([], slots)"
| "reassemble_all alloc t (q # qs) slots = do {
     (p, slots) \<leftarrow> ipv4_reassemble alloc t q slots;
     (out, slots) \<leftarrow> reassemble_all alloc t qs slots;
     Some ((case p of Some p \<Rightarrow> [p] | None \<Rightarrow> []) @ out, slots) }"

lemma ipv4_reassemble_carries:
  assumes "carries caps ident r mf off p q" "mf \<or> off \<noteq> 0" "off + length p \<le> 65515"
  shows "ipv4_reassemble alloc t q slots = pas_input alloc (frag_key ident r) t (if mf then None else Some (off + length p)) p off slots"
proof -
  have u: "unat (of_nat off :: u16) = off" "unat (of_nat (20 + length p) :: u16) = 20 + length p"
    using assms(3) by (simp_all only: unat_of_nat_u16)
  then have c: "(mf \<or> (of_nat off :: u16) \<noteq> 0) = True" using assms(2) by (metis unsigned_0)
  have h: "unat (20 :: u8) = 20" by simp
  have s: "usize_sub (20 + length p) 20 = Some (length p)" by simp
  have q: "ipv4_more_frags q = Some mf" "ipv4_frag_offset q = Some (of_nat off)" "ipv4_get_key q = Some (frag_key ident r)" "ipv4_payload q = Some p"
    "ipv4_total_len q = Some (of_nat (20 + length p))" "ipv4_get_header_len q = Some 20"
    using assms(1) by (simp_all add: carries_def)
  show ?thesis unfolding ipv4_reassemble_def q bind.simps u h s c if_True by (simp add: add.commute)
qed

lemma reassemble_all_run:
  assumes "carry_all caps ident r off ps qs" "off + length (concat ps) \<le> 65515" "off \<noteq> 0 \<or> tl ps \<noteq> []" "[] \<notin> set ps"
  shows "reassemble_all alloc t qs slots =
    map_option (\<lambda>(out, slots). (map snd out, slots)) (pas_run alloc (frags_from (frag_key ident r) t off ps) slots)"
  using assms
proof (induction ps arbitrary: off qs slots)
  case Nil
  then show ?case by (cases qs) simp_all
next
  case (Cons p ps)
  then obtain q qs' where qs: "qs = q # qs'" by (cases qs) simp_all
  have c: "carries caps ident r (ps \<noteq> []) off p q" "carry_all caps ident r (off + length p) ps qs'" using Cons.prems(1) qs by simp_all
  have i: "ipv4_reassemble alloc t q slots = pas_input alloc (frag_key ident r) t (if ps \<noteq> [] then None else Some (off + length p)) p off slots" for slots
    using Cons.prems(2,3) by (intro ipv4_reassemble_carries [OF c(1)]) auto
  show ?case
  proof (cases "ps = []")
    case True
    then have "qs' = []" using c(2) by (cases qs') simp_all
    then show ?thesis using i True qs by (cases "pas_input alloc (frag_key ident r) t (Some (off + length p)) p off slots") (auto split: option.split)
  next
    case False
    have IH: "reassemble_all alloc t qs' s = map_option (\<lambda>(out, slots). (map snd out, slots)) (pas_run alloc (frags_from (frag_key ident r) t (off + length p) ps) s)" for s
      using Cons.prems(2,4) False by (intro Cons.IH [OF c(2)]) auto
    show ?thesis
    proof (cases "pas_input alloc (frag_key ident r) t None p off slots")
      case (Some x)
      obtain u s where x: "x = (u, s)" by (cases x)
      show ?thesis using qs i False Some x IH [of s]
        by (cases "pas_run alloc (frags_from (frag_key ident r) t (off + length p) ps) s") (auto split: option.split)
    qed (use qs i False in simp)
  qed
qed

section \<open>Properties\<close>


subsection \<open>An interface and a datagram\<close>

text \<open>An interface on an IP medium, and the datagram with the given octets, sent by UDP.\<close>

definition demo_iface :: "nat \<Rightarrow> (ip_address \<times> neighbor) list iface" where
  "demo_iface mtu = \<lparr>if_caps = \<lparr>dc_medium = MediumIp, max_transmission_unit = mtu, max_burst_size = None, dc_checksum = caps_ignored\<rparr>,
     if_now = instant_zero, if_neighbor_cache = \<lparr>nc_storage = [], silent_until = instant_zero\<rparr>, if_hardware_addr = HwIp, if_ipv4_id = 7,
     if_ip_addrs = [], if_any_ip = False, if_routes = []\<rparr>"

definition demo_udp :: "u8 list \<Rightarrow> packet_v4" where
  "demo_udp data = \<lparr>p4_header = \<lparr>ih_src_addr = 0x0a000001, ih_dst_addr = 0x0a000002, ih_next_header = ProtoUdp, ih_payload_len = 8 + length data,
     ih_hop_limit = 64\<rparr>, p4_payload = PlUdp \<lparr>udp_repr_src_port = 4096, udp_repr_dst_port = 53\<rparr> data\<rparr>"

definition demo_datagram :: "u8 list \<Rightarrow> u8 list" where
  "demo_datagram data = [16, 0, 0, 53, 0, of_nat (8 + length data), 0, 0] @ data"

abbreviation demo_tx :: "nat \<Rightarrow> u8 list" where "demo_tx n \<equiv> replicate n 0"

abbreviation demo_slots :: "ipv4_key packet_assembler_set" where "demo_slots \<equiv> pas_new 2 True 0 4"

abbreviation demo_map :: "(ip_address \<times> neighbor) list linear_map" where "demo_map \<equiv> alist_map 4"




text \<open>
  C25: a raw packet that needs fragments makes the interface panic. The packet is built in the whole buffer of the
  fragmenter, but \<open>emit_payload\<close> copies a raw payload with \<open>copy_from_slice\<close>, which panics unless it fills the rest of
  the buffer exactly.
\<close>

theorem raw_fragment_panics:
  assumes "p4_payload p = PlRaw raw" and "ih_payload_len (p4_header p) = length raw" and "dc_medium (if_caps i) = MediumIp"
    and "20 \<le> max_transmission_unit (if_caps i)" and "max_transmission_unit (if_caps i) < 20 + length raw" and "20 + length raw < length (fr_buffer f)"
  shows "dispatch_ip_v4 ops tx p i f = None"
proof -
  let ?j = "i\<lparr>if_ipv4_id := if_ipv4_id i + 1\<rparr>"
  let ?r = "(p4_header p)\<lparr>ih_payload_len := max_transmission_unit (if_caps i) - 20\<rparr>"
  have l: "20 \<le> length (fr_buffer f)" using assms(6) by simp
  obtain x where "ipv4_emit ?r (dc_checksum (if_caps i)) (fr_buffer f) = Some x" "length x = length (fr_buffer f)"
    using emit_header_ok [OF l, of ?r "dc_checksum (if_caps i)"] by metis
  then have e: "emit_ip_v4 (if_caps i) ?r (PlRaw raw) (fr_buffer f) = None"
    using assms(6) by (simp add: emit_ip_v4_def emit_payload_def ipv4_buffer_len_def IPV4_HEADER_LEN_def panic_unless_def)
  have "start_fragmentation tx ?j ident hw p (max_transmission_unit (if_caps i)) f = None" for ident hw
    using e assms(1,4) by (simp add: start_fragmentation_def ipv4_buffer_len_def IPV4_HEADER_LEN_def)
  then show ?thesis
    using assms(2-6) by (simp add: dispatch_ip_v4_def next_ipv4_frag_ident_def dc_ip_mtu_def ipv4_buffer_len_def IPV4_HEADER_LEN_def panic_unless_def)
qed

theorem raw_fragment_panics_witness:
  "dispatch_ip_v4 demo_map demo_tx ((demo_udp [])\<lparr>p4_payload := PlRaw [1, 2, 3, 4, 5, 6, 7, 8]\<rparr>) (demo_iface 24) (fragmenter_new 64) = None"
  by (rule raw_fragment_panics [of _ "[1, 2, 3, 4, 5, 6, 7, 8]"]) (simp_all add: demo_udp_def demo_iface_def fragmenter_new_def)

end
