(* ===== verification/Ipv6_Wire.thy ===== *)
theory Ipv6_Wire
  imports Ipv4_Wire
begin

text \<open>
  \<open>src/smoltcp/src/wire/ipv6.rs\<close>: the accessors of an IPv6 packet buffer, and \<open>Repr::parse\<close> and \<open>Repr::emit\<close>. The
  representation is \<^typ>\<open>ipv6_address ip_header\<close> of \<open>Ip\<close>. Extension headers are part of the payload.
\<close>

section \<open>Octets of a word\<close>

text \<open>A word that is written in network order is read back, whatever its width.\<close>

lemma of_be_snoc: "of_be (bs @ [b]) = push_bit 8 (of_be bs) OR (ucast b :: 'a::len word)"
  by (simp add: of_be_def)

lemma bit_of_be:
  "k < LENGTH('a) \<Longrightarrow> bit (of_be bs :: 'a::len word) k \<longleftrightarrow> k div 8 < length bs \<and> bit (bs ! (length bs - 1 - k div 8)) (k mod 8)"
proof (induction bs arbitrary: k rule: rev_induct)
  case Nil
  then show ?case by (simp add: of_be_def)
next
  case (snoc b bs)
  show ?case
  proof (cases "k < 8")
    case True
    then show ?thesis using snoc.prems by (auto simp: of_be_snoc bit_simps)
  next
    case False
    then have k: "k div 8 = Suc ((k - 8) div 8)" "k mod 8 = (k - 8) mod 8" by (auto simp: div_if mod_if)
    have "\<not> bit b k" using False by (auto dest: bit_imp_le_length)
    then have "bit (of_be (bs @ [b]) :: 'a word) k \<longleftrightarrow> bit (of_be bs :: 'a word) (k - 8)"
      using False snoc.prems by (auto simp: of_be_snoc bit_simps)
    also have "\<dots> \<longleftrightarrow> (k - 8) div 8 < length bs \<and> bit (bs ! (length bs - 1 - (k - 8) div 8)) ((k - 8) mod 8)"
      using snoc.prems by (intro snoc.IH) simp
    also have "\<dots> \<longleftrightarrow> k div 8 < length (bs @ [b]) \<and> bit ((bs @ [b]) ! (length (bs @ [b]) - 1 - k div 8)) (k mod 8)"
      by (auto simp: k nth_append)
    finally show ?thesis .
  qed
qed

lemma be_round_trip:
  assumes "LENGTH('a) = 8 * n"
  shows "of_be (be_bytes n w) = (w :: 'a::len word)"
proof (rule bit_word_eqI)
  fix k
  assume k: "k < LENGTH('a)"
  then have "k div 8 < n" using assms by auto
  then have "be_bytes n w ! (n - 1 - k div 8) = ucast (drop_bit (8 * (k div 8)) w)" by (simp add: be_bytes_def)
  then show "bit (of_be (be_bytes n w) :: 'a word) k \<longleftrightarrow> bit w k"
    using k \<open>k div 8 < n\<close> by (simp add: bit_of_be bit_simps)
qed

definition get_ipv6_addr :: "u8 list \<Rightarrow> nat \<Rightarrow> ipv6_address option" where
  "get_ipv6_addr d a = map_option of_be (slice d a (a + 16))"

definition put_ipv6_addr :: "u8 list \<Rightarrow> nat \<Rightarrow> ipv6_address \<Rightarrow> u8 list option" where
  "put_ipv6_addr d a v = put_bytes d a (be_bytes 16 v)"

lemma get_ipv6_addr_overwrite_same [wire_simps]: "a + 16 \<le> length d \<Longrightarrow> get_ipv6_addr (overwrite d a (be_bytes 16 v)) a = Some v"
  by (simp only: get_ipv6_addr_def slice_overwrite_same length_be_bytes option.map) (simp add: be_round_trip)

lemma get_ipv6_addr_overwrite_other [wire_simps]:
  "a + length ys \<le> length d \<Longrightarrow> b + 16 \<le> a \<or> a + length ys \<le> b \<Longrightarrow> get_ipv6_addr (overwrite d a ys) b = get_ipv6_addr d b"
  by (simp add: get_ipv6_addr_def slice_overwrite_other)

lemma put_ipv6_addr_at: "a + 16 \<le> length d \<Longrightarrow> put_ipv6_addr d a v = Some (overwrite d a (be_bytes 16 v))"
  by (simp add: put_ipv6_addr_def)

lemma get_ipv6_addr_at: "a + 16 \<le> length d \<Longrightarrow> get_ipv6_addr d a = Some (of_be (take 16 (drop a d)))"
  by (simp add: get_ipv6_addr_def)

section \<open>Packets\<close>

definition ipv6_version :: "u8 list \<Rightarrow> u8 option" where "ipv6_version d = map_option (drop_bit 4) (get_u8 d 0)"

definition ipv6_traffic_class :: "u8 list \<Rightarrow> u8 option" where
  "ipv6_traffic_class d = map_option (\<lambda>w. ucast (drop_bit 4 (w AND 0x0ff0))) (get_u16 d 0)"

definition ipv6_flow_label :: "u8 list \<Rightarrow> u32 option" where
  "ipv6_flow_label d = map_option (\<lambda>bs. of_be bs AND 0x000fffff) (slice d 1 4)"

definition ipv6_payload_len :: "u8 list \<Rightarrow> u16 option" where "ipv6_payload_len d = get_u16 d 4"

definition ipv6_total_len :: "u8 list \<Rightarrow> nat option" where
  "ipv6_total_len d = map_option (\<lambda>n. IPV6_HEADER_LEN + unat n) (ipv6_payload_len d)"

definition ipv6_next_header :: "u8 list \<Rightarrow> ip_protocol option" where "ipv6_next_header d = map_option protocol_from_u8 (get_u8 d 6)"

definition ipv6_hop_limit :: "u8 list \<Rightarrow> u8 option" where "ipv6_hop_limit d = get_u8 d 7"

definition ipv6_src_addr :: "u8 list \<Rightarrow> ipv6_address option" where "ipv6_src_addr d = get_ipv6_addr d 8"

definition ipv6_dst_addr :: "u8 list \<Rightarrow> ipv6_address option" where "ipv6_dst_addr d = get_ipv6_addr d 24"

definition ipv6_check_len :: "u8 list \<Rightarrow> (wire_error + unit) option" where
  "ipv6_check_len d =
     (if length d < IPV6_HEADER_LEN then Some (Inl WireError)
      else do {
        total \<leftarrow> ipv6_total_len d;
        Some (if length d < total then Inl WireError else Inr ()) })"

definition ipv6_new_checked :: "u8 list \<Rightarrow> (wire_error + u8 list) option" where
  "ipv6_new_checked d = do {
     res \<leftarrow> ipv6_check_len d;
     Some (case res of Inl e \<Rightarrow> Inl e | Inr _ \<Rightarrow> Inr d) }"

definition ipv6_payload :: "u8 list \<Rightarrow> u8 list option" where
  "ipv6_payload d = do { total \<leftarrow> ipv6_total_len d; slice d IPV6_HEADER_LEN total }"

definition ipv6_set_version :: "u8 \<Rightarrow> u8 list \<Rightarrow> u8 list option" where
  "ipv6_set_version v d = do { b \<leftarrow> get_u8 d 0; put_u8 d 0 ((b AND 0x0f) OR push_bit 4 (v AND 0x0f)) }"

definition ipv6_set_traffic_class :: "u8 \<Rightarrow> u8 list \<Rightarrow> u8 list option" where
  "ipv6_set_traffic_class v d = do {
     b \<leftarrow> get_u8 d 0;
     d \<leftarrow> put_u8 d 0 ((b AND 0xf0) OR drop_bit 4 (v AND 0xf0));
     b \<leftarrow> get_u8 d 1;
     put_u8 d 1 ((b AND 0x0f) OR push_bit 4 (v AND 0x0f)) }"

definition ipv6_set_flow_label :: "u32 \<Rightarrow> u8 list \<Rightarrow> u8 list option" where
  "ipv6_set_flow_label v d = do {
     b \<leftarrow> get_u8 d 1;
     let raw = push_bit 16 (ucast (b AND 0xf0)) OR (v AND 0x0fffff);
     put_bytes d 1 (be_bytes 3 raw) }"

definition ipv6_set_payload_len :: "u16 \<Rightarrow> u8 list \<Rightarrow> u8 list option" where "ipv6_set_payload_len v d = put_u16 d 4 v"

definition ipv6_set_next_header :: "ip_protocol \<Rightarrow> u8 list \<Rightarrow> u8 list option" where
  "ipv6_set_next_header p d = put_u8 d 6 (protocol_to_u8 p)"

definition ipv6_set_hop_limit :: "u8 \<Rightarrow> u8 list \<Rightarrow> u8 list option" where "ipv6_set_hop_limit v d = put_u8 d 7 v"

definition ipv6_set_src_addr :: "ipv6_address \<Rightarrow> u8 list \<Rightarrow> u8 list option" where "ipv6_set_src_addr a d = put_ipv6_addr d 8 a"

definition ipv6_set_dst_addr :: "ipv6_address \<Rightarrow> u8 list \<Rightarrow> u8 list option" where "ipv6_set_dst_addr a d = put_ipv6_addr d 24 a"

text \<open>\<open>payload_mut\<close> lends the octets behind the header: the borrower \<open>f\<close> replaces them.\<close>

definition ipv6_payload_mut :: "(u8 list \<Rightarrow> u8 list) \<Rightarrow> u8 list \<Rightarrow> u8 list option" where
  "ipv6_payload_mut f d = do { p \<leftarrow> ipv6_payload d; Some (overwrite d IPV6_HEADER_LEN (f p)) }"

section \<open>Representation\<close>

definition ipv6_parse :: "u8 list \<Rightarrow> (wire_error + ipv6_address ip_header) option" where
  "ipv6_parse d = do {
     res \<leftarrow> ipv6_check_len d;
     case res of
       Inl e \<Rightarrow> Some (Inl e)
     | Inr _ \<Rightarrow> do {
         v \<leftarrow> ipv6_version d;
         if v \<noteq> 6 then Some (Inl WireError)
         else do {
           src \<leftarrow> ipv6_src_addr d;
           dst \<leftarrow> ipv6_dst_addr d;
           p \<leftarrow> ipv6_next_header d;
           n \<leftarrow> ipv6_payload_len d;
           hop_limit \<leftarrow> ipv6_hop_limit d;
           Some (Inr \<lparr>ih_src_addr = src, ih_dst_addr = dst, ih_next_header = p, ih_payload_len = unat n,
             ih_hop_limit = hop_limit\<rparr>) } } }"

definition ipv6_buffer_len :: "ipv6_address ip_header \<Rightarrow> nat" where "ipv6_buffer_len r = IPV6_HEADER_LEN"

definition ipv6_emit :: "ipv6_address ip_header \<Rightarrow> u8 list \<Rightarrow> u8 list option" where
  "ipv6_emit r d = do {
     d \<leftarrow> ipv6_set_version 6 d;
     d \<leftarrow> ipv6_set_traffic_class 0 d;
     d \<leftarrow> ipv6_set_flow_label 0 d;
     d \<leftarrow> ipv6_set_payload_len (of_nat (ih_payload_len r)) d;
     d \<leftarrow> ipv6_set_hop_limit (ih_hop_limit r) d;
     d \<leftarrow> ipv6_set_next_header (ih_next_header r) d;
     d \<leftarrow> ipv6_set_src_addr (ih_src_addr r) d;
     ipv6_set_dst_addr (ih_dst_addr r) d }"

text \<open>\<open>IpRepr::emit\<close>, the header of either version.\<close>

fun ip_emit :: "ip_repr \<Rightarrow> checksum_capabilities \<Rightarrow> u8 list \<Rightarrow> u8 list option" where
  "ip_emit (Ipv4Repr r) caps d = ipv4_emit r caps d"
| "ip_emit (Ipv6Repr r) caps d = ipv6_emit r d"

lemmas ipv6_fields = ipv6_version_def ipv6_payload_len_def ipv6_total_len_def ipv6_next_header_def ipv6_hop_limit_def
  ipv6_src_addr_def ipv6_dst_addr_def

section \<open>Parsing never panics\<close>

lemma ipv6_check_len_total:
  obtains (err) e where "ipv6_check_len d = Some (Inl e)"
  | (ok) n where "ipv6_check_len d = Some (Inr ())" "40 \<le> length d" "ipv6_payload_len d = Some n" "40 + unat n \<le> length d"
proof (cases "40 \<le> length d")
  case True
  then obtain n where n: "ipv6_payload_len d = Some n" by (simp add: ipv6_payload_len_def get_u16_at)
  then have c: "ipv6_check_len d = Some (if length d < 40 + unat n then Inl WireError else Inr ())"
    using True by (simp add: ipv6_check_len_def ipv6_total_len_def IPV6_HEADER_LEN_def)
  show thesis
  proof (cases "length d < 40 + unat n")
    case False
    then show thesis using c n True by (intro ok [of n]) auto
  qed (use c err in simp)
next
  case False
  then show thesis by (intro err [of WireError]) (simp add: ipv6_check_len_def IPV6_HEADER_LEN_def)
qed

lemma ipv6_parse_total:
  obtains (err) e where "ipv6_parse d = Some (Inl e)"
  | (ok) r p where "ipv6_parse d = Some (Inr r)" "ipv6_payload d = Some p" "length p = ih_payload_len r" "length p \<le> 65535"
      "ipv6_src_addr d = Some (ih_src_addr r)"
proof (cases rule: ipv6_check_len_total [of d, case_names e g])
  case (e x)
  then show thesis by (intro err [of x]) (simp add: ipv6_parse_def)
next
  case (g n)
  have f: "\<exists>x. ipv6_version d = Some x" "\<exists>x. ipv6_src_addr d = Some x" "\<exists>x. ipv6_dst_addr d = Some x"
    "\<exists>x. ipv6_next_header d = Some x" "\<exists>x. ipv6_hop_limit d = Some x"
    using g(2) by (auto simp: ipv6_fields get_u8_def get_ipv6_addr_at)
  then obtain v src dst nh ttl where v: "ipv6_version d = Some v" "ipv6_src_addr d = Some src" "ipv6_dst_addr d = Some dst"
    "ipv6_next_header d = Some nh" "ipv6_hop_limit d = Some ttl" by blast
  let ?r = "\<lparr>ih_src_addr = src, ih_dst_addr = dst, ih_next_header = nh, ih_payload_len = unat n, ih_hop_limit = ttl\<rparr>"
  obtain p where p: "ipv6_payload d = Some p" "length p = unat n"
    using g by (auto simp: ipv6_payload_def ipv6_total_len_def IPV6_HEADER_LEN_def slice_def)
  have e: "ipv6_parse d = Some (if v \<noteq> 6 then Inl WireError else Inr ?r)"
    using g v by (simp add: ipv6_parse_def)
  show thesis
  proof (cases "v = 6")
    case True
    then show thesis using e p v unat_u16_le [of n] by (intro ok [of ?r p]) simp_all
  qed (use e err in simp)
qed

section \<open>Round trip\<close>

lemma byte_6_0: "((((b AND 0x0f) OR 0x60) AND 0xf0)) = (0x60 :: u8)"
proof (rule bit_word_eqI)
  fix n
  assume "n < LENGTH(8)"
  then have "n \<in> {0, 1, 2, 3, 4, 5, 6, 7}" by auto
  then show "bit (((b AND 0x0f) OR 0x60) AND 0xf0) n = bit (0x60 :: u8) n"
    by (elim insertE emptyE) (simp_all add: bit_simps)
qed

lemma flow_0: "be_bytes 3 (push_bit 16 (ucast (((b :: u8) AND 0x0f) AND 0xf0)) :: u32) = [0, 0, 0]"
proof -
  have "(b AND 0x0f) AND 0xf0 = 0" by (simp add: and.assoc)
  then show ?thesis by (simp add: be_bytes_def upt_rec eval_nat_numeral)
qed

text \<open>The first four octets, which three setters write.\<close>

lemma ipv6_set_front:
  assumes "4 \<le> length d"
  shows "Option.bind (ipv6_set_version 6 d) (\<lambda>d. Option.bind (ipv6_set_traffic_class 0 d) (\<lambda>d. Option.bind (ipv6_set_flow_label 0 d) k))
    = k (overwrite (overwrite d 0 [0x60]) 1 [0, 0, 0])"
proof -
  have "d \<noteq> []" using assms by auto
  have a: "ipv6_set_version 6 d = Some (overwrite d 0 [(d ! 0 AND 0x0f) OR 0x60])"
    using assms \<open>d \<noteq> []\<close> by (simp add: ipv6_set_version_def get_u8_at put_u8_0)
  have b: "ipv6_set_traffic_class 0 (overwrite d 0 [(d ! 0 AND 0x0f) OR 0x60]) = Some (overwrite (overwrite d 0 [0x60]) 1 [d ! 1 AND 0x0f])"
    using assms \<open>d \<noteq> []\<close> byte_6_0 [of "d ! 0"]
    by (simp add: ipv6_set_traffic_class_def get_u8_overwrite_0 put_u8_0 overwrite_twice_0 wire_simps get_u8_at put_u8_at nth_overwrite)
  have c: "ipv6_set_flow_label 0 (overwrite (overwrite d 0 [0x60]) 1 [d ! 1 AND 0x0f]) = Some (overwrite (overwrite d 0 [0x60]) 1 [0, 0, 0])"
  proof -
    have "overwrite (overwrite (overwrite d 0 [0x60]) 1 [d ! 1 AND 0x0f]) 1 [0, 0, 0] = overwrite (overwrite d 0 [0x60 :: u8]) 1 [0, 0, 0]"
      using assms by (simp add: overwrite_def)
    then show ?thesis using assms by (simp add: ipv6_set_flow_label_def wire_simps flow_0)
  qed
  show ?thesis by (simp only: a b c bind.simps)
qed

definition ipv6_octets :: "ipv6_address ip_header \<Rightarrow> u8 list \<Rightarrow> u8 list" where
  "ipv6_octets r buf = overwrite (overwrite (overwrite (overwrite (overwrite (overwrite (overwrite buf 0 [0x60]) 1 [0, 0, 0])
     4 (be_bytes 2 (of_nat (ih_payload_len r) :: u16))) 7 [ih_hop_limit r]) 6 [protocol_to_u8 (ih_next_header r)])
     8 (be_bytes 16 (ih_src_addr r))) 24 (be_bytes 16 (ih_dst_addr r))"

lemma ipv6_emit_octets: "40 \<le> length buf \<Longrightarrow> ipv6_emit r buf = Some (ipv6_octets r buf)"
  unfolding ipv6_emit_def ipv6_octets_def
  by (subst ipv6_set_front) (simp_all add: ipv6_set_payload_len_def ipv6_set_hop_limit_def ipv6_set_next_header_def
      ipv6_set_src_addr_def ipv6_set_dst_addr_def put_at put_ipv6_addr_at)

lemma ipv6_octets_fields:
  assumes "40 \<le> length buf"
  shows "length (ipv6_octets r buf) = length buf" and "drop 40 (ipv6_octets r buf) = drop 40 buf"
    and "ipv6_version (ipv6_octets r buf) = Some 6"
    and "ipv6_payload_len (ipv6_octets r buf) = Some (of_nat (ih_payload_len r))"
    and "ipv6_hop_limit (ipv6_octets r buf) = Some (ih_hop_limit r)"
    and "ipv6_next_header (ipv6_octets r buf) = Some (protocol_from_u8 (protocol_to_u8 (ih_next_header r)))"
    and "ipv6_src_addr (ipv6_octets r buf) = Some (ih_src_addr r)" and "ipv6_dst_addr (ipv6_octets r buf) = Some (ih_dst_addr r)"
  using assms by (simp_all add: ipv6_octets_def ipv6_fields wire_simps get_u8_overwrite_0 drop_overwrite_before)

definition ipv6_fits :: "ipv6_address ip_header \<Rightarrow> bool" where
  "ipv6_fits r \<longleftrightarrow> ih_payload_len r \<le> 65535 \<and> protocol_from_u8 (protocol_to_u8 (ih_next_header r)) = ih_next_header r"

lemma ipv6_emitted:
  assumes "ipv6_fits r" and "length buf = 40 + ih_payload_len r"
  obtains bs where "ipv6_emit r buf = Some bs" "length bs = length buf" "ipv6_parse bs = Some (Inr r)" "ipv6_payload bs = Some (drop 40 buf)"
proof -
  let ?bs = "ipv6_octets r buf"
  have l: "40 \<le> length buf" using assms(2) by simp
  note f = ipv6_octets_fields [OF l, of r]
  have n: "unat (of_nat (ih_payload_len r) :: u16) = ih_payload_len r" using assms(1) by (simp add: ipv6_fits_def unat_of_nat_u16)
  have c: "ipv6_check_len ?bs = Some (Inr ())"
    using f(1,4) n assms(2) by (simp add: ipv6_check_len_def ipv6_total_len_def IPV6_HEADER_LEN_def)
  have p: "ipv6_parse ?bs = Some (Inr r)" using c f n assms(1) by (simp add: ipv6_parse_def ipv6_fits_def)
  have "ipv6_payload ?bs = Some (drop 40 buf)"
    using f(1,2,4) n assms(2) by (simp add: ipv6_payload_def ipv6_total_len_def IPV6_HEADER_LEN_def)
  with p show thesis using f(1) l by (intro that [of ?bs]) (simp_all add: ipv6_emit_octets)
qed

text \<open>The header as a wire format: the payload that follows it is in the buffer already.\<close>

interpretation ipv6_format: wire_format "\<lambda>_ :: unit. True" "\<lambda>_. ipv6_fits" "\<lambda>r. 40 + ih_payload_len r" "\<lambda>_. ipv6_emit" "\<lambda>_. ipv6_parse"
proof
  fix r and buf :: "u8 list"
  assume "ipv6_fits r" and "length buf = 40 + ih_payload_len r"
  then show "\<exists>bs. ipv6_emit r buf = Some bs \<and> length bs = 40 + ih_payload_len r \<and> ipv6_parse bs = Some (Inr r)"
    by (metis ipv6_emitted)
next
  fix buf
  show "ipv6_parse buf \<noteq> None" by (cases rule: ipv6_parse_total [of buf]) simp_all
qed

end
