(* ===== verification/Raw_Socket.thy ===== *)
theory Raw_Socket
  imports Packet_Buffer Ipv6_Wire Tcp_Timer
begin

text \<open>
  \<open>src/smoltcp/src/socket/raw.rs\<close>: the raw IP socket, which hands whole IP packets of both versions to the user and
  takes whole packets from the user. Its buffers are packet buffers without a header (\<^typ>\<open>unit\<close>); the wakers of the
  \<open>async\<close> feature are left out.
\<close>

section \<open>State\<close>

datatype raw_send_error = RawBufferFull
datatype raw_recv_error = RawExhausted | RawTruncated

record raw_socket =
  raw_ip_version :: "ip_version option"
  raw_ip_protocol :: "ip_protocol option"
  raw_rx :: "unit packet_buffer"
  raw_tx :: "unit packet_buffer"

definition raw_new :: "ip_version option \<Rightarrow> ip_protocol option \<Rightarrow> unit packet_buffer \<Rightarrow> unit packet_buffer \<Rightarrow> raw_socket" where
  "raw_new v p rx tx = \<lparr>raw_ip_version = v, raw_ip_protocol = p, raw_rx = rx, raw_tx = tx\<rparr>"

section \<open>Operations of the user\<close>

definition raw_can_send :: "raw_socket \<Rightarrow> bool" where "raw_can_send s \<longleftrightarrow> \<not> pb_is_full (raw_tx s)"

definition raw_can_recv :: "raw_socket \<Rightarrow> bool" where "raw_can_recv s \<longleftrightarrow> \<not> pb_is_empty (raw_rx s)"

text \<open>The slice that \<open>send\<close> returns is its start and length in the storage of the transmit buffer.\<close>

definition raw_send :: "nat \<Rightarrow> raw_socket \<Rightarrow> ((raw_send_error + nat \<times> nat) \<times> raw_socket) option" where
  "raw_send sz s = do {
     (res, tx) \<leftarrow> pb_enqueue sz () (raw_tx s);
     Some (case res of Inl _ \<Rightarrow> Inl RawBufferFull | Inr sl \<Rightarrow> Inr sl, s\<lparr>raw_tx := tx\<rparr>) }"

definition raw_send_with :: "nat \<Rightarrow> (u8 list \<Rightarrow> nat \<times> u8 list) \<Rightarrow> raw_socket \<Rightarrow> ((raw_send_error + nat) \<times> raw_socket) option" where
  "raw_send_with max_size f s = do {
     (res, tx) \<leftarrow> enqueue_with_infallible max_size () f (raw_tx s);
     Some (case res of Inl _ \<Rightarrow> Inl RawBufferFull | Inr n \<Rightarrow> Inr n, s\<lparr>raw_tx := tx\<rparr>) }"

definition raw_send_slice :: "u8 list \<Rightarrow> raw_socket \<Rightarrow> ((raw_send_error + unit) \<times> raw_socket) option" where
  "raw_send_slice data s = do {
     (stored, tx) \<leftarrow> pb_put () data (raw_tx s);
     Some (if stored then Inr () else Inl RawBufferFull, s\<lparr>raw_tx := tx\<rparr>) }"

definition raw_recv :: "raw_socket \<Rightarrow> ((raw_recv_error + u8 list) \<times> raw_socket) option" where
  "raw_recv s = do {
     (res, rx) \<leftarrow> pb_dequeue (raw_rx s);
     Some (case res of Inl _ \<Rightarrow> Inl RawExhausted | Inr (_, xs) \<Rightarrow> Inr xs, s\<lparr>raw_rx := rx\<rparr>) }"

definition raw_peek :: "raw_socket \<Rightarrow> ((raw_recv_error + u8 list) \<times> raw_socket) option" where
  "raw_peek s = do {
     (res, rx) \<leftarrow> pb_peek (raw_rx s);
     Some (case res of Inl _ \<Rightarrow> Inl RawExhausted | Inr (_, xs) \<Rightarrow> Inr xs, s\<lparr>raw_rx := rx\<rparr>) }"

text \<open>The copy into the destination \<open>data\<close>, which \<open>recv_slice\<close> and \<open>peek_slice\<close> share; a destination that is too short is an error.\<close>

definition raw_copy :: "u8 list \<Rightarrow> raw_recv_error + u8 list \<Rightarrow> (raw_recv_error + nat) \<times> u8 list" where
  "raw_copy data res =
     (case res of
        Inl e \<Rightarrow> (Inl e, data)
      | Inr buffer \<Rightarrow>
          if length data < length buffer then (Inl RawTruncated, data)
          else let n = min (length data) (length buffer) in (Inr n, overwrite data 0 (take n buffer)))"

definition raw_recv_slice :: "u8 list \<Rightarrow> raw_socket \<Rightarrow> ((raw_recv_error + nat) \<times> u8 list \<times> raw_socket) option" where
  "raw_recv_slice data s = do {
     (res, s) \<leftarrow> raw_recv s;
     let (res, data) = raw_copy data res;
     Some (res, data, s) }"

definition raw_peek_slice :: "u8 list \<Rightarrow> raw_socket \<Rightarrow> ((raw_recv_error + nat) \<times> u8 list \<times> raw_socket) option" where
  "raw_peek_slice data s = do {
     (res, s) \<leftarrow> raw_peek s;
     let (res, data) = raw_copy data res;
     Some (res, data, s) }"

definition raw_send_queue :: "raw_socket \<Rightarrow> nat" where "raw_send_queue s = payload_bytes_count (raw_tx s)"

definition raw_recv_queue :: "raw_socket \<Rightarrow> nat" where "raw_recv_queue s = payload_bytes_count (raw_rx s)"

section \<open>Operations of the interface\<close>

definition raw_accepts :: "ip_repr \<Rightarrow> raw_socket \<Rightarrow> bool" where
  "raw_accepts ip s \<longleftrightarrow>
     (case raw_ip_version s of None \<Rightarrow> True | Some v \<Rightarrow> v = ip_version_of ip) \<and>
     (case raw_ip_protocol s of None \<Rightarrow> True | Some p \<Rightarrow> p = ip_next_header ip)"

text \<open>The packet is built in the slice: the header is emitted from its representation, the payload is copied.\<close>

definition raw_build :: "checksum_capabilities \<Rightarrow> ip_repr \<Rightarrow> u8 list \<Rightarrow> u8 list \<Rightarrow> u8 list option" where
  "raw_build caps ip p buf = do {
     header \<leftarrow> slice buf 0 (ip_header_len ip);
     header \<leftarrow> ip_emit ip caps header;
     rest \<leftarrow> slice buf (ip_header_len ip) (length buf);
     panic_unless (length rest = length p);
     Some (overwrite (overwrite buf 0 header) (ip_header_len ip) p) }"

definition raw_process :: "checksum_capabilities \<Rightarrow> ip_repr \<Rightarrow> u8 list \<Rightarrow> raw_socket \<Rightarrow> raw_socket option" where
  "raw_process caps ip p s = do {
     panic_unless (raw_accepts ip s);
     (_, rx) \<leftarrow> pb_fill (ip_header_len ip + length p) () (raw_build caps ip p) (raw_rx s);
     Some (s\<lparr>raw_rx := rx\<rparr>) }"

type_synonym raw_packet = "ip_repr \<times> u8 list"

text \<open>
  What becomes of a queued packet in \<open>dispatch\<close>: the header and payload to be sent, none if the packet is dropped as
  malformed, and the buffer, in which the checksum of an IPv4 packet is set.
\<close>

definition raw_packet_v4 :: "checksum_capabilities \<Rightarrow> ip_protocol option \<Rightarrow> u8 list \<Rightarrow> (raw_packet option \<times> u8 list) option" where
  "raw_packet_v4 caps proto buf = do {
     checked \<leftarrow> ipv4_new_checked buf;
     case checked of
       Inl _ \<Rightarrow> Some (None, buf)
     | Inr packet \<Rightarrow> do {
         nh \<leftarrow> ipv4_next_header packet;
         if (case proto of None \<Rightarrow> False | Some p \<Rightarrow> p \<noteq> nh) then Some (None, packet)
         else do {
           packet \<leftarrow> (if checksum_tx (caps_ipv4 caps) then ipv4_fill_checksum packet else ipv4_set_checksum 0 packet);
           parsed \<leftarrow> ipv4_parse True caps packet;
           case parsed of
             Inl _ \<Rightarrow> Some (None, packet)
           | Inr r \<Rightarrow> do { p \<leftarrow> ipv4_payload packet; Some (Some (Ipv4Repr r, p), packet) } } } }"

definition raw_packet_v6 :: "ip_protocol option \<Rightarrow> u8 list \<Rightarrow> (raw_packet option \<times> u8 list) option" where
  "raw_packet_v6 proto buf = do {
     checked \<leftarrow> ipv6_new_checked buf;
     case checked of
       Inl _ \<Rightarrow> Some (None, buf)
     | Inr packet \<Rightarrow> do {
         nh \<leftarrow> ipv6_next_header packet;
         if (case proto of None \<Rightarrow> False | Some p \<Rightarrow> p \<noteq> nh) then Some (None, packet)
         else do {
           parsed \<leftarrow> ipv6_parse packet;
           case parsed of
             Inl _ \<Rightarrow> Some (None, packet)
           | Inr r \<Rightarrow> do { p \<leftarrow> ipv6_payload packet; Some (Some (Ipv6Repr r, p), packet) } } } }"

definition raw_packet_for :: "checksum_capabilities \<Rightarrow> raw_socket \<Rightarrow> u8 list \<Rightarrow> (raw_packet option \<times> u8 list) option" where
  "raw_packet_for caps s buf = do {
     v \<leftarrow> of_packet buf;
     case v of
       Inl _ \<Rightarrow> Some (None, buf)
     | Inr VIpv4 \<Rightarrow> raw_packet_v4 caps (raw_ip_protocol s) buf
     | Inr VIpv6 \<Rightarrow> raw_packet_v6 (raw_ip_protocol s) buf }"

text \<open>
  The packet given to \<open>emit\<close>, if any, the result of \<open>dispatch\<close>, and the socket. In the closure of
  \<open>dequeue_with\<close>, \<open>Inl None\<close> stands for a panic. A packet that could not be emitted stays in the queue.
\<close>

definition raw_dispatch ::
  "(raw_packet \<Rightarrow> 'e + unit) \<Rightarrow> checksum_capabilities \<Rightarrow> raw_socket \<Rightarrow> (raw_packet option \<times> ('e + unit) \<times> raw_socket) option" where
  "raw_dispatch emit caps s = do {
     (res, tx) \<leftarrow> pb_dequeue_with (\<lambda>h buf.
        (case raw_packet_for caps s buf of
           None \<Rightarrow> (Inl None, h, buf)
         | Some (None, buf) \<Rightarrow> (Inr None, h, buf)
         | Some (Some p, buf) \<Rightarrow> (case emit p of Inl e \<Rightarrow> Inl (Some (p, e)) | Inr _ \<Rightarrow> Inr (Some p), h, buf))) (raw_tx s);
     case res of
       Inl Empty \<Rightarrow> Some (None, Inr (), s\<lparr>raw_tx := tx\<rparr>)
     | Inr (Inl None) \<Rightarrow> None
     | Inr (Inl (Some (p, e))) \<Rightarrow> Some (Some p, Inl e, s\<lparr>raw_tx := tx\<rparr>)
     | Inr (Inr p) \<Rightarrow> Some (p, Inr (), s\<lparr>raw_tx := tx\<rparr>) }"

definition raw_poll_at :: "raw_socket \<Rightarrow> poll_at" where
  "raw_poll_at s = (if pb_is_empty (raw_tx s) then PollIngress else PollNow)"

section \<open>Receiving\<close>

definition raw_inv :: "raw_socket \<Rightarrow> bool" where "raw_inv s \<longleftrightarrow> pb_inv (raw_rx s) \<and> pb_inv (raw_tx s)"

abbreviation raw_received :: "raw_socket \<Rightarrow> u8 list list" where "raw_received s \<equiv> map snd (pb_packets (raw_rx s))"

abbreviation raw_queued :: "raw_socket \<Rightarrow> u8 list list" where "raw_queued s \<equiv> map snd (pb_packets (raw_tx s))"

text \<open>The header that \<open>ip_emit\<close> leaves does not depend on what was in the buffer, up to the checksum.\<close>

lemma ip_emit_total: "length h = ip_header_len ip \<Longrightarrow> \<exists>h'. ip_emit ip caps h = Some h' \<and> length h' = length h"
proof (cases ip)
  case (Ipv4Repr r)
  assume "length h = ip_header_len ip"
  then have l: "20 \<le> length h" using Ipv4Repr by (simp add: IPV4_HEADER_LEN_def)
  then show ?thesis using Ipv4Repr ipv4_emit_ok [OF l, of r caps] ipv4_octets_fields(1) [OF l, of r] l by fastforce
next
  case (Ipv6Repr r)
  assume "length h = ip_header_len ip"
  then show ?thesis using Ipv6Repr by (simp add: IPV6_HEADER_LEN_def ipv6_emit_octets ipv6_octets_fields(1))
qed

lemma raw_build_ok:
  assumes "length buf = ip_header_len ip + length p"
  obtains h where "raw_build caps ip p buf = Some (h @ p)" "length h = ip_header_len ip"
    "ip_emit ip caps (take (ip_header_len ip) buf) = Some h"
proof -
  let ?n = "ip_header_len ip"
  obtain h where h: "ip_emit ip caps (take ?n buf) = Some h" "length h = ?n"
    using ip_emit_total [of "take ?n buf" ip caps] assms by auto
  have "overwrite (overwrite buf 0 h) ?n p = h @ p" using h(2) assms by (simp add: overwrite_def)
  then show thesis using h assms by (intro that [of h]) (simp_all add: raw_build_def)
qed

lemma raw_process_ok:
  assumes inv: "raw_inv s" and acc: "raw_accepts ip s"
  obtains stored d s' where "raw_process caps ip p s = Some s'" "raw_inv s'" "raw_queued s' = raw_queued s"
    "raw_received s' = raw_received s @ (if stored then [d @ p] else [])" "length d = ip_header_len ip"
    "\<exists>old. length old = ip_header_len ip \<and> ip_emit ip caps old = Some d"
    "raw_ip_version s' = raw_ip_version s" "raw_ip_protocol s' = raw_ip_protocol s"
    "pb_is_empty (raw_rx s) \<and> 0 < packet_capacity (raw_rx s) \<and> ip_header_len ip + length p \<le> payload_capacity (raw_rx s) \<longrightarrow> stored"
proof -
  let ?P = "\<lambda>data. \<exists>h. data = h @ p \<and> length h = ip_header_len ip \<and> (\<exists>old. length old = ip_header_len ip \<and> ip_emit ip caps old = Some h)"
  have fill: "\<exists>data. raw_build caps ip p old = Some data \<and> length data = ip_header_len ip + length p \<and> ?P data"
    if len: "length old = ip_header_len ip + length p" for old
  proof -
    obtain h where h: "raw_build caps ip p old = Some (h @ p)" "length h = ip_header_len ip"
      "ip_emit ip caps (take (ip_header_len ip) old) = Some h"
      by (rule raw_build_ok [OF len, of caps])
    then show ?thesis using len by (intro exI [of _ "h @ p"]) (auto intro!: exI [of _ h] exI [of _ "take (ip_header_len ip) old"])
  qed
  have rx: "pb_inv (raw_rx s)" using inv by (simp add: raw_inv_def)
  show thesis
  proof (cases rule: pb_fill_ok [where P = ?P and n = "ip_header_len ip + length p" and fill = "raw_build caps ip p" and h = "()", OF rx fill, case_names len full stored])
    case (full b)
    obtain h where "length h = ip_header_len ip" "\<exists>old. length old = ip_header_len ip \<and> ip_emit ip caps old = Some h"
      using ip_emit_total [of "replicate (ip_header_len ip) 0" ip caps] by (metis length_replicate)
    with full inv acc show thesis
      by (intro that [of "s\<lparr>raw_rx := b\<rparr>" False h]) (auto simp: raw_process_def raw_inv_def)
  next
    case (stored data b)
    then obtain h where "data = h @ p" "length h = ip_header_len ip" "\<exists>old. length old = ip_header_len ip \<and> ip_emit ip caps old = Some h"
      by blast
    with stored inv acc show thesis
      by (intro that [of "s\<lparr>raw_rx := b\<rparr>" True h]) (auto simp: raw_process_def raw_inv_def)
  qed assumption
qed

section \<open>Sending\<close>

lemma raw_send_slice_ok:
  assumes "raw_inv s"
  obtains stored s' where "raw_send_slice data s = Some (if stored then Inr () else Inl RawBufferFull, s')" "raw_inv s'"
    "raw_queued s' = raw_queued s @ (if stored then [data] else [])" "raw_received s' = raw_received s"
    "pb_is_empty (raw_tx s) \<and> 0 < packet_capacity (raw_tx s) \<and> length data \<le> payload_capacity (raw_tx s) \<longrightarrow> stored"
proof -
  have "pb_inv (raw_tx s)" using assms by (simp add: raw_inv_def)
  then obtain stored tx where "pb_put () data (raw_tx s) = Some (stored, tx)" "pb_inv tx"
    "pb_packets tx = pb_packets (raw_tx s) @ (if stored then [((), data)] else [])"
    "pb_is_empty (raw_tx s) \<and> 0 < packet_capacity (raw_tx s) \<and> length data \<le> payload_capacity (raw_tx s) \<longrightarrow> stored"
    by (rule pb_put_ok)
  then show thesis using assms
    by (intro that [of stored "s\<lparr>raw_tx := tx\<rparr>"]) (auto simp: raw_send_slice_def raw_inv_def)
qed

lemma raw_recv_ok:
  assumes "raw_inv s"
  obtains s' where "raw_recv s = Some (case raw_received s of [] \<Rightarrow> Inl RawExhausted | xs # _ \<Rightarrow> Inr xs, s')" "raw_inv s'"
    "raw_received s' = tl (raw_received s)" "raw_queued s' = raw_queued s"
proof -
  have "pb_inv (raw_rx s)" using assms by (simp add: raw_inv_def)
  then obtain rx where rx: "pb_dequeue (raw_rx s) = Some (case pb_packets (raw_rx s) of [] \<Rightarrow> Inl Empty | x # _ \<Rightarrow> Inr x, rx)" "pb_inv rx"
    "pb_packets rx = tl (pb_packets (raw_rx s))"
    by (rule pb_dequeue_ok)
  show thesis using assms rx
    by (intro that [of "s\<lparr>raw_rx := rx\<rparr>"]) (auto simp: raw_recv_def raw_inv_def map_tl split: list.splits prod.splits)
qed

lemma ipv4_set_checksum_total: "20 \<le> length d \<Longrightarrow> ipv4_set_checksum v d = Some (overwrite d 10 (be_bytes 2 v))"
  by (simp add: ipv4_set_checksum_def put_at)

lemma ipv4_fill_checksum_total:
  assumes "20 \<le> length d" and "ipv4_get_header_len d = Some hl" and "unat hl \<le> length d"
  obtains ck :: u16 where "ipv4_fill_checksum d = Some (overwrite d 10 (be_bytes 2 ck))"
proof -
  let ?z = "overwrite d 10 (be_bytes 2 (0 :: u16))"
  have "ipv4_get_header_len ?z = Some hl" using assms by (simp add: ipv4_get_header_len_def wire_simps)
  then have "ipv4_fill_checksum d = Some (overwrite d 10 (be_bytes 2 (NOT (checksum_data (take (unat hl) ?z)))))"
    using assms by (simp add: ipv4_fill_checksum_def ipv4_set_checksum_total)
  then show thesis by (rule that)
qed

lemma ipv4_parse_next_header:
  assumes "ipv4_parse f caps d = Some (Inr r)"
  shows "ipv4_next_header d = Some (ih_next_header r)"
proof (cases rule: ipv4_check_len_total [of d, case_names e g])
  case (g hl tlen)
  then show ?thesis using assms by (auto simp: ipv4_parse_def bind_eq_Some_conv split: if_splits)
qed (use assms in \<open>simp add: ipv4_parse_def\<close>)

text \<open>A queued packet that is not empty never makes \<open>dispatch\<close> panic, and what is sent is its payload under its header.\<close>

lemma raw_packet_v4_ok:
  obtains out buf' where "raw_packet_v4 caps proto buf = Some (out, buf')" "length buf' = length buf"
    "\<And>ip p. out = Some (ip, p) \<Longrightarrow> \<exists>r. ip = Ipv4Repr r \<and> ipv4_parse True caps buf' = Some (Inr r) \<and> ipv4_payload buf' = Some p
       \<and> length p = ih_payload_len r \<and> (\<forall>q. proto = Some q \<longrightarrow> ih_next_header r = q)"
proof (cases rule: ipv4_check_len_total [of buf, case_names e g])
  case (e x)
  then show thesis by (intro that [of None buf]) (simp_all add: raw_packet_v4_def ipv4_new_checked_def)
next
  case (g hl tlen)
  obtain nh where nh: "ipv4_next_header buf = Some nh" using g(2) by (simp add: ipv4_next_header_def get_u8_long)
  have n: "ipv4_new_checked buf = Some (Inr buf)" using g(1) by (simp add: ipv4_new_checked_def)
  show thesis
  proof (cases "case proto of None \<Rightarrow> False | Some p \<Rightarrow> p \<noteq> nh")
    case True
    then show thesis using n nh by (intro that [of None buf]) (simp_all add: raw_packet_v4_def)
  next
    case False
    obtain ck :: u16 where c: "(if checksum_tx (caps_ipv4 caps) then ipv4_fill_checksum buf else ipv4_set_checksum 0 buf)
        = Some (overwrite buf 10 (be_bytes 2 ck))"
      using ipv4_fill_checksum_total [OF g(2,3)] g(2,5,6) by (metis ipv4_set_checksum_total order_trans)
    define b where "b = overwrite buf 10 (be_bytes 2 ck)"
    have b: "length b = length buf" "ipv4_next_header b = Some nh" using g(2) nh by (simp_all add: b_def ipv4_next_header_def wire_simps)
    have e: "raw_packet_v4 caps proto buf = do {
        parsed \<leftarrow> ipv4_parse True caps b;
        case parsed of Inl _ \<Rightarrow> Some (None, b) | Inr r \<Rightarrow> do { p \<leftarrow> ipv4_payload b; Some (Some (Ipv4Repr r, p), b) } }"
      unfolding raw_packet_v4_def n bind.simps sum.case nh if_not_P [OF False] c [folded b_def] by (rule refl)
    show thesis
    proof (cases rule: ipv4_parse_total [of True caps b, case_names err ok])
      case (err x)
      then show thesis using e b by (intro that [of None b]) simp_all
    next
      case (ok r p)
      have "ih_next_header r = nh" using ipv4_parse_next_header [OF ok(1)] b(2) by simp
      then show thesis using e ok b False by (intro that [of "Some (Ipv4Repr r, p)" b]) (auto split: option.splits)
    qed
  qed
qed

lemma raw_packet_v6_ok:
  obtains out where "raw_packet_v6 proto buf = Some (out, buf)"
    "\<And>ip p. out = Some (ip, p) \<Longrightarrow> \<exists>r. ip = Ipv6Repr r \<and> ipv6_parse buf = Some (Inr r) \<and> ipv6_payload buf = Some p
       \<and> length p = ih_payload_len r \<and> (\<forall>q. proto = Some q \<longrightarrow> ih_next_header r = q)"
proof (cases rule: ipv6_check_len_total [of buf, case_names e g])
  case (e x)
  then show thesis by (intro that [of None]) (simp_all add: raw_packet_v6_def ipv6_new_checked_def)
next
  case (g n)
  obtain nh where nh: "ipv6_next_header buf = Some nh" using g(2) by (auto simp: ipv6_next_header_def get_u8_def)
  have n: "ipv6_new_checked buf = Some (Inr buf)" using g(1) by (simp add: ipv6_new_checked_def)
  show thesis
  proof (cases "case proto of None \<Rightarrow> False | Some p \<Rightarrow> p \<noteq> nh")
    case True
    then show thesis using n nh by (intro that [of None]) (simp_all add: raw_packet_v6_def)
  next
    case False
    show thesis
    proof (cases rule: ipv6_parse_total [of buf, case_names err ok])
      case (err x)
      then show thesis using n nh False by (intro that [of None]) (simp_all add: raw_packet_v6_def)
    next
      case (ok r p)
      have "ih_next_header r = nh" using ok(1) nh g(1) by (auto simp: ipv6_parse_def bind_eq_Some_conv split: if_splits)
      then show thesis using n nh False ok by (intro that [of "Some (Ipv6Repr r, p)"]) (auto simp: raw_packet_v6_def split: option.splits)
    qed
  qed
qed

text \<open>What \<open>dispatch\<close> may send for a queued packet \<open>buf\<close>.\<close>

definition raw_sends :: "checksum_capabilities \<Rightarrow> raw_socket \<Rightarrow> u8 list \<Rightarrow> raw_packet \<Rightarrow> bool" where
  "raw_sends caps s buf p \<longleftrightarrow> length (snd p) = ip_payload_len (fst p) \<and> (\<forall>q. raw_ip_protocol s = Some q \<longrightarrow> ip_next_header (fst p) = q) \<and>
     (\<exists>buf'. length buf' = length buf \<and>
       (case fst p of Ipv4Repr r \<Rightarrow> ipv4_parse True caps buf' = Some (Inr r) \<and> ipv4_payload buf' = Some (snd p)
        | Ipv6Repr r \<Rightarrow> ipv6_parse buf' = Some (Inr r) \<and> ipv6_payload buf' = Some (snd p)))"

lemma raw_packet_for_ok:
  assumes "buf \<noteq> []"
  obtains out buf' where "raw_packet_for caps s buf = Some (out, buf')" "length buf' = length buf"
    "\<And>p. out = Some p \<Longrightarrow> raw_sends caps s buf p"
proof -
  obtain v where v: "of_packet buf = Some v" using assms by (cases buf) (auto simp: of_packet_def get_u8_def)
  consider "isl v" | "v = Inr VIpv4" | "v = Inr VIpv6" by (cases v; cases "projr v") auto
  then show thesis
  proof cases
    case 1
    then show thesis using v by (intro that [of None buf]) (auto simp: raw_packet_for_def isl_def)
  next
    case 2
    obtain out buf' where o: "raw_packet_v4 caps (raw_ip_protocol s) buf = Some (out, buf')" "length buf' = length buf"
      "\<And>ip p. out = Some (ip, p) \<Longrightarrow> \<exists>r. ip = Ipv4Repr r \<and> ipv4_parse True caps buf' = Some (Inr r) \<and> ipv4_payload buf' = Some p
         \<and> length p = ih_payload_len r \<and> (\<forall>q. raw_ip_protocol s = Some q \<longrightarrow> ih_next_header r = q)"
      by (rule raw_packet_v4_ok [of caps "raw_ip_protocol s" buf]) blast
    show thesis
    proof (rule that [of out buf'])
      fix p
      assume p: "out = Some p"
      obtain r where "fst p = Ipv4Repr r" "ipv4_parse True caps buf' = Some (Inr r)" "ipv4_payload buf' = Some (snd p)"
        "length (snd p) = ih_payload_len r" "\<forall>q. raw_ip_protocol s = Some q \<longrightarrow> ih_next_header r = q"
        using o(3) [of "fst p" "snd p"] p by auto
      then show "raw_sends caps s buf p" unfolding raw_sends_def using o(2) by (intro conjI exI [of _ buf']) simp_all
    qed (use v 2 o in \<open>simp_all add: raw_packet_for_def\<close>)
  next
    case 3
    obtain out where o: "raw_packet_v6 (raw_ip_protocol s) buf = Some (out, buf)"
      "\<And>ip p. out = Some (ip, p) \<Longrightarrow> \<exists>r. ip = Ipv6Repr r \<and> ipv6_parse buf = Some (Inr r) \<and> ipv6_payload buf = Some p
         \<and> length p = ih_payload_len r \<and> (\<forall>q. raw_ip_protocol s = Some q \<longrightarrow> ih_next_header r = q)"
      by (rule raw_packet_v6_ok [of "raw_ip_protocol s" buf]) blast
    show thesis
    proof (rule that [of out buf])
      fix p
      assume p: "out = Some p"
      obtain r where "fst p = Ipv6Repr r" "ipv6_parse buf = Some (Inr r)" "ipv6_payload buf = Some (snd p)"
        "length (snd p) = ih_payload_len r" "\<forall>q. raw_ip_protocol s = Some q \<longrightarrow> ih_next_header r = q"
        using o(2) [of "fst p" "snd p"] p by auto
      then show "raw_sends caps s buf p" unfolding raw_sends_def by (intro conjI exI [of _ buf]) simp_all
    qed (use v 3 o in \<open>simp_all add: raw_packet_for_def\<close>)
  qed
qed

lemma raw_packet_for_Nil: "raw_packet_for caps s [] = None"
  by (simp add: raw_packet_for_def of_packet_def get_u8_def)

lemma raw_packet_for_length: "raw_packet_for caps s buf = Some (out, buf') \<Longrightarrow> length buf' = length buf"
  using raw_packet_for_ok [of buf caps s] raw_packet_for_Nil [of caps s] by (metis option.distinct(1) option.inject prod.inject)

lemma raw_dispatch_ok:
  assumes inv: "raw_inv s" and ne: "\<forall>x \<in> set (raw_queued s). x \<noteq> []"
  obtains out res s' where "raw_dispatch emit caps s = Some (out, res, s')" "raw_inv s'" "raw_received s' = raw_received s"
    "case out of None \<Rightarrow> res = Inr () \<and> raw_queued s' = tl (raw_queued s)
     | Some p \<Rightarrow> raw_queued s \<noteq> [] \<and> raw_sends caps s (hd (raw_queued s)) p \<and> res = emit p \<and>
         (if isl res then \<exists>x. length x = length (hd (raw_queued s)) \<and> raw_queued s' = x # tl (raw_queued s)
          else raw_queued s' = tl (raw_queued s))"
proof -
  let ?f = "\<lambda>h buf. (case raw_packet_for caps s buf of
           None \<Rightarrow> (Inl None, h, buf)
         | Some (None, buf) \<Rightarrow> (Inr None, h, buf)
         | Some (Some p, buf) \<Rightarrow> (case emit p of Inl e \<Rightarrow> Inl (Some (p, e)) | Inr _ \<Rightarrow> Inr (Some p), h, buf))"
  have tx: "pb_inv (raw_tx s)" using inv by (simp add: raw_inv_def)
  have f: "length (snd (snd (?f h xs))) = length xs" for h xs
    using raw_packet_for_length [of caps s xs] by (auto split: option.splits prod.splits)
  show thesis
  proof (cases rule: pb_dequeue_with_ok [where f = ?f, OF tx f, case_names none some])
    case (none b)
    then show thesis using inv by (intro that [of None "Inr ()" "s\<lparr>raw_tx := b\<rparr>"]) (simp_all add: raw_dispatch_def raw_inv_def)
  next
    case (some h xs rest b)
    then have "xs \<noteq> []" using ne by simp
    then obtain out buf' where o: "raw_packet_for caps s xs = Some (out, buf')" "length buf' = length xs"
      "\<And>p. out = Some p \<Longrightarrow> raw_sends caps s xs p" using raw_packet_for_ok by metis
    show thesis
    proof (cases out)
      case None
      then show thesis using inv some o by (intro that [of None "Inr ()" "s\<lparr>raw_tx := b\<rparr>"]) (simp_all add: raw_dispatch_def raw_inv_def)
    next
      case (Some p)
      then show thesis using inv some o
        by (intro that [of "Some p" "emit p" "s\<lparr>raw_tx := b\<rparr>"]) (auto simp: raw_dispatch_def raw_inv_def split: sum.splits)
    qed
  qed
qed

section \<open>Properties\<close>

text \<open>
  C34: an empty raw packet stops the interface. \<open>send_slice\<close> accepts a packet without octets; when its turn comes,
  \<open>dispatch\<close> looks for the IP version in its first octet and panics, whatever the socket is bound to and whatever the
  device does.
\<close>

theorem raw_empty_packet_panics:
  assumes inv: "raw_inv s" and e: "pb_is_empty (raw_tx s)" and cap: "0 < packet_capacity (raw_tx s)"
  shows "\<exists>s'. raw_send_slice [] s = Some (Inr (), s') \<and> raw_inv s' \<and> raw_dispatch emit caps s' = None"
proof -
  obtain stored s' where s': "raw_send_slice [] s = Some (if stored then Inr () else Inl RawBufferFull, s')" "raw_inv s'"
    "raw_queued s' = raw_queued s @ (if stored then [[]] else [])"
    "pb_is_empty (raw_tx s) \<and> 0 < packet_capacity (raw_tx s) \<and> length ([] :: u8 list) \<le> payload_capacity (raw_tx s) \<longrightarrow> stored"
    using raw_send_slice_ok [OF inv, of "[]"] by metis
  have "pb_packets (raw_tx s) = []"
    using e by (simp add: pb_packets_def pb_is_empty_def rb_is_empty_def rb_len_def rb_list_def)
  then have st: "stored" and q: "raw_queued s' = [[]]" using s'(3,4) e cap by auto
  let ?f = "\<lambda>h buf. (case raw_packet_for caps s' buf of
           None \<Rightarrow> (Inl None, h, buf)
         | Some (None, buf) \<Rightarrow> (Inr None, h, buf)
         | Some (Some p, buf) \<Rightarrow> (case emit p of Inl e \<Rightarrow> Inl (Some (p, e)) | Inr _ \<Rightarrow> Inr (Some p), h, buf))"
  have tx: "pb_inv (raw_tx s')" using s'(2) by (simp add: raw_inv_def)
  have f: "length (snd (snd (?f h xs))) = length xs" for h xs
    using raw_packet_for_length [of caps s' xs] by (auto split: option.splits prod.splits)
  have "raw_dispatch emit caps s' = None"
  proof (cases rule: pb_dequeue_with_ok [where f = ?f, OF tx f, case_names none some])
    case (none b)
    then show ?thesis using q by simp
  next
    case (some h xs rest b)
    then have "xs = []" using q by simp
    then show ?thesis using some(2) by (simp add: raw_dispatch_def raw_packet_for_Nil)
  qed
  then show ?thesis using s'(1,2) st by auto
qed

definition demo_raw :: raw_socket where
  "demo_raw = raw_new None None (pb_new [pm_empty] [0]) (pb_new [pm_empty] [0])"

theorem raw_empty_packet_panics_witness:
  "\<exists>s'. raw_send_slice [] demo_raw = Some (Inr (), s') \<and> raw_inv s' \<and> raw_dispatch (\<lambda>_. Inr () :: unit + unit) caps_ignored s' = None"
proof (rule raw_empty_packet_panics)
  show "raw_inv demo_raw" by (simp add: demo_raw_def raw_new_def raw_inv_def pb_new_inv)
qed (simp_all add: demo_raw_def raw_new_def pb_is_empty_def packet_capacity_def pb_new_def rb_is_empty_def rb_len_def rb_new_def rb_capacity_def)

end
