(* ===== verification/Icmp_Socket.thy ===== *)
theory Icmp_Socket
  imports Packet_Buffer Icmpv4_Wire Udp_Wire Iface_Addr Tcp_Timer
begin

text \<open>
  \<open>src/smoltcp/src/socket/icmp.rs\<close>: the ICMP socket, in the configuration with IPv4 only (the feature \<open>proto-ipv6\<close> is off, so an
  \<open>IpAddress\<close> of a queued packet is an IPv4 address, and \<open>accepts_v6\<close> and \<open>process_v6\<close> are not there). The wakers of the \<open>async\<close>
  feature are left out.
\<close>

section \<open>State\<close>

datatype icmp_endpoint = IcmpUnspecified | IcmpIdent u16 | IcmpUdp ip_listen_endpoint

fun icmp_ep_is_specified :: "icmp_endpoint \<Rightarrow> bool" where
  "icmp_ep_is_specified (IcmpIdent _) = True"
| "icmp_ep_is_specified (IcmpUdp e) = (le_port e \<noteq> 0)"
| "icmp_ep_is_specified IcmpUnspecified = False"

datatype icmp_bind_error = IcmpBindInvalidState | IcmpBindUnaddressable
datatype icmp_send_error = IcmpSendUnaddressable | IcmpBufferFull
datatype icmp_recv_error = IcmpExhausted | IcmpTruncated

record icmp_socket =
  icmp_rx :: "ipv4_address packet_buffer"
  icmp_tx :: "ipv4_address packet_buffer"
  icmp_endpoint :: icmp_endpoint
  icmp_hop_limit :: "u8 option"

definition icmp_new :: "ipv4_address packet_buffer \<Rightarrow> ipv4_address packet_buffer \<Rightarrow> icmp_socket" where
  "icmp_new rx tx = \<lparr>icmp_rx = rx, icmp_tx = tx, icmp_endpoint = IcmpUnspecified, icmp_hop_limit = None\<rparr>"

section \<open>Operations of the user\<close>

definition icmp_set_hop_limit :: "u8 option \<Rightarrow> icmp_socket \<Rightarrow> icmp_socket option" where
  "icmp_set_hop_limit hop_limit s = do {
     panic_unless (hop_limit \<noteq> Some 0);
     Some (s\<lparr>icmp_hop_limit := hop_limit\<rparr>) }"

definition icmp_is_open :: "icmp_socket \<Rightarrow> bool" where "icmp_is_open s \<longleftrightarrow> icmp_endpoint s \<noteq> IcmpUnspecified"

definition icmp_bind :: "icmp_endpoint \<Rightarrow> icmp_socket \<Rightarrow> (icmp_bind_error + unit) \<times> icmp_socket" where
  "icmp_bind e s =
     (if \<not> icmp_ep_is_specified e then (Inl IcmpBindUnaddressable, s)
      else if icmp_is_open s then (Inl IcmpBindInvalidState, s)
      else (Inr (), s\<lparr>icmp_endpoint := e\<rparr>))"

definition icmp_can_send :: "icmp_socket \<Rightarrow> bool" where "icmp_can_send s \<longleftrightarrow> \<not> pb_is_full (icmp_tx s)"

definition icmp_can_recv :: "icmp_socket \<Rightarrow> bool" where "icmp_can_recv s \<longleftrightarrow> \<not> pb_is_empty (icmp_rx s)"

definition icmp_send :: "nat \<Rightarrow> ipv4_address \<Rightarrow> icmp_socket \<Rightarrow> ((icmp_send_error + nat \<times> nat) \<times> icmp_socket) option" where
  "icmp_send sz endpoint s =
     (if addr_is_unspecified (Ipv4 endpoint) then Some (Inl IcmpSendUnaddressable, s)
      else do {
        (res, tx) \<leftarrow> pb_enqueue sz endpoint (icmp_tx s);
        Some (case res of Inl _ \<Rightarrow> Inl IcmpBufferFull | Inr sl \<Rightarrow> Inr sl, s\<lparr>icmp_tx := tx\<rparr>) })"

definition icmp_send_with ::
  "nat \<Rightarrow> ipv4_address \<Rightarrow> (u8 list \<Rightarrow> nat \<times> u8 list) \<Rightarrow> icmp_socket \<Rightarrow> ((icmp_send_error + nat) \<times> icmp_socket) option" where
  "icmp_send_with max_size endpoint f s =
     (if addr_is_unspecified (Ipv4 endpoint) then Some (Inl IcmpSendUnaddressable, s)
      else do {
        (res, tx) \<leftarrow> enqueue_with_infallible max_size endpoint f (icmp_tx s);
        Some (case res of Inl _ \<Rightarrow> Inl IcmpBufferFull | Inr n \<Rightarrow> Inr n, s\<lparr>icmp_tx := tx\<rparr>) })"

definition icmp_send_slice :: "u8 list \<Rightarrow> ipv4_address \<Rightarrow> icmp_socket \<Rightarrow> ((icmp_send_error + unit) \<times> icmp_socket) option" where
  "icmp_send_slice data endpoint s =
     (if addr_is_unspecified (Ipv4 endpoint) then Some (Inl IcmpSendUnaddressable, s)
      else do {
        (stored, tx) \<leftarrow> pb_put endpoint data (icmp_tx s);
        Some (if stored then Inr () else Inl IcmpBufferFull, s\<lparr>icmp_tx := tx\<rparr>) })"

definition icmp_recv :: "icmp_socket \<Rightarrow> ((icmp_recv_error + u8 list \<times> ipv4_address) \<times> icmp_socket) option" where
  "icmp_recv s = do {
     (res, rx) \<leftarrow> pb_dequeue (icmp_rx s);
     Some (case res of Inl _ \<Rightarrow> Inl IcmpExhausted | Inr (a, xs) \<Rightarrow> Inr (xs, a), s\<lparr>icmp_rx := rx\<rparr>) }"

definition icmp_recv_slice :: "u8 list \<Rightarrow> icmp_socket \<Rightarrow> ((icmp_recv_error + nat \<times> ipv4_address) \<times> u8 list \<times> icmp_socket) option" where
  "icmp_recv_slice data s = do {
     (res, s) \<leftarrow> icmp_recv s;
     Some (case res of
         Inl e \<Rightarrow> (Inl e, data, s)
       | Inr (buffer, a) \<Rightarrow>
           if length data < length buffer then (Inl IcmpTruncated, data, s)
           else let n = min (length data) (length buffer) in (Inr (n, a), overwrite data 0 (take n buffer), s)) }"

definition icmp_send_queue :: "icmp_socket \<Rightarrow> nat" where "icmp_send_queue s = payload_bytes_count (icmp_tx s)"

definition icmp_recv_queue :: "icmp_socket \<Rightarrow> nat" where "icmp_recv_queue s = payload_bytes_count (icmp_rx s)"

section \<open>Operations of the interface\<close>

text \<open>
  A socket that is bound to a UDP port takes the errors that embed a UDP datagram sent from that port; one that is
  bound to an identifier takes the echo messages with it.
\<close>

definition accepts_error :: "checksum_capabilities \<Rightarrow> ip_listen_endpoint \<Rightarrow> ipv4_address ip_header \<Rightarrow> u8 list \<Rightarrow> bool option" where
  "accepts_error caps e header data = do {
     parsed \<leftarrow> udp_parse (Ipv4 (ih_src_addr header)) (Ipv4 (ih_dst_addr header)) caps data;
     Some (case parsed of Inl _ \<Rightarrow> False | Inr r \<Rightarrow> le_port e = udp_repr_src_port r) }"

definition icmp_accepts_v4 :: "checksum_capabilities \<Rightarrow> ipv4_address ip_header \<Rightarrow> icmpv4_repr \<Rightarrow> icmp_socket \<Rightarrow> bool option" where
  "icmp_accepts_v4 caps ip r s =
     (case (icmp_endpoint s, r) of
        (IcmpUdp e, DstUnreachable _ header data) \<Rightarrow>
          if le_addr e = None \<or> le_addr e = Some (Ipv4 (ih_dst_addr ip)) then accepts_error caps e header data else Some False
      | (IcmpUdp e, TimeExceeded _ header data) \<Rightarrow>
          if le_addr e = None \<or> le_addr e = Some (Ipv4 (ih_dst_addr ip)) then accepts_error caps e header data else Some False
      | (IcmpIdent bound_ident, EchoRequest ident _ _) \<Rightarrow> Some (ident = bound_ident)
      | (IcmpIdent bound_ident, EchoReply ident _ _) \<Rightarrow> Some (ident = bound_ident)
      | _ \<Rightarrow> Some False)"

definition caps_default :: checksum_capabilities where
  "caps_default = \<lparr>caps_ipv4 = ChecksumBoth, caps_udp = ChecksumBoth, caps_tcp = ChecksumBoth, caps_icmpv4 = ChecksumBoth, caps_icmpv6 = ChecksumBoth\<rparr>"

text \<open>The message is built again from its representation in the slice of the receive buffer.\<close>

definition icmp_process_v4 :: "ipv4_address ip_header \<Rightarrow> icmpv4_repr \<Rightarrow> icmp_socket \<Rightarrow> icmp_socket option" where
  "icmp_process_v4 ip r s = do {
     (_, rx) \<leftarrow> pb_fill (icmpv4_buffer_len r) (ih_src_addr ip) (icmpv4_emit r caps_default) (icmp_rx s);
     Some (s\<lparr>icmp_rx := rx\<rparr>) }"

type_synonym icmp_packet = "ipv4_address ip_header \<times> icmpv4_repr"

definition icmp_packet_for :: "ip_cidr list \<Rightarrow> icmp_socket \<Rightarrow> ipv4_address \<Rightarrow> u8 list \<Rightarrow> icmp_packet option option" where
  "icmp_packet_for addrs s dst buf =
     (case get_source_address_ipv4 addrs of
        None \<Rightarrow> Some None
      | Some src \<Rightarrow> do {
          parsed \<leftarrow> icmpv4_parse caps_ignored buf;
          case parsed of
            Inl _ \<Rightarrow> Some None
          | Inr r \<Rightarrow> Some (Some (\<lparr>ih_src_addr = src, ih_dst_addr = dst, ih_next_header = ProtoIcmp, ih_payload_len = icmpv4_buffer_len r,
              ih_hop_limit = (case icmp_hop_limit s of Some h \<Rightarrow> h | None \<Rightarrow> 64)\<rparr>, r)) })"

definition icmp_dispatch ::
  "(icmp_packet \<Rightarrow> 'e + unit) \<Rightarrow> ip_cidr list \<Rightarrow> icmp_socket \<Rightarrow> (icmp_packet option \<times> ('e + unit) \<times> icmp_socket) option" where
  "icmp_dispatch emit addrs s = do {
     (res, tx) \<leftarrow> pb_dequeue_with (\<lambda>dst buf.
        (case icmp_packet_for addrs s dst buf of
           None \<Rightarrow> Inl None
         | Some None \<Rightarrow> Inr None
         | Some (Some p) \<Rightarrow> (case emit p of Inl e \<Rightarrow> Inl (Some (p, e)) | Inr _ \<Rightarrow> Inr (Some p)), dst, buf)) (icmp_tx s);
     case res of
       Inl Empty \<Rightarrow> Some (None, Inr (), s\<lparr>icmp_tx := tx\<rparr>)
     | Inr (Inl None) \<Rightarrow> None
     | Inr (Inl (Some (p, e))) \<Rightarrow> Some (Some p, Inl e, s\<lparr>icmp_tx := tx\<rparr>)
     | Inr (Inr p) \<Rightarrow> Some (p, Inr (), s\<lparr>icmp_tx := tx\<rparr>) }"

definition icmp_poll_at :: "icmp_socket \<Rightarrow> poll_at" where
  "icmp_poll_at s = (if pb_is_empty (icmp_tx s) then PollIngress else PollNow)"

section \<open>Invariant\<close>

definition icmp_inv :: "icmp_socket \<Rightarrow> bool" where
  "icmp_inv s \<longleftrightarrow> pb_inv (icmp_rx s) \<and> pb_inv (icmp_tx s) \<and> icmp_hop_limit s \<noteq> Some 0 \<and>
     (\<forall>(a, _) \<in> set (pb_packets (icmp_tx s)). \<not> addr_is_unspecified (Ipv4 a))"

abbreviation icmp_received :: "icmp_socket \<Rightarrow> (ipv4_address \<times> u8 list) list" where "icmp_received s \<equiv> pb_packets (icmp_rx s)"

abbreviation icmp_queued :: "icmp_socket \<Rightarrow> (ipv4_address \<times> u8 list) list" where "icmp_queued s \<equiv> pb_packets (icmp_tx s)"

lemma icmp_new_inv: "pb_inv rx \<Longrightarrow> pb_inv tx \<Longrightarrow> pb_packets tx = [] \<Longrightarrow> icmp_inv (icmp_new rx tx)"
  by (simp add: icmp_inv_def icmp_new_def)

lemma icmp_bind_inv: "icmp_inv s \<Longrightarrow> icmp_inv (snd (icmp_bind e s))"
  by (simp add: icmp_bind_def icmp_inv_def)

lemma icmp_set_hop_limit_inv: "icmp_inv s \<Longrightarrow> icmp_set_hop_limit h s = Some s' \<Longrightarrow> icmp_inv s'"
  by (cases "h = Some 0") (auto simp: icmp_set_hop_limit_def icmp_inv_def)

section \<open>Emitting never panics\<close>

lemma icmpv4_emit_error_total:
  assumes "length d = 28 + length data"
  shows "\<exists>x. icmpv4_emit_error ty code header data caps d = Some x \<and> length x = length d"
proof -
  define h where "h = overwrite (overwrite d 0 [icmpv4_message_into ty]) 1 [code]"
  have l: "length h = length d" "8 \<le> length h" "20 \<le> length (drop 8 h)" using assms by (simp_all add: h_def)
  have "d \<noteq> []" using assms by auto
  then have s: "icmpv4_set_msg_type ty d = Some (overwrite d 0 [icmpv4_message_into ty])"
    "icmpv4_set_msg_code code (overwrite d 0 [icmpv4_message_into ty]) = Some h"
    using assms by (simp_all add: icmpv4_setters put_at put_u8_0 h_def)
  obtain ck :: u16 where e: "ipv4_emit header caps (drop 8 h) = Some (overwrite (ipv4_octets header (drop 8 h)) 10 (be_bytes 2 ck))"
    using ipv4_emit_ok [OF l(3), of header caps] by metis
  define w where "w = overwrite (ipv4_octets header (drop 8 h)) 10 (be_bytes 2 ck)"
  have w: "length w = 20 + length data" using ipv4_octets_fields(1) [OF l(3), of header] l assms by (simp add: w_def)
  have "icmpv4_emit_error ty code header data caps d = Some (overwrite h 8 (overwrite w 20 data))"
    unfolding icmpv4_emit_error_def s bind.simps icmpv4_data_mut_at [OF l(2)] e
    using w by (simp add: ipv4_buffer_len_def IPV4_HEADER_LEN_def flip: w_def)
  then show ?thesis using l w assms by simp
qed

lemma icmpv4_emit_total:
  assumes "length buf = icmpv4_buffer_len r"
  shows "\<exists>bs. icmpv4_emit r caps buf = Some bs \<and> length bs = length buf"
proof -
  let ?b = "overwrite buf 1 [0]"
  have l: "8 \<le> length buf" using assms by (cases r) simp_all
  then have b: "icmpv4_set_msg_code 0 buf = Some ?b" "length ?b = length buf" by (simp_all add: icmpv4_set_msg_code_def put_at)
  have "\<exists>x. (case r of
         EchoRequest ident seq_no data \<Rightarrow> icmpv4_emit_echo IcmpEchoRequest ident seq_no data ?b
       | EchoReply ident seq_no data \<Rightarrow> icmpv4_emit_echo IcmpEchoReply ident seq_no data ?b
       | DstUnreachable reason header data \<Rightarrow> icmpv4_emit_error IcmpDstUnreachable (dst_unreachable_into reason) header data caps ?b
       | TimeExceeded reason header data \<Rightarrow> icmpv4_emit_error IcmpTimeExceeded (time_exceeded_into reason) header data caps ?b) = Some x
     \<and> length x = length buf"
  proof (cases r)
    case (EchoRequest i n data)
    then show ?thesis using icmpv4_emit_echo_ok [of ?b data IcmpEchoRequest i n] assms b(2) by auto
  next
    case (EchoReply i n data)
    then show ?thesis using icmpv4_emit_echo_ok [of ?b data IcmpEchoReply i n] assms b(2) by auto
  next
    case (DstUnreachable reason header data)
    then show ?thesis using icmpv4_emit_error_total [of ?b data] assms b(2) by (simp add: ipv4_buffer_len_def IPV4_HEADER_LEN_def)
  next
    case (TimeExceeded reason header data)
    then show ?thesis using icmpv4_emit_error_total [of ?b data] assms b(2) by (simp add: ipv4_buffer_len_def IPV4_HEADER_LEN_def)
  qed
  then obtain x where x: "icmpv4_emit r caps buf = (if checksum_tx (caps_icmpv4 caps) then icmpv4_fill_checksum x else icmpv4_set_checksum 0 x)"
    "length x = length buf"
    unfolding icmpv4_emit_def b(1) bind.simps by force
  then show ?thesis using l by (auto simp: icmpv4_fill_checksum_def icmpv4_set_checksum_def put_at)
qed




lemma icmp_accepts_v4_total: "icmp_accepts_v4 caps ip r s \<noteq> None"
proof -
  have "accepts_error caps e header data \<noteq> None" for e header data
    using udp_parse_total [of "Ipv4 (ih_src_addr header)" "Ipv4 (ih_dst_addr header)" caps data]
    by (auto simp: accepts_error_def same_version_def)
  then show ?thesis by (auto simp: icmp_accepts_v4_def split: icmp_endpoint.splits icmpv4_repr.splits)
qed

section \<open>Receiving and sending\<close>

text \<open>What the user receives is a message that parses as the one that arrived, when the message fits the format.\<close>

definition icmp_copy_of :: "icmpv4_repr \<Rightarrow> u8 list \<Rightarrow> bool" where
  "icmp_copy_of r data \<longleftrightarrow> length data = icmpv4_buffer_len r \<and> (icmpv4_fits r \<longrightarrow> icmpv4_parse caps_default data = Some (Inr r))"

lemma icmp_process_v4_ok:
  assumes inv: "icmp_inv s"
  obtains stored data s' where "icmp_process_v4 ip r s = Some s'" "icmp_inv s'" "icmp_queued s' = icmp_queued s"
    "icmp_received s' = icmp_received s @ (if stored then [(ih_src_addr ip, data)] else [])" "icmp_copy_of r data"
    "icmp_endpoint s' = icmp_endpoint s"
    "pb_is_empty (icmp_rx s) \<and> 0 < packet_capacity (icmp_rx s) \<and> icmpv4_buffer_len r \<le> payload_capacity (icmp_rx s) \<longrightarrow> stored"
proof -
  have fill: "\<exists>data. icmpv4_emit r caps_default old = Some data \<and> length data = icmpv4_buffer_len r \<and> icmp_copy_of r data"
    if "length old = icmpv4_buffer_len r" for old
  proof (cases "icmpv4_fits r")
    case True
    then show ?thesis using icmpv4_format.emitted [of caps_default r old] that
      by (auto simp: icmp_copy_of_def icmpv4_env_ok_def caps_default_def)
  next
    case False
    then show ?thesis using icmpv4_emit_total [OF that, of caps_default] that by (auto simp: icmp_copy_of_def)
  qed
  have rx: "pb_inv (icmp_rx s)" using inv by (simp add: icmp_inv_def)
  show thesis
  proof (cases rule: pb_fill_ok [where P = "icmp_copy_of r" and n = "icmpv4_buffer_len r" and fill = "icmpv4_emit r caps_default" and h = "ih_src_addr ip",
      OF rx fill, case_names len full stored])
    case (full b)
    obtain data where "icmp_copy_of r data" using fill [of "replicate (icmpv4_buffer_len r) 0"] by auto
    with full inv show thesis
      by (intro that [of "s\<lparr>icmp_rx := b\<rparr>" False data]) (auto simp: icmp_process_v4_def icmp_inv_def)
  next
    case (stored data b)
    then show thesis using inv
      by (intro that [of "s\<lparr>icmp_rx := b\<rparr>" True data]) (auto simp: icmp_process_v4_def icmp_inv_def)
  qed assumption
qed

lemma icmp_recv_ok:
  assumes "icmp_inv s"
  obtains s' where "icmp_recv s = Some (case icmp_received s of [] \<Rightarrow> Inl IcmpExhausted | (a, xs) # _ \<Rightarrow> Inr (xs, a), s')" "icmp_inv s'"
    "icmp_received s' = tl (icmp_received s)" "icmp_queued s' = icmp_queued s"
proof -
  have "pb_inv (icmp_rx s)" using assms by (simp add: icmp_inv_def)
  then obtain rx where rx: "pb_dequeue (icmp_rx s) = Some (case icmp_received s of [] \<Rightarrow> Inl Empty | x # _ \<Rightarrow> Inr x, rx)" "pb_inv rx"
    "pb_packets rx = tl (icmp_received s)"
    by (rule pb_dequeue_ok)
  show thesis using assms rx
    by (intro that [of "s\<lparr>icmp_rx := rx\<rparr>"]) (auto simp: icmp_recv_def icmp_inv_def split: list.splits prod.splits)
qed

lemma icmp_send_slice_ok:
  assumes inv: "icmp_inv s" and dst: "\<not> addr_is_unspecified (Ipv4 dst)"
  obtains stored s' where "icmp_send_slice data dst s = Some (if stored then Inr () else Inl IcmpBufferFull, s')" "icmp_inv s'"
    "icmp_queued s' = icmp_queued s @ (if stored then [(dst, data)] else [])" "icmp_received s' = icmp_received s"
    "pb_is_empty (icmp_tx s) \<and> 0 < packet_capacity (icmp_tx s) \<and> length data \<le> payload_capacity (icmp_tx s) \<longrightarrow> stored"
proof -
  have "pb_inv (icmp_tx s)" using inv by (simp add: icmp_inv_def)
  then obtain stored tx where "pb_put dst data (icmp_tx s) = Some (stored, tx)" "pb_inv tx"
    "pb_packets tx = icmp_queued s @ (if stored then [(dst, data)] else [])"
    "pb_is_empty (icmp_tx s) \<and> 0 < packet_capacity (icmp_tx s) \<and> length data \<le> payload_capacity (icmp_tx s) \<longrightarrow> stored"
    by (rule pb_put_ok)
  then show thesis using inv dst
    by (intro that [of stored "s\<lparr>icmp_tx := tx\<rparr>"]) (auto simp: icmp_send_slice_def icmp_inv_def split: if_splits)
qed

lemma icmp_packet_for_ok:
  obtains out where "icmp_packet_for addrs s dst buf = Some out"
    "\<And>ip r. out = Some (ip, r) \<Longrightarrow> icmpv4_parse caps_ignored buf = Some (Inr r) \<and> ih_dst_addr ip = dst \<and>
       get_source_address_ipv4 addrs = Some (ih_src_addr ip) \<and> ih_payload_len ip = icmpv4_buffer_len r \<and> ih_next_header ip = ProtoIcmp"
proof -
  obtain res where "icmpv4_parse caps_ignored buf = Some res" using icmpv4_parse_total by blast
  then show thesis
    by (cases "get_source_address_ipv4 addrs"; cases res)
      (auto simp: icmp_packet_for_def intro: that)
qed

lemma icmp_dispatch_ok:
  assumes inv: "icmp_inv s"
  obtains out res s' where "icmp_dispatch emit addrs s = Some (out, res, s')" "icmp_inv s'" "icmp_received s' = icmp_received s"
    "case out of None \<Rightarrow> res = Inr () \<and> icmp_queued s' = tl (icmp_queued s)
     | Some (ip, r) \<Rightarrow> (\<exists>buf. icmp_queued s \<noteq> [] \<and> hd (icmp_queued s) = (ih_dst_addr ip, buf) \<and> icmpv4_parse caps_ignored buf = Some (Inr r)) \<and>
         get_source_address_ipv4 addrs = Some (ih_src_addr ip) \<and> ih_payload_len ip = icmpv4_buffer_len r \<and> ih_next_header ip = ProtoIcmp \<and>
         \<not> addr_is_unspecified (Ipv4 (ih_dst_addr ip)) \<and>
         res = emit (ip, r) \<and> icmp_queued s' = (if isl res then icmp_queued s else tl (icmp_queued s))"
proof -
  let ?f = "\<lambda>dst buf. (case icmp_packet_for addrs s dst buf of
           None \<Rightarrow> Inl None
         | Some None \<Rightarrow> Inr None
         | Some (Some p) \<Rightarrow> (case emit p of Inl e \<Rightarrow> Inl (Some (p, e)) | Inr _ \<Rightarrow> Inr (Some p)), dst, buf)"
  have tx: "pb_inv (icmp_tx s)" using inv by (simp add: icmp_inv_def)
  have f: "length (snd (snd (?f h xs))) = length xs" for h xs by simp
  show thesis
  proof (cases rule: pb_dequeue_with_ok [where f = ?f, OF tx f, case_names none some])
    case (none b)
    then show thesis using inv by (intro that [of None "Inr ()" "s\<lparr>icmp_tx := b\<rparr>"]) (simp_all add: icmp_dispatch_def icmp_inv_def)
  next
    case (some h xs rest b)
    obtain out where o: "icmp_packet_for addrs s h xs = Some out"
      "\<And>ip r. out = Some (ip, r) \<Longrightarrow> icmpv4_parse caps_ignored xs = Some (Inr r) \<and> ih_dst_addr ip = h \<and>
         get_source_address_ipv4 addrs = Some (ih_src_addr ip) \<and> ih_payload_len ip = icmpv4_buffer_len r \<and> ih_next_header ip = ProtoIcmp"
      using icmp_packet_for_ok [of addrs s h xs] by metis
    show thesis
    proof (cases out)
      case None
      then show thesis using inv some o
        by (intro that [of None "Inr ()" "s\<lparr>icmp_tx := b\<rparr>"]) (auto simp: icmp_dispatch_def icmp_inv_def)
    next
      case (Some p)
      obtain ip r where p: "p = (ip, r)" by (cases p)
      note q = o(2) [of ip r]
      show thesis using inv some o(1) q Some p
        by (intro that [of "Some p" "emit p" "s\<lparr>icmp_tx := b\<rparr>"]) (auto simp: icmp_dispatch_def icmp_inv_def split: sum.splits)
    qed
  qed
qed

end
