(* ===== verification/Socket_Set.thy ===== *)
theory Socket_Set
  imports Raw_Socket Icmp_Socket Udp_Socket Tcp_Dispatch Routing
begin

text \<open>
  \<open>src/smoltcp/src/iface/socket_set.rs\<close>, \<open>socket_meta.rs\<close> and \<open>src/smoltcp/src/socket/mod.rs\<close>: the sockets of an application,
  the conversions between a socket and its variant, and what the interface keeps about each socket. The configuration
  has the raw, ICMP, UDP and TCP sockets.
\<close>

section \<open>Sockets and their metadata\<close>

datatype socket = SockRaw raw_socket | SockIcmp icmp_socket | SockUdp udp_socket | SockTcp tcp_socket

fun downcast_raw :: "socket \<Rightarrow> raw_socket option" where
  "downcast_raw (SockRaw s) = Some s" | "downcast_raw _ = None"

fun downcast_icmp :: "socket \<Rightarrow> icmp_socket option" where
  "downcast_icmp (SockIcmp s) = Some s" | "downcast_icmp _ = None"

fun downcast_udp :: "socket \<Rightarrow> udp_socket option" where
  "downcast_udp (SockUdp s) = Some s" | "downcast_udp _ = None"

fun downcast_tcp :: "socket \<Rightarrow> tcp_socket option" where
  "downcast_tcp (SockTcp s) = Some s" | "downcast_tcp _ = None"

definition socket_poll_at :: "iface_context \<Rightarrow> socket \<Rightarrow> poll_at option" where
  "socket_poll_at cx s =
     (case s of
        SockRaw s \<Rightarrow> Some (raw_poll_at s)
      | SockIcmp s \<Rightarrow> Some (icmp_poll_at s)
      | SockUdp s \<Rightarrow> Some (udp_poll_at s)
      | SockTcp s \<Rightarrow> tcp_poll_at cx s)"

datatype neighbor_state = NsActive | NsWaiting ip_address instant

record socket_meta =
  meta_handle :: nat
  meta_neighbor_state :: neighbor_state

definition DISCOVERY_SILENT_TIME :: duration where "DISCOVERY_SILENT_TIME = duration_from_millis 1000"

definition meta_poll_at :: "poll_at \<Rightarrow> (ip_address \<Rightarrow> bool option) \<Rightarrow> socket_meta \<Rightarrow> poll_at option" where
  "meta_poll_at wish has_neighbor m =
     (case meta_neighbor_state m of
        NsActive \<Rightarrow> Some wish
      | NsWaiting neighbor silent \<Rightarrow> do {
          b \<leftarrow> has_neighbor neighbor;
          Some (if b then wish else PollTime silent) })"

definition egress_permitted :: "instant \<Rightarrow> (ip_address \<Rightarrow> bool option) \<Rightarrow> socket_meta \<Rightarrow> (bool \<times> socket_meta) option" where
  "egress_permitted now has_neighbor m =
     (case meta_neighbor_state m of
        NsActive \<Rightarrow> Some (True, m)
      | NsWaiting neighbor silent \<Rightarrow> do {
          b \<leftarrow> has_neighbor neighbor;
          Some (if b then (True, m\<lparr>meta_neighbor_state := NsActive\<rparr>)
                else if silent \<le> now then (True, m)
                else (False, m)) })"

definition neighbor_missing :: "instant \<Rightarrow> ip_address \<Rightarrow> socket_meta \<Rightarrow> socket_meta" where
  "neighbor_missing now neighbor m =
     m\<lparr>meta_neighbor_state := NsWaiting neighbor (instant_add now DISCOVERY_SILENT_TIME)\<rparr>"

section \<open>The set\<close>

record item =
  item_meta :: socket_meta
  item_socket :: socket

text \<open>The slots; \<open>ss_owned\<close> says whether the storage is a \<open>Vec\<close>, which grows.\<close>

type_synonym slots = "item option list"

record socket_set =
  ss_owned :: bool
  ss_slots :: slots

definition ss_new :: "bool \<Rightarrow> slots \<Rightarrow> socket_set" where "ss_new owned slots = \<lparr>ss_owned = owned, ss_slots = slots\<rparr>"

definition new_item :: "nat \<Rightarrow> socket \<Rightarrow> item" where
  "new_item index s = \<lparr>item_meta = \<lparr>meta_handle = index, meta_neighbor_state = NsActive\<rparr>, item_socket = s\<rparr>"

definition ss_add :: "socket \<Rightarrow> socket_set \<Rightarrow> (nat \<times> socket_set) option" where
  "ss_add s ss =
     (case find_index (\<lambda>slot. slot = None) (ss_slots ss) of
        Some index \<Rightarrow> Some (index, ss\<lparr>ss_slots := (ss_slots ss)[index := Some (new_item index s)]\<rparr>)
      | None \<Rightarrow> do {
          panic_unless (ss_owned ss);
          let index = length (ss_slots ss);
          Some (index, ss\<lparr>ss_slots := ss_slots ss @ [Some (new_item index s)]\<rparr>) })"

definition ss_slot :: "nat \<Rightarrow> socket_set \<Rightarrow> item option" where
  "ss_slot handle ss = (if handle < length (ss_slots ss) then ss_slots ss ! handle else None)"

definition ss_get :: "(socket \<Rightarrow> 'a option) \<Rightarrow> nat \<Rightarrow> socket_set \<Rightarrow> 'a option" where
  "ss_get downcast handle ss = do { it \<leftarrow> ss_slot handle ss; downcast (item_socket it) }"

text \<open>\<open>get_mut\<close> lends the socket: the borrower \<open>f\<close> changes it.\<close>

definition ss_get_mut :: "('a \<Rightarrow> socket) \<Rightarrow> (socket \<Rightarrow> 'a option) \<Rightarrow> nat \<Rightarrow> ('a \<Rightarrow> 'a) \<Rightarrow> socket_set \<Rightarrow> socket_set option" where
  "ss_get_mut upcast downcast handle f ss = do {
     it \<leftarrow> ss_slot handle ss;
     s \<leftarrow> downcast (item_socket it);
     Some (ss\<lparr>ss_slots := (ss_slots ss)[handle := Some (it\<lparr>item_socket := upcast (f s)\<rparr>)]\<rparr>) }"

definition ss_remove :: "nat \<Rightarrow> socket_set \<Rightarrow> (socket \<times> socket_set) option" where
  "ss_remove handle ss = do {
     it \<leftarrow> ss_slot handle ss;
     Some (item_socket it, ss\<lparr>ss_slots := (ss_slots ss)[handle := None]\<rparr>) }"

definition ss_items :: "slots \<Rightarrow> item list" where "ss_items slots = List.map_filter id slots"

definition ss_iter :: "socket_set \<Rightarrow> (nat \<times> socket) list" where
  "ss_iter ss = map (\<lambda>it. (meta_handle (item_meta it), item_socket it)) (ss_items (ss_slots ss))"

text \<open>The set is a finite map from handles to sockets.\<close>

definition ss_map :: "socket_set \<Rightarrow> nat \<rightharpoonup> socket" where "ss_map ss h = map_option item_socket (ss_slot h ss)"

definition ss_inv :: "socket_set \<Rightarrow> bool" where
  "ss_inv ss \<longleftrightarrow> (\<forall>h it. ss_slot h ss = Some it \<longrightarrow> meta_handle (item_meta it) = h)"

lemma ss_slot_update:
  "h < length (ss_slots ss) \<Longrightarrow> ss_slot h' (ss\<lparr>ss_slots := (ss_slots ss)[h := x]\<rparr>) = (if h' = h then x else ss_slot h' ss)"
  by (simp add: ss_slot_def)

lemma ss_slot_append:
  "ss_slot h (ss\<lparr>ss_slots := ss_slots ss @ [x]\<rparr>) = (if h = length (ss_slots ss) then x else ss_slot h ss)"
  by (auto simp: ss_slot_def nth_append)

lemma ss_slotD: "ss_slot h ss = Some it \<Longrightarrow> h < length (ss_slots ss)"
  by (simp add: ss_slot_def split: if_splits)

lemma ss_map_slot:
  assumes "\<And>h'. ss_slot h' ss' = (if h' = h then Some it else ss_slot h' ss)" and "ss_inv ss" and "meta_handle (item_meta it) = h"
  shows "ss_map ss' = (ss_map ss)(h \<mapsto> item_socket it)" and "ss_inv ss'"
  using assms by (auto simp: ss_map_def ss_inv_def fun_eq_iff)

lemma ss_add_ok:
  assumes inv: "ss_inv ss"
  shows "case ss_add s ss of
       None \<Rightarrow> \<not> ss_owned ss \<and> dom (ss_map ss) = {..<length (ss_slots ss)}
     | Some (h, ss') \<Rightarrow> ss_map ss h = None \<and> ss_map ss' = (ss_map ss)(h \<mapsto> s) \<and> ss_inv ss'"
proof (cases "find_index (\<lambda>slot. slot = None) (ss_slots ss)")
  case None
  then have full: "\<forall>x \<in> set (ss_slots ss). x \<noteq> None" by (simp add: find_index_None)
  show ?thesis
  proof (cases "ss_owned ss")
    case True
    let ?n = "length (ss_slots ss)"
    let ?it = "new_item ?n s"
    have "ss_map ss ?n = None" by (simp add: ss_map_def ss_slot_def)
    moreover note ss_map_slot [OF ss_slot_append, of ss ?it, OF inv]
    ultimately show ?thesis using None True by (simp add: ss_add_def Let_def new_item_def)
  next
    case False
    have "dom (ss_map ss) = {..<length (ss_slots ss)}" using full by (auto simp: dom_def ss_map_def ss_slot_def)
    then show ?thesis using None False by (simp add: ss_add_def)
  qed
next
  case (Some i)
  then have i: "i < length (ss_slots ss)" "ss_slots ss ! i = None" using find_index_Some by fastforce+
  have "ss_map ss i = None" using i by (simp add: ss_map_def ss_slot_def)
  moreover note ss_map_slot [OF ss_slot_update [OF i(1)], of "new_item i s", OF inv]
  ultimately show ?thesis using Some by (simp add: ss_add_def new_item_def)
qed

section \<open>The sockets of one kind\<close>

text \<open>
  The loops of the interface run over \<open>items_mut().filter_map(downcast_mut)\<close>: the sockets of one kind are taken out in
  their order, and written back to their places.
\<close>

definition select_sockets :: "(socket \<Rightarrow> 'a option) \<Rightarrow> slots \<Rightarrow> 'a list" where
  "select_sockets downcast slots = List.map_filter (\<lambda>slot. Option.bind slot (downcast \<circ> item_socket)) slots"

fun put_sockets :: "('a \<Rightarrow> socket) \<Rightarrow> (socket \<Rightarrow> 'a option) \<Rightarrow> 'a list \<Rightarrow> slots \<Rightarrow> slots" where
  "put_sockets upcast downcast [] slots = slots"
| "put_sockets upcast downcast (x # xs) [] = []"
| "put_sockets upcast downcast (x # xs) (slot # slots) =
     (case slot of
        None \<Rightarrow> None # put_sockets upcast downcast (x # xs) slots
      | Some it \<Rightarrow>
          (case downcast (item_socket it) of
             None \<Rightarrow> Some it # put_sockets upcast downcast (x # xs) slots
           | Some _ \<Rightarrow> Some (it\<lparr>item_socket := upcast x\<rparr>) # put_sockets upcast downcast xs slots))"

lemma put_sockets_Nil [simp]: "put_sockets up down xs [] = []"
  by (cases xs) simp_all

lemma select_sockets_simps [simp]:
  "select_sockets down [] = []"
  "select_sockets down (None # slots) = select_sockets down slots"
  "select_sockets down (Some it # slots) =
     (case down (item_socket it) of None \<Rightarrow> select_sockets down slots | Some x \<Rightarrow> x # select_sockets down slots)"
  by (simp_all add: select_sockets_def List.map_filter_def split: option.split)

text \<open>The sockets in the slots.\<close>

definition slot_sockets :: "slots \<Rightarrow> socket set" where "slot_sockets slots = item_socket ` set (ss_items slots)"

lemma slot_sockets_simps [simp]:
  "slot_sockets [] = {}" "slot_sockets (None # slots) = slot_sockets slots"
  "slot_sockets (Some it # slots) = insert (item_socket it) (slot_sockets slots)"
  by (simp_all add: slot_sockets_def ss_items_def List.map_filter_def)

text \<open>The conversions of \<open>AnySocket\<close>, and what holds of the sockets that they take out and put back.\<close>

locale any_socket =
  fixes upcast :: "'a \<Rightarrow> socket" and downcast :: "socket \<Rightarrow> 'a option"
  assumes down_up [simp]: "downcast (upcast x) = Some x" and up_down: "downcast s = Some x \<Longrightarrow> upcast x = s"
begin

lemma select_put:
  "length xs = length (select_sockets downcast slots) \<Longrightarrow> select_sockets downcast (put_sockets upcast downcast xs slots) = xs"
proof (induction slots arbitrary: xs)
  case (Cons slot slots)
  then show ?case
    by (cases xs; cases slot; cases "downcast (item_socket (the slot))") (auto simp: length_Suc_conv)
qed simp

lemma put_select: "put_sockets upcast downcast (select_sockets downcast slots) slots = slots"
proof (induction slots)
  case (Cons slot slots)
  show ?case
  proof (cases slot)
    case None
    then show ?thesis using Cons by (cases "select_sockets downcast slots") simp_all
  next
    case (Some it)
    show ?thesis
    proof (cases "downcast (item_socket it)")
      case None
      then show ?thesis using Some Cons by (cases "select_sockets downcast slots") simp_all
    next
      case (Some x)
      then have "it\<lparr>item_socket := upcast x\<rparr> = it" using up_down by (cases it) auto
      then show ?thesis using Some \<open>slot = Some it\<close> Cons by simp
    qed
  qed
qed simp

lemma put_other:
  assumes other: "\<And>x. other (upcast x) = None"
  shows "select_sockets other (put_sockets upcast downcast xs slots) = select_sockets other slots"
proof (induction slots arbitrary: xs)
  case (Cons slot slots)
  have "other (item_socket it) = None" if "downcast (item_socket it) = Some y" for it y
    using other [of y] up_down [OF that] by simp
  then show ?case using Cons other
    by (cases xs; cases slot; cases "downcast (item_socket (the slot))") (auto split: option.split)
qed simp

lemma select_in: "x \<in> set (select_sockets downcast slots) \<Longrightarrow> upcast x \<in> slot_sockets slots"
proof (induction slots)
  case (Cons slot slots)
  then show ?case by (cases slot) (auto dest: up_down split: option.splits)
qed simp

lemma put_subset: "slot_sockets (put_sockets upcast downcast xs slots) \<subseteq> slot_sockets slots \<union> upcast ` set xs"
proof (induction slots arbitrary: xs)
  case (Cons slot slots)
  show ?case using Cons [of xs] Cons [of "tl xs"]
    by (cases xs; cases slot; cases "downcast (item_socket (the slot))") auto
qed simp

lemma put_all:
  assumes "\<forall>s \<in> slot_sockets slots. P s" and "\<forall>x \<in> set xs. P (upcast x)"
  shows "\<forall>s \<in> slot_sockets (put_sockets upcast downcast xs slots). P s"
  using assms put_subset [of xs slots] by blast

lemma put_metas: "map (map_option item_meta) (put_sockets upcast downcast xs slots) = map (map_option item_meta) slots"
proof (induction slots arbitrary: xs)
  case (Cons slot slots)
  then show ?case
    by (cases xs; cases slot; cases "downcast (item_socket (the slot))") auto
qed simp

end

interpretation raw_kind: any_socket SockRaw downcast_raw
  by unfold_locales (auto elim: downcast_raw.elims)

interpretation icmp_kind: any_socket SockIcmp downcast_icmp
  by unfold_locales (auto elim: downcast_icmp.elims)

interpretation udp_kind: any_socket SockUdp downcast_udp
  by unfold_locales (auto elim: downcast_udp.elims)

interpretation tcp_kind: any_socket SockTcp downcast_tcp
  by unfold_locales (auto elim: downcast_tcp.elims)

section \<open>Properties\<close>



end
