(* ===== verification/Iface_Ipv4.thy ===== *)
theory Iface_Ipv4
  imports Socket_Set Iface_Tcp Ip_Dispatch
begin

text \<open>
  The way of a frame from the device to the sockets and of the answer back: \<open>socket_ingress\<close>, \<open>process_ip\<close>,
  \<open>raw_socket_filter\<close> and \<open>dispatch\<close> of \<open>src/smoltcp/src/iface/interface/mod.rs\<close>, \<open>process_ethernet\<close> of \<open>ethernet.rs\<close>,
  \<open>process_ipv4\<close>, \<open>process_arp\<close>, \<open>process_icmpv4\<close> and \<open>icmpv4_reply\<close> of \<open>ipv4.rs\<close>, and \<open>process_udp\<close> of \<open>udp.rs\<close>. The
  configuration is IPv4 on Ethernet and IP media, with fragmentation and the raw, ICMP, UDP and TCP sockets; multicast
  groups, DHCP and DNS are off.
\<close>

section \<open>The interface\<close>

text \<open>\<open>Interface\<close>: the inner state, the slots for reassembly and the fragmenter.\<close>

record 'm interface =
  in_inner :: "'m iface"
  in_assembler :: "ipv4_key packet_assembler_set"
  in_reassembly_timeout :: duration
  in_fragmenter :: fragmenter

text \<open>
  What the interface has from outside: the map of the neighbor cache, whether the \<open>alloc\<close> feature is on, the next random
  number and the value of the timestamp clock of TCP.
\<close>

record 'm platform =
  pf_map :: "'m linear_map"
  pf_alloc :: bool
  pf_rand :: u32
  pf_tsval :: u32

text \<open>
  The context of the TCP sockets. On Ethernet, \<open>ip_mtu\<close> panics when the MTU is shorter than the header of a frame; the sockets
  subtract the length of a header from it, which panics as well when it is 0.
\<close>

definition iface_cx :: "'m platform \<Rightarrow> 'm iface \<Rightarrow> iface_context" where
  "iface_cx pf i = \<lparr>cx_now = if_now i, cx_ip_mtu = (case dc_ip_mtu (if_caps i) of Some n \<Rightarrow> n | None \<Rightarrow> 0),
     cx_rand_u32 = pf_rand pf,
     cx_source_address = (\<lambda>a. case a of Ipv4 _ \<Rightarrow> map_option Ipv4 (get_source_address_ipv4 (if_ip_addrs i)) | Ipv6 _ \<Rightarrow> None),
     cx_tsval = pf_tsval pf\<rparr>"

definition IPV4_MIN_MTU :: nat where "IPV4_MIN_MTU = 576"

definition IPV4_MULTICAST_ALL_SYSTEMS :: ipv4_address where "IPV4_MULTICAST_ALL_SYSTEMS = 0xe0000001"

definition has_multicast_group :: "ipv4_address \<Rightarrow> bool" where
  "has_multicast_group addr \<longleftrightarrow> addr = IPV4_MULTICAST_ALL_SYSTEMS"

section \<open>Answers\<close>

definition icmp_reply_payload_len :: "nat \<Rightarrow> nat \<Rightarrow> nat \<Rightarrow> nat option" where
  "icmp_reply_payload_len len mtu header_len = do {
     n \<leftarrow> usize_sub mtu (header_len * 2);
     n \<leftarrow> usize_sub n 8;
     Some (min len n) }"

text \<open>
  No answer to a source that is not unicast; to a packet that was not sent to a unicast address, only an echo reply, when
  it was sent to a broadcast address.
\<close>

definition icmpv4_packet :: "ipv4_address \<Rightarrow> ipv4_address \<Rightarrow> icmpv4_repr \<Rightarrow> packet_v4" where
  "icmpv4_packet src dst r =
     \<lparr>p4_header = \<lparr>ih_src_addr = src, ih_dst_addr = dst, ih_next_header = ProtoIcmp,
        ih_payload_len = icmpv4_buffer_len r, ih_hop_limit = 64\<rparr>, p4_payload = PlIcmpv4 r\<rparr>"

definition icmpv4_reply :: "'m iface \<Rightarrow> ipv4_address ip_header \<Rightarrow> icmpv4_repr \<Rightarrow> packet_v4 option" where
  "icmpv4_reply i ip r =
     (if \<not> is_unicast_v4 (if_ip_addrs i) (ih_src_addr ip) then None
      else if is_unicast_v4 (if_ip_addrs i) (ih_dst_addr ip) then Some (icmpv4_packet (ih_dst_addr ip) (ih_src_addr ip) r)
      else if is_broadcast_v4 (if_ip_addrs i) (ih_dst_addr ip) then
        (case r of
           EchoReply _ _ _ \<Rightarrow> map_option (\<lambda>src. icmpv4_packet src (ih_src_addr ip) r) (ipv4_addr (if_ip_addrs i))
         | _ \<Rightarrow> None)
      else None)"

text \<open>A \<open>DstUnreachable\<close> message with as much of the payload as fits.\<close>

definition unreachable_reply :: "'m iface \<Rightarrow> dst_unreachable \<Rightarrow> ipv4_address ip_header \<Rightarrow> u8 list \<Rightarrow> packet_v4 option option" where
  "unreachable_reply i reason ip data = do {
     n \<leftarrow> icmp_reply_payload_len (length data) IPV4_MIN_MTU (ipv4_buffer_len ip);
     part \<leftarrow> slice data 0 n;
     Some (icmpv4_reply i ip (DstUnreachable reason ip part)) }"

section \<open>Sockets\<close>

text \<open>A loop over the sockets of one kind, which may change them.\<close>

definition with_sockets ::
  "('a \<Rightarrow> socket) \<Rightarrow> (socket \<Rightarrow> 'a option) \<Rightarrow> ('a list \<Rightarrow> ('b \<times> 'a list) option) \<Rightarrow> slots \<Rightarrow> ('b \<times> slots) option" where
  "with_sockets upcast downcast f slots = do {
     (x, ss) \<leftarrow> f (select_sockets downcast slots);
     Some (x, put_sockets upcast downcast ss slots) }"

fun raw_filter :: "checksum_capabilities \<Rightarrow> ip_repr \<Rightarrow> u8 list \<Rightarrow> raw_socket list \<Rightarrow> (bool \<times> raw_socket list) option" where
  "raw_filter caps ip data [] = Some (False, [])"
| "raw_filter caps ip data (s # ss) = do {
     (here, s) \<leftarrow> (if raw_accepts ip s then do { s \<leftarrow> raw_process caps ip data s; Some (True, s) } else Some (False, s));
     (there, ss) \<leftarrow> raw_filter caps ip data ss;
     Some (here \<or> there, s # ss) }"

definition raw_socket_filter :: "checksum_capabilities \<Rightarrow> ip_repr \<Rightarrow> u8 list \<Rightarrow> slots \<Rightarrow> (bool \<times> slots) option" where
  "raw_socket_filter caps ip data = with_sockets SockRaw downcast_raw (raw_filter caps ip data)"

fun icmp_filter ::
  "checksum_capabilities \<Rightarrow> ipv4_address ip_header \<Rightarrow> icmpv4_repr \<Rightarrow> icmp_socket list \<Rightarrow> (bool \<times> icmp_socket list) option" where
  "icmp_filter caps ip r [] = Some (False, [])"
| "icmp_filter caps ip r (s # ss) = do {
     acc \<leftarrow> icmp_accepts_v4 caps ip r s;
     (here, s) \<leftarrow> (if acc then do { s \<leftarrow> icmp_process_v4 ip r s; Some (True, s) } else Some (False, s));
     (there, ss) \<leftarrow> icmp_filter caps ip r ss;
     Some (here \<or> there, s # ss) }"

fun udp_deliver ::
  "ip_cidr list \<Rightarrow> packet_meta \<Rightarrow> ip_repr \<Rightarrow> udp_repr \<Rightarrow> u8 list \<Rightarrow> udp_socket list \<Rightarrow> (bool \<times> udp_socket list) option" where
  "udp_deliver addrs m ip r data [] = Some (False, [])"
| "udp_deliver addrs m ip r data (s # ss) =
     (if udp_accepts addrs ip r s
      then do { s \<leftarrow> udp_process addrs m ip r data s; Some (True, s # ss) }
      else do { (there, ss) \<leftarrow> udp_deliver addrs m ip r data ss; Some (there, s # ss) })"

section \<open>Protocols\<close>

text \<open>Each returns the answer, if any, and the sockets.\<close>

definition process_icmpv4 ::
  "'m iface \<Rightarrow> ipv4_address ip_header \<Rightarrow> u8 list \<Rightarrow> slots \<Rightarrow> (packet_v4 option \<times> slots) option" where
  "process_icmpv4 i ip data slots = do {
     let checked = icmpv4_new_checked data;
     case checked of
       Inl _ \<Rightarrow> Some (None, slots)
     | Inr d \<Rightarrow> do {
         parsed \<leftarrow> icmpv4_parse (dc_checksum (if_caps i)) d;
         case parsed of
           Inl _ \<Rightarrow> Some (None, slots)
         | Inr r \<Rightarrow> do {
             (handled, slots) \<leftarrow> with_sockets SockIcmp downcast_icmp (icmp_filter (dc_checksum (if_caps i)) ip r) slots;
             Some (case r of
                 EchoRequest ident seq_no d \<Rightarrow> icmpv4_reply i ip (EchoReply ident seq_no d)
               | _ \<Rightarrow> None, slots) } } }"

definition process_udp ::
  "'m iface \<Rightarrow> packet_meta \<Rightarrow> bool \<Rightarrow> ipv4_address ip_header \<Rightarrow> u8 list \<Rightarrow> slots \<Rightarrow> (packet_v4 option \<times> slots) option" where
  "process_udp i m handled_by_raw_socket ip data slots = do {
     checked \<leftarrow> udp_new_checked data;
     case checked of
       Inl _ \<Rightarrow> Some (None, slots)
     | Inr d \<Rightarrow> do {
         parsed \<leftarrow> udp_parse (Ipv4 (ih_src_addr ip)) (Ipv4 (ih_dst_addr ip)) (dc_checksum (if_caps i)) d;
         case parsed of
           Inl _ \<Rightarrow> Some (None, slots)
         | Inr r \<Rightarrow> do {
             p \<leftarrow> udp_payload d;
             (handled, slots) \<leftarrow> with_sockets SockUdp downcast_udp (udp_deliver (if_ip_addrs i) m (Ipv4Repr ip) r p) slots;
             if handled \<or> handled_by_raw_socket then Some (None, slots)
             else do {
               rep \<leftarrow> unreachable_reply i PortUnreachable ip data;
               Some (rep, slots) } } } }"

text \<open>The answer of a TCP socket as a packet. With IPv4 only, there are no other representations.\<close>

definition tcp_packet_v4 :: "packet \<Rightarrow> packet_v4 option" where
  "tcp_packet_v4 p =
     (case fst p of Ipv4Repr h \<Rightarrow> Some \<lparr>p4_header = h, p4_payload = PlTcp (snd p)\<rparr> | Ipv6Repr _ \<Rightarrow> None)"

definition process_tcp_v4 ::
  "'m platform \<Rightarrow> 'm iface \<Rightarrow> ipv4_address ip_header \<Rightarrow> u8 list \<Rightarrow> slots \<Rightarrow> (packet_v4 option \<times> slots) option" where
  "process_tcp_v4 pf i ip data slots = do {
     (rep, slots) \<leftarrow> with_sockets SockTcp downcast_tcp
       (process_tcp (iface_cx pf i) (dc_checksum (if_caps i)) (Ipv4Repr ip) data) slots;
     case rep of
       None \<Rightarrow> Some (None, slots)
     | Some p \<Rightarrow> do { p \<leftarrow> tcp_packet_v4 p; Some (Some p, slots) } }"

definition process_protocol ::
  "'m platform \<Rightarrow> 'm iface \<Rightarrow> packet_meta \<Rightarrow> bool \<Rightarrow> ipv4_address ip_header \<Rightarrow> u8 list \<Rightarrow> slots \<Rightarrow> (packet_v4 option \<times> slots) option" where
  "process_protocol pf i m handled_by_raw_socket ip data slots =
     (case ih_next_header ip of
        ProtoIcmp \<Rightarrow> process_icmpv4 i ip data slots
      | ProtoUdp \<Rightarrow> process_udp i m handled_by_raw_socket ip data slots
      | ProtoTcp \<Rightarrow> process_tcp_v4 pf i ip data slots
      | _ \<Rightarrow>
          if handled_by_raw_socket then Some (None, slots)
          else do { rep \<leftarrow> unreachable_reply i ProtoUnreachable ip data; Some (rep, slots) })"

section \<open>IPv4\<close>

text \<open>Whether a packet with this destination is for the interface.\<close>

definition ipv4_dst_admitted :: "'m iface \<Rightarrow> ipv4_address \<Rightarrow> bool option" where
  "ipv4_dst_admitted i dst =
     (if has_ip_addr (if_ip_addrs i) (Ipv4 dst) \<or> has_multicast_group dst \<or> is_broadcast_v4 (if_ip_addrs i) dst then Some True
      else if \<not> if_any_ip i then Some False
      else if \<not> addr_is_unicast (Ipv4 dst) then Some False
      else do {
        router \<leftarrow> routes_lookup (if_routes i) (Ipv4 dst) (if_now i);
        Some (case router of None \<Rightarrow> False | Some a \<Rightarrow> has_ip_addr (if_ip_addrs i) a) })"

text \<open>The answer, the sockets and the interface.\<close>

definition process_ipv4 ::
  "'m platform \<Rightarrow> packet_meta \<Rightarrow> hardware_address \<Rightarrow> u8 list \<Rightarrow> slots \<Rightarrow> 'm interface \<Rightarrow>
   (packet_v4 option \<times> slots \<times> 'm interface) option" where
  "process_ipv4 pf m src_hw d slots t = do {
     let i = in_inner t;
     parsed \<leftarrow> ipv4_parse True (dc_checksum (if_caps i)) d;
     case parsed of
       Inl _ \<Rightarrow> Some (None, slots, t)
     | Inr ip \<Rightarrow>
         if \<not> ipv4_src_admitted (if_ip_addrs i) (ih_src_addr ip) then Some (None, slots, t)
         else do {
           (assembled, asm) \<leftarrow> ipv4_reassemble (pf_alloc pf) (instant_add (if_now i) (in_reassembly_timeout t)) d (in_assembler t);
           let t = t\<lparr>in_assembler := asm\<rparr>;
           case assembled of
             None \<Rightarrow> Some (None, slots, t)
           | Some data \<Rightarrow> do {
               (handled, slots) \<leftarrow> raw_socket_filter (dc_checksum (if_caps i)) (Ipv4Repr ip) data slots;
               admitted \<leftarrow> ipv4_dst_admitted i (ih_dst_addr ip);
               if \<not> admitted then Some (None, slots, t)
               else do {
                 let i = (if is_unicast_v4 (if_ip_addrs i) (ih_dst_addr ip)
                          then i\<lparr>if_neighbor_cache := reset_expiry_if_existing (pf_map pf) (Ipv4 (ih_src_addr ip)) src_hw
                                   (if_now i) (if_neighbor_cache i)\<rparr>
                          else i);
                 let t = t\<lparr>in_inner := i\<rparr>;
                 (rep, slots) \<leftarrow> process_protocol pf i m handled ip data slots;
                 Some (rep, slots, t) } } } }"

section \<open>ARP and Ethernet\<close>

datatype ethernet_packet = EthArp arp_repr | EthIp packet_v4

definition process_arp ::
  "'m platform \<Rightarrow> instant \<Rightarrow> u8 list \<Rightarrow> 'm iface \<Rightarrow> (ethernet_packet option \<times> 'm iface) option" where
  "process_arp pf now frame i = do {
     p \<leftarrow> eth_payload frame;
     checked \<leftarrow> arp_new_checked p;
     case checked of
       Inl _ \<Rightarrow> Some (None, i)
     | Inr d \<Rightarrow> do {
         parsed \<leftarrow> arp_parse d;
         case parsed of
           Inl _ \<Rightarrow> Some (None, i)
         | Inr r \<Rightarrow>
             if \<not> has_ip_addr (if_ip_addrs i) (Ipv4 (arp_target_ip r)) \<and> \<not> if_any_ip i then Some (None, i)
             else if (case arp_operation r of ArpOpUnknown _ \<Rightarrow> True | _ \<Rightarrow> False) then Some (None, i)
             else if \<not> addr_is_unicast (Ipv4 (arp_source_ip r)) \<or> \<not> eth_is_unicast (arp_source_hw r) then Some (None, i)
             else do {
               near \<leftarrow> in_same_network (if_ip_addrs i) (Ipv4 (arp_source_ip r));
               if \<not> near then Some (None, i)
               else do {
                 cache \<leftarrow> cache_fill (pf_map pf) (Ipv4 (arp_source_ip r)) (HwEthernet (arp_source_hw r)) now (if_neighbor_cache i);
                 let i = i\<lparr>if_neighbor_cache := cache\<rparr>;
                 if arp_operation r = ArpRequest
                 then do {
                   src_hw \<leftarrow> ethernet_or_panic (if_hardware_addr i);
                   Some (Some (EthArp \<lparr>arp_operation = ArpReply, arp_source_hw = src_hw, arp_source_ip = arp_target_ip r,
                     arp_target_hw = arp_source_hw r, arp_target_ip = arp_source_ip r\<rparr>), i) }
                 else Some (None, i) } } } }"

definition process_ethernet ::
  "'m platform \<Rightarrow> packet_meta \<Rightarrow> u8 list \<Rightarrow> slots \<Rightarrow> 'm interface \<Rightarrow> (ethernet_packet option \<times> slots \<times> 'm interface) option" where
  "process_ethernet pf m frame slots t = do {
     let checked = eth_new_checked frame;
     case checked of
       Inl _ \<Rightarrow> Some (None, slots, t)
     | Inr d \<Rightarrow> do {
         dst \<leftarrow> eth_dst_addr d;
         if \<not> eth_is_broadcast dst \<and> \<not> eth_is_multicast dst \<and> HwEthernet dst \<noteq> if_hardware_addr (in_inner t)
         then Some (None, slots, t)
         else do {
           ty \<leftarrow> eth_ethertype d;
           case ty of
             EtherArp \<Rightarrow> do {
               (rep, i) \<leftarrow> process_arp pf (if_now (in_inner t)) d (in_inner t);
               Some (rep, slots, t\<lparr>in_inner := i\<rparr>) }
           | EtherIpv4 \<Rightarrow> do {
               p \<leftarrow> eth_payload d;
               checked \<leftarrow> ipv4_new_checked p;
               case checked of
                 Inl _ \<Rightarrow> Some (None, slots, t)
               | Inr p \<Rightarrow> do {
                   src \<leftarrow> eth_src_addr d;
                   (rep, slots, t) \<leftarrow> process_ipv4 pf m (HwEthernet src) p slots t;
                   Some (map_option EthIp rep, slots, t) } }
           | _ \<Rightarrow> Some (None, slots, t) } } }"

text \<open>On the IP medium. Without IPv6, a packet of that version is dropped.\<close>

definition process_ip ::
  "'m platform \<Rightarrow> packet_meta \<Rightarrow> u8 list \<Rightarrow> slots \<Rightarrow> 'm interface \<Rightarrow> (packet_v4 option \<times> slots \<times> 'm interface) option" where
  "process_ip pf m d slots t = do {
     v \<leftarrow> of_packet d;
     case v of
       Inr VIpv4 \<Rightarrow> do {
         checked \<leftarrow> ipv4_new_checked d;
         case checked of
           Inl _ \<Rightarrow> Some (None, slots, t)
         | Inr d \<Rightarrow> process_ipv4 pf m HwIp d slots t }
     | _ \<Rightarrow> Some (None, slots, t) }"

section \<open>Sending the answer\<close>

definition dispatch_arp :: "(nat \<Rightarrow> u8 list) \<Rightarrow> 'm iface \<Rightarrow> arp_repr \<Rightarrow> u8 list option" where
  "dispatch_arp tx i r = dispatch_ethernet tx i (arp_buffer_len r) (\<lambda>frame. do {
     frame \<leftarrow> eth_set_dst_addr (arp_target_hw r) frame;
     frame \<leftarrow> eth_set_ethertype EtherArp frame;
     eth_payload_mut (arp_emit r) frame })"

definition dispatch_packet ::
  "'m platform \<Rightarrow> (nat \<Rightarrow> u8 list) \<Rightarrow> ethernet_packet \<Rightarrow> 'm interface \<Rightarrow> (u8 list list \<times> 'm interface) option" where
  "dispatch_packet pf tx p t =
     (case p of
        EthArp r \<Rightarrow> do { frame \<leftarrow> dispatch_arp tx (in_inner t) r; Some ([frame], t) }
      | EthIp p \<Rightarrow> do {
          (_, frames, i, f) \<leftarrow> dispatch_ip_v4 (pf_map pf) tx p (in_inner t) (in_fragmenter t);
          Some (frames, t\<lparr>in_inner := i, in_fragmenter := f\<rparr>) })"

datatype ingress_result = IngressNone | PacketProcessed | IngressStateChanged

text \<open>
  \<open>socket_ingress\<close>: \<open>input\<close> is what \<open>Device::receive\<close> has, a frame with its metadata, if any. The frames that are sent in
  answer; errors of \<open>dispatch\<close> are only logged.
\<close>

definition socket_ingress ::
  "'m platform \<Rightarrow> (nat \<Rightarrow> u8 list) \<Rightarrow> (packet_meta \<times> u8 list) option \<Rightarrow> slots \<Rightarrow> 'm interface \<Rightarrow>
   (ingress_result \<times> u8 list list \<times> slots \<times> 'm interface) option" where
  "socket_ingress pf tx input slots t =
     (case input of
        None \<Rightarrow> Some (IngressNone, [], slots, t)
      | Some (m, frame) \<Rightarrow>
          if frame = [] then Some (PacketProcessed, [], slots, t)
          else do {
            (rep, slots, t) \<leftarrow> (case dc_medium (if_caps (in_inner t)) of
                MediumEthernet \<Rightarrow> process_ethernet pf m frame slots t
              | MediumIp \<Rightarrow> do {
                  (rep, slots, t) \<leftarrow> process_ip pf m frame slots t;
                  Some (map_option EthIp rep, slots, t) });
            (frames, t) \<leftarrow> (case rep of None \<Rightarrow> Some ([], t) | Some p \<Rightarrow> dispatch_packet pf tx p t);
            Some (IngressStateChanged, frames, slots, t) })"

text \<open>
  The loop of \<open>poll\<close> over the frames that the device has. With each frame goes the random number and the value of the
  timestamp clock that are drawn while it is processed. Whether the state of a socket may have changed, the frames that
  are sent, the sockets and the interface.
\<close>

fun ingress_loop ::
  "'m platform \<Rightarrow> (nat \<Rightarrow> u8 list) \<Rightarrow> (u32 \<times> u32 \<times> packet_meta \<times> u8 list) list \<Rightarrow> slots \<Rightarrow> 'm interface \<Rightarrow>
   (bool \<times> u8 list list \<times> slots \<times> 'm interface) option" where
  "ingress_loop pf tx [] slots t = Some (False, [], slots, t)"
| "ingress_loop pf tx ((rnd, ts, m, frame) # inputs) slots t = do {
     (res, frames, slots, t) \<leftarrow> socket_ingress (pf\<lparr>pf_rand := rnd, pf_tsval := ts\<rparr>) tx (Some (m, frame)) slots t;
     (changed, frames', slots, t) \<leftarrow> ingress_loop pf tx inputs slots t;
     Some (res = IngressStateChanged \<or> changed, frames @ frames', slots, t) }"

definition poll_ingress_single ::
  "'m platform \<Rightarrow> (nat \<Rightarrow> u8 list) \<Rightarrow> instant \<Rightarrow> (packet_meta \<times> u8 list) option \<Rightarrow> slots \<Rightarrow> 'm interface \<Rightarrow>
   (ingress_result \<times> u8 list list \<times> slots \<times> 'm interface) option" where
  "poll_ingress_single pf tx now input slots t =
     socket_ingress pf tx input slots
       (t\<lparr>in_inner := (in_inner t)\<lparr>if_now := now\<rparr>, in_assembler := pas_remove_expired now (in_assembler t)\<rparr>)"

end
