(* ===== verification/Ingress.thy ===== *)
theory Ingress
  imports Iface_Ipv4 Ip_Frag
begin

text \<open>
  No frame that arrives stops the interface: the whole way of \<open>socket_ingress\<close>, from the octets of a frame through the
  wire formats, the reassembly and the sockets to the frames that are sent in answer.
\<close>

section \<open>Sockets\<close>

fun socket_ok :: "socket \<Rightarrow> bool" where
  "socket_ok (SockRaw s) \<longleftrightarrow> raw_inv s"
| "socket_ok (SockIcmp s) \<longleftrightarrow> icmp_inv s"
| "socket_ok (SockUdp s) \<longleftrightarrow> udp_inv s"
| "socket_ok (SockTcp s) \<longleftrightarrow> tcp_inv s"

definition slots_ok :: "slots \<Rightarrow> bool" where "slots_ok slots \<longleftrightarrow> (\<forall>s \<in> slot_sockets slots. socket_ok s)"

context any_socket
begin

lemma with_sockets_ok:
  assumes slots: "\<forall>s \<in> slot_sockets slots. P s"
    and f: "\<And>ss. \<forall>x \<in> set ss. P (upcast x) \<Longrightarrow> \<exists>out. f ss = Some out \<and> (\<forall>y \<in> set (snd out). P (upcast y)) \<and> Q (fst out)"
  shows "\<exists>out. with_sockets upcast downcast f slots = Some out \<and> (\<forall>s \<in> slot_sockets (snd out). P s) \<and> Q (fst out)"
proof -
  have "\<forall>x \<in> set (select_sockets downcast slots). P (upcast x)" using slots select_in by blast
  then obtain x ss where "f (select_sockets downcast slots) = Some (x, ss)" "\<forall>y \<in> set ss. P (upcast y)" "Q x" using f by force
  then show ?thesis using put_all [OF slots] by (simp add: with_sockets_def)
qed

end

lemma raw_filter_ok:
  "\<forall>s \<in> set ss. raw_inv s \<Longrightarrow> \<exists>out. raw_filter caps ip data ss = Some out \<and> (\<forall>s \<in> set (snd out). raw_inv s)"
proof (induction ss)
  case (Cons s ss)
  then obtain b ss' where r: "raw_filter caps ip data ss = Some (b, ss')" "\<forall>s \<in> set ss'. raw_inv s" by auto
  show ?case
  proof (cases "raw_accepts ip s")
    case True
    obtain s' where "raw_process caps ip data s = Some s'" "raw_inv s'"
      by (rule raw_process_ok [OF _ True, of caps data]) (use Cons.prems in auto)
    then show ?thesis using True r by auto
  qed (use Cons.prems r in simp)
qed simp

lemma icmp_filter_ok:
  "\<forall>s \<in> set ss. icmp_inv s \<Longrightarrow> \<exists>out. icmp_filter caps ip r ss = Some out \<and> (\<forall>s \<in> set (snd out). icmp_inv s)"
proof (induction ss)
  case (Cons s ss)
  then obtain b ss' where r: "icmp_filter caps ip r ss = Some (b, ss')" "\<forall>s \<in> set ss'. icmp_inv s" by auto
  obtain acc where acc: "icmp_accepts_v4 caps ip r s = Some acc" using icmp_accepts_v4_total by blast
  obtain s' where "icmp_process_v4 ip r s = Some s'" "icmp_inv s'"
    by (rule icmp_process_v4_ok [of s ip r]) (use Cons.prems in auto)
  then show ?case using acc r Cons.prems by (cases acc) auto
qed simp

lemma udp_deliver_ok:
  "\<forall>s \<in> set ss. udp_inv s \<Longrightarrow> \<exists>out. udp_deliver addrs m ip r data ss = Some out \<and> (\<forall>s \<in> set (snd out). udp_inv s)"
proof (induction ss)
  case (Cons s ss)
  then obtain b ss' where r: "udp_deliver addrs m ip r data ss = Some (b, ss')" "\<forall>s \<in> set ss'. udp_inv s" by auto
  show ?case
  proof (cases "udp_accepts addrs ip r s")
    case True
    obtain s' where "udp_process addrs m ip r data s = Some s'" "udp_inv s'"
      by (rule udp_process_ok [OF _ True, of m data]) (use Cons.prems in auto)
    then show ?thesis using True Cons.prems by auto
  qed (use Cons.prems r in simp)
qed simp

lemma raw_socket_filter_ok:
  assumes "slots_ok slots"
  obtains b slots' where "raw_socket_filter caps ip data slots = Some (b, slots')" "slots_ok slots'"
  using raw_kind.with_sockets_ok [where P = socket_ok and Q = "\<lambda>_. True" and slots = slots and f = "raw_filter caps ip data"]
    raw_filter_ok assms by (force simp: raw_socket_filter_def slots_ok_def)

lemma icmp_sockets_ok:
  assumes "slots_ok slots"
  obtains b slots' where "with_sockets SockIcmp downcast_icmp (icmp_filter caps ip r) slots = Some (b, slots')" "slots_ok slots'"
  using icmp_kind.with_sockets_ok [where P = socket_ok and Q = "\<lambda>_. True" and slots = slots and f = "icmp_filter caps ip r"]
    icmp_filter_ok assms by (force simp: slots_ok_def)

lemma udp_sockets_ok:
  assumes "slots_ok slots"
  obtains b slots' where "with_sockets SockUdp downcast_udp (udp_deliver addrs m ip r data) slots = Some (b, slots')" "slots_ok slots'"
  using udp_kind.with_sockets_ok [where P = socket_ok and Q = "\<lambda>_. True" and slots = slots and f = "udp_deliver addrs m ip r data"]
    udp_deliver_ok assms by (force simp: slots_ok_def)


section \<open>The answers of TCP\<close>

text \<open>An answer goes back to where the segment came from, has no payload, and its header can be emitted.\<close>

definition tcp_answer :: "ip_repr \<Rightarrow> tcp_repr \<Rightarrow> packet \<Rightarrow> bool" where
  "tcp_answer ip r p \<longleftrightarrow> ip_src_addr (fst p) = ip_dst_addr ip \<and> ip_dst_addr (fst p) = ip_src_addr ip \<and>
     ip_payload_len (fst p) = tcp_buffer_len (snd p) \<and> payload (snd p) = [] \<and>
     (src_port r \<noteq> 0 \<and> dst_port r \<noteq> 0 \<longrightarrow> tcp_fits (snd p))"

lemma reply_fields:
  assumes "reply ip r = Some (ip', rep)"
  shows "ip_src_addr ip' = ip_dst_addr ip" "ip_dst_addr ip' = ip_src_addr ip" "ip_payload_len ip' = tcp_buffer_len rep"
    "payload rep = []" "src_port rep = dst_port r" "dst_port rep = src_port r" "window_scale rep = None" "max_seg_size rep = None"
    "\<not> sack_permitted rep" "sack_ranges rep = [None, None, None]" "timestamp rep = None"
  using assms by (auto simp: reply_def Let_def bind_eq_Some_conv dest!: ip_repr_newD)

lemma rst_reply_answer:
  assumes "rst_reply ip r = Some p"
  shows "tcp_answer ip r p"
proof -
  obtain ip' rep where rep: "reply ip r = Some (ip', rep)"
    using assms by (cases "reply ip r") (auto simp: rst_reply_def)
  note r = reply_fields [OF rep]
  obtain a where p: "p = (ip', rep\<lparr>control := CtlRst, seq_number := (case ack_number r of Some a \<Rightarrow> a | None \<Rightarrow> 0), ack_number := a\<rparr>) \<or>
      p = (ip', rep\<lparr>control := CtlRst, seq_number := (case ack_number r of Some a \<Rightarrow> a | None \<Rightarrow> 0)\<rparr>)"
    using assms rep by (auto simp: rst_reply_def Let_def bind_eq_Some_conv split: if_splits)
  have len: "tcp_header_len (rep\<lparr>control := c, seq_number := x, ack_number := y\<rparr>) = 20"
    "tcp_header_len (rep\<lparr>control := c, seq_number := x\<rparr>) = 20" "tcp_header_len rep = 20" for c x y
    using r(7-11) by (simp_all add: tcp_header_len_def sack_range_len_def TCP_HEADER_LEN_def)
  then show ?thesis using p r by (auto simp: tcp_answer_def tcp_fits_def tcp_buffer_len_def)
qed

lemma ack_reply_answer:
  assumes "ack_reply cx ip r s = Some (p, s')"
  shows "tcp_answer ip r p"
proof -
  obtain ip' rep where rep: "reply ip r = Some (ip', rep)"
    using assms by (cases "reply ip r") (auto simp: ack_reply_def)
  note r = reply_fields [OF rep]
  obtain ack where ack: "seq_add (remote_seq_no s) (rb_len (rx_buffer s)) = Some ack"
    using assms rep by (cases "seq_add (remote_seq_no s) (rb_len (rx_buffer s))") (auto simp: ack_reply_def Let_def)
  define b where "b = (if remote_has_sack s then sack_block (assembler s) ack (local_rx_last_seq s) else None)"
  have p: "ip_src_addr (fst p) = ip_dst_addr ip" "ip_dst_addr (fst p) = ip_src_addr ip" "ip_payload_len (fst p) = tcp_buffer_len (snd p)"
    "payload (snd p) = []" "src_port (snd p) = dst_port r" "dst_port (snd p) = src_port r" "window_scale (snd p) = None" "max_seg_size (snd p) = None"
    "\<not> sack_permitted (snd p)" "sack_ranges (snd p) = [b, None, None]" "ack_number (snd p) = Some ack"
    using assms rep ack r by (cases "remote_has_sack s"; auto simp: ack_reply_def Let_def b_def)+
  have "tcp_header_len (snd p) \<le> 60"
    using p by (simp add: tcp_header_len_def sack_range_len_def TCP_HEADER_LEN_def Let_def)
  then show ?thesis using p by (cases b) (simp_all add: tcp_answer_def tcp_fits_def tcp_buffer_len_def)
qed

lemma challenge_ack_answer: "challenge_ack_reply cx ip r s = Some (Some p, s') \<Longrightarrow> tcp_answer ip r p"
  by (auto simp: challenge_ack_reply_def Let_def bind_eq_Some_conv intro: ack_reply_answer split: if_splits)

lemma check_ack_answer:
  assumes "check_ack cx ip r s = Some (Inl (Some p, s'))"
  shows "tcp_answer ip r p"
proof -
  have "tcp_answer ip r p" if "check_ack_range cx ip r ack s = Some (Inl (Some p, s'))" for ack
    using that by (auto simp: check_ack_range_def Let_def bind_eq_Some_conv intro: challenge_ack_answer split: if_splits prod.splits)
  then show ?thesis
    using assms by (auto simp: check_ack_def bind_eq_Some_conv intro: rst_reply_answer split: tcp_state.splits tcp_control.splits option.splits if_splits)
qed

lemma check_segment_answer:
  assumes "check_segment cx ip r s = Some (Inl (Some p, s'))"
  shows "tcp_answer ip r p"
  using assms by (auto simp: check_segment_def Let_def bind_eq_Some_conv intro: challenge_ack_answer split: if_splits)

lemma process_accepted_answer:
  assumes "process_accepted cx ip r part offset s = Some (Some p, s')"
  shows "tcp_answer ip r p"
proof -
  have u: "\<exists>s''. out = (None, s'')" if "update_state cx ip r ctl b s = Some (Inl out)" for ctl b s out
    using that by (auto simp: update_state_def accept_syn_def accept_synack_def bind_eq_Some_conv Let_def
        split: tcp_state.splits tcp_control.splits if_splits)
  have "tcp_answer ip r p" if "receive_payload cx ip r part offset s = Some (Some p, s')" for s
    using that by (auto simp: receive_payload_def Let_def bind_eq_Some_conv intro: ack_reply_answer split: if_splits option.splits)
  moreover obtain ack_len f1 f2 s1 ctl res where "count_acked cx r s = Some (ack_len, f1, f2, s1)" "effective_control r s1 = Some ctl"
    "update_state cx ip r ctl f1 s1 = Some res"
    using assms by (auto simp: process_accepted_def bind_eq_Some_conv)
  ultimately show ?thesis
    using assms by (cases res) (auto simp: process_accepted_def bind_eq_Some_conv Let_def dest: u)
qed

lemma process_answer:
  assumes "process cx ip r s = Some (Some p, s')"
  shows "tcp_answer ip r p"
proof -
  obtain res where res: "check_ack cx ip r s = Some res" and acc: "accepts s ip r" using assms by (auto simp: process_def bind_eq_Some_conv)
  show ?thesis
  proof (cases res)
    case (Inl out)
    then show ?thesis using assms res acc by (auto simp: process_def intro: check_ack_answer)
  next
    case (Inr s1)
    obtain res2 where "check_segment cx ip r s1 = Some res2" using assms res Inr by (auto simp: process_def bind_eq_Some_conv)
    then show ?thesis using assms res acc Inr
      by (cases res2) (auto simp: process_def intro: check_segment_answer process_accepted_answer)
  qed
qed

section \<open>Answers that can be sent\<close>

text \<open>
  An answer that \<open>dispatch_ip\<close> can send: to a unicast address; an echo reply, an error message within the minimal MTU,
  or a TCP segment without a payload.
\<close>

definition answer_ok :: "'m iface \<Rightarrow> packet_v4 \<Rightarrow> bool" where
  "answer_ok i p \<longleftrightarrow> is_unicast_v4 (if_ip_addrs i) (ih_dst_addr (p4_header p)) \<and>
     (case p4_payload p of
        PlIcmpv4 r \<Rightarrow> ih_payload_len (p4_header p) = icmpv4_buffer_len r \<and>
          ((\<exists>ident seq_no data. r = EchoReply ident seq_no data) \<or> icmpv4_buffer_len r + 20 \<le> IPV4_MIN_MTU)
      | PlTcp r \<Rightarrow> ih_payload_len (p4_header p) = tcp_buffer_len r \<and> payload r = [] \<and> tcp_fits r
      | _ \<Rightarrow> False)"

lemma icmpv4_reply_answer:
  assumes "icmpv4_reply i ip r = Some p"
    and "(\<exists>ident seq_no data. r = EchoReply ident seq_no data) \<or> icmpv4_buffer_len r + 20 \<le> IPV4_MIN_MTU"
  shows "answer_ok i p"
  using assms by (auto simp: icmpv4_reply_def icmpv4_packet_def answer_ok_def split: if_splits icmpv4_repr.splits)

lemma unreachable_reply_ok:
  obtains rep where "unreachable_reply i reason ip data = Some rep" "\<And>p. rep = Some p \<Longrightarrow> answer_ok i p"
proof -
  define n where "n = min (length data) 528"
  have "icmp_reply_payload_len (length data) IPV4_MIN_MTU (ipv4_buffer_len ip) = Some n"
    by (simp add: icmp_reply_payload_len_def IPV4_MIN_MTU_def ipv4_buffer_len_def IPV4_HEADER_LEN_def n_def)
  moreover have "slice data 0 n = Some (take n data)" by (simp add: n_def)
  ultimately have u: "unreachable_reply i reason ip data = Some (icmpv4_reply i ip (DstUnreachable reason ip (take n data)))"
    by (simp add: unreachable_reply_def)
  have "icmpv4_buffer_len (DstUnreachable reason ip (take n data)) + 20 \<le> IPV4_MIN_MTU"
    by (simp add: n_def IPV4_MIN_MTU_def ipv4_buffer_len_def IPV4_HEADER_LEN_def)
  then show thesis using icmpv4_reply_answer by (intro that [OF u]) blast
qed

lemma process_icmpv4_ok:
  assumes "slots_ok slots"
  obtains rep slots' where "process_icmpv4 i ip data slots = Some (rep, slots')" "slots_ok slots'" "\<And>p. rep = Some p \<Longrightarrow> answer_ok i p"
proof -
  obtain parsed where parsed: "icmpv4_parse (dc_checksum (if_caps i)) data = Some parsed" using icmpv4_parse_total by blast
  show thesis
  proof (cases "\<exists>r. icmpv4_new_checked data = Inr data \<and> parsed = Inr r")
    case True
    then obtain r where r: "icmpv4_new_checked data = Inr data" "parsed = Inr r" by blast
    obtain b slots' where "with_sockets SockIcmp downcast_icmp (icmp_filter (dc_checksum (if_caps i)) ip r) slots = Some (b, slots')" "slots_ok slots'"
      using icmp_sockets_ok [OF assms] .
    then show thesis using r parsed
      by (intro that [of "case r of EchoRequest ident seq_no d \<Rightarrow> icmpv4_reply i ip (EchoReply ident seq_no d) | _ \<Rightarrow> None" slots'])
        (auto simp: process_icmpv4_def Let_def intro: icmpv4_reply_answer split: icmpv4_repr.splits)
  next
    case False
    then have "process_icmpv4 i ip data slots = Some (None, slots)"
      using parsed by (cases parsed) (auto simp: process_icmpv4_def icmpv4_new_checked_def split: sum.splits)
    then show thesis using assms by (intro that [of None slots]) simp_all
  qed
qed

lemma process_udp_ok:
  assumes "slots_ok slots"
  obtains rep slots' where "process_udp i m b ip data slots = Some (rep, slots')" "slots_ok slots'" "\<And>p. rep = Some p \<Longrightarrow> answer_ok i p"
proof -
  let ?src = "Ipv4 (ih_src_addr ip)" and ?dst = "Ipv4 (ih_dst_addr ip)"
  have v: "same_version ?src ?dst" by (simp add: same_version_def)
  obtain res parsed where res: "udp_check_len data = Some res" and parsed: "udp_parse ?src ?dst (dc_checksum (if_caps i)) data = Some parsed"
    using udp_check_len_total udp_parse_total [OF v] by blast
  obtain rep where rep: "unreachable_reply i PortUnreachable ip data = Some rep" "\<And>p. rep = Some p \<Longrightarrow> answer_ok i p"
    by (rule unreachable_reply_ok [of i PortUnreachable ip data]) blast
  show thesis
  proof (cases "\<exists>r. res = Inr () \<and> parsed = Inr r")
    case True
    then obtain r where r: "res = Inr ()" "parsed = Inr r" by blast
    obtain x where x: "udp_payload data = Some x" using udp_parse_payload parsed r by blast
    obtain h slots' where h: "with_sockets SockUdp downcast_udp (udp_deliver (if_ip_addrs i) m (Ipv4Repr ip) r x) slots = Some (h, slots')" "slots_ok slots'"
      using udp_sockets_ok [OF assms] .
    have "process_udp i m b ip data slots = Some (if h \<or> b then None else rep, slots')"
      using r res parsed x h(1) rep(1) by (simp add: process_udp_def udp_new_checked_def)
    then show thesis using h(2) rep(2) by (rule that) (simp split: if_splits)
  next
    case False
    then have "process_udp i m b ip data slots = Some (None, slots)"
      using res parsed by (cases res; cases parsed) (auto simp: process_udp_def udp_new_checked_def)
    then show thesis using assms by (intro that [of None slots]) simp_all
  qed
qed

lemma tcp_parse_ports:
  assumes "tcp_parse src dst caps data = Some (Inr r)" "same_version src dst"
  shows "src_port r \<noteq> 0 \<and> dst_port r \<noteq> 0"
  using tcp_parse_repr [OF assms(2), of caps data] assms(1) by auto

text \<open>The answer of TCP as a packet.\<close>

lemma tcp_packet_v4_ok:
  assumes "tcp_answer (Ipv4Repr ip) r p" "src_port r \<noteq> 0" "dst_port r \<noteq> 0" "is_unicast_v4 (if_ip_addrs i) (ih_src_addr ip)"
  obtains q where "tcp_packet_v4 p = Some q" "answer_ok i q"
proof (cases "fst p")
  case (Ipv4Repr h)
  then show thesis using assms
    by (intro that [of "\<lparr>p4_header = h, p4_payload = PlTcp (snd p)\<rparr>"]) (simp_all add: tcp_packet_v4_def tcp_answer_def answer_ok_def)
next
  case (Ipv6Repr h)
  then show thesis using assms(1) by (simp add: tcp_answer_def)
qed

lemma process_tcp_v4_ok:
  assumes slots: "slots_ok slots" and len: "length data \<le> 131072" and src: "is_unicast_v4 (if_ip_addrs i) (ih_src_addr ip)"
  obtains rep slots' where "process_tcp_v4 pf i ip data slots = Some (rep, slots')" "slots_ok slots'" "\<And>p. rep = Some p \<Longrightarrow> answer_ok i p"
proof -
  let ?f = "process_tcp (iface_cx pf i) (dc_checksum (if_caps i)) (Ipv4Repr ip) data"
  let ?Q = "\<lambda>rep. \<forall>p. rep = Some p \<longrightarrow> (\<exists>r. tcp_answer (Ipv4Repr ip) r p \<and> src_port r \<noteq> 0 \<and> dst_port r \<noteq> 0)"
  have v: "same_version (ip_src_addr (Ipv4Repr ip)) (ip_dst_addr (Ipv4Repr ip))" by (simp add: same_version_def)
  have f: "\<exists>out. ?f ss = Some out \<and> (\<forall>s \<in> set (snd out). socket_ok (SockTcp s)) \<and> ?Q (fst out)" if "\<forall>s \<in> set ss. socket_ok (SockTcp s)" for ss
  proof -
    have inv: "\<forall>s \<in> set ss. tcp_inv s" using that by simp
    show ?thesis
    proof (cases rule: process_tcp_ok [OF inv len, of "iface_cx pf i" "dc_checksum (if_caps i)" "Ipv4Repr ip", case_names dropped reset processed])
      case dropped
      then show ?thesis using inv by simp
    next
      case (reset r p)
      then show ?thesis using inv rst_reply_answer [OF reset(3)] tcp_parse_ports [OF reset(2) v] by auto
    next
      case (processed r j rep s')
      then show ?thesis using process_answer tcp_parse_ports [OF processed(3) v] by fastforce
    qed
  qed
  obtain rep slots' where w: "with_sockets SockTcp downcast_tcp ?f slots = Some (rep, slots')" "\<forall>s \<in> slot_sockets slots'. socket_ok s" "?Q rep"
    using tcp_kind.with_sockets_ok [where P = socket_ok and Q = ?Q and f = ?f, OF slots [unfolded slots_ok_def] f] by force
  show thesis
  proof (cases rep)
    case None
    then show thesis using w by (intro that [of None slots']) (simp_all add: process_tcp_v4_def slots_ok_def)
  next
    case (Some p)
    then obtain r where r: "tcp_answer (Ipv4Repr ip) r p" "src_port r \<noteq> 0" "dst_port r \<noteq> 0" using w(3) by blast
    obtain q where "tcp_packet_v4 p = Some q" "answer_ok i q" using tcp_packet_v4_ok [OF r src] .
    then show thesis using w Some by (intro that [of "Some q" slots']) (simp_all add: process_tcp_v4_def slots_ok_def)
  qed
qed

lemma process_protocol_ok:
  assumes slots: "slots_ok slots" and len: "length data \<le> 131072"
    and src: "ih_next_header ip = ProtoTcp \<longrightarrow> is_unicast_v4 (if_ip_addrs i) (ih_src_addr ip)"
  obtains rep slots' where "process_protocol pf i m b ip data slots = Some (rep, slots')" "slots_ok slots'" "\<And>p. rep = Some p \<Longrightarrow> answer_ok i p"
proof -
  obtain rep where rep: "unreachable_reply i ProtoUnreachable ip data = Some rep" "\<And>p. rep = Some p \<Longrightarrow> answer_ok i p"
    by (rule unreachable_reply_ok [of i ProtoUnreachable ip data]) blast
  consider "ih_next_header ip = ProtoIcmp" | "ih_next_header ip = ProtoUdp" | "ih_next_header ip = ProtoTcp"
    | (other) "process_protocol pf i m b ip data slots = Some (if b then None else rep, slots)"
    using rep(1) by (cases "ih_next_header ip") (simp_all add: process_protocol_def)
  then show thesis
  proof cases
    case 1
    show thesis by (rule process_icmpv4_ok [OF slots, of i ip data]) (use 1 that in \<open>simp add: process_protocol_def\<close>)
  next
    case 2
    show thesis by (rule process_udp_ok [OF slots, of i m b ip data]) (use 2 that in \<open>simp add: process_protocol_def\<close>)
  next
    case 3
    then have "is_unicast_v4 (if_ip_addrs i) (ih_src_addr ip)" using src by simp
    then show thesis by (rule process_tcp_v4_ok [OF slots len, of i ip pf]) (use 3 that in \<open>simp add: process_protocol_def\<close>)
  next
    case other
    then show thesis using slots rep(2) by (rule that) (simp split: if_splits)
  qed
qed

end
