(* ===== verification/Ingress_Safety.thy ===== *)
theory Ingress_Safety
  imports Ingress
begin

text \<open>
  The interface as a whole on input: its invariant, which every frame keeps, and that the answers can be sent.
\<close>

section \<open>The invariant of the interface\<close>

definition cache_ok :: "('m \<Rightarrow> bool) \<Rightarrow> 'm linear_map \<Rightarrow> 'm neighbor_cache \<Rightarrow> bool" where
  "cache_ok ok ops c \<longleftrightarrow> ok (nc_storage c) \<and>
     (\<forall>a nb. lm_get ops (nc_storage c) a = Some nb \<longrightarrow> (\<exists>hw. hardware_addr nb = HwEthernet hw))"

definition routes_ok :: "route list \<Rightarrow> bool" where
  "routes_ok rs \<longleftrightarrow> (\<forall>r \<in> set rs. cidr_ok (route_cidr r) \<and> (\<exists>a. via_router r = Ipv4 a \<and> addr_is_unicast (Ipv4 a)))"

text \<open>
  The interface has an address for its medium, an IP MTU of at least 576, well-formed address blocks, IPv4 routers, and
  only Ethernet addresses in its neighbor cache.
\<close>

definition iface_ok :: "('m \<Rightarrow> bool) \<Rightarrow> 'm platform \<Rightarrow> 'm iface \<Rightarrow> bool" where
  "iface_ok ok pf i \<longleftrightarrow> link_ok i \<and> (\<exists>mtu. dc_ip_mtu (if_caps i) = Some mtu \<and> IPV4_MIN_MTU \<le> mtu) \<and>
     (\<forall>c \<in> set (if_ip_addrs i). cidr_ok c) \<and> routes_ok (if_routes i) \<and> cache_ok ok (pf_map pf) (if_neighbor_cache i)"

definition sizes_ok :: "'k packet_assembler_set \<Rightarrow> bool" where
  "sizes_ok slots \<longleftrightarrow> (\<forall>a \<in> set slots. \<forall>n. pa_total_size a = Some n \<longrightarrow> n \<le> 131072)"

definition interface_ok :: "('m \<Rightarrow> bool) \<Rightarrow> 'm platform \<Rightarrow> 'm interface \<Rightarrow> bool" where
  "interface_ok ok pf t \<longleftrightarrow> iface_ok ok pf (in_inner t) \<and> pas_inv (in_assembler t) \<and> sizes_ok (in_assembler t)"

section \<open>Addresses and routes\<close>

lemma any_opt_total: "(\<And>x. x \<in> set xs \<Longrightarrow> P x \<noteq> None) \<Longrightarrow> any_opt P xs \<noteq> None"
proof (induction xs)
  case (Cons x xs)
  then obtain b where "P x = Some b" by (meson list.set_intros(1) not_None_eq)
  then show ?case using Cons by (simp del: not_None_eq)
qed simp

lemma in_same_network_total: "\<forall>c \<in> set addrs. cidr_ok c \<Longrightarrow> in_same_network addrs a \<noteq> None"
  unfolding in_same_network_def by (rule any_opt_total) (use contains_addr_total in blast)

lemma routes_lookup_ok:
  assumes "routes_ok rs" "addr_is_unicast a"
  obtains res where "routes_lookup rs a t = Some res" "\<And>x. res = Some x \<Longrightarrow> \<exists>b. x = Ipv4 b \<and> addr_is_unicast x"
proof -
  have "filter_opt (route_matches a t) rs = Some (filter (applies a t) rs)"
    using assms(1) by (intro filter_opt_total route_matches_applies) (auto simp: routes_ok_def)
  then have r: "routes_lookup rs a t = Some (map_option via_router (max_by_key (cidr_prefix_len \<circ> route_cidr) (filter (applies a t) rs)))"
    using assms(2) by (simp add: routes_lookup_def)
  have "\<exists>b. x = Ipv4 b \<and> addr_is_unicast x"
    if x: "map_option via_router (max_by_key (cidr_prefix_len \<circ> route_cidr) (filter (applies a t) rs)) = Some x" for x
  proof -
    obtain rt where rt: "max_by_key (cidr_prefix_len \<circ> route_cidr) (filter (applies a t) rs) = Some rt" "x = via_router rt" using x by auto
    then have "rt \<in> set rs" using max_by_key_Some by (metis filter_is_subset max_by_key_None option.distinct(1) option.inject subsetD)
    then show ?thesis using assms(1) rt(2) by (auto simp: routes_ok_def)
  qed
  then show thesis using that [OF r] by blast
qed

lemma ipv4_dst_admitted_total: "routes_ok (if_routes i) \<Longrightarrow> ipv4_dst_admitted i dst \<noteq> None"
  by (cases "addr_is_unicast (Ipv4 dst)"; simp add: ipv4_dst_admitted_def del: addr_is_unicast.simps not_None_eq)
    (rule routes_lookup_ok [of "if_routes i" "Ipv4 dst" "if_now i"]; simp del: not_None_eq)

section \<open>The neighbor cache\<close>

lemma reset_expiry_ok:
  assumes laws: "lm_laws n ok ops" and c: "cache_ok ok ops c"
  shows "cache_ok ok ops (reset_expiry_if_existing ops a hw t c)"
proof (cases "lm_get ops (nc_storage c) a")
  case (Some nb)
  let ?nb = "nb\<lparr>expires_at := instant_add t ENTRY_LIFETIME\<rparr>"
  have "ok (lm_write ops a ?nb (nc_storage c)) \<and> lm_get ops (lm_write ops a ?nb (nc_storage c)) = (lm_get ops (nc_storage c))(a \<mapsto> ?nb)"
    using laws c Some unfolding lm_laws_def cache_ok_def by blast
  then show ?thesis using c Some by (auto simp: reset_expiry_if_existing_def cache_ok_def)
qed (use c in \<open>simp add: reset_expiry_if_existing_def\<close>)

lemma cache_fill_ok:
  assumes laws: "lm_laws n ok ops" "0 < n" and c: "cache_ok ok ops c" and a: "addr_is_unicast a" "eth_is_unicast hw"
  obtains c' where "cache_fill ops a (HwEthernet hw) t c = Some c'" "cache_ok ok ops c'"
proof -
  let ?e = "instant_add t ENTRY_LIFETIME"
  have hw: "hw_is_unicast (HwEthernet hw) = Some True" using a(2) by simp
  have f: "cache_fill ops a (HwEthernet hw) t c = fill_with_expiration ops a (HwEthernet hw) ?e c"
    using a(1) hw by (simp add: cache_fill_def assert_unicast_def del: hw_is_unicast.simps)
  have s: "ok (nc_storage c)" using c by (simp add: cache_ok_def)
  show thesis
  proof (cases rule: fill_with_expiration_ok [OF laws s a(1) hw, of ?e, case_names plain evict])
    case (plain c')
    then show thesis using c f by (intro that [of c']) (auto simp: cache_ok_def)
  next
    case (evict c' k old)
    then show thesis using c f by (intro that [of c']) (auto simp: cache_ok_def split: if_splits)
  qed
qed


section \<open>Reassembly\<close>

lemma pa_input_sizes:
  assumes "pa_input alloc total_sz data offset a = Some (p, a')" "\<forall>n. pa_total_size a = Some n \<longrightarrow> n \<le> 131072" "\<forall>n. total_sz = Some n \<longrightarrow> n \<le> 131072"
  shows "\<forall>n. pa_total_size a' = Some n \<longrightarrow> n \<le> 131072" "\<forall>x. p = Some x \<longrightarrow> length x \<le> 131072"
proof -
  obtain r b where b: "(case total_sz of None \<Rightarrow> (Inr (), a) | Some sz \<Rightarrow> pa_set_total_size alloc sz a) = (r, b)" by fastforce
  have sb: "\<forall>n. pa_total_size b = Some n \<longrightarrow> n \<le> 131072"
    using b assms(2,3) by (cases total_sz) (auto simp: pa_set_total_size_def Let_def buffer_grow_def split: if_splits option.splits)
  have ign: "pa_total_size c' = pa_total_size c" if "asm_add_ignored m k c = Some c'" for m k c c'
    using that by (cases "asm_add (pa_assembler c) m k"; cases "the (asm_add (pa_assembler c) m k)") (auto simp: asm_add_ignored_def)
  have add: "pa_total_size c = pa_total_size b" if "pa_add alloc data offset b = Some (res, c)" for res c
    using that by (auto simp: pa_add_def Let_def bind_eq_Some_conv buffer_grow_def dest!: ign split: if_splits)
  have asm: "(\<forall>n. pa_total_size c' = Some n \<longrightarrow> n \<le> 131072) \<and> (\<forall>x. q = Some x \<longrightarrow> length x \<le> 131072)"
    if "pa_assemble c = Some (q, c')" "\<forall>n. pa_total_size c = Some n \<longrightarrow> n \<le> 131072" for c q c'
    using that by (auto simp: pa_assemble_def Let_def bind_eq_Some_conv slice_def split: if_splits)
  have "(\<forall>n. pa_total_size a' = Some n \<longrightarrow> n \<le> 131072) \<and> (\<forall>x. p = Some x \<longrightarrow> length x \<le> 131072)"
  proof (cases r)
    case (Inl e)
    then show ?thesis using assms(1) sb by (simp add: pa_input_def b)
  next
    case (Inr u)
    then obtain res c where c: "pa_add alloc data offset b = Some (res, c)" using assms(1) by (auto simp: pa_input_def b bind_eq_Some_conv)
    then have "\<forall>n. pa_total_size c = Some n \<longrightarrow> n \<le> 131072" using sb add by simp
    then show ?thesis using assms(1) Inr c asm [of c p a'] by (cases res) (auto simp: pa_input_def b)
  qed
  then show "\<forall>n. pa_total_size a' = Some n \<longrightarrow> n \<le> 131072" "\<forall>x. p = Some x \<longrightarrow> length x \<le> 131072" by blast+
qed

lemma pas_input_sizes:
  assumes "pas_input alloc key expires total_sz data offset slots = Some (p, slots')" "sizes_ok slots" "pas_inv slots"
    "\<forall>n. total_sz = Some n \<longrightarrow> n \<le> 131072"
  shows "sizes_ok slots'" "\<forall>x. p = Some x \<longrightarrow> length x \<le> 131072"
proof -
  obtain r s where g: "pas_get key expires slots = (r, s)" by fastforce
  have s: "sizes_ok s"
    using g assms(2) by (cases rule: pas_get_ok [of key expires slots, case_names full found fresh])
      (auto simp: sizes_ok_def dest!: set_update_subset_insert [THEN subsetD] dest: bspec [OF _ nth_mem])
  have "sizes_ok slots' \<and> (\<forall>x. p = Some x \<longrightarrow> length x \<le> 131072)"
  proof (cases r)
    case (Inl e)
    then show ?thesis using assms(1) g s by (auto simp: pas_input_def)
  next
    case (Inr j)
    then obtain a' where a': "pa_input alloc total_sz data offset (s ! j) = Some (p, a')" "slots' = s[j := a']"
      using assms(1) g by (auto simp: pas_input_def bind_eq_Some_conv)
    have "j < length s" using pas_get_slot(1) [OF assms(3)] g Inr by blast
    then have "\<forall>n. pa_total_size (s ! j) = Some n \<longrightarrow> n \<le> 131072" using s nth_mem by (fastforce simp: sizes_ok_def)
    note i = pa_input_sizes [OF a'(1) this assms(4)]
    have "sizes_ok slots'" unfolding a'(2) sizes_ok_def
    proof
      fix x
      assume "x \<in> set (s[j := a'])"
      then have "x = a' \<or> x \<in> set s" using set_update_subset_insert by fast
      then show "\<forall>n. pa_total_size x = Some n \<longrightarrow> n \<le> 131072" using s i(1) by (auto simp: sizes_ok_def)
    qed
    then show ?thesis using i(2) by blast
  qed
  then show "sizes_ok slots'" "\<forall>x. p = Some x \<longrightarrow> length x \<le> 131072" by blast+
qed

lemma ipv4_reassemble_ok:
  assumes parsed: "ipv4_parse frag caps d = Some (Inr r)" and inv: "pas_inv slots" "sizes_ok slots"
  obtains p slots' where "ipv4_reassemble alloc t d slots = Some (p, slots')" "pas_inv slots'" "sizes_ok slots'" "\<And>x. p = Some x \<Longrightarrow> length x \<le> 131072"
proof -
  obtain x where x: "ipv4_payload d = Some x" "length x \<le> 65535"
    using parsed by (cases rule: ipv4_parse_total [of frag caps d, case_names e g]) auto
  obtain hl tlen where l: "20 \<le> length d" "ipv4_get_header_len d = Some hl" "ipv4_total_len d = Some tlen" "unat hl \<le> unat tlen"
    using parsed by (cases rule: ipv4_check_len_total [of d, case_names e g]) (auto simp: ipv4_parse_def)
  then obtain mf off key where f: "ipv4_more_frags d = Some mf" "ipv4_frag_offset d = Some off" "ipv4_get_key d = Some key"
    by (auto simp: ipv4_fields ipv4_more_frags_def ipv4_frag_offset_def ipv4_get_key_def ipv4_ident_def get_u8_at get_u16_at get_u32_at)
  show thesis
  proof (cases "mf \<or> off \<noteq> 0")
    case True
    let ?sz = "if mf then None else Some (unat tlen - unat hl + unat off)"
    have sz: "\<forall>n. ?sz = Some n \<longrightarrow> n \<le> 131072"
      using unsigned_less [where ?'a = nat, of tlen] unsigned_less [where ?'a = nat, of off] by (auto split: if_splits)
    obtain p slots' where p: "pas_input alloc key t ?sz x (unat off) slots = Some (p, slots')" "pas_inv slots'"
      by (rule pas_input_ok [OF inv(1), of alloc key t ?sz x "unat off"])
    have "ipv4_reassemble alloc t d slots = Some (p, slots')"
      using f True l x p(1) by (simp add: ipv4_reassemble_def)
    then show thesis using p(2) pas_input_sizes [OF p(1) inv(2,1) sz] by (intro that) blast+
  next
    case False
    then show thesis using f x inv by (intro that [of "Some x" slots]) (simp_all add: ipv4_reassemble_def)
  qed
qed


section \<open>Input\<close>

text \<open>A TCP segment from the unspecified address, to which an answer cannot be sent.\<close>

definition tcp_from_nowhere :: "checksum_capabilities \<Rightarrow> u8 list \<Rightarrow> bool" where
  "tcp_from_nowhere caps d \<longleftrightarrow>
     (\<exists>ip. ipv4_parse True caps d = Some (Inr ip) \<and> ih_src_addr ip = 0 \<and> ih_next_header ip = ProtoTcp)"

text \<open>What holds of an answer, of the sockets and of the interface after a frame.\<close>

fun outcome_ok :: "('m iface \<Rightarrow> 'p \<Rightarrow> bool) \<Rightarrow> ('m \<Rightarrow> bool) \<Rightarrow> 'm platform \<Rightarrow> device_capabilities \<Rightarrow> 'p option \<times> slots \<times> 'm interface \<Rightarrow> bool" where
  "outcome_ok A ok pf caps (rep, slots, t) \<longleftrightarrow> slots_ok slots \<and> interface_ok ok pf t \<and> if_caps (in_inner t) = caps \<and>
     (\<forall>p. rep = Some p \<longrightarrow> A (in_inner t) p)"

lemma iface_ok_cache:
  "iface_ok ok pf i \<Longrightarrow> cache_ok ok (pf_map pf) c \<Longrightarrow> iface_ok ok pf (i\<lparr>if_neighbor_cache := c\<rparr>)"
  by (cases "dc_medium (if_caps i)") (simp_all add: iface_ok_def link_ok_def)

lemma process_ipv4_ok:
  assumes laws: "lm_laws n ok (pf_map pf)" and t: "interface_ok ok pf t" and slots: "slots_ok slots"
    and src: "\<not> tcp_from_nowhere (dc_checksum (if_caps (in_inner t))) d"
  shows "\<exists>out. process_ipv4 pf m hw d slots t = Some out \<and> outcome_ok answer_ok ok pf (if_caps (in_inner t)) out"
proof -
  define i where "i = in_inner t"
  note eq = process_ipv4_def Let_def i_def [symmetric]
  have tt: "iface_ok ok pf i" "pas_inv (in_assembler t)" "sizes_ok (in_assembler t)" using t by (simp_all add: interface_ok_def i_def)
  have same: ?thesis if "process_ipv4 pf m hw d slots t = Some (None, slots, t)" using that slots t by simp
  show ?thesis
  proof (cases rule: ipv4_parse_total [of True "dc_checksum (if_caps i)" d, case_names err parsed])
    case (err e)
    then show ?thesis by (intro same) (simp add: eq)
  next
    case (parsed ip _)
    show ?thesis
    proof (cases "ipv4_src_admitted (if_ip_addrs i) (ih_src_addr ip)")
      case False
      then show ?thesis using parsed(1) by (intro same) (simp add: eq)
    next
      case adm: True
      obtain p asm where p: "ipv4_reassemble (pf_alloc pf) (instant_add (if_now i) (in_reassembly_timeout t)) d (in_assembler t) = Some (p, asm)"
        "pas_inv asm" "sizes_ok asm" and len: "\<And>x. p = Some x \<Longrightarrow> length x \<le> 131072"
        by (rule ipv4_reassemble_ok [OF parsed(1) tt(2,3), of "pf_alloc pf" "instant_add (if_now i) (in_reassembly_timeout t)"]) blast
      have t1: "interface_ok ok pf (t\<lparr>in_assembler := asm\<rparr>)" using t p(2,3) by (simp add: interface_ok_def)
      show ?thesis
      proof (cases p)
        case None
        then show ?thesis using parsed(1) adm p(1) t1 slots by (simp add: eq)
      next
        case (Some data)
        obtain b slots1 where raw: "raw_socket_filter (dc_checksum (if_caps i)) (Ipv4Repr ip) data slots = Some (b, slots1)" "slots_ok slots1"
          using raw_socket_filter_ok [OF slots] .
        obtain adm2 where adm2: "ipv4_dst_admitted i (ih_dst_addr ip) = Some adm2"
          using ipv4_dst_admitted_total [of i] tt(1) by (auto simp: iface_ok_def simp del: not_None_eq)
        define c where "c = (if is_unicast_v4 (if_ip_addrs i) (ih_dst_addr ip)
          then reset_expiry_if_existing (pf_map pf) (Ipv4 (ih_src_addr ip)) hw (if_now i) (if_neighbor_cache i) else if_neighbor_cache i)"
        have c: "cache_ok ok (pf_map pf) c" using reset_expiry_ok [OF laws] tt(1) by (simp add: c_def iface_ok_def)
        have tcp: "ih_next_header ip = ProtoTcp \<longrightarrow> is_unicast_v4 (if_ip_addrs (i\<lparr>if_neighbor_cache := c\<rparr>)) (ih_src_addr ip)"
          using adm src parsed(1) by (auto simp: ipv4_src_admitted_def tcp_from_nowhere_def i_def)
        obtain rep slots2 where pr: "process_protocol pf (i\<lparr>if_neighbor_cache := c\<rparr>) m b ip data slots1 = Some (rep, slots2)" "slots_ok slots2"
          and ans: "\<And>q. rep = Some q \<Longrightarrow> answer_ok (i\<lparr>if_neighbor_cache := c\<rparr>) q"
          by (rule process_protocol_ok [OF raw(2) len [OF Some] tcp, of pf m b]) blast
        have i': "(if is_unicast_v4 (if_ip_addrs i) (ih_dst_addr ip) then i\<lparr>if_neighbor_cache := reset_expiry_if_existing (pf_map pf)
            (Ipv4 (ih_src_addr ip)) hw (if_now i) (if_neighbor_cache i)\<rparr> else i) = i\<lparr>if_neighbor_cache := c\<rparr>" by (simp add: c_def)
        let ?t = "t\<lparr>in_assembler := asm, in_inner := i\<lparr>if_neighbor_cache := c\<rparr>\<rparr>"
        have "process_ipv4 pf m hw d slots t = Some (if adm2 then (rep, slots2, ?t) else (None, slots1, t\<lparr>in_assembler := asm\<rparr>))"
          unfolding eq using parsed(1) adm p(1) Some raw(1) adm2 pr(1) by (simp add: i')
        moreover have "interface_ok ok pf ?t" using iface_ok_cache [OF tt(1) c] p(2,3) by (simp add: interface_ok_def)
        ultimately show ?thesis using raw(2) pr(2) ans t1 by (simp add: i_def)
      qed
    qed
  qed
qed


lemma arp_new_checked_total:
  obtains (err) e where "arp_new_checked d = Some (Inl e)" | (ok) "arp_new_checked d = Some (Inr d)"
proof (cases "8 \<le> length d")
  case True
  then obtain hl pl where "arp_hardware_len d = Some hl" "arp_protocol_len d = Some pl" by (simp add: arp_fields get_u8_at)
  then show thesis using True that by (cases "length d < snd (arp_tpa hl pl)") (auto simp: arp_new_checked_def arp_check_len_def)
qed (use that in \<open>simp add: arp_new_checked_def arp_check_len_def\<close>)

lemma process_arp_ok:
  assumes laws: "lm_laws n ok (pf_map pf)" "0 < n" and i: "iface_ok ok pf i" and hw: "ethernet_or_panic (if_hardware_addr i) = Some a"
    and len: "14 \<le> length frame"
  shows "\<exists>rep c. process_arp pf now frame i = Some (rep, i\<lparr>if_neighbor_cache := c\<rparr>) \<and> cache_ok ok (pf_map pf) c \<and>
    (\<forall>p. rep = Some p \<longrightarrow> (\<exists>r. p = EthArp r))"
proof -
  have c0: "cache_ok ok (pf_map pf) (if_neighbor_cache i)" and addrs: "\<forall>c \<in> set (if_ip_addrs i). cidr_ok c"
    using i by (simp_all add: iface_ok_def)
  have same: ?thesis if "process_arp pf now frame i = Some (None, i)"
    using that c0 by (intro exI [of _ None] exI [of _ "if_neighbor_cache i"]) simp
  have pay: "eth_payload frame = Some (drop 14 frame)" using len by (simp add: eth_payload_def)
  obtain parsed where parsed: "arp_parse (drop 14 frame) = Some parsed" using arp_parse_total by blast
  consider (err) e where "arp_new_checked (drop 14 frame) = Some (Inl e)" | (bad) e where "arp_new_checked (drop 14 frame) = Some (Inr (drop 14 frame))" "parsed = Inl e"
    | (good) r where "arp_new_checked (drop 14 frame) = Some (Inr (drop 14 frame))" "parsed = Inr r"
    by (cases rule: arp_new_checked_total [of "drop 14 frame"]; cases parsed) auto
  then show ?thesis
  proof cases
    case err
    then show ?thesis using pay by (intro same) (simp add: process_arp_def)
  next
    case bad
    then show ?thesis using pay parsed by (intro same) (simp add: process_arp_def)
  next
    case (good r)
    obtain near where near: "in_same_network (if_ip_addrs i) (Ipv4 (arp_source_ip r)) = Some near"
      using in_same_network_total [OF addrs] by blast
    show ?thesis
    proof (cases "\<not> has_ip_addr (if_ip_addrs i) (Ipv4 (arp_target_ip r)) \<and> \<not> if_any_ip i \<or>
        (case arp_operation r of ArpOpUnknown _ \<Rightarrow> True | _ \<Rightarrow> False) \<or>
        \<not> addr_is_unicast (Ipv4 (arp_source_ip r)) \<or> \<not> eth_is_unicast (arp_source_hw r) \<or> \<not> near")
      case True
      then show ?thesis using good pay parsed near
        by (intro same) (auto simp: process_arp_def simp del: addr_is_unicast.simps)
    next
      case False
      obtain c where c: "cache_fill (pf_map pf) (Ipv4 (arp_source_ip r)) (HwEthernet (arp_source_hw r)) now (if_neighbor_cache i) = Some c"
        "cache_ok ok (pf_map pf) c"
        by (rule cache_fill_ok [OF laws c0, of "Ipv4 (arp_source_ip r)" "arp_source_hw r" now]) (use False in auto)
      then show ?thesis using good pay parsed near False hw
        by (intro exI [of _ "if arp_operation r = ArpRequest then Some (EthArp \<lparr>arp_operation = ArpReply, arp_source_hw = a,
              arp_source_ip = arp_target_ip r, arp_target_hw = arp_source_hw r, arp_target_ip = arp_source_ip r\<rparr>) else None"] exI [of _ c])
          (auto simp: process_arp_def Let_def simp del: addr_is_unicast.simps)
    qed
  qed
qed

fun packet_ok :: "'m iface \<Rightarrow> ethernet_packet \<Rightarrow> bool" where
  "packet_ok i (EthArp r) \<longleftrightarrow> dc_medium (if_caps i) = MediumEthernet"
| "packet_ok i (EthIp p) \<longleftrightarrow> answer_ok i p"

lemma link_ok_ethernet:
  "iface_ok ok pf i \<Longrightarrow> dc_medium (if_caps i) = MediumEthernet \<Longrightarrow> \<exists>a. ethernet_or_panic (if_hardware_addr i) = Some a"
  by (auto simp: iface_ok_def link_ok_def)

lemma process_ethernet_ok:
  assumes laws: "lm_laws n ok (pf_map pf)" "0 < n" and t: "interface_ok ok pf t" and slots: "slots_ok slots"
    and eth: "dc_medium (if_caps (in_inner t)) = MediumEthernet"
    and src: "\<not> tcp_from_nowhere (dc_checksum (if_caps (in_inner t))) (drop 14 frame)"
  shows "\<exists>out. process_ethernet pf m frame slots t = Some out \<and> outcome_ok packet_ok ok pf (if_caps (in_inner t)) out"
proof -
  let ?i = "in_inner t" and ?ip = "drop 14 frame"
  have i: "iface_ok ok pf ?i" using t by (simp add: interface_ok_def)
  obtain a where a: "ethernet_or_panic (if_hardware_addr ?i) = Some a" using link_ok_ethernet [OF i eth] by blast
  have same: ?thesis if "process_ethernet pf m frame slots t = Some (None, slots, t)" using that slots t by simp
  show ?thesis
  proof (cases "14 \<le> length frame")
    case False
    then show ?thesis by (intro same) (simp add: process_ethernet_def eth_new_checked_def eth_check_len_def ETH_HEADER_LEN_def)
  next
    case len: True
    obtain dst shw ty where f: "eth_dst_addr frame = Some dst" "eth_src_addr frame = Some shw" "eth_ethertype frame = Some ty"
      "eth_payload frame = Some ?ip"
      using len by (simp add: eth_fields get_eth_addr_at get_u16_at eth_payload_def)
    have n: "eth_new_checked frame = Inr frame" using len by (simp add: eth_new_checked_def eth_check_len_def ETH_HEADER_LEN_def)
    obtain arp c where arp: "process_arp pf (if_now ?i) frame ?i = Some (arp, ?i\<lparr>if_neighbor_cache := c\<rparr>)" "cache_ok ok (pf_map pf) c"
      "\<And>p. arp = Some p \<Longrightarrow> \<exists>r. p = EthArp r" using process_arp_ok [OF laws i a len] by blast
    obtain rep slots' t' where v4: "process_ipv4 pf m (HwEthernet shw) ?ip slots t = Some (rep, slots', t')"
      "outcome_ok answer_ok ok pf (if_caps ?i) (rep, slots', t')"
      using process_ipv4_ok [OF laws(1) t slots src, of m "HwEthernet shw"] by (metis prod_cases3)
    let ?drop = "\<not> eth_is_broadcast dst \<and> \<not> eth_is_multicast dst \<and> HwEthernet dst \<noteq> if_hardware_addr ?i"
    consider (none) "process_ethernet pf m frame slots t = Some (None, slots, t)"
      | (is_arp) "process_ethernet pf m frame slots t = Some (arp, slots, t\<lparr>in_inner := ?i\<lparr>if_neighbor_cache := c\<rparr>\<rparr>)"
      | (is_v4) "process_ethernet pf m frame slots t = Some (map_option EthIp rep, slots', t')"
    proof (cases ?drop)
      case True
      then show thesis using none n f by (simp add: process_ethernet_def)
    next
      case False
      then have e: "process_ethernet pf m frame slots t = (case ty of
             EtherArp \<Rightarrow> Some (arp, slots, t\<lparr>in_inner := ?i\<lparr>if_neighbor_cache := c\<rparr>\<rparr>)
           | EtherIpv4 \<Rightarrow> do {
               checked \<leftarrow> ipv4_new_checked ?ip;
               case checked of Inl _ \<Rightarrow> Some (None, slots, t)
               | Inr p \<Rightarrow> do { (rep, slots, t) \<leftarrow> process_ipv4 pf m (HwEthernet shw) p slots t; Some (map_option EthIp rep, slots, t) } }
           | _ \<Rightarrow> Some (None, slots, t))"
        using n f arp(1) by (auto simp: process_ethernet_def Let_def)
      have "process_ethernet pf m frame slots t \<in> {Some (None, slots, t), Some (map_option EthIp rep, slots', t')}" if "ty = EtherIpv4"
        using e that v4(1) by (cases rule: ipv4_check_len_total [of ?ip, case_names err ok]) (simp_all add: ipv4_new_checked_def)
      then show thesis using e none is_arp is_v4 by (cases ty) auto
    qed
    then show ?thesis
    proof cases
      case is_arp
      have "interface_ok ok pf (t\<lparr>in_inner := ?i\<lparr>if_neighbor_cache := c\<rparr>\<rparr>)"
        using t iface_ok_cache [OF i arp(2)] by (simp add: interface_ok_def)
      then show ?thesis using is_arp slots eth arp(3) by fastforce
    next
      case is_v4
      then show ?thesis using v4(2) by auto
    qed (rule same)
  qed
qed

lemma process_ip_ok:
  assumes laws: "lm_laws n ok (pf_map pf)" and t: "interface_ok ok pf t" and slots: "slots_ok slots" and ne: "d \<noteq> []"
    and src: "\<not> tcp_from_nowhere (dc_checksum (if_caps (in_inner t))) d"
  shows "\<exists>out. process_ip pf m d slots t = Some out \<and> outcome_ok answer_ok ok pf (if_caps (in_inner t)) out"
proof -
  have same: ?thesis if "process_ip pf m d slots t = Some (None, slots, t)" using that slots t by simp
  obtain v where v: "of_packet d = Some v" using ne by (cases d) (auto simp: of_packet_def get_u8_def)
  show ?thesis
  proof (cases "v = Inr VIpv4 \<and> ipv4_check_len d = Some (Inr ())")
    case True
    then show ?thesis using v process_ipv4_ok [OF laws t slots src, of m HwIp] by (simp add: process_ip_def ipv4_new_checked_def)
  next
    case False
    then show ?thesis using v
      by (cases rule: ipv4_check_len_total [of d, case_names err ok])
        (intro same; auto simp: process_ip_def ipv4_new_checked_def split: sum.split ip_version.split)+
  qed
qed


section \<open>Output\<close>

text \<open>The ARP packet of \<open>dispatch\<close> and of \<open>lookup_hardware_addr\<close>.\<close>

lemma dispatch_ethernet_arp:
  assumes tx: "\<And>n. length (tx n) = n" and hw: "ethernet_or_panic (if_hardware_addr i) = Some a"
  shows "\<exists>frame. dispatch_ethernet tx i (arp_buffer_len r) (\<lambda>frame. do {
     frame \<leftarrow> eth_set_dst_addr dst frame;
     frame \<leftarrow> eth_set_ethertype EtherArp frame;
     eth_payload_mut (arp_emit r) frame }) = Some frame"
proof -
  let ?b = "tx 42"
  have e: "eth_buffer_len (arp_buffer_len r) = 42" by (simp add: eth_buffer_len_def ETH_HEADER_LEN_def arp_buffer_len_def arp_bounds)
  have l: "length ?b = 42" using tx by simp
  define f where "f = overwrite (overwrite (overwrite ?b 6 (be_bytes 6 a)) 0 (be_bytes 6 dst)) 12 (be_bytes 2 (0x0806 :: u16))"
  have "length f = 42" using l by (simp add: f_def)
  moreover from this have "arp_emit r (drop 14 f) = Some (arp_octets r (drop 14 f))" by (intro arp_emit_octets) simp
  ultimately show ?thesis using l hw tx
    by (simp add: dispatch_ethernet_def Let_def e eth_setters put_eth_addr_at put_at f_def [symmetric] eth_payload_mut_def eth_payload_def)
qed

lemma lookup_hardware_addr_v4_ok:
  assumes tx: "\<And>n. length (tx n) = n" and i: "iface_ok ok pf i" and eth: "dc_medium (if_caps i) = MediumEthernet"
    and dst: "is_unicast_v4 (if_ip_addrs i) dst"
  shows "\<exists>hw frames c. lookup_hardware_addr_v4 (pf_map pf) tx dst i = Some (hw, frames, i\<lparr>if_neighbor_cache := c\<rparr>) \<and> cache_ok ok (pf_map pf) c"
proof -
  let ?c = "if_neighbor_cache i"
  have c: "cache_ok ok (pf_map pf) ?c" and addrs: "\<forall>c \<in> set (if_ip_addrs i). cidr_ok c" and rs: "routes_ok (if_routes i)"
    using i by (simp_all add: iface_ok_def)
  obtain a where a: "ethernet_or_panic (if_hardware_addr i) = Some a" using link_ok_ethernet [OF i eth] by blast
  have u: "addr_is_unicast (Ipv4 dst)" "\<not> is_broadcast (if_ip_addrs i) (Ipv4 dst)" "\<not> addr_is_multicast (Ipv4 dst)"
    using dst by (simp_all add: is_unicast_v4_def)
  have same: ?thesis if "lookup_hardware_addr_v4 (pf_map pf) tx dst i = Some (hw, frames, i)" for hw frames
    using that c by (intro exI [of _ hw] exI [of _ frames] exI [of _ ?c]) simp
  note look = lookup_hardware_addr_v4_def [of "pf_map pf" tx dst i, unfolded if_not_P [OF u(2)] if_not_P [OF u(3)]]
  obtain near where near: "in_same_network (if_ip_addrs i) (Ipv4 dst) = Some near" using in_same_network_total [OF addrs] by blast
  obtain hop where hop: "iface_route (if_ip_addrs i) (if_routes i) (Ipv4 dst) (if_now i) = Some hop"
    "\<And>x. hop = Some x \<Longrightarrow> \<exists>b. x = Ipv4 b \<and> addr_is_unicast x"
  proof (cases "near \<or> addr_is_broadcast (Ipv4 dst)")
    case True
    then show thesis using near u(1) by (intro that [of "Some (Ipv4 dst)"]) (auto simp: iface_route_def simp del: addr_is_unicast.simps)
  next
    case False
    obtain res where res: "routes_lookup (if_routes i) (Ipv4 dst) (if_now i) = Some res" "\<And>x. res = Some x \<Longrightarrow> \<exists>b. x = Ipv4 b \<and> addr_is_unicast x"
      by (rule routes_lookup_ok [OF rs u(1), of "if_now i"]) blast
    have "iface_route (if_ip_addrs i) (if_routes i) (Ipv4 dst) (if_now i) = Some res"
      using near False res(1) by (simp add: iface_route_def)
    then show thesis using res(2) by (rule that)
  qed
  show ?thesis
  proof (cases hop)
    case None
    then show ?thesis using hop(1) by (intro same) (simp add: look)
  next
    case (Some x)
    obtain b where b: "x = Ipv4 b" "addr_is_unicast x" using hop(2) [OF Some] by blast
    obtain ans where ans: "cache_lookup (pf_map pf) x (if_now i) ?c = Some ans" "\<And>hw. ans = Found hw \<Longrightarrow> \<exists>e. hw = HwEthernet e"
      using b(2) c by (fastforce simp: cache_lookup_def cache_ok_def split: option.splits if_splits)
    show ?thesis
    proof (cases ans)
      case (Found hw)
      then obtain e where "hw = HwEthernet e" using ans(2) by blast
      then show ?thesis using hop(1) Some ans(1) Found by (intro same) (simp add: look)
    next
      case RateLimited
      then show ?thesis using hop(1) Some ans(1) by (intro same) (simp add: look)
    next
      case NotFound
      show ?thesis
      proof (cases "get_source_address_ipv4 (if_ip_addrs i)")
        case None
        then show ?thesis using hop(1) Some ans(1) NotFound b(1) a by (intro same) (simp add: look)
      next
        case (Some src)
        define r where "r = \<lparr>arp_operation = ArpRequest, arp_source_hw = a, arp_source_ip = src, arp_target_hw = eth_broadcast, arp_target_ip = b\<rparr>"
        obtain frame where "dispatch_ethernet tx i (arp_buffer_len r) (\<lambda>frame. do {
             frame \<leftarrow> eth_set_dst_addr eth_broadcast frame; frame \<leftarrow> eth_set_ethertype EtherArp frame;
             eth_payload_mut (arp_emit r) frame }) = Some frame"
          using dispatch_ethernet_arp [OF tx a] by blast
        then have "lookup_hardware_addr_v4 (pf_map pf) tx dst i =
            Some (Inl NeighborPending, [frame], i\<lparr>if_neighbor_cache := limit_rate (if_now i) ?c\<rparr>)"
          using hop(1) \<open>hop = Some x\<close> ans(1) NotFound b(1) a Some by (simp add: look r_def Let_def)
        moreover have "cache_ok ok (pf_map pf) (limit_rate (if_now i) ?c)" using c by (simp add: cache_ok_def limit_rate_def)
        ultimately show ?thesis by blast
      qed
    qed
  qed
qed


lemma icmpv4_emit_echo_total:
  assumes "8 \<le> length buf"
  shows "\<exists>bs. icmpv4_emit (EchoReply ident seq_no data) caps buf = Some bs \<and> length bs = length buf"
proof -
  define d where "d = overwrite (overwrite (overwrite (overwrite (overwrite buf 1 [0]) 0 [icmpv4_message_into IcmpEchoReply]) 1 [0]) 4 (be_bytes 2 ident)) 6 (be_bytes 2 seq_no)"
  have l: "length d = length buf" "8 \<le> length d" using assms by (simp_all add: d_def)
  have ne: "buf \<noteq> []" using assms by auto
  define x where "x = overwrite d 8 (overwrite (drop 8 d) 0 (take (min (length (drop 8 d)) (length data)) data))"
  have "icmpv4_emit (EchoReply ident seq_no data) caps buf =
      Option.bind (icmpv4_data_mut (\<lambda>part. Some (overwrite part 0 (take (min (length part) (length data)) data))) d)
        (\<lambda>d. if checksum_tx (caps_icmpv4 caps) then icmpv4_fill_checksum d else icmpv4_set_checksum 0 d)"
    using assms ne by (simp add: icmpv4_emit_def icmpv4_emit_echo_def icmpv4_setters put_at put_u8_0 d_def)
  also have "\<dots> = (if checksum_tx (caps_icmpv4 caps) then icmpv4_fill_checksum x else icmpv4_set_checksum 0 x)"
    unfolding icmpv4_data_mut_at [OF l(2)] by (simp add: x_def)
  finally show ?thesis using l by (auto simp: icmpv4_fill_checksum_def icmpv4_set_checksum_def put_at x_def)
qed

lemma tcp_emit_total:
  assumes fits: "tcp_fits r" and len: "length buf = tcp_buffer_len r" and v: "same_version src dst"
  shows "\<exists>bs. tcp_emit r src dst caps buf = Some bs \<and> length bs = length buf"
proof -
  have l: "length (packet_octets r buf) = length buf" "20 \<le> length buf"
    using length_packet_octets [OF fits len] tcp_header_len_props(2) [of r] len by (simp_all add: tcp_buffer_len_def)
  obtain h where "pseudo_header src dst ProtoTcp (of_nat (length buf)) = Some h" using pseudo_header_Some [OF v] by blast
  then show ?thesis using l unfolding tcp_emit_octets [OF fits len]
    by (auto simp: tcp_fill_checksum_def tcp_set_checksum_def put_at)
qed

lemma burst_limit_ok:
  assumes "dc_ip_mtu caps = Some mtu" "IPV4_MIN_MTU \<le> mtu" "tcp_fits r"
  obtains w where "burst_limit caps r = Some (r\<lparr>window_len := w\<rparr>)"
proof (cases "max_burst_size caps")
  case None
  then show thesis by (intro that [of "window_len r"]) (simp add: burst_limit_def)
next
  case (Some burst)
  have "576 \<le> max_transmission_unit caps" "tcp_header_len r \<le> 60"
    using assms by (auto simp: dc_ip_mtu_def IPV4_MIN_MTU_def usize_sub_eq_Some tcp_fits_def split: medium.splits)
  then show thesis using Some
    by (intro that [of "if burst * (max_transmission_unit caps - 20 - tcp_header_len r) < unat (window_len r)
        then of_nat (burst * (max_transmission_unit caps - 20 - tcp_header_len r)) else window_len r"])
      (simp add: burst_limit_def IPV4_HEADER_LEN_def Let_def)
qed

text \<open>The payload of an answer can be emitted into a buffer of its length, an echo reply into any longer one as well.\<close>

lemma emit_payload_ok:
  assumes ans: "answer_ok i p" and mtu: "dc_ip_mtu caps = Some mtu" "IPV4_MIN_MTU \<le> mtu"
    and len: "length buf = ih_payload_len (p4_header p) \<or> ih_payload_len (p4_header p) \<le> length buf \<and> mtu < 20 + ih_payload_len (p4_header p)"
  shows "\<exists>bs. emit_payload caps ip (p4_payload p) buf = Some bs \<and> length bs = length buf"
proof (cases "p4_payload p")
  case (PlIcmpv4 r)
  then have n: "ih_payload_len (p4_header p) = icmpv4_buffer_len r" using ans by (simp add: answer_ok_def)
  show ?thesis
  proof (cases "length buf = icmpv4_buffer_len r")
    case True
    then show ?thesis using icmpv4_emit_total PlIcmpv4 by (simp add: emit_payload_def)
  next
    case False
    then obtain ident seq_no data where e: "r = EchoReply ident seq_no data" using ans len n PlIcmpv4 mtu(2) by (auto simp: answer_ok_def)
    then have "8 \<le> length buf" using len n by auto
    then show ?thesis using icmpv4_emit_echo_total e PlIcmpv4 by (simp add: emit_payload_def)
  qed
next
  case (PlTcp r)
  then have r: "ih_payload_len (p4_header p) = tcp_buffer_len r" "payload r = []" "tcp_fits r" using ans by (simp_all add: answer_ok_def)
  then have l: "length buf = tcp_buffer_len r" using len mtu by (auto simp: tcp_fits_def tcp_buffer_len_def IPV4_MIN_MTU_def)
  obtain w where w: "burst_limit caps r = Some (r\<lparr>window_len := w\<rparr>)" using burst_limit_ok [OF mtu r(3)] .
  have h: "tcp_header_len (r\<lparr>window_len := w\<rparr>) = tcp_header_len r"
    by (cases r) (simp only: tcp_header_len_def sack_range_len_def tcp_repr.update_convs tcp_repr.select_convs)
  have f: "tcp_fits (r\<lparr>window_len := w\<rparr>)" using r(3) h by (simp add: tcp_fits_def tcp_buffer_len_def)
  have b: "length buf = tcp_buffer_len (r\<lparr>window_len := w\<rparr>)" unfolding l by (simp add: tcp_buffer_len_def h)
  have v: "same_version (Ipv4 (ih_src_addr ip)) (Ipv4 (ih_dst_addr ip))" by (simp add: same_version_def)
  show ?thesis unfolding emit_payload_def PlTcp ip_payload.case w bind.simps by (rule tcp_emit_total [OF f b v])
qed (use ans in \<open>simp_all add: answer_ok_def\<close>)

lemma emit_ip_v4_ok:
  assumes "20 \<le> length buf" "\<And>b. length b = length buf - 20 \<Longrightarrow> \<exists>bs. emit_payload caps r pl b = Some bs \<and> length bs = length b"
  obtains x where "emit_ip_v4 caps r pl buf = Some x" "length x = length buf" "header_ok r x" "get_u16 x 6 = Some 0x4000"
proof -
  have hl: "ipv4_buffer_len x = 20" for x by (simp add: ipv4_buffer_len_def IPV4_HEADER_LEN_def)
  obtain h where h: "ipv4_emit r (dc_checksum caps) buf = Some h" "header_ok r h" "length h = length buf" "get_u16 h 6 = Some 0x4000"
    by (rule emit_header_ok [OF assms(1), of r "dc_checksum caps"]) blast
  obtain bs where bs: "emit_payload caps r pl (drop 20 h) = Some bs" "length bs = length (drop 20 h)"
    using assms(2) [of "drop 20 h"] h(3) by auto
  then show thesis using h assms(1) header_ok_overwrite [OF h(2), of 20 bs]
    by (intro that [of "overwrite h 20 bs"]) (simp_all add: emit_ip_v4_def hl wire_simps)
qed


lemma start_fragmentation_total:
  assumes tx: "\<And>n. length (tx n) = n" and i: "link_ok i" "dc_ip_mtu (if_caps i) = Some mtu" "IPV4_MIN_MTU \<le> mtu" and ans: "answer_ok i p"
    and len: "mtu < 20 + ih_payload_len (p4_header p)" "20 + ih_payload_len (p4_header p) \<le> length (fr_buffer f)"
  shows "start_fragmentation tx i ident hw p mtu f \<noteq> None"
proof -
  let ?r = "(p4_header p)\<lparr>ih_payload_len := mtu - 20\<rparr>"
  have hl: "ipv4_buffer_len x = 20" for x by (simp add: ipv4_buffer_len_def IPV4_HEADER_LEN_def)
  have l: "20 \<le> length (fr_buffer f)" using len by simp
  have pay: "\<exists>bs. emit_payload (if_caps i) ?r (p4_payload p) b = Some bs \<and> length bs = length b" if "length b = length (fr_buffer f) - 20" for b
    by (rule emit_payload_ok [OF ans i(2,3)]) (use that len in linarith)
  obtain y where y: "emit_ip_v4 (if_caps i) ?r (p4_payload p) (fr_buffer f) = Some y" "length y = length (fr_buffer f)" "header_ok ?r y" "get_u16 y 6 = Some 0x4000"
    by (rule emit_ip_v4_ok [OF l, of "if_caps i" ?r "p4_payload p"]) (use pay in blast)+
  obtain h where h: "set_fragment_fields (dc_checksum (if_caps i)) ident True 0 y = Some h" "length h = length y"
    by (rule set_fragment_fields_ok [OF y(3,4), of "dc_checksum (if_caps i)" ident True 0]) blast
  define g where "g = (\<lambda>rest. do { part \<leftarrow> slice rest 0 mtu; packet \<leftarrow> slice h 0 mtu; Some (overwrite rest 0 packet) })"
  have g: "\<exists>q. g rest = Some q \<and> length q = mtu \<and> True" if "length rest = mtu" for rest
    using that h(2) y(2) len by (simp add: g_def)
  obtain frame where "link_frame tx i hw (max_transmission_unit (if_caps i)) g = Some frame"
    by (rule link_frame_ok [where tx = tx and i = i and n = mtu and f = g and hw = hw and Q = "\<lambda>_. True", OF tx i(1) dc_ip_mtu_len [OF i(2)] g])
  moreover have "usize_sub mtu 20 = Some (mtu - 20)" using i(3) by (simp add: IPV4_MIN_MTU_def)
  ultimately show ?thesis
    unfolding start_fragmentation_def Let_def hl using y(1) h(1) by (simp add: g_def [symmetric])
qed

lemma iface_ok_id: "iface_ok ok pf (i\<lparr>if_ipv4_id := n\<rparr>) = iface_ok ok pf i"
  by (cases "dc_medium (if_caps i)") (simp_all add: iface_ok_def link_ok_def)

lemma dispatch_ip_v4_ok:
  assumes tx: "\<And>n. length (tx n) = n" and i: "iface_ok ok pf i" and ans: "answer_ok i p"
  shows "\<exists>res frames i' f'. dispatch_ip_v4 (pf_map pf) tx p i f = Some (res, frames, i', f') \<and> iface_ok ok pf i' \<and> if_caps i' = if_caps i"
proof -
  let ?h = "p4_header p"
  define j where "j = i\<lparr>if_ipv4_id := if_ipv4_id i + 1\<rparr>"
  have hl: "ipv4_buffer_len x = 20" for x by (simp add: ipv4_buffer_len_def IPV4_HEADER_LEN_def)
  have j: "iface_ok ok pf j" "answer_ok j p" "if_caps j = if_caps i" "if_ip_addrs j = if_ip_addrs i" using i ans by (simp_all add: j_def iface_ok_id answer_ok_def)
  have dst: "is_unicast_v4 (if_ip_addrs j) (ih_dst_addr ?h)" using j(2) by (simp add: answer_ok_def)
  then have u: "\<not> addr_is_unspecified (Ipv4 (ih_dst_addr ?h))" by (simp add: is_unicast_v4_def)
  define look where "look = (case dc_medium (if_caps j) of
      MediumEthernet \<Rightarrow> lookup_hardware_addr_v4 (pf_map pf) tx (ih_dst_addr ?h) j | MediumIp \<Rightarrow> Some (Inr 0, [], j))"
  have c0: "cache_ok ok (pf_map pf) (if_neighbor_cache j)" using j(1) by (simp add: iface_ok_def)
  have "\<exists>hw frames c. look = Some (hw, frames, j\<lparr>if_neighbor_cache := c\<rparr>) \<and> cache_ok ok (pf_map pf) c"
  proof (cases "dc_medium (if_caps j)")
    case MediumEthernet
    then show ?thesis using lookup_hardware_addr_v4_ok [OF tx j(1) _ dst] by (simp add: look_def)
  next
    case MediumIp
    then show ?thesis using c0 by (intro exI [of _ "Inr 0"] exI [of _ "[]"] exI [of _ "if_neighbor_cache j"]) (simp add: look_def)
  qed
  then obtain hw frames c where look: "look = Some (hw, frames, j\<lparr>if_neighbor_cache := c\<rparr>)" "cache_ok ok (pf_map pf) c" by blast
  define k where "k = j\<lparr>if_neighbor_cache := c\<rparr>"
  have k: "iface_ok ok pf k" "answer_ok k p" "if_caps k = if_caps i" using iface_ok_cache [OF j(1) look(2)] j by (simp_all add: k_def answer_ok_def)
  obtain mtu where mtu: "dc_ip_mtu (if_caps k) = Some mtu" "IPV4_MIN_MTU \<le> mtu" and lk: "link_ok k" using k(1) by (auto simp: iface_ok_def)
  define d where "d = (case hw of
       Inl e \<Rightarrow> Some (Inl e, frames, k, f)
     | Inr dst_hw \<Rightarrow>
         if mtu < 20 + ih_payload_len ?h then
           if length (fr_buffer f) < 20 + ih_payload_len ?h then Some (Inr (), frames, k, f)
           else do { (frame, f) \<leftarrow> start_fragmentation tx k (if_ipv4_id i) dst_hw p mtu f; Some (Inr (), frames @ [frame], k, f) }
         else do {
           frame \<leftarrow> link_frame tx k dst_hw (20 + ih_payload_len ?h + link_header_len k) (emit_ip_v4 (if_caps k) ?h (p4_payload p));
           Some (Inr (), frames @ [frame], k, f) })"
  have "dispatch_ip_v4 (pf_map pf) tx p i f = d"
    unfolding dispatch_ip_v4_def next_ipv4_frag_ident_def prod.case Let_def j_def [symmetric] look_def [symmetric] look(1) bind.simps k_def [symmetric] hl
    using u mtu(1) by (cases hw; cases "dc_medium (if_caps k)")
      (simp_all add: d_def eth_buffer_len_def ETH_HEADER_LEN_def link_header_len_def add.commute del: addr_is_unspecified.simps)
  moreover have "\<exists>res frames f'. d = Some (res, frames, k, f')"
  proof (cases hw)
    case (Inr dst_hw)
    have frag: "start_fragmentation tx k (if_ipv4_id i) dst_hw p mtu f \<noteq> None"
      if "mtu < 20 + ih_payload_len ?h" "\<not> length (fr_buffer f) < 20 + ih_payload_len ?h"
      using that by (intro start_fragmentation_total [OF tx lk mtu k(2)]) simp_all
    have pay: "\<exists>bs. emit_payload (if_caps k) ?h (p4_payload p) b = Some bs \<and> length bs = length b" if "length b = ih_payload_len ?h" for b
      by (rule emit_payload_ok [OF k(2) mtu]) (use that in simp)
    have e: "\<exists>q. emit_ip_v4 (if_caps k) ?h (p4_payload p) rest = Some q \<and> length q = 20 + ih_payload_len ?h \<and> True"
      if "length rest = 20 + ih_payload_len ?h" for rest
      by (rule emit_ip_v4_ok [of rest "if_caps k" ?h "p4_payload p"]) (use that pay in auto)
    obtain frame where frame: "link_frame tx k dst_hw (20 + ih_payload_len ?h + link_header_len k) (emit_ip_v4 (if_caps k) ?h (p4_payload p)) = Some frame"
      by (rule link_frame_ok [where tx = tx and i = k and n = "20 + ih_payload_len ?h" and Q = "\<lambda>_. True" and hw = dst_hw, OF tx lk refl e])
    show ?thesis using Inr frag frame by (auto simp: d_def)
  qed (simp add: d_def)
  ultimately show ?thesis using k by auto
qed

lemma dispatch_packet_ok:
  assumes tx: "\<And>n. length (tx n) = n" and t: "interface_ok ok pf t" and p: "packet_ok (in_inner t) p"
  shows "\<exists>frames t'. dispatch_packet pf tx p t = Some (frames, t') \<and> interface_ok ok pf t' \<and> if_caps (in_inner t') = if_caps (in_inner t)"
proof (cases p)
  case (EthArp r)
  have i: "iface_ok ok pf (in_inner t)" using t by (simp add: interface_ok_def)
  obtain a where a: "ethernet_or_panic (if_hardware_addr (in_inner t)) = Some a" using link_ok_ethernet [OF i] p EthArp by auto
  show ?thesis using EthArp t dispatch_ethernet_arp [OF tx a, of r "arp_target_hw r"] by (auto simp: dispatch_packet_def dispatch_arp_def)
next
  case (EthIp q)
  then obtain res frames i' f' where "dispatch_ip_v4 (pf_map pf) tx q (in_inner t) (in_fragmenter t) = Some (res, frames, i', f')"
    "iface_ok ok pf i'" "if_caps i' = if_caps (in_inner t)"
    using dispatch_ip_v4_ok [OF tx] t p by (metis interface_ok_def packet_ok.simps(2))
  then show ?thesis using EthIp t by (simp add: dispatch_packet_def interface_ok_def)
qed


lemma socket_ingress_ok:
  assumes laws: "lm_laws n ok (pf_map pf)" "0 < n" and tx: "\<And>n. length (tx n) = n" and t: "interface_ok ok pf t" and slots: "slots_ok slots"
    and src: "\<And>m frame. input = Some (m, frame) \<Longrightarrow> \<not> tcp_from_nowhere (dc_checksum (if_caps (in_inner t))) (ip_part (in_inner t) frame)"
  obtains res frames slots' t' where "socket_ingress pf tx input slots t = Some (res, frames, slots', t')" "slots_ok slots'" "interface_ok ok pf t'"
    "if_caps (in_inner t') = if_caps (in_inner t)"
proof (cases "\<exists>m frame. input = Some (m, frame) \<and> frame \<noteq> []")
  case False
  then have "\<exists>res. socket_ingress pf tx input slots t = Some (res, [], slots, t)"
    by (cases input) (auto simp: socket_ingress_def)
  then show thesis using slots t that by blast
next
  case True
  then obtain m frame where f: "input = Some (m, frame)" "frame \<noteq> []" by blast
  define proc where "proc = (case dc_medium (if_caps (in_inner t)) of
      MediumEthernet \<Rightarrow> process_ethernet pf m frame slots t
    | MediumIp \<Rightarrow> do { (rep, slots, t) \<leftarrow> process_ip pf m frame slots t; Some (map_option EthIp rep, slots, t) })"
  have "\<exists>out. proc = Some out \<and> outcome_ok packet_ok ok pf (if_caps (in_inner t)) out"
  proof (cases "dc_medium (if_caps (in_inner t))")
    case MediumEthernet
    then show ?thesis using process_ethernet_ok [OF laws t slots, of frame m] src [OF f(1)] by (simp add: proc_def ip_part_def link_header_len_def)
  next
    case MediumIp
    then have "\<not> tcp_from_nowhere (dc_checksum (if_caps (in_inner t))) frame" using src [OF f(1)] by (simp add: ip_part_def link_header_len_def)
    then obtain rep slots' t' where "process_ip pf m frame slots t = Some (rep, slots', t')" "outcome_ok answer_ok ok pf (if_caps (in_inner t)) (rep, slots', t')"
      using process_ip_ok [OF laws(1) t slots f(2), of m] by (metis prod_cases3)
    then show ?thesis using MediumIp by (auto simp: proc_def)
  qed
  then obtain rep slots1 t1 where p: "proc = Some (rep, slots1, t1)" "outcome_ok packet_ok ok pf (if_caps (in_inner t)) (rep, slots1, t1)" by (metis prod_cases3)
  have s: "socket_ingress pf tx input slots t =
      Option.bind (case rep of None \<Rightarrow> Some ([], t1) | Some p \<Rightarrow> dispatch_packet pf tx p t1) (\<lambda>(frames, t). Some (IngressStateChanged, frames, slots1, t))"
    unfolding socket_ingress_def f(1) using f(2) p(1) by (simp add: proc_def [symmetric])
  show thesis
  proof (cases rep)
    case None
    then show thesis using s p(2) by (intro that [of IngressStateChanged "[]" slots1 t1]) simp_all
  next
    case (Some q)
    then obtain frames t2 where "dispatch_packet pf tx q t1 = Some (frames, t2)" "interface_ok ok pf t2" "if_caps (in_inner t2) = if_caps (in_inner t1)"
      using dispatch_packet_ok [OF tx] p(2) by (metis outcome_ok.simps)
    then show thesis using s Some p(2) by (intro that [of IngressStateChanged frames slots1 t2]) simp_all
  qed
qed


section \<open>Any sequence of frames\<close>

lemma interface_ok_platform [simp]: "interface_ok ok (pf\<lparr>pf_rand := rnd, pf_tsval := ts\<rparr>) t = interface_ok ok pf t"
  by (simp add: interface_ok_def iface_ok_def)



text \<open>An interface on Ethernet with the address 10.0.0.1/24, and two frames: three octets, and an ARP request of 10.0.0.2.\<close>

definition demo_interface :: "(ip_address \<times> neighbor) list interface" where
  "demo_interface = \<lparr>in_inner = \<lparr>if_caps = \<lparr>dc_medium = MediumEthernet, max_transmission_unit = 1514, max_burst_size = None, dc_checksum = caps_default\<rparr>,
       if_now = instant_zero, if_neighbor_cache = \<lparr>nc_storage = [], silent_until = instant_zero\<rparr>, if_hardware_addr = HwEthernet 0x020000000001,
       if_ipv4_id = 1, if_ip_addrs = [Cidr4 \<lparr>v4_address = 0x0a000001, v4_prefix_len = 24\<rparr>], if_any_ip = False, if_routes = []\<rparr>,
     in_assembler = pas_new 1 False 64 4, in_reassembly_timeout = duration_from_secs 60, in_fragmenter = fragmenter_new 64\<rparr>"

definition demo_platform :: "(ip_address \<times> neighbor) list platform" where
  "demo_platform = \<lparr>pf_map = alist_map 8, pf_alloc = False, pf_rand = 0, pf_tsval = 0\<rparr>"

definition demo_arp_request :: "u8 list" where
  "demo_arp_request = [0xff, 0xff, 0xff, 0xff, 0xff, 0xff, 2, 0, 0, 0, 0, 2, 8, 6] @
     [0, 1, 8, 0, 6, 4, 0, 1, 2, 0, 0, 0, 0, 2, 10, 0, 0, 2, 0, 0, 0, 0, 0, 0, 10, 0, 0, 1]"

lemma demo_interface_ok: "interface_ok (\<lambda>m. distinct (map fst m) \<and> length m \<le> 8) demo_platform demo_interface"
proof -
  have "pas_inv (in_assembler demo_interface)" unfolding demo_interface_def interface.simps by (rule pas_new_ok) simp
  moreover have "sizes_ok (in_assembler demo_interface)" by (simp add: demo_interface_def sizes_ok_def pas_new_def pa_new_def)
  ultimately show ?thesis
    by (simp add: interface_ok_def iface_ok_def demo_interface_def demo_platform_def link_ok_def dc_ip_mtu_def ETH_HEADER_LEN_def IPV4_MIN_MTU_def
        routes_ok_def cache_ok_def alist_map_def)
qed


end
