(* ===== verification/Ingress_Props.thy ===== *)
theory Ingress_Props
  imports Ingress_Safety
begin

text \<open>What the interface does with particular packets: it answers echo requests, and hands datagrams to the first socket for them.\<close>

section \<open>Packets that can be parsed again\<close>

lemma emit_ip_v4_parse:
  assumes len: "length buf = 20 + ih_payload_len r" and fits: "ipv4_fits r"
    and caps: "checksum_rx (caps_ipv4 (dc_checksum caps)) \<longrightarrow> checksum_tx (caps_ipv4 (dc_checksum caps))"
    and pay: "\<And>b. length b = ih_payload_len r \<Longrightarrow> \<exists>y. emit_payload caps r pl b = Some y \<and> length y = length b \<and> P y"
  shows "\<exists>x y. emit_ip_v4 caps r pl buf = Some x \<and> length x = 20 + ih_payload_len r \<and> ipv4_parse True (dc_checksum caps) x = Some (Inr r) \<and>
    ipv4_payload x = Some y \<and> P y"
proof -
  have hl: "ipv4_buffer_len x = 20" for x by (simp add: ipv4_buffer_len_def IPV4_HEADER_LEN_def)
  have l: "20 \<le> length buf" using len by simp
  obtain ck :: u16 where ck: "ipv4_emit r (dc_checksum caps) buf = Some (overwrite (ipv4_octets r buf) 10 (be_bytes 2 ck))"
    "checksum_tx (caps_ipv4 (dc_checksum caps)) \<Longrightarrow> checksum_data (take 20 (overwrite (ipv4_octets r buf) 10 (be_bytes 2 ck))) = 0xffff"
    using ipv4_emit_ok [OF l, of r "dc_checksum caps"] by metis
  define h where "h = overwrite (ipv4_octets r buf) 10 (be_bytes 2 ck)"
  have lh: "length h = length buf" using ipv4_octets_fields(1) [OF l, of r] l by (simp add: h_def)
  obtain y where y: "emit_payload caps r pl (drop 20 h) = Some y" "length y = ih_payload_len r" "P y" using pay [of "drop 20 h"] lh len by auto
  define x where "x = overwrite h 20 y"
  have x: "length x = 20 + ih_payload_len r" "take 20 x = take 20 h" "drop 20 x = y" using lh len y(2) by (simp_all add: x_def overwrite_def)
  have emit: "emit_ip_v4 caps r pl buf = Some x" using ck(1) lh len y(1) by (simp add: emit_ip_v4_def hl h_def [symmetric] x_def)
  have hok: "header_ok r x" unfolding x_def h_def
    using l y(2) len ipv4_octets_fields(1) [OF l, of r]
    by (intro header_ok_overwrite [OF header_ok_overwrite [OF header_ok_octets [OF l]]]) simp_all
  have f6: "get_u16 x 6 = Some 0x4000" using l y(2) len ipv4_octets_fields(1) [OF l, of r]
    by (simp add: x_def h_def ipv4_octets_def wire_simps)
  have tl: "unat (20 + of_nat (ih_payload_len r) :: u16) = 20 + ih_payload_len r"
    using unat_of_nat_u16 [of "20 + ih_payload_len r"] fits by (simp add: ipv4_fits_def)
  have f: "ipv4_version x = Some 4" "ipv4_get_header_len x = Some 20" "ipv4_total_len x = Some (20 + of_nat (ih_payload_len r))"
    "ipv4_hop_limit x = Some (ih_hop_limit r)" "ipv4_next_header x = Some (ih_next_header r)"
    "ipv4_src_addr x = Some (ih_src_addr r)" "ipv4_dst_addr x = Some (ih_dst_addr r)"
    using hok fits by (simp_all add: header_ok_def ipv4_fits_def)
  have mf: "ipv4_more_frags x = Some False" "ipv4_frag_offset x = Some 0" using f6 by (simp_all add: ipv4_more_frags_def ipv4_frag_offset_def)
  have c: "ipv4_check_len x = Some (Inr ())"
    using f(2,3) tl x(1) by (simp add: ipv4_check_len_def IPV4_HEADER_LEN_def word_less_nat_alt)
  have v: "checksum_rx (caps_ipv4 (dc_checksum caps)) \<Longrightarrow> ipv4_verify_checksum x = Some True"
    using caps ck(2) f(2) x(1,2) by (simp add: ipv4_verify_checksum_def h_def)
  have "ipv4_parse True (dc_checksum caps) x = Some (Inr r)" using c v f mf tl by (simp add: ipv4_parse_def)
  moreover have "ipv4_payload x = Some y" using f(2,3) tl x(1,3) y(2) by (simp add: ipv4_payload_def)
  ultimately show ?thesis using emit x(1) y(3) by blast
qed


section \<open>Echo requests\<close>

text \<open>A whole packet for the interface that holds an ICMP message.\<close>

definition icmp_for_us :: "'m interface \<Rightarrow> u8 list \<Rightarrow> ipv4_address ip_header \<Rightarrow> icmpv4_repr \<Rightarrow> bool" where
  "icmp_for_us t d ip r \<longleftrightarrow>
     (let i = in_inner t; caps = dc_checksum (if_caps i) in
      ipv4_parse True caps d = Some (Inr ip) \<and> ih_next_header ip = ProtoIcmp \<and> ipv4_more_frags d = Some False \<and> ipv4_frag_offset d = Some 0 \<and>
      (\<exists>x. ipv4_payload d = Some x \<and> icmpv4_parse caps x = Some (Inr r)) \<and> has_ip_addr (if_ip_addrs i) (Ipv4 (ih_dst_addr ip)) \<and>
      is_unicast_v4 (if_ip_addrs i) (ih_src_addr ip) \<and> is_unicast_v4 (if_ip_addrs i) (ih_dst_addr ip))"

lemma process_ipv4_echo:
  assumes us: "icmp_for_us t d ip (EchoRequest ident seq_no data)" and slots: "slots_ok slots"
  shows "\<exists>slots' i'. process_ipv4 pf m hw d slots t =
    Some (Some (icmpv4_packet (ih_dst_addr ip) (ih_src_addr ip) (EchoReply ident seq_no data)), slots', t\<lparr>in_inner := i'\<rparr>) \<and>
    (\<exists>c. i' = (in_inner t)\<lparr>if_neighbor_cache := c\<rparr>)"
proof -
  define i where "i = in_inner t"
  let ?caps = "dc_checksum (if_caps i)"
  obtain x where p: "ipv4_parse True ?caps d = Some (Inr ip)" "ih_next_header ip = ProtoIcmp" "ipv4_more_frags d = Some False" "ipv4_frag_offset d = Some 0"
    "ipv4_payload d = Some x" "icmpv4_parse ?caps x = Some (Inr (EchoRequest ident seq_no data))" "has_ip_addr (if_ip_addrs i) (Ipv4 (ih_dst_addr ip))"
    "is_unicast_v4 (if_ip_addrs i) (ih_src_addr ip)" "is_unicast_v4 (if_ip_addrs i) (ih_dst_addr ip)"
    using us by (auto simp: icmp_for_us_def Let_def i_def)
  obtain b slots1 where raw: "raw_socket_filter ?caps (Ipv4Repr ip) x slots = Some (b, slots1)" "slots_ok slots1"
    using raw_socket_filter_ok [OF slots] .
  define i' where "i' = i\<lparr>if_neighbor_cache := reset_expiry_if_existing (pf_map pf) (Ipv4 (ih_src_addr ip)) hw (if_now i) (if_neighbor_cache i)\<rparr>"
  obtain b' slots2 where icmp: "with_sockets SockIcmp downcast_icmp (icmp_filter ?caps ip (EchoRequest ident seq_no data)) slots1 = Some (b', slots2)"
    using icmp_sockets_ok [OF raw(2)] .
  have n: "icmpv4_new_checked x = Inr x"
    using p(6) by (auto simp: icmpv4_new_checked_def icmpv4_parse_def icmpv4_check_len_def split: sum.splits if_splits)
  have "process_icmpv4 i' ip x slots1 = Some (Some (icmpv4_packet (ih_dst_addr ip) (ih_src_addr ip) (EchoReply ident seq_no data)), slots2)"
    using p(6,8,9) n icmp by (simp add: process_icmpv4_def i'_def icmpv4_reply_def Let_def)
  moreover have "ipv4_reassemble (pf_alloc pf) (instant_add (if_now i) (in_reassembly_timeout t)) d (in_assembler t) = Some (Some x, in_assembler t)"
    using p(3-5) by (simp add: ipv4_reassemble_def)
  ultimately have "process_ipv4 pf m hw d slots t =
      Some (Some (icmpv4_packet (ih_dst_addr ip) (ih_src_addr ip) (EchoReply ident seq_no data)), slots2, t\<lparr>in_inner := i'\<rparr>)"
    using p raw(1)
    by (simp add: process_ipv4_def Let_def i_def [symmetric] ipv4_src_admitted_def ipv4_dst_admitted_def process_protocol_def i'_def [symmetric])
  then show ?thesis by (auto simp: i'_def i_def)
qed

text \<open>A packet that fits is sent in one frame on an IP medium, and can be parsed.\<close>

lemma dispatch_ip_v4_sent:
  assumes tx: "\<And>n. length (tx n) = n" and med: "dc_medium (if_caps i) = MediumIp" and mtu: "20 + ih_payload_len (p4_header p) \<le> max_transmission_unit (if_caps i)"
    and dst: "\<not> addr_is_unspecified (Ipv4 (ih_dst_addr (p4_header p)))" and fits: "ipv4_fits (p4_header p)"
    and caps: "checksum_rx (caps_ipv4 (dc_checksum (if_caps i))) \<longrightarrow> checksum_tx (caps_ipv4 (dc_checksum (if_caps i)))"
    and pay: "\<And>b. length b = ih_payload_len (p4_header p) \<Longrightarrow> \<exists>y. emit_payload (if_caps i) (p4_header p) (p4_payload p) b = Some y \<and> length y = length b \<and> P y"
  shows "\<exists>frame y i'. dispatch_ip_v4 ops tx p i f = Some (Inr (), [frame], i', f) \<and>
    ipv4_parse True (dc_checksum (if_caps i)) frame = Some (Inr (p4_header p)) \<and> ipv4_payload frame = Some y \<and> P y"
proof -
  let ?n = "20 + ih_payload_len (p4_header p)"
  have hl: "ipv4_buffer_len x = 20" for x by (simp add: ipv4_buffer_len_def IPV4_HEADER_LEN_def)
  obtain x y where x: "emit_ip_v4 (if_caps i) (p4_header p) (p4_payload p) (tx ?n) = Some x"
    "ipv4_parse True (dc_checksum (if_caps i)) x = Some (Inr (p4_header p))" "ipv4_payload x = Some y" "P y"
    using emit_ip_v4_parse [OF _ fits caps pay, where buf = "tx ?n"] tx by blast
  have "dispatch_ip_v4 ops tx p i f = Some (Inr (), [x], i\<lparr>if_ipv4_id := if_ipv4_id i + 1\<rparr>, f)"
    using med mtu dst x(1)
    by (simp add: dispatch_ip_v4_def next_ipv4_frag_ident_def Let_def hl dc_ip_mtu_def link_frame_def del: addr_is_unspecified.simps)
  then show ?thesis using x(2-4) by blast
qed



definition demo_ping :: "u8 list" where
  "demo_ping = [69, 0, 0, 30, 0, 1, 0, 0, 64, 1, 102, 220, 10, 0, 0, 2, 10, 0, 0, 1] @ [8, 0, 76, 42, 0, 7, 0, 1, 171, 205]"

definition demo_interface_ip :: "(ip_address \<times> neighbor) list interface" where
  "demo_interface_ip = demo_interface\<lparr>in_inner := (in_inner demo_interface)\<lparr>if_caps := \<lparr>dc_medium = MediumIp, max_transmission_unit = 1500,
     max_burst_size = None, dc_checksum = caps_default\<rparr>\<rparr>\<rparr>"



section \<open>Datagrams\<close>

lemma udp_deliver_first:
  "udp_deliver addrs m ip r x ss =
     (case find_index (udp_accepts addrs ip r) ss of
        None \<Rightarrow> Some (False, ss)
      | Some k \<Rightarrow> map_option (\<lambda>s. (True, ss[k := s])) (udp_process addrs m ip r x (ss ! k)))"
proof (induction ss)
  case (Cons s ss)
  show ?case
  proof (cases "udp_accepts addrs ip r s")
    case True
    then show ?thesis by (cases "udp_process addrs m ip r x s") simp_all
  next
    case False
    then show ?thesis using Cons
      by (cases "find_index (udp_accepts addrs ip r) ss"; cases "udp_process addrs m ip r x (ss ! the (find_index (udp_accepts addrs ip r) ss))") simp_all
  qed
qed simp

text \<open>The sockets of the other kinds.\<close>

definition others_kept :: "slots \<Rightarrow> slots \<Rightarrow> bool" where
  "others_kept slots slots' \<longleftrightarrow> select_sockets downcast_raw slots' = select_sockets downcast_raw slots \<and>
     select_sockets downcast_icmp slots' = select_sockets downcast_icmp slots \<and> select_sockets downcast_tcp slots' = select_sockets downcast_tcp slots"

text \<open>
  C11: a UDP datagram reaches one socket. The first UDP socket in the set that accepts a well-formed datagram, and no other socket,
  gets it: the datagram is appended to what that socket has received, with the addresses it came with, or it is dropped when
  there is no room; and nothing is answered. When no socket accepts it, no socket changes, and the sender gets a \<open>port unreachable\<close> message
  with the head of the datagram, unless a raw socket has taken the packet or the addresses forbid an answer.
\<close>

theorem udp_input_routed:
  assumes "slots_ok slots" and "udp_parse (Ipv4 (ih_src_addr ip)) (Ipv4 (ih_dst_addr ip)) (dc_checksum (if_caps i)) data = Some (Inr r)"
    and "udp_payload data = Some x"
  shows "\<exists>rep slots'. process_udp i m raw ip data slots = Some (rep, slots') \<and> others_kept slots slots' \<and>
    (let ss = select_sockets downcast_udp slots; ss' = select_sockets downcast_udp slots' in
     case find_index (udp_accepts (if_ip_addrs i) (Ipv4Repr ip) r) ss of
       Some k \<Rightarrow> rep = None \<and> (\<exists>s'. ss' = ss[k := s'] \<and> udp_endpoint s' = udp_endpoint (ss ! k) \<and> queued s' = queued (ss ! k) \<and>
         received s' \<in> {received (ss ! k), received (ss ! k) @ [(udp_origin m (Ipv4Repr ip) r, x)]} \<and>
         (pb_is_empty (udp_rx (ss ! k)) \<and> 0 < packet_recv_capacity (ss ! k) \<and> length x \<le> payload_recv_capacity (ss ! k) \<longrightarrow> received s' \<noteq> received (ss ! k)))
     | None \<Rightarrow> slots' = slots \<and> rep = (if raw then None else icmpv4_reply i ip (DstUnreachable PortUnreachable ip (take 528 data))))"
proof -
  let ?acc = "udp_accepts (if_ip_addrs i) (Ipv4Repr ip) r" and ?ss = "select_sockets downcast_udp slots"
  have c: "udp_new_checked data = Some (Inr data)"
    using assms(2) udp_check_len_total [of data] by (auto simp: udp_parse_def udp_new_checked_def split: sum.splits)
  have "usize_sub 576 40 = Some 536" "usize_sub 536 8 = Some 528" by simp_all
  then have n: "icmp_reply_payload_len (length data) IPV4_MIN_MTU (ipv4_buffer_len ip) = Some (min (length data) 528)"
    by (simp add: icmp_reply_payload_len_def IPV4_MIN_MTU_def ipv4_buffer_len_def IPV4_HEADER_LEN_def)
  have "take (min (length data) 528) data = take 528 data" by (simp add: min_def)
  then have u: "unreachable_reply i PortUnreachable ip data = Some (icmpv4_reply i ip (DstUnreachable PortUnreachable ip (take 528 data)))"
    unfolding unreachable_reply_def n by simp
  show ?thesis
  proof (cases "find_index ?acc ?ss")
    case None
    then have "with_sockets SockUdp downcast_udp (udp_deliver (if_ip_addrs i) m (Ipv4Repr ip) r x) slots = Some (False, slots)"
      by (simp add: with_sockets_def udp_deliver_first udp_kind.put_select)
    then have "process_udp i m raw ip data slots =
        Some (if raw then None else icmpv4_reply i ip (DstUnreachable PortUnreachable ip (take 528 data)), slots)"
      using c assms(2,3) u by (simp add: process_udp_def)
    then show ?thesis using None by (simp add: others_kept_def)
  next
    case (Some k)
    then have k: "k < length ?ss" "?acc (?ss ! k)" using find_index_Some by fast+
    then have "SockUdp (?ss ! k) \<in> slot_sockets slots" using udp_kind.select_in nth_mem by blast
    then have inv: "udp_inv (?ss ! k)" using assms(1) by (auto simp: slots_ok_def)
    obtain stored s' where s': "udp_process (if_ip_addrs i) m (Ipv4Repr ip) r x (?ss ! k) = Some s'" "queued s' = queued (?ss ! k)"
      "received s' = received (?ss ! k) @ (if stored then [(udp_origin m (Ipv4Repr ip) r, x)] else [])" "udp_endpoint s' = udp_endpoint (?ss ! k)"
      "pb_is_empty (udp_rx (?ss ! k)) \<and> 0 < packet_recv_capacity (?ss ! k) \<and> length x \<le> payload_recv_capacity (?ss ! k) \<longrightarrow> stored"
      by (rule udp_process_ok [OF inv k(2), of m x])
    define slots' where "slots' = put_sockets SockUdp downcast_udp (?ss[k := s']) slots"
    have w: "with_sockets SockUdp downcast_udp (udp_deliver (if_ip_addrs i) m (Ipv4Repr ip) r x) slots = Some (True, slots')"
      using Some s'(1) by (simp add: with_sockets_def udp_deliver_first slots'_def)
    have "process_udp i m raw ip data slots = Some (None, slots')" using c assms(2,3) w by (simp add: process_udp_def)
    moreover have "select_sockets downcast_udp slots' = ?ss[k := s']" unfolding slots'_def by (rule udp_kind.select_put) simp
    moreover have "others_kept slots slots'" unfolding slots'_def others_kept_def by (simp add: udp_kind.put_other)
    ultimately show ?thesis using Some s' by (intro exI [of _ None] exI [of _ slots']) (auto simp: Let_def intro!: exI [of _ s'])
  qed
qed


definition demo_udp_slots :: slots where
  "demo_udp_slots = [None, Some (new_item 1 (SockUdp (Udp_Socket.demo_udp\<lparr>udp_endpoint := \<lparr>le_addr = None, le_port = 53\<rparr>\<rparr>)))]"

theorem udp_input_routed_witness:
  "\<exists>rep slots'. process_udp (in_inner demo_interface_ip) packet_meta_default False \<lparr>ih_src_addr = 0x0a000002, ih_dst_addr = 0x0a000001,
      ih_next_header = ProtoUdp, ih_payload_len = 10, ih_hop_limit = 64\<rparr> [16, 0, 0, 53, 0, 10, 0, 0, 7, 8] demo_udp_slots = Some (rep, slots') \<and>
    others_kept demo_udp_slots slots'"
proof -
  let ?ip = "\<lparr>ih_src_addr = 0x0a000002, ih_dst_addr = 0x0a000001, ih_next_header = ProtoUdp, ih_payload_len = 10, ih_hop_limit = 64\<rparr> :: ipv4_address ip_header"
    and ?data = "[16, 0, 0, 53, 0, 10, 0, 0, 7, 8] :: u8 list"
  have "udp_parse (Ipv4 0x0a000002) (Ipv4 0x0a000001) caps_default ?data = Some (Inr \<lparr>udp_repr_src_port = 4096, udp_repr_dst_port = 53\<rparr>)"
    and x: "udp_payload ?data = Some [7, 8]" by code_simp+
  then have p: "udp_parse (Ipv4 (ih_src_addr ?ip)) (Ipv4 (ih_dst_addr ?ip)) (dc_checksum (if_caps (in_inner demo_interface_ip))) ?data =
      Some (Inr \<lparr>udp_repr_src_port = 4096, udp_repr_dst_port = 53\<rparr>)"
    by (simp add: demo_interface_ip_def)
  have s: "slots_ok demo_udp_slots"
    using demo_udp_inv by (simp add: slots_ok_def demo_udp_slots_def new_item_def udp_inv_def)
  show ?thesis using udp_input_routed [OF s p x] by blast
qed

end
