(* ===== verification/Rand.thy ===== *)
theory Rand
  imports Prelude
begin

text \<open>
  \<open>src/smoltcp/src/rand.rs\<close>: the random numbers of an interface, a linear congruential generator with a permuted output, and the loops
  that draw until a number fits. The state of the generator runs through all its values, so the loops end.
\<close>

unbundle bit_operations_syntax

section \<open>The generator\<close>

type_synonym u64 = "64 word"

record rand =
  rand_state :: u64

definition rand_new :: "u64 \<Rightarrow> rand" where "rand_new seed = \<lparr>rand_state = seed\<rparr>"

definition RAND_M :: u64 where "RAND_M = 0xbb2efcec3c39611d"

definition RAND_A :: u64 where "RAND_A = 0x7590ef39"

definition rand_u32 :: "rand \<Rightarrow> u32 \<times> rand" where
  "rand_u32 r = (let s = rand_state r * RAND_M + RAND_A;
                     shift = 29 - unat (drop_bit 61 s)
                 in (ucast (drop_bit shift s), r\<lparr>rand_state := s\<rparr>))"

definition rand_u16 :: "rand \<Rightarrow> u16 \<times> rand" where
  "rand_u16 r = (case rand_u32 r of (n, r) \<Rightarrow> (ucast (n XOR drop_bit 16 n), r))"

text \<open>\<open>loop { let res = self.rand_u16(); if \<dots> { return res; } }\<close>\<close>

partial_function (option) rand_until :: "(u16 \<Rightarrow> bool) \<Rightarrow> rand \<Rightarrow> (u16 \<times> rand) option" where
  "rand_until P r = (case rand_u16 r of (res, r) \<Rightarrow> if P res then Some (res, r) else rand_until P r)"

declare rand_until.simps [code]

definition rand_source_port :: "rand \<Rightarrow> (u16 \<times> rand) option" where
  "rand_source_port = rand_until (\<lambda>res. 1024 < res)"

section \<open>The period\<close>

text \<open>
  The generator over the integers: \<open>x \<mapsto> m x + a\<close> with \<open>m mod 4 = 1\<close> and \<open>a\<close> odd. After \<open>2 ^ k\<close> steps a number has moved by an odd
  multiple of \<open>2 ^ k\<close>; so every residue is reached.
\<close>

primrec lcg :: "int \<Rightarrow> int \<Rightarrow> nat \<Rightarrow> int \<Rightarrow> int" where
  "lcg m a 0 x = x"
| "lcg m a (Suc n) x = m * lcg m a n x + a"

primrec geometric :: "int \<Rightarrow> nat \<Rightarrow> int" where
  "geometric m 0 = 0"
| "geometric m (Suc n) = 1 + m * geometric m n"

lemma lcg_add: "lcg m a (n + k) x = lcg m a n (lcg m a k x)"
  by (induction n) simp_all

lemma geometric_add: "geometric m (n + k) = geometric m n + m ^ n * geometric m k"
  by (induction n) (simp_all add: algebra_simps)

lemma power_geometric: "m ^ n = 1 + (m - 1) * geometric m n"
proof (induction n)
  case (Suc n)
  show ?case by (simp only: power_Suc Suc.IH geometric.simps) (simp add: algebra_simps)
qed simp

lemma lcg_shift: "lcg m a n x = x + geometric m n * ((m - 1) * x + a)"
proof (induction n)
  case (Suc n)
  show ?case by (simp only: lcg.simps Suc.IH geometric.simps) (simp add: algebra_simps)
qed simp

lemma geometric_two_power:
  assumes "4 dvd m - 1" shows "\<exists>q. geometric m (2 ^ k) = 2 ^ k * q \<and> odd q"
proof (induction k)
  case 0
  then show ?case by (intro exI [of _ 1]) simp
next
  case (Suc k)
  then obtain q where q: "geometric m (2 ^ k) = 2 ^ k * q" "odd q" by blast
  have "4 dvd m ^ 2 ^ k - 1" using assms unfolding power_geometric [of m "2 ^ k"] by simp
  then obtain j where "m ^ 2 ^ k - 1 = 4 * j" by (rule dvdE)
  then have "m ^ 2 ^ k = 4 * j + 1" by simp
  moreover have "geometric m (2 ^ Suc k) = 2 ^ k * q + m ^ 2 ^ k * (2 ^ k * q)"
    using geometric_add [of m "2 ^ k" "2 ^ k"] q(1) by (simp add: mult_2)
  ultimately have "geometric m (2 ^ Suc k) = 2 ^ Suc k * (q * (2 * j + 1))" by (simp add: algebra_simps)
  moreover have "odd (q * (2 * j + 1))" using q(2) by simp
  ultimately show ?case by blast
qed

lemma lcg_reaches:
  assumes m: "4 dvd m - 1" and a: "odd a" shows "\<exists>n. 2 ^ k dvd lcg m a n x - t"
proof (induction k)
  case 0
  then show ?case by simp
next
  case (Suc k)
  then obtain n where "2 ^ k dvd lcg m a n x - t" by (rule exE)
  then obtain d where d: "lcg m a n x - t = 2 ^ k * d" by (rule dvdE)
  have hit: ?case if "lcg m a n' x - t = 2 ^ k * d'" "even d'" for n' d'
  proof -
    have "2 ^ Suc k dvd 2 ^ k * d'" using that(2) by (simp add: mult.commute mult_dvd_mono)
    then show ?thesis using that(1) by metis
  qed
  show ?case
  proof (cases "even d")
    case True
    then show ?thesis by (rule hit [OF d])
  next
    case False
    let ?y = "lcg m a n x"
    obtain q where q: "geometric m (2 ^ k) = 2 ^ k * q" "odd q" using geometric_two_power [OF m] by blast
    have "even (m - 1)" by (rule dvd_trans [OF _ m]) simp
    then have "even (q * ((m - 1) * ?y + a) + d)" using q(2) a False by simp
    moreover have "lcg m a (2 ^ k + n) x - t = 2 ^ k * (q * ((m - 1) * ?y + a) + d)"
      unfolding lcg_add lcg_shift [of m a "2 ^ k" ?y] q(1) using d by (simp add: algebra_simps)
    ultimately show ?thesis using hit by blast
  qed
qed

text \<open>The state of the generator after \<open>n\<close> draws.\<close>

primrec rand_after :: "nat \<Rightarrow> rand \<Rightarrow> rand" where
  "rand_after 0 r = r"
| "rand_after (Suc n) r = rand_after n (snd (rand_u16 r))"

lemma rand_u16_state: "rand_state (snd (rand_u16 r)) = rand_state r * RAND_M + RAND_A"
  by (simp add: rand_u16_def rand_u32_def Let_def)

lemma rand_after_Suc: "rand_after (Suc n) r = snd (rand_u16 (rand_after n r))"
  by (induction n arbitrary: r) simp_all

lemma rand_after_lcg: "rand_state (rand_after n r) = of_int (lcg (uint RAND_M) (uint RAND_A) n (uint (rand_state r)))"
proof (induction n)
  case (Suc n)
  then show ?case by (simp only: rand_after_Suc rand_u16_state) (simp add: mult.commute)
qed simp

lemma rand_full_period: "\<exists>n. rand_after n r = \<lparr>rand_state = s\<rparr>"
proof -
  let ?lcg = "lcg (uint RAND_M) (uint RAND_A)"
  have "4 dvd uint RAND_M - 1" "odd (uint RAND_A)" by (simp_all add: RAND_M_def RAND_A_def)
  then obtain n where "2 ^ 64 dvd ?lcg n (uint (rand_state r)) - uint s" using lcg_reaches by blast
  then have "?lcg n (uint (rand_state r)) mod 2 ^ 64 = uint s mod 2 ^ 64" by (rule mod_eq_dvd_iff [THEN iffD2])
  then have "(of_int (?lcg n (uint (rand_state r))) :: u64) = of_int (uint s)" by (simp only: word_of_int_eq_iff take_bit_eq_mod) simp
  then have "rand_state (rand_after n r) = s" by (simp add: rand_after_lcg)
  then show ?thesis by (intro exI [of _ n]) simp
qed

section \<open>The loops end\<close>

lemma rand_until_Some: "P res \<Longrightarrow> rand_u16 (rand_after n r) = (res, r') \<Longrightarrow> \<exists>res r'. rand_until P r = Some (res, r') \<and> P res"
proof (induction n arbitrary: r)
  case 0
  then show ?case by (simp add: rand_until.simps)
next
  case (Suc n)
  obtain x r1 where x: "rand_u16 r = (x, r1)" by fastforce
  show ?case
  proof (cases "P x")
    case True
    then show ?thesis by (simp add: rand_until.simps x)
  next
    case False
    then show ?thesis using Suc x by (simp add: rand_until.simps [of P r])
  qed
qed

text \<open>What is drawn depends on the next state; \<open>res * 2 ^ 29\<close> is a state from which \<open>res\<close> is drawn.\<close>

definition rand_output :: "u64 \<Rightarrow> u16" where
  "rand_output s = (let n = ucast (drop_bit (29 - unat (drop_bit 61 s)) s) :: u32 in ucast (n XOR drop_bit 16 n))"

lemma rand_u16_output: "fst (rand_u16 r) = rand_output (rand_state (snd (rand_u16 r)))"
  by (simp add: rand_u16_def rand_u32_def rand_output_def Let_def)

lemma rand_output_onto: "rand_output (push_bit 29 (ucast res)) = res"
proof -
  have high: "drop_bit 61 (push_bit 29 (ucast res) :: u64) = 0"
    by (rule bit_word_eqI) (auto simp: bit_simps dest: bit_imp_le_length)
  have low: "drop_bit 29 (push_bit 29 (ucast res) :: u64) = ucast res"
    by (rule bit_word_eqI) (auto simp: bit_simps dest: bit_imp_le_length)
  have "ucast (ucast res :: u64) = (ucast res :: u32)" "drop_bit 16 (ucast res :: u32) = 0" "ucast (ucast res :: u32) = res"
    by (rule bit_word_eqI; auto simp: bit_simps dest: bit_imp_le_length)+
  then show ?thesis using high low by (simp add: rand_output_def Let_def)
qed

lemma rand_until_ends:
  assumes "P res" shows "\<exists>res r'. rand_until P r = Some (res, r') \<and> P res"
proof -
  obtain n where "rand_after n (snd (rand_u16 r)) = \<lparr>rand_state = push_bit 29 (ucast res)\<rparr>" using rand_full_period by blast
  then have "snd (rand_u16 (rand_after n r)) = \<lparr>rand_state = push_bit 29 (ucast res)\<rparr>" by (simp flip: rand_after_Suc)
  then have "rand_u16 (rand_after n r) = (res, \<lparr>rand_state = push_bit 29 (ucast res)\<rparr>)"
    using rand_u16_output [of "rand_after n r"] by (simp add: rand_output_onto prod_eq_iff)
  then show ?thesis using rand_until_Some assms by blast
qed

text \<open>
  C30: the loop of \<open>rand_source_port\<close> ends from every state of the generator, with a port above 1024.
\<close>

theorem rand_source_port_ends: "\<exists>port r'. rand_source_port r = Some (port, r') \<and> 1024 < port"
proof -
  have "1024 < (2000 :: u16)" by simp
  then show ?thesis unfolding rand_source_port_def by (rule rand_until_ends)
qed

end
