(* ===== verification/Iface_Poll.thy ===== *)
theory Iface_Poll
  imports Ingress_Safety Rand
begin

text \<open>
  \<open>src/smoltcp/src/iface/interface/mod.rs\<close>: the construction and configuration of an interface, \<open>socket_egress\<close>, \<open>poll\<close> and \<open>poll_at\<close>, in
  the configuration of \<open>Iface_Ipv4\<close>; that a new interface is well-formed, that the times of \<open>poll_at\<close> cover all output, and a case
  in which they ask for more than that.

  The device answers \<open>transmit\<close>: \<open>token k\<close> says whether it has a token when the socket in slot \<open>k\<close> wants to send, which a socket asks at
  most once. In the same way \<open>clock k\<close> is the value of the timestamp clock of TCP for that socket.
\<close>

section \<open>Construction and configuration\<close>

fun hw_medium :: "hardware_address \<Rightarrow> medium option" where
  "hw_medium HwIp = Some MediumIp"
| "hw_medium (HwEthernet _) = Some MediumEthernet"
| "hw_medium (HwIeee802154 _) = None"

text \<open>
  The interface and its random numbers, from \<open>seed\<close> on; \<open>count\<close> slots of \<open>sz\<close> octets, with \<open>segs\<close> segments each, reassemble, and
  the fragmenter has a buffer of \<open>frag_size\<close> octets.
\<close>

definition interface_new ::
  "'m platform \<Rightarrow> hardware_address \<Rightarrow> u64 \<Rightarrow> device_capabilities \<Rightarrow> nat \<Rightarrow> nat \<Rightarrow> nat \<Rightarrow> nat \<Rightarrow> instant \<Rightarrow> ('m interface \<times> rand) option" where
  "interface_new pf hw seed caps count sz segs frag_size now = do {
     panic_unless (hw_medium hw = Some (dc_medium caps));
     (ipv4_id, rand) \<leftarrow> rand_until (\<lambda>ipv4_id. ipv4_id \<noteq> 0) (rand_new seed);
     Some (\<lparr>in_inner = \<lparr>if_caps = caps, if_now = now, if_neighbor_cache = cache_new (pf_map pf), if_hardware_addr = hw, if_ipv4_id = ipv4_id,
              if_ip_addrs = [], if_any_ip = False, if_routes = []\<rparr>,
            in_assembler = pas_new count (pf_alloc pf) sz segs, in_reassembly_timeout = duration_from_secs 60,
            in_fragmenter = fragmenter_new frag_size\<rparr>, rand) }"

definition set_hardware_addr :: "hardware_address \<Rightarrow> 'm interface \<Rightarrow> 'm interface option" where
  "set_hardware_addr addr t = do {
     panic_unless (dc_medium (if_caps (in_inner t)) = MediumEthernet);
     u \<leftarrow> hw_is_unicast addr;
     panic_unless u;
     Some (t\<lparr>in_inner := (in_inner t)\<lparr>if_hardware_addr := addr\<rparr>\<rparr>) }"

definition update_ip_addrs :: "'m platform \<Rightarrow> (ip_cidr list \<Rightarrow> ip_cidr list) \<Rightarrow> 'm interface \<Rightarrow> 'm interface option" where
  "update_ip_addrs pf f t = do {
     let i = (in_inner t)\<lparr>if_ip_addrs := f (if_ip_addrs (in_inner t)),
                          if_neighbor_cache := cache_flush (pf_map pf) (if_neighbor_cache (in_inner t))\<rparr>;
     check_ip_addrs (if_ip_addrs i);
     Some (t\<lparr>in_inner := i\<rparr>) }"

definition set_any_ip :: "bool \<Rightarrow> 'm interface \<Rightarrow> 'm interface" where
  "set_any_ip b t = t\<lparr>in_inner := (in_inner t)\<lparr>if_any_ip := b\<rparr>\<rparr>"

definition set_reassembly_timeout :: "duration \<Rightarrow> 'm interface \<Rightarrow> 'm interface" where
  "set_reassembly_timeout d t = t\<lparr>in_reassembly_timeout := d\<rparr>"

definition set_now :: "instant \<Rightarrow> 'm interface \<Rightarrow> 'm interface" where
  "set_now now t = t\<lparr>in_inner := (in_inner t)\<lparr>if_now := now\<rparr>\<rparr>"

text \<open>A new interface can be polled, and it stays so when it is configured.\<close>

lemma pas_new_sizes: "sizes_ok (pas_new count alloc sz segs)"
  by (simp add: sizes_ok_def pas_new_def pa_new_def)

lemma configured_ok:
  assumes "interface_ok ok pf t"
  shows "interface_ok ok pf (set_now now t)" "interface_ok ok pf (set_any_ip b t)" "interface_ok ok pf (set_reassembly_timeout d t)"
  using assms by (simp_all add: interface_ok_def iface_ok_def link_ok_def set_now_def set_any_ip_def set_reassembly_timeout_def cong: medium.case_cong)

lemma update_ip_addrs_ok:
  assumes laws: "lm_laws n ok (pf_map pf)" and t: "interface_ok ok pf t" and u: "update_ip_addrs pf f t = Some t'"
    and f: "\<forall>c \<in> set (f (if_ip_addrs (in_inner t))). cidr_ok c"
  shows "interface_ok ok pf t'"
proof -
  let ?m = "lm_clear (pf_map pf) (nc_storage (if_neighbor_cache (in_inner t)))"
  have "ok (nc_storage (if_neighbor_cache (in_inner t)))" using t by (simp add: interface_ok_def iface_ok_def cache_ok_def)
  then have "ok ?m" "lm_get (pf_map pf) ?m = Map.empty" using laws unfolding lm_laws_def by blast+
  then have "cache_ok ok (pf_map pf) (cache_flush (pf_map pf) (if_neighbor_cache (in_inner t)))"
    by (simp add: cache_ok_def cache_flush_def)
  then show ?thesis using t u f
    by (auto simp: update_ip_addrs_def interface_ok_def iface_ok_def link_ok_def Let_def split: Option.bind_split_asm cong: medium.case_cong)
qed

section \<open>Output of the sockets\<close>

definition has_neighbor :: "'m platform \<Rightarrow> 'm iface \<Rightarrow> ip_address \<Rightarrow> bool option" where
  "has_neighbor pf i addr = do {
     hop \<leftarrow> iface_route (if_ip_addrs i) (if_routes i) addr (if_now i);
     case hop of
       None \<Rightarrow> Some False
     | Some routed \<Rightarrow>
         (case dc_medium (if_caps i) of
            MediumEthernet \<Rightarrow> map_option answer_found (cache_lookup (pf_map pf) routed (if_now i) (if_neighbor_cache i))
          | MediumIp \<Rightarrow> Some True) }"

text \<open>
  A packet of a socket as a packet of IPv4. With IPv4 only, there are no other packets; a packet of IPv6, which the models of the
  sockets allow, is outside of this model, as a panic is.
\<close>

definition packet_v4_of :: "ip_repr \<Rightarrow> ip_payload \<Rightarrow> packet_v4 option" where
  "packet_v4_of ip pl = (case ip of Ipv4Repr h \<Rightarrow> Some \<lparr>p4_header = h, p4_payload = pl\<rparr> | Ipv6Repr _ \<Rightarrow> None)"

text \<open>What \<open>respond\<close> returns for a packet. A panic of \<open>dispatch_ip\<close> shows when the packet is sent by \<open>egress_send\<close>.\<close>

definition respond ::
  "'m platform \<Rightarrow> (nat \<Rightarrow> u8 list) \<Rightarrow> bool \<Rightarrow> 'm iface \<Rightarrow> fragmenter \<Rightarrow> packet_v4 option \<Rightarrow> egress_error + unit" where
  "respond pf tx token i f p =
     (if \<not> token then Inl EgressExhausted
      else case Option.bind p (\<lambda>p. dispatch_ip_v4 (pf_map pf) tx p i f) of
        Some (Inl _, _) \<Rightarrow> Inl EgressDispatch
      | _ \<Rightarrow> Inr ())"

text \<open>The socket is asked for a packet: the packet, if any, the result of \<open>dispatch\<close>, and the socket.\<close>

definition egress_dispatch ::
  "(packet_v4 option \<Rightarrow> egress_error + unit) \<Rightarrow> 'm platform \<Rightarrow> 'm iface \<Rightarrow> socket \<Rightarrow>
   (packet_v4 option \<times> (egress_error + unit) \<times> socket) option" where
  "egress_dispatch emit pf i s =
     (case s of
        SockRaw s \<Rightarrow> do {
          (p, res, s) \<leftarrow> raw_dispatch (\<lambda>(ip, raw). emit (packet_v4_of ip (PlRaw raw))) (dc_checksum (if_caps i)) s;
          case p of None \<Rightarrow> Some (None, res, SockRaw s)
          | Some (ip, raw) \<Rightarrow> do { p \<leftarrow> packet_v4_of ip (PlRaw raw); Some (Some p, res, SockRaw s) } }
      | SockIcmp s \<Rightarrow> do {
          (p, res, s) \<leftarrow> icmp_dispatch (\<lambda>(ip, r). emit (Some \<lparr>p4_header = ip, p4_payload = PlIcmpv4 r\<rparr>)) (if_ip_addrs i) s;
          case p of None \<Rightarrow> Some (None, res, SockIcmp s)
          | Some (ip, r) \<Rightarrow> Some (Some \<lparr>p4_header = ip, p4_payload = PlIcmpv4 r\<rparr>, res, SockIcmp s) }
      | SockUdp s \<Rightarrow> do {
          (p, res, s) \<leftarrow> udp_dispatch (\<lambda>(_, ip, r, data). emit (packet_v4_of ip (PlUdp r data))) (if_ip_addrs i) s;
          case p of None \<Rightarrow> Some (None, res, SockUdp s)
          | Some (_, ip, r, data) \<Rightarrow> do { p \<leftarrow> packet_v4_of ip (PlUdp r data); Some (Some p, res, SockUdp s) } }
      | SockTcp s \<Rightarrow> do {
          (p, res, s) \<leftarrow> dispatch (\<lambda>(ip, r). emit (packet_v4_of ip (PlTcp r))) (iface_cx pf i) s;
          case p of None \<Rightarrow> Some (None, res, SockTcp s)
          | Some (ip, r) \<Rightarrow> do { p \<leftarrow> packet_v4_of ip (PlTcp r); Some (Some p, res, SockTcp s) } })"

text \<open>The effect of \<open>respond\<close> on the interface: the frames that are sent.\<close>

definition egress_send ::
  "'m platform \<Rightarrow> (nat \<Rightarrow> u8 list) \<Rightarrow> bool \<Rightarrow> packet_v4 option \<Rightarrow> 'm iface \<Rightarrow> fragmenter \<Rightarrow> (u8 list list \<times> 'm iface \<times> fragmenter) option" where
  "egress_send pf tx token p i f =
     (case p of
        None \<Rightarrow> Some ([], i, f)
      | Some p \<Rightarrow>
          if \<not> token then Some ([], i, f)
          else do { (_, frames, i, f) \<leftarrow> dispatch_ip_v4 (pf_map pf) tx p i f; Some (frames, i, f) })"

text \<open>
  The loop of \<open>socket_egress\<close> over the slots, from slot \<open>k\<close> on: whether anything was sent, the frames, the slots, the interface and
  the fragmenter. It stops when the device is exhausted.
\<close>

fun egress_loop ::
  "'m platform \<Rightarrow> (nat \<Rightarrow> u8 list) \<Rightarrow> (nat \<Rightarrow> bool) \<Rightarrow> (nat \<Rightarrow> u32) \<Rightarrow> nat \<Rightarrow> slots \<Rightarrow> 'm iface \<Rightarrow> fragmenter \<Rightarrow>
   (bool \<times> u8 list list \<times> slots \<times> 'm iface \<times> fragmenter) option" where
  "egress_loop pf tx token clock k [] i f = Some (False, [], [], i, f)"
| "egress_loop pf tx token clock k (None # slots) i f = do {
     (changed, frames, slots, i, f) \<leftarrow> egress_loop pf tx token clock (Suc k) slots i f;
     Some (changed, frames, None # slots, i, f) }"
| "egress_loop pf tx token clock k (Some it # slots) i f = do {
     (permitted, m) \<leftarrow> egress_permitted (if_now i) (has_neighbor pf i) (item_meta it);
     let it = it\<lparr>item_meta := m\<rparr>;
     if \<not> permitted then do {
       (changed, frames, slots, i, f) \<leftarrow> egress_loop pf tx token clock (Suc k) slots i f;
       Some (changed, frames, Some it # slots, i, f) }
     else do {
       (p, res, s) \<leftarrow> egress_dispatch (respond pf tx (token k) i f) (pf\<lparr>pf_tsval := clock k\<rparr>) i (item_socket it);
       (frames, i, f) \<leftarrow> egress_send pf tx (token k) p i f;
       let it = it\<lparr>item_socket := s\<rparr>;
       case res of
         Inl EgressExhausted \<Rightarrow> Some (False, frames, Some it # slots, i, f)
       | Inl EgressDispatch \<Rightarrow> do {
           p \<leftarrow> p;
           let it = it\<lparr>item_meta := neighbor_missing (if_now i) (Ipv4 (ih_dst_addr (p4_header p))) (item_meta it)\<rparr>;
           (changed, frames', slots, i, f) \<leftarrow> egress_loop pf tx token clock (Suc k) slots i f;
           Some (changed, frames @ frames', Some it # slots, i, f) }
       | Inr _ \<Rightarrow> do {
           (changed, frames', slots, i, f) \<leftarrow> egress_loop pf tx token clock (Suc k) slots i f;
           Some (p \<noteq> None \<or> changed, frames @ frames', Some it # slots, i, f) } } }"

definition socket_egress ::
  "'m platform \<Rightarrow> (nat \<Rightarrow> u8 list) \<Rightarrow> (nat \<Rightarrow> bool) \<Rightarrow> (nat \<Rightarrow> u32) \<Rightarrow> slots \<Rightarrow> 'm interface \<Rightarrow>
   (bool \<times> u8 list list \<times> slots \<times> 'm interface) option" where
  "socket_egress pf tx token clock slots t = do {
     (changed, frames, slots, i, f) \<leftarrow> egress_loop pf tx token clock 0 slots (in_inner t) (in_fragmenter t);
     Some (changed, frames, slots, t\<lparr>in_inner := i, in_fragmenter := f\<rparr>) }"

section \<open>Polling\<close>

text \<open>\<open>frag_token\<close>: whether the device has a token for a fragment.\<close>

definition poll_egress ::
  "'m platform \<Rightarrow> (nat \<Rightarrow> u8 list) \<Rightarrow> bool \<Rightarrow> (nat \<Rightarrow> bool) \<Rightarrow> (nat \<Rightarrow> u32) \<Rightarrow> instant \<Rightarrow> slots \<Rightarrow> 'm interface \<Rightarrow>
   (bool \<times> u8 list list \<times> slots \<times> 'm interface) option" where
  "poll_egress pf tx frag_token token clock now slots t = do {
     let t = set_now now t;
     (frames, f) \<leftarrow> ipv4_egress frag_token tx (in_inner t) (in_fragmenter t);
     (changed, frames', slots, t) \<leftarrow> socket_egress pf tx token clock slots (t\<lparr>in_fragmenter := f\<rparr>);
     Some (changed, frames @ frames', slots, t) }"

definition poll ::
  "'m platform \<Rightarrow> (nat \<Rightarrow> u8 list) \<Rightarrow> (u32 \<times> u32 \<times> packet_meta \<times> u8 list) list \<Rightarrow> bool \<Rightarrow> (nat \<Rightarrow> bool) \<Rightarrow> (nat \<Rightarrow> u32) \<Rightarrow> instant \<Rightarrow> slots \<Rightarrow> 'm interface \<Rightarrow>
   (bool \<times> u8 list list \<times> slots \<times> 'm interface) option" where
  "poll pf tx inputs frag_token token clock now slots t = do {
     let t = set_now now t;
     let t = t\<lparr>in_assembler := pas_remove_expired now (in_assembler t)\<rparr>;
     (changed, frames, slots, t) \<leftarrow> ingress_loop pf tx inputs slots t;
     (changed', frames', slots, t) \<leftarrow> poll_egress pf tx frag_token token clock now slots t;
     Some (changed \<or> changed', frames @ frames', slots, t) }"

text \<open>\<open>poll_at\<close>: the smallest wish of a socket. \<open>Instant::from_millis(0)\<close> stands for now.\<close>

definition item_poll_at :: "'m platform \<Rightarrow> 'm iface \<Rightarrow> item \<Rightarrow> instant option option" where
  "item_poll_at pf i it = do {
     wish \<leftarrow> socket_poll_at (iface_cx pf i) (item_socket it);
     wish \<leftarrow> meta_poll_at wish (has_neighbor pf i) (item_meta it);
     Some (case wish of PollIngress \<Rightarrow> None | PollTime t \<Rightarrow> Some t | PollNow \<Rightarrow> Some (instant_from_millis 0)) }"

fun min_wish :: "'m platform \<Rightarrow> 'm iface \<Rightarrow> item list \<Rightarrow> instant option option" where
  "min_wish pf i [] = Some None"
| "min_wish pf i (it # its) = do {
     a \<leftarrow> item_poll_at pf i it;
     b \<leftarrow> min_wish pf i its;
     Some (case (a, b) of (None, b) \<Rightarrow> b | (a, None) \<Rightarrow> a | (Some x, Some y) \<Rightarrow> Some (min x y)) }"

definition iface_poll_at :: "'m platform \<Rightarrow> instant \<Rightarrow> slots \<Rightarrow> 'm interface \<Rightarrow> (instant option \<times> 'm interface) option" where
  "iface_poll_at pf now slots t = do {
     let t = set_now now t;
     if \<not> fr_is_empty (in_fragmenter t) then Some (Some (instant_from_millis 0), t)
     else do {
       wish \<leftarrow> min_wish pf (in_inner t) (ss_items slots);
       Some (wish, t) } }"

definition poll_delay :: "'m platform \<Rightarrow> instant \<Rightarrow> slots \<Rightarrow> 'm interface \<Rightarrow> (duration option \<times> 'm interface) option" where
  "poll_delay pf now slots t = do {
     (wish, t) \<leftarrow> iface_poll_at pf now slots t;
     Some (case wish of
         Some at \<Rightarrow> if now < at then Some (instant_diff at now) else Some (duration_from_millis 0)
       | None \<Rightarrow> None, t) }"

section \<open>A new interface\<close>

text \<open>
  C29: A new interface is well-formed. Whatever the seed, the loop that draws the first identifier ends, \<open>new\<close> does not panic when the
  address fits the medium, the invariant of \<open>interface_ok\<close> holds of the result, the identifier is not 0 and there is nothing to wait for.
\<close>

theorem interface_new_safe:
  assumes laws: "lm_laws n ok (pf_map pf)" and hw: "hw_medium hw = Some (dc_medium caps)"
    and mtu: "dc_ip_mtu caps = Some mtu" "IPV4_MIN_MTU \<le> mtu" and segs: "0 < segs"
  shows "\<exists>t rand. interface_new pf hw seed caps count sz segs frag_size now = Some (t, rand) \<and> interface_ok ok pf t \<and>
    if_ipv4_id (in_inner t) \<noteq> 0 \<and> poll_delay pf now' [] t = Some (None, set_now now' t)"
proof -
  obtain ipv4_id rand where r: "rand_until (\<lambda>ipv4_id. ipv4_id \<noteq> 0) (rand_new seed) = Some (ipv4_id, rand)" "ipv4_id \<noteq> 0"
    using rand_until_ends [of "\<lambda>ipv4_id. ipv4_id \<noteq> 0" 1 "rand_new seed"] by auto
  have "cache_ok ok (pf_map pf) (cache_new (pf_map pf))" using laws by (simp add: cache_ok_def cache_new_def lm_laws_def)
  then show ?thesis using hw mtu r segs pas_new_ok(1) [of segs count "pf_alloc pf" sz]
    by (cases hw) (auto simp: interface_new_def interface_ok_def iface_ok_def link_ok_def routes_ok_def pas_new_sizes
      poll_delay_def iface_poll_at_def set_now_def fragmenter_new_def fr_is_empty_def ss_items_def List.map_filter_def)
qed

theorem interface_new_safe_witness:
  "\<exists>t rand. interface_new demo_platform (HwEthernet 0x020000000001) 7 (if_caps (in_inner demo_interface)) 1 64 4 64 instant_zero = Some (t, rand) \<and>
    interface_ok (\<lambda>m. distinct (map fst m) \<and> length m \<le> 8) demo_platform t \<and>
    if_ipv4_id (in_inner t) \<noteq> 0 \<and> poll_delay demo_platform instant_zero [] t = Some (None, set_now instant_zero t)"
proof (rule interface_new_safe)
  show "lm_laws 8 (\<lambda>m. distinct (map fst m) \<and> length m \<le> 8) (pf_map demo_platform)"
    using alist_map_laws [of 8] by (simp add: demo_platform_def)
  show "hw_medium (HwEthernet 0x020000000001) = Some (dc_medium (if_caps (in_inner demo_interface)))"
    "dc_ip_mtu (if_caps (in_inner demo_interface)) = Some 1500" "IPV4_MIN_MTU \<le> 1500"
    by (simp_all add: demo_interface_def dc_ip_mtu_def ETH_HEADER_LEN_def IPV4_MIN_MTU_def)
qed simp

section \<open>No transmission is missed\<close>

text \<open>
  Output changes an interface only in the identifier of the next packet and in the time until which the neighbor cache is silent:
  the two interfaces treat sockets alike.
\<close>

definition same_view :: "'m iface \<Rightarrow> 'm iface \<Rightarrow> bool" where
  "same_view i j \<longleftrightarrow> if_caps j = if_caps i \<and> if_now j = if_now i \<and> if_ip_addrs j = if_ip_addrs i \<and> if_routes j = if_routes i \<and>
     nc_storage (if_neighbor_cache j) = nc_storage (if_neighbor_cache i)"

lemma same_view_refl [simp]: "same_view i i"
  by (simp add: same_view_def)

lemma same_view_trans: "same_view i j \<Longrightarrow> same_view j k \<Longrightarrow> same_view i k"
  by (simp add: same_view_def)

lemma same_view_has_neighbor: "same_view i j \<Longrightarrow> has_neighbor pf j = has_neighbor pf i"
  by (rule ext) (auto simp: same_view_def has_neighbor_def cache_lookup_def split: Option.bind_split option.split medium.split)

lemma same_view_cx: "same_view i j \<Longrightarrow> iface_cx pf j = iface_cx pf i"
  by (simp add: same_view_def iface_cx_def cong: ip_address.case_cong)

lemma lookup_same_view:
  assumes "lookup_hardware_addr_v4 ops tx dst i = Some (hw, frames, j)" shows "same_view i j"
proof -
  have "j = i \<or> j = i\<lparr>if_neighbor_cache := limit_rate (if_now i) (if_neighbor_cache i)\<rparr>"
    using assms by (auto simp: lookup_hardware_addr_v4_def Let_def
      split: Option.bind_split_asm if_split_asm option.split_asm answer.split_asm hardware_address.split_asm ip_address.split_asm)
  then show ?thesis by (auto simp: same_view_def limit_rate_def)
qed

lemma dispatch_ip_same_view:
  assumes "dispatch_ip_v4 ops tx p i f = Some (res, frames, j, f')" shows "same_view i j"
proof -
  let ?i = "i\<lparr>if_ipv4_id := if_ipv4_id i + 1\<rparr>"
  have v: "same_view i ?i" by (simp add: same_view_def)
  obtain hw fs k where look: "(case dc_medium (if_caps i) of
         MediumEthernet \<Rightarrow> lookup_hardware_addr_v4 ops tx (ih_dst_addr (p4_header p)) ?i
       | MediumIp \<Rightarrow> Some (Inr 0, [], ?i)) = Some (hw, fs, k)" and j: "j = k"
    using assms by (auto simp: dispatch_ip_v4_def next_ipv4_frag_ident_def Let_def split: Option.bind_split_asm sum.split_asm if_split_asm)
  have "same_view ?i k" using look lookup_same_view by (auto split: medium.splits)
  then show ?thesis using v j same_view_trans by blast
qed

lemma egress_send_same_view: "egress_send pf tx token p i f = Some (frames, j, f') \<Longrightarrow> same_view i j"
  using dispatch_ip_same_view by (fastforce simp: egress_send_def bind_eq_Some_conv split: option.splits if_splits)

text \<open>A socket that hands over a packet has wished to be called.\<close>

lemma pb_dequeue_with_empty: "pb_is_empty b \<Longrightarrow> pb_dequeue_with f b = Some (Inl Empty, b)"
  by (simp add: pb_is_empty_def pb_dequeue_with_def dequeue_padding_def)

lemma seq_to_transmit_tsval: "seq_to_transmit (cx\<lparr>cx_tsval := v\<rparr>) s = seq_to_transmit cx s"
  by (simp add: seq_to_transmit_def mtu_payload_def)

lemma tcp_poll_at_tsval: "tcp_poll_at (cx\<lparr>cx_tsval := v\<rparr>) s = tcp_poll_at cx s"
  by (simp add: tcp_poll_at_def seq_to_transmit_tsval)

lemma iface_cx_tsval: "iface_cx (pf\<lparr>pf_tsval := v\<rparr>) i = (iface_cx pf i)\<lparr>cx_tsval := v\<rparr>"
  by (simp add: iface_cx_def)

lemma egress_dispatch_due:
  assumes d: "egress_dispatch emit (pf\<lparr>pf_tsval := v\<rparr>) i s = Some (Some p, res, s')" and w: "socket_poll_at (iface_cx pf i) s = Some w"
  shows "w \<le> PollTime (if_now i)"
proof (cases s)
  case (SockRaw r)
  then have "\<not> pb_is_empty (raw_tx r)" using d by (auto simp: egress_dispatch_def raw_dispatch_def pb_dequeue_with_empty)
  then show ?thesis using w SockRaw by (simp add: socket_poll_at_def raw_poll_at_def)
next
  case (SockIcmp r)
  then have "\<not> pb_is_empty (icmp_tx r)" using d by (auto simp: egress_dispatch_def icmp_dispatch_def pb_dequeue_with_empty)
  then show ?thesis using w SockIcmp by (simp add: socket_poll_at_def icmp_poll_at_def)
next
  case (SockUdp r)
  then have "\<not> pb_is_empty (udp_tx r)" using d by (auto simp: egress_dispatch_def udp_dispatch_def pb_dequeue_with_empty)
  then show ?thesis using w SockUdp by (simp add: socket_poll_at_def udp_poll_at_def)
next
  case (SockTcp r)
  let ?cx = "iface_cx (pf\<lparr>pf_tsval := v\<rparr>) i"
  obtain q res r' where "dispatch (\<lambda>(ip, r). emit (packet_v4_of ip (PlTcp r))) ?cx r = Some (Some q, res, r')"
    using d SockTcp by (auto simp: egress_dispatch_def split: Option.bind_split_asm option.split_asm)
  moreover have "tcp_poll_at ?cx r = Some w" using w SockTcp by (simp add: socket_poll_at_def iface_cx_tsval tcp_poll_at_tsval)
  ultimately have "w \<le> PollTime (cx_now ?cx)" by (rule tcp_poll_at_due)
  then show ?thesis by (simp add: iface_cx_def)
qed

text \<open>The same with the throttle on a socket whose neighbor is missing.\<close>

lemma item_due:
  assumes "egress_permitted (if_now i) (has_neighbor pf i) (item_meta it) = Some (True, m)"
    and "egress_dispatch emit (pf\<lparr>pf_tsval := v\<rparr>) i (item_socket it) = Some (Some p, res, s')"
    and "item_poll_at pf i it = Some wish" and "instant_from_millis 0 \<le> if_now i"
  shows "\<exists>t \<le> if_now i. wish = Some t"
proof -
  obtain w w' where w: "socket_poll_at (iface_cx pf i) (item_socket it) = Some w"
    "meta_poll_at w (has_neighbor pf i) (item_meta it) = Some w'"
    "wish = (case w' of PollIngress \<Rightarrow> None | PollTime t \<Rightarrow> Some t | PollNow \<Rightarrow> Some (instant_from_millis 0))"
    using assms(3) by (auto simp: item_poll_at_def split: Option.bind_split_asm)
  have "w \<le> PollTime (if_now i)" by (rule egress_dispatch_due [OF assms(2) w(1)])
  then have "w' \<le> PollTime (if_now i)" using assms(1) w(2)
    by (auto simp: egress_permitted_def meta_poll_at_def split: neighbor_state.split_asm Option.bind_split_asm if_split_asm)
  then show ?thesis using assms(4) w(3) by (cases w') auto
qed

lemma same_view_item: "same_view i j \<Longrightarrow> item_poll_at pf j it = item_poll_at pf i it"
  by (simp add: item_poll_at_def same_view_cx same_view_has_neighbor)

lemma min_wish_Cons:
  assumes "min_wish pf i (it # its) = Some wish"
  obtains a b where "item_poll_at pf i it = Some a" "min_wish pf i its = Some b"
    "\<And>now. (\<exists>t \<le> now. a = Some t) \<or> (\<exists>t \<le> now. b = Some t) \<Longrightarrow> \<exists>t \<le> now. wish = Some t"
proof -
  obtain a b where ab: "item_poll_at pf i it = Some a" "min_wish pf i its = Some b"
    "wish = (case (a, b) of (None, b) \<Rightarrow> b | (a, None) \<Rightarrow> a | (Some x, Some y) \<Rightarrow> Some (min x y))"
    using assms by (auto split: Option.bind_split_asm)
  show thesis by (rule that [OF ab(1,2)]) (auto simp: ab(3) min_le_iff_disj split: option.split)
qed

lemma ss_items_simps [simp]: "ss_items [] = []" "ss_items (None # slots) = ss_items slots" "ss_items (Some it # slots) = it # ss_items slots"
  by (simp_all add: ss_items_def List.map_filter_def)

lemma egress_loop_due:
  assumes "egress_loop pf tx token clock k slots i f = Some (changed, frames, slots', i', f')" "frames \<noteq> []"
    and "min_wish pf j (ss_items slots) = Some wish" and "same_view j i" and "instant_from_millis 0 \<le> if_now j"
  shows "\<exists>t \<le> if_now j. wish = Some t"
  using assms(1-4)
proof (induction slots arbitrary: k i f changed frames slots' i' f' wish)
  case Nil
  then show ?case by simp
next
  case (Cons slot slots)
  show ?case
  proof (cases slot)
    case None
    then show ?thesis using Cons by (auto split: Option.bind_split_asm)
  next
    case (Some it)
    have wc: "min_wish pf j (it # ss_items slots) = Some wish" using Cons.prems(3) Some by (simp only: ss_items_simps)
    obtain a b where ab: "item_poll_at pf j it = Some a" "min_wish pf j (ss_items slots) = Some b"
      and wish: "\<And>now. (\<exists>t \<le> now. a = Some t) \<or> (\<exists>t \<le> now. b = Some t) \<Longrightarrow> \<exists>t \<le> now. wish = Some t"
      by (rule min_wish_Cons [OF wc]) blast
    have now: "if_now i = if_now j" using Cons.prems(4) by (simp add: same_view_def)
    have later: ?thesis if "egress_loop pf tx token clock (Suc k) slots i1 f1 = Some (ch, fs, sl, i2, f2)" "fs \<noteq> []" "same_view i i1"
      for i1 f1 ch fs sl i2 f2
      using Cons.IH [OF that(1,2) ab(2)] same_view_trans [OF Cons.prems(4) that(3)] wish by blast
    obtain permitted m where e: "egress_permitted (if_now i) (has_neighbor pf i) (item_meta it) = Some (permitted, m)"
      using Cons.prems(1) Some by (auto split: Option.bind_split_asm)
    show ?thesis
    proof (cases permitted)
      case False
      then show ?thesis using Cons.prems(1,2) Some e by (auto split: Option.bind_split_asm intro: later)
    next
      case True
      obtain p res s fs i1 f1 where d: "egress_dispatch (respond pf tx (token k) i f) (pf\<lparr>pf_tsval := clock k\<rparr>) i (item_socket it) = Some (p, res, s)"
        and send: "egress_send pf tx (token k) p i f = Some (fs, i1, f1)"
        using Cons.prems(1) Some e True by (auto split: Option.bind_split_asm)
      show ?thesis
      proof (cases p)
        case None
        then have "fs = []" "i1 = i" using send by (auto simp: egress_send_def)
        then show ?thesis using Cons.prems(1,2) Some e True d send None
          by (auto simp: Let_def split: Option.bind_split_asm sum.split_asm egress_error.split_asm intro: later)
      next
        case (Some q)
        have "item_poll_at pf i it = Some a" using ab(1) same_view_item [OF Cons.prems(4)] by simp
        then have "\<exists>t \<le> if_now i. a = Some t"
          using item_due e True d Some assms(5) now by metis
        then show ?thesis using wish now by simp
      qed
    qed
  qed
qed

lemma ipv4_egress_empty: "ipv4_egress token tx i f = Some (frames, f') \<Longrightarrow> frames \<noteq> [] \<Longrightarrow> \<not> fr_is_empty f"
  by (auto simp: ipv4_egress_def Let_def fr_finished_def fr_is_empty_def fr_reset_def split: if_split_asm)

text \<open>
  C9: The interface never oversleeps. Whenever \<open>poll_egress\<close> would put a frame on the wire now, for a socket of any kind, for the
  discovery of a neighbor or for the next fragment of a packet, \<open>poll_at\<close> has asked to be called now or earlier.
\<close>

theorem interface_poll_at_covers_egress:
  assumes egress: "poll_egress pf tx frag_token token clock now slots t = Some (changed, frames, slots', t')" and "frames \<noteq> []"
    and poll_at: "iface_poll_at pf now slots t = Some (wish, t'')" and now: "instant_from_millis 0 \<le> now"
  shows "\<exists>at \<le> now. wish = Some at"
proof (cases "fr_is_empty (in_fragmenter t)")
  case False
  then show ?thesis using poll_at now by (auto simp: iface_poll_at_def set_now_def)
next
  case True
  let ?i = "in_inner (set_now now t)"
  have wish: "min_wish pf ?i (ss_items slots) = Some wish"
    using poll_at True by (auto simp: iface_poll_at_def set_now_def split: Option.bind_split_asm)
  obtain f frs f' i' ch sl where "ipv4_egress frag_token tx ?i (in_fragmenter t) = Some ([], f)"
    and "egress_loop pf tx token clock 0 slots ?i f = Some (ch, frs, sl, i', f')" "frs = frames"
    using egress ipv4_egress_empty True
    by (fastforce simp: poll_egress_def socket_egress_def set_now_def split: Option.bind_split_asm)
  then show ?thesis using egress_loop_due [of pf tx token clock 0 slots ?i f ch frames sl i' f' ?i wish] assms(2) wish now
    by (simp add: set_now_def)
qed

section \<open>A wait that is over\<close>

lemma ipv4_egress_idle:
  assumes "fr_is_empty f" obtains f' where "ipv4_egress token tx i f = Some ([], f')" "fr_is_empty f'"
  using assms by (cases "fr_finished f") (simp_all add: ipv4_egress_def fr_is_empty_def fr_reset_def)

lemma udp_closed_quiet:
  "udp_dispatch emit addrs (udp_close s) = Some (None, Inr (), udp_close s)" "udp_poll_at (udp_close s) = PollIngress"
proof -
  have "pb_is_empty (udp_tx (udp_close s))" by (simp add: udp_close_def pb_is_empty_def pb_reset_def rb_clear_def rb_is_empty_def rb_len_def)
  then show "udp_dispatch emit addrs (udp_close s) = Some (None, Inr (), udp_close s)" "udp_poll_at (udp_close s) = PollIngress"
    by (simp_all add: udp_dispatch_def udp_poll_at_def pb_dequeue_with_empty)
qed

text \<open>
  C28: A wait that nobody ends. A socket whose neighbor was missing, and that was closed since, has nothing to send, but its metadata
  still wait for the neighbor. As soon as the silent time is over, \<open>poll_egress\<close> does nothing and leaves the socket as it is, and
  \<open>poll_delay\<close> answers 0, at every later time again, until the neighbor shows up: a program that waits as it is told spins.
\<close>

theorem stale_wait_spins:
  assumes frag: "fr_is_empty (in_fragmenter t)" and over: "instant_add t0 DISCOVERY_SILENT_TIME \<le> now"
    and missing: "has_neighbor pf (in_inner (set_now now t)) a = Some False"
    and it: "it = \<lparr>item_meta = neighbor_missing t0 a m, item_socket = SockUdp (udp_close s)\<rparr>"
  shows "(\<exists>f. poll_egress pf tx frag_token token clock now [Some it] t =
             Some (False, [], [Some it], (set_now now t)\<lparr>in_fragmenter := f\<rparr>) \<and> fr_is_empty f) \<and>
    poll_delay pf now [Some it] t = Some (Some (duration_from_millis 0), set_now now t)"
proof
  let ?i = "in_inner (set_now now t)"
  have i: "if_now ?i = now" "in_fragmenter (set_now now t) = in_fragmenter t" by (simp_all add: set_now_def)
  obtain f where f: "ipv4_egress frag_token tx ?i (in_fragmenter t) = Some ([], f)" "fr_is_empty f"
    by (rule ipv4_egress_idle [OF frag])
  have "egress_permitted now (has_neighbor pf ?i) (item_meta it) = Some (True, item_meta it)"
    using over missing by (simp add: egress_permitted_def it neighbor_missing_def)
  moreover have "egress_dispatch emit pf' ?i (item_socket it) = Some (None, Inr (), item_socket it)" for emit and pf' :: "'a platform"
    by (simp add: egress_dispatch_def it udp_closed_quiet)
  ultimately have "poll_egress pf tx frag_token token clock now [Some it] t = Some (False, [], [Some it], (set_now now t)\<lparr>in_fragmenter := f\<rparr>)"
    using f(1) by (simp add: poll_egress_def socket_egress_def i egress_send_def)
  then show "\<exists>f. poll_egress pf tx frag_token token clock now [Some it] t =
             Some (False, [], [Some it], (set_now now t)\<lparr>in_fragmenter := f\<rparr>) \<and> fr_is_empty f" using f(2) by blast
  have "item_poll_at pf ?i it = Some (Some (instant_add t0 DISCOVERY_SILENT_TIME))"
    using missing by (simp add: item_poll_at_def it socket_poll_at_def udp_closed_quiet meta_poll_at_def neighbor_missing_def)
  then show "poll_delay pf now [Some it] t = Some (Some (duration_from_millis 0), set_now now t)"
    using frag over i by (simp add: poll_delay_def iface_poll_at_def Let_def leD)
qed

text \<open>
  An interface on a medium of IP packets with the address 192.168.1.2/24, and the same on Ethernet, where no neighbor is known; one
  socket has a datagram to send.
\<close>

definition demo_poll_interface :: "medium \<Rightarrow> (ip_address \<times> neighbor) list interface" where
  "demo_poll_interface md = \<lparr>in_inner = \<lparr>if_caps = \<lparr>dc_medium = md, max_transmission_unit = 1514, max_burst_size = None, dc_checksum = caps_default\<rparr>,
       if_now = instant_zero, if_neighbor_cache = \<lparr>nc_storage = [], silent_until = instant_zero\<rparr>, if_hardware_addr = HwEthernet 0x020000000001,
       if_ipv4_id = 1, if_ip_addrs = [Cidr4 \<lparr>v4_address = 0xc0a80102, v4_prefix_len = 24\<rparr>], if_any_ip = False, if_routes = []\<rparr>,
     in_assembler = pas_new 1 False 8 4, in_reassembly_timeout = duration_from_secs 60, in_fragmenter = fragmenter_new 8\<rparr>"

definition demo_poll_slots :: slots where "demo_poll_slots = [None, Some (new_item 1 (SockUdp demo_udp_busy))]"

definition demo_header :: "ipv4_address ip_header" where
  "demo_header = \<lparr>ih_src_addr = 0xc0a80102, ih_dst_addr = 0xc0a80101, ih_next_header = ProtoUdp, ih_payload_len = 10, ih_hop_limit = 64\<rparr>"

definition demo_udp_repr :: udp_repr where "demo_udp_repr = \<lparr>udp_repr_src_port = 53, udp_repr_dst_port = 99\<rparr>"

lemma demo_udp_busy_dispatch:
  "\<exists>s'. udp_dispatch emit [Cidr4 \<lparr>v4_address = 0xc0a80102, v4_prefix_len = 24\<rparr>] demo_udp_busy =
     Some (Some (packet_meta_default, Ipv4Repr demo_header, demo_udp_repr, [1, 2]), emit (packet_meta_default, Ipv4Repr demo_header, demo_udp_repr, [1, 2]), s')"
proof -
  let ?addrs = "[Cidr4 \<lparr>v4_address = 0xc0a80102, v4_prefix_len = 24\<rparr>]"
  let ?f = "\<lambda>m xs. (case udp_packet_for ?addrs demo_udp_busy m xs of
           None \<Rightarrow> Inl None
         | Some None \<Rightarrow> Inr None
         | Some (Some p) \<Rightarrow> (case emit p of Inl e \<Rightarrow> Inl (Some (p, e)) | Inr _ \<Rightarrow> Inr (Some p)), m, xs)"
  have tx: "pb_inv (udp_tx demo_udp_busy)" using demo_udp_busy_inv by (simp add: udp_inv_def)
  have p: "udp_packet_for ?addrs demo_udp_busy demo_meta [1, 2] =
      Some (Some (packet_meta_default, Ipv4Repr demo_header, demo_udp_repr, [1, 2]))" by code_simp
  show ?thesis
  proof (cases rule: pb_dequeue_with_ok [OF tx, of ?f, case_names len none some])
    case (none b)
    then show ?thesis using demo_udp_busy_queued by simp
  next
    case (some m xs rest b)
    then have "m = demo_meta" "xs = [1, 2]" using demo_udp_busy_queued by simp_all
    then show ?thesis using some(2) p
      by (cases "emit (packet_meta_default, Ipv4Repr demo_header, demo_udp_repr, [1, 2])") (simp_all add: udp_dispatch_def)
  qed simp
qed

lemma demo_poll_dispatch:
  "\<exists>frame i'. dispatch_ip_v4 ops (\<lambda>n. replicate n 0) \<lparr>p4_header = demo_header, p4_payload = PlUdp demo_udp_repr [1, 2]\<rparr>
     (in_inner (set_now now (demo_poll_interface MediumIp))) f = Some (Inr (), [frame], i', f)"
proof -
  have "emit_ip_v4 \<lparr>dc_medium = MediumIp, max_transmission_unit = 1514, max_burst_size = None, dc_checksum = caps_default\<rparr>
      demo_header (PlUdp demo_udp_repr [1, 2]) (replicate 30 0) \<noteq> None" by code_simp
  then obtain frame where "emit_ip_v4 \<lparr>dc_medium = MediumIp, max_transmission_unit = 1514, max_burst_size = None, dc_checksum = caps_default\<rparr>
      demo_header (PlUdp demo_udp_repr [1, 2]) (replicate 30 0) = Some frame" by blast
  then show ?thesis
    by (simp add: dispatch_ip_v4_def next_ipv4_frag_ident_def set_now_def demo_poll_interface_def dc_ip_mtu_def link_frame_def ipv4_buffer_len_def IPV4_HEADER_LEN_def Let_def demo_header_def)
qed

lemma demo_poll_egress:
  "\<exists>changed frames slots' t'. poll_egress demo_platform (\<lambda>n. replicate n 0) True (\<lambda>_. True) (\<lambda>_. 0) now demo_poll_slots
     (demo_poll_interface MediumIp) = Some (changed, frames, slots', t') \<and> frames \<noteq> []"
proof -
  let ?t = "set_now now (demo_poll_interface MediumIp)" and ?tx = "\<lambda>n. replicate n 0 :: u8 list"
  let ?p = "\<lparr>p4_header = demo_header, p4_payload = PlUdp demo_udp_repr [1, 2]\<rparr>"
  have t: "in_fragmenter ?t = fragmenter_new 8" "fr_is_empty (fragmenter_new 8)"
    "if_ip_addrs (in_inner ?t) = [Cidr4 \<lparr>v4_address = 0xc0a80102, v4_prefix_len = 24\<rparr>]"
    by (simp_all add: set_now_def demo_poll_interface_def fragmenter_new_def fr_is_empty_def)
  obtain f where f: "ipv4_egress True ?tx (in_inner ?t) (fragmenter_new 8) = Some ([], f)" by (rule ipv4_egress_idle [OF t(2)])
  obtain frame i' where d: "dispatch_ip_v4 (pf_map demo_platform) ?tx ?p (in_inner ?t) f = Some (Inr (), [frame], i', f)"
    using demo_poll_dispatch by blast
  define emit where "emit = respond demo_platform ?tx True (in_inner ?t) f"
  have e: "emit (Some ?p) = Inr ()" by (simp add: emit_def respond_def d)
  obtain s' where "udp_dispatch (\<lambda>(_, ip, r, data). emit (packet_v4_of ip (PlUdp r data)))
      [Cidr4 \<lparr>v4_address = 0xc0a80102, v4_prefix_len = 24\<rparr>] demo_udp_busy =
      Some (Some (packet_meta_default, Ipv4Repr demo_header, demo_udp_repr, [1, 2]), Inr (), s')"
    using demo_udp_busy_dispatch [of "\<lambda>(_, ip, r, data). emit (packet_v4_of ip (PlUdp r data))"] e by (auto simp: packet_v4_of_def)
  then have "egress_dispatch emit pf (in_inner ?t) (SockUdp demo_udp_busy) = Some (Some ?p, Inr (), SockUdp s')" for pf :: "(ip_address \<times> neighbor) list platform"
    by (simp add: egress_dispatch_def t(3) packet_v4_of_def)
  then show ?thesis using f d
    by (auto simp: poll_egress_def t(1) socket_egress_def demo_poll_slots_def new_item_def egress_permitted_def emit_def egress_send_def)
qed

theorem stale_wait_spins_witness:
  "poll_delay demo_platform (instant_from_millis 5000)
      [Some \<lparr>item_meta = neighbor_missing (instant_from_millis 10) (Ipv4 0xc0a80101) (item_meta (new_item 0 (SockUdp demo_udp_busy))),
             item_socket = SockUdp (udp_close demo_udp_busy)\<rparr>] (demo_poll_interface MediumEthernet) =
    Some (Some (duration_from_millis 0), set_now (instant_from_millis 5000) (demo_poll_interface MediumEthernet))"
proof -
  have "fr_is_empty (in_fragmenter (demo_poll_interface MediumEthernet))"
    by (simp add: demo_poll_interface_def fragmenter_new_def fr_is_empty_def)
  moreover have "instant_add (instant_from_millis 10) DISCOVERY_SILENT_TIME \<le> instant_from_millis 5000"
    by (simp add: DISCOVERY_SILENT_TIME_def duration_from_millis_def instant_from_millis_def instant_add_def wrap_i64_def wrap_u64_def less_eq_instant_def)
  moreover have "has_neighbor demo_platform (in_inner (set_now (instant_from_millis 5000) (demo_poll_interface MediumEthernet))) (Ipv4 0xc0a80101) = Some False"
  proof -
    have "iface_route [Cidr4 \<lparr>v4_address = 0xc0a80102, v4_prefix_len = 24\<rparr>] [] (Ipv4 0xc0a80101) (instant_from_millis 5000) = Some (Some (Ipv4 0xc0a80101))"
      "addr_is_unicast (Ipv4 0xc0a80101)" by code_simp+
    then show ?thesis by (simp add: has_neighbor_def demo_poll_interface_def set_now_def cache_lookup_def demo_platform_def alist_map_def)
  qed
  ultimately show ?thesis by (intro conjunct2 [OF stale_wait_spins [OF _ _ _ refl]])
qed

theorem interface_poll_at_covers_egress_witness:
  "\<exists>changed frames slots' t' wish t''.
    poll_egress demo_platform (\<lambda>n. replicate n 0) True (\<lambda>_. True) (\<lambda>_. 0) (instant_from_millis 5) demo_poll_slots (demo_poll_interface MediumIp) =
      Some (changed, frames, slots', t') \<and> frames \<noteq> [] \<and>
    iface_poll_at demo_platform (instant_from_millis 5) demo_poll_slots (demo_poll_interface MediumIp) = Some (wish, t'') \<and>
    (\<exists>at \<le> instant_from_millis 5. wish = Some at)"
proof -
  obtain changed frames slots' t' where p: "poll_egress demo_platform (\<lambda>n. replicate n 0) True (\<lambda>_. True) (\<lambda>_. 0) (instant_from_millis 5)
      demo_poll_slots (demo_poll_interface MediumIp) = Some (changed, frames, slots', t')" "frames \<noteq> []" using demo_poll_egress by blast
  obtain wish t'' where w: "iface_poll_at demo_platform (instant_from_millis 5) demo_poll_slots (demo_poll_interface MediumIp) = Some (wish, t'')"
  proof -
    have "fr_is_empty (in_fragmenter (set_now (instant_from_millis 5) (demo_poll_interface MediumIp)))"
      by (simp add: set_now_def demo_poll_interface_def fragmenter_new_def fr_is_empty_def)
    then show thesis using that
      by (simp add: iface_poll_at_def Let_def demo_poll_slots_def item_poll_at_def new_item_def socket_poll_at_def meta_poll_at_def)
  qed
  have "instant_from_millis 0 \<le> instant_from_millis 5" by code_simp
  with p w show ?thesis using interface_poll_at_covers_egress [OF p w] by blast
qed

end
